(* ===== verification/Prelude.thy ===== *)
theory Prelude
  imports Main "HOL-Library.Word" "HOL-Library.AList" "HOL-Library.Char_ord"
    "HOL-Library.List_Lexorder" "HOL-Library.Multiset"
    "HOL-Library.Code_Target_Nat"
begin

text \<open>
  Shared vocabulary of the development: the machine integers and clock values of the Go
  code, the operations of Go's \<open>strings\<close> and \<open>bufio\<close> packages that the sources call, and
  the generic lemmas on lists, association lists and strings that several components use.

  A Go string is a \<^typ>\<open>string\<close>, that is a list of bytes. \<open>strings.ToLower\<close>,
  \<open>strings.TrimSpace\<close>, \<open>strings.EqualFold\<close> and \<open>strings.Fields\<close> are modelled on ASCII, where they agree with
  Go; names on the wire and rule files are ASCII (IDNs travel as punycode).
  A Go map is an association list with distinct keys: \<open>map_of\<close> reads it,
  \<open>AList.update\<close> and \<open>AList.delete\<close> write it. Where the iteration order of a Go map
  matters, the order is an argument.
  Times are nanoseconds in \<^typ>\<open>int\<close>; a \<open>time.Time\<close> that may be the zero time is an
  option.
\<close>

named_theorems go_string \<comment> \<open>facts about Go's string operations\<close>
named_theorems keeps_inv \<comment> \<open>operation preserves its component's invariant\<close>

type_synonym u8 = "8 word"
type_synonym u16 = "16 word"
type_synonym u32 = "32 word"
type_synonym u64 = "64 word"
type_synonym go_time = int
type_synonym duration = int
type_synonym ('k, 'v) go_map = "('k \<times> 'v) list"

abbreviation second :: duration where "second \<equiv> 1000000000"
abbreviation minute :: duration where "minute \<equiv> 60 * second"
abbreviation hour :: duration where "hour \<equiv> 60 * minute"

section \<open>Go strings\<close>

definition char_code :: "char \<Rightarrow> nat" where
  "char_code c = of_char c"

definition to_lower_char :: "char \<Rightarrow> char" where
  "to_lower_char c =
     (if 65 \<le> char_code c \<and> char_code c \<le> 90 then char_of (char_code c + 32) else c)"

definition to_lower :: "string \<Rightarrow> string" where
  "to_lower s = map to_lower_char s"

definition is_space :: "char \<Rightarrow> bool" where
  "is_space c \<longleftrightarrow> char_code c \<in> {9, 10, 11, 12, 13, 32}"

definition drop_while_end :: "('a \<Rightarrow> bool) \<Rightarrow> 'a list \<Rightarrow> 'a list" where
  "drop_while_end p xs = rev (dropWhile p (rev xs))"

definition trim_space :: "string \<Rightarrow> string" where
  "trim_space s = drop_while_end is_space (dropWhile is_space s)"

definition dot :: char where "dot = CHR ''.''"

text \<open>\<open>strings.TrimRight(s, ".")\<close>: every trailing dot goes.\<close>

definition trim_right_dots :: "string \<Rightarrow> string" where
  "trim_right_dots s = drop_while_end (\<lambda>c. c = dot) s"

definition has_prefix :: "string \<Rightarrow> string \<Rightarrow> bool" where
  "has_prefix s p \<longleftrightarrow> take (length p) s = p"

definition has_suffix :: "string \<Rightarrow> string \<Rightarrow> bool" where
  "has_suffix s p \<longleftrightarrow> length p \<le> length s \<and> drop (length s - length p) s = p"

definition trim_suffix :: "string \<Rightarrow> string \<Rightarrow> string" where
  "trim_suffix s p = (if has_suffix s p then take (length s - length p) s else s)"

definition trim_prefix :: "string \<Rightarrow> string \<Rightarrow> string" where
  "trim_prefix s p = (if has_prefix s p then drop (length p) s else s)"

text \<open>\<open>strings.Contains\<close>\<close>

fun contains_str :: "string \<Rightarrow> string \<Rightarrow> bool" where
  "contains_str [] sub = (sub = [])"
| "contains_str (c # s) sub = (has_prefix (c # s) sub \<or> contains_str s sub)"

text \<open>\<open>strings.IndexByte\<close>, \<open>strings.IndexAny\<close> and \<open>strings.LastIndex\<close> of one byte; \<open>None\<close> is -1.\<close>

fun index_where :: "('a \<Rightarrow> bool) \<Rightarrow> 'a list \<Rightarrow> nat option" where
  "index_where p [] = None"
| "index_where p (x # xs) = (if p x then Some 0 else map_option Suc (index_where p xs))"

definition index_byte :: "string \<Rightarrow> char \<Rightarrow> nat option" where
  "index_byte s c = index_where (\<lambda>x. x = c) s"

definition last_index_byte :: "string \<Rightarrow> char \<Rightarrow> nat option" where
  "last_index_byte s c =
     map_option (\<lambda>i. length s - 1 - i) (index_where (\<lambda>x. x = c) (rev s))"

text \<open>\<open>strings.EqualFold\<close>\<close>

definition equal_fold :: "string \<Rightarrow> string \<Rightarrow> bool" where
  "equal_fold a b \<longleftrightarrow> to_lower a = to_lower b"

text \<open>\<open>strings.Fields\<close>: the maximal runs of non-space bytes.\<close>

fun fields_acc :: "string \<Rightarrow> string \<Rightarrow> string list" where
  "fields_acc cur [] = (if cur = [] then [] else [rev cur])"
| "fields_acc cur (c # s) =
     (if is_space c then (if cur = [] then fields_acc [] s else rev cur # fields_acc [] s)
      else fields_acc (c # cur) s)"

definition go_fields :: "string \<Rightarrow> string list" where
  "go_fields s = fields_acc [] s"

text \<open>
  \<open>bufio.ScanLines\<close>: cut at each newline, drop one trailing carriage return of a line, and
  emit no final empty line.
\<close>

definition drop_cr :: "string \<Rightarrow> string" where
  "drop_cr s = (if s \<noteq> [] \<and> last s = char_of (13::nat) then butlast s else s)"

fun scan_lines_acc :: "string \<Rightarrow> string \<Rightarrow> string list" where
  "scan_lines_acc cur [] = (if cur = [] then [] else [drop_cr (rev cur)])"
| "scan_lines_acc cur (c # s) =
     (if char_code c = 10 then drop_cr (rev cur) # scan_lines_acc [] s
      else scan_lines_acc (c # cur) s)"

definition scan_lines :: "string \<Rightarrow> string list" where
  "scan_lines s = scan_lines_acc [] s"

subsection \<open>Facts about Go strings\<close>

lemma char_code_less [simp]: "char_code c < 256"
  by (simp add: char_code_def)

lemma char_code_char_of: "n < 256 \<Longrightarrow> char_code (char_of n) = n"
  by (simp add: char_code_def)

lemma char_code_inj: "char_code c = char_code d \<longleftrightarrow> c = d"
  by (simp add: char_code_def)

lemma to_lower_char_idem [simp]: "to_lower_char (to_lower_char c) = to_lower_char c"
  by (simp add: to_lower_char_def char_code_char_of)

lemma to_lower_idem [simp]: "to_lower (to_lower s) = to_lower s"
  by (simp add: to_lower_def)

lemma to_lower_Nil [simp]: "to_lower [] = []"
  by (simp add: to_lower_def)

lemma to_lower_eq_Nil [simp]: "to_lower s = [] \<longleftrightarrow> s = []"
  by (simp add: to_lower_def)

lemma length_to_lower [simp]: "length (to_lower s) = length s"
  by (simp add: to_lower_def)

lemma to_lower_append [go_string]: "to_lower (a @ b) = to_lower a @ to_lower b"
  by (simp add: to_lower_def)

lemma to_lower_char_dot [simp]: "to_lower_char c = dot \<longleftrightarrow> c = dot"
proof -
  have d: "char_code dot = 46" by (simp add: dot_def char_code_def)
  show ?thesis
  proof (cases "65 \<le> char_code c \<and> char_code c \<le> 90")
    case True
    then have "char_code (to_lower_char c) = char_code c + 32"
      by (simp add: to_lower_char_def char_code_char_of)
    with True d show ?thesis by auto
  next
    case False
    then have "to_lower_char c = c" by (auto simp: to_lower_char_def)
    then show ?thesis by simp
  qed
qed

lemma drop_while_end_Nil [simp]: "drop_while_end p [] = []"
  by (simp add: drop_while_end_def)

lemma drop_while_end_idem [simp]: "drop_while_end p (drop_while_end p xs) = drop_while_end p xs"
  by (simp add: drop_while_end_def)

lemma drop_while_end_snoc:
  "drop_while_end p (xs @ [x]) = (if p x then drop_while_end p xs else xs @ [x])"
  by (simp add: drop_while_end_def)

lemma last_drop_while_end: "drop_while_end p xs \<noteq> [] \<Longrightarrow> \<not> p (last (drop_while_end p xs))"
  by (metis drop_while_end_def hd_dropWhile hd_rev rev_rev_ident rev.simps(1))

lemma drop_while_end_id: "xs \<noteq> [] \<Longrightarrow> \<not> p (last xs) \<Longrightarrow> drop_while_end p xs = xs"
  by (cases xs rule: rev_cases) (simp_all add: drop_while_end_snoc)

lemma trim_space_id: "\<forall>c\<in>set s. \<not> is_space c \<Longrightarrow> trim_space s = s"
proof -
  assume a: "\<forall>c\<in>set s. \<not> is_space c"
  then have "dropWhile is_space s = s" by (cases s) auto
  moreover have "drop_while_end is_space s = s"
    using a by (cases "s = []") (simp_all add: drop_while_end_id)
  ultimately show ?thesis by (simp add: trim_space_def)
qed

lemma to_lower_trim_right_dots [go_string]:
  "to_lower (trim_right_dots s) = trim_right_dots (to_lower s)"
  by (induction s rule: rev_induct)
     (simp_all add: trim_right_dots_def drop_while_end_snoc to_lower_def)

lemma has_prefix_iff: "has_prefix s p \<longleftrightarrow> (\<exists>t. s = p @ t)"
  by (metis append_eq_conv_conj append_take_drop_id has_prefix_def)

lemma has_suffix_iff: "has_suffix s p \<longleftrightarrow> (\<exists>t. s = t @ p)"
  by (auto simp: has_suffix_def) (metis append_take_drop_id)

lemma has_prefix_refl [simp]: "has_prefix s s"
  by (simp add: has_prefix_def)

lemma has_prefix_Nil [simp]: "has_prefix s []"
  by (simp add: has_prefix_def)

lemma contains_str_iff: "contains_str s sub \<longleftrightarrow> (\<exists>a b. s = a @ sub @ b)"
proof (induction s)
  case Nil
  show ?case by auto
next
  case (Cons c s)
  have "(\<exists>a b. c # s = a @ sub @ b) \<longleftrightarrow> (\<exists>b. c # s = sub @ b) \<or> (\<exists>a b. s = a @ sub @ b)"
    by (metis (no_types, opaque_lifting) Cons_eq_append_conv append_Cons append_Nil)
  then show ?case using Cons by (auto simp: has_prefix_iff)
qed

lemma index_where_Some:
  "index_where p xs = Some i \<longleftrightarrow> i < length xs \<and> p (xs ! i) \<and> (\<forall>j<i. \<not> p (xs ! j))"
proof (induction xs arbitrary: i)
  case Nil
  show ?case by simp
next
  case (Cons x xs)
  show ?case
    by (cases i) (auto simp: Cons.IH nth_Cons split: nat.splits)
qed

lemma index_where_None: "index_where p xs = None \<longleftrightarrow> (\<forall>x\<in>set xs. \<not> p x)"
  by (induction xs) auto

section \<open>Association lists as Go maps\<close>

lemma map_of_update [simp]: "map_of (AList.update k v m) = (map_of m)(k \<mapsto> v)"
  by (rule update_conv')

lemma map_of_delete [simp]: "map_of (AList.delete k m) = (map_of m)(k := None)"
  by (rule delete_conv')

lemma length_update_new:
  "k \<notin> fst ` set m \<Longrightarrow> length (AList.update k v m) = Suc (length m)"
  by (induction m) auto

lemma length_update_old:
  "k \<in> fst ` set m \<Longrightarrow> length (AList.update k v m) = length m"
  by (induction m) auto

lemma length_delete_old:
  "distinct (map fst m) \<Longrightarrow> k \<in> fst ` set m \<Longrightarrow> Suc (length (AList.delete k m)) = length m"
proof (induction m)
  case Nil
  then show ?case by simp
next
  case (Cons p m)
  show ?case
  proof (cases "fst p = k")
    case True
    with Cons.prems have "k \<notin> fst ` set m" by auto
    then have "AList.delete k m = m" by (force simp: AList.delete_eq filter_id_conv)
    with True show ?thesis by (auto simp: AList.delete_eq)
  next
    case False
    with Cons have "Suc (length (AList.delete k m)) = length m" by auto
    with False show ?thesis by (auto simp: AList.delete_eq)
  qed
qed

lemma distinct_map_fst_delete: "distinct (map fst m) \<Longrightarrow> distinct (map fst (AList.delete k m))"
  by (rule distinct_delete)

lemma map_of_eq_Some_iff_set:
  "distinct (map fst m) \<Longrightarrow> map_of m k = Some v \<longleftrightarrow> (k, v) \<in> set m"
  by (simp add: map_of_eq_Some_iff)

section \<open>Lists\<close>

lemma last_take_nth: "0 < n \<Longrightarrow> n \<le> length xs \<Longrightarrow> last (take n xs) = xs ! (n - 1)"
  by (cases n) (simp_all add: take_Suc_conv_app_nth)

end
