(* ===== verification/Go_Net.thy ===== *)
theory Go_Net
  imports Prelude
begin

unbundle bit_operations_syntax

text \<open>
  The part of Go's \<open>net\<close>, \<open>netip\<close>, \<open>encoding/binary\<close> and \<open>sort\<close> packages that the sources
  call: \<open>net.IP\<close> values with \<open>To4\<close>, \<open>Equal\<close>, \<open>IsUnspecified\<close> and the IPv4 \<open>String\<close>,
  \<open>net.ParseIP\<close> and \<open>net.ParseCIDR\<close>, big-endian integers, \<open>net.SplitHostPort\<close>,
  \<open>net.JoinHostPort\<close> and the binary search \<open>sort.Search\<close>. The parsers follow the standard library's loops.
\<close>

section \<open>net.IP\<close>

type_synonym ip = "u8 list"

definition v4_in_v6_prefix :: ip where
  "v4_in_v6_prefix = replicate 10 0 @ [255, 255]"

definition to4 :: "ip \<Rightarrow> ip option" where
  "to4 a = (if length a = 4 then Some a
            else if length a = 16 \<and> take 12 a = v4_in_v6_prefix then Some (drop 12 a)
            else None)"

definition ip_equal :: "ip \<Rightarrow> ip \<Rightarrow> bool" where
  "ip_equal a b =
     (if length a = length b then a = b
      else if length a = 4 \<and> length b = 16 then take 12 b = v4_in_v6_prefix \<and> a = drop 12 b
      else if length a = 16 \<and> length b = 4 then take 12 a = v4_in_v6_prefix \<and> drop 12 a = b
      else False)"

definition ip_unspecified :: "ip \<Rightarrow> bool" where
  "ip_unspecified a \<longleftrightarrow> ip_equal a (v4_in_v6_prefix @ [0, 0, 0, 0]) \<or> ip_equal a (replicate 16 0)"

lemma to4_length: "to4 a = Some b \<Longrightarrow> length b = 4"
  by (auto simp: to4_def split: if_splits)

lemma to4_of_4 [simp]: "length a = 4 \<Longrightarrow> to4 a = Some a"
  by (simp add: to4_def)

lemma ip_equal_refl [simp]: "ip_equal a a"
  by (simp add: ip_equal_def)

lemma ip_equal_sym: "ip_equal a b = ip_equal b a"
  by (auto simp: ip_equal_def)

text \<open>\<open>binary.BigEndian.Uint32\<close> and \<open>PutUint32\<close>.\<close>

definition be_uint32 :: "u8 list \<Rightarrow> u32" where
  "be_uint32 b = ucast (b ! 3) OR push_bit 8 (ucast (b ! 2)) OR
                 push_bit 16 (ucast (b ! 1)) OR push_bit 24 (ucast (b ! 0))"

definition put_uint32 :: "u32 \<Rightarrow> u8 list" where
  "put_uint32 v = [ucast (drop_bit 24 v), ucast (drop_bit 16 v), ucast (drop_bit 8 v), ucast v]"

lemma length_put_uint32 [simp]: "length (put_uint32 v) = 4"
  by (simp add: put_uint32_def)

lemma be_put_uint32 [simp]: "be_uint32 (put_uint32 v) = v"
proof (rule bit_word_eqI)
  fix n assume n: "n < LENGTH(32)"
  consider "n < 8" | "8 \<le> n \<and> n < 16" | "16 \<le> n \<and> n < 24" | "24 \<le> n \<and> n < 32"
    using n by fastforce
  then show "bit (be_uint32 (put_uint32 v)) n = bit v n"
    by cases (auto simp: be_uint32_def put_uint32_def bit_simps)
qed

lemma length4E: "length a = 4 \<Longrightarrow> \<exists>w x y z. a = [w, x, y, z]"
  by (auto simp: numeral_eq_Suc length_Suc_conv)

section \<open>Decimal numbers\<close>

definition is_digit :: "char \<Rightarrow> bool" where
  "is_digit c \<longleftrightarrow> 48 \<le> char_code c \<and> char_code c \<le> 57"

definition digit_val :: "char \<Rightarrow> nat" where
  "digit_val c = char_code c - 48"

fun show_nat :: "nat \<Rightarrow> string" where
  "show_nat n = (if n < 10 then [char_of (48 + n)]
                 else show_nat (n div 10) @ [char_of (48 + n mod 10)])"

declare show_nat.simps [simp del]

lemma digit_char:
  "d < 10 \<Longrightarrow> is_digit (char_of (48 + d)) \<and> digit_val (char_of (48 + d)) = d"
  by (simp add: is_digit_def digit_val_def char_code_char_of)

lemma show_nat_ne [simp]: "show_nat n \<noteq> []"
  by (subst show_nat.simps) simp

lemma show_nat_digits: "c \<in> set (show_nat n) \<Longrightarrow> is_digit c"
proof (induction n rule: show_nat.induct)
  case (1 n)
  show ?case
  proof (cases "n < 10")
    case True
    with "1.prems" show ?thesis by (subst (asm) show_nat.simps) (simp add: digit_char)
  next
    case False
    with "1.prems" have "c \<in> set (show_nat (n div 10)) \<or> c = char_of (48 + n mod 10)"
      by (subst (asm) show_nat.simps) auto
    with "1.IH" [OF False] digit_char [of "n mod 10"] show ?thesis
      by (metis mod_less_divisor zero_less_numeral)
  qed
qed

text \<open>
  \<open>net.dtoi\<close>: the value of the leading digits and their count; it fails without a digit and
  at 0xFFFFFF.
\<close>

fun dtoi_loop :: "nat \<Rightarrow> nat \<Rightarrow> string \<Rightarrow> (nat \<times> nat) option" where
  "dtoi_loop n i [] = (if i = 0 then None else Some (n, i))"
| "dtoi_loop n i (c # s) =
     (if is_digit c then
        let n' = n * 10 + digit_val c in
        if n' \<ge> 16777215 then None else dtoi_loop n' (Suc i) s
      else if i = 0 then None else Some (n, i))"

definition dtoi :: "string \<Rightarrow> (nat \<times> nat) option" where
  "dtoi s = dtoi_loop 0 0 s"

section \<open>netip.ParseAddr\<close>

datatype addr = V4 "u8 list" | V6 "u8 list"

text \<open>\<open>parseIPv4Fields\<close>; \<open>prev\<close> is the byte before, \<open>dl\<close> the digits of the current octet.\<close>

fun v4_loop :: "char option \<Rightarrow> nat \<Rightarrow> nat \<Rightarrow> nat \<Rightarrow> u8 list \<Rightarrow> string \<Rightarrow> u8 list option" where
  "v4_loop prev val pos dl fs [] = (if pos < 3 then None else Some (fs @ [word_of_nat val]))"
| "v4_loop prev val pos dl fs (c # s) =
     (if is_digit c then
        (if dl = 1 \<and> val = 0 then None
         else let v = val * 10 + digit_val c in
           if v > 255 then None else v4_loop (Some c) v pos (Suc dl) fs s)
      else if c = dot then
        (if prev = None \<or> s = [] \<or> prev = Some dot then None
         else if pos = 3 then None
         else v4_loop (Some c) 0 (Suc pos) 0 (fs @ [word_of_nat val]) s)
      else None)"

definition parse_v4 :: "string \<Rightarrow> u8 list option" where
  "parse_v4 s = v4_loop None 0 0 0 [] s"

definition colon :: char where "colon = CHR '':''"

definition hex_val :: "char \<Rightarrow> nat option" where
  "hex_val c = (let n = char_code c in
     if 48 \<le> n \<and> n \<le> 57 then Some (n - 48)
     else if 97 \<le> n \<and> n \<le> 102 then Some (n - 97 + 10)
     else if 65 \<le> n \<and> n \<le> 70 then Some (n - 65 + 10)
     else None)"

definition hex_run :: "string \<Rightarrow> string" where
  "hex_run s = takeWhile (\<lambda>c. hex_val c \<noteq> None) s"

definition hex_num :: "string \<Rightarrow> nat" where
  "hex_num h = foldl (\<lambda>a c. a * 16 + (case hex_val c of None \<Rightarrow> 0 | Some v \<Rightarrow> v)) 0 h"

text \<open>
  The loop of \<open>parseIPv6\<close>: \<open>bs\<close> are the bytes so far (their number is Go's \<open>i\<close>), \<open>ell\<close> the
  position of the ellipsis; the result is the state after the loop.
\<close>

function v6_loop :: "u8 list \<Rightarrow> nat option \<Rightarrow> string \<Rightarrow> (u8 list \<times> nat option \<times> string) option" where
  "v6_loop bs ell s =
     (if length bs \<ge> 16 then Some (bs, ell, s)
      else let h = hex_run s; rest = drop (length h) s in
        if length h > 4 \<or> h = [] then None
        else if rest \<noteq> [] \<and> hd rest = dot then
          (if ell = None \<and> length bs \<noteq> 12 then None
           else if length bs + 4 > 16 then None
           else map_option (\<lambda>f. (bs @ f, ell, [])) (parse_v4 s))
        else
          let bs' = bs @ [word_of_nat (hex_num h div 256), word_of_nat (hex_num h)] in
          (case rest of
             [] \<Rightarrow> Some (bs', ell, [])
           | c # t \<Rightarrow>
               if c \<noteq> colon \<or> t = [] then None
               else if hd t = colon then
                 (if ell \<noteq> None then None
                  else if tl t = [] then Some (bs', Some (length bs'), [])
                  else v6_loop bs' (Some (length bs')) (tl t))
               else v6_loop bs' ell t))"
  by pat_completeness auto
termination
  by (relation "measure (\<lambda>(bs, ell, s). 16 - length bs)") auto

declare v6_loop.simps [simp del]

definition v6_finish :: "u8 list \<times> nat option \<times> string \<Rightarrow> u8 list option" where
  "v6_finish st = (case st of (bs, ell, s) \<Rightarrow>
     if s \<noteq> [] then None
     else if length bs < 16 then
       (case ell of None \<Rightarrow> None
        | Some e \<Rightarrow> Some (take e bs @ replicate (16 - length bs) 0 @ drop e bs))
     else if ell \<noteq> None then None else Some bs)"

text \<open>A zone makes \<open>net.ParseIP\<close> and \<open>net.ParseCIDR\<close> fail, so it is refused here.\<close>

definition parse_v6 :: "string \<Rightarrow> u8 list option" where
  "parse_v6 s =
     (if CHR ''%'' \<in> set s then None
      else if has_prefix s [colon, colon] then
        (if drop 2 s = [] then Some (replicate 16 0)
         else Option.bind (v6_loop [] (Some 0) (drop 2 s)) v6_finish)
      else Option.bind (v6_loop [] None s) v6_finish)"

definition parse_addr :: "string \<Rightarrow> addr option" where
  "parse_addr s =
     (case List.find (\<lambda>c. c = dot \<or> c = colon \<or> c = CHR ''%'') s of
        None \<Rightarrow> None
      | Some c \<Rightarrow>
          if c = dot then map_option V4 (parse_v4 s)
          else if c = colon then map_option V6 (parse_v6 s)
          else None)"

text \<open>\<open>net.ParseIP\<close>: always the 16-byte form; \<open>None\<close> is the nil IP.\<close>

definition parse_ip :: "string \<Rightarrow> ip option" where
  "parse_ip s = (case parse_addr s of
     None \<Rightarrow> None
   | Some (V4 b) \<Rightarrow> Some (v4_in_v6_prefix @ b)
   | Some (V6 b) \<Rightarrow> Some b)"

section \<open>net.ParseCIDR\<close>

text \<open>A \<open>net.IPNet\<close>: the masked address, and \<open>Mask.Size()\<close> as (ones, bits).\<close>

record ipnet =
  net_ip :: ip
  net_ones :: nat
  net_bits :: nat

definition mask_byte :: "nat \<Rightarrow> u8" where
  "mask_byte n = (if n \<ge> 8 then 255 else push_bit (8 - n) 255)"

definition cidr_mask :: "nat \<Rightarrow> nat \<Rightarrow> u8 list" where
  "cidr_mask ones bits = map (\<lambda>i. mask_byte (ones - 8 * i)) [0..<bits div 8]"

definition ip_mask :: "ip \<Rightarrow> u8 list \<Rightarrow> ip" where
  "ip_mask a m = map2 (\<lambda>x y. x AND y) a m"

definition slash :: char where "slash = CHR ''/''"

definition parse_cidr :: "string \<Rightarrow> ipnet option" where
  "parse_cidr s = (case index_byte s slash of
     None \<Rightarrow> None
   | Some k \<Rightarrow>
      let a = take k s; m = drop (Suc k) s in
      (case parse_addr a of
         None \<Rightarrow> None
       | Some ad \<Rightarrow>
          let (b, bitlen) = (case ad of V4 b \<Rightarrow> (b, 32) | V6 b \<Rightarrow> (b, 128)) in
          (case dtoi m of
             None \<Rightarrow> None
           | Some (n, i) \<Rightarrow>
               if i \<noteq> length m \<or> n > bitlen then None
               else Some \<lparr>net_ip = ip_mask b (cidr_mask n bitlen), net_ones = n, net_bits = bitlen\<rparr>)))"

text \<open>\<open>net.IP.String\<close> of an IPv4 address.\<close>

definition show_v4 :: "u8 list \<Rightarrow> string" where
  "show_v4 b = show_nat (unat (b ! 0)) @ [dot] @ show_nat (unat (b ! 1)) @ [dot] @
               show_nat (unat (b ! 2)) @ [dot] @ show_nat (unat (b ! 3))"

section \<open>net.SplitHostPort and net.JoinHostPort\<close>

text \<open>
  \<open>SplitHostPort\<close>: the port follows the last colon; a bracketed host must close right before
  that colon; an unbracketed host holds no colon; no other bracket may occur.
\<close>

definition split_host_port :: "string \<Rightarrow> (string \<times> string) option" where
  "split_host_port s = (case last_index_byte s colon of
     None \<Rightarrow> None
   | Some i \<Rightarrow>
      if has_prefix s ''['' then
        (case index_byte s (CHR '']'') of
           None \<Rightarrow> None
         | Some e \<Rightarrow>
             if Suc e \<noteq> i then None
             else if CHR ''['' \<in> set (drop 1 s) \<or> CHR '']'' \<in> set (drop (Suc e) s) then None
             else Some (take (e - 1) (drop 1 s), drop (Suc i) s))
      else if colon \<in> set (take i s) then None
      else if CHR ''['' \<in> set s \<or> CHR '']'' \<in> set s then None
      else Some (take i s, drop (Suc i) s))"

definition join_host_port :: "string \<Rightarrow> string \<Rightarrow> string" where
  "join_host_port h p = (if colon \<in> set h then ''['' @ h @ '']:'' @ p else h @ '':'' @ p)"

section \<open>sort.Search\<close>

function go_search_loop :: "(nat \<Rightarrow> bool) \<Rightarrow> nat \<Rightarrow> nat \<Rightarrow> nat" where
  "go_search_loop f i j =
     (if i < j then
        let h = (i + j) div 2 in
        if \<not> f h then go_search_loop f (h + 1) j else go_search_loop f i h
      else i)"
  by pat_completeness auto
termination
  by (relation "measure (\<lambda>(f, i, j). j - i)") auto

declare go_search_loop.simps [simp del]

definition go_search :: "nat \<Rightarrow> (nat \<Rightarrow> bool) \<Rightarrow> nat" where
  "go_search n f = go_search_loop f 0 n"

lemma go_search_loop_correct:
  assumes mono: "\<And>k l. k \<le> l \<Longrightarrow> l < n \<Longrightarrow> f k \<Longrightarrow> f l"
  shows "i \<le> j \<Longrightarrow> j \<le> n \<Longrightarrow> (\<forall>k<i. \<not> f k) \<Longrightarrow> (\<forall>k. j \<le> k \<and> k < n \<longrightarrow> f k) \<Longrightarrow>
    go_search_loop f i j \<le> n \<and> (\<forall>k<go_search_loop f i j. \<not> f k) \<and>
    (\<forall>k. go_search_loop f i j \<le> k \<and> k < n \<longrightarrow> f k)"
proof (induction "j - i" arbitrary: i j rule: less_induct)
  case less
  show ?case
  proof (cases "i < j")
    case False
    with less.prems show ?thesis by (subst (1 2 3) go_search_loop.simps) auto
  next
    case True
    define h where "h = (i + j) div 2"
    have h: "i \<le> h" "h < j" using True by (auto simp: h_def)
    show ?thesis
    proof (cases "f h")
      case fh: True
      have up: "\<forall>k. h \<le> k \<and> k < n \<longrightarrow> f k" using mono fh by blast
      have eq: "go_search_loop f i j = go_search_loop f i h"
        using True fh by (subst go_search_loop.simps) (simp add: h_def)
      show ?thesis unfolding eq
      proof (rule less.hyps)
        show "h - i < j - i" "i \<le> h" "h \<le> n" using h less.prems(1,2) by linarith+
      qed (use up less.prems(3) in blast)+
    next
      case fh: False
      have down: "\<forall>k<h + 1. \<not> f k"
      proof (intro allI impI)
        fix k assume "k < h + 1"
        then show "\<not> f k" using mono [of k h] fh h less.prems(2) by auto
      qed
      have eq: "go_search_loop f i j = go_search_loop f (h + 1) j"
        using True fh by (subst go_search_loop.simps) (simp add: h_def)
      show ?thesis unfolding eq
      proof (rule less.hyps)
        show "j - (h + 1) < j - i" "h + 1 \<le> j" "j \<le> n" using h less.prems(1,2) by linarith+
      qed (use down less.prems(4) in blast)+
    qed
  qed
qed

text \<open>For a predicate that stays true once it holds, the search returns its first true index.\<close>

lemma go_search_correct:
  assumes mono: "\<And>k l. k \<le> l \<Longrightarrow> l < n \<Longrightarrow> f k \<Longrightarrow> f l"
  shows "go_search n f \<le> n" "k < go_search n f \<Longrightarrow> \<not> f k"
    "go_search n f \<le> k \<Longrightarrow> k < n \<Longrightarrow> f k"
proof -
  have "go_search_loop f 0 n \<le> n \<and> (\<forall>k<go_search_loop f 0 n. \<not> f k) \<and>
    (\<forall>k. go_search_loop f 0 n \<le> k \<and> k < n \<longrightarrow> f k)"
    by (rule go_search_loop_correct [OF mono]) auto
  then show "go_search n f \<le> n" "k < go_search n f \<Longrightarrow> \<not> f k"
    "go_search n f \<le> k \<Longrightarrow> k < n \<Longrightarrow> f k"
    unfolding go_search_def by blast+
qed

end
