(* ===== verification/Chnroute.thy ===== *)
theory Chnroute
  imports Go_Net
begin

text \<open>
  \<open>chnroute.go\<close> and \<open>chnroute_cidrs.go\<close>: the set of IPv4 ranges that decides whether an
  address is Chinese. Loading parses CIDR lines, sorts the ranges by start and merges
  overlapping and adjacent ones; \<open>Contains\<close> is a binary search; \<open>CIDRs\<close> splits the merged
  ranges back into prefixes. Addresses are 32-bit words, as in the code.
  The interface \<open>address_set\<close> is what the DNS path relies on: membership decides by address alone.
\<close>

section \<open>State and loading\<close>

record ip_range =
  r_start :: u32
  r_end :: u32

record chnroute =
  ranges :: "ip_range list"

text \<open>
  What opening and scanning one rule file yields: missing, an error on open, its text, or its
  text up to a scanner error.
\<close>

datatype rule_file = FileMissing | FileOpenError | FileText string | FileScanError string

datatype chn_error = ChnOpen | ChnScan | ErrEmptyChnroute

definition ip_to_uint32 :: "ip \<Rightarrow> u32" where
  "ip_to_uint32 a = (case to4 a of None \<Rightarrow> 0 | Some b \<Rightarrow> be_uint32 b)"

text \<open>One line of a file: \<open>None\<close> where the loop skips it.\<close>

definition parse_chn_line :: "string \<Rightarrow> ip_range option" where
  "parse_chn_line text =
     (let line = trim_space text in
      if line = [] \<or> has_prefix line ''#'' then None
      else (case parse_cidr line of
        None \<Rightarrow> None
      | Some n \<Rightarrow>
          (case to4 (net_ip n) of
             None \<Rightarrow> None
           | Some ip4 \<Rightarrow>
               let start = be_uint32 ip4 in
               if net_bits n \<noteq> 32 then None
               else let host_bits = net_bits n - net_ones n in
                 Some \<lparr>r_start = start,
                       r_end = (if host_bits = 32 then NOT 0
                                else start OR (push_bit host_bits 1 - 1))\<rparr>)))"

fun load_raw :: "rule_file list \<Rightarrow> ip_range list \<Rightarrow> chn_error + ip_range list" where
  "load_raw [] raw = Inr raw"
| "load_raw (FileMissing # fs) raw = load_raw fs raw"
| "load_raw (FileOpenError # fs) raw = Inl ChnOpen"
| "load_raw (FileScanError t # fs) raw = Inl ChnScan"
| "load_raw (FileText t # fs) raw =
     load_raw fs (raw @ List.map_filter parse_chn_line (scan_lines t))"

text \<open>The merge loop: \<open>cur\<close> is the last element of Go's \<open>merged\<close> slice.\<close>

fun merge_loop :: "ip_range \<Rightarrow> ip_range list \<Rightarrow> ip_range list" where
  "merge_loop cur [] = [cur]"
| "merge_loop cur (r # rs) =
     (if r_start r = 0 \<or> r_end cur \<ge> r_start r - 1
      then merge_loop (if r_end r > r_end cur then cur\<lparr>r_end := r_end r\<rparr> else cur) rs
      else cur # merge_loop r rs)"

definition load_chnroute_files :: "rule_file list \<Rightarrow> chn_error + chnroute" where
  "load_chnroute_files fs = (case load_raw fs [] of
     Inl e \<Rightarrow> Inl e
   | Inr raw \<Rightarrow>
      (case sort_key r_start raw of
         [] \<Rightarrow> Inl ErrEmptyChnroute
       | r # rs \<Rightarrow> Inr \<lparr>ranges = merge_loop r rs\<rparr>))"

text \<open>\<open>Contains\<close>; the receiver may be nil.\<close>

definition chn_contains :: "chnroute option \<Rightarrow> ip \<Rightarrow> bool" where
  "chn_contains c a = (case c of None \<Rightarrow> False | Some ch \<Rightarrow>
     (case to4 a of None \<Rightarrow> False | Some ip4 \<Rightarrow>
        let n = ip_to_uint32 ip4;
            idx = int (go_search (length (ranges ch)) (\<lambda>i. r_start (ranges ch ! i) > n)) - 1 in
        if idx < 0 then False else n \<le> r_end (ranges ch ! nat idx)))"

definition chn_len :: "chnroute \<Rightarrow> nat" where
  "chn_len c = length (ranges c)"

section \<open>The set a list of ranges denotes\<close>

definition in_range :: "u32 \<Rightarrow> ip_range \<Rightarrow> bool" where
  "in_range n r \<longleftrightarrow> r_start r \<le> n \<and> n \<le> r_end r"

definition range_set :: "ip_range list \<Rightarrow> u32 set" where
  "range_set rs = (\<Union>r\<in>set rs. {r_start r..r_end r})"

lemma range_set_Nil [simp]: "range_set [] = {}"
  by (simp add: range_set_def)

lemma range_set_Cons [simp]: "range_set (r # rs) = {r_start r..r_end r} \<union> range_set rs"
  by (simp add: range_set_def)

lemma range_set_append: "range_set (a @ b) = range_set a \<union> range_set b"
  by (simp add: range_set_def)

lemma range_set_sort [simp]: "range_set (sort_key f rs) = range_set rs"
  by (simp add: range_set_def)

definition range_ok :: "ip_range \<Rightarrow> bool" where
  "range_ok r \<longleftrightarrow> r_start r \<le> r_end r"

text \<open>The invariant of a loaded set: non-empty ranges in order with a gap between any two.\<close>

fun separated :: "ip_range list \<Rightarrow> bool" where
  "separated [] = True"
| "separated [r] = range_ok r"
| "separated (r # s # rs) =
     (range_ok r \<and> unat (r_end r) + 1 < unat (r_start s) \<and> separated (s # rs))"

definition chnroute_ok :: "chnroute \<Rightarrow> bool" where
  "chnroute_ok c \<longleftrightarrow> separated (ranges c)"

lemma adjacent_iff:
  fixes e s :: u32
  shows "s = 0 \<or> e \<ge> s - 1 \<longleftrightarrow> unat s \<le> unat e + 1"
proof (cases "s = 0")
  case True
  then show ?thesis by simp
next
  case False
  then have "unat (s - 1) = unat s - 1" by (rule unat_minus_one)
  moreover have "0 < unat s" using False by (simp add: unat_gt_0)
  ultimately show ?thesis using False by (auto simp: word_le_nat_alt)
qed

lemma merge_step_set:
  assumes "range_ok cur" "range_ok r" "r_start cur \<le> r_start r"
    "r_start r = 0 \<or> r_end cur \<ge> r_start r - 1"
  shows "{r_start cur..(if r_end r > r_end cur then r_end r else r_end cur)}
         = {r_start cur..r_end cur} \<union> {r_start r..r_end r}"
proof -
  have adj: "unat (r_start r) \<le> unat (r_end cur) + 1"
    using assms(4) by (simp only: adjacent_iff)
  show ?thesis
    using assms(1-3) adj
    by (auto simp: range_ok_def word_le_nat_alt word_less_nat_alt not_le not_less)
qed

lemma merge_loop_ne [simp]: "merge_loop cur rs \<noteq> []"
  by (induction cur rs rule: merge_loop.induct) auto

lemma r_start_hd_merge_loop: "r_start (hd (merge_loop cur rs)) = r_start cur"
  by (induction cur rs rule: merge_loop.induct) auto

lemma merge_loop_correct:
  assumes "range_ok cur" "\<forall>r\<in>set rs. range_ok r" "sorted (map r_start (cur # rs))"
  shows "range_set (merge_loop cur rs) = range_set (cur # rs) \<and> separated (merge_loop cur rs)"
  using assms
proof (induction cur rs rule: merge_loop.induct)
  case (1 cur)
  then show ?case by simp
next
  case (2 cur r rs)
  have ok: "range_ok r" "r_start cur \<le> r_start r" using "2.prems" by auto
  show ?case
  proof (cases "r_start r = 0 \<or> r_end cur \<ge> r_start r - 1")
    case True
    let ?l = "if r_end r > r_end cur then cur\<lparr>r_end := r_end r\<rparr> else cur"
    have l: "r_start ?l = r_start cur"
      "r_end ?l = (if r_end r > r_end cur then r_end r else r_end cur)" by auto
    have "range_ok ?l" using "2.prems"(1) by (auto simp: range_ok_def)
    moreover have "sorted (map r_start (?l # rs))" using "2.prems"(3) l by auto
    ultimately have IH: "range_set (merge_loop ?l rs) = range_set (?l # rs) \<and>
        separated (merge_loop ?l rs)"
      using "2.IH"(1) [OF True] "2.prems"(2) by auto
    have "range_set (?l # rs) = range_set (cur # r # rs)"
      using merge_step_set [OF "2.prems"(1) ok True] by (simp only: range_set_Cons l Un_assoc [symmetric])
    with IH True show ?thesis by simp
  next
    case False
    then have gap: "unat (r_end cur) + 1 < unat (r_start r)"
      by (simp only: adjacent_iff not_le)
    have IH: "range_set (merge_loop r rs) = range_set (r # rs) \<and> separated (merge_loop r rs)"
      using "2.IH"(2) [OF False] "2.prems" ok by auto
    obtain h t where ht: "merge_loop r rs = h # t" using merge_loop_ne by (meson list.exhaust)
    have "r_start h = r_start r" using r_start_hd_merge_loop [of r rs] ht by simp
    with IH ht gap "2.prems"(1) False show ?thesis by simp
  qed
qed

section \<open>Loading denotes the parsed ranges\<close>

lemma unat_mask_u32: "unat (mask h :: u32) = mask (min h 32)"
  by (rule bit_eqI) (auto simp: bit_unsigned_iff bit_mask_iff)

lemma div_eq_iff_interval:
  fixes m :: nat
  assumes "0 < d"
  shows "m div d = q \<longleftrightarrow> q * d \<le> m \<and> m < Suc q * d"
proof
  assume "m div d = q"
  then show "q * d \<le> m \<and> m < Suc q * d"
    using assms dividend_less_div_times [of d m] div_times_less_eq_dividend [of m d] by auto
next
  assume "q * d \<le> m \<and> m < Suc q * d"
  then show "m div d = q" by (metis div_nat_eqI mult.commute)
qed

lemma unat_drop_bit_u32: "unat (drop_bit h (x :: u32)) = unat x div 2 ^ h"
proof -
  have "take_bit 32 (unat x) = unat x"
    using unsigned_less [of x] by (simp add: take_bit_nat_eq_self_iff)
  then have "unat (drop_bit h x) = drop_bit h (unat x)" by (simp only: unsigned_drop_bit_eq) simp
  then show ?thesis by (simp only: drop_bit_eq_div)
qed

lemma prefix_range:
  fixes s n :: u32
  assumes "h < 32" "take_bit h s = 0"
  shows "s \<le> n \<and> n \<le> s OR mask h \<longleftrightarrow> drop_bit h n = drop_bit h s"
proof -
  define q where "q = unat s div 2 ^ h"
  have "take_bit h (unat s) = 0"
    by (simp only: unsigned_take_bit_eq [symmetric] assms(2) unsigned_0)
  then have z: "unat s mod 2 ^ h = 0" and disj: "unat s AND mask h = 0"
    by (simp_all only: take_bit_eq_mod [symmetric] take_bit_eq_mask [symmetric])
  have s: "unat s = 2 ^ h * q" using z by (auto simp: q_def)
  have "unat (s OR mask h) = unat s OR mask h"
    using assms(1) by (simp add: unsigned_or_eq unat_mask_u32 min_def)
  also have "\<dots> = unat s + mask h"
    using disj by (simp add: disjunctive_add_eq_or)
  finally have e: "unat (s OR mask h) = 2 ^ h * q + (2 ^ h - 1)"
    by (simp add: s mask_eq_exp_minus_1)
  have d: "drop_bit h n = drop_bit h s \<longleftrightarrow> unat n div 2 ^ h = q"
    unfolding q_def word_unat_eq_iff unat_drop_bit_u32 ..
  have "2 ^ h * q \<le> unat n \<and> unat n \<le> 2 ^ h * q + (2 ^ h - 1) \<longleftrightarrow> unat n div 2 ^ h = q"
  proof -
    have p: "0 < (2::nat) ^ h" by simp
    have "unat n div 2 ^ h = q \<longleftrightarrow> q * 2 ^ h \<le> unat n \<and> unat n < Suc q * 2 ^ h"
      using p by (rule div_eq_iff_interval)
    moreover have "unat n \<le> 2 ^ h * q + (2 ^ h - 1) \<longleftrightarrow> unat n < Suc q * 2 ^ h"
      using p by (simp only: mult_Suc mult.commute [of q]) linarith
    ultimately show ?thesis by (simp only: mult.commute)
  qed
  then show ?thesis by (simp add: word_le_nat_alt s e d)
qed

lemma bit_ff: "bit (255 :: u8) j \<longleftrightarrow> j < 8"
proof -
  have m: "(255 :: u8) = mask 8" by (simp add: mask_eq_exp_minus_1)
  show ?thesis unfolding m by (simp only: bit_mask_iff) auto
qed

lemma bit_mask_byte: "bit (mask_byte k) j \<longleftrightarrow> j < 8 \<and> 8 - k \<le> j"
proof (cases "8 \<le> k")
  case True
  then show ?thesis unfolding mask_byte_def if_P [OF True] bit_ff by simp
next
  case False
  then show ?thesis unfolding mask_byte_def if_not_P [OF False] bit_push_bit_iff bit_ff
    by (auto simp: bit_ff)
qed

lemma bit_be_uint32:
  "i < 32 \<Longrightarrow> bit (be_uint32 [w, x, y, z]) i =
     (if i < 8 then bit z i else if i < 16 then bit y (i - 8)
      else if i < 24 then bit x (i - 16) else bit w (i - 24))"
  by (auto simp: be_uint32_def bit_simps dest: bit_imp_le_length)

lemma bit_masked_v4:
  assumes "length b = 4" "n \<le> 32" "i < 32"
  shows "bit (be_uint32 (ip_mask b (cidr_mask n 32))) i \<longleftrightarrow> bit (be_uint32 b) i \<and> 32 - n \<le> i"
proof -
  obtain w x y z where b: "b = [w, x, y, z]" using length4E [OF assms(1)] by blast
  have m: "cidr_mask n 32 = [mask_byte n, mask_byte (n - 8), mask_byte (n - 16), mask_byte (n - 24)]"
    by (simp add: cidr_mask_def upt_rec)
  have mb: "ip_mask b (cidr_mask n 32) = [w AND mask_byte n, x AND mask_byte (n - 8),
      y AND mask_byte (n - 16), z AND mask_byte (n - 24)]"
    by (simp add: b m ip_mask_def)
  show ?thesis
    unfolding mb unfolding b bit_be_uint32 [OF assms(3)] bit_and_iff bit_mask_byte
    using assms(2,3) by (auto split: if_splits)
qed

lemma take_bit_masked_v4:
  assumes "length b = 4" "n \<le> 32"
  shows "take_bit (32 - n) (be_uint32 (ip_mask b (cidr_mask n 32))) = 0"
  by (rule bit_word_eqI) (auto simp: bit_take_bit_iff bit_masked_v4 [OF assms])

lemma v4_loop_length:
  "v4_loop prev val pos dl fs s = Some b \<Longrightarrow> length fs = pos \<Longrightarrow> pos \<le> 3 \<Longrightarrow> length b = 4"
proof (induction prev val pos dl fs s rule: v4_loop.induct)
  case (1 prev val pos dl fs)
  then show ?case by (auto split: if_splits)
next
  case (2 prev val pos dl fs c s)
  then show ?case by (auto simp: Let_def split: if_splits)
qed

lemma parse_v4_length: "parse_v4 s = Some b \<Longrightarrow> length b = 4"
  by (auto simp: parse_v4_def dest: v4_loop_length)

lemma parse_cidr_v4:
  assumes "parse_cidr s = Some n" "net_bits n = 32"
  shows "\<exists>b. length b = 4 \<and> net_ip n = ip_mask b (cidr_mask (net_ones n) 32) \<and> net_ones n \<le> 32"
  using assms
  by (auto simp: parse_cidr_def parse_addr_def Let_def dest: parse_v4_length
      split: option.splits if_splits addr.splits prod.splits)

lemma length_ip_mask [simp]: "length (ip_mask a m) = min (length a) (length m)"
  by (simp add: ip_mask_def)

lemma length_cidr_mask [simp]: "length (cidr_mask n b) = b div 8"
  by (simp add: cidr_mask_def)

text \<open>
  A line denotes a prefix: the addresses that agree with the parsed one on its first bits.
\<close>

lemma parse_chn_line_range:
  assumes "parse_chn_line t = Some r"
  shows "\<exists>n. parse_cidr (trim_space t) = Some n \<and> net_bits n = 32 \<and> net_ones n \<le> 32 \<and>
    r_start r = be_uint32 (net_ip n) \<and>
    (\<forall>a. in_range a r \<longleftrightarrow> drop_bit (32 - net_ones n) a = drop_bit (32 - net_ones n) (r_start r))"
proof -
  obtain n b4 where n: "parse_cidr (trim_space t) = Some n" "to4 (net_ip n) = Some b4"
    "net_bits n = 32" and r: "r = \<lparr>r_start = be_uint32 b4,
      r_end = (if 32 - net_ones n = 32 then NOT 0
               else be_uint32 b4 OR (push_bit (32 - net_ones n) 1 - 1))\<rparr>"
    using assms by (auto simp: parse_chn_line_def Let_def split: if_splits option.splits)
  obtain b where b: "length b = 4" "net_ip n = ip_mask b (cidr_mask (net_ones n) 32)"
    "net_ones n \<le> 32" using parse_cidr_v4 [OF n(1,3)] by blast
  have b4: "b4 = net_ip n" using n(2) b(1,2) by simp
  let ?h = "32 - net_ones n"
  have "in_range a r \<longleftrightarrow> drop_bit ?h a = drop_bit ?h (r_start r)" for a
  proof (cases "net_ones n = 0")
    case True
    have "drop_bit ?h x = 0" for x :: u32
      unfolding True by (rule bit_word_eqI) (auto simp: bit_simps dest: bit_imp_le_length)
    moreover have "be_uint32 b4 = 0"
      using take_bit_masked_v4 [OF b(1,3)] True b4 b(2) by (simp add: take_bit_word_eq_self)
    ultimately show ?thesis using True by (simp add: in_range_def r)
  next
    case False
    then have h: "?h < 32" "?h \<noteq> 32" by simp_all
    moreover have "take_bit ?h (be_uint32 b4) = 0"
      using take_bit_masked_v4 [OF b(1,3)] b4 b(2) by simp
    ultimately show ?thesis
      using prefix_range [of ?h "be_uint32 b4" a] h
      by (simp add: in_range_def r mask_eq_exp_minus_1)
  qed
  then show ?thesis using n b b4 by (auto simp: r)
qed

lemma parse_chn_line_ok: "parse_chn_line t = Some r \<Longrightarrow> range_ok r"
  using parse_chn_line_range [of t r] by (auto simp: range_ok_def in_range_def)

text \<open>What a line of a chnroute file covers, stated without ranges or words' order.\<close>

definition line_covers :: "string \<Rightarrow> u32 \<Rightarrow> bool" where
  "line_covers t a \<longleftrightarrow>
     trim_space t \<noteq> [] \<and> \<not> has_prefix (trim_space t) ''#'' \<and>
     (case parse_cidr (trim_space t) of None \<Rightarrow> False
      | Some n \<Rightarrow> net_bits n = 32 \<and>
          drop_bit (32 - net_ones n) a = drop_bit (32 - net_ones n) (be_uint32 (net_ip n)))"

lemma parse_chn_line_Some_iff:
  "(\<exists>r. parse_chn_line t = Some r) \<longleftrightarrow>
     trim_space t \<noteq> [] \<and> \<not> has_prefix (trim_space t) ''#'' \<and>
     (\<exists>n. parse_cidr (trim_space t) = Some n \<and> net_bits n = 32)"
proof -
  have v4: "\<exists>b. to4 (net_ip n) = Some b" if "parse_cidr s = Some n" "net_bits n = 32" for s n
    using parse_cidr_v4 [OF that] by fastforce
  show ?thesis
  proof (cases "parse_cidr (trim_space t)")
    case None
    then show ?thesis by (simp add: parse_chn_line_def Let_def)
  next
    case (Some n)
    with v4 [OF Some] show ?thesis
      by (cases "to4 (net_ip n)") (auto simp: parse_chn_line_def Let_def)
  qed
qed

lemma in_range_line:
  "(\<exists>r. parse_chn_line t = Some r \<and> in_range a r) \<longleftrightarrow> line_covers t a"
proof (cases "parse_chn_line t")
  case None
  then have "\<not> line_covers t a"
    using parse_chn_line_Some_iff [of t] by (auto simp: line_covers_def split: option.splits)
  with None show ?thesis by simp
next
  case (Some r)
  obtain n where n: "parse_cidr (trim_space t) = Some n" "net_bits n = 32"
    "r_start r = be_uint32 (net_ip n)"
    "in_range a r \<longleftrightarrow> drop_bit (32 - net_ones n) a = drop_bit (32 - net_ones n) (r_start r)"
    using parse_chn_line_range [OF Some] by blast
  have "trim_space t \<noteq> []" "\<not> has_prefix (trim_space t) ''#''"
    using parse_chn_line_Some_iff [of t] Some by blast+
  then have "line_covers t a \<longleftrightarrow> in_range a r"
    unfolding line_covers_def n(4) by (simp add: n(1-3))
  with Some show ?thesis by simp
qed

definition file_lines :: "rule_file \<Rightarrow> string list" where
  "file_lines f = (case f of FileText t \<Rightarrow> scan_lines t | _ \<Rightarrow> [])"

lemma load_raw_Inr:
  "load_raw fs raw = Inr out \<Longrightarrow>
     out = raw @ concat (map (\<lambda>f. List.map_filter parse_chn_line (file_lines f)) fs)"
  by (induction fs raw rule: load_raw.induct) (auto simp: file_lines_def map_filter_simps)

lemma set_map_filter: "set (List.map_filter f xs) = {y. \<exists>x\<in>set xs. f x = Some y}"
  by (force simp: List.map_filter_def)

lemma load_raw_ok: "load_raw fs [] = Inr raw \<Longrightarrow> \<forall>r\<in>set raw. range_ok r"
  by (drule load_raw_Inr) (auto simp: set_map_filter dest: parse_chn_line_ok)

lemma range_set_raw:
  assumes "load_raw fs [] = Inr raw"
  shows "a \<in> range_set raw \<longleftrightarrow> (\<exists>f\<in>set fs. \<exists>t\<in>set (file_lines f). line_covers t a)"
proof -
  have "a \<in> range_set raw \<longleftrightarrow> (\<exists>r\<in>set raw. in_range a r)"
    by (auto simp: range_set_def in_range_def)
  also have "\<dots> \<longleftrightarrow> (\<exists>f\<in>set fs. \<exists>t\<in>set (file_lines f). \<exists>r. parse_chn_line t = Some r \<and> in_range a r)"
    unfolding load_raw_Inr [OF assms] by (simp add: set_map_filter) blast
  finally show ?thesis unfolding in_range_line .
qed

lemma load_chnroute_ok:
  assumes "load_chnroute_files fs = Inr c"
  shows "chnroute_ok c" "\<exists>raw. load_raw fs [] = Inr raw \<and> raw \<noteq> [] \<and> range_set (ranges c) = range_set raw"
proof -
  obtain raw r rs where raw: "load_raw fs [] = Inr raw" and s: "sort_key r_start raw = r # rs"
    and c: "c = \<lparr>ranges = merge_loop r rs\<rparr>"
    using assms by (auto simp: load_chnroute_files_def split: sum.splits list.splits)
  have set_eq: "set (r # rs) = set raw" by (metis s set_sort)
  have ok: "range_ok r" "\<forall>r\<in>set rs. range_ok r"
    using load_raw_ok [OF raw] set_eq by auto
  have "sorted (map r_start (r # rs))" by (metis s sorted_sort_key)
  from merge_loop_correct [OF ok this]
  have "range_set (ranges c) = range_set (r # rs)" "chnroute_ok c"
    by (auto simp: c chnroute_ok_def)
  moreover have "range_set (r # rs) = range_set raw" by (metis s range_set_sort)
  moreover have "raw \<noteq> []" using set_eq by auto
  ultimately show "chnroute_ok c"
    "\<exists>raw. load_raw fs [] = Inr raw \<and> raw \<noteq> [] \<and> range_set (ranges c) = range_set raw"
    using raw by auto
qed

section \<open>Membership by binary search\<close>

lemma separated_Cons: "separated (r # rs) \<Longrightarrow> range_ok r \<and> separated rs"
  by (cases rs) auto

lemma separated_hd_less:
  "separated (r # rs) \<Longrightarrow> s \<in> set rs \<Longrightarrow> unat (r_end r) + 1 < unat (r_start s)"
proof (induction rs arbitrary: r)
  case Nil
  then show ?case by simp
next
  case (Cons x rs)
  have x: "unat (r_end r) + 1 < unat (r_start x)" "separated (x # rs)" using Cons.prems by auto
  show ?case
  proof (cases "s = x")
    case True
    with x show ?thesis by simp
  next
    case False
    then have "unat (r_end x) + 1 < unat (r_start s)" using Cons x by auto
    moreover have "unat (r_start x) \<le> unat (r_end x)"
      using separated_Cons [OF x(2)] by (simp add: range_ok_def word_le_nat_alt)
    ultimately show ?thesis using x by linarith
  qed
qed

lemma separated_nth:
  assumes "separated rs" "i < j" "j < length rs"
  shows "unat (r_end (rs ! i)) + 1 < unat (r_start (rs ! j))"
  using assms
proof (induction rs arbitrary: i j)
  case Nil
  then show ?case by simp
next
  case (Cons r rs)
  obtain j' where j: "j = Suc j'" using Cons.prems by (cases j) auto
  show ?case
  proof (cases i)
    case 0
    then show ?thesis using separated_hd_less [OF Cons.prems(1)] Cons.prems j by auto
  next
    case (Suc i')
    then show ?thesis using Cons j separated_Cons [OF Cons.prems(1)] by auto
  qed
qed

lemma separated_range_ok: "separated rs \<Longrightarrow> i < length rs \<Longrightarrow> range_ok (rs ! i)"
  by (induction rs arbitrary: i) (auto simp: nth_Cons split: nat.splits dest: separated_Cons)

lemma starts_mono:
  assumes "separated rs" "i \<le> j" "j < length rs"
  shows "r_start (rs ! i) \<le> r_start (rs ! j)"
proof (cases "i = j")
  case False
  then have "unat (r_end (rs ! i)) + 1 < unat (r_start (rs ! j))"
    using separated_nth assms by simp
  moreover have "range_ok (rs ! i)" using separated_range_ok assms by simp
  ultimately show ?thesis by (simp add: range_ok_def word_le_nat_alt)
qed simp

lemma search_in_range_set:
  fixes n :: u32
  assumes "separated rs"
  defines "k \<equiv> go_search (length rs) (\<lambda>i. r_start (rs ! i) > n)"
  shows "n \<in> range_set rs \<longleftrightarrow> k \<noteq> 0 \<and> n \<le> r_end (rs ! (k - 1))"
proof -
  have mono: "\<And>i j. i \<le> j \<Longrightarrow> j < length rs \<Longrightarrow> r_start (rs ! i) > n \<Longrightarrow> r_start (rs ! j) > n"
    using starts_mono [OF assms(1)] by (meson less_le_trans)
  note gs = go_search_correct [of "length rs" "\<lambda>i. r_start (rs ! i) > n", folded k_def]
  have g: "k \<le> length rs" "\<And>i. i < k \<Longrightarrow> r_start (rs ! i) \<le> n"
    "\<And>i. k \<le> i \<Longrightarrow> i < length rs \<Longrightarrow> r_start (rs ! i) > n"
    using gs(1) mono gs(2) gs(3) by (blast, meson not_less, blast)
  show ?thesis
  proof
    assume "n \<in> range_set rs"
    then obtain i where i: "i < length rs" "r_start (rs ! i) \<le> n" "n \<le> r_end (rs ! i)"
      by (auto simp: range_set_def in_set_conv_nth)
    have ik: "i < k" using g(3) [of i] i by (meson not_le)
    have "i = k - 1"
    proof (rule ccontr)
      assume "i \<noteq> k - 1"
      then have lt: "i < k - 1" using ik by simp
      then have "unat (r_end (rs ! i)) + 1 < unat (r_start (rs ! (k - 1)))"
        using separated_nth [OF assms(1), of i "k - 1"] g(1) ik by simp
      then have "n < r_start (rs ! (k - 1))" using i(3) by (simp add: word_less_nat_alt word_le_nat_alt)
      moreover have "r_start (rs ! (k - 1)) \<le> n" using g(2) [of "k - 1"] ik by simp
      ultimately show False by simp
    qed
    with i ik show "k \<noteq> 0 \<and> n \<le> r_end (rs ! (k - 1))" by simp
  next
    assume k: "k \<noteq> 0 \<and> n \<le> r_end (rs ! (k - 1))"
    then have "k - 1 < length rs" using g(1) by linarith
    moreover have "r_start (rs ! (k - 1)) \<le> n" using g(2) [of "k - 1"] k by simp
    ultimately show "n \<in> range_set rs" using k by (auto simp: range_set_def intro!: bexI [of _ "rs ! (k - 1)"])
  qed
qed

lemma chn_contains_iff:
  assumes "chnroute_ok c"
  shows "chn_contains (Some c) a \<longleftrightarrow> (\<exists>b. to4 a = Some b \<and> be_uint32 b \<in> range_set (ranges c))"
proof (cases "to4 a")
  case None
  then show ?thesis by (simp add: chn_contains_def)
next
  case (Some b)
  then have b: "ip_to_uint32 b = be_uint32 b" using to4_length by (simp add: ip_to_uint32_def)
  let ?k = "go_search (length (ranges c)) (\<lambda>i. r_start (ranges c ! i) > be_uint32 b)"
  have "chn_contains (Some c) a \<longleftrightarrow> ?k \<noteq> 0 \<and> be_uint32 b \<le> r_end (ranges c ! (?k - 1))"
    by (cases ?k) (simp_all add: chn_contains_def Some b Let_def)
  then show ?thesis
    using search_in_range_set [of "ranges c" "be_uint32 b"] assms Some
    by (simp add: chnroute_ok_def)
qed

section \<open>The interface the DNS path relies on\<close>

text \<open>
  An address set decides membership by the IPv4 value of an address; its clients may pass
  either byte form of an address.
\<close>

locale address_set =
  fixes contains :: "'s \<Rightarrow> ip \<Rightarrow> bool"
    and denotes :: "'s \<Rightarrow> u32 set"
    and good :: "'s \<Rightarrow> bool"
  assumes contains_denotes:
    "good s \<Longrightarrow> contains s a \<longleftrightarrow> (\<exists>b. to4 a = Some b \<and> be_uint32 b \<in> denotes s)"
begin

lemma contains_v6: "good s \<Longrightarrow> to4 a = None \<Longrightarrow> \<not> contains s a"
  by (simp add: contains_denotes)

lemma contains_to4: "good s \<Longrightarrow> to4 a = to4 b \<Longrightarrow> contains s a = contains s b"
  by (simp add: contains_denotes)

lemma contains_mapped: "good s \<Longrightarrow> length a = 4 \<Longrightarrow> contains s (v4_in_v6_prefix @ a) = contains s a"
  by (rule contains_to4) (simp_all add: to4_def v4_in_v6_prefix_def)

end

definition chn_denotes :: "chnroute option \<Rightarrow> u32 set" where
  "chn_denotes c = (case c of None \<Rightarrow> {} | Some ch \<Rightarrow> range_set (ranges ch))"

definition chn_good :: "chnroute option \<Rightarrow> bool" where
  "chn_good c \<longleftrightarrow> (case c of None \<Rightarrow> True | Some ch \<Rightarrow> chnroute_ok ch)"

interpretation chn: address_set chn_contains chn_denotes chn_good
proof unfold_locales
  fix s :: "chnroute option" and a
  assume "chn_good s"
  then show "chn_contains s a \<longleftrightarrow> (\<exists>b. to4 a = Some b \<and> be_uint32 b \<in> chn_denotes s)"
  proof (cases s)
    case None
    then show ?thesis by (simp add: chn_denotes_def chn_contains_def)
  next
    case (Some c)
    with \<open>chn_good s\<close> show ?thesis
      by (simp add: chn_good_def chn_denotes_def chn_contains_iff)
  qed
qed

section \<open>Properties\<close>

text \<open>C35: After a successful load, \<open>Contains\<close> holds of an address exactly when some line of
  some file is a valid IPv4 CIDR (not blank, not a comment) whose prefix covers the address:
  sorting, merging and the binary search together lose and add nothing.\<close>

theorem chnroute_membership:
  assumes "load_chnroute_files fs = Inr c"
  shows "chn_contains (Some c) a \<longleftrightarrow>
    (\<exists>b f t. to4 a = Some b \<and> f \<in> set fs \<and> t \<in> set (file_lines f) \<and> line_covers t (be_uint32 b))"
proof -
  obtain raw where "load_raw fs [] = Inr raw" "range_set (ranges c) = range_set raw"
    using load_chnroute_ok(2) [OF assms] by blast
  with range_set_raw have
    "x \<in> range_set (ranges c) \<longleftrightarrow> (\<exists>f\<in>set fs. \<exists>t\<in>set (file_lines f). line_covers t x)" for x
    by simp
  then show ?thesis unfolding chn_contains_iff [OF load_chnroute_ok(1) [OF assms]] by blast
qed

lemma chnroute_membership_witness:
  "load_chnroute_files [FileText ''10.0.0.0/30'', FileMissing] =
     Inr \<lparr>ranges = [\<lparr>r_start = 0x0A000000, r_end = 0x0A000003\<rparr>]\<rparr> \<and>
   chn_contains (Some \<lparr>ranges = [\<lparr>r_start = 0x0A000000, r_end = 0x0A000003\<rparr>]\<rparr>) [10, 0, 0, 2]"
proof -
  have l: "load_chnroute_files [FileText ''10.0.0.0/30'', FileMissing] =
     Inr \<lparr>ranges = [\<lparr>r_start = 0x0A000000, r_end = 0x0A000003\<rparr>]\<rparr>" by code_simp
  have "\<exists>b f t. to4 [10, 0, 0, 2] = Some b \<and> f \<in> set [FileText ''10.0.0.0/30'', FileMissing] \<and>
      t \<in> set (file_lines f) \<and> line_covers t (be_uint32 b)"
  proof (intro exI conjI)
    show "to4 [10, 0, 0, 2] = Some [10, 0, 0, 2]" by simp
    show "FileText ''10.0.0.0/30'' \<in> set [FileText ''10.0.0.0/30'', FileMissing]" by simp
    show "''10.0.0.0/30'' \<in> set (file_lines (FileText ''10.0.0.0/30''))" by code_simp
    show "line_covers ''10.0.0.0/30'' (be_uint32 [10, 0, 0, 2])" by code_simp
  qed
  with l chnroute_membership [OF l, of "[10, 0, 0, 2]"] show ?thesis by blast
qed

text \<open>A loaded set is in the normal form the binary search needs: its ranges are not empty,
  in ascending order, and any two neighbours are separated by at least one address; a file list
  without a valid IPv4 CIDR is an error and never an empty set.\<close>

theorem chnroute_load_normal_form:
  assumes "load_chnroute_files fs = Inr c"
  shows "separated (ranges c) \<and> ranges c \<noteq> [] \<and> sorted (map r_start (ranges c))"
proof -
  have s: "separated (ranges c)" using load_chnroute_ok(1) [OF assms] by (simp add: chnroute_ok_def)
  moreover have "ranges c \<noteq> []"
    using assms by (auto simp: load_chnroute_files_def split: sum.splits list.splits)
  moreover have "sorted (map r_start (ranges c))"
    using starts_mono [OF s] by (simp add: sorted_iff_nth_mono)
  ultimately show ?thesis by blast
qed

lemma chnroute_load_normal_form_witness:
  "separated (ranges \<lparr>ranges = [\<lparr>r_start = 0x01000000, r_end = 0x010001FF\<rparr>]\<rparr>)"
proof -
  have "load_chnroute_files [FileText ''1.0.1.0/24'', FileText ''1.0.0.0/24''] =
     Inr \<lparr>ranges = [\<lparr>r_start = 0x01000000, r_end = 0x010001FF\<rparr>]\<rparr>" by code_simp
  from chnroute_load_normal_form [OF this] show ?thesis by blast
qed

end
