(* ===== verification/Chnroute_CIDRs.thy ===== *)
theory Chnroute_CIDRs
  imports Chnroute
begin

text \<open>
  \<open>chnroute_cidrs.go\<close>: splitting the merged ranges of a set back into CIDR strings. Each step
  takes a power-of-two block at \<open>start\<close>; the loop over \<open>nBits\<close> works on \<open>uint32\<close>, where a
  shift by 32 gives 0, which is what makes ranges that begin at address 0 special.
\<close>

section \<open>The code\<close>

text \<open>\<open>bits.TrailingZeros32\<close>\<close>

definition trailing_zeros32 :: "u32 \<Rightarrow> nat" where
  "trailing_zeros32 w = length (takeWhile (\<lambda>i. \<not> bit w i) [0..<32])"

text \<open>\<open>uint32(1) << k\<close>: 0 from 32 on.\<close>

definition shl1 :: "nat \<Rightarrow> u32" where
  "shl1 k = push_bit k 1"

text \<open>The inner loop over \<open>nBits\<close>.\<close>

function nbits_loop :: "u32 \<Rightarrow> nat \<Rightarrow> nat \<Rightarrow> nat" where
  "nbits_loop remaining max_bits n =
     (if shl1 n \<le> remaining \<and> n \<le> max_bits
      then nbits_loop remaining max_bits (Suc n) else n)"
  by pat_completeness auto
termination
  by (relation "measure (\<lambda>(r, m, n). Suc m - n)") auto

declare nbits_loop.simps [simp del]

text \<open>\<open>nBits--\<close> and the clamp at 0 are one truncating subtraction.\<close>

definition block_bits :: "u32 \<Rightarrow> u32 \<Rightarrow> nat" where
  "block_bits start end' =
     (let max_bits = (if start = 0 then 32 else trailing_zeros32 start);
          remaining = end' - start + 1
      in nbits_loop remaining max_bits 0 - 1)"

definition cidr_string :: "u32 \<Rightarrow> nat \<Rightarrow> string" where
  "cidr_string a len = show_v4 (put_uint32 a) @ ''/'' @ show_nat len"

lemma nbits_loop_prop:
  "n \<le> nbits_loop r m n \<and> (\<forall>k. n \<le> k \<and> k < nbits_loop r m n \<longrightarrow> shl1 k \<le> r \<and> k \<le> m)"
proof (induction r m n rule: nbits_loop.induct)
  case (1 r m n)
  show ?case
  proof (cases "shl1 n \<le> r \<and> n \<le> m")
    case True
    with "1.IH" have IH: "Suc n \<le> nbits_loop r m (Suc n)"
      "\<forall>k. Suc n \<le> k \<and> k < nbits_loop r m (Suc n) \<longrightarrow> shl1 k \<le> r \<and> k \<le> m" by auto
    have eq: "nbits_loop r m n = nbits_loop r m (Suc n)"
      using True by (subst nbits_loop.simps) simp
    show ?thesis unfolding eq using IH True by (metis Suc_leD Suc_leI le_neq_implies_less)
  next
    case False
    then have "nbits_loop r m n = n" by (subst nbits_loop.simps) auto
    then show ?thesis by auto
  qed
qed

lemma nbits_loop_stop:
  "\<not> (shl1 (nbits_loop r m n) \<le> r \<and> nbits_loop r m n \<le> m)"
proof (induction r m n rule: nbits_loop.induct)
  case (1 r m n)
  show ?case
  proof (cases "shl1 n \<le> r \<and> n \<le> m")
    case True
    then have "nbits_loop r m n = nbits_loop r m (Suc n)" by (subst nbits_loop.simps) simp
    with "1.IH" [OF True] show ?thesis by simp
  next
    case False
    then have "nbits_loop r m n = n" by (subst nbits_loop.simps) auto
    with False show ?thesis by simp
  qed
qed

lemma trailing_zeros32_le: "trailing_zeros32 w \<le> 32"
  unfolding trailing_zeros32_def by (metis length_takeWhile_le length_upt minus_nat.diff_0)

lemma trailing_zeros32_bit: "i < trailing_zeros32 w \<Longrightarrow> \<not> bit w i"
proof -
  assume i: "i < trailing_zeros32 w"
  have "i < length (takeWhile (\<lambda>i. \<not> bit w i) [0..<32])"
    using i by (simp only: trailing_zeros32_def)
  then have "takeWhile (\<lambda>i. \<not> bit w i) [0..<32] ! i = [0..<32] ! i"
    "takeWhile (\<lambda>i. \<not> bit w i) [0..<32] ! i \<in> set (takeWhile (\<lambda>i. \<not> bit w i) [0..<32])"
    by (rule takeWhile_nth, rule nth_mem)
  moreover have "[0..<32] ! i = i" using i trailing_zeros32_le [of w] by simp
  ultimately have "i \<in> set (takeWhile (\<lambda>i. \<not> bit w i) [0..<32])" by simp
  then show ?thesis by (rule set_takeWhileD [THEN conjunct2])
qed

lemma trailing_zeros32_dvd: "2 ^ trailing_zeros32 w dvd unat w"
proof -
  have "take_bit (trailing_zeros32 w) w = 0"
    by (rule bit_word_eqI) (auto simp: bit_take_bit_iff dest: trailing_zeros32_bit)
  then have "take_bit (trailing_zeros32 w) (unat w) = 0"
    by (simp only: unsigned_take_bit_eq [symmetric] unsigned_0)
  then show ?thesis by (simp add: take_bit_eq_0_iff)
qed

lemma trailing_zeros32_less: "w \<noteq> 0 \<Longrightarrow> trailing_zeros32 w < 32"
proof (rule ccontr)
  assume w: "w \<noteq> 0" and "\<not> trailing_zeros32 w < 32"
  then have "trailing_zeros32 w = 32" using trailing_zeros32_le [of w] by linarith
  then have "2 ^ 32 dvd unat w" using trailing_zeros32_dvd [of w] by (simp only:)
  moreover have "unat w < 2 ^ 32" using unsigned_less [of w] by simp
  moreover have "0 < unat w" using w by (simp add: unat_gt_0)
  ultimately show False using nat_dvd_not_less by blast
qed

lemma block_bits_max:
  "block_bits start end' \<le> (if start = 0 then 32 else trailing_zeros32 start)"
proof -
  let ?m = "if start = 0 then 32 else trailing_zeros32 start"
  let ?n = "nbits_loop (end' - start + 1) ?m 0"
  have "?n = 0 \<or> ?n - 1 \<le> ?m"
    using nbits_loop_prop [of 0 "end' - start + 1" ?m] by (cases ?n) auto
  then show ?thesis by (auto simp: block_bits_def Let_def)
qed

lemma block_bits_dvd: "start \<noteq> 0 \<Longrightarrow> 2 ^ block_bits start end' dvd unat start"
  using block_bits_max [of start end'] trailing_zeros32_dvd [of start]
  by (metis (full_types) dvd_trans le_imp_power_dvd)

lemma unat_shl1: "k < 32 \<Longrightarrow> unat (shl1 k) = 2 ^ k"
proof -
  assume k: "k < 32"
  have "(2::nat) ^ k < 2 ^ 32" using k by (intro power_strict_increasing) simp_all
  then have "take_bit 32 ((2::nat) ^ k) = 2 ^ k" by (rule take_bit_nat_eq_self)
  moreover have "shl1 k = word_of_nat (2 ^ k)" by (simp add: shl1_def)
  moreover have "LENGTH(32) = 32" by simp
  ultimately show ?thesis by (simp only: unsigned_of_nat of_nat_id)
qed

lemma shl1_32: "32 \<le> k \<Longrightarrow> shl1 k = 0"
  unfolding shl1_def by (rule bit_word_eqI) (simp only: bit_push_bit_iff, auto)

text \<open>The block after \<open>start\<close> begins past it, unless the addition wrapped to 0.\<close>

lemma next_start:
  assumes "start + shl1 (block_bits start end') \<noteq> (0::u32)"
  shows "block_bits start end' < 32"
    "unat (start + shl1 (block_bits start end')) = unat start + 2 ^ block_bits start end'"
proof -
  let ?k = "block_bits start end'"
  have k: "?k < 32"
  proof (cases "start = 0")
    case True
    then have "?k \<noteq> 32" using assms by (intro notI) (simp add: shl1_32)
    with True show ?thesis using block_bits_max [of start end'] by simp
  next
    case False
    then show ?thesis
      using block_bits_max [of start end'] trailing_zeros32_less [OF False] by simp
  qed
  have b: "unat (shl1 ?k) = 2 ^ ?k" using k by (rule unat_shl1)
  have lt: "unat start < 2 ^ 32" using unsigned_less [of start] by simp
  have d: "2 ^ ?k dvd unat start" using block_bits_dvd by (cases "start = 0") auto
  obtain q where q: "unat start = 2 ^ ?k * q" using d by (auto elim: dvdE)
  have e: "(2::nat) ^ 32 = 2 ^ ?k * 2 ^ (32 - ?k)" using k by (simp flip: power_add)
  have "q < 2 ^ (32 - ?k)" using lt unfolding q e by simp
  then have "2 ^ ?k * Suc q \<le> 2 ^ ?k * 2 ^ (32 - ?k)" by (intro mult_le_mono2) simp
  then have le: "unat start + 2 ^ ?k \<le> 2 ^ 32" unfolding q e by simp
  have "unat start + 2 ^ ?k \<noteq> 2 ^ 32"
  proof
    assume "unat start + 2 ^ ?k = 2 ^ 32"
    then have "unat (start + shl1 ?k) = 0" by (simp only: unat_word_ariths b) simp
    then show False using assms by (simp add: unat_eq_0)
  qed
  with le have "unat start + 2 ^ ?k < 2 ^ 32" by simp
  then show "unat (start + shl1 ?k) = unat start + 2 ^ ?k"
    by (simp only: unat_word_ariths b) simp
  show "?k < 32" by (rule k)
qed

lemma block_step_decreases:
  "(s::nat) \<le> e \<Longrightarrow> Suc e - (s + 2 ^ k) < Suc e - s"
  by (intro diff_less_mono2) simp_all

text \<open>\<open>appendRangeCIDRs\<close>, and the same loop collecting (address, prefix length) pairs.\<close>

function append_range_cidrs :: "string list \<Rightarrow> u32 \<Rightarrow> u32 \<Rightarrow> string list" where
  "append_range_cidrs dst start end' =
     (if start \<le> end' then
        let n_bits = block_bits start end';
            prefix_len = 32 - n_bits;
            dst' = dst @ [cidr_string start prefix_len];
            start' = start + shl1 n_bits
        in if start' = 0 then dst' else append_range_cidrs dst' start' end'
      else dst)"
  by pat_completeness auto
termination
  by (relation "measure (\<lambda>(d, s, e). Suc (unat e) - unat s)")
     (simp_all add: next_start word_le_nat_alt block_step_decreases)

function range_blocks :: "u32 \<Rightarrow> u32 \<Rightarrow> (u32 \<times> nat) list" where
  "range_blocks start end' =
     (if start \<le> end' then
        let n_bits = block_bits start end'; start' = start + shl1 n_bits in
        (start, 32 - n_bits) # (if start' = 0 then [] else range_blocks start' end')
      else [])"
  by pat_completeness auto
termination
  by (relation "measure (\<lambda>(s, e). Suc (unat e) - unat s)")
     (simp_all add: next_start word_le_nat_alt block_step_decreases)

declare append_range_cidrs.simps [simp del] range_blocks.simps [simp del]

definition chn_cidrs :: "chnroute option \<Rightarrow> string list" where
  "chn_cidrs c = (case c of None \<Rightarrow> []
     | Some ch \<Rightarrow> foldl (\<lambda>out r. append_range_cidrs out (r_start r) (r_end r)) [] (ranges ch))"

section \<open>The blocks cover the range\<close>

definition block_set :: "u32 \<times> nat \<Rightarrow> u32 set" where
  "block_set b = {x. drop_bit (32 - snd b) x = drop_bit (32 - snd b) (fst b)}"

lemma aligned_block:
  assumes "2 ^ k dvd unat (s::u32)"
  shows "drop_bit k x = drop_bit k s \<longleftrightarrow> unat s \<le> unat x \<and> unat x < unat s + 2 ^ k"
proof -
  obtain q where q: "unat s = q * 2 ^ k" using assms by (metis dvdE mult.commute)
  have "drop_bit k x = drop_bit k s \<longleftrightarrow> unat x div 2 ^ k = q"
    unfolding word_unat_eq_iff unat_drop_bit_u32 q by simp
  also have "\<dots> \<longleftrightarrow> q * 2 ^ k \<le> unat x \<and> unat x < Suc q * 2 ^ k"
    by (rule div_eq_iff_interval) simp
  finally show ?thesis by (simp add: q add.commute)
qed

text \<open>
  The ranges on which the word arithmetic of the loop does not overflow: those that do not
  begin at address 0, and those that do but stay below \<open>127.255.255.255\<close>.
\<close>

definition no_overflow :: "u32 \<Rightarrow> u32 \<Rightarrow> bool" where
  "no_overflow s e \<longleftrightarrow> s \<noteq> 0 \<or> unat e + 1 < 2 ^ 31"

lemma unat_remaining:
  assumes "s \<le> e" "no_overflow s e"
  shows "unat (e - s + 1 :: u32) = unat e - unat s + 1"
proof -
  have d: "unat (e - s) = unat e - unat s" using assms(1) by (rule unat_sub)
  have "unat e < 2 ^ 32" using unsigned_less [of e] by simp
  moreover have "s \<noteq> 0 \<longrightarrow> 0 < unat s" by (simp add: unat_gt_0)
  ultimately have "unat e - unat s + 1 < 2 ^ 32"
    using assms(2) by (auto simp: no_overflow_def)
  then show ?thesis by (simp only: unat_word_ariths d) simp
qed

lemma block_fits:
  assumes "s \<le> e" "no_overflow s e"
  shows "block_bits s e < 32" "unat s + 2 ^ block_bits s e \<le> unat e + 1"
    "2 ^ block_bits s e dvd unat s"
proof -
  let ?m = "if s = 0 then 32 else trailing_zeros32 s"
  let ?r = "e - s + 1"
  let ?n = "nbits_loop ?r ?m 0"
  have r: "unat ?r = unat e - unat s + 1" by (rule unat_remaining [OF assms])
  have "?n \<noteq> 0"
  proof
    assume n: "?n = 0"
    have "shl1 0 \<le> ?r" using r by (simp add: shl1_def word_le_nat_alt)
    with nbits_loop_stop [of ?r ?m 0] n show False by simp
  qed
  then have p: "\<And>k. k \<le> block_bits s e \<Longrightarrow> shl1 k \<le> ?r \<and> k \<le> ?m"
    using nbits_loop_prop [of 0 ?r ?m] by (auto simp: block_bits_def Let_def)
  show k: "block_bits s e < 32"
  proof (cases "s = 0")
    case False
    then show ?thesis using p [of "block_bits s e"] trailing_zeros32_less [of s] by auto
  next
    case True
    show ?thesis
    proof (rule ccontr)
      assume "\<not> block_bits s e < 32"
      then have "shl1 31 \<le> ?r" using p [of 31] by simp
      then have "2 ^ 31 \<le> unat e + 1" using r True by (simp add: word_le_nat_alt unat_shl1)
      with assms(2) True show False by (simp add: no_overflow_def)
    qed
  qed
  have "2 ^ block_bits s e \<le> unat ?r"
    using p [of "block_bits s e"] k by (simp add: word_le_nat_alt unat_shl1)
  then show "unat s + 2 ^ block_bits s e \<le> unat e + 1"
    using r assms(1) by (simp add: word_le_nat_alt)
  show "2 ^ block_bits s e dvd unat s" using block_bits_dvd by (cases "s = 0") auto
qed

lemma range_blocks_cover:
  "s \<le> e \<Longrightarrow> no_overflow s e \<Longrightarrow> (\<Union>b\<in>set (range_blocks s e). block_set b) = {s..e}"
proof (induction s e rule: range_blocks.induct)
  case (1 s e)
  define k where "k = block_bits s e"
  define s' where "s' = s + shl1 k"
  note fit = block_fits [OF "1.prems", folded k_def]
  have blk: "block_set (s, 32 - k) = {x. unat s \<le> unat x \<and> unat x < unat s + 2 ^ k}"
    using aligned_block [OF fit(3)] fit(1) by (auto simp: block_set_def)
  have eq: "range_blocks s e = (s, 32 - k) # (if s' = 0 then [] else range_blocks s' e)"
    using "1.prems"(1) by (subst range_blocks.simps) (simp add: Let_def k_def s'_def)
  show ?case
  proof (cases "s' = 0")
    case True
    have lt: "unat e < 2 ^ 32" using unsigned_less [of e] by simp
    have "unat s + 2 ^ k = 2 ^ 32"
    proof -
      have "(unat s + 2 ^ k) mod 2 ^ 32 = 0"
        using True fit(1) by (simp add: s'_def unat_word_ariths unat_shl1 word_unat_eq_iff)
      moreover have "0 < unat s + 2 ^ k" by simp
      moreover have "unat s + 2 ^ k \<le> 2 ^ 32" using fit(2) lt by linarith
      ultimately show ?thesis by (metis dvd_imp_le dvd_eq_mod_eq_0 le_antisym)
    qed
    then have "unat e + 1 = 2 ^ 32" using fit(2) lt by linarith
    with \<open>unat s + 2 ^ k = 2 ^ 32\<close> have se: "unat s + 2 ^ k = unat e + 1" by simp
    have "block_set (s, 32 - k) = {s..e}"
      unfolding blk se by (auto simp: word_le_nat_alt)
    then show ?thesis unfolding eq using True by simp
  next
    case False
    have s': "unat s' = unat s + 2 ^ k"
      using next_start(2) [of s e] False by (simp add: s'_def k_def)
    have rest: "(\<Union>b\<in>set (range_blocks s' e). block_set b) = {s'..e}"
    proof (cases "s' \<le> e")
      case True
      show ?thesis
        by (rule "1.IH" [OF "1.prems"(1) k_def s'_def False True])
           (simp add: no_overflow_def False)
    next
      case False
      then show ?thesis by (subst range_blocks.simps) auto
    qed
    have "block_set (s, 32 - k) \<union> {s'..e} = {s..e}"
      unfolding blk using fit(2) s' by (auto simp: word_le_nat_alt)
    then show ?thesis unfolding eq using False rest by simp
  qed
qed

lemma append_range_cidrs_blocks:
  "append_range_cidrs dst s e = dst @ map (\<lambda>(a, l). cidr_string a l) (range_blocks s e)"
proof (induction dst s e rule: append_range_cidrs.induct)
  case (1 dst s e)
  show ?case
    using 1 by (subst append_range_cidrs.simps, subst range_blocks.simps) (simp add: Let_def)
qed

lemma range_blocks_len: "(a, l) \<in> set (range_blocks s e) \<Longrightarrow> l \<le> 32"
proof (induction s e rule: range_blocks.induct)
  case (1 s e)
  then show ?case
    by (subst (asm) (2) range_blocks.simps) (auto simp: Let_def split: if_splits)
qed

section \<open>Printed prefixes parse back\<close>

lemma is_digit_not_dot [simp]: "is_digit c \<Longrightarrow> c \<noteq> dot"
  by (auto simp: is_digit_def dot_def char_code_def)

lemma is_digit_props:
  "is_digit c \<Longrightarrow> c \<noteq> slash \<and> c \<noteq> colon \<and> c \<noteq> CHR ''%'' \<and> \<not> is_space c \<and> char_code c \<noteq> 10
     \<and> char_code c \<noteq> 13"
  by (auto simp: is_digit_def slash_def colon_def is_space_def char_code_def)

text \<open>At most three decimal digits: the shapes \<open>show_nat\<close> gives to an octet.\<close>

lemma show_nat_cases:
  assumes "n < 1000"
  shows "n < 10 \<and> show_nat n = [char_of (48 + n)] \<or>
    10 \<le> n \<and> n < 100 \<and> show_nat n = [char_of (48 + n div 10), char_of (48 + n mod 10)] \<or>
    100 \<le> n \<and> show_nat n =
      [char_of (48 + n div 100), char_of (48 + n div 10 mod 10), char_of (48 + n mod 10)]"
proof -
  consider "n < 10" | "10 \<le> n" "n < 100" | "100 \<le> n" by linarith
  then show ?thesis
  proof cases
    case 1
    then show ?thesis by (simp add: show_nat.simps [of n])
  next
    case 2
    then show ?thesis by (simp add: show_nat.simps [of n] show_nat.simps [of "n div 10"])
  next
    case 3
    then have "n div 100 < 10" "\<not> n div 10 < 10" "n div 10 div 10 = n div 100"
      using assms by (auto simp: div_mult2_eq [symmetric])
    with 3 show ?thesis
      by (simp add: show_nat.simps [of n] show_nat.simps [of "n div 10"] show_nat.simps [of "n div 100"])
  qed
qed

lemma dec_digits: "n div 10 * 10 + n mod 10 = (n::nat)"
  "(n div 100 * 10 + n div 10 mod 10) * 10 + n mod 10 = n"
proof -
  have "n div 100 * 10 + n div 10 mod 10 = n div 10"
    using div_mult_mod_eq [of "n div 10" 10] by (simp add: div_mult2_eq [symmetric])
  then show "(n div 100 * 10 + n div 10 mod 10) * 10 + n mod 10 = n" by simp
qed simp

lemma v4_loop_octet:
  assumes "n < 256"
  shows "v4_loop p 0 pos 0 fs (show_nat n @ rest) =
    v4_loop (Some (last (show_nat n))) n pos (length (show_nat n)) fs rest"
proof -
  have d: "\<And>k::nat. k < 10 \<Longrightarrow> is_digit (char_of (48 + k))"
    "\<And>k::nat. k < 10 \<Longrightarrow> digit_val (char_of (48 + k)) = k"
    using digit_char by auto
  have "n < 1000" using assms by simp
  from show_nat_cases [OF this] consider
    "n < 10" "show_nat n = [char_of (48 + n)]"
  | "10 \<le> n" "n < 100" "show_nat n = [char_of (48 + n div 10), char_of (48 + n mod 10)]"
  | "100 \<le> n" "show_nat n =
      [char_of (48 + n div 100), char_of (48 + n div 10 mod 10), char_of (48 + n mod 10)]"
    by blast
  then show ?thesis
  proof cases
    case 1
    then show ?thesis by (simp add: d)
  next
    case 2
    then have "n div 10 < 10" "0 < n div 10" "\<not> 255 < n div 10" by auto
    with 2 show ?thesis using dec_digits(1) [of n] by (auto simp: d Let_def)
  next
    case 3
    have a: "n div 100 < 10" "0 < n div 100" "n div 100 * 10 + n div 10 mod 10 = n div 10"
      "n div 10 * 10 + n mod 10 = n" "n div 10 < 256"
      using 3(1) assms dec_digits(2) [of n] by auto
    show ?thesis using assms a unfolding 3(2) by (auto simp: d a(3) Let_def)
  qed
qed

lemma last_show_nat_digit: "is_digit (last (show_nat n))"
  by (rule show_nat_digits [of _ n]) (rule last_in_set, simp)

lemma not_digit_dot [simp]: "\<not> is_digit dot"
  by (simp add: is_digit_def dot_def char_code_def)

lemma parse_show_v4:
  assumes "length b = 4"
  shows "parse_v4 (show_v4 b) = Some b"
proof -
  obtain w x y z where b: "b = [w, x, y, z]" using length4E [OF assms] by blast
  have lt: "unat (v :: u8) < 256" for v using unsigned_less [of v] by simp
  have l: "last (show_nat n) \<noteq> dot" for n using last_show_nat_digit is_digit_not_dot by blast
  note o4 = v4_loop_octet [OF lt, where rest = "[]", simplified]
  show ?thesis
    by (simp add: parse_v4_def show_v4_def b v4_loop_octet [OF lt] o4 l)
qed

lemma dtoi_show_nat: "n < 1000 \<Longrightarrow> dtoi (show_nat n) = Some (n, length (show_nat n))"
proof -
  assume n: "n < 1000"
  have d: "\<And>k::nat. k < 10 \<Longrightarrow> is_digit (char_of (48 + k))"
    "\<And>k::nat. k < 10 \<Longrightarrow> digit_val (char_of (48 + k)) = k"
    using digit_char by auto
  from show_nat_cases [OF n] consider
    "n < 10" "show_nat n = [char_of (48 + n)]"
  | "10 \<le> n" "n < 100" "show_nat n = [char_of (48 + n div 10), char_of (48 + n mod 10)]"
  | "100 \<le> n" "show_nat n =
      [char_of (48 + n div 100), char_of (48 + n div 10 mod 10), char_of (48 + n mod 10)]"
    by blast
  then show ?thesis
  proof cases
    case 1
    then show ?thesis by (simp add: dtoi_def d)
  next
    case 2
    then have "n div 10 < 10" "\<not> 16777215 \<le> n div 10" by auto
    with 2 show ?thesis using dec_digits(1) [of n] by (simp add: dtoi_def d Let_def)
  next
    case 3
    have a: "n div 100 < 10" "n div 100 * 10 + n div 10 mod 10 = n div 10"
      "n div 10 * 10 + n mod 10 = n" "\<not> 16777215 \<le> n div 100" "\<not> 16777215 \<le> n div 10"
      using n dec_digits(2) [of n] by auto
    show ?thesis using n a unfolding 3(2) by (simp add: dtoi_def d a(2) Let_def)
  qed
qed

lemma show_v4_chars: "c \<in> set (show_v4 b) \<Longrightarrow> is_digit c \<or> c = dot"
  by (auto simp: show_v4_def dest: show_nat_digits)

lemma cidr_string_chars:
  assumes "c \<in> set (cidr_string a l)"
  shows "\<not> is_space c" "char_code c \<noteq> 10" "char_code c \<noteq> 13" "c \<noteq> CHR ''#''"
proof -
  have "is_digit c \<or> c = dot \<or> c = slash"
    using assms by (auto simp: cidr_string_def slash_def dest: show_v4_chars show_nat_digits)
  then show "\<not> is_space c" "char_code c \<noteq> 10" "char_code c \<noteq> 13" "c \<noteq> CHR ''#''"
    by (auto simp: is_digit_def is_space_def dot_def slash_def char_code_def)
qed

lemma cidr_string_ne [simp]: "cidr_string a l \<noteq> []"
  by (simp add: cidr_string_def)

lemma index_where_append_skip:
  "\<forall>x\<in>set a. \<not> p x \<Longrightarrow> p c \<Longrightarrow> index_where p (a @ c # r) = Some (length a)"
  by (induction a) auto

lemma find_first_dot:
  "\<forall>c\<in>set a. is_digit c \<Longrightarrow>
   List.find (\<lambda>c. c = dot \<or> c = colon \<or> c = CHR ''%'') (a @ dot # r) = Some dot"
  by (induction a) (auto dest: is_digit_props)

lemma parse_addr_show_v4: "length b = 4 \<Longrightarrow> parse_addr (show_v4 b) = Some (V4 b)"
  using find_first_dot [of "show_nat (unat (b ! 0))"] parse_show_v4 [of b]
  by (simp add: parse_addr_def) (simp add: show_v4_def show_nat_digits)

lemma parse_cidr_cidr_string:
  assumes "l \<le> 32"
  shows "parse_cidr (cidr_string a l) =
    Some \<lparr>net_ip = ip_mask (put_uint32 a) (cidr_mask l 32), net_ones = l, net_bits = 32\<rparr>"
proof -
  have s: "slash \<notin> set (show_v4 b)" for b
    by (auto dest!: show_v4_chars is_digit_props) (simp add: slash_def dot_def)
  have i: "index_byte (cidr_string a l) slash = Some (length (show_v4 (put_uint32 a)))"
    unfolding index_byte_def cidr_string_def
    using index_where_append_skip [of "show_v4 (put_uint32 a)" "\<lambda>x. x = slash" slash "show_nat l"] s
    by (auto simp: slash_def)
  have d: "dtoi (show_nat l) = Some (l, length (show_nat l))"
    by (rule dtoi_show_nat) (use assms in simp)
  have "take (length (show_v4 (put_uint32 a))) (cidr_string a l) = show_v4 (put_uint32 a)"
    "drop (Suc (length (show_v4 (put_uint32 a)))) (cidr_string a l) = show_nat l"
    by (simp_all add: cidr_string_def)
  then show ?thesis
    using assms by (simp add: parse_cidr_def i parse_addr_show_v4 d)
qed

lemma drop_bit_masked:
  assumes "length b = 4" "n \<le> 32"
  shows "drop_bit (32 - n) (be_uint32 (ip_mask b (cidr_mask n 32))) = drop_bit (32 - n) (be_uint32 b)"
proof (rule bit_word_eqI)
  fix i assume "i < LENGTH(32)"
  show "bit (drop_bit (32 - n) (be_uint32 (ip_mask b (cidr_mask n 32)))) i =
      bit (drop_bit (32 - n) (be_uint32 b)) i"
    using assms bit_masked_v4 [OF assms, of "32 - n + i"]
    by (cases "32 - n + i < 32") (auto simp: bit_drop_bit_eq dest: bit_imp_le_length)
qed

lemma line_covers_cidr_string:
  assumes "l \<le> 32"
  shows "line_covers (cidr_string a l) x \<longleftrightarrow> x \<in> block_set (a, l)"
proof -
  have t: "trim_space (cidr_string a l) = cidr_string a l"
    using cidr_string_chars(1) by (intro trim_space_id) blast
  have h: "\<not> has_prefix (cidr_string a l) ''#''"
    using cidr_string_chars(4) [of "CHR ''#''" a l] by (auto simp: has_prefix_iff)
  show ?thesis
    using drop_bit_masked [of "put_uint32 a" l] assms
    by (simp add: line_covers_def t h parse_cidr_cidr_string block_set_def)
qed

text \<open>A file that holds the given lines, one per line.\<close>

definition unlines :: "string list \<Rightarrow> string" where
  "unlines ls = concat (map (\<lambda>l. l @ [char_of (10::nat)]) ls)"

lemma scan_line_prefix:
  "\<forall>c\<in>set l. char_code c \<noteq> 10 \<Longrightarrow>
   scan_lines_acc cur (l @ char_of (10::nat) # r) = drop_cr (rev cur @ l) # scan_lines_acc [] r"
  by (induction l arbitrary: cur) (simp_all add: char_code_char_of)

lemma scan_unlines:
  "\<forall>l\<in>set ls. \<forall>c\<in>set l. char_code c \<noteq> 10 \<and> char_code c \<noteq> 13 \<Longrightarrow> scan_lines (unlines ls) = ls"
proof (induction ls)
  case Nil
  show ?case by (simp add: scan_lines_def unlines_def)
next
  case (Cons l ls)
  have "drop_cr l = l"
    using Cons.prems by (auto simp: drop_cr_def char_code_char_of dest!: last_in_set)
  with Cons scan_line_prefix [of l "[]" "unlines ls"] show ?case
    by (simp add: scan_lines_def unlines_def)
qed

section \<open>What CIDRs returns\<close>

lemma chn_cidrs_concat:
  "chn_cidrs (Some ch) =
     concat (map (\<lambda>r. map (\<lambda>(a, l). cidr_string a l) (range_blocks (r_start r) (r_end r))) (ranges ch))"
proof -
  have "foldl (\<lambda>out r. append_range_cidrs out (r_start r) (r_end r)) acc rs = acc @
      concat (map (\<lambda>r. map (\<lambda>(a, l). cidr_string a l) (range_blocks (r_start r) (r_end r))) rs)"
    for acc and rs :: "ip_range list"
    by (induction rs arbitrary: acc) (simp_all add: append_range_cidrs_blocks)
  then show ?thesis by (simp add: chn_cidrs_def)
qed

definition cidrs_safe :: "chnroute \<Rightarrow> bool" where
  "cidrs_safe c \<longleftrightarrow> list_all (\<lambda>r. no_overflow (r_start r) (r_end r)) (ranges c)"

lemma cidrs_cover_ranges:
  assumes "chnroute_ok c" "cidrs_safe c"
  shows "(\<exists>l\<in>set (chn_cidrs (Some c)). line_covers l x) \<longleftrightarrow> x \<in> range_set (ranges c)"
proof -
  have ok: "range_ok r" "no_overflow (r_start r) (r_end r)" if "r \<in> set (ranges c)" for r
    using that assms separated_range_ok [of "ranges c"]
    by (auto simp: chnroute_ok_def cidrs_safe_def list_all_iff in_set_conv_nth)
  have "(\<exists>l\<in>set (chn_cidrs (Some c)). line_covers l x) \<longleftrightarrow>
      (\<exists>r\<in>set (ranges c). \<exists>b\<in>set (range_blocks (r_start r) (r_end r)). x \<in> block_set b)"
    by (force simp: chn_cidrs_concat line_covers_cidr_string range_blocks_len)
  also have "\<dots> \<longleftrightarrow> (\<exists>r\<in>set (ranges c). x \<in> {r_start r..r_end r})"
    using range_blocks_cover ok by (metis (no_types, lifting) UN_iff range_ok_def)
  finally show ?thesis by (auto simp: range_set_def)
qed

lemma cidr_lines_scan: "scan_lines (unlines (chn_cidrs (Some c))) = chn_cidrs (Some c)"
  by (rule scan_unlines) (auto simp: chn_cidrs_concat dest: cidr_string_chars)

lemma range_blocks_ne: "s \<le> e \<Longrightarrow> range_blocks s e \<noteq> []"
  by (subst range_blocks.simps) (simp add: Let_def)

lemma block_bits_zero_wide:
  assumes "2 ^ 31 \<le> unat e + 1" "e \<noteq> - 1"
  shows "block_bits 0 e = 32"
proof -
  let ?n = "nbits_loop (e + 1) 32 0"
  have "unat e \<noteq> 2 ^ 32 - 1" using assms(2) by (auto simp: word_unat_eq_iff unsigned_minus_1_eq_mask mask_eq_exp_minus_1)
  moreover have "unat e < 2 ^ 32" using unsigned_less [of e] by simp
  ultimately have "unat e + 1 < 2 ^ 32" by linarith
  then have r: "unat (e + 1) = unat e + 1" by (simp only: unat_word_ariths) simp
  have small: "shl1 k \<le> e + 1" for k
  proof (cases "k < 32")
    case True
    then have "(2::nat) ^ k \<le> 2 ^ 31" by (intro power_increasing) simp_all
    then show ?thesis using True assms(1) by (simp add: word_le_nat_alt r unat_shl1)
  next
    case False
    then show ?thesis by (simp add: shl1_32)
  qed
  have "\<not> ?n \<le> 32" using nbits_loop_stop [of "e + 1" 32 0] small by blast
  moreover have "?n - 1 \<le> 32"
    using nbits_loop_prop [of 0 "e + 1" 32] \<open>\<not> ?n \<le> 32\<close>
    by (metis diff_less le_0_eq not_le_imp_less zero_less_one bot_nat_0.not_eq_extremum zero_le)
  ultimately have "?n = 33" by linarith
  then show ?thesis by (simp add: block_bits_def Let_def)
qed

section \<open>Properties\<close>

text \<open>C36: \<open>CIDRs\<close> and the loader round-trip: writing the CIDR strings of a well-formed set to
  a file, one per line, and loading that file gives a set with the same members, as long as no
  range starts at address 0 and reaches 127.255.255.255 or beyond.\<close>

theorem cidrs_load_roundtrip:
  assumes "chnroute_ok c" "cidrs_safe c" "ranges c \<noteq> []"
  shows "\<exists>c'. load_chnroute_files [FileText (unlines (chn_cidrs (Some c)))] = Inr c' \<and>
    (\<forall>a. chn_contains (Some c') a = chn_contains (Some c) a)"
proof -
  let ?f = "FileText (unlines (chn_cidrs (Some c)))"
  have lines: "file_lines ?f = chn_cidrs (Some c)" by (simp add: file_lines_def cidr_lines_scan)
  obtain raw where raw: "load_raw [?f] [] = Inr raw" by simp
  have rs: "range_set raw = range_set (ranges c)"
    using range_set_raw [OF raw] cidrs_cover_ranges [OF assms(1,2)] lines by auto
  have "range_ok (hd (ranges c))"
    using assms(1,3) separated_range_ok [of "ranges c" 0] by (simp add: chnroute_ok_def hd_conv_nth)
  then have "range_set (ranges c) \<noteq> {}"
    using assms(3) by (cases "ranges c") (auto simp: range_ok_def)
  with rs have "raw \<noteq> []" by auto
  then have "sort_key r_start raw \<noteq> []" by (metis set_empty set_sort)
  then obtain c' where c': "load_chnroute_files [?f] = Inr c'"
    using raw by (cases "sort_key r_start raw") (auto simp: load_chnroute_files_def simp del: load_raw.simps)
  have "chnroute_ok c'" "range_set (ranges c') = range_set (ranges c)"
    using load_chnroute_ok [OF c'] raw rs by auto
  then have "chn_contains (Some c') a = chn_contains (Some c) a" for a
    using chn_contains_iff assms(1) by simp
  with c' show ?thesis by blast
qed

lemma cidrs_load_roundtrip_witness:
  "\<exists>c'. load_chnroute_files [FileText (unlines
      (chn_cidrs (Some \<lparr>ranges = [\<lparr>r_start = 5, r_end = 1000\<rparr>]\<rparr>)))] = Inr c' \<and>
    (\<forall>a. chn_contains (Some c') a =
      chn_contains (Some \<lparr>ranges = [\<lparr>r_start = 5, r_end = 1000\<rparr>]\<rparr>) a)"
  by (rule cidrs_load_roundtrip)
     (simp_all add: chnroute_ok_def range_ok_def cidrs_safe_def no_overflow_def)

text \<open>The blocks of a range on which the loop does not overflow partition nothing away: an
  address lies in one of the printed prefixes exactly when it lies in the range.\<close>

theorem range_cidrs_exact:
  assumes "s \<le> e" "no_overflow s e"
  shows "(\<exists>l\<in>set (append_range_cidrs [] s e). line_covers l x) \<longleftrightarrow> s \<le> x \<and> x \<le> e"
proof -
  have "(\<exists>l\<in>set (append_range_cidrs [] s e). line_covers l x) \<longleftrightarrow>
      (\<exists>b\<in>set (range_blocks s e). x \<in> block_set b)"
    by (force simp: append_range_cidrs_blocks line_covers_cidr_string range_blocks_len)
  also have "\<dots> \<longleftrightarrow> x \<in> {s..e}" using range_blocks_cover [OF assms] by blast
  finally show ?thesis by simp
qed

lemma range_cidrs_exact_witness:
  "\<exists>l\<in>set (append_range_cidrs [] 0 (0x7FFFFFFE)). line_covers l 7"
  using range_cidrs_exact [of 0 "0x7FFFFFFE" 7] by (simp add: no_overflow_def)

text \<open>A range that starts at address 0 and ends at or after 127.255.255.255, but before the
  last address, is printed as the single prefix 0.0.0.0/0: the shift \<open>1<<32\<close> is 0 in \<open>uint32\<close>, so
  the inner loop runs one step too far and the result covers every address.\<close>

theorem zero_range_becomes_everything:
  assumes "2 ^ 31 \<le> unat e + 1" "e \<noteq> - 1"
  shows "append_range_cidrs dst 0 e = dst @ [''0.0.0.0/0''] \<and> (\<forall>x. line_covers ''0.0.0.0/0'' x)"
proof -
  have z: "cidr_string 0 0 = ''0.0.0.0/0''" by code_simp
  have "append_range_cidrs dst 0 e = dst @ [''0.0.0.0/0'']"
    using z by (subst append_range_cidrs.simps)
      (simp add: Let_def block_bits_zero_wide [OF assms] shl1_32)
  moreover have "line_covers (cidr_string 0 0) x" for x
  proof -
    have "drop_bit 32 y = 0" for y :: u32
      by (rule bit_word_eqI) (auto simp: bit_simps dest: bit_imp_le_length)
    then show ?thesis by (simp only: line_covers_cidr_string) (simp add: block_set_def)
  qed
  ultimately show ?thesis by (simp add: z)
qed

lemma zero_range_becomes_everything_witness:
  "append_range_cidrs [] 0 0x7FFFFFFF = [''0.0.0.0/0'']"
  using zero_range_becomes_everything [of "0x7FFFFFFF" "[]"] by simp

end
