(* ===== verification/Breaker.thy ===== *)
theory Breaker
  imports Prelude
begin

text \<open>
  \<open>breaker.go\<close>: the circuit breaker of an upstream group. The state is the breaker's fields
  without the mutex; a nil breaker is \<^term>\<open>None\<close>; the clock reading of an operation is its
  argument (the code reads it at most once per operation). \<open>openUntil\<close> is \<^term>\<open>None\<close> while it
  is the zero time.
\<close>

section \<open>State and operations\<close>

record breaker =
  failures :: int
  open_until :: "go_time option"
  probe_in_flight :: bool

definition breaker_threshold :: int where "breaker_threshold = 5"
definition breaker_cooldown :: duration where "breaker_cooldown = 10 * second"

definition new_breaker :: breaker where
  "new_breaker = \<lparr>failures = 0, open_until = None, probe_in_flight = False\<rparr>"

definition breaker_allow :: "breaker option \<Rightarrow> go_time \<Rightarrow> bool \<times> breaker option" where
  "breaker_allow ob now = (case ob of
     None \<Rightarrow> (True, None)
   | Some b \<Rightarrow>
      (case open_until b of
         None \<Rightarrow> (True, Some b)
       | Some u \<Rightarrow>
           if now < u \<or> probe_in_flight b then (False, Some b)
           else (True, Some (b\<lparr>probe_in_flight := True\<rparr>))))"

definition breaker_record :: "breaker option \<Rightarrow> bool \<Rightarrow> go_time \<Rightarrow> breaker option" where
  "breaker_record ob ok now = (case ob of
     None \<Rightarrow> None
   | Some b0 \<Rightarrow>
      let b = b0\<lparr>probe_in_flight := False\<rparr> in
      if ok then Some (b\<lparr>failures := 0, open_until := None\<rparr>)
      else let b = b\<lparr>failures := failures b + 1\<rparr> in
        if failures b \<ge> breaker_threshold
        then Some (b\<lparr>open_until := Some (now + breaker_cooldown)\<rparr>)
        else Some b)"

definition breaker_record_canceled :: "breaker option \<Rightarrow> breaker option" where
  "breaker_record_canceled ob = map_option (\<lambda>b. b\<lparr>probe_in_flight := False\<rparr>) ob"

section \<open>Runs\<close>

text \<open>The calls other goroutines may make, in any order, each with its clock reading.\<close>

datatype breaker_op = Allow go_time | Succeed go_time | Fail go_time | Cancel

fun breaker_step :: "breaker option \<Rightarrow> breaker_op \<Rightarrow> breaker option" where
  "breaker_step b (Allow t) = snd (breaker_allow b t)"
| "breaker_step b (Succeed t) = breaker_record b True t"
| "breaker_step b (Fail t) = breaker_record b False t"
| "breaker_step b Cancel = breaker_record_canceled b"

definition breaker_run :: "breaker option \<Rightarrow> breaker_op list \<Rightarrow> breaker option" where
  "breaker_run b ops = foldl breaker_step b ops"

text \<open>The invariant: the breaker is open exactly from the threshold on, and only an open one probes.\<close>

definition breaker_inv :: "breaker \<Rightarrow> bool" where
  "breaker_inv b \<longleftrightarrow> 0 \<le> failures b \<and> (open_until b \<noteq> None \<longleftrightarrow> failures b \<ge> breaker_threshold) \<and>
     (probe_in_flight b \<longrightarrow> open_until b \<noteq> None)"

text \<open>What the history says: the failures since the last success, and the time of the last failure.\<close>

fun trailing_failures :: "breaker_op list \<Rightarrow> int" where
  "trailing_failures [] = 0"
| "trailing_failures (Fail t # ops) = 1 + trailing_failures ops"
| "trailing_failures (Succeed t # ops) = 0"
| "trailing_failures (_ # ops) = trailing_failures ops"

fun last_failure :: "breaker_op list \<Rightarrow> go_time option" where
  "last_failure [] = None"
| "last_failure (Fail t # ops) = Some t"
| "last_failure (_ # ops) = last_failure ops"

lemmas breaker_defs = breaker_allow_def breaker_record_def breaker_record_canceled_def Let_def

lemma new_breaker_inv [keeps_inv]: "breaker_inv new_breaker"
  by (simp add: new_breaker_def breaker_inv_def breaker_threshold_def)

lemma breaker_step_Some: "\<exists>b'. breaker_step (Some b) op = Some b'"
  by (cases op) (auto simp: breaker_defs split: option.splits)

lemma breaker_step_inv [keeps_inv]:
  "breaker_inv b \<Longrightarrow> breaker_step (Some b) op = Some b' \<Longrightarrow> breaker_inv b'"
  by (cases op)
     (auto simp: breaker_defs breaker_inv_def breaker_threshold_def split: option.splits if_splits)

lemma breaker_run_snoc: "breaker_run b (ops @ [op]) = breaker_step (breaker_run b ops) op"
  by (simp add: breaker_run_def)

lemma breaker_run_new:
  "\<exists>b. breaker_run (Some new_breaker) ops = Some b \<and> breaker_inv b \<and>
     failures b = trailing_failures (rev ops) \<and>
     (failures b \<ge> breaker_threshold \<longrightarrow>
        open_until b = map_option (\<lambda>t. t + breaker_cooldown) (last_failure (rev ops)))"
proof (induction ops rule: rev_induct)
  case Nil
  show ?case by (simp add: breaker_run_def new_breaker_inv) (simp add: new_breaker_def breaker_threshold_def)
next
  case (snoc op ops)
  then obtain b where b: "breaker_run (Some new_breaker) ops = Some b" "breaker_inv b"
    "failures b = trailing_failures (rev ops)"
    "failures b \<ge> breaker_threshold \<longrightarrow>
       open_until b = map_option (\<lambda>t. t + breaker_cooldown) (last_failure (rev ops))" by blast
  obtain b' where b': "breaker_step (Some b) op = Some b'" using breaker_step_Some by blast
  have "breaker_inv b'" using breaker_step_inv b(2) b' by blast
  moreover have "failures b' = trailing_failures (rev (ops @ [op])) \<and>
     (failures b' \<ge> breaker_threshold \<longrightarrow>
        open_until b' = map_option (\<lambda>t. t + breaker_cooldown) (last_failure (rev (ops @ [op]))))"
    using b(2-4) b'
    by (cases op) (auto simp: breaker_defs breaker_threshold_def breaker_inv_def split: option.splits if_splits)
  ultimately show ?case using b(1) b' by (auto simp: breaker_run_snoc)
qed

section \<open>Properties\<close>

text \<open>After any interleaving of calls on a new breaker, a call is admitted exactly when fewer
  than five failures were recorded since the last success, or the cooldown after the last of
  them is over and no probe is outstanding.\<close>

theorem breaker_admits_iff:
  assumes "breaker_run (Some new_breaker) ops = Some b"
  shows "fst (breaker_allow (Some b) now) \<longleftrightarrow>
    trailing_failures (rev ops) < breaker_threshold \<or>
    (\<exists>t. last_failure (rev ops) = Some t \<and> t + breaker_cooldown \<le> now \<and> \<not> probe_in_flight b)"
proof -
  have b: "breaker_inv b" "failures b = trailing_failures (rev ops)"
     "failures b \<ge> breaker_threshold \<longrightarrow>
        open_until b = map_option (\<lambda>t. t + breaker_cooldown) (last_failure (rev ops))"
    using breaker_run_new [of ops] assms by auto
  show ?thesis
  proof (cases "failures b \<ge> breaker_threshold")
    case True
    then have "open_until b \<noteq> None" using b(1) by (simp add: breaker_inv_def)
    with True b show ?thesis by (auto simp: breaker_allow_def split: if_splits)
  next
    case False
    then have "open_until b = None" using b(1) by (auto simp: breaker_inv_def)
    with False b show ?thesis by (simp add: breaker_allow_def)
  qed
qed

lemma breaker_admits_iff_witness:
  "\<not> fst (breaker_allow (breaker_run (Some new_breaker) [Fail 1, Fail 2, Fail 3, Fail 4, Fail 5]) 6)"
proof -
  have r: "breaker_run (Some new_breaker) [Fail 1, Fail 2, Fail 3, Fail 4, Fail 5] =
    Some \<lparr>failures = 5, open_until = Some 10000000005, probe_in_flight = False\<rparr>" by code_simp
  show ?thesis unfolding r using breaker_admits_iff [OF r, of 6]
    by (simp add: breaker_threshold_def breaker_cooldown_def)
qed

text \<open>Once the cooldown of an open breaker is over, the first call is admitted as a probe and
  every further call is refused until an outcome or a cancellation is recorded, whatever the
  clock says.\<close>

theorem breaker_single_probe:
  assumes "open_until b = Some u" "u \<le> now" "\<not> probe_in_flight b"
    and "\<forall>op\<in>set ops. \<exists>t. op = Allow t"
  shows "fst (breaker_allow (Some b) now) \<and>
    \<not> fst (breaker_allow (breaker_run (snd (breaker_allow (Some b) now)) ops) later)"
proof -
  let ?p = "b\<lparr>probe_in_flight := True\<rparr>"
  have a: "breaker_allow (Some b) now = (True, Some ?p)"
    using assms(1-3) by (simp add: breaker_allow_def)
  have s: "snd (breaker_allow (Some ?p) t) = Some ?p" for t
    using assms(1) by (simp add: breaker_allow_def)
  have "breaker_run (Some ?p) ops = Some ?p"
    using assms(4) by (induction ops) (auto simp: breaker_run_def s)
  then show ?thesis using a assms(1) by (simp add: breaker_allow_def)
qed

lemma breaker_single_probe_witness:
  "\<not> fst (breaker_allow (breaker_run (snd (breaker_allow
      (Some \<lparr>failures = 5, open_until = Some 10, probe_in_flight = False\<rparr>) 20)) [Allow 21]) 22)"
  using breaker_single_probe
    [of "\<lparr>failures = 5, open_until = Some 10, probe_in_flight = False\<rparr>" 10 20 "[Allow 21]" 22]
  by simp

text \<open>The half-open state does not limit itself to one outstanding probe when an older call
  of the same group is abandoned: a cancellation recorded by any call releases the probe slot,
  so a second probe is admitted while the first is still in flight.\<close>

theorem stale_cancel_admits_second_probe:
  assumes "open_until b = Some u" "u \<le> now" "\<not> probe_in_flight b"
  shows "\<exists>b1 b2. breaker_allow (Some b) now = (True, Some b1) \<and> probe_in_flight b1 \<and>
    breaker_record_canceled (Some b1) = Some b2 \<and> fst (breaker_allow (Some b2) now)"
  using assms by (auto simp: breaker_allow_def breaker_record_canceled_def)

lemma stale_cancel_admits_second_probe_witness:
  "\<exists>b1 b2. breaker_allow (Some \<lparr>failures = 5, open_until = Some 10, probe_in_flight = False\<rparr>) 20
      = (True, Some b1) \<and> probe_in_flight b1 \<and>
    breaker_record_canceled (Some b1) = Some b2 \<and> fst (breaker_allow (Some b2) 20)"
  by (rule stale_cancel_admits_second_probe [of _ 10]) simp_all

end
