(* ===== verification/Rate_Limit.thy ===== *)
theory Rate_Limit
  imports Complex_Main Prelude
begin

text \<open>
  \<open>ratelimit.go\<close>: the per-source token bucket of the API. The \<open>float64\<close> token counts and
  rates are exact rationals here; times are nanoseconds and durations in seconds are their
  quotient by \<open>10^9\<close>, as \<open>Duration.Seconds\<close> computes. The map of buckets is an association
  list; the sweep visits every bucket, so its order does not matter.
\<close>

section \<open>State and operations\<close>

record token_bucket =
  tokens :: rat
  b_last :: go_time

record rate_limiter =
  buckets :: "(string, token_bucket) go_map"
  rl_rate :: rat
  rl_burst :: rat
  rl_calls :: int
  last_sweep :: "go_time option"

definition evict_sweep_every :: int where "evict_sweep_every = 256"
definition evict_sweep_interval :: duration where "evict_sweep_interval = minute"
definition stale_idle_factor :: rat where "stale_idle_factor = 10"

definition new_rate_limiter :: "rat \<Rightarrow> int \<Rightarrow> rate_limiter" where
  "new_rate_limiter rate burst =
     (let b = (if rate > 0 \<and> burst \<le> 0 then 40 else burst)
      in \<lparr>buckets = [], rl_rate = rate, rl_burst = of_int b, rl_calls = 0, last_sweep = None\<rparr>)"

definition seconds :: "duration \<Rightarrow> rat" where
  "seconds d = of_int d / 1000000000"

text \<open>How long a bucket may be idle, in nanoseconds; \<open>None\<close> is the early return.\<close>

definition stale_after :: "rate_limiter \<Rightarrow> duration option" where
  "stale_after rl =
     (let secs = stale_idle_factor * rl_burst rl / rl_rate rl in
      if secs \<le> 0 then None
      else let secs' = (if secs > 3600 then 3600 else secs)
        in Some \<lfloor>secs' * 1000000000\<rfloor>)"

definition rl_evict :: "rate_limiter \<Rightarrow> go_time \<Rightarrow> rate_limiter" where
  "rl_evict rl0 now =
     (let rl = rl0\<lparr>last_sweep := Some now\<rparr> in
      case stale_after rl of
        None \<Rightarrow> rl
      | Some d \<Rightarrow> rl\<lparr>buckets := filter (\<lambda>(k, b). \<not> (now - b_last b > d)) (buckets rl)\<rparr>)"

text \<open>The zero time is so far away that \<open>now.Sub\<close> saturates above the interval.\<close>

definition sweep_due :: "rate_limiter \<Rightarrow> go_time \<Rightarrow> bool" where
  "sweep_due rl now \<longleftrightarrow>
     rl_calls rl mod evict_sweep_every = 0 \<or> (last_sweep rl = None \<and> rl_calls rl = 1) \<or>
     (case last_sweep rl of None \<Rightarrow> True | Some t \<Rightarrow> now - t \<ge> evict_sweep_interval)"

definition refill :: "rate_limiter \<Rightarrow> token_bucket \<Rightarrow> go_time \<Rightarrow> token_bucket" where
  "refill rl b now =
     (let elapsed = seconds (now - b_last b) in
      if elapsed > 0
      then b\<lparr>tokens := min (rl_burst rl) (tokens b + elapsed * rl_rate rl), b_last := now\<rparr>
      else b)"

definition rl_allow :: "rate_limiter \<Rightarrow> string \<Rightarrow> go_time \<Rightarrow> bool \<times> rate_limiter" where
  "rl_allow rl0 key now =
     (if rl_rate rl0 \<le> 0 then (True, rl0)
      else
        let rl1 = rl0\<lparr>rl_calls := rl_calls rl0 + 1\<rparr>;
            rl = (if sweep_due rl1 now then rl_evict rl1 now else rl1);
            b = (case map_of (buckets rl) key of
                   None \<Rightarrow> \<lparr>tokens = rl_burst rl, b_last = now\<rparr>
                 | Some b \<Rightarrow> refill rl b now)
        in if tokens b \<ge> 1
           then (True, rl\<lparr>buckets := AList.update key (b\<lparr>tokens := tokens b - 1\<rparr>) (buckets rl)\<rparr>)
           else (False, rl\<lparr>buckets := AList.update key b (buckets rl)\<rparr>))"

text \<open>A sequence of calls: the source and the time of each, and which of them were admitted.\<close>

fun rl_run :: "rate_limiter \<Rightarrow> (string \<times> go_time) list \<Rightarrow> bool list \<times> rate_limiter" where
  "rl_run rl [] = ([], rl)"
| "rl_run rl ((k, t) # cs) =
     (let (ok, rl') = rl_allow rl k t; (oks, rl'') = rl_run rl' cs in (ok # oks, rl''))"

definition admitted :: "string \<Rightarrow> (string \<times> go_time) list \<Rightarrow> bool list \<Rightarrow> nat" where
  "admitted k cs oks = length (filter (\<lambda>((k', t), ok). k' = k \<and> ok) (zip cs oks))"

section \<open>Credit\<close>

text \<open>
  The tokens a source could spend at a time: its bucket refilled to that time, or a full
  bucket when it has none. Every admission costs one token of credit, waiting earns
  \<open>rate\<close> per second, and a sweep changes no source's credit as long as a dropped bucket has
  been idle long enough to be full.
\<close>

definition credit :: "rate_limiter \<Rightarrow> string \<Rightarrow> go_time \<Rightarrow> rat" where
  "credit rl k now = (case map_of (buckets rl) k of
     None \<Rightarrow> rl_burst rl
   | Some b \<Rightarrow> min (rl_burst rl) (tokens b + seconds (now - b_last b) * rl_rate rl))"

definition rl_inv :: "rate_limiter \<Rightarrow> go_time \<Rightarrow> bool" where
  "rl_inv rl now \<longleftrightarrow> 0 < rl_rate rl \<and> distinct (map fst (buckets rl)) \<and> 1 \<le> rl_burst rl \<and>
     (\<forall>p\<in>set (buckets rl). 0 \<le> tokens (snd p) \<and> tokens (snd p) \<le> rl_burst rl \<and>
        b_last (snd p) \<le> now)"

text \<open>An empty bucket is full again within the hour after which it is forgotten.\<close>

definition refills_in_time :: "rate_limiter \<Rightarrow> bool" where
  "refills_in_time rl \<longleftrightarrow> rl_burst rl \<le> 3600 * rl_rate rl"

lemma seconds_diff: "seconds (a - b) + seconds (b - c) = seconds (a - c)"
  by (simp add: seconds_def field_simps)

lemma seconds_pos: "seconds d > 0 \<longleftrightarrow> d > 0"
  by (simp add: seconds_def)

lemma rl_invD:
  assumes "rl_inv rl now" "map_of (buckets rl) k = Some b"
  shows "0 \<le> tokens b \<and> tokens b \<le> rl_burst rl \<and> b_last b \<le> now"
proof -
  have "(k, b) \<in> set (buckets rl)" using assms(2) by (rule map_of_SomeD)
  then show ?thesis using assms(1) unfolding rl_inv_def by (metis snd_conv)
qed

lemma credit_full_when_stale:
  assumes "rl_inv rl now" "refills_in_time rl" "stale_after rl = Some d"
    "map_of (buckets rl) k = Some b" "now - b_last b > d"
  shows "credit rl k now = rl_burst rl"
proof -
  have r: "0 < rl_rate rl" "1 \<le> rl_burst rl" using assms(1) by (auto simp: rl_inv_def)
  let ?s = "min 3600 (stale_idle_factor * rl_burst rl / rl_rate rl)"
  have "(if stale_idle_factor * rl_burst rl / rl_rate rl > 3600 then 3600
      else stale_idle_factor * rl_burst rl / rl_rate rl) = ?s" by (auto simp: min_def)
  then have d: "d = \<lfloor>?s * 1000000000\<rfloor>"
    using assms(3) unfolding stale_after_def Let_def by (simp only:) (simp split: if_splits)
  have "?s * 1000000000 < of_int (now - b_last b)"
    using assms(5) unfolding d by linarith
  then have s: "?s < seconds (now - b_last b)" by (simp add: seconds_def field_simps)
  have "rl_burst rl / rl_rate rl \<le> ?s"
    using r assms(2) by (simp add: stale_idle_factor_def refills_in_time_def field_simps)
  with s have "rl_burst rl / rl_rate rl \<le> seconds (now - b_last b)" by linarith
  then have "rl_burst rl \<le> seconds (now - b_last b) * rl_rate rl"
    using r by (simp add: field_simps)
  moreover have "0 \<le> tokens b" using rl_invD [OF assms(1,4)] by simp
  ultimately show ?thesis using assms(4) by (simp add: credit_def)
qed

lemma map_of_filter_value:
  "distinct (map fst m) \<Longrightarrow> map_of (filter (\<lambda>(k, v). P v) m) k =
     (case map_of m k of None \<Rightarrow> None | Some v \<Rightarrow> if P v then Some v else None)"
proof (induction m)
  case Nil
  then show ?case by simp
next
  case (Cons p m)
  then show ?case
    by (cases p) (force split: option.splits dest: map_of_SomeD)
qed

lemma rl_evict_buckets:
  "buckets (rl_evict rl now) = (case stale_after rl of None \<Rightarrow> buckets rl
     | Some d \<Rightarrow> filter (\<lambda>(k, b). \<not> (now - b_last b > d)) (buckets rl))"
  "rl_rate (rl_evict rl now) = rl_rate rl" "rl_burst (rl_evict rl now) = rl_burst rl"
  by (auto simp: rl_evict_def stale_after_def Let_def split: option.splits)

lemma rl_evict_inv [keeps_inv]: "rl_inv rl now \<Longrightarrow> rl_inv (rl_evict rl now) now"
  by (auto simp: rl_inv_def rl_evict_buckets distinct_map_filter split: option.splits)

lemma rl_evict_credit:
  assumes "rl_inv rl now" "refills_in_time rl"
  shows "credit (rl_evict rl now) k now = credit rl k now"
proof (cases "stale_after rl")
  case None
  then show ?thesis by (simp add: credit_def rl_evict_buckets split: option.split)
next
  case (Some d)
  have m: "map_of (buckets (rl_evict rl now)) k = (case map_of (buckets rl) k of None \<Rightarrow> None
     | Some b \<Rightarrow> if \<not> (now - b_last b > d) then Some b else None)"
    using assms(1) map_of_filter_value [of "buckets rl" "\<lambda>b. \<not> (now - b_last b > d)" k]
    by (simp add: rl_evict_buckets Some rl_inv_def)
  show ?thesis
  proof (cases "map_of (buckets rl) k")
    case None
    then show ?thesis using m by (simp add: credit_def rl_evict_buckets)
  next
    case (Some b)
    then show ?thesis
      using m credit_full_when_stale [OF assms \<open>stale_after rl = Some d\<close> Some]
      by (auto simp: credit_def rl_evict_buckets)
  qed
qed

lemma refill_props:
  assumes "0 \<le> tokens b" "tokens b \<le> rl_burst rl" "b_last b \<le> now" "0 < rl_rate rl"
  shows "tokens (refill rl b now) = min (rl_burst rl) (tokens b + seconds (now - b_last b) * rl_rate rl)"
    "b_last (refill rl b now) = now" "0 \<le> tokens (refill rl b now)" "tokens (refill rl b now) \<le> rl_burst rl"
proof -
  have "seconds (now - b_last b) \<ge> 0" using assms(3) by (simp add: seconds_def)
  then have "0 \<le> seconds (now - b_last b) * rl_rate rl" using assms(4) by simp
  then show "tokens (refill rl b now) = min (rl_burst rl) (tokens b + seconds (now - b_last b) * rl_rate rl)"
    "b_last (refill rl b now) = now" "0 \<le> tokens (refill rl b now)" "tokens (refill rl b now) \<le> rl_burst rl"
    using assms by (auto simp: refill_def Let_def seconds_pos) (auto simp: seconds_def)
qed

text \<open>The sweep of a call, then its bucket: what \<open>rl_allow\<close> decides from.\<close>

definition swept :: "rate_limiter \<Rightarrow> go_time \<Rightarrow> rate_limiter" where
  "swept rl0 now = (let rl1 = rl0\<lparr>rl_calls := rl_calls rl0 + 1\<rparr> in
     if sweep_due rl1 now then rl_evict rl1 now else rl1)"

lemma swept_props:
  assumes "rl_inv rl now" "refills_in_time rl"
  shows "rl_inv (swept rl now) now" "credit (swept rl now) k now = credit rl k now"
    "rl_rate (swept rl now) = rl_rate rl" "rl_burst (swept rl now) = rl_burst rl"
proof -
  let ?r = "rl\<lparr>rl_calls := rl_calls rl + 1\<rparr>"
  have r: "rl_inv ?r now" "refills_in_time ?r" "credit ?r k now = credit rl k now"
    using assms by (auto simp: rl_inv_def refills_in_time_def credit_def split: option.split)
  show "rl_inv (swept rl now) now" "credit (swept rl now) k now = credit rl k now"
    "rl_rate (swept rl now) = rl_rate rl" "rl_burst (swept rl now) = rl_burst rl"
    using r rl_evict_inv [OF r(1)] rl_evict_credit [OF r(1,2)]
    by (auto simp: swept_def Let_def rl_evict_buckets)
qed

lemma rl_allow_swept:
  "0 < rl_rate rl \<Longrightarrow> rl_allow rl key now =
     (let s = swept rl now;
          b = (case map_of (buckets s) key of
                 None \<Rightarrow> \<lparr>tokens = rl_burst s, b_last = now\<rparr> | Some b \<Rightarrow> refill s b now)
      in if tokens b \<ge> 1
         then (True, s\<lparr>buckets := AList.update key (b\<lparr>tokens := tokens b - 1\<rparr>) (buckets s)\<rparr>)
         else (False, s\<lparr>buckets := AList.update key b (buckets s)\<rparr>))"
  by (simp only: rl_allow_def swept_def Let_def not_le [symmetric] if_False)

lemma set_update_subset: "set (AList.update k v m) \<subseteq> insert (k, v) (set m)"
  by (induction m) auto

lemma rl_allow_step:
  assumes "rl_inv rl now" "refills_in_time rl" "rl_allow rl key now = (ok, rl')"
  shows "rl_inv rl' now" "refills_in_time rl'" "rl_rate rl' = rl_rate rl" "rl_burst rl' = rl_burst rl"
    "credit rl' k now + (if ok \<and> k = key then 1 else 0) = credit rl k now"
    "k = key \<Longrightarrow> ok \<longleftrightarrow> 1 \<le> credit rl k now"
proof -
  let ?s = "swept rl now"
  note s = swept_props [OF assms(1,2)]
  define b where "b = (case map_of (buckets ?s) key of
      None \<Rightarrow> \<lparr>tokens = rl_burst ?s, b_last = now\<rparr> | Some b \<Rightarrow> refill ?s b now)"
  have pos: "0 < rl_rate rl" using assms(1) by (simp add: rl_inv_def)
  have b: "tokens b = credit ?s key now" "b_last b = now" "0 \<le> tokens b" "tokens b \<le> rl_burst ?s"
  proof -
    have "tokens b = credit ?s key now \<and> b_last b = now \<and> 0 \<le> tokens b \<and> tokens b \<le> rl_burst ?s"
    proof (cases "map_of (buckets ?s) key")
      case None
      then show ?thesis using s(1) by (auto simp: b_def credit_def rl_inv_def)
    next
      case (Some b')
      then show ?thesis
        using refill_props [of b' ?s now] rl_invD [OF s(1) Some] s(1)
        by (simp add: b_def credit_def rl_inv_def)
    qed
    then show "tokens b = credit ?s key now" "b_last b = now" "0 \<le> tokens b" "tokens b \<le> rl_burst ?s"
      by auto
  qed
  define b' where "b' = (if tokens b \<ge> 1 then b\<lparr>tokens := tokens b - 1\<rparr> else b)"
  have r: "ok = (tokens b \<ge> 1)" "rl' = ?s\<lparr>buckets := AList.update key b' (buckets ?s)\<rparr>"
    using assms(3) unfolding rl_allow_swept [OF pos] Let_def b_def [symmetric] b'_def
    by (auto split: if_splits)
  have b': "0 \<le> tokens b'" "tokens b' \<le> rl_burst ?s" "b_last b' = now"
    "tokens b' + (if ok then 1 else 0) = tokens b"
    using b r(1) by (auto simp: b'_def)
  have "\<forall>p\<in>set (AList.update key b' (buckets ?s)). p = (key, b') \<or> p \<in> set (buckets ?s)"
    using set_update_subset [of key b' "buckets ?s"] by blast
  then show "rl_inv rl' now"
    using s(1) b' unfolding rl_inv_def r(2) by (auto simp: distinct_update)
  show "refills_in_time rl'" using assms(2) s(3,4) by (simp add: refills_in_time_def r(2))
  show "rl_rate rl' = rl_rate rl" "rl_burst rl' = rl_burst rl" using s by (simp_all add: r(2))
  show "credit rl' k now + (if ok \<and> k = key then 1 else 0) = credit rl k now"
  proof (cases "k = key")
    case True
    have "credit rl' key now = tokens b'"
      using b' by (simp add: credit_def r(2) seconds_def)
    then show ?thesis using True b' b(1) s(2) by simp
  next
    case False
    then show ?thesis using s(2) [of k] by (simp add: credit_def r(2) cong: option.case_cong)
  qed
  show "k = key \<Longrightarrow> ok \<longleftrightarrow> 1 \<le> credit rl k now" using r(1) b(1) s(2) by simp
qed

lemma rl_inv_later: "rl_inv rl t \<Longrightarrow> t \<le> t' \<Longrightarrow> rl_inv rl t'"
  unfolding rl_inv_def by (meson order_trans)

lemma min_shift_le: "(0::rat) \<le> w \<Longrightarrow> min b (c + (w + d)) \<le> min b (c + d) + w"
  by (simp add: min_def)

lemma credit_later:
  assumes "rl_inv rl t" "t \<le> t'"
  shows "credit rl k t' \<le> credit rl k t + seconds (t' - t) * rl_rate rl" "credit rl k t \<le> credit rl k t'"
proof -
  have r: "0 < rl_rate rl" using assms(1) by (simp add: rl_inv_def)
  have w: "0 \<le> seconds (t' - t) * rl_rate rl" using assms(2) r by (simp add: seconds_def)
  have e: "seconds (t' - l) * rl_rate rl = seconds (t' - t) * rl_rate rl + seconds (t - l) * rl_rate rl" for l
    by (simp add: seconds_def field_simps)
  show "credit rl k t' \<le> credit rl k t + seconds (t' - t) * rl_rate rl"
  proof (cases "map_of (buckets rl) k")
    case (Some b)
    show ?thesis unfolding credit_def Some option.case e [of "b_last b"]
      by (rule min_shift_le) (rule w)
  qed (use w in \<open>simp add: credit_def\<close>)
  show "credit rl k t \<le> credit rl k t'"
  proof (cases "map_of (buckets rl) k")
    case (Some b)
    show ?thesis unfolding credit_def Some option.case e [of "b_last b"]
      by (rule min.mono) (use w in simp_all)
  qed (simp add: credit_def)
qed

lemma admitted_Nil [simp]: "admitted k [] oks = 0"
  by (simp add: admitted_def)

lemma admitted_Cons [simp]:
  "admitted k ((k', t) # cs) (ok # oks) = (if k' = k \<and> ok then 1 else 0) + admitted k cs oks"
  by (simp add: admitted_def)

lemma rl_run_credit:
  assumes "rl_inv rl t" "refills_in_time rl" "sorted (t # map snd cs)" "rl_run rl cs = (oks, rl')"
    "\<forall>u\<in>set (map snd cs). u \<le> t'" "t \<le> t'"
  shows "of_nat (admitted k cs oks) \<le> credit rl k t + seconds (t' - t) * rl_rate rl"
  using assms
proof (induction cs arbitrary: rl t oks)
  case Nil
  have "0 \<le> credit rl k t"
  proof (cases "map_of (buckets rl) k")
    case None
    then show ?thesis using Nil.prems(1) by (simp add: credit_def rl_inv_def)
  next
    case (Some b)
    have "0 \<le> seconds (t - b_last b) * rl_rate rl"
      using rl_invD [OF Nil.prems(1) Some] Nil.prems(1) by (simp add: rl_inv_def seconds_def)
    then show ?thesis using rl_invD [OF Nil.prems(1) Some] Nil.prems(1)
      by (simp add: credit_def Some rl_inv_def)
  qed
  moreover have "0 \<le> seconds (t' - t) * rl_rate rl"
    using Nil.prems(1,6) by (simp add: rl_inv_def seconds_def)
  ultimately show ?case by simp
next
  case (Cons c cs)
  obtain k1 t1 where c: "c = (k1, t1)" by fastforce
  obtain ok rl1 where a: "rl_allow rl k1 t1 = (ok, rl1)" by fastforce
  obtain oks1 where r: "rl_run rl1 cs = (oks1, rl')" and oks: "oks = ok # oks1"
    using Cons.prems(4) by (auto simp: c a split: prod.splits)
  have tt: "t \<le> t1" "t1 \<le> t'" using Cons.prems(3,5) by (auto simp: c)
  note inv = rl_inv_later [OF Cons.prems(1) tt(1)]
  note step = rl_allow_step [OF inv Cons.prems(2) a]
  have IH: "of_nat (admitted k cs oks1) \<le> credit rl1 k t1 + seconds (t' - t1) * rl_rate rl1"
    by (rule Cons.IH [OF step(1,2) _ r]) (use Cons.prems(3,5) tt c in auto)
  have "credit rl k t1 \<le> credit rl k t + seconds (t1 - t) * rl_rate rl"
    by (rule credit_later(1) [OF Cons.prems(1) tt(1)])
  moreover have "seconds (t' - t) * rl_rate rl =
      seconds (t' - t1) * rl_rate rl + seconds (t1 - t) * rl_rate rl"
    by (simp add: seconds_def field_simps)
  ultimately show ?case
    using IH step(3) step(5) [of k] by (auto simp: c oks split: if_splits)
qed

section \<open>Properties\<close>

lemma new_rate_limiter_inv:
  "0 < rate \<Longrightarrow> rl_inv (new_rate_limiter rate burst) t"
  by (auto simp: rl_inv_def new_rate_limiter_def Let_def)

text \<open>Whatever other sources do and however the calls are interleaved with sweeps, a source
  gets at most \<open>burst + rate * T\<close> requests admitted over any window of \<open>T\<close> seconds, provided an
  empty bucket refills within the hour after which it is forgotten.\<close>

theorem rate_limit_bound:
  assumes "0 < rate" "refills_in_time (new_rate_limiter rate burst)"
    and "sorted (t # map snd cs)" "\<forall>u\<in>set (map snd cs). u \<le> t'" "t \<le> t'"
    and "rl_run (new_rate_limiter rate burst) cs = (oks, rl')"
  shows "of_nat (admitted k cs oks) \<le>
    (if burst \<le> 0 then 40 else of_int burst) + seconds (t' - t) * rate"
proof -
  have "credit (new_rate_limiter rate burst) k t = (if burst \<le> 0 then 40 else of_int burst)"
    using assms(1) by (simp add: credit_def new_rate_limiter_def Let_def)
  moreover have "rl_rate (new_rate_limiter rate burst) = rate"
    by (simp add: new_rate_limiter_def Let_def)
  ultimately show ?thesis
    using rl_run_credit [OF new_rate_limiter_inv [OF assms(1)] assms(2,3,6,4,5), of k] by simp
qed

lemma rate_limit_bound_witness:
  "of_nat (admitted ''a'' [(''a'', 0), (''a'', 1), (''b'', 2)] [True, False, True]) \<le>
     (if (1::int) \<le> 0 then 40 else of_int 1) + seconds (5 - 0) * (1 :: rat)"
proof -
  have r: "rl_run (new_rate_limiter 1 1) [(''a'', 0), (''a'', 1), (''b'', 2)] =
    ([True, False, True], snd (rl_run (new_rate_limiter 1 1) [(''a'', 0), (''a'', 1), (''b'', 2)]))"
    by code_simp
  show ?thesis
    by (rule rate_limit_bound [OF _ _ _ _ _ r])
       (simp_all add: refills_in_time_def new_rate_limiter_def)
qed

text \<open>A call is admitted exactly when its source has a whole token of credit, it then costs
  exactly one, and no call changes the credit of another source.\<close>

theorem rate_limit_isolation:
  assumes "rl_inv rl now" "refills_in_time rl" "rl_allow rl key now = (ok, rl')"
  shows "(ok \<longleftrightarrow> 1 \<le> credit rl key now) \<and>
    credit rl' key now = credit rl key now - (if ok then 1 else 0) \<and>
    (\<forall>k. k \<noteq> key \<longrightarrow> credit rl' k now = credit rl k now) \<and> rl_inv rl' now"
proof -
  note step = rl_allow_step [OF assms]
  have "credit rl' k now = credit rl k now" if "k \<noteq> key" for k using step(5) [of k] that by simp
  moreover have "credit rl' key now = credit rl key now - (if ok then 1 else 0)"
    using step(5) [of key] by (simp add: algebra_simps)
  ultimately show ?thesis using step(1,6) by blast
qed

lemma rate_limit_isolation_witness:
  "fst (rl_allow (new_rate_limiter 1 1) ''a'' 0) \<and>
   rl_inv (snd (rl_allow (new_rate_limiter 1 1) ''a'' 0)) 0"
proof -
  have "rl_inv (new_rate_limiter 1 1) 0" by (rule new_rate_limiter_inv) simp
  moreover have "refills_in_time (new_rate_limiter 1 1)"
    by (simp add: refills_in_time_def new_rate_limiter_def)
  ultimately show ?thesis
    using rate_limit_isolation [of "new_rate_limiter 1 1" 0 "''a''"
        "fst (rl_allow (new_rate_limiter 1 1) ''a'' 0)" "snd (rl_allow (new_rate_limiter 1 1) ''a'' 0)"]
    by (simp add: credit_def) (simp add: new_rate_limiter_def)
qed

text \<open>With a slow rate the hour cap forgets a bucket long before it is full: a source that
  used up its burst of 40 at 0.001 tokens per second has regained fewer than 4 tokens after an
  hour, yet one nanosecond later its next call finds a full bucket.\<close>

theorem evicted_bucket_resets_credit:
  "\<exists>rl. rl_rate rl = 1 / 1000 \<and> rl_burst rl = 40 \<and> buckets rl = [(''a'', \<lparr>tokens = 0, b_last = 0\<rparr>)] \<and>
     credit rl ''a'' (hour + 1) < 4 \<and> credit (rl_evict rl (hour + 1)) ''a'' (hour + 1) = 40"
  by (rule exI [of _ "\<lparr>buckets = [(''a'', \<lparr>tokens = 0, b_last = 0\<rparr>)], rl_rate = 1 / 1000,
        rl_burst = 40, rl_calls = 0, last_sweep = None\<rparr>"])
     (simp add: credit_def rl_evict_def stale_after_def stale_idle_factor_def seconds_def)

end
