(* ===== verification/Dns_Msg.thy ===== *)
theory Dns_Msg
  imports Go_Net
begin

text \<open>
  DNS messages as the sources use them. The records follow the fields of \<open>dns.Msg\<close>,
  \<open>dns.RR_Header\<close> and the record types the code inspects; header flags that no source file
  reads are left out. A message is a value, so \<open>Copy\<close> is the identity.

  The operations of the message library itself (it is not part of the repository) are the
  fields of \<open>dns_lib\<close>, passed to the definitions that call them; what the code relies on is
  stated as \<open>dns_lib_ok\<close> and its parts, from the library's documentation. \<open>IsEdns0\<close> returns a
  pointer into the additional section, here the index of the record.
\<close>

section \<open>Records\<close>

record rr_header =
  h_name :: string
  h_rrtype :: u16
  h_class :: u16
  h_ttl :: u32
  h_rdlength :: u16

record edns_subnet =
  s_family :: u16
  s_source_netmask :: u8
  s_source_scope :: u8
  s_address :: ip

datatype edns_option = Subnet edns_subnet | OtherOption u16 "u8 list"

datatype dnssec_type = RRSIG | NSEC | NSEC3 | NSEC3PARAM | DNSKEY | DS | CDS | CDNSKEY | DLV

record soa_data =
  soa_ns :: string
  soa_mbox :: string
  soa_serial :: u32
  soa_refresh :: u32
  soa_retry :: u32
  soa_expire :: u32
  soa_minttl :: u32

datatype rdata =
    A ip
  | AAAA ip
  | OPT "edns_option list"
  | Dnssec dnssec_type "u8 list"
  | SOA soa_data
  | OtherData "u8 list"

record rr =
  rr_hdr :: rr_header
  rr_data :: rdata

record question =
  qs_name :: string
  qs_type :: u16
  qs_class :: u16

record msg =
  msg_id :: u16
  response :: bool
  truncated :: bool
  recursion_available :: bool
  checking_disabled :: bool
  rcode :: nat
  questions :: "question list"
  answer :: "rr list"
  ns :: "rr list"
  extra :: "rr list"

text \<open>\<open>new(dns.Msg)\<close>\<close>

definition new_msg :: msg where
  "new_msg = \<lparr>msg_id = 0, response = False, truncated = False, recursion_available = False,
     checking_disabled = False, rcode = 0, questions = [], answer = [], ns = [], extra = []\<rparr>"

text \<open>Protocol constants.\<close>

abbreviation type_A :: u16 where "type_A \<equiv> 1"
abbreviation type_SOA :: u16 where "type_SOA \<equiv> 6"
abbreviation type_AAAA :: u16 where "type_AAAA \<equiv> 28"
abbreviation type_SVCB :: u16 where "type_SVCB \<equiv> 64"
abbreviation type_HTTPS :: u16 where "type_HTTPS \<equiv> 65"
abbreviation class_INET :: u16 where "class_INET \<equiv> 1"

definition rcode_success :: nat where "rcode_success = 0"
definition rcode_format_error :: nat where "rcode_format_error = 1"
definition rcode_server_failure :: nat where "rcode_server_failure = 2"
definition rcode_name_error :: nat where "rcode_name_error = 3"
definition rcode_not_implemented :: nat where "rcode_not_implemented = 4"
definition rcode_refused :: nat where "rcode_refused = 5"

lemmas rcode_defs = rcode_success_def rcode_format_error_def rcode_server_failure_def
  rcode_name_error_def rcode_not_implemented_def rcode_refused_def

text \<open>Type assertions such as \<open>rr.(*dns.A)\<close>.\<close>

definition rr_is_A :: "rr \<Rightarrow> bool" where
  "rr_is_A r = (case rr_data r of A a \<Rightarrow> True | _ \<Rightarrow> False)"

definition rr_ip :: "rr \<Rightarrow> ip option" where
  "rr_ip r = (case rr_data r of A a \<Rightarrow> Some a | _ \<Rightarrow> None)"

definition rr_is_AAAA :: "rr \<Rightarrow> bool" where
  "rr_is_AAAA r = (case rr_data r of AAAA a \<Rightarrow> True | _ \<Rightarrow> False)"

definition rr_is_OPT :: "rr \<Rightarrow> bool" where
  "rr_is_OPT r = (case rr_data r of OPT os \<Rightarrow> True | _ \<Rightarrow> False)"

definition rr_is_dnssec :: "rr \<Rightarrow> bool" where
  "rr_is_dnssec r = (case rr_data r of Dnssec t d \<Rightarrow> True | _ \<Rightarrow> False)"

definition rr_options :: "rr \<Rightarrow> edns_option list" where
  "rr_options r = (case rr_data r of OPT os \<Rightarrow> os | _ \<Rightarrow> [])"

definition set_rr_ttl :: "u32 \<Rightarrow> rr \<Rightarrow> rr" where
  "set_rr_ttl t r = r\<lparr>rr_hdr := (rr_hdr r)\<lparr>h_ttl := t\<rparr>\<rparr>"

abbreviation rr_ttl :: "rr \<Rightarrow> u32" where
  "rr_ttl r \<equiv> h_ttl (rr_hdr r)"

lemma set_rr_ttl_simps [simp]:
  "rr_data (set_rr_ttl t r) = rr_data r" "rr_ttl (set_rr_ttl t r) = t"
  by (simp_all add: set_rr_ttl_def)

section \<open>The message library\<close>

record dns_lib =
  lib_fqdn :: "string \<Rightarrow> string"
  lib_is_domain_name :: "string \<Rightarrow> nat \<times> bool"
  lib_is_edns0 :: "msg \<Rightarrow> nat option"
  lib_set_edns0 :: "msg \<Rightarrow> u16 \<Rightarrow> bool \<Rightarrow> msg"
  lib_do :: "rr \<Rightarrow> bool"
  lib_udp_size :: "rr \<Rightarrow> u16"
  lib_set_reply :: "msg \<Rightarrow> msg \<Rightarrow> msg"
  lib_set_rcode :: "msg \<Rightarrow> msg \<Rightarrow> nat \<Rightarrow> msg"
  lib_truncate :: "msg \<Rightarrow> int \<Rightarrow> msg"
  lib_type_to_string :: "u16 \<Rightarrow> string"
  lib_rcode_to_string :: "nat \<Rightarrow> string"

text \<open>\<open>Fqdn\<close> completes a name; it does not look at letters' case.\<close>

definition fqdn_ok :: "dns_lib \<Rightarrow> bool" where
  "fqdn_ok L \<longleftrightarrow> (\<forall>s. to_lower (lib_fqdn L s) = lib_fqdn L (to_lower s))"

text \<open>
  \<open>SetReply\<close> makes a reply to the request; \<open>SetRcode\<close> makes one with the given code. Neither
  adds records.
\<close>

definition reply_ok :: "dns_lib \<Rightarrow> bool" where
  "reply_ok L \<longleftrightarrow>
     (\<forall>m r. msg_id (lib_set_reply L m r) = msg_id r \<and> response (lib_set_reply L m r) \<and>
        rcode (lib_set_reply L m r) = rcode_success \<and>
        answer (lib_set_reply L m r) = answer m \<and> ns (lib_set_reply L m r) = ns m \<and>
        extra (lib_set_reply L m r) = extra m \<and> truncated (lib_set_reply L m r) = truncated m) \<and>
     (\<forall>m r c. msg_id (lib_set_rcode L m r c) = msg_id r \<and> response (lib_set_rcode L m r c) \<and>
        rcode (lib_set_rcode L m r c) = c \<and>
        answer (lib_set_rcode L m r c) = answer m \<and> ns (lib_set_rcode L m r c) = ns m \<and>
        extra (lib_set_rcode L m r c) = extra m \<and> truncated (lib_set_rcode L m r c) = truncated m)"

text \<open>
  \<open>IsEdns0\<close> finds the OPT record of the additional section, if there is one; \<open>SetEdns0\<close> adds an
  OPT record without options and touches nothing else.
\<close>

definition edns_ok :: "dns_lib \<Rightarrow> bool" where
  "edns_ok L \<longleftrightarrow>
     (\<forall>m i. lib_is_edns0 L m = Some i \<longrightarrow> i < length (extra m) \<and> rr_is_OPT (extra m ! i)) \<and>
     (\<forall>m. lib_is_edns0 L m = None \<longrightarrow> (\<forall>r\<in>set (extra m). \<not> rr_is_OPT r)) \<and>
     (\<forall>m u d. \<exists>o'. rr_data o' = OPT [] \<and> lib_set_edns0 L m u d = m\<lparr>extra := extra m @ [o']\<rparr>) \<and>
     (\<forall>m f. lib_is_edns0 L (m\<lparr>questions := f\<rparr>) = lib_is_edns0 L m)"

text \<open>\<open>Truncate\<close> drops records to fit a size; it keeps the header and the question.\<close>

definition truncate_ok :: "dns_lib \<Rightarrow> bool" where
  "truncate_ok L \<longleftrightarrow>
     (\<forall>m n. msg_id (lib_truncate L m n) = msg_id m \<and> rcode (lib_truncate L m n) = rcode m \<and>
        questions (lib_truncate L m n) = questions m \<and>
        set (answer (lib_truncate L m n)) \<subseteq> set (answer m) \<and>
        set (ns (lib_truncate L m n)) \<subseteq> set (ns m))"

definition dns_lib_ok :: "dns_lib \<Rightarrow> bool" where
  "dns_lib_ok L \<longleftrightarrow> fqdn_ok L \<and> reply_ok L \<and> edns_ok L \<and> truncate_ok L"

subsection \<open>A concrete library for the witnesses\<close>

definition ref_is_edns0 :: "msg \<Rightarrow> nat option" where
  "ref_is_edns0 m = index_where rr_is_OPT (extra m)"

definition ref_opt :: "u16 \<Rightarrow> bool \<Rightarrow> rr" where
  "ref_opt u d = \<lparr>rr_hdr = \<lparr>h_name = ''.'', h_rrtype = 41, h_class = u,
     h_ttl = (if d then 32768 else 0), h_rdlength = 0\<rparr>, rr_data = OPT []\<rparr>"

definition ref_lib :: dns_lib where
  "ref_lib = \<lparr>
     lib_fqdn = (\<lambda>s. if s \<noteq> [] \<and> last s = dot then s else s @ [dot]),
     lib_is_domain_name = (\<lambda>s. (length (filter (\<lambda>c. c = dot) s), s \<noteq> [])),
     lib_is_edns0 = ref_is_edns0,
     lib_set_edns0 = (\<lambda>m u d. m\<lparr>extra := extra m @ [ref_opt u d]\<rparr>),
     lib_do = (\<lambda>r. h_ttl (rr_hdr r) = 32768),
     lib_udp_size = (\<lambda>r. h_class (rr_hdr r)),
     lib_set_reply = (\<lambda>m r. m\<lparr>msg_id := msg_id r, response := True, rcode := 0,
       questions := take 1 (questions r)\<rparr>),
     lib_set_rcode = (\<lambda>m r c. m\<lparr>msg_id := msg_id r, response := True, rcode := c,
       questions := take 1 (questions r)\<rparr>),
     lib_truncate = (\<lambda>m n. m),
     lib_type_to_string = (\<lambda>t. ''TYPE'' @ show_nat (unat t)),
     lib_rcode_to_string = show_nat\<rparr>"

lemma last_to_lower: "s \<noteq> [] \<Longrightarrow> last (to_lower s) = to_lower_char (last s)"
  by (simp add: to_lower_def last_map)

lemma to_lower_dot: "to_lower [dot] = [dot]"
  using to_lower_char_dot [of dot] by (simp add: to_lower_def)

lemma ref_lib_ok: "dns_lib_ok ref_lib"
proof -
  have "fqdn_ok ref_lib"
    by (auto simp: fqdn_ok_def ref_lib_def last_to_lower to_lower_append to_lower_dot)
  moreover have "reply_ok ref_lib" by (simp add: reply_ok_def ref_lib_def rcode_success_def)
  moreover have "truncate_ok ref_lib" by (simp add: truncate_ok_def ref_lib_def)
  moreover have "rr_data (ref_opt u d) = OPT []" for u d by (simp add: ref_opt_def)
  then have "\<exists>o'. rr_data o' = OPT [] \<and> m\<lparr>extra := extra m @ [ref_opt u d]\<rparr> = m\<lparr>extra := extra m @ [o']\<rparr>"
    for u d and m :: msg by blast
  then have "edns_ok ref_lib"
    by (auto simp: edns_ok_def ref_lib_def ref_is_edns0_def index_where_Some index_where_None)
  ultimately show ?thesis by (simp add: dns_lib_ok_def)
qed

lemma edns_ok_Some: "edns_ok L \<Longrightarrow> lib_is_edns0 L m = Some i \<Longrightarrow> i < length (extra m) \<and> rr_is_OPT (extra m ! i)"
  by (simp add: edns_ok_def)

lemma edns_ok_None: "edns_ok L \<Longrightarrow> lib_is_edns0 L m = None \<Longrightarrow> r \<in> set (extra m) \<Longrightarrow> \<not> rr_is_OPT r"
  by (simp add: edns_ok_def)

text \<open>An example answer for the witnesses.\<close>

definition ex_rr :: "u32 \<Rightarrow> rr" where
  "ex_rr ttl = \<lparr>rr_hdr = \<lparr>h_name = ''a.example.'', h_rrtype = type_A, h_class = class_INET,
     h_ttl = ttl, h_rdlength = 4\<rparr>, rr_data = A [203, 0, 113, 7]\<rparr>"

definition ex_answer :: msg where
  "ex_answer = new_msg\<lparr>response := True, questions := [\<lparr>qs_name = ''a.example.'', qs_type = type_A,
     qs_class = class_INET\<rparr>], answer := [ex_rr 300]\<rparr>"

end
