(* ===== verification/Parsers.thy ===== *)
theory Parsers
  imports Dns_Msg
begin

text \<open>
  \<open>parsers.go\<close>: the subscription list formats (plain, gfwlist, dnsmasq, hosts and CIDR lists) and
  the normal form they are brought into. The scanner's token limit and Go's base64 decoder are
  part of the model; the domain-name check of the message library is the argument \<open>L\<close>.
\<close>

section \<open>Scanning\<close>

definition max_subscription_entries :: nat where "max_subscription_entries = 500000"
definition max_invalid_entry_percent :: nat where "max_invalid_entry_percent = 40"
definition min_domain_labels_for_policy :: nat where "min_domain_labels_for_policy = 2"
definition parser_max_token_size :: nat where "parser_max_token_size = 33554432"

text \<open>
  A \<open>bufio.Scanner\<close> with a bounded buffer: it stops with an error at the first line that does not
  fit. The result is the lines it returned and whether \<open>Err()\<close> is nil.
\<close>

fun raw_lines_acc :: "string \<Rightarrow> string \<Rightarrow> string list" where
  "raw_lines_acc cur [] = (if cur = [] then [] else [rev cur])"
| "raw_lines_acc cur (c # s) =
     (if char_code c = 10 then rev cur # raw_lines_acc [] s else raw_lines_acc (c # cur) s)"

definition rule_scan :: "nat \<Rightarrow> string \<Rightarrow> string list \<times> bool" where
  "rule_scan lim raw =
     (let ls = raw_lines_acc [] raw; ok = takeWhile (\<lambda>l. length l < lim) ls
      in (map drop_cr ok, length ok = length ls))"

lemma raw_lines_scan: "map drop_cr (raw_lines_acc cur s) = scan_lines_acc cur s"
  by (induction cur s rule: raw_lines_acc.induct) auto

lemma raw_lines_le: "l \<in> set (raw_lines_acc cur s) \<Longrightarrow> length l \<le> length cur + length s"
proof (induction cur s rule: raw_lines_acc.induct)
  case (1 cur)
  then show ?case by (simp split: if_splits)
next
  case (2 cur c s)
  then show ?case by (cases "char_code c = 10") fastforce+
qed

lemma rule_scan_short:
  "length raw < lim \<Longrightarrow> rule_scan lim raw = (scan_lines raw, True)"
proof -
  assume "length raw < lim"
  then have "takeWhile (\<lambda>l. length l < lim) (raw_lines_acc [] raw) = raw_lines_acc [] raw"
    using raw_lines_le [of _ "[]" raw] by (fastforce simp: takeWhile_eq_all_conv)
  then show ?thesis by (simp only: rule_scan_def scan_lines_def raw_lines_scan Let_def simp_thms)
qed

text \<open>The lines of a body, or a scanner error.\<close>

datatype parse_error = ErrUnknownFormat | ErrScan | ErrBase64 | ErrTooManyEntries | ErrTooManyInvalid

definition new_rule_scanner :: "string \<Rightarrow> string list \<times> bool" where
  "new_rule_scanner raw = rule_scan parser_max_token_size raw"

definition scan_result :: "(string list \<Rightarrow> string list) \<Rightarrow> string list \<times> bool \<Rightarrow> parse_error + string list" where
  "scan_result f sc = (if snd sc then Inr (f (fst sc)) else Inl ErrScan)"

section \<open>base64.StdEncoding.DecodeString\<close>

definition b64_val :: "char \<Rightarrow> nat option" where
  "b64_val c = (let n = char_code c in
     if 65 \<le> n \<and> n \<le> 90 then Some (n - 65)
     else if 97 \<le> n \<and> n \<le> 122 then Some (n - 71)
     else if 48 \<le> n \<and> n \<le> 57 then Some (n + 4)
     else if n = 43 then Some 62
     else if n = 47 then Some 63
     else None)"

definition b64_pad :: char where "b64_pad = CHR ''=''"

fun b64_quanta :: "string \<Rightarrow> string option" where
  "b64_quanta [] = Some []"
| "b64_quanta (a # b # c # d # rest) =
     (case (b64_val a, b64_val b) of
        (Some x, Some y) \<Rightarrow>
          if c = b64_pad then
            (if d = b64_pad \<and> rest = [] then Some [char_of (x * 4 + y div 16)] else None)
          else (case b64_val c of
             None \<Rightarrow> None
           | Some z \<Rightarrow>
               if d = b64_pad then
                 (if rest = [] then Some [char_of (x * 4 + y div 16), char_of (y mod 16 * 16 + z div 4)] else None)
               else (case b64_val d of
                  None \<Rightarrow> None
                | Some w \<Rightarrow> map_option (\<lambda>r. char_of (x * 4 + y div 16) # char_of (y mod 16 * 16 + z div 4) #
                              char_of (z mod 4 * 64 + w) # r) (b64_quanta rest)))
      | _ \<Rightarrow> None)"
| "b64_quanta _ = None"

text \<open>Newlines and carriage returns are skipped wherever they stand.\<close>

definition b64_decode :: "string \<Rightarrow> string option" where
  "b64_decode s = b64_quanta (filter (\<lambda>c. char_code c \<noteq> 10 \<and> char_code c \<noteq> 13) s)"

section \<open>The formats\<close>

definition plain_line :: "string \<Rightarrow> string option" where
  "plain_line text = (let line = trim_space text in
     if line = [] \<or> has_prefix line ''#'' then None else Some line)"

definition parse_plain_domains :: "string \<Rightarrow> parse_error + string list" where
  "parse_plain_domains raw = scan_result (List.map_filter plain_line) (new_rule_scanner raw)"

definition gfw_strip :: "string \<Rightarrow> string" where
  "gfw_strip line =
     (if has_prefix line ''||'' then drop 2 line
      else if has_prefix line ''|https://'' then drop 9 line
      else if has_prefix line ''|http://'' then drop 8 line
      else if has_prefix line ''|'' then drop 1 line
      else line)"

definition gfw_line :: "string \<Rightarrow> string option" where
  "gfw_line text =
     (let line = trim_space text in
      if line = [] then None
      else if has_prefix line ''@@'' then None
      else if has_prefix line ''!'' then None
      else
        let l1 = trim_suffix (gfw_strip line) ''^'';
            l2 = (case index_where (\<lambda>c. c \<in> {CHR ''/'', CHR ''^'', CHR ''*''}) l1 of
                    None \<Rightarrow> l1 | Some i \<Rightarrow> take i l1);
            l3 = trim_space l2
        in if l3 = [] then None else Some l3)"

definition parse_gfwlist :: "string \<Rightarrow> parse_error + string list" where
  "parse_gfwlist raw = (case b64_decode (trim_space raw) of
     None \<Rightarrow> Inl ErrBase64
   | Some decoded \<Rightarrow> scan_result (List.map_filter gfw_line) (new_rule_scanner decoded))"

definition dnsmasq_line :: "string \<Rightarrow> string option" where
  "dnsmasq_line text =
     (let line = trim_space text in
      if line = [] \<or> has_prefix line ''#'' then None
      else
        let rest = (if has_prefix line ''server=/'' then Some (drop 8 line)
                    else if has_prefix line ''address=/'' then Some (drop 9 line)
                    else None)
        in case rest of
             None \<Rightarrow> None
           | Some r \<Rightarrow> (case index_byte r slash of
               None \<Rightarrow> None
             | Some i \<Rightarrow> if take i r = [] then None else Some (take i r)))"

definition parse_dnsmasq :: "string \<Rightarrow> parse_error + string list" where
  "parse_dnsmasq raw = scan_result (List.map_filter dnsmasq_line) (new_rule_scanner raw)"

definition hosts_line :: "string \<Rightarrow> string option" where
  "hosts_line text =
     (let l1 = (case index_byte text (CHR ''#'') of None \<Rightarrow> text | Some i \<Rightarrow> take i text);
          line = trim_space l1
      in if line = [] then None
         else let fs = go_fields line in
           if length fs < 2 then None
           else if fs ! 1 = ''localhost'' then None
           else Some (fs ! 1))"

definition parse_hosts :: "string \<Rightarrow> parse_error + string list" where
  "parse_hosts raw = scan_result (List.map_filter hosts_line) (new_rule_scanner raw)"

section \<open>The normal form\<close>

definition normalize_domain :: "string \<Rightarrow> string" where
  "normalize_domain d = trim_right_dots (to_lower (trim_space d))"

definition valid_policy_domain :: "dns_lib \<Rightarrow> string \<Rightarrow> bool" where
  "valid_policy_domain L domain =
     (if length domain > 253 \<or> parse_ip domain \<noteq> None then False
      else let (labels, ok) = lib_is_domain_name L (lib_fqdn L domain)
           in ok \<and> labels \<ge> min_domain_labels_for_policy)"

fun norm_loop :: "dns_lib \<Rightarrow> string list \<Rightarrow> string list \<Rightarrow> nat \<Rightarrow> nat \<Rightarrow> string list \<times> nat \<times> nat" where
  "norm_loop L [] S invalid valid = (S, invalid, valid)"
| "norm_loop L (l # ls) S invalid valid =
     (let d = normalize_domain l in
      if d = [] then norm_loop L ls S invalid valid
      else if \<not> valid_policy_domain L d then norm_loop L ls S (Suc invalid) valid
      else norm_loop L ls (List.insert d S) invalid (Suc valid))"

definition normalize_domain_list :: "dns_lib \<Rightarrow> string list \<Rightarrow> parse_error + string list" where
  "normalize_domain_list L lines =
     (if length lines > max_subscription_entries then Inl ErrTooManyEntries
      else let (S, invalid, valid) = norm_loop L lines [] 0 0;
               considered = invalid + valid
           in if considered > 0 \<and> invalid * 100 > considered * max_invalid_entry_percent
              then Inl ErrTooManyInvalid
              else Inr (sort S))"

definition parse_domains :: "dns_lib \<Rightarrow> string \<Rightarrow> string \<Rightarrow> parse_error + string list" where
  "parse_domains L format raw =
     (let lines = (if format = ''plain'' then parse_plain_domains raw
                   else if format = ''gfwlist'' then parse_gfwlist raw
                   else if format = ''dnsmasq'' then parse_dnsmasq raw
                   else if format = ''hosts'' then parse_hosts raw
                   else Inl ErrUnknownFormat)
      in case lines of Inl e \<Rightarrow> Inl e | Inr ls \<Rightarrow> normalize_domain_list L ls)"

fun cidrs_loop :: "string list \<Rightarrow> string list \<Rightarrow> nat \<Rightarrow> nat \<Rightarrow> parse_error + string list \<times> nat \<times> nat" where
  "cidrs_loop [] S tot invalid = Inr (S, tot, invalid)"
| "cidrs_loop (t # ts) S tot invalid =
     (let line = trim_space t in
      if line = [] \<or> has_prefix line ''#'' then cidrs_loop ts S tot invalid
      else if Suc tot > max_subscription_entries then Inl ErrTooManyEntries
      else if parse_cidr line = None then cidrs_loop ts S (Suc tot) (Suc invalid)
      else cidrs_loop ts (List.insert (to_lower line) S) (Suc tot) invalid)"

definition parse_cidrs :: "string \<Rightarrow> parse_error + string list" where
  "parse_cidrs raw =
     (let (ls, ok) = new_rule_scanner raw in
      case cidrs_loop ls [] 0 0 of
        Inl e \<Rightarrow> Inl e
      | Inr (S, tot, invalid) \<Rightarrow>
          if \<not> ok then Inl ErrScan
          else if tot > 0 \<and> invalid * 100 > tot * max_invalid_entry_percent
          then Inl ErrTooManyInvalid
          else Inr (sort S))"

section \<open>What the loops compute\<close>

abbreviation candidates :: "string list \<Rightarrow> string list" where
  "candidates lines \<equiv> filter (\<lambda>d. d \<noteq> []) (map normalize_domain lines)"

lemma norm_loop_spec:
  "norm_loop L ls S i v =
     (fold List.insert (filter (valid_policy_domain L) (candidates ls)) S,
      i + length (filter (\<lambda>d. \<not> valid_policy_domain L d) (candidates ls)),
      v + length (filter (valid_policy_domain L) (candidates ls)))"
  by (induction L ls S i v rule: norm_loop.induct) (simp_all add: Let_def)

definition cidr_entries :: "string list \<Rightarrow> string list" where
  "cidr_entries ls = filter (\<lambda>l. \<not> (l = [] \<or> has_prefix l ''#'')) (map trim_space ls)"

lemma cidrs_loop_spec:
  "n \<le> max_subscription_entries \<Longrightarrow> cidrs_loop ls S n i =
     (if n + length (cidr_entries ls) > max_subscription_entries then Inl ErrTooManyEntries
      else Inr (fold List.insert (map to_lower (filter (\<lambda>l. parse_cidr l \<noteq> None) (cidr_entries ls))) S,
                n + length (cidr_entries ls),
                i + length (filter (\<lambda>l. parse_cidr l = None) (cidr_entries ls))))"
  by (induction ls S n i rule: cidrs_loop.induct) (simp_all add: Let_def cidr_entries_def)

lemma fold_insert_set: "set (fold List.insert xs S) = set xs \<union> set S"
  by (induction xs arbitrary: S) auto

lemma fold_insert_distinct: "distinct S \<Longrightarrow> distinct (fold List.insert xs S)"
  by (induction xs arbitrary: S) (auto simp: distinct_insert)

lemma sorted_fold_insert:
  "sorted (sort (fold List.insert xs []))" "distinct (sort (fold List.insert xs []))"
  "set (sort (fold List.insert xs [])) = set xs"
  by (simp_all add: fold_insert_set fold_insert_distinct)

lemma normalize_domain_normal:
  "to_lower (normalize_domain d) = normalize_domain d"
  "normalize_domain d \<noteq> [] \<Longrightarrow> last (normalize_domain d) \<noteq> dot"
  unfolding normalize_domain_def
  by (simp add: to_lower_trim_right_dots,
      use last_drop_while_end [of "\<lambda>c. c = dot"] in \<open>auto simp: trim_right_dots_def\<close>)

section \<open>Properties\<close>

text \<open>A parsed domain list is exactly the set of valid normalised candidates, in sorted order
  without duplicates, every one in lower case without a trailing dot; it is refused exactly when
  there are more than 500000 candidates or more than 40 per cent of the non-empty ones are not
  valid policy domains.\<close>

theorem normalize_domain_list_spec:
  defines "cands \<equiv> \<lambda>ls. filter (\<lambda>d. d \<noteq> []) (map normalize_domain ls)"
  shows "case normalize_domain_list L ls of
      Inl e \<Rightarrow> (e = ErrTooManyEntries \<and> 500000 < length ls) \<or>
        (e = ErrTooManyInvalid \<and> length ls \<le> 500000 \<and>
         40 * length (cands ls) < 100 * length (filter (\<lambda>d. \<not> valid_policy_domain L d) (cands ls)))
    | Inr ds \<Rightarrow> length ls \<le> 500000 \<and> sorted ds \<and> distinct ds \<and>
        100 * length (filter (\<lambda>d. \<not> valid_policy_domain L d) (cands ls)) \<le> 40 * length (cands ls) \<and>
        set ds = {d \<in> set (cands ls). valid_policy_domain L d} \<and>
        list_all (\<lambda>d. d \<noteq> [] \<and> to_lower d = d \<and> last d \<noteq> dot) ds"
proof -
  let ?bad = "filter (\<lambda>d. \<not> valid_policy_domain L d) (cands ls)"
  let ?good = "filter (valid_policy_domain L) (cands ls)"
  have tot: "length ?bad + length ?good = length (cands ls)"
    using sum_length_filter_compl [of "valid_policy_domain L" "cands ls"] by simp
  have loop: "norm_loop L ls [] 0 0 = (fold List.insert ?good [], length ?bad, length ?good)"
    by (simp add: norm_loop_spec cands_def)
  have norm: "list_all (\<lambda>d. d \<noteq> [] \<and> to_lower d = d \<and> last d \<noteq> dot) (sort (fold List.insert ?good []))"
    using normalize_domain_normal
    by (auto simp: list_all_iff sorted_fold_insert(3) cands_def simp del: set_sort)
  show ?thesis
  proof (cases "length ls > max_subscription_entries")
    case True
    then show ?thesis by (simp add: normalize_domain_list_def max_subscription_entries_def)
  next
    case small: False
    show ?thesis
    proof (cases "40 * length (cands ls) < 100 * length ?bad")
      case True
      then have "\<not> (?bad = [] \<and> ?good = [])" by auto
      with True show ?thesis using small tot
        by (simp only: normalize_domain_list_def loop max_subscription_entries_def max_invalid_entry_percent_def
            Let_def prod.case if_False) auto
    next
      case False
      then show ?thesis using small tot norm
        by (simp add: normalize_domain_list_def loop max_subscription_entries_def max_invalid_entry_percent_def
          sorted_fold_insert del: set_sort sorted_sort) (auto simp: fold_insert_distinct)
    qed
  qed
qed

text \<open>A parsed CIDR list holds exactly the entries that \<open>net.ParseCIDR\<close> accepts, lower-cased,
  sorted and without duplicates; a list is refused exactly when it has more than 500000 entries, a
  line the scanner cannot hold, or more than 40 per cent entries that are no CIDR.\<close>

theorem parse_cidrs_spec:
  defines "bad \<equiv> \<lambda>ls. filter (\<lambda>l. parse_cidr l = None) (cidr_entries ls)"
  shows "case parse_cidrs raw of
      Inl e \<Rightarrow> 500000 < length (cidr_entries (fst (new_rule_scanner raw))) \<or> \<not> snd (new_rule_scanner raw) \<or>
        40 * length (cidr_entries (fst (new_rule_scanner raw))) < 100 * length (bad (fst (new_rule_scanner raw)))
    | Inr cs \<Rightarrow> sorted cs \<and> distinct cs \<and> snd (new_rule_scanner raw) \<and>
        length (cidr_entries (fst (new_rule_scanner raw))) \<le> 500000 \<and>
        100 * length (bad (fst (new_rule_scanner raw))) \<le> 40 * length (cidr_entries (fst (new_rule_scanner raw))) \<and>
        set cs = to_lower ` {l \<in> set (cidr_entries (fst (new_rule_scanner raw))). parse_cidr l \<noteq> None}"
proof -
  obtain ls ok where sc: "new_rule_scanner raw = (ls, ok)" by fastforce
  let ?es = "cidr_entries ls"
  let ?good = "map to_lower (filter (\<lambda>l. parse_cidr l \<noteq> None) ?es)"
  have loop: "cidrs_loop ls [] 0 0 = (if length ?es > max_subscription_entries then Inl ErrTooManyEntries
      else Inr (fold List.insert ?good [], length ?es, length (bad ls)))"
    by (simp add: cidrs_loop_spec bad_def)
  show ?thesis
  proof (cases "length ?es > max_subscription_entries \<or> \<not> ok \<or> 40 * length ?es < 100 * length (bad ls)")
    case True
    have "\<exists>e. parse_cidrs raw = Inl e"
      using True by (auto simp: parse_cidrs_def sc loop max_invalid_entry_percent_def bad_def)
    with True show ?thesis by (auto simp: sc max_subscription_entries_def bad_def)
  next
    case False
    then have "parse_cidrs raw = Inr (sort (fold List.insert ?good []))"
      by (auto simp: parse_cidrs_def sc loop max_invalid_entry_percent_def bad_def)
    with False show ?thesis
      by (auto simp: sc max_subscription_entries_def fold_insert_set fold_insert_distinct)
  qed
qed

end
