(* ===== verification/Domain_Rules.thy ===== *)
theory Domain_Rules
  imports Parsers Chnroute
begin

text \<open>
  \<open>rules.go\<close>: the matcher of one policy rule. Its maps from names to the empty struct are lists
  without duplicates; the suffix walk drops one label at a time. The file a set is loaded from is
  a \<open>rule_file\<close>; the scanner there has the default 64 KiB token limit.
\<close>

record domain_set =
  ds_exact :: "string list"
  ds_suffix :: "string list"
  ds_keyword :: "string list"

datatype domainset_error = DsOpen | DsScan

definition empty_domain_set :: domain_set where
  "empty_domain_set = \<lparr>ds_exact = [], ds_suffix = [], ds_keyword = []\<rparr>"

definition default_token_size :: nat where "default_token_size = 65536"

definition suffix_line :: "string \<Rightarrow> string option" where
  "suffix_line text =
     (let line = trim_space text in
      if line = [] \<or> has_prefix line ''#'' then None
      else let l = to_lower (trim_right_dots line) in if l = [] then None else Some l)"

definition load_suffix_file :: "domain_set \<Rightarrow> rule_file \<Rightarrow> domainset_error + domain_set" where
  "load_suffix_file d f = (case f of
     FileMissing \<Rightarrow> Inr d
   | FileOpenError \<Rightarrow> Inl DsOpen
   | FileScanError t \<Rightarrow> Inl DsScan
   | FileText t \<Rightarrow>
       let (ls, ok) = rule_scan default_token_size t;
           d' = d\<lparr>ds_suffix := fold List.insert (List.map_filter suffix_line ls) (ds_suffix d)\<rparr>
       in if ok then Inr d' else Inl DsScan)"

fun load_files :: "domain_set \<Rightarrow> rule_file list \<Rightarrow> domainset_error + domain_set" where
  "load_files d [] = Inr d"
| "load_files d (f # fs) = (case load_suffix_file d f of Inl e \<Rightarrow> Inl e | Inr d' \<Rightarrow> load_files d' fs)"

definition load_domain_set :: "rule_file list \<Rightarrow> domainset_error + domain_set" where
  "load_domain_set fs = load_files empty_domain_set fs"

function suffix_walk :: "string list \<Rightarrow> string \<Rightarrow> bool" where
  "suffix_walk sfx cur =
     (if cur \<in> set sfx then True
      else case index_byte cur dot of
        None \<Rightarrow> False
      | Some i \<Rightarrow> let cur' = drop (Suc i) cur in if cur' = [] then False else suffix_walk sfx cur')"
  by pat_completeness auto
termination
  by (relation "measure (\<lambda>(sfx, cur). length cur)")
     (auto simp: index_byte_def index_where_Some)

declare suffix_walk.simps [simp del]

definition ds_match :: "domain_set option \<Rightarrow> string \<Rightarrow> bool" where
  "ds_match d nm = (case d of None \<Rightarrow> False | Some ds \<Rightarrow>
     let name = to_lower (trim_right_dots nm) in
     if name = [] then False
     else if ds_exact ds \<noteq> [] \<and> name \<in> set (ds_exact ds) then True
     else if ds_suffix ds \<noteq> [] \<and> suffix_walk (ds_suffix ds) name then True
     else list_ex (\<lambda>kw. contains_str name kw) (ds_keyword ds))"

definition ds_len :: "domain_set option \<Rightarrow> nat" where
  "ds_len d = (case d of None \<Rightarrow> 0
     | Some ds \<Rightarrow> length (ds_exact ds) + length (ds_suffix ds) + length (ds_keyword ds))"

section \<open>Label-bounded suffixes\<close>

text \<open>The specification of a suffix match: the name is the entry or ends with a dot and the entry.\<close>

definition below :: "string \<Rightarrow> string \<Rightarrow> bool" where
  "below s name \<longleftrightarrow> name = s \<or> has_suffix name (dot # s)"

lemma below_drop:
  assumes i: "index_byte cur dot = Some i" and ne: "cur \<noteq> s"
  shows "below s cur \<longleftrightarrow> below s (drop (Suc i) cur)"
proof -
  have split: "cur = take i cur @ dot # drop (Suc i) cur" and first: "dot \<notin> set (take i cur)"
    using i by (auto simp: index_byte_def index_where_Some in_set_conv_nth id_take_nth_drop [symmetric])
      (metis id_take_nth_drop)
  let ?a = "take i cur" and ?r = "drop (Suc i) cur"
  have "has_suffix cur (dot # s) \<longleftrightarrow> ?r = s \<or> has_suffix ?r (dot # s)"
  proof
    assume "has_suffix cur (dot # s)"
    then obtain t where "?a @ dot # ?r = t @ dot # s" using split has_suffix_iff by metis
    then consider "t = ?a" "s = ?r" | u where "t = ?a @ dot # u" "?r = u @ dot # s"
      | u where "?a = t @ u" "u \<noteq> []" "dot # s = u @ dot # ?r"
      by (auto simp: append_eq_append_conv2 Cons_eq_append_conv append_eq_Cons_conv)
    then show "?r = s \<or> has_suffix ?r (dot # s)"
    proof cases
      case 3
      then have "dot \<in> set ?a" by (cases u) auto
      with first show ?thesis by simp
    qed (auto simp: has_suffix_iff)
  next
    assume "?r = s \<or> has_suffix ?r (dot # s)"
    then show "has_suffix cur (dot # s)"
      by (subst split) (auto simp: has_suffix_iff)
  qed
  then show ?thesis using ne by (auto simp: below_def)
qed

lemma suffix_walk_below:
  "cur \<noteq> [] \<Longrightarrow> last cur \<noteq> dot \<Longrightarrow> suffix_walk sfx cur \<longleftrightarrow> (\<exists>s\<in>set sfx. below s cur)"
proof (induction sfx cur rule: suffix_walk.induct)
  case (1 sfx cur)
  show ?case
  proof (cases "cur \<in> set sfx")
    case True
    then show ?thesis by (subst suffix_walk.simps) (auto simp: below_def)
  next
    case out: False
    show ?thesis
    proof (cases "index_byte cur dot")
      case None
      then have "dot \<notin> set cur" by (auto simp: index_byte_def index_where_None)
      with out None show ?thesis
        by (subst suffix_walk.simps) (auto simp: below_def has_suffix_iff)
    next
      case (Some i)
      have lt: "i < length cur" "cur ! i = dot" using Some by (auto simp: index_byte_def index_where_Some)
      have ne: "drop (Suc i) cur \<noteq> []"
      proof
        assume "drop (Suc i) cur = []"
        then have "i = length cur - 1" using lt by simp
        with lt "1.prems" show False by (simp add: last_conv_nth)
      qed
      have IH: "suffix_walk sfx (drop (Suc i) cur) \<longleftrightarrow> (\<exists>s\<in>set sfx. below s (drop (Suc i) cur))"
        by (rule "1.IH") (use out Some ne "1.prems" in auto)
      have step: "suffix_walk sfx cur \<longleftrightarrow> suffix_walk sfx (drop (Suc i) cur)"
        by (subst suffix_walk.simps) (simp only: out Some ne Let_def option.case if_False)
      have "\<forall>s\<in>set sfx. below s cur \<longleftrightarrow> below s (drop (Suc i) cur)"
        using below_drop [OF Some] out by metis
      then show ?thesis unfolding step IH by (simp only: cong: bex_cong)
    qed
  qed
qed

lemma norm_name_last: "to_lower (trim_right_dots nm) \<noteq> [] \<Longrightarrow> last (to_lower (trim_right_dots nm)) \<noteq> dot"
  unfolding to_lower_trim_right_dots unfolding trim_right_dots_def by (rule last_drop_while_end [of "\<lambda>c. c = dot"])

section \<open>Properties\<close>

text \<open>A rule matches a name exactly when the name, lower-cased and without trailing dots, is not
  empty and is an exact entry, or is a suffix entry or a subdomain of one at a label boundary, or
  contains a keyword; the label walk finds every suffix entry and never matches inside a label.\<close>

theorem ds_match_spec:
  fixes nm :: string
  defines "name \<equiv> to_lower (trim_right_dots nm)"
  shows "ds_match (Some d) nm \<longleftrightarrow> name \<noteq> [] \<and>
    (name \<in> set (ds_exact d) \<or>
     (\<exists>s\<in>set (ds_suffix d). name = s \<or> (\<exists>p. name = p @ dot # s)) \<or>
     (\<exists>kw\<in>set (ds_keyword d). \<exists>a b. name = a @ kw @ b))"
proof (cases "name = []")
  case True
  then show ?thesis by (simp add: ds_match_def name_def)
next
  case False
  then have "suffix_walk (ds_suffix d) name \<longleftrightarrow> (\<exists>s\<in>set (ds_suffix d). below s name)"
    unfolding name_def by (intro suffix_walk_below norm_name_last)
  with False show ?thesis
    by (auto simp: ds_match_def name_def [symmetric] Let_def list_ex_iff contains_str_iff below_def has_suffix_iff)
qed

lemma ds_match_cong:
  "to_lower (trim_right_dots a) = to_lower (trim_right_dots b) \<Longrightarrow> ds_match d a = ds_match d b"
  unfolding ds_match_def by (simp only: )

lemma load_suffix_file_suffix:
  "load_suffix_file d f = Inr d' \<Longrightarrow> ds_exact d' = ds_exact d \<and> ds_keyword d' = ds_keyword d \<and>
     set (ds_suffix d) \<subseteq> set (ds_suffix d')"
  by (auto simp: load_suffix_file_def fold_insert_set split: rule_file.splits prod.splits if_splits)

end
