(* ===== verification/Go_Url.thy ===== *)
theory Go_Url
  imports Go_Net
begin

text \<open>
  \<open>net/url\<close>: \<open>url.Parse\<close> of an absolute or relative reference and the accessors \<open>Hostname\<close> and
  \<open>Port\<close>, following the standard library (including the strict colon and IP-literal checks of
  the toolchain the module asks for). The user part is kept as an option of the raw text.
\<close>

record go_url =
  u_scheme :: string
  u_opaque :: string
  u_user :: "string option"
  u_host :: string
  u_path :: string
  u_raw_path :: string
  u_force_query :: bool
  u_raw_query :: string
  u_fragment :: string

definition empty_url :: go_url where
  "empty_url = \<lparr>u_scheme = [], u_opaque = [], u_user = None, u_host = [], u_path = [], u_raw_path = [],
     u_force_query = False, u_raw_query = [], u_fragment = []\<rparr>"

definition is_letter :: "char \<Rightarrow> bool" where
  "is_letter c \<longleftrightarrow> (65 \<le> char_code c \<and> char_code c \<le> 90) \<or> (97 \<le> char_code c \<and> char_code c \<le> 122)"

definition is_ctl :: "char \<Rightarrow> bool" where
  "is_ctl c \<longleftrightarrow> char_code c < 32 \<or> char_code c = 127"

text \<open>\<open>strings.Cut\<close> at a byte.\<close>

definition cut :: "string \<Rightarrow> char \<Rightarrow> string \<times> string" where
  "cut s c = (case index_byte s c of None \<Rightarrow> (s, []) | Some i \<Rightarrow> (take i s, drop (Suc i) s))"

text \<open>\<open>getScheme\<close>: the scheme and the rest, or an error for a missing scheme.\<close>

fun get_scheme_loop :: "string \<Rightarrow> nat \<Rightarrow> string \<Rightarrow> (string \<times> string) option" where
  "get_scheme_loop raw i [] = Some ([], raw)"
| "get_scheme_loop raw i (c # s) =
     (if is_letter c then get_scheme_loop raw (Suc i) s
      else if is_digit c \<or> c = CHR ''+'' \<or> c = CHR ''-'' \<or> c = dot
      then (if i = 0 then Some ([], raw) else get_scheme_loop raw (Suc i) s)
      else if c = colon then (if i = 0 then None else Some (take i raw, s))
      else Some ([], raw))"

definition get_scheme :: "string \<Rightarrow> (string \<times> string) option" where
  "get_scheme raw = get_scheme_loop raw 0 raw"

text \<open>\<open>unescape\<close> for paths, fragments and user information: only a malformed escape is an error.\<close>

fun unescape :: "string \<Rightarrow> string option" where
  "unescape [] = Some []"
| "unescape (c # s) =
     (if c = CHR ''%'' then
        (case s of
           a # b # t \<Rightarrow>
             (case (hex_val a, hex_val b) of
                (Some x, Some y) \<Rightarrow> map_option (Cons (char_of (x * 16 + y))) (unescape t)
              | _ \<Rightarrow> None)
         | _ \<Rightarrow> None)
      else map_option (Cons c) (unescape s))"

text \<open>\<open>unescape\<close> in host mode: escapes stand for non-ASCII bytes (or \<open>%25\<close>), and an ASCII byte must
  be one that a host may hold.\<close>

definition host_char :: "char \<Rightarrow> bool" where
  "host_char c \<longleftrightarrow> char_code c \<ge> 128 \<or> is_letter c \<or> is_digit c \<or> c \<in> set ''-_.~!$&()*+,;=:[]<>'' \<or>
     char_code c = 39 \<or> char_code c = 34"

fun unescape_host :: "string \<Rightarrow> string option" where
  "unescape_host [] = Some []"
| "unescape_host (c # s) =
     (if c = CHR ''%'' then
        (case s of
           a # b # t \<Rightarrow>
             (case (hex_val a, hex_val b) of
                (Some x, Some y) \<Rightarrow>
                  if x < 8 \<and> \<not> (x = 2 \<and> y = 5) then None
                  else map_option (Cons (char_of (x * 16 + y))) (unescape_host t)
              | _ \<Rightarrow> None)
         | _ \<Rightarrow> None)
      else if \<not> host_char c then None
      else map_option (Cons c) (unescape_host s))"

definition valid_optional_port :: "string \<Rightarrow> bool" where
  "valid_optional_port p \<longleftrightarrow> (case p of [] \<Rightarrow> True | c # s \<Rightarrow> c = colon \<and> list_all is_digit s)"

text \<open>\<open>parseHost\<close>: a bracketed IP literal must be an IPv6 address; elsewhere the first colon starts
  the port.\<close>

definition parse_host :: "string \<Rightarrow> string option" where
  "parse_host host =
     (case last_index_byte host (CHR ''['') of
        Some ob \<Rightarrow>
          if ob \<noteq> 0 then None
          else (case last_index_byte host (CHR '']'') of
             None \<Rightarrow> None
           | Some cb \<Rightarrow>
               if \<not> valid_optional_port (drop (Suc cb) host) then None
               else (case parse_addr (drop 1 (take cb host)) of
                  Some (V6 b) \<Rightarrow> Some host
                | _ \<Rightarrow> None))
      | None \<Rightarrow>
          if (case index_byte host colon of None \<Rightarrow> False | Some i \<Rightarrow> \<not> valid_optional_port (drop i host))
          then None else unescape_host host)"

definition userinfo_char :: "char \<Rightarrow> bool" where
  "userinfo_char c \<longleftrightarrow> is_letter c \<or> is_digit c \<or> c \<in> set ''-._:~!$&()*+,;=%@'' \<or> char_code c = 39"

definition parse_authority :: "string \<Rightarrow> (string option \<times> string) option" where
  "parse_authority a =
     (case last_index_byte a (CHR ''@'') of
        None \<Rightarrow> map_option (\<lambda>h. (None, h)) (parse_host a)
      | Some i \<Rightarrow>
          (case parse_host (drop (Suc i) a) of
             None \<Rightarrow> None
           | Some h \<Rightarrow>
               let user = take i a in
               if \<not> list_all userinfo_char user \<or> unescape user = None then None
               else Some (Some user, h)))"

text \<open>
  \<open>escape\<close> in path mode, and \<open>setPath\<close>: the text of the path is kept when it is not the default
  encoding of the path.
\<close>

definition upper_hex :: "nat \<Rightarrow> char" where
  "upper_hex d = (if d < 10 then char_of (48 + d) else char_of (55 + d))"

definition path_char :: "char \<Rightarrow> bool" where
  "path_char c \<longleftrightarrow> is_letter c \<or> is_digit c \<or> c \<in> set ''-_.~$&+,/:;=@''"

definition escape_byte :: "char \<Rightarrow> string" where
  "escape_byte c = [CHR ''%'', upper_hex (char_code c div 16), upper_hex (char_code c mod 16)]"

definition escape_path :: "string \<Rightarrow> string" where
  "escape_path s = concat (map (\<lambda>c. if path_char c then [c] else escape_byte c) s)"

definition set_path :: "go_url \<Rightarrow> string \<Rightarrow> go_url option" where
  "set_path u p = map_option (\<lambda>path. u\<lparr>u_path := path, u_raw_path := if p = escape_path path then [] else p\<rparr>) (unescape p)"

text \<open>The part of \<open>parse\<close> after the scheme and the query.\<close>

definition parse_rest :: "go_url \<Rightarrow> string \<Rightarrow> go_url option" where
  "parse_rest u rest =
     (if \<not> has_prefix rest ''/'' \<and> u_scheme u \<noteq> [] then Some (u\<lparr>u_opaque := rest\<rparr>)
      else if \<not> has_prefix rest ''/'' \<and> colon \<in> set (fst (cut rest slash)) then None
      else if (u_scheme u \<noteq> [] \<or> \<not> has_prefix rest ''///'') \<and> has_prefix rest ''//'' then
        (let a = drop 2 rest;
             (auth, path) = (case index_byte a slash of None \<Rightarrow> (a, []) | Some i \<Rightarrow> (take i a, drop i a))
         in case parse_authority auth of
              None \<Rightarrow> None
            | Some (user, h) \<Rightarrow>
                set_path (u\<lparr>u_user := user, u_host := h\<rparr>) path)
      else set_path u rest)"

definition split_query :: "go_url \<Rightarrow> string \<Rightarrow> go_url \<times> string" where
  "split_query u rest =
     (if has_suffix rest ''?'' \<and> length (filter (\<lambda>c. c = CHR ''?'') rest) = 1
      then (u\<lparr>u_force_query := True\<rparr>, butlast rest)
      else (u\<lparr>u_raw_query := snd (cut rest (CHR ''?''))\<rparr>, fst (cut rest (CHR ''?''))))"

definition url_parse :: "string \<Rightarrow> go_url option" where
  "url_parse raw =
     (let (s, frag) = cut raw (CHR ''#'') in
      if list_ex is_ctl s then None
      else case (if s = ''*'' then Some (empty_url\<lparr>u_path := ''*''\<rparr>)
                 else case get_scheme s of
                   None \<Rightarrow> None
                 | Some (scheme, rest) \<Rightarrow>
                     let (u, r) = split_query (empty_url\<lparr>u_scheme := to_lower scheme\<rparr>) rest
                     in parse_rest u r) of
             None \<Rightarrow> None
           | Some u \<Rightarrow> map_option (\<lambda>f. u\<lparr>u_fragment := f\<rparr>) (unescape frag))"

definition url_split_host_port :: "string \<Rightarrow> string \<times> string" where
  "url_split_host_port hp =
     (let (h, p) = (case last_index_byte hp colon of
                      Some i \<Rightarrow> if valid_optional_port (drop i hp) then (take i hp, drop (Suc i) hp) else (hp, [])
                    | None \<Rightarrow> (hp, []))
      in (if has_prefix h ''['' \<and> has_suffix h '']'' then butlast (drop 1 h) else h, p))"

definition url_hostname :: "go_url \<Rightarrow> string" where
  "url_hostname u = fst (url_split_host_port (u_host u))"

definition url_port :: "go_url \<Rightarrow> string" where
  "url_port u = snd (url_split_host_port (u_host u))"

text \<open>\<open>EscapedPath\<close>, \<open>RequestURI\<close> and \<open>String\<close>; a fragment is printed as it was decoded.\<close>

definition valid_encoded_path :: "string \<Rightarrow> bool" where
  "valid_encoded_path s = list_all (\<lambda>c. path_char c \<or> c \<in> set ''!()*[]%'' \<or> char_code c = 39) s"

definition escaped_path :: "go_url \<Rightarrow> string" where
  "escaped_path u =
     (if u_raw_path u \<noteq> [] \<and> valid_encoded_path (u_raw_path u) \<and> unescape (u_raw_path u) = Some (u_path u)
      then u_raw_path u
      else if u_path u = ''*'' then ''*'' else escape_path (u_path u))"

definition query_suffix :: "go_url \<Rightarrow> string" where
  "query_suffix u = (if u_force_query u \<or> u_raw_query u \<noteq> [] then CHR ''?'' # u_raw_query u else [])"

definition request_uri :: "go_url \<Rightarrow> string" where
  "request_uri u =
     (let r = (if u_opaque u = [] then (if escaped_path u = [] then [slash] else escaped_path u)
               else if has_prefix (u_opaque u) ''//'' then u_scheme u @ colon # u_opaque u else u_opaque u)
      in r @ query_suffix u)"

definition escape_host :: "string \<Rightarrow> string" where
  "escape_host s = concat (map (\<lambda>c. if host_char c \<and> char_code c < 128 then [c] else escape_byte c) s)"

definition url_string :: "go_url \<Rightarrow> string" where
  "url_string u =
     (let scheme = (if u_scheme u = [] then [] else u_scheme u @ [colon]);
          fragment = (if u_fragment u = [] then [] else CHR ''#'' # u_fragment u)
      in if u_opaque u \<noteq> [] then scheme @ u_opaque u @ query_suffix u @ fragment
         else let auth = (if (u_scheme u \<noteq> [] \<or> u_host u \<noteq> [] \<or> u_user u \<noteq> None) \<and>
                             (u_host u \<noteq> [] \<or> u_path u \<noteq> [] \<or> u_user u \<noteq> None)
                          then ''//'' @ (case u_user u of None \<Rightarrow> [] | Some i \<Rightarrow> i @ ''@'') @ escape_host (u_host u) else []);
                  path = escaped_path u
              in scheme @ auth @ (if path \<noteq> [] \<and> hd path \<noteq> slash \<and> u_host u \<noteq> [] then [slash] else []) @ path @
                 query_suffix u @ fragment)"

lemma url_string_example:
  "map (\<lambda>s. map_option url_string (url_parse s))
     [''HTTPS://lists.example:8443/a%20b/%2fc?x=1'', ''http://a.example'', ''https://a.example/[x]?''] =
   map Some [''https://lists.example:8443/a%20b/%2fc?x=1'', ''http://a.example'', ''https://a.example/[x]?'']"
  by code_simp

lemma url_parse_example:
  "map_option (\<lambda>u. (u_scheme u, u_user u, u_host u, url_hostname u, url_port u, u_path u, u_raw_query u))
     (url_parse ''https://lists.example:8443/a%20b?x=1#f'') =
   Some (''https'', None, ''lists.example:8443'', ''lists.example'', ''8443'', ''/a b'', ''x=1'')"
  by code_simp

end
