(* ===== verification/Policy.thy ===== *)
theory Policy
  imports Domain_Rules Go_Url
begin

text \<open>
  \<open>policy_rules.go\<close>: the console-managed, ordered DNS policy, its validation, and the
  \<open>PolicyRuleManager\<close> that persists every mutation before it returns. The manager's state holds
  the in-memory model, the revision and what \<open>policy.json\<close> holds on disk; the JSON encoding itself
  is the identity here. The outcome of the atomic file write is an argument (\<open>saved\<close>), as is the
  random part of a new rule's ID (\<open>fresh\<close>). All operations run under the manager's mutex.
\<close>

section \<open>The model\<close>

datatype matcher_kind = KindDomain | KindDomainSuffix | KindDomainKeyword | KindSubscription | UnknownKind string

datatype intent = IntentBlock | IntentDirect | IntentProxy | UnknownIntent string

datatype fallback_policy = FallbackAuto | FallbackDirect | FallbackGateway | UnknownFallback string

record matcher =
  mt_kind :: matcher_kind
  mt_value :: string
  mt_format :: string
  mt_interval :: duration

record policy_rule =
  pr_id :: string
  pr_order :: int
  pr_matcher :: matcher
  pr_intent :: intent
  pr_enabled :: bool

record policy_model =
  pm_version :: int
  pm_rules :: "policy_rule list"
  pm_fallback :: fallback_policy

definition policy_schema_version :: int where "policy_schema_version = 1"

datatype policy_error =
    ErrInvalidPolicy | ErrPolicyNotFound | ErrPolicyRevisionChanged
  | ErrPolicyRead | ErrPolicyParse | ErrPolicySave

text \<open>A check of the source returns an error or nil.\<close>

type_synonym check = "policy_error option"

section \<open>Validation\<close>

definition validate_policy_field :: "string \<Rightarrow> check" where
  "validate_policy_field s = (if list_ex (\<lambda>c. char_code c < 32) s then Some ErrInvalidPolicy else None)"

fun split_on :: "char \<Rightarrow> string \<Rightarrow> string \<Rightarrow> string list" where
  "split_on sep cur [] = [rev cur]"
| "split_on sep cur (c # s) =
     (if c = sep then rev cur # split_on sep [] s else split_on sep (c # cur) s)"

text \<open>\<open>isValidRuleDomain\<close> of \<open>controller.go\<close>\<close>

definition is_valid_rule_domain :: "string \<Rightarrow> bool" where
  "is_valid_rule_domain entry0 =
     (let entry = trim_space entry0 in
      if entry = [] then False
      else if list_ex (\<lambda>c. char_code c \<in> {32, 9, 13, 10}) entry then False
      else let d = normalize_domain entry in
        if d = [] \<or> dot \<notin> set d then False
        else list_all (\<lambda>label. label \<noteq> []) (split_on dot [] d))"

text \<open>\<open>validateSubscriptionURLScheme\<close> of \<open>subscription.go\<close>\<close>

definition validate_subscription_url_scheme :: "string \<Rightarrow> bool" where
  "validate_subscription_url_scheme raw = (case url_parse raw of
     None \<Rightarrow> False
   | Some u \<Rightarrow> u_scheme u = ''http'' \<or> u_scheme u = ''https'')"

definition valid_subscription_formats :: "string list" where
  "valid_subscription_formats = [''plain'', ''gfwlist'', ''dnsmasq'', ''hosts'']"

definition valid_matcher_kinds :: "matcher_kind list" where
  "valid_matcher_kinds = [KindDomain, KindDomainSuffix, KindDomainKeyword, KindSubscription]"

definition valid_intents :: "intent list" where
  "valid_intents = [IntentBlock, IntentDirect, IntentProxy]"

definition valid_fallback_policies :: "fallback_policy list" where
  "valid_fallback_policies = [FallbackAuto, FallbackDirect, FallbackGateway]"

definition inline_only :: "matcher \<Rightarrow> bool" where
  "inline_only mm \<longleftrightarrow> mt_format mm = [] \<and> mt_interval mm = 0"

definition validate_matcher :: "matcher \<Rightarrow> check" where
  "validate_matcher mm =
     (if mt_kind mm \<notin> set valid_matcher_kinds then Some ErrInvalidPolicy
      else if mt_value mm = [] then Some ErrInvalidPolicy
      else case mt_kind mm of
        KindSubscription \<Rightarrow>
          (if validate_policy_field (mt_value mm) \<noteq> None then Some ErrInvalidPolicy
           else if \<not> validate_subscription_url_scheme (mt_value mm) then Some ErrInvalidPolicy
           else if mt_format mm \<notin> set valid_subscription_formats then Some ErrInvalidPolicy
           else if mt_interval mm \<le> 0 then Some ErrInvalidPolicy
           else None)
      | KindDomainKeyword \<Rightarrow>
          (if \<not> inline_only mm then Some ErrInvalidPolicy
           else validate_policy_field (mt_value mm))
      | _ \<Rightarrow>
          (if \<not> inline_only mm then Some ErrInvalidPolicy
           else if validate_policy_field (mt_value mm) \<noteq> None then Some ErrInvalidPolicy
           else if \<not> is_valid_rule_domain (mt_value mm) then Some ErrInvalidPolicy
           else None))"

definition validate_fallback :: "fallback_policy \<Rightarrow> check" where
  "validate_fallback f = (if f \<notin> set valid_fallback_policies then Some ErrInvalidPolicy else None)"

definition validate_policy_rule :: "policy_rule \<Rightarrow> check" where
  "validate_policy_rule r =
     (if pr_intent r \<notin> set valid_intents then Some ErrInvalidPolicy
      else validate_matcher (pr_matcher r))"

text \<open>\<open>^[A-Za-z0-9][A-Za-z0-9_-]{0,63}$\<close>\<close>

definition policy_id_re :: "string \<Rightarrow> bool" where
  "policy_id_re s \<longleftrightarrow> (case s of [] \<Rightarrow> False
     | c # t \<Rightarrow> (is_letter c \<or> is_digit c) \<and> length t \<le> 63 \<and>
         list_all (\<lambda>c. is_letter c \<or> is_digit c \<or> c = CHR ''_'' \<or> c = CHR ''-'') t)"

fun validate_rules :: "string list \<Rightarrow> nat \<Rightarrow> policy_rule list \<Rightarrow> check" where
  "validate_rules seen i [] = None"
| "validate_rules seen i (r # rs) =
     (if \<not> policy_id_re (pr_id r) then Some ErrInvalidPolicy
      else if pr_id r \<in> set seen then Some ErrInvalidPolicy
      else if pr_order r \<noteq> int i then Some ErrInvalidPolicy
      else if validate_policy_rule r \<noteq> None then validate_policy_rule r
      else validate_rules (pr_id r # seen) (Suc i) rs)"

definition validate_policy_model :: "policy_model \<Rightarrow> check" where
  "validate_policy_model m =
     (if validate_fallback (pm_fallback m) \<noteq> None then validate_fallback (pm_fallback m)
      else validate_rules [] 0 (pm_rules m))"

section \<open>Loading\<close>

datatype policy_file = PolicyMissing | PolicyReadError | PolicyMalformed | PolicyFile policy_model

definition load_policy_model :: "policy_file \<Rightarrow> policy_error + policy_model" where
  "load_policy_model f = (case f of
     PolicyMissing \<Rightarrow> Inr \<lparr>pm_version = policy_schema_version, pm_rules = [], pm_fallback = FallbackAuto\<rparr>
   | PolicyReadError \<Rightarrow> Inl ErrPolicyRead
   | PolicyMalformed \<Rightarrow> Inl ErrPolicyParse
   | PolicyFile m \<Rightarrow>
       if pm_version m \<noteq> policy_schema_version then Inl ErrPolicyParse
       else case validate_policy_model m of Some e \<Rightarrow> Inl e | None \<Rightarrow> Inr m)"

section \<open>The manager\<close>

record policy_manager =
  mg_model :: policy_model
  mg_revision :: u64
  mg_disk :: policy_file

definition new_policy_rule_manager :: "policy_file \<Rightarrow> policy_error + policy_manager" where
  "new_policy_rule_manager f = (case load_policy_model f of
     Inl e \<Rightarrow> Inl e
   | Inr m \<Rightarrow> Inr \<lparr>mg_model = m, mg_revision = 1, mg_disk = f\<rparr>)"

text \<open>\<open>saveLocked\<close>: the version-stamped model replaces the file, or nothing changes on disk.\<close>

definition save_locked :: "bool \<Rightarrow> policy_manager \<Rightarrow> (policy_error option) \<times> policy_manager" where
  "save_locked saved g =
     (if saved then (None, g\<lparr>mg_disk := PolicyFile ((mg_model g)\<lparr>pm_version := policy_schema_version\<rparr>)\<rparr>)
      else (Some ErrPolicySave, g))"

definition rule_index :: "policy_rule list \<Rightarrow> string \<Rightarrow> nat option" where
  "rule_index rs i = index_where (\<lambda>r. pr_id r = i) rs"

definition pm_snapshot :: "policy_manager \<Rightarrow> policy_model \<times> u64" where
  "pm_snapshot g = (mg_model g, mg_revision g)"

definition commit_if_revision ::
    "u64 \<Rightarrow> policy_manager \<Rightarrow> ('s \<Rightarrow> policy_error option \<times> 's) \<Rightarrow> 's \<Rightarrow> policy_error option \<times> 's" where
  "commit_if_revision revision g fn s =
     (if mg_revision g \<noteq> revision then (Some ErrPolicyRevisionChanged, s) else fn s)"

definition sorted_rules :: "policy_rule list \<Rightarrow> policy_rule list" where
  "sorted_rules rs = sort_key pr_order rs"

definition manager_rules :: "policy_manager \<Rightarrow> policy_rule list" where
  "manager_rules g = sorted_rules (pm_rules (mg_model g))"

abbreviation with_rules :: "policy_rule list \<Rightarrow> policy_manager \<Rightarrow> policy_manager" where
  "with_rules rs g \<equiv> g\<lparr>mg_model := (mg_model g)\<lparr>pm_rules := rs\<rparr>\<rparr>"

abbreviation bump_revision :: "policy_manager \<Rightarrow> policy_manager" where
  "bump_revision g \<equiv> g\<lparr>mg_revision := mg_revision g + 1\<rparr>"

definition add_rule ::
    "string \<Rightarrow> bool \<Rightarrow> policy_rule \<Rightarrow> policy_manager \<Rightarrow> (policy_error + policy_rule) \<times> policy_manager" where
  "add_rule fresh saved r0 g =
     (let rs = pm_rules (mg_model g);
          r = r0\<lparr>pr_id := fresh, pr_order := int (length rs)\<rparr>
      in case validate_policy_rule r of
           Some e \<Rightarrow> (Inl e, g)
         | None \<Rightarrow>
             let g1 = with_rules (rs @ [r]) g in
             (case save_locked saved g1 of
                (Some e, g2) \<Rightarrow>
                  (Inl e, with_rules (take (length (pm_rules (mg_model g2)) - 1) (pm_rules (mg_model g2))) g2)
              | (None, g2) \<Rightarrow> (Inr r, bump_revision g2)))"

definition update_rule ::
    "string \<Rightarrow> bool \<Rightarrow> policy_rule \<Rightarrow> policy_manager \<Rightarrow> (policy_error + policy_rule) \<times> policy_manager" where
  "update_rule rid saved r0 g =
     (let rs = pm_rules (mg_model g) in
      case rule_index rs rid of
        None \<Rightarrow> (Inl ErrPolicyNotFound, g)
      | Some idx \<Rightarrow>
          let r = r0\<lparr>pr_id := rid, pr_order := pr_order (rs ! idx)\<rparr> in
          (case validate_policy_rule r of
             Some e \<Rightarrow> (Inl e, g)
           | None \<Rightarrow>
               let old = rs ! idx; g1 = with_rules (rs[idx := r]) g in
               (case save_locked saved g1 of
                  (Some e, g2) \<Rightarrow> (Inl e, with_rules ((pm_rules (mg_model g2))[idx := old]) g2)
                | (None, g2) \<Rightarrow> (Inr r, bump_revision g2))))"

definition renumber :: "policy_rule list \<Rightarrow> policy_rule list" where
  "renumber rs = map2 (\<lambda>i r. r\<lparr>pr_order := int i\<rparr>) [0..<length rs] rs"

definition delete_rule :: "string \<Rightarrow> bool \<Rightarrow> policy_manager \<Rightarrow> policy_error option \<times> policy_manager" where
  "delete_rule rid saved g =
     (let rs = pm_rules (mg_model g) in
      case rule_index rs rid of
        None \<Rightarrow> (Some ErrPolicyNotFound, g)
      | Some idx \<Rightarrow>
          let old = rs; next = renumber (take idx rs @ drop (Suc idx) rs); g1 = with_rules next g in
          (case save_locked saved g1 of
             (Some e, g2) \<Rightarrow> (Some e, with_rules old g2)
           | (None, g2) \<Rightarrow> (None, bump_revision g2)))"

text \<open>The loop of \<open>Reorder\<close>: \<open>by_id\<close> is the map that loses each rule as it is taken.\<close>

fun reorder_loop ::
    "(string, policy_rule) go_map \<Rightarrow> nat \<Rightarrow> string list \<Rightarrow> policy_rule list \<Rightarrow> policy_error + policy_rule list" where
  "reorder_loop by_id n [] acc = Inr acc"
| "reorder_loop by_id n (i # is) acc =
     (case map_of by_id i of
        None \<Rightarrow> Inl ErrInvalidPolicy
      | Some r \<Rightarrow> reorder_loop (AList.delete i by_id) (Suc n) is (acc @ [r\<lparr>pr_order := int n\<rparr>]))"

definition rules_by_id :: "policy_rule list \<Rightarrow> (string, policy_rule) go_map" where
  "rules_by_id rs = fold (\<lambda>r m. AList.update (pr_id r) r m) rs []"

definition reorder :: "string list \<Rightarrow> bool \<Rightarrow> policy_manager \<Rightarrow> policy_error option \<times> policy_manager" where
  "reorder ids saved g =
     (let rs = pm_rules (mg_model g) in
      if length ids \<noteq> length rs then (Some ErrInvalidPolicy, g)
      else case reorder_loop (rules_by_id rs) 0 ids [] of
        Inl e \<Rightarrow> (Some e, g)
      | Inr next \<Rightarrow>
          (case save_locked saved (with_rules next g) of
             (Some e, g2) \<Rightarrow> (Some e, with_rules rs g2)
           | (None, g2) \<Rightarrow> (None, bump_revision g2)))"

definition get_fallback :: "policy_manager \<Rightarrow> fallback_policy" where
  "get_fallback g = pm_fallback (mg_model g)"

definition set_fallback :: "fallback_policy \<Rightarrow> bool \<Rightarrow> policy_manager \<Rightarrow> policy_error option \<times> policy_manager" where
  "set_fallback f saved g =
     (case validate_fallback f of
        Some e \<Rightarrow> (Some e, g)
      | None \<Rightarrow>
          let old = pm_fallback (mg_model g); g1 = g\<lparr>mg_model := (mg_model g)\<lparr>pm_fallback := f\<rparr>\<rparr> in
          (case save_locked saved g1 of
             (Some e, g2) \<Rightarrow> (Some e, g2\<lparr>mg_model := (mg_model g2)\<lparr>pm_fallback := old\<rparr>\<rparr>)
           | (None, g2) \<Rightarrow> (None, bump_revision g2)))"

section \<open>What validation means\<close>

definition rules_ok :: "nat \<Rightarrow> policy_rule list \<Rightarrow> bool" where
  "rules_ok n rs \<longleftrightarrow> distinct (map pr_id rs) \<and> list_all (\<lambda>r. policy_id_re (pr_id r)) rs \<and>
     list_all (\<lambda>r. validate_policy_rule r = None) rs \<and> map pr_order rs = map int [n..<n + length rs]"

lemma upt_shift_Cons: "[n..<n + Suc k] = n # [Suc n..<Suc n + k]"
  by (simp add: upt_rec)

lemma rules_ok_Nil [simp]: "rules_ok n []"
  by (simp add: rules_ok_def)

lemma rules_ok_Cons [simp]:
  "rules_ok n (r # rs) \<longleftrightarrow> policy_id_re (pr_id r) \<and> pr_id r \<notin> set (map pr_id rs) \<and> pr_order r = int n \<and>
     validate_policy_rule r = None \<and> rules_ok (Suc n) rs"
proof -
  have u: "[n..<n + length (r # rs)] = n # [Suc n..<Suc n + length rs]" by (simp add: upt_rec)
  show ?thesis unfolding rules_ok_def u by auto
qed

lemma validate_rules_iff:
  "validate_rules seen n rs = None \<longleftrightarrow> rules_ok n rs \<and> set seen \<inter> set (map pr_id rs) = {}"
proof (induction seen n rs rule: validate_rules.induct)
  case (1 seen i)
  then show ?case by simp
next
  case (2 seen i r rs)
  then show ?case
    by (cases "policy_id_re (pr_id r) \<and> pr_id r \<notin> set seen \<and> pr_order r = int i \<and> validate_policy_rule r = None")
      (auto split: if_splits)
qed

lemma validate_model_iff:
  "validate_policy_model m = None \<longleftrightarrow> validate_fallback (pm_fallback m) = None \<and> rules_ok 0 (pm_rules m)"
  by (cases "validate_fallback (pm_fallback m)") (simp_all add: validate_policy_model_def validate_rules_iff)

lemma validate_rule_order [simp]:
  "validate_policy_rule (r\<lparr>pr_order := k\<rparr>) = validate_policy_rule r"
  "validate_policy_rule (r\<lparr>pr_id := i\<rparr>) = validate_policy_rule r"
  by (simp_all add: validate_policy_rule_def)

lemma renumber_simps [simp]:
  "length (renumber rs) = length rs" "map pr_id (renumber rs) = map pr_id rs"
  "map pr_order (renumber rs) = map int [0..<length rs]"
  by (auto simp: renumber_def intro!: nth_equalityI)

lemma renumber_nth: "i < length rs \<Longrightarrow> renumber rs ! i = (rs ! i)\<lparr>pr_order := int i\<rparr>"
  by (simp add: renumber_def)

lemma list_all_renumber:
  "(\<And>r k. P (r\<lparr>pr_order := k\<rparr>) = P r) \<Longrightarrow> list_all P (renumber rs) = list_all P rs"
  by (simp add: list_all_length renumber_nth)

lemma rules_ok_renumber:
  "distinct (map pr_id rs) \<Longrightarrow> list_all (\<lambda>r. policy_id_re (pr_id r)) rs \<Longrightarrow>
   list_all (\<lambda>r. validate_policy_rule r = None) rs \<Longrightarrow> rules_ok 0 (renumber rs)"
  by (simp add: rules_ok_def list_all_renumber)

section \<open>The operations, on every branch\<close>

lemma save_locked_simps:
  "save_locked True g = (None, g\<lparr>mg_disk := PolicyFile ((mg_model g)\<lparr>pm_version := policy_schema_version\<rparr>)\<rparr>)"
  "save_locked False g = (Some ErrPolicySave, g)"
  by (simp_all add: save_locked_def)

text \<open>A committed change: the new model is in memory and on disk, one revision later.\<close>

definition committed :: "policy_model \<Rightarrow> policy_manager \<Rightarrow> policy_manager" where
  "committed m g = g\<lparr>mg_model := m, mg_revision := mg_revision g + 1,
     mg_disk := PolicyFile (m\<lparr>pm_version := policy_schema_version\<rparr>)\<rparr>"

lemma add_rule_eq:
  "add_rule fresh saved r0 g =
     (let r = r0\<lparr>pr_id := fresh, pr_order := int (length (pm_rules (mg_model g)))\<rparr> in
      case validate_policy_rule r of Some e \<Rightarrow> (Inl e, g)
      | None \<Rightarrow> if saved then (Inr r, committed ((mg_model g)\<lparr>pm_rules := pm_rules (mg_model g) @ [r]\<rparr>) g)
                else (Inl ErrPolicySave, g))"
  by (cases saved) (simp_all add: add_rule_def Let_def save_locked_simps committed_def split: option.split)

lemma update_rule_eq:
  "update_rule rid saved r0 g =
     (case rule_index (pm_rules (mg_model g)) rid of None \<Rightarrow> (Inl ErrPolicyNotFound, g)
      | Some idx \<Rightarrow>
          let r = r0\<lparr>pr_id := rid, pr_order := pr_order (pm_rules (mg_model g) ! idx)\<rparr> in
          (case validate_policy_rule r of Some e \<Rightarrow> (Inl e, g)
           | None \<Rightarrow> if saved then (Inr r, committed ((mg_model g)\<lparr>pm_rules := (pm_rules (mg_model g))[idx := r]\<rparr>) g)
                     else (Inl ErrPolicySave, g)))"
  by (cases saved) (simp_all add: update_rule_def Let_def save_locked_simps committed_def split: option.split)

lemma delete_rule_eq:
  "delete_rule rid saved g =
     (case rule_index (pm_rules (mg_model g)) rid of None \<Rightarrow> (Some ErrPolicyNotFound, g)
      | Some idx \<Rightarrow>
          if saved then (None, committed ((mg_model g)\<lparr>pm_rules :=
            renumber (take idx (pm_rules (mg_model g)) @ drop (Suc idx) (pm_rules (mg_model g)))\<rparr>) g)
          else (Some ErrPolicySave, g))"
  by (cases saved) (simp_all add: delete_rule_def Let_def save_locked_simps committed_def split: option.split)

lemma reorder_eq:
  "reorder ids saved g =
     (if length ids \<noteq> length (pm_rules (mg_model g)) then (Some ErrInvalidPolicy, g)
      else case reorder_loop (rules_by_id (pm_rules (mg_model g))) 0 ids [] of Inl e \<Rightarrow> (Some e, g)
      | Inr next \<Rightarrow> if saved then (None, committed ((mg_model g)\<lparr>pm_rules := next\<rparr>) g) else (Some ErrPolicySave, g))"
  by (cases saved) (simp_all add: reorder_def Let_def save_locked_simps committed_def split: sum.split)

lemma set_fallback_eq:
  "set_fallback f saved g =
     (case validate_fallback f of Some e \<Rightarrow> (Some e, g)
      | None \<Rightarrow> if saved then (None, committed ((mg_model g)\<lparr>pm_fallback := f\<rparr>) g) else (Some ErrPolicySave, g))"
  by (cases saved) (simp_all add: set_fallback_def Let_def save_locked_simps committed_def split: option.split)

lemmas policy_ops = add_rule_eq update_rule_eq delete_rule_eq reorder_eq set_fallback_eq

lemma rule_index_Some:
  "rule_index rs i = Some k \<Longrightarrow> k < length rs \<and> pr_id (rs ! k) = i"
  by (simp add: rule_index_def index_where_Some)

subsection \<open>Reordering\<close>

lemma reorder_loop_Inr:
  "reorder_loop m n ids acc = Inr out \<Longrightarrow> distinct (map fst m) \<Longrightarrow>
     distinct ids \<and> set ids \<subseteq> fst ` set m \<and>
     out = acc @ map2 (\<lambda>k i. (the (map_of m i))\<lparr>pr_order := int k\<rparr>) [n..<n + length ids] ids"
proof (induction m n ids acc rule: reorder_loop.induct)
  case (1 m n acc)
  then show ?case by simp
next
  case (2 m n i "is" acc)
  from "2.prems"(1) obtain r where r: "map_of m i = Some r"
    and loop: "reorder_loop (AList.delete i m) (Suc n) is (acc @ [r\<lparr>pr_order := int n\<rparr>]) = Inr out"
    by (auto split: option.splits)
  have IH: "distinct is" "set is \<subseteq> fst ` set (AList.delete i m)"
    "out = (acc @ [r\<lparr>pr_order := int n\<rparr>]) @
       map2 (\<lambda>k j. (the (map_of (AList.delete i m) j))\<lparr>pr_order := int k\<rparr>) [Suc n..<Suc n + length is] is"
    using "2.IH" [OF r loop] distinct_map_fst_delete [OF "2.prems"(2)] by blast+
  have ni: "i \<notin> set is" "set is \<subseteq> fst ` set m"
    using IH(2) by (auto simp: dom_map_of_conv_image_fst [symmetric])
  have "map2 (\<lambda>k j. (the (map_of (AList.delete i m) j))\<lparr>pr_order := int k\<rparr>) [Suc n..<Suc n + length is] is =
      map2 (\<lambda>k j. (the (map_of m j))\<lparr>pr_order := int k\<rparr>) [Suc n..<Suc n + length is] is"
    using ni(1) by (intro nth_equalityI) (auto simp: in_set_conv_nth)
  then have out: "out = acc @ r\<lparr>pr_order := int n\<rparr> #
      map2 (\<lambda>k j. (the (map_of m j))\<lparr>pr_order := int k\<rparr>) [Suc n..<Suc n + length is] is"
    using IH(3) by (simp only: append.assoc append.simps)
  have "i \<in> fst ` set m" using r by (metis map_of_eq_None_iff option.distinct(1))
  then show ?case
    unfolding out length_Cons upt_shift_Cons using IH(1) ni r by simp
qed

lemma reorder_loop_total:
  "distinct ids \<Longrightarrow> set ids \<subseteq> fst ` set m \<Longrightarrow> \<exists>out. reorder_loop m n ids acc = Inr out"
proof (induction m n ids acc rule: reorder_loop.induct)
  case (1 m n acc)
  then show ?case by simp
next
  case (2 m n i "is" acc)
  then obtain r where r: "map_of m i = Some r"
    by (metis list.set_intros(1) map_of_eq_None_iff not_Some_eq subset_code(1))
  have "set is \<subseteq> fst ` set (AList.delete i m)"
    using "2.prems" by (auto simp: dom_map_of_conv_image_fst [symmetric])
  with 2 r show ?case by simp
qed

lemma rules_by_id_fold:
  "map_of (fold (\<lambda>r m. AList.update (pr_id r) r m) rs m0) = map_of m0 ++ map_of (map (\<lambda>r. (pr_id r, r)) (rev rs))"
  by (induction rs rule: rev_induct) (simp_all add: map_add_upd_left fun_eq_iff map_add_def)

lemma rules_by_id:
  assumes "distinct (map pr_id rs)"
  shows "r \<in> set rs \<Longrightarrow> map_of (rules_by_id rs) (pr_id r) = Some r"
    and "fst ` set (rules_by_id rs) = pr_id ` set rs" "distinct (map fst (rules_by_id rs))"
proof -
  have dist: "distinct (map fst (fold (\<lambda>r m. AList.update (pr_id r) r m) rs m0))"
    if "distinct (map fst m0)" for m0 using that
    by (induction rs arbitrary: m0) (simp_all add: distinct_update)
  then show "distinct (map fst (rules_by_id rs))" by (simp add: rules_by_id_def)
  let ?kv = "map (\<lambda>r. (pr_id r, r)) (rev rs)"
  have m: "map_of (rules_by_id rs) = map_of ?kv" by (simp add: rules_by_id_def rules_by_id_fold)
  have "map fst ?kv = rev (map pr_id rs)" by (simp add: rev_map comp_def)
  then have d: "distinct (map fst ?kv)" using assms by (simp only: distinct_rev)
  show "r \<in> set rs \<Longrightarrow> map_of (rules_by_id rs) (pr_id r) = Some r"
    unfolding m by (rule map_of_is_SomeI [OF d]) simp
  have "fst ` set (rules_by_id rs) = dom (map_of ?kv)"
    by (simp only: dom_map_of_conv_image_fst [symmetric] m)
  then show "fst ` set (rules_by_id rs) = pr_id ` set rs"
    by (simp add: dom_map_of_conv_image_fst image_image)
qed

section \<open>Runs of the manager\<close>

text \<open>A fresh ID is a legal one that is not taken: eight random bytes in hex behind \<open>prule-\<close>.\<close>

definition fresh_id :: "string \<Rightarrow> policy_manager \<Rightarrow> bool" where
  "fresh_id i g \<longleftrightarrow> policy_id_re i \<and> i \<notin> set (map pr_id (pm_rules (mg_model g)))"

inductive pm_step :: "policy_manager \<Rightarrow> policy_manager \<Rightarrow> bool" where
  pm_add: "fresh_id i g \<Longrightarrow> pm_step g (snd (add_rule i saved r g))"
| pm_update: "pm_step g (snd (update_rule i saved r g))"
| pm_delete: "pm_step g (snd (delete_rule i saved g))"
| pm_reorder: "pm_step g (snd (reorder ids saved g))"
| pm_fallback: "pm_step g (snd (set_fallback f saved g))"

inductive_cases pm_stepE: "pm_step g g'"

definition model_ok :: "policy_model \<Rightarrow> bool" where
  "model_ok m \<longleftrightarrow> pm_version m = policy_schema_version \<and> validate_policy_model m = None"

definition pm_inv :: "policy_manager \<Rightarrow> bool" where
  "pm_inv g \<longleftrightarrow> model_ok (mg_model g) \<and> load_policy_model (mg_disk g) = Inr (mg_model g)"

lemma load_model_ok: "model_ok m \<Longrightarrow> load_policy_model (PolicyFile m) = Inr m"
  by (simp add: model_ok_def load_policy_model_def)

lemma load_gives_ok: "load_policy_model f = Inr m \<Longrightarrow> model_ok m"
proof -
  have "validate_policy_model \<lparr>pm_version = policy_schema_version, pm_rules = [], pm_fallback = FallbackAuto\<rparr> = None"
    by (simp add: validate_model_iff validate_fallback_def valid_fallback_policies_def)
  then show "load_policy_model f = Inr m \<Longrightarrow> model_ok m"
    by (auto simp: load_policy_model_def model_ok_def split: policy_file.splits if_splits option.splits)
qed

lemma pm_inv_new [keeps_inv]: "new_policy_rule_manager f = Inr g \<Longrightarrow> pm_inv g"
  by (auto simp: new_policy_rule_manager_def pm_inv_def load_gives_ok split: sum.splits)

lemma pm_inv_committed: "model_ok m \<Longrightarrow> pm_inv (committed m g)"
proof -
  assume ok: "model_ok m"
  then have "m\<lparr>pm_version := policy_schema_version\<rparr> = m" by (cases m) (simp add: model_ok_def)
  with ok show ?thesis by (simp add: pm_inv_def committed_def load_model_ok)
qed

lemma model_ok_iff:
  "model_ok m \<longleftrightarrow> pm_version m = policy_schema_version \<and> validate_fallback (pm_fallback m) = None \<and>
     rules_ok 0 (pm_rules m)"
  by (auto simp: model_ok_def validate_model_iff)

lemma rules_ok_append:
  "rules_ok n (rs @ [r]) \<longleftrightarrow> rules_ok n rs \<and> policy_id_re (pr_id r) \<and> pr_id r \<notin> set (map pr_id rs) \<and>
     pr_order r = int (n + length rs) \<and> validate_policy_rule r = None"
  by (induction rs arbitrary: n) auto

lemma rules_ok_update:
  assumes "rules_ok n rs" "k < length rs" "pr_id r = pr_id (rs ! k)" "pr_order r = pr_order (rs ! k)"
    "validate_policy_rule r = None"
  shows "rules_ok n (rs[k := r])"
proof -
  have "map pr_id (rs[k := r]) = map pr_id rs" "map pr_order (rs[k := r]) = map pr_order rs"
    using assms(2-4) by (simp_all add: map_update list_update_same_conv)
  then show ?thesis
    using assms by (simp add: rules_ok_def list_all_length nth_list_update)
qed

lemma rules_ok_delete:
  assumes "rules_ok 0 rs" shows "rules_ok 0 (renumber (take k rs @ drop (Suc k) rs))"
proof (rule rules_ok_renumber)
  have sub: "set (take k rs @ drop (Suc k) rs) \<subseteq> set rs" by (auto dest: in_set_takeD in_set_dropD)
  show "list_all (\<lambda>r. policy_id_re (pr_id r)) (take k rs @ drop (Suc k) rs)"
    "list_all (\<lambda>r. validate_policy_rule r = None) (take k rs @ drop (Suc k) rs)"
    using assms sub unfolding rules_ok_def list_all_iff by blast+
  have "distinct (map pr_id rs)" using assms by (simp add: rules_ok_def)
  then show "distinct (map pr_id (take k rs @ drop (Suc k) rs))"
    by (simp add: take_map [symmetric] drop_map [symmetric] set_take_disj_set_drop_if_distinct del: set_map)
qed

lemma reorder_loop_rules:
  assumes ok: "rules_ok 0 rs" and len: "length ids = length rs"
    and loop: "reorder_loop (rules_by_id rs) 0 ids [] = Inr out"
  shows "rules_ok 0 out \<and> map pr_id out = ids \<and> mset ids = mset (map pr_id rs)"
proof -
  have d: "distinct (map pr_id rs)" using ok by (simp add: rules_ok_def)
  let ?f = "\<lambda>i. the (map_of (rules_by_id rs) i)"
  from reorder_loop_Inr [OF loop rules_by_id(3) [OF d]] rules_by_id(2) [OF d]
  have ids: "distinct ids" "set ids \<subseteq> pr_id ` set rs"
    and out: "out = map2 (\<lambda>k i. (?f i)\<lparr>pr_order := int k\<rparr>) [0..<length ids] ids" by simp_all
  have f: "?f i \<in> set rs \<and> pr_id (?f i) = i" if "i \<in> set ids" for i
    using ids(2) that rules_by_id(1) [OF d] by fastforce
  have renum: "out = renumber (map ?f ids)"
    by (simp add: out renumber_def) (auto intro!: nth_equalityI)
  have idm: "map pr_id (map ?f ids) = ids" using f by (simp add: map_idI)
  have "rules_ok 0 out" unfolding renum
  proof (rule rules_ok_renumber)
    show "distinct (map pr_id (map ?f ids))" using idm ids(1) by metis
    show "list_all (\<lambda>r. policy_id_re (pr_id r)) (map ?f ids)"
      "list_all (\<lambda>r. validate_policy_rule r = None) (map ?f ids)"
      using ok f unfolding rules_ok_def list_all_iff set_map by (fastforce, fast)
  qed
  moreover have "map pr_id out = ids" unfolding renum using idm by (simp only: renumber_simps)
  moreover have "set ids = pr_id ` set rs"
  proof (rule card_subset_eq)
    show "card (set ids) = card (pr_id ` set rs)"
      using distinct_card [OF ids(1)] distinct_card [OF d] len by simp
  qed (use ids(2) in auto)
  then have "mset ids = mset (map pr_id rs)"
    using set_eq_iff_mset_eq_distinct [OF ids(1) d] by simp
  ultimately show ?thesis by blast
qed

lemma pm_inv_step [keeps_inv]:
  assumes "pm_step g g'" "pm_inv g"
  shows "pm_inv g'"
proof -
  have ok: "model_ok (mg_model g)" using assms(2) by (simp add: pm_inv_def)
  then have rok: "rules_ok 0 (pm_rules (mg_model g))" by (simp add: model_ok_iff)
  from assms(1) show ?thesis
  proof (cases rule: pm_step.cases)
    case (pm_add i saved r)
    then show ?thesis using assms(2) ok
      by (auto simp: add_rule_eq Let_def fresh_id_def model_ok_iff rules_ok_append
          intro!: pm_inv_committed split: option.split)
  next
    case (pm_update i saved r)
    then show ?thesis using assms(2) ok
      by (auto simp: update_rule_eq Let_def model_ok_iff dest!: rule_index_Some
          intro!: pm_inv_committed rules_ok_update split: option.split)
  next
    case (pm_delete i saved)
    then show ?thesis using assms(2) ok rules_ok_delete [OF rok]
      by (auto simp: delete_rule_eq model_ok_iff intro!: pm_inv_committed split: option.split)
  next
    case (pm_reorder ids saved)
    then show ?thesis using assms(2) ok reorder_loop_rules [OF rok]
      by (auto simp: reorder_eq model_ok_iff intro!: pm_inv_committed split: sum.split)
  next
    case (pm_fallback f saved)
    then show ?thesis using assms(2) ok
      by (auto simp: set_fallback_eq model_ok_iff intro!: pm_inv_committed split: option.split)
  qed
qed

lemma pm_inv_steps: "pm_step\<^sup>*\<^sup>* g g' \<Longrightarrow> pm_inv g \<Longrightarrow> pm_inv g'"
  by (induction rule: rtranclp_induct) (auto intro: keeps_inv)

text \<open>A step either changes nothing or commits one change.\<close>

lemma pm_step_change:
  assumes "pm_step g g'"
  obtains "g' = g" | m where "g' = committed m g"
  using assms by (cases rule: pm_step.cases) (auto simp: policy_ops Let_def split: option.splits sum.splits if_splits)

lemma pm_steps_revision:
  "(pm_step ^^ n) g g' \<Longrightarrow> \<exists>k\<le>n. mg_revision g' = mg_revision g + of_nat k \<and> (k = 0 \<longrightarrow> g' = g)"
proof (induction n arbitrary: g')
  case 0
  then show ?case by simp
next
  case (Suc n)
  then obtain h where h: "(pm_step ^^ n) g h" "pm_step h g'" by auto
  from Suc.IH [OF h(1)] obtain k where
    k: "k \<le> n" "mg_revision h = mg_revision g + of_nat k" "k = 0 \<longrightarrow> h = g" by blast
  from h(2) show ?case
  proof (cases rule: pm_step_change)
    case 1
    with k show ?thesis by (auto intro!: exI [of _ k])
  next
    case (2 m)
    with k show ?thesis by (intro exI [of _ "Suc k"]) (simp add: committed_def)
  qed
qed

section \<open>Properties\<close>

text \<open>C29: What the manager holds is always what a restart would load: after any sequence of edits,
  failed saves included, \<open>policy.json\<close> loads and yields exactly the in-memory model, and that
  model has path-safe distinct IDs, orders equal to positions, valid rules and a valid fallback.\<close>

theorem policy_restart_safe:
  assumes "new_policy_rule_manager f = Inr g0" "pm_step\<^sup>*\<^sup>* g0 g"
  shows "load_policy_model (mg_disk g) = Inr (mg_model g) \<and>
    distinct (map pr_id (pm_rules (mg_model g))) \<and>
    map pr_order (pm_rules (mg_model g)) = map int [0..<length (pm_rules (mg_model g))] \<and>
    (\<forall>r\<in>set (pm_rules (mg_model g)). policy_id_re (pr_id r) \<and> validate_policy_rule r = None) \<and>
    pm_fallback (mg_model g) \<in> {FallbackAuto, FallbackDirect, FallbackGateway}"
proof -
  have inv: "pm_inv g" using assms by (blast intro: pm_inv_new pm_inv_steps)
  then have ok: "model_ok (mg_model g)" by (simp add: pm_inv_def)
  have fb: "pm_fallback (mg_model g) \<in> {FallbackAuto, FallbackDirect, FallbackGateway}"
    using ok by (simp add: model_ok_iff validate_fallback_def valid_fallback_policies_def split: if_splits)
  have r: "rules_ok 0 (pm_rules (mg_model g))" using ok by (simp add: model_ok_iff)
  from inv fb r show ?thesis unfolding pm_inv_def rules_ok_def list_all_iff add_0 by blast
qed

definition ex_rule :: policy_rule where
  "ex_rule = \<lparr>pr_id = [], pr_order = 9, pr_matcher = \<lparr>mt_kind = KindDomain,
    mt_value = ''a.example'', mt_format = [], mt_interval = 0\<rparr>, pr_intent = IntentProxy, pr_enabled = True\<rparr>"

definition ex_manager :: policy_manager where
  "ex_manager = \<lparr>mg_model = \<lparr>pm_version = 1, pm_rules = [], pm_fallback = FallbackAuto\<rparr>, mg_revision = 1,
     mg_disk = PolicyMissing\<rparr>"

definition ex_manager1 :: policy_manager where
  "ex_manager1 = snd (add_rule ''prule-1'' True ex_rule ex_manager)"

lemma ex_manager_new: "new_policy_rule_manager PolicyMissing = Inr ex_manager"
  by (simp add: new_policy_rule_manager_def load_policy_model_def ex_manager_def policy_schema_version_def)

lemma ex_manager_step: "pm_step ex_manager ex_manager1"
proof -
  have "policy_id_re ''prule-1''" by code_simp
  then show ?thesis
    unfolding ex_manager1_def by (intro pm_add) (simp add: fresh_id_def ex_manager_def)
qed

lemma policy_restart_safe_witness:
  "length (pm_rules (mg_model ex_manager1)) = 1 \<and>
   load_policy_model (mg_disk ex_manager1) = Inr (mg_model ex_manager1)"
proof -
  have "load_policy_model (mg_disk ex_manager1) = Inr (mg_model ex_manager1)"
    using policy_restart_safe [OF ex_manager_new r_into_rtranclp [where r = pm_step, OF ex_manager_step]] by blast
  moreover have "length (pm_rules (mg_model ex_manager1)) = 1" by code_simp
  ultimately show ?thesis by simp
qed

text \<open>Every mutation is all or nothing: when it reports an error, for an invalid value, an
  unknown ID or a failed save, the manager (model, revision and file) is exactly what it was; when
  it reports success the save went through, the revision is one higher and the file holds the new
  model.\<close>

theorem policy_mutations_atomic:
  "(case add_rule i saved r g of
      (Inl e, g') \<Rightarrow> g' = g
    | (Inr q, g') \<Rightarrow> saved \<and> g' = committed ((mg_model g)\<lparr>pm_rules := pm_rules (mg_model g) @ [q]\<rparr>) g) \<and>
   (case update_rule i saved r g of
      (Inl e, g') \<Rightarrow> g' = g
    | (Inr q, g') \<Rightarrow> saved \<and> (\<exists>k<length (pm_rules (mg_model g)). pr_id (pm_rules (mg_model g) ! k) = i \<and>
         g' = committed ((mg_model g)\<lparr>pm_rules := (pm_rules (mg_model g))[k := q]\<rparr>) g)) \<and>
   (\<forall>p\<in>{delete_rule i saved g, reorder ids saved g, set_fallback f saved g}.
      (case p of (Some e, g') \<Rightarrow> g' = g | (None, g') \<Rightarrow> saved \<and> (\<exists>m. g' = committed m g)))"
proof (intro conjI ballI)
  fix p assume "p \<in> {delete_rule i saved g, reorder ids saved g, set_fallback f saved g}"
  then consider "p = delete_rule i saved g" | "p = reorder ids saved g" | "p = set_fallback f saved g" by blast
  then show "case p of (Some e, g') \<Rightarrow> g' = g | (None, g') \<Rightarrow> saved \<and> (\<exists>m. g' = committed m g)"
    by cases (auto simp only: delete_rule_eq reorder_eq set_fallback_eq split: option.splits sum.splits if_splits prod.splits)
qed (auto simp: policy_ops Let_def dest: rule_index_Some split: option.split)

lemma policy_mutations_atomic_witness:
  "fst (set_fallback (UnknownFallback ''x'') True ex_manager) = Some ErrInvalidPolicy \<and>
   snd (set_fallback (UnknownFallback ''x'') True ex_manager) = ex_manager"
proof -
  let ?p = "set_fallback (UnknownFallback ''x'') True ex_manager"
  have e: "fst ?p = Some ErrInvalidPolicy" by code_simp
  have "case ?p of (Some e, g') \<Rightarrow> g' = ex_manager | (None, g') \<Rightarrow> True \<and> (\<exists>m. g' = committed m ex_manager)"
    by (rule policy_mutations_atomic [THEN conjunct2, THEN conjunct2, THEN bspec]) blast
  with e show ?thesis by (simp add: case_prod_beta)
qed

text \<open>A reorder succeeds exactly when the given IDs are a rearrangement of the current rules' IDs
  and the save works; then the rules are the old ones in the asked order, renumbered from 0.\<close>

theorem reorder_spec:
  assumes "rules_ok 0 (pm_rules (mg_model g))"
  shows "(fst (reorder ids saved g) = None \<longleftrightarrow> saved \<and> mset ids = mset (map pr_id (pm_rules (mg_model g)))) \<and>
    (fst (reorder ids saved g) = None \<longrightarrow>
       map pr_id (pm_rules (mg_model (snd (reorder ids saved g)))) = ids \<and>
       rules_ok 0 (pm_rules (mg_model (snd (reorder ids saved g)))))"
proof -
  let ?rs = "pm_rules (mg_model g)"
  have d: "distinct (map pr_id ?rs)" using assms by (simp add: rules_ok_def)
  have tot: "\<exists>out. reorder_loop (rules_by_id ?rs) 0 ids [] = Inr out" if m: "mset ids = mset (map pr_id ?rs)"
  proof (rule reorder_loop_total)
    show "distinct ids" using d m mset_eq_imp_distinct_iff by blast
    show "set ids \<subseteq> fst ` set (rules_by_id ?rs)"
      using mset_eq_setD [OF m] rules_by_id(2) [OF d] by simp
  qed
  have len: "length ids = length ?rs" if "mset ids = mset (map pr_id ?rs)"
    using mset_eq_length [OF that] by simp
  have core: "saved \<and> length ids = length ?rs \<and>
     (\<exists>out. reorder_loop (rules_by_id ?rs) 0 ids [] = Inr out \<and>
        snd (reorder ids saved g) = committed ((mg_model g)\<lparr>pm_rules := out\<rparr>) g)"
    if "fst (reorder ids saved g) = None"
    using that by (auto simp: reorder_eq split: if_splits sum.splits)
  have iff: "fst (reorder ids saved g) = None \<longleftrightarrow> saved \<and> mset ids = mset (map pr_id ?rs)"
  proof
    assume "fst (reorder ids saved g) = None"
    from core [OF this] show "saved \<and> mset ids = mset (map pr_id ?rs)"
      using reorder_loop_rules [OF assms] by blast
  next
    assume a: "saved \<and> mset ids = mset (map pr_id ?rs)"
    with tot len obtain out where "reorder_loop (rules_by_id ?rs) 0 ids [] = Inr out"
      "length ids = length ?rs" by blast
    with a show "fst (reorder ids saved g) = None" by (simp add: reorder_eq)
  qed
  have "map pr_id (pm_rules (mg_model (snd (reorder ids saved g)))) = ids \<and>
     rules_ok 0 (pm_rules (mg_model (snd (reorder ids saved g))))"
    if n: "fst (reorder ids saved g) = None"
  proof -
    from core [OF n] obtain out where "length ids = length ?rs"
      "reorder_loop (rules_by_id ?rs) 0 ids [] = Inr out"
      "snd (reorder ids saved g) = committed ((mg_model g)\<lparr>pm_rules := out\<rparr>) g" by blast
    with reorder_loop_rules [OF assms] show ?thesis by (simp add: committed_def)
  qed
  with iff show ?thesis by blast
qed

lemma reorder_spec_witness:
  "fst (reorder [''prule-1''] True ex_manager1) = None \<and> fst (reorder [''x''] True ex_manager1) \<noteq> None"
proof -
  have inv: "pm_inv ex_manager1"
    by (rule pm_inv_step [OF ex_manager_step pm_inv_new [OF ex_manager_new]])
  have ids: "map pr_id (pm_rules (mg_model ex_manager1)) = [''prule-1'']" by code_simp
  show ?thesis
    using inv reorder_spec [of ex_manager1 "[''prule-1'']" True] reorder_spec [of ex_manager1 "[''x'']" True]
    unfolding ids by (simp add: pm_inv_def model_ok_iff)
qed

text \<open>The revision is a sound optimistic lock: when the apply that took a snapshot finds the same
  revision after fewer than \<open>2 ^ 64\<close> further operations, the model is still the one it compiled, so
  what it publishes is current.\<close>

theorem revision_lock_sound:
  assumes "(pm_step ^^ n) g g'" "n < 2 ^ 64" "commit_if_revision (snd (pm_snapshot g)) g' fn s = (None, s')"
  shows "mg_model g' = fst (pm_snapshot g) \<and> fn s = (None, s')"
proof -
  have rev: "mg_revision g' = mg_revision g" and fn: "fn s = (None, s')"
    using assms(3) by (auto simp: commit_if_revision_def pm_snapshot_def split: if_splits)
  obtain k where k: "k \<le> n" "mg_revision g' = mg_revision g + of_nat k" "k = 0 \<longrightarrow> g' = g"
    using pm_steps_revision [OF assms(1)] by blast
  have "(of_nat k :: u64) = 0" using k(2) rev by simp
  then have "2 ^ 64 dvd k" by (simp add: word_of_nat_eq_0_iff)
  then have "k = 0" using k(1) assms(2) by (metis dvd_imp_le le_less_trans not_less neq0_conv)
  with k fn show ?thesis by (simp add: pm_snapshot_def)
qed

lemma revision_lock_sound_witness:
  "mg_model ex_manager = fst (pm_snapshot ex_manager) \<and> fst (pm_snapshot ex_manager) \<noteq> mg_model ex_manager1 \<and>
   fst (commit_if_revision (snd (pm_snapshot ex_manager)) ex_manager1 (\<lambda>s. (None, s)) ()) = Some ErrPolicyRevisionChanged"
proof -
  have z: "(pm_step ^^ 0) ex_manager ex_manager" by simp
  have c: "commit_if_revision (snd (pm_snapshot ex_manager)) ex_manager (\<lambda>s. (None, s)) () = (None, ())"
    by (simp add: commit_if_revision_def pm_snapshot_def)
  have "mg_model ex_manager = fst (pm_snapshot ex_manager)"
    using revision_lock_sound [OF z _ c] by simp
  moreover have "fst (pm_snapshot ex_manager) \<noteq> mg_model ex_manager1 \<and>
    fst (commit_if_revision (snd (pm_snapshot ex_manager)) ex_manager1 (\<lambda>s. (None, s)) ()) =
      Some ErrPolicyRevisionChanged"
    by code_simp
  ultimately show ?thesis by blast
qed

end
