(* ===== verification/Policy_Runtime.thy ===== *)
theory Policy_Runtime
  imports Policy
begin

text \<open>
  \<open>policy_compile.go\<close> and the name classification of \<open>handler.go\<close>: the policy compiler, which
  derives the subscriptions to fetch and the ordered list of matchers, and the first-match walk.
  The cache files below the rules directory are a function \<open>files\<close> from category and base name
  to the file's content.
\<close>

section \<open>The compiler\<close>

record subscription =
  sb_id :: string
  sb_category :: string
  sb_name :: string
  sb_url :: string
  sb_format :: string
  sb_enabled :: bool
  sb_interval :: duration

datatype compile_error = CompileFallback | CompileRule string | CompileIntent string | CompileCache string

definition intent_category :: "intent \<Rightarrow> string option" where
  "intent_category i = (case i of
     IntentBlock \<Rightarrow> Some ''block'' | IntentDirect \<Rightarrow> Some ''direct'' | IntentProxy \<Rightarrow> Some ''proxy''
   | UnknownIntent s \<Rightarrow> None)"

definition dns_value :: "matcher_kind \<Rightarrow> string \<Rightarrow> string" where
  "dns_value k raw = (if k = KindDomainKeyword then to_lower (trim_space raw) else normalize_domain raw)"

definition provider_name :: "string \<Rightarrow> string" where
  "provider_name rule_id = ''pol_'' @ rule_id"

definition sub_of_rule :: "string \<Rightarrow> policy_rule \<Rightarrow> subscription" where
  "sub_of_rule cat r = \<lparr>sb_id = pr_id r, sb_category = cat, sb_name = provider_name (pr_id r),
     sb_url = mt_value (pr_matcher r), sb_format = mt_format (pr_matcher r), sb_enabled = True,
     sb_interval = mt_interval (pr_matcher r)\<rparr>"

fun compile_loop :: "policy_rule list \<Rightarrow> subscription list \<Rightarrow> compile_error + subscription list" where
  "compile_loop [] subs = Inr subs"
| "compile_loop (r # rs) subs =
     (if validate_policy_rule r \<noteq> None then Inl (CompileRule (pr_id r))
      else if \<not> pr_enabled r then compile_loop rs subs
      else if mt_kind (pr_matcher r) = KindSubscription then
        (case intent_category (pr_intent r) of
           None \<Rightarrow> Inl (CompileIntent (pr_id r))
         | Some cat \<Rightarrow> compile_loop rs (subs @ [sub_of_rule cat r]))
      else compile_loop rs subs)"

definition compile_policy :: "policy_model \<Rightarrow> compile_error + subscription list" where
  "compile_policy m =
     (if validate_fallback (pm_fallback m) \<noteq> None then Inl CompileFallback
      else compile_loop (sorted_rules (pm_rules m)) [])"

record runtime_rule =
  rt_id :: string
  rt_intent :: intent
  rt_matcher :: domain_set

record runtime_snapshot =
  rs_rules :: "runtime_rule list"
  rs_fallback :: fallback_policy

definition inline_set :: "matcher \<Rightarrow> domain_set" where
  "inline_set mm =
     (let value = dns_value (mt_kind mm) (mt_value mm) in
      case mt_kind mm of
        KindDomain \<Rightarrow> empty_domain_set\<lparr>ds_exact := [value]\<rparr>
      | KindDomainSuffix \<Rightarrow> empty_domain_set\<lparr>ds_suffix := [value]\<rparr>
      | KindDomainKeyword \<Rightarrow> empty_domain_set\<lparr>ds_keyword := [value]\<rparr>
      | _ \<Rightarrow> empty_domain_set)"

definition rule_set :: "(string \<Rightarrow> string \<Rightarrow> rule_file) \<Rightarrow> policy_rule \<Rightarrow> compile_error + domain_set" where
  "rule_set files r =
     (if mt_kind (pr_matcher r) = KindSubscription then
        (case intent_category (pr_intent r) of
           None \<Rightarrow> Inl (CompileIntent (pr_id r))
         | Some cat \<Rightarrow>
             (case load_domain_set [files cat (provider_name (pr_id r) @ ''.txt'')] of
                Inl e \<Rightarrow> Inl (CompileCache (pr_id r))
              | Inr ds \<Rightarrow> Inr ds))
      else Inr (inline_set (pr_matcher r)))"

fun runtime_loop ::
    "(string \<Rightarrow> string \<Rightarrow> rule_file) \<Rightarrow> policy_rule list \<Rightarrow> runtime_rule list \<Rightarrow> compile_error + runtime_rule list" where
  "runtime_loop files [] acc = Inr acc"
| "runtime_loop files (r # rs) acc =
     (if validate_policy_rule r \<noteq> None then Inl (CompileRule (pr_id r))
      else if \<not> pr_enabled r then runtime_loop files rs acc
      else case rule_set files r of
        Inl e \<Rightarrow> Inl e
      | Inr ds \<Rightarrow> runtime_loop files rs (acc @ [\<lparr>rt_id = pr_id r, rt_intent = pr_intent r, rt_matcher = ds\<rparr>]))"

definition compile_runtime_policy ::
    "policy_model \<Rightarrow> (string \<Rightarrow> string \<Rightarrow> rule_file) \<Rightarrow> compile_error + runtime_snapshot" where
  "compile_runtime_policy m files =
     (if validate_fallback (pm_fallback m) \<noteq> None then Inl CompileFallback
      else case runtime_loop files (sorted_rules (pm_rules m)) [] of
        Inl e \<Rightarrow> Inl e
      | Inr rs \<Rightarrow> Inr \<lparr>rs_rules = rs, rs_fallback = pm_fallback m\<rparr>)"

section \<open>Classification\<close>

record verdict =
  v_verdict :: string
  v_reason :: string

definition no_verdict :: verdict where
  "no_verdict = \<lparr>v_verdict = [], v_reason = []\<rparr>"

definition mk_verdict :: "string \<Rightarrow> string \<Rightarrow> verdict" where
  "mk_verdict v r = \<lparr>v_verdict = v, v_reason = r\<rparr>"

definition strip_dot :: "string \<Rightarrow> string" where
  "strip_dot s = (if s \<noteq> [] \<and> last s = dot then butlast s else s)"

text \<open>The loop of \<open>classifyPolicySnapshot\<close>; an unknown intent falls through to the next rule.\<close>

fun classify_loop :: "runtime_rule list \<Rightarrow> string \<Rightarrow> verdict" where
  "classify_loop [] bare = no_verdict"
| "classify_loop (r # rs) bare =
     (if \<not> ds_match (Some (rt_matcher r)) bare then classify_loop rs bare
      else case rt_intent r of
        IntentBlock \<Rightarrow> mk_verdict ''block'' ''block''
      | IntentDirect \<Rightarrow> mk_verdict ''direct'' ''force-direct''
      | IntentProxy \<Rightarrow> mk_verdict ''proxy'' ''force-proxy''
      | UnknownIntent s \<Rightarrow> classify_loop rs bare)"

definition classify_policy_snapshot :: "runtime_snapshot option \<Rightarrow> string \<Rightarrow> verdict" where
  "classify_policy_snapshot snap name =
     (case snap of None \<Rightarrow> no_verdict | Some s \<Rightarrow> classify_loop (rs_rules s) (strip_dot name))"

section \<open>First match\<close>

text \<open>What a rule covers, and what its intent decides.\<close>

definition rule_covers :: "(string \<Rightarrow> string \<Rightarrow> rule_file) \<Rightarrow> policy_rule \<Rightarrow> string \<Rightarrow> bool" where
  "rule_covers files r name \<longleftrightarrow>
     (case rule_set files r of Inl e \<Rightarrow> False | Inr ds \<Rightarrow> ds_match (Some ds) (strip_dot name))"

definition intent_verdict :: "intent \<Rightarrow> verdict" where
  "intent_verdict i = (case i of
     IntentBlock \<Rightarrow> mk_verdict ''block'' ''block''
   | IntentDirect \<Rightarrow> mk_verdict ''direct'' ''force-direct''
   | IntentProxy \<Rightarrow> mk_verdict ''proxy'' ''force-proxy''
   | UnknownIntent s \<Rightarrow> no_verdict)"

lemma valid_rule_intent: "validate_policy_rule r = None \<Longrightarrow> pr_intent r \<in> {IntentBlock, IntentDirect, IntentProxy}"
  by (auto simp: validate_policy_rule_def valid_intents_def split: if_splits)

lemma valid_rule_category: "validate_policy_rule r = None \<Longrightarrow> \<exists>c. intent_category (pr_intent r) = Some c"
  using valid_rule_intent [of r] by (auto simp: intent_category_def)

lemma classify_append_miss:
  "classify_loop acc bare = no_verdict \<Longrightarrow>
   classify_loop (acc @ rs) bare = classify_loop rs bare"
  by (induction acc bare rule: classify_loop.induct)
     (auto simp: no_verdict_def mk_verdict_def split: intent.splits if_splits)

lemma classify_append_hit:
  "classify_loop acc bare \<noteq> no_verdict \<Longrightarrow> classify_loop (acc @ rs) bare = classify_loop acc bare"
  by (induction acc bare rule: classify_loop.induct) (auto split: intent.splits if_splits)

lemma classify_append:
  "classify_loop (acc @ rs) bare =
     (if classify_loop acc bare = no_verdict then classify_loop rs bare else classify_loop acc bare)"
  by (simp add: classify_append_miss classify_append_hit)

lemma runtime_loop_first_match:
  "runtime_loop files rs acc = Inr out \<Longrightarrow>
   classify_loop out (strip_dot name) =
     (if classify_loop acc (strip_dot name) \<noteq> no_verdict then classify_loop acc (strip_dot name)
      else case List.find (\<lambda>r. pr_enabled r \<and> rule_covers files r name) rs of
        None \<Rightarrow> no_verdict | Some r \<Rightarrow> intent_verdict (pr_intent r))"
proof (induction files rs acc rule: runtime_loop.induct)
  case (1 files acc)
  then show ?case by simp
next
  case (2 files r rs acc)
  from "2.prems" have val: "validate_policy_rule r = None" by (auto split: if_splits)
  show ?case
  proof (cases "pr_enabled r")
    case False
    with 2 val show ?thesis by simp
  next
    case True
    with "2.prems" val obtain ds where ds: "rule_set files r = Inr ds"
      by (auto split: sum.splits)
    let ?new = "\<lparr>rt_id = pr_id r, rt_intent = pr_intent r, rt_matcher = ds\<rparr>"
    have IH: "classify_loop out (strip_dot name) =
       (if classify_loop (acc @ [?new]) (strip_dot name) \<noteq> no_verdict
        then classify_loop (acc @ [?new]) (strip_dot name)
        else case List.find (\<lambda>r. pr_enabled r \<and> rule_covers files r name) rs of
          None \<Rightarrow> no_verdict | Some r \<Rightarrow> intent_verdict (pr_intent r))"
      by (rule "2.IH"(2)) (use "2.prems" val True ds in auto)
    have one: "classify_loop [?new] (strip_dot name) =
        (if rule_covers files r name then intent_verdict (pr_intent r) else no_verdict)"
      using valid_rule_intent [OF val] by (auto simp: rule_covers_def ds intent_verdict_def)
    have hit: "intent_verdict (pr_intent r) \<noteq> no_verdict"
      using valid_rule_intent [OF val] by (auto simp: intent_verdict_def mk_verdict_def no_verdict_def)
    show ?thesis
      unfolding IH classify_append one using True hit by (cases "rule_covers files r name") simp_all
  qed
qed

lemma runtime_loop_total:
  "(\<forall>r\<in>set rs. validate_policy_rule r = None) \<Longrightarrow>
   (\<forall>c n. \<exists>ds. load_domain_set [files c n] = Inr ds) \<Longrightarrow> \<exists>out. runtime_loop files rs acc = Inr out"
proof (induction files rs acc rule: runtime_loop.induct)
  case (1 files acc)
  then show ?case by simp
next
  case (2 files r rs acc)
  have val: "validate_policy_rule r = None" using "2.prems"(1) by simp
  obtain c where c: "intent_category (pr_intent r) = Some c" using valid_rule_category [OF val] by blast
  obtain ds where "load_domain_set [files c (provider_name (pr_id r) @ ''.txt'')] = Inr ds"
    using "2.prems"(2) by blast
  with c have "\<exists>d. rule_set files r = Inr d" by (simp add: rule_set_def)
  with 2 val show ?case by (cases "pr_enabled r") (auto split: sum.split)
qed

section \<open>Properties\<close>

text \<open>C6: Policy evaluation is global first match: the compiled snapshot classifies a name by the
  intent of the first enabled rule, in evaluation order across all intents, that covers the name,
  and leaves it undecided when none does.\<close>

theorem policy_first_match:
  assumes "compile_runtime_policy m files = Inr snap"
  shows "classify_policy_snapshot (Some snap) name =
    (case List.find (\<lambda>r. pr_enabled r \<and> rule_covers files r name) (sorted_rules (pm_rules m)) of
       None \<Rightarrow> no_verdict | Some r \<Rightarrow> intent_verdict (pr_intent r)) \<and>
    rs_fallback snap = pm_fallback m"
proof -
  obtain out where out: "runtime_loop files (sorted_rules (pm_rules m)) [] = Inr out"
    and snap: "snap = \<lparr>rs_rules = out, rs_fallback = pm_fallback m\<rparr>"
    using assms by (auto simp: compile_runtime_policy_def split: if_splits sum.splits)
  show ?thesis
    using runtime_loop_first_match [OF out, of name] by (simp add: snap classify_policy_snapshot_def)
qed

lemma policy_first_match_witness:
  "let m = \<lparr>pm_version = 1, pm_rules =
        [ex_rule\<lparr>pr_id := ''r0'', pr_order := 1, pr_intent := IntentBlock\<rparr>,
         ex_rule\<lparr>pr_id := ''r1'', pr_order := 0\<rparr>], pm_fallback = FallbackAuto\<rparr>
   in \<exists>snap. compile_runtime_policy m (\<lambda>c n. FileMissing) = Inr snap \<and>
        classify_policy_snapshot (Some snap) ''A.example.'' = mk_verdict ''proxy'' ''force-proxy''"
proof -
  define m where "m = \<lparr>pm_version = 1, pm_rules =
        [ex_rule\<lparr>pr_id := ''r0'', pr_order := 1, pr_intent := IntentBlock\<rparr>,
         ex_rule\<lparr>pr_id := ''r1'', pr_order := 0\<rparr>], pm_fallback = FallbackAuto\<rparr>"
  have "\<not> isl (compile_runtime_policy m (\<lambda>c n. FileMissing))" unfolding m_def by code_simp
  then obtain snap where s: "compile_runtime_policy m (\<lambda>c n. FileMissing) = Inr snap"
    by (metis sum.collapse(2))
  have "(case List.find (\<lambda>r. pr_enabled r \<and> rule_covers (\<lambda>c n. FileMissing) r ''A.example.'')
      (sorted_rules (pm_rules m)) of None \<Rightarrow> no_verdict | Some r \<Rightarrow> intent_verdict (pr_intent r)) =
      mk_verdict ''proxy'' ''force-proxy''"
    unfolding m_def by code_simp
  then have "classify_policy_snapshot (Some snap) ''A.example.'' = mk_verdict ''proxy'' ''force-proxy''"
    using policy_first_match [OF s, of "''A.example.''"] by simp
  with s show ?thesis unfolding Let_def m_def [symmetric] by blast
qed

text \<open>Compilation never fails on a model the manager accepted, unless a subscription's cache file
  is there and unreadable: both compiler entry points return a result, and the fetch list is the
  enabled subscription rules in evaluation order.\<close>

theorem compile_total:
  assumes "model_ok m" "\<forall>c n. \<exists>ds. load_domain_set [files c n] = Inr ds"
  shows "(\<exists>snap. compile_runtime_policy m files = Inr snap) \<and>
    compile_policy m = Inr (map (\<lambda>r. sub_of_rule (the (intent_category (pr_intent r))) r)
      (filter (\<lambda>r. pr_enabled r \<and> mt_kind (pr_matcher r) = KindSubscription) (sorted_rules (pm_rules m))))"
proof -
  have fb: "validate_fallback (pm_fallback m) = None" using assms(1) by (simp add: model_ok_iff)
  have val: "\<forall>r\<in>set (sorted_rules (pm_rules m)). validate_policy_rule r = None"
    using assms(1) by (simp add: model_ok_iff rules_ok_def list_all_iff sorted_rules_def)
  obtain out where "runtime_loop files (sorted_rules (pm_rules m)) [] = Inr out"
    using runtime_loop_total [OF val assms(2)] by blast
  then have rt: "\<exists>snap. compile_runtime_policy m files = Inr snap"
    using fb by (simp add: compile_runtime_policy_def)
  have "compile_loop rs subs = Inr (subs @ map (\<lambda>r. sub_of_rule (the (intent_category (pr_intent r))) r)
      (filter (\<lambda>r. pr_enabled r \<and> mt_kind (pr_matcher r) = KindSubscription) rs))"
    if "\<forall>r\<in>set rs. validate_policy_rule r = None" for rs subs
    using that
  proof (induction rs arbitrary: subs)
    case Nil
    then show ?case by simp
  next
    case (Cons r rs)
    then obtain c where "intent_category (pr_intent r) = Some c" using valid_rule_category [of r] by auto
    with Cons show ?case by simp
  qed
  with val fb rt show ?thesis by (simp add: compile_policy_def)
qed

lemma compile_total_witness:
  "\<exists>snap. compile_runtime_policy (mg_model ex_manager1) (\<lambda>c n. FileMissing) = Inr snap"
proof -
  have "model_ok (mg_model ex_manager1)"
    using pm_inv_step [OF ex_manager_step pm_inv_new [OF ex_manager_new]] by (simp add: pm_inv_def)
  moreover have "\<forall>c n. \<exists>ds. load_domain_set [FileMissing] = Inr ds"
    by (simp add: load_domain_set_def load_suffix_file_def)
  ultimately show ?thesis using compile_total [of "mg_model ex_manager1" "\<lambda>c n. FileMissing"] by simp
qed

text \<open>An inline rule covers exactly what its kind says: a domain rule one name, a suffix rule the
  name and its subdomains, a keyword rule the names that contain the keyword, letter case and
  trailing dots aside.\<close>

theorem inline_rule_covers:
  fixes name :: string
  defines "n \<equiv> to_lower (trim_right_dots (strip_dot name))"
  assumes "mt_kind (pr_matcher r) \<noteq> KindSubscription"
  shows "rule_covers files r name \<longleftrightarrow> n \<noteq> [] \<and>
    (case mt_kind (pr_matcher r) of
       KindDomain \<Rightarrow> n = normalize_domain (mt_value (pr_matcher r))
     | KindDomainSuffix \<Rightarrow> n = normalize_domain (mt_value (pr_matcher r)) \<or>
         (\<exists>p. n = p @ dot # normalize_domain (mt_value (pr_matcher r)))
     | KindDomainKeyword \<Rightarrow> \<exists>a b. n = a @ to_lower (trim_space (mt_value (pr_matcher r))) @ b
     | _ \<Rightarrow> False)"
  using assms(2)
  by (cases "mt_kind (pr_matcher r)")
     (simp_all add: rule_covers_def rule_set_def inline_set_def dns_value_def ds_match_spec n_def Let_def
       empty_domain_set_def)

lemma inline_rule_covers_witness:
  "rule_covers (\<lambda>c n. FileMissing) ex_rule ''A.EXAMPLE.'' \<and> \<not> rule_covers (\<lambda>c n. FileMissing) ex_rule ''b.a.example''"
proof -
  have k: "mt_kind (pr_matcher ex_rule) = KindDomain" by (simp add: ex_rule_def)
  then have ns: "mt_kind (pr_matcher ex_rule) \<noteq> KindSubscription" by simp
  have "to_lower (trim_right_dots (strip_dot ''A.EXAMPLE.'')) = normalize_domain (mt_value (pr_matcher ex_rule)) \<and>
    to_lower (trim_right_dots (strip_dot ''b.a.example'')) \<noteq> normalize_domain (mt_value (pr_matcher ex_rule)) \<and>
    normalize_domain (mt_value (pr_matcher ex_rule)) \<noteq> []" by code_simp
  then show ?thesis unfolding inline_rule_covers [OF ns] k by (simp only: matcher_kind.case simp_thms)
qed

text \<open>A blank keyword slips through validation and covers every name: the store only refuses the
  empty string, while the compiler trims the value, so a rule whose keyword is a single space
  matches each non-empty name.\<close>

theorem blank_keyword_covers_all:
  assumes "to_lower (trim_right_dots (strip_dot name)) \<noteq> []"
  shows "let r = ex_rule\<lparr>pr_matcher := \<lparr>mt_kind = KindDomainKeyword, mt_value = '' '', mt_format = [], mt_interval = 0\<rparr>\<rparr>
    in validate_policy_rule r = None \<and> rule_covers files r name"
proof -
  define r where "r = ex_rule\<lparr>pr_matcher := \<lparr>mt_kind = KindDomainKeyword, mt_value = '' '', mt_format = [], mt_interval = 0\<rparr>\<rparr>"
  have v: "validate_policy_rule r = None" unfolding r_def by code_simp
  have e: "to_lower (trim_space '' '') = []" by code_simp
  have "rule_covers files r name"
    using assms e unfolding rule_covers_def rule_set_def
    by (simp add: r_def inline_set_def dns_value_def ds_match_spec Let_def empty_domain_set_def)
      (metis append.left_neutral)
  with v show ?thesis by (simp add: r_def [symmetric])
qed

lemma blank_keyword_covers_all_witness:
  "validate_policy_rule (ex_rule\<lparr>pr_matcher := \<lparr>mt_kind = KindDomainKeyword, mt_value = '' '', mt_format = [], mt_interval = 0\<rparr>\<rparr>) = None \<and>
   rule_covers (\<lambda>c n. FileMissing)
     (ex_rule\<lparr>pr_matcher := \<lparr>mt_kind = KindDomainKeyword, mt_value = '' '', mt_format = [], mt_interval = 0\<rparr>\<rparr>) ''x.''"
proof -
  have "to_lower (trim_right_dots (strip_dot ''x.'')) \<noteq> []" by code_simp
  from blank_keyword_covers_all [OF this, of "\<lambda>c n. FileMissing"] show ?thesis by (simp only: Let_def)
qed

end
