(* ===== verification/Policy_Publish.thy ===== *)
theory Policy_Publish
  imports Policy_Runtime
begin

text \<open>
  Publication of the ordered policy in \<open>handler.go\<close>: \<open>publishPreparedPolicy\<close> stores the plan and
  then the snapshot, \<open>refreshOrderedPolicy\<close> (run by a SIGHUP or subscription reload, without the
  apply lock) loads the plan, compiles it, compares the plan pointer and stores the snapshot. The
  atomic loads and stores are separate steps, so the interleavings of one publisher, which holds
  the apply lock, with any number of refreshers are all there. A pointer is a number; a published
  snapshot carries the number of the plan it was compiled from. The response cache, which both
  operations flush, is treated with the query path.
\<close>

datatype refresher =
    Loaded nat policy_model
  | Compiled nat runtime_snapshot
  | Passed nat runtime_snapshot

record publication =
  pb_plan :: "(nat \<times> policy_model) option"
  pb_policy :: "(nat \<times> runtime_snapshot) option"
  pb_next :: nat
  pb_publisher :: "(nat \<times> runtime_snapshot) option"
  pb_refreshers :: "refresher list"

definition no_publication :: publication where
  "no_publication = \<lparr>pb_plan = None, pb_policy = None, pb_next = 0, pb_publisher = None, pb_refreshers = []\<rparr>"

definition plan_is :: "publication \<Rightarrow> nat \<Rightarrow> bool" where
  "plan_is s i \<longleftrightarrow> (case pb_plan s of None \<Rightarrow> False | Some (j, m) \<Rightarrow> i = j)"

section \<open>The operations, store by store\<close>

definition publish_plan :: "policy_model \<Rightarrow> runtime_snapshot \<Rightarrow> publication \<Rightarrow> publication" where
  "publish_plan m snap s = s\<lparr>pb_plan := Some (pb_next s, m), pb_publisher := Some (pb_next s, snap),
     pb_next := Suc (pb_next s)\<rparr>"

definition publish_policy :: "nat \<Rightarrow> runtime_snapshot \<Rightarrow> publication \<Rightarrow> publication" where
  "publish_policy i snap s = s\<lparr>pb_policy := Some (i, snap), pb_publisher := None\<rparr>"

text \<open>One step of a refresher in state \<open>r\<close>: what becomes of it and of the shared state.\<close>

definition refresh_step ::
    "(string \<Rightarrow> string \<Rightarrow> rule_file) \<Rightarrow> refresher \<Rightarrow> publication \<Rightarrow> refresher option \<times> publication" where
  "refresh_step files r s = (case r of
     Loaded i m \<Rightarrow> (case compile_runtime_policy m files of Inl e \<Rightarrow> (None, s) | Inr snap \<Rightarrow> (Some (Compiled i snap), s))
   | Compiled i snap \<Rightarrow> (if plan_is s i then (Some (Passed i snap), s) else (None, s))
   | Passed i snap \<Rightarrow> (None, s\<lparr>pb_policy := Some (i, snap)\<rparr>))"

inductive publish_step :: "publication \<Rightarrow> publication \<Rightarrow> bool" where
  ps_plan: "pb_publisher s = None \<Longrightarrow> compile_runtime_policy m files = Inr snap \<Longrightarrow>
     publish_step s (publish_plan m snap s)"
| ps_policy: "pb_publisher s = Some (i, snap) \<Longrightarrow> publish_step s (publish_policy i snap s)"
| ps_load: "pb_plan s = Some (i, m) \<Longrightarrow>
     publish_step s (s\<lparr>pb_refreshers := Loaded i m # pb_refreshers s\<rparr>)"
| ps_refresh: "pb_refreshers s = xs @ r # ys \<Longrightarrow> refresh_step files r s = (r', s') \<Longrightarrow>
     publish_step s (s'\<lparr>pb_refreshers := xs @ (case r' of None \<Rightarrow> [] | Some q \<Rightarrow> [q]) @ ys\<rparr>)"

inductive_cases publish_stepE: "publish_step s s'"

text \<open>The runs the comparison is meant to allow: no plan is stored between a refresher's successful
  comparison and its store.\<close>

definition guarded_step :: "publication \<Rightarrow> publication \<Rightarrow> bool" where
  "guarded_step s s' \<longleftrightarrow> publish_step s s' \<and>
     (pb_plan s' \<noteq> pb_plan s \<longrightarrow> (\<forall>i snap. Passed i snap \<notin> set (pb_refreshers s)))"

section \<open>Invariant\<close>

definition compiled_from :: "policy_model \<Rightarrow> runtime_snapshot \<Rightarrow> bool" where
  "compiled_from m snap \<longleftrightarrow> (\<exists>files. compile_runtime_policy m files = Inr snap)"

text \<open>A pointer determines its plan: what is held under the current plan's number comes from it.\<close>

definition from_plan :: "publication \<Rightarrow> nat \<Rightarrow> (policy_model \<Rightarrow> bool) \<Rightarrow> bool" where
  "from_plan s i P \<longleftrightarrow> i < pb_next s \<and> (\<forall>m. pb_plan s = Some (i, m) \<longrightarrow> P m)"

definition refresher_ok :: "publication \<Rightarrow> refresher \<Rightarrow> bool" where
  "refresher_ok s r = (case r of
     Loaded i m \<Rightarrow> from_plan s i (\<lambda>m'. m' = m)
   | Compiled i snap \<Rightarrow> from_plan s i (\<lambda>m. compiled_from m snap)
   | Passed i snap \<Rightarrow> from_plan s i (\<lambda>m. compiled_from m snap) \<and> plan_is s i)"

definition pub_inv :: "publication \<Rightarrow> bool" where
  "pub_inv s \<longleftrightarrow> (\<forall>r\<in>set (pb_refreshers s). refresher_ok s r) \<and>
     (\<forall>i m. pb_plan s = Some (i, m) \<longrightarrow> i < pb_next s) \<and>
     (\<forall>i snap. pb_publisher s = Some (i, snap) \<longrightarrow> plan_is s i \<and> from_plan s i (\<lambda>m. compiled_from m snap)) \<and>
     (\<forall>i snap. pb_policy s = Some (i, snap) \<longrightarrow> from_plan s i (\<lambda>m. compiled_from m snap) \<and>
        (pb_publisher s = None \<longrightarrow> plan_is s i))"

lemma pub_inv_start [keeps_inv]: "pub_inv no_publication"
  by (simp add: pub_inv_def no_publication_def)

lemma pub_inv_plan:
  assumes "pub_inv s" "compile_runtime_policy m files = Inr snap" "\<forall>i q. Passed i q \<notin> set (pb_refreshers s)"
  shows "pub_inv (publish_plan m snap s)"
proof -
  have "refresher_ok (publish_plan m snap s) r" if "r \<in> set (pb_refreshers s)" for r
    using that assms by (auto simp: pub_inv_def refresher_ok_def publish_plan_def from_plan_def split: refresher.splits)
  moreover have "compiled_from m snap" using assms(2) by (auto simp: compiled_from_def)
  ultimately show ?thesis
    using assms(1) by (auto simp: pub_inv_def publish_plan_def from_plan_def plan_is_def)
qed

lemma refresher_ok_same:
  "pb_plan s' = pb_plan s \<Longrightarrow> pb_next s' = pb_next s \<Longrightarrow> refresher_ok s' r = refresher_ok s r"
  by (cases r) (simp_all add: refresher_ok_def from_plan_def plan_is_def)

lemma pub_inv_step:
  assumes "guarded_step s s'" "pub_inv s"
  shows "pub_inv s'"
proof -
  from assms(1) have step: "publish_step s s'"
    and guard: "pb_plan s' \<noteq> pb_plan s \<longrightarrow> (\<forall>i snap. Passed i snap \<notin> set (pb_refreshers s))"
    by (auto simp: guarded_step_def)
  from step show ?thesis
  proof (cases rule: publish_step.cases)
    case (ps_plan m files snap)
    have "pb_plan s' \<noteq> pb_plan s"
    proof
      assume "pb_plan s' = pb_plan s"
      then have "pb_plan s = Some (pb_next s, m)" by (simp add: ps_plan publish_plan_def)
      with assms(2) show False unfolding pub_inv_def by blast
    qed
    with guard ps_plan assms(2) show ?thesis by (auto intro: pub_inv_plan)
  next
    case (ps_policy i snap)
    then have "refresher_ok s' r = refresher_ok s r" for r
      by (intro refresher_ok_same) (simp_all add: publish_policy_def)
    with ps_policy assms(2) show ?thesis
      by (auto simp: pub_inv_def publish_policy_def from_plan_def plan_is_def)
  next
    case (ps_load i m)
    then have "refresher_ok s' r = refresher_ok s r" for r by (intro refresher_ok_same) simp_all
    moreover have "refresher_ok s (Loaded i m)"
      using ps_load assms(2) by (auto simp: pub_inv_def refresher_ok_def from_plan_def)
    ultimately show ?thesis
      using ps_load assms(2) by (auto simp: pub_inv_def from_plan_def plan_is_def)
  next
    case (ps_refresh xs r ys files r' t)
    have okr: "refresher_ok s r" using ps_refresh(2) assms(2) by (auto simp: pub_inv_def)
    have same: "pb_plan t = pb_plan s" "pb_next t = pb_next s" "pb_publisher t = pb_publisher s"
      using ps_refresh(3) by (auto simp: refresh_step_def split: refresher.splits sum.splits if_splits)
    then have eq: "refresher_ok s' q = refresher_ok s q" for q
      by (intro refresher_ok_same) (simp_all add: ps_refresh(1))
    have new: "r' = Some q \<Longrightarrow> refresher_ok s q" for q
      using okr ps_refresh(3)
      by (auto simp: refresh_step_def refresher_ok_def from_plan_def compiled_from_def
          split: refresher.splits sum.splits if_splits)
    have "pb_policy s' = pb_policy s \<or> (\<exists>i snap. r = Passed i snap \<and> pb_policy s' = Some (i, snap))"
      using ps_refresh(1,3) by (auto simp: refresh_step_def split: refresher.splits sum.splits if_splits)
    then have "from_plan s i (\<lambda>m. compiled_from m snap) \<and> (pb_publisher s = None \<longrightarrow> plan_is s i)"
      if "pb_policy s' = Some (i, snap)" for i snap using that
    proof (elim disjE exE conjE)
      assume "pb_policy s' = Some (i, snap)" "pb_policy s' = pb_policy s"
      with assms(2) show ?thesis unfolding pub_inv_def by metis
    next
      fix j q assume "pb_policy s' = Some (i, snap)" "r = Passed j q" "pb_policy s' = Some (j, q)"
      with okr show ?thesis by (simp add: refresher_ok_def)
    qed
    moreover have "\<forall>q\<in>set (pb_refreshers s'). refresher_ok s q"
      using ps_refresh(1,2) new assms(2) by (auto simp: pub_inv_def split: option.splits)
    ultimately show ?thesis
      using assms(2) same eq by (simp add: ps_refresh(1) pub_inv_def from_plan_def plan_is_def)
  qed
qed

lemma pub_inv_steps: "guarded_step\<^sup>*\<^sup>* s s' \<Longrightarrow> pub_inv s \<Longrightarrow> pub_inv s'"
  by (induction rule: rtranclp_induct) (auto intro: pub_inv_step)

section \<open>Properties\<close>

text \<open>As long as no plan is stored between a refresher's pointer comparison and its store, the
  live snapshot is always one compiled from the current plan: whenever no publication is half done,
  however many refreshes are in flight, old and slow ones included.\<close>

theorem guarded_refresh_current:
  assumes "guarded_step\<^sup>*\<^sup>* no_publication s" "pb_publisher s = None"
    "pb_policy s = Some (j, snap)"
  shows "\<exists>m files. pb_plan s = Some (j, m) \<and> compile_runtime_policy m files = Inr snap"
proof -
  have "pub_inv s" using pub_inv_steps [OF assms(1) pub_inv_start] .
  with assms(2,3) have "plan_is s j" "from_plan s j (\<lambda>m. compiled_from m snap)" by (auto simp: pub_inv_def)
  then show ?thesis by (auto simp: plan_is_def from_plan_def compiled_from_def split: option.splits)
qed

definition ex_plan :: "fallback_policy \<Rightarrow> policy_model" where
  "ex_plan f = \<lparr>pm_version = 1, pm_rules = [], pm_fallback = f\<rparr>"

definition ex_snap :: "fallback_policy \<Rightarrow> runtime_snapshot" where
  "ex_snap f = \<lparr>rs_rules = [], rs_fallback = f\<rparr>"

lemma ex_compile: "f \<in> set valid_fallback_policies \<Longrightarrow> compile_runtime_policy (ex_plan f) files = Inr (ex_snap f)"
  by (simp add: compile_runtime_policy_def validate_fallback_def ex_plan_def ex_snap_def sorted_rules_def)

definition ex_published :: publication where
  "ex_published = \<lparr>pb_plan = Some (0, ex_plan FallbackAuto), pb_policy = Some (0, ex_snap FallbackAuto), pb_next = 1,
     pb_publisher = None, pb_refreshers = []\<rparr>"

lemma ex_published_run: "guarded_step\<^sup>*\<^sup>* no_publication ex_published"
proof -
  have c: "compile_runtime_policy (ex_plan FallbackAuto) (\<lambda>c n. FileMissing) = Inr (ex_snap FallbackAuto)"
    by (rule ex_compile) (simp add: valid_fallback_policies_def)
  let ?s1 = "publish_plan (ex_plan FallbackAuto) (ex_snap FallbackAuto) no_publication"
  have 1: "guarded_step no_publication ?s1"
    using ps_plan [OF _ c, of no_publication] by (simp add: guarded_step_def no_publication_def)
  have "publish_step ?s1 (publish_policy 0 (ex_snap FallbackAuto) ?s1)"
    by (rule ps_policy) (simp add: publish_plan_def no_publication_def)
  then have 2: "guarded_step ?s1 ex_published"
    by (simp add: guarded_step_def publish_policy_def publish_plan_def no_publication_def ex_published_def)
  from 1 2 show ?thesis by (meson converse_rtranclp_into_rtranclp r_into_rtranclp)
qed

lemma guarded_refresh_current_witness:
  "\<exists>m files. pb_plan ex_published = Some (0, m) \<and> compile_runtime_policy m files = Inr (ex_snap FallbackAuto)"
  by (rule guarded_refresh_current [OF ex_published_run]) (simp_all add: ex_published_def)

text \<open>The pointer comparison alone does not give that: comparison and store are two steps, so an
  apply that runs between them is overwritten. There is a run that ends with nothing in flight, the
  plan of the second apply current and the first plan's snapshot live.\<close>

theorem stale_refresh_overwrites:
  "\<exists>s. publish_step\<^sup>*\<^sup>* no_publication s \<and> pb_publisher s = None \<and> pb_refreshers s = [] \<and>
     pb_plan s = Some (1, ex_plan FallbackDirect) \<and> pb_policy s = Some (0, ex_snap FallbackAuto)"
proof -
  have run0: "publish_step\<^sup>*\<^sup>* no_publication ex_published"
    using ex_published_run by (rule rtranclp_mono [THEN predicate2D, rotated]) (auto simp: guarded_step_def)
  have c: "compile_runtime_policy (ex_plan f) (\<lambda>c n. FileMissing) = Inr (ex_snap f)"
    if "f \<in> {FallbackAuto, FallbackDirect}" for f
    by (rule ex_compile) (use that in \<open>auto simp: valid_fallback_policies_def\<close>)
  let ?a = "ex_snap FallbackAuto"
  define s1 where "s1 = ex_published\<lparr>pb_refreshers := [Loaded 0 (ex_plan FallbackAuto)]\<rparr>"
  define s2 where "s2 = s1\<lparr>pb_refreshers := [Compiled 0 ?a]\<rparr>"
  define s3 where "s3 = s2\<lparr>pb_refreshers := [Passed 0 ?a]\<rparr>"
  define s4 where "s4 = publish_plan (ex_plan FallbackDirect) (ex_snap FallbackDirect) s3"
  define s5 where "s5 = publish_policy 1 (ex_snap FallbackDirect) s4"
  define s6 where "s6 = s5\<lparr>pb_policy := Some (0, ?a), pb_refreshers := []\<rparr>"
  note defs = s1_def s2_def s3_def s4_def s5_def s6_def ex_published_def publish_plan_def publish_policy_def
  have "publish_step ex_published s1"
    using ps_load [of ex_published 0 "ex_plan FallbackAuto"] by (simp add: s1_def ex_published_def)
  moreover have "publish_step s1 s2"
    using ps_refresh [of s1 "[]" "Loaded 0 (ex_plan FallbackAuto)" "[]" "\<lambda>c n. FileMissing" "Some (Compiled 0 ?a)" s1]
    by (simp add: refresh_step_def c defs)
  moreover have "publish_step s2 s3"
    using ps_refresh [of s2 "[]" "Compiled 0 ?a" "[]" "\<lambda>c n. FileMissing" "Some (Passed 0 ?a)" s2]
    by (simp add: refresh_step_def plan_is_def defs)
  moreover have "publish_step s3 s4"
    unfolding s4_def by (rule ps_plan [OF _ c]) (simp_all add: defs)
  moreover have "publish_step s4 s5"
    unfolding s5_def by (rule ps_policy) (simp add: defs)
  moreover have "publish_step s5 s6"
    using ps_refresh [of s5 "[]" "Passed 0 ?a" "[]" "\<lambda>c n. FileMissing" None "s5\<lparr>pb_policy := Some (0, ?a)\<rparr>"]
    by (simp add: refresh_step_def defs)
  ultimately have "publish_step\<^sup>*\<^sup>* no_publication s6"
    using run0 by (meson rtranclp.rtrancl_into_rtrancl)
  moreover have "pb_publisher s6 = None \<and> pb_refreshers s6 = [] \<and>
     pb_plan s6 = Some (1, ex_plan FallbackDirect) \<and> pb_policy s6 = Some (0, ?a)"
    by (simp add: defs)
  ultimately show ?thesis by blast
qed

end
