(* ===== verification/Ecs.thy ===== *)
theory Ecs
  imports Dns_Msg
begin

text \<open>
  \<open>ecs.go\<close>: the operator's EDNS Client Subnet. Parsing the subnet, and attaching or stripping the
  option on a message. The OPT record is the one \<open>IsEdns0\<close> finds; \<open>L\<close> is the message library.
\<close>

section \<open>The subnet\<close>

datatype ecs_error = ErrInvalidECS

definition parse_ecs :: "string \<Rightarrow> ecs_error + ipnet option" where
  "parse_ecs raw0 =
     (let raw = trim_space raw0 in
      if raw = [] then Inr None
      else if slash \<in> set raw then
        (case parse_cidr raw of None \<Rightarrow> Inl ErrInvalidECS | Some n \<Rightarrow> Inr (Some n))
      else case parse_ip raw of
        None \<Rightarrow> Inl ErrInvalidECS
      | Some a \<Rightarrow>
          (case to4 a of
             Some v4 \<Rightarrow> Inr (Some \<lparr>net_ip = ip_mask v4 (cidr_mask 24 32), net_ones = 24, net_bits = 32\<rparr>)
           | None \<Rightarrow> Inr (Some \<lparr>net_ip = ip_mask a (cidr_mask 56 128), net_ones = 56, net_bits = 128\<rparr>)))"

section \<open>The option on a message\<close>

definition option_code :: "edns_option \<Rightarrow> u16" where
  "option_code o' = (case o' of Subnet s \<Rightarrow> 8 | OtherOption c d \<Rightarrow> c)"

definition strip_ecs_options :: "edns_option list \<Rightarrow> edns_option list" where
  "strip_ecs_options os = filter (\<lambda>o'. option_code o' \<noteq> 8) os"

definition set_options :: "rr \<Rightarrow> edns_option list \<Rightarrow> rr" where
  "set_options r os = r\<lparr>rr_data := OPT os\<rparr>"

definition strip_ecs_from_opt :: "rr \<Rightarrow> rr" where
  "strip_ecs_from_opt r = set_options r (strip_ecs_options (rr_options r))"

definition strip_ecs_from_msg :: "dns_lib \<Rightarrow> msg \<Rightarrow> msg" where
  "strip_ecs_from_msg L m = (case lib_is_edns0 L m of
     None \<Rightarrow> m
   | Some i \<Rightarrow> m\<lparr>extra := (extra m)[i := strip_ecs_from_opt (extra m ! i)]\<rparr>)"

definition ecs_option :: "ipnet \<Rightarrow> edns_option" where
  "ecs_option subnet =
     (let (family, addr) = (case to4 (net_ip subnet) of Some v4 \<Rightarrow> (1, v4) | None \<Rightarrow> (2, net_ip subnet))
      in Subnet \<lparr>s_family = family, s_source_netmask = word_of_nat (net_ones subnet), s_source_scope = 0,
           s_address = addr\<rparr>)"

definition set_ecs_on_msg :: "dns_lib \<Rightarrow> msg \<Rightarrow> ipnet \<Rightarrow> msg" where
  "set_ecs_on_msg L m0 subnet =
     (let m = (case lib_is_edns0 L m0 of None \<Rightarrow> lib_set_edns0 L m0 1232 False | Some i \<Rightarrow> m0) in
      case lib_is_edns0 L m of
        None \<Rightarrow> m
      | Some i \<Rightarrow>
          let r = strip_ecs_from_opt (extra m ! i)
          in m\<lparr>extra := (extra m)[i := set_options r (rr_options r @ [ecs_option subnet])]\<rparr>)"

section \<open>What a message discloses\<close>

text \<open>The subnet options of all OPT records of a message.\<close>

definition subnets :: "msg \<Rightarrow> edns_option list" where
  "subnets m = filter (\<lambda>o'. option_code o' = 8) (concat (map rr_options (extra m)))"

text \<open>A message has at most one OPT record (RFC 6891).\<close>

definition single_opt :: "msg \<Rightarrow> bool" where
  "single_opt m \<longleftrightarrow> length (filter rr_is_OPT (extra m)) \<le> 1"

lemma rr_options_not_OPT: "\<not> rr_is_OPT r \<Longrightarrow> rr_options r = []"
  by (cases "rr_data r") (simp_all add: rr_is_OPT_def rr_options_def)

lemma rr_options_set [simp]: "rr_options (set_options r os) = os" "rr_is_OPT (set_options r os)"
  by (simp_all add: set_options_def rr_options_def rr_is_OPT_def)

lemma single_split:
  assumes "single_opt m" "i < length (extra m)" "rr_is_OPT (extra m ! i)"
  shows "concat (map rr_options (take i (extra m))) = [] \<and> concat (map rr_options (drop (Suc i) (extra m))) = []"
proof -
  have "extra m = take i (extra m) @ extra m ! i # drop (Suc i) (extra m)"
    using assms(2) by (rule id_take_nth_drop)
  then have "filter rr_is_OPT (extra m) =
      filter rr_is_OPT (take i (extra m)) @ extra m ! i # filter rr_is_OPT (drop (Suc i) (extra m))"
    using assms(3) by (metis filter.simps(2) filter_append)
  then have "filter rr_is_OPT (take i (extra m)) = []" "filter rr_is_OPT (drop (Suc i) (extra m)) = []"
    using assms(1) by (auto simp: single_opt_def)
  then show ?thesis by (simp add: filter_empty_conv rr_options_not_OPT)
qed

lemma concat_update:
  assumes "single_opt m" "i < length (extra m)" "rr_is_OPT (extra m ! i)"
  shows "concat (map rr_options ((extra m)[i := r])) = rr_options r"
  using single_split [OF assms]
  by (simp only: upd_conv_take_nth_drop [OF assms(2)] map_append concat_append list.map concat.simps append_Nil append_Nil2)

lemma subnets_none: "\<forall>r\<in>set (extra m). \<not> rr_is_OPT r \<Longrightarrow> subnets m = []"
  by (simp add: subnets_def rr_options_not_OPT)

lemma strip_no_code8: "filter (\<lambda>o'. option_code o' = 8) (strip_ecs_options os) = []"
  by (simp add: strip_ecs_options_def)

lemma subnets_strip:
  assumes "edns_ok L" "single_opt m"
  shows "subnets (strip_ecs_from_msg L m) = []"
proof (cases "lib_is_edns0 L m")
  case None
  then show ?thesis
    using edns_ok_None [OF assms(1) None] by (auto simp: strip_ecs_from_msg_def intro: subnets_none)
next
  case (Some i)
  with edns_ok_Some [OF assms(1) Some] concat_update [OF assms(2)] show ?thesis
    by (simp add: strip_ecs_from_msg_def subnets_def strip_ecs_from_opt_def strip_no_code8)
qed

lemma single_opt_update:
  assumes "single_opt m" "i < length (extra m)" "rr_is_OPT (extra m ! i)"
  shows "single_opt (m\<lparr>extra := (extra m)[i := r]\<rparr>)"
proof -
  have "extra m = take i (extra m) @ extra m ! i # drop (Suc i) (extra m)"
    using assms(2) by (rule id_take_nth_drop)
  then have "filter rr_is_OPT (extra m) =
      filter rr_is_OPT (take i (extra m)) @ extra m ! i # filter rr_is_OPT (drop (Suc i) (extra m))"
    using assms(3) by (metis filter.simps(2) filter_append)
  then show ?thesis
    using assms(1,2) by (auto simp: single_opt_def upd_conv_take_nth_drop)
qed

lemma single_opt_strip: "edns_ok L \<Longrightarrow> single_opt m \<Longrightarrow> single_opt (strip_ecs_from_msg L m)"
  by (auto simp: strip_ecs_from_msg_def dest: edns_ok_Some intro: single_opt_update split: option.split)

lemma ecs_option_code [simp]: "option_code (ecs_option s) = 8"
  by (simp add: ecs_option_def option_code_def Let_def split: option.split)

lemma subnets_set:
  assumes ok: "edns_ok L" and one: "single_opt m"
  shows "subnets (set_ecs_on_msg L m s) = [ecs_option s] \<and> single_opt (set_ecs_on_msg L m s)"
proof -
  define m1 where "m1 = (case lib_is_edns0 L m of None \<Rightarrow> lib_set_edns0 L m 1232 False | Some i \<Rightarrow> m)"
  have "single_opt m1 \<and> (\<exists>i. lib_is_edns0 L m1 = Some i)"
  proof (cases "lib_is_edns0 L m")
    case None
    obtain o' where o: "rr_data o' = OPT []" "lib_set_edns0 L m 1232 False = m\<lparr>extra := extra m @ [o']\<rparr>"
      using ok unfolding edns_ok_def by blast
    have m1: "m1 = m\<lparr>extra := extra m @ [o']\<rparr>" by (simp add: m1_def None o(2))
    have no: "filter rr_is_OPT (extra m) = []" using edns_ok_None [OF ok None] by (simp add: filter_empty_conv)
    have o': "rr_is_OPT o'" by (simp add: rr_is_OPT_def o(1))
    have "lib_is_edns0 L m1 \<noteq> None"
    proof
      assume "lib_is_edns0 L m1 = None"
      from edns_ok_None [OF ok this, of o'] o' show False by (simp add: m1)
    qed
    then show ?thesis using no o' by (auto simp: m1 single_opt_def)
  next
    case (Some i)
    then show ?thesis using one by (simp add: m1_def)
  qed
  then obtain i where one1: "single_opt m1" and i: "lib_is_edns0 L m1 = Some i" by blast
  note at = edns_ok_Some [OF ok i]
  define r where "r = strip_ecs_from_opt (extra m1 ! i)"
  have eq: "set_ecs_on_msg L m s = m1\<lparr>extra := (extra m1)[i := set_options r (rr_options r @ [ecs_option s])]\<rparr>"
    by (simp add: set_ecs_on_msg_def m1_def [symmetric] i Let_def r_def)
  have "filter (\<lambda>o'. option_code o' = 8) (rr_options r) = []"
    by (simp add: r_def strip_ecs_from_opt_def strip_no_code8)
  then show ?thesis
    using concat_update [OF one1] single_opt_update [OF one1] at by (simp add: eq subnets_def)
qed

section \<open>Properties\<close>

text \<open>The subnet a bare address gives is its /24 (IPv4) or /56 (IPv6) network, never the address
  itself: the host bits are cleared, whatever the operator typed.\<close>

theorem parse_ecs_coarsens:
  assumes "slash \<notin> set raw" "parse_ecs raw = Inr (Some n)"
  shows "(\<exists>a b c d. (\<exists>ip. parse_ip (trim_space raw) = Some ip \<and> to4 ip = Some [a, b, c, d]) \<and>
            net_ip n = [a, b, c, 0] \<and> net_ones n = 24 \<and> net_bits n = 32) \<or>
         (\<exists>ip. parse_ip (trim_space raw) = Some ip \<and> to4 ip = None \<and>
            net_ip n = map2 (AND) ip (replicate 7 255 @ replicate 9 0) \<and> net_ones n = 56 \<and> net_bits n = 128)"
proof -
  have sub: "set (trim_space raw) \<subseteq> set raw"
    unfolding trim_space_def drop_while_end_def by (auto dest!: set_dropWhileD)
  then have ns: "slash \<notin> set (trim_space raw)" using assms(1) by blast
  from assms(2) ns obtain a where a: "parse_ip (trim_space raw) = Some a"
    and n: "n = (case to4 a of Some v4 \<Rightarrow> \<lparr>net_ip = ip_mask v4 (cidr_mask 24 32), net_ones = 24, net_bits = 32\<rparr>
       | None \<Rightarrow> \<lparr>net_ip = ip_mask a (cidr_mask 56 128), net_ones = 56, net_bits = 128\<rparr>)"
    by (auto simp: parse_ecs_def Let_def split: if_splits option.splits)
  have m24: "cidr_mask 24 32 = [255, 255, 255, 0]" by code_simp
  have m56: "cidr_mask 56 128 = replicate 7 255 @ replicate 9 0" by code_simp
  have ff: "x AND 255 = x" for x :: u8
  proof -
    have "(255 :: u8) = - 1" by simp
    then show ?thesis by (simp only: and.right_neutral)
  qed
  show ?thesis
  proof (cases "to4 a")
    case None
    then show ?thesis using a n by (simp add: ip_mask_def m56)
  next
    case (Some v4)
    then obtain w x y z where "v4 = [w, x, y, z]" using length4E [OF to4_length [OF Some]] by blast
    with Some a n show ?thesis by (simp add: ip_mask_def m24 ff)
  qed
qed

lemma parse_ecs_coarsens_witness:
  "parse_ecs '' 122.96.30.5 '' = Inr (Some \<lparr>net_ip = [122, 96, 30, 0], net_ones = 24, net_bits = 32\<rparr>) \<and>
   net_ones (the (projr (parse_ecs '' 122.96.30.5 ''))) = 24"
proof -
  have p: "parse_ecs '' 122.96.30.5 '' = Inr (Some \<lparr>net_ip = [122, 96, 30, 0], net_ones = 24, net_bits = 32\<rparr>)"
    by code_simp
  have "slash \<notin> set '' 122.96.30.5 ''" by code_simp
  from parse_ecs_coarsens [OF this p] p show ?thesis by simp
qed

end
