(* ===== verification/Upstream.thy ===== *)
theory Upstream
  imports Ecs Breaker Policy
begin

text \<open>
  \<open>upstream.go\<close> and \<open>upstreams.go\<close>: validation of the upstream lists, the construction of the
  china and trust groups, and \<open>group.Exchange\<close> with its sequential members, per-attempt budget, DNS
  0x20 casing, ECS containment and circuit breaker. What the network does is the argument \<open>w\<close>: the
  outcome of each attempt, whether the caller had cancelled by the end of it, and the clock; random
  bits are the argument \<open>rnd\<close>. A nil reply without an error is \<open>Inr None\<close>.
\<close>

section \<open>Upstream lists\<close>

definition go_parse_uint16 :: "string \<Rightarrow> nat option" where
  "go_parse_uint16 s =
     (if s = [] \<or> \<not> list_all is_digit s then None
      else let v = foldl (\<lambda>a c. a * 10 + digit_val c) 0 s in if v > 65535 then None else Some v)"

definition is_ip4 :: "string \<Rightarrow> bool" where
  "is_ip4 s \<longleftrightarrow> (case parse_ip s of None \<Rightarrow> False | Some a \<Rightarrow> to4 a \<noteq> None)"

definition valid_ip_port :: "string \<Rightarrow> bool" where
  "valid_ip_port s =
     (if is_ip4 s then True
      else case split_host_port s of
        None \<Rightarrow> False
      | Some (host, port) \<Rightarrow>
          if \<not> is_ip4 host then False
          else case go_parse_uint16 port of None \<Rightarrow> False | Some p \<Rightarrow> p \<noteq> 0)"

definition is_alnum :: "char \<Rightarrow> bool" where
  "is_alnum c \<longleftrightarrow> is_letter c \<or> is_digit c"

text \<open>\<open>hostnameRE\<close>: dot-separated labels of letters, digits and inner hyphens.\<close>

definition hostname_label :: "string \<Rightarrow> bool" where
  "hostname_label l \<longleftrightarrow> l \<noteq> [] \<and> is_alnum (hd l) \<and> is_alnum (last l) \<and>
     list_all (\<lambda>c. is_alnum c \<or> c = CHR ''-'') l"

definition hostname_re :: "string \<Rightarrow> bool" where
  "hostname_re s \<longleftrightarrow> list_all hostname_label (split_on dot [] s)"

definition at_sign :: char where "at_sign = CHR ''@''"

definition validate_trust_entry :: "string \<Rightarrow> bool" where
  "validate_trust_entry t0 =
     (let t = trim_space t0 in
      case last_index_byte t at_sign of
        Some i \<Rightarrow>
          if i > 0 then
            let name = take i t; dial = drop (Suc i) t in
            if \<not> hostname_re name \<and> parse_ip name = None then False
            else valid_ip_port dial
          else valid_ip_port t
      | None \<Rightarrow> valid_ip_port t)"

text \<open>\<open>ValidateUpstreams\<close>; \<open>True\<close> is a nil error.\<close>

definition validate_upstreams :: "string list \<Rightarrow> string list \<Rightarrow> bool" where
  "validate_upstreams china trust =
     (if china = [] then False
      else if trust = [] then False
      else if \<not> list_all (\<lambda>c. valid_ip_port (trim_space c)) china then False
      else list_all validate_trust_entry trust)"

definition normalize_upstream_list :: "string list \<Rightarrow> string list" where
  "normalize_upstream_list ss = filter (\<lambda>s. s \<noteq> []) (map trim_space ss)"

record trust_entry =
  te_server_name :: string
  te_dial_addr :: string
  te_plain :: bool

text \<open>\<open>parseTrustEntryList\<close> of \<open>config.go\<close>\<close>

definition parse_trust_entry :: "string \<Rightarrow> trust_entry" where
  "parse_trust_entry p = (case last_index_byte p at_sign of
     Some i \<Rightarrow>
       if i > 0 then \<lparr>te_server_name = take i p, te_dial_addr = drop (Suc i) p, te_plain = False\<rparr>
       else \<lparr>te_server_name = p, te_dial_addr = p, te_plain = True\<rparr>
   | None \<Rightarrow> \<lparr>te_server_name = p, te_dial_addr = p, te_plain = True\<rparr>)"

definition parse_trust_entry_list :: "string list \<Rightarrow> trust_entry list" where
  "parse_trust_entry_list ps = map parse_trust_entry (filter (\<lambda>p. p \<noteq> []) ps)"

section \<open>Groups\<close>

record upstream =
  up_addr :: string
  up_net :: string
  up_tls :: "string option"

record upstream_group =
  g_members :: "upstream list"
  g_label :: string
  g_breaker :: "breaker option"
  g_randomize :: bool
  g_ecs :: "ipnet option"

definition add_default_port :: "string \<Rightarrow> string \<Rightarrow> string" where
  "add_default_port addr port =
     (if colon \<in> set addr then
        (case split_host_port addr of Some hp \<Rightarrow> addr | None \<Rightarrow> join_host_port addr port)
      else join_host_port addr port)"

definition normalise_addrs :: "string list \<Rightarrow> string \<Rightarrow> string list" where
  "normalise_addrs addrs port = map (\<lambda>a. add_default_port a port) addrs"

definition new_udp_group :: "string list \<Rightarrow> bool \<Rightarrow> upstream_group" where
  "new_udp_group addrs randomize =
     \<lparr>g_members = map (\<lambda>a. \<lparr>up_addr = a, up_net = ''udp'', up_tls = None\<rparr>) (normalise_addrs addrs ''53''),
      g_label = ''china'', g_breaker = Some new_breaker, g_randomize = randomize, g_ecs = None\<rparr>"

definition trust_member :: "trust_entry \<Rightarrow> upstream" where
  "trust_member e =
     (if te_plain e then \<lparr>up_addr = add_default_port (te_dial_addr e) ''53'', up_net = ''udp'', up_tls = None\<rparr>
      else \<lparr>up_addr = add_default_port (te_dial_addr e) ''853'', up_net = ''tcp-tls'', up_tls = Some (te_server_name e)\<rparr>)"

definition new_trust_group :: "trust_entry list \<Rightarrow> upstream_group" where
  "new_trust_group entries =
     \<lparr>g_members = map trust_member entries, g_label = ''trust'', g_breaker = Some new_breaker,
      g_randomize = False, g_ecs = None\<rparr>"

definition set_group_ecs :: "upstream_group \<Rightarrow> ipnet option \<Rightarrow> upstream_group" where
  "set_group_ecs g subnet = g\<lparr>g_ecs := subnet\<rparr>"

section \<open>0x20 casing\<close>

definition flip_case :: "char \<Rightarrow> char" where
  "flip_case c = (let n = char_code c in
     if 97 \<le> n \<and> n \<le> 122 then char_of (n - 32)
     else if 65 \<le> n \<and> n \<le> 90 then char_of (n + 32)
     else c)"

definition randomize_dns_case :: "(nat \<Rightarrow> bool) \<Rightarrow> string \<Rightarrow> string" where
  "randomize_dns_case rnd name = map2 (\<lambda>i c. if rnd i then flip_case c else c) [0..<length name] name"

definition restore_rr :: "string \<Rightarrow> string \<Rightarrow> rr \<Rightarrow> rr" where
  "restore_rr sent orig r =
     (if h_name (rr_hdr r) = sent then r\<lparr>rr_hdr := (rr_hdr r)\<lparr>h_name := orig\<rparr>\<rparr> else r)"

definition restore_dns_case :: "string \<Rightarrow> string \<Rightarrow> msg \<Rightarrow> msg" where
  "restore_dns_case sent orig m =
     (let m1 = (case questions m of
                  [] \<Rightarrow> m
                | q # qs \<Rightarrow> if qs_name q = sent then m\<lparr>questions := q\<lparr>qs_name := orig\<rparr> # qs\<rparr> else m)
      in m1\<lparr>answer := map (restore_rr sent orig) (answer m1), ns := map (restore_rr sent orig) (ns m1),
            extra := map (restore_rr sent orig) (extra m1)\<rparr>)"

section \<open>Exchange\<close>

datatype exchange_error = ErrCircuitOpen | ErrAbandoned | ErrAllFailed | ErrWire

type_synonym wire_result = "exchange_error + msg option"

record wire =
  w_deadline :: "go_time option"
  w_time :: "nat \<Rightarrow> go_time"
  w_send :: "nat \<Rightarrow> upstream \<Rightarrow> bool \<Rightarrow> duration option \<Rightarrow> msg \<Rightarrow> wire_result"
  w_canceled :: "nat \<Rightarrow> bool"

text \<open>Go's integer division rounds to zero.\<close>

definition go_quot :: "int \<Rightarrow> int \<Rightarrow> int" where
  "go_quot a b = (if a < 0 then - ((- a) div b) else a div b)"

definition attempt_slice :: "wire \<Rightarrow> nat \<Rightarrow> nat \<Rightarrow> duration option" where
  "attempt_slice w n i = map_option (\<lambda>dl. go_quot (dl - w_time w i) (int n - int i)) (w_deadline w)"

text \<open>One member's attempt: the query, and again over TCP when a UDP reply was truncated.\<close>

definition attempt :: "wire \<Rightarrow> nat \<Rightarrow> nat \<Rightarrow> upstream \<Rightarrow> msg \<Rightarrow> wire_result" where
  "attempt w n i u send =
     (let slice = attempt_slice w n i; r = w_send w i u False slice send in
      case r of
        Inr (Some m) \<Rightarrow> if truncated m \<and> up_net u = ''udp'' then w_send w i u True slice send else r
      | _ \<Rightarrow> r)"

definition echo_ok :: "string \<Rightarrow> msg option \<Rightarrow> bool" where
  "echo_ok sent mo \<longleftrightarrow> (case mo of None \<Rightarrow> False
     | Some m \<Rightarrow> questions m \<noteq> [] \<and> qs_name (hd (questions m)) = sent)"

definition finish_reply :: "dns_lib \<Rightarrow> string \<Rightarrow> string \<Rightarrow> msg option \<Rightarrow> msg option" where
  "finish_reply L sent orig mo =
     map_option (strip_ecs_from_msg L) (if sent \<noteq> [] then map_option (restore_dns_case sent orig) mo else mo)"

fun exchange_loop ::
    "dns_lib \<Rightarrow> wire \<Rightarrow> nat \<Rightarrow> msg \<Rightarrow> string \<Rightarrow> string \<Rightarrow> nat \<Rightarrow> upstream list \<Rightarrow> upstream_group \<Rightarrow>
       wire_result \<times> upstream_group" where
  "exchange_loop L w n send sent orig i [] g =
     (Inl ErrAllFailed, g\<lparr>g_breaker := breaker_record (g_breaker g) False (w_time w i)\<rparr>)"
| "exchange_loop L w n send sent orig i (u # us) g =
     (let r = attempt w n i u send in
      if w_canceled w i then (Inl ErrAbandoned, g\<lparr>g_breaker := breaker_record_canceled (g_breaker g)\<rparr>)
      else case r of
        Inl e \<Rightarrow> exchange_loop L w n send sent orig (Suc i) us g
      | Inr mo \<Rightarrow>
          if sent \<noteq> [] \<and> \<not> echo_ok sent mo
          then exchange_loop L w n send sent orig (Suc i) us g
          else (Inr (finish_reply L sent orig mo),
                g\<lparr>g_breaker := breaker_record (g_breaker g) True (w_time w (Suc i))\<rparr>))"

text \<open>The private copy that goes out: ECS stripped, the operator's subnet attached, the name recased.\<close>

definition prepare_query ::
    "dns_lib \<Rightarrow> (nat \<Rightarrow> bool) \<Rightarrow> upstream_group \<Rightarrow> msg \<Rightarrow> msg \<times> string \<times> string" where
  "prepare_query L rnd g q =
     (let s1 = strip_ecs_from_msg L q;
          s2 = (case g_ecs g of None \<Rightarrow> s1 | Some subnet \<Rightarrow> set_ecs_on_msg L s1 subnet)
      in if g_randomize g \<and> questions q \<noteq> [] then
           let orig = qs_name (hd (questions q)); sent = randomize_dns_case rnd orig
           in (s2\<lparr>questions := (hd (questions s2))\<lparr>qs_name := sent\<rparr> # tl (questions s2)\<rparr>, sent, orig)
         else (s2, [], []))"

definition group_exchange ::
    "dns_lib \<Rightarrow> (nat \<Rightarrow> bool) \<Rightarrow> wire \<Rightarrow> upstream_group \<Rightarrow> msg \<Rightarrow> wire_result \<times> upstream_group" where
  "group_exchange L rnd w g q =
     (let (ok, b) = breaker_allow (g_breaker g) (w_time w 0); g1 = g\<lparr>g_breaker := b\<rparr> in
      if \<not> ok then (Inl ErrCircuitOpen, g1)
      else let (send, sent, orig) = prepare_query L rnd g1 q
           in exchange_loop L w (length (g_members g1)) send sent orig 0 (g_members g1) g1)"

section \<open>The 0x20 probe\<close>

definition decide0x20 :: "bool \<Rightarrow> bool \<Rightarrow> bool" where
  "decide0x20 any_preserve any_reachable_plain =
     (if any_preserve then True else if any_reachable_plain then False else True)"

definition probe_name :: string where "probe_name = ''www.qq.com.''"

text \<open>The retries that look for a casing that differs; \<open>rnds\<close> are the draws, at most seventeen.\<close>

fun probe_casing :: "nat \<Rightarrow> (nat \<Rightarrow> nat \<Rightarrow> bool) \<Rightarrow> string \<Rightarrow> nat \<Rightarrow> string" where
  "probe_casing 0 rnds sent i = sent"
| "probe_casing (Suc k) rnds sent i =
     (if sent = probe_name then probe_casing k rnds (randomize_dns_case (rnds (Suc i)) probe_name) (Suc i)
      else sent)"

text \<open>
  The loop over the members: \<open>cased i\<close> is the question name echoed to the cased query of member
  \<open>i\<close> (\<open>None\<close>: no usable reply), \<open>plain i\<close> whether the plain query was answered, \<open>done i\<close> whether the
  context had ended before member \<open>i\<close>, in which case the probe returns without a decision.
\<close>

fun probe_loop ::
    "(nat \<Rightarrow> string) \<Rightarrow> (nat \<Rightarrow> string option) \<Rightarrow> (nat \<Rightarrow> bool) \<Rightarrow> (nat \<Rightarrow> bool) \<Rightarrow> nat \<Rightarrow> nat \<Rightarrow> bool \<Rightarrow>
       (bool \<times> bool) option" where
  "probe_loop sent cased plain stopped i 0 reach = Some (False, reach)"
| "probe_loop sent cased plain stopped i (Suc k) reach =
     (if stopped i then None
      else case cased i of
        Some nm \<Rightarrow>
          if nm = sent i then Some (True, reach)
          else probe_loop sent cased plain stopped (Suc i) k True
      | None \<Rightarrow> probe_loop sent cased plain stopped (Suc i) k (if plain i then True else reach))"

definition probe0x20 ::
    "(nat \<Rightarrow> string) \<Rightarrow> (nat \<Rightarrow> string option) \<Rightarrow> (nat \<Rightarrow> bool) \<Rightarrow> (nat \<Rightarrow> bool) \<Rightarrow> upstream_group \<Rightarrow> upstream_group" where
  "probe0x20 sent cased plain stopped g =
     (if \<not> g_randomize g then g
      else case probe_loop sent cased plain stopped 0 (length (g_members g)) False of
        None \<Rightarrow> g
      | Some (pres, reach) \<Rightarrow> if \<not> decide0x20 pres reach then g\<lparr>g_randomize := False\<rparr> else g)"

section \<open>Lemmas\<close>

text \<open>The first attempt that ends the loop: cancelled, or acceptable.\<close>

definition acceptable :: "wire \<Rightarrow> nat \<Rightarrow> msg \<Rightarrow> string \<Rightarrow> upstream list \<Rightarrow> nat \<Rightarrow> bool" where
  "acceptable w n send sent us k \<longleftrightarrow>
     (\<exists>mo. attempt w n k (us ! k) send = Inr mo \<and> (sent = [] \<or> echo_ok sent mo))"

definition stops :: "wire \<Rightarrow> nat \<Rightarrow> msg \<Rightarrow> string \<Rightarrow> upstream list \<Rightarrow> nat \<Rightarrow> bool" where
  "stops w n send sent us k \<longleftrightarrow> w_canceled w k \<or> acceptable w n send sent us k"

lemma upt_Cons: "i < n \<Longrightarrow> [i..<n] = i # [Suc i..<n]"
  by (rule upt_conv_Cons)

lemma exchange_loop_find:
  assumes "n = length us"
  shows "i \<le> n \<Longrightarrow> exchange_loop L w n send sent orig i (drop i us) g =
    (case List.find (stops w n send sent us) [i..<n] of
       None \<Rightarrow> (Inl ErrAllFailed, g\<lparr>g_breaker := breaker_record (g_breaker g) False (w_time w n)\<rparr>)
     | Some k \<Rightarrow>
         if w_canceled w k then (Inl ErrAbandoned, g\<lparr>g_breaker := breaker_record_canceled (g_breaker g)\<rparr>)
         else (Inr (finish_reply L sent orig (projr (attempt w n k (us ! k) send))),
               g\<lparr>g_breaker := breaker_record (g_breaker g) True (w_time w (Suc k))\<rparr>))"
proof (induction "n - i" arbitrary: i)
  case 0
  then show ?case using assms by simp
next
  case (Suc d)
  then have i: "i < n" by simp
  have IH: "exchange_loop L w n send sent orig (Suc i) (drop (Suc i) us) g =
    (case List.find (stops w n send sent us) [Suc i..<n] of
       None \<Rightarrow> (Inl ErrAllFailed, g\<lparr>g_breaker := breaker_record (g_breaker g) False (w_time w n)\<rparr>)
     | Some k \<Rightarrow>
         if w_canceled w k then (Inl ErrAbandoned, g\<lparr>g_breaker := breaker_record_canceled (g_breaker g)\<rparr>)
         else (Inr (finish_reply L sent orig (projr (attempt w n k (us ! k) send))),
               g\<lparr>g_breaker := breaker_record (g_breaker g) True (w_time w (Suc k))\<rparr>))"
    using Suc by (intro Suc.hyps(1)) simp_all
  have d: "drop i us = us ! i # drop (Suc i) us" using i assms by (simp add: Cons_nth_drop_Suc)
  show ?case
  proof (cases "stops w n send sent us i")
    case False
    then have "exchange_loop L w n send sent orig i (drop i us) g =
        exchange_loop L w n send sent orig (Suc i) (drop (Suc i) us) g"
      by (auto simp: d stops_def acceptable_def Let_def split: sum.split)
    then show ?thesis unfolding IH upt_Cons [OF i] using False by simp
  next
    case True
    have f: "List.find (stops w n send sent us) [i..<n] = Some i" using True by (simp add: upt_Cons [OF i])
    show ?thesis unfolding f d using True
      by (auto simp: stops_def acceptable_def Let_def)
  qed
qed

lemma length_randomize [simp]: "length (randomize_dns_case rnd name) = length name"
  by (simp add: randomize_dns_case_def)

lemma flip_case_lower: "to_lower_char (flip_case c) = to_lower_char c"
  using char_code_char_of [of "char_code c - 32"] char_code_char_of [of "char_code c + 32"] char_code_less [of c]
  by (auto simp: flip_case_def to_lower_char_def Let_def char_code_def)

lemma to_lower_randomize: "to_lower (randomize_dns_case rnd name) = to_lower name"
  by (intro nth_equalityI) (simp_all add: to_lower_def randomize_dns_case_def flip_case_lower)

lemma randomize_eq_Nil [simp]: "randomize_dns_case rnd name = [] \<longleftrightarrow> name = []"
  by (metis length_0_conv length_randomize)

lemma restore_rr_data [simp]: "rr_data (restore_rr s o' r) = rr_data r"
  by (simp add: restore_rr_def)

lemma rr_view_data: "rr_data r = rr_data q \<Longrightarrow> rr_options r = rr_options q \<and> rr_is_OPT r = rr_is_OPT q"
  by (simp add: rr_options_def rr_is_OPT_def)

lemma extra_restore: "extra (restore_dns_case s o' m) = map (restore_rr s o') (extra m)"
  by (auto simp: restore_dns_case_def Let_def split: list.split)

lemma single_opt_restore: "single_opt (restore_dns_case s o' m) = single_opt m"
proof -
  have "filter rr_is_OPT (map (restore_rr s o') rs) = map (restore_rr s o') (filter rr_is_OPT rs)" for rs
    using rr_view_data [OF restore_rr_data] by (induction rs) auto
  then show ?thesis by (simp add: single_opt_def extra_restore)
qed

lemma subnets_questions [simp]: "subnets (m\<lparr>questions := qs\<rparr>) = subnets m"
  by (simp add: subnets_def)

lemma questions_strip [simp]: "questions (strip_ecs_from_msg L m) = questions m"
  by (simp add: strip_ecs_from_msg_def split: option.split)

lemma questions_set_ecs: "edns_ok L \<Longrightarrow> questions (set_ecs_on_msg L m s) = questions m"
proof -
  assume ok: "edns_ok L"
  have "questions (lib_set_edns0 L m 1232 False) = questions m"
  proof -
    obtain o' where "lib_set_edns0 L m 1232 False = m\<lparr>extra := extra m @ [o']\<rparr>"
      using ok unfolding edns_ok_def by blast
    then show ?thesis by simp
  qed
  then show ?thesis by (simp add: set_ecs_on_msg_def Let_def split: option.split)
qed

section \<open>Properties\<close>

text \<open>No client subnet ever leaves the gateway: whatever options a request carries, the query a
  group sends holds no subnet option at all, or exactly the operator's one when the group has a
  subnet configured; a trust group has none. The rest of the question is the client's, up to the
  letters' case.\<close>

theorem ecs_containment:
  assumes "edns_ok L" "single_opt q"
  shows "let (send, sent, orig) = prepare_query L rnd g q in
    subnets send = (case g_ecs g of None \<Rightarrow> [] | Some s \<Rightarrow> [ecs_option s]) \<and>
    map (\<lambda>x. (to_lower (qs_name x), qs_type x, qs_class x)) (questions send) =
      map (\<lambda>x. (to_lower (qs_name x), qs_type x, qs_class x)) (questions q) \<and>
    g_ecs (new_trust_group entries) = None"
proof -
  define s1 where "s1 = strip_ecs_from_msg L q"
  define s2 where "s2 = (case g_ecs g of None \<Rightarrow> s1 | Some s \<Rightarrow> set_ecs_on_msg L s1 s)"
  have "subnets s1 = []" "single_opt s1"
    using subnets_strip [OF assms] single_opt_strip [OF assms] by (simp_all add: s1_def)
  then have sub: "subnets s2 = (case g_ecs g of None \<Rightarrow> [] | Some s \<Rightarrow> [ecs_option s])"
    using subnets_set [OF assms(1)] by (simp add: s2_def split: option.split)
  have qs: "questions s2 = questions q"
    using questions_set_ecs [OF assms(1)] by (simp add: s2_def s1_def split: option.split)
  show ?thesis
    unfolding prepare_query_def s1_def [symmetric] Let_def s2_def [symmetric]
    using sub qs by (cases "questions q") (simp_all add: to_lower_randomize new_trust_group_def)
qed

definition ex_subnet_rr :: rr where
  "ex_subnet_rr = set_options (ref_opt 1232 True)
     [Subnet \<lparr>s_family = 1, s_source_netmask = 32, s_source_scope = 0, s_address = [10, 1, 2, 3]\<rparr>, OtherOption 10 []]"

definition ex_query :: msg where
  "ex_query = new_msg\<lparr>questions := [\<lparr>qs_name = ''a.example.'', qs_type = type_A, qs_class = class_INET\<rparr>],
     extra := [ex_subnet_rr]\<rparr>"

lemma ecs_containment_witness:
  "subnets ex_query \<noteq> [] \<and>
   subnets (fst (prepare_query ref_lib (\<lambda>i. even i) (new_trust_group []) ex_query)) = []"
proof -
  have ok: "edns_ok ref_lib" using ref_lib_ok by (simp add: dns_lib_ok_def)
  have s: "single_opt ex_query" and n: "subnets ex_query \<noteq> []" by code_simp+
  show ?thesis
    using ecs_containment [OF ok s, of "\<lambda>i. even i" "new_trust_group []" "[]"] n
    by (simp add: case_prod_beta Let_def new_trust_group_def)
qed

text \<open>C39: A group is a deterministic preference list: with the breaker closed, an exchange returns the
  reply of the first member, in configuration order, whose attempt is acceptable, ends with an error
  when none is, and is abandoned without a verdict on the upstreams as soon as the caller has
  cancelled; the breaker records a success, one failure, or a cancellation accordingly.\<close>

theorem exchange_first_acceptable:
  assumes "breaker_allow (g_breaker g) (w_time w 0) = (True, b)"
    "prepare_query L rnd (g\<lparr>g_breaker := b\<rparr>) q = (send, sent, orig)"
  shows "group_exchange L rnd w g q =
    (case List.find (stops w (length (g_members g)) send sent (g_members g)) [0..<length (g_members g)] of
       None \<Rightarrow> (Inl ErrAllFailed, g\<lparr>g_breaker := breaker_record b False (w_time w (length (g_members g)))\<rparr>)
     | Some k \<Rightarrow>
         if w_canceled w k then (Inl ErrAbandoned, g\<lparr>g_breaker := breaker_record_canceled b\<rparr>)
         else (Inr (finish_reply L sent orig (projr (attempt w (length (g_members g)) k (g_members g ! k) send))),
               g\<lparr>g_breaker := breaker_record b True (w_time w (Suc k))\<rparr>))"
proof -
  have "group_exchange L rnd w g q =
      exchange_loop L w (length (g_members g)) send sent orig 0 (drop 0 (g_members g)) (g\<lparr>g_breaker := b\<rparr>)"
    using assms by (simp add: group_exchange_def)
  then show ?thesis
    by (simp only: exchange_loop_find [OF refl, of 0] le0) (simp split: option.split)
qed

definition ex_wire :: wire where
  "ex_wire = \<lparr>w_deadline = Some (3 * second), w_time = (\<lambda>i. 0),
     w_send = (\<lambda>i u tcp slice m. if i = 0 then Inl ErrWire else Inr (Some ex_answer)),
     w_canceled = (\<lambda>i. False)\<rparr>"

definition ex_group :: upstream_group where
  "ex_group = new_udp_group [''223.5.5.5'', ''119.29.29.29''] False"

lemma exchange_first_acceptable_witness:
  "fst (group_exchange ref_lib (\<lambda>i. True) ex_wire ex_group ex_query) = Inr (Some ex_answer)"
proof -
  let ?send = "fst (prepare_query ref_lib (\<lambda>i. True) ex_group ex_query)"
  have b: "breaker_allow (g_breaker ex_group) (w_time ex_wire 0) = (True, g_breaker ex_group)"
    by (simp add: ex_group_def new_udp_group_def breaker_allow_def new_breaker_def)
  have p: "prepare_query ref_lib (\<lambda>i. True) (ex_group\<lparr>g_breaker := g_breaker ex_group\<rparr>) ex_query = (?send, [], [])"
    by (simp add: prepare_query_def ex_group_def new_udp_group_def Let_def)
  have n: "length (g_members ex_group) = 2" by (simp add: ex_group_def new_udp_group_def normalise_addrs_def)
  have st: "stops ex_wire 2 ?send [] (g_members ex_group) i \<longleftrightarrow> i \<noteq> 0" for i
    by (simp add: stops_def acceptable_def attempt_def ex_wire_def ex_answer_def new_msg_def Let_def)
  have att: "attempt ex_wire 2 1 (g_members ex_group ! 1) ?send = Inr (Some ex_answer)"
    by (simp add: attempt_def ex_wire_def ex_answer_def new_msg_def Let_def)
  have fin: "finish_reply ref_lib [] [] (Some ex_answer) = Some ex_answer" by code_simp
  have up: "[0..<2] = [0, Suc 0]" by (simp add: upt_rec)
  have f: "List.find (stops ex_wire 2 ?send [] (g_members ex_group)) [0..<2] = Some 1"
    by (simp add: up st)
  have c: "w_canceled ex_wire 1 = False" by (simp add: ex_wire_def)
  show ?thesis
    unfolding exchange_first_acceptable [OF b p] n f
    using att fin c by simp
qed

text \<open>With 0x20 on, a reply is taken only when it echoes the randomised name byte for byte, and the
  caller sees its own casing: the question name of what comes back is the original one, and no
  record still carries the randomised name unless that is the original.\<close>

theorem case_echo_required:
  assumes "g_randomize g" "questions q \<noteq> []" "qs_name (hd (questions q)) \<noteq> []"
    "group_exchange L rnd w g q = (Inr r, g')"
  shows "\<exists>k m. k < length (g_members g) \<and> r = Some m \<and>
    (\<exists>m0. attempt w (length (g_members g)) k (g_members g ! k) (fst (prepare_query L rnd g q)) = Inr (Some m0) \<and>
       qs_name (hd (questions m0)) = randomize_dns_case rnd (qs_name (hd (questions q)))) \<and>
    qs_name (hd (questions m)) = qs_name (hd (questions q)) \<and>
    (\<forall>x\<in>set (answer m) \<union> set (ns m). h_name (rr_hdr x) = randomize_dns_case rnd (qs_name (hd (questions q))) \<longrightarrow>
       h_name (rr_hdr x) = qs_name (hd (questions q)))"
proof -
  let ?orig = "qs_name (hd (questions q))"
  let ?sent = "randomize_dns_case rnd ?orig"
  let ?us = "g_members g" and ?n = "length (g_members g)"
  obtain ok b where al: "breaker_allow (g_breaker g) (w_time w 0) = (ok, b)" by fastforce
  have ok: "ok = True"
  proof (rule ccontr)
    assume "ok \<noteq> True"
    with al have "group_exchange L rnd w g q = (Inl ErrCircuitOpen, g\<lparr>g_breaker := b\<rparr>)"
      by (simp add: group_exchange_def)
    with assms(4) show False by simp
  qed
  have br: "prepare_query L rnd (g\<lparr>g_breaker := b\<rparr>) q = prepare_query L rnd g q"
    by (simp add: prepare_query_def)
  obtain send where p: "prepare_query L rnd g q = (send, ?sent, ?orig)"
    using assms(1,2) by (simp add: prepare_query_def Let_def)
  note ex = exchange_first_acceptable [OF al [unfolded ok] br [unfolded p]]
  obtain k where f: "List.find (stops w ?n send ?sent ?us) [0..<?n] = Some k" and nc: "\<not> w_canceled w k"
    and r: "r = finish_reply L ?sent ?orig (projr (attempt w ?n k (?us ! k) send))"
    using assms(4) unfolding ex by (auto split: option.splits if_splits)
  from f have k: "k < ?n" and "stops w ?n send ?sent ?us k" by (auto simp: find_Some_iff)
  with nc have "acceptable w ?n send ?sent ?us k" by (simp add: stops_def)
  moreover have ne: "?sent \<noteq> []" using assms(3) by simp
  ultimately obtain m0 where m0: "attempt w ?n k (?us ! k) send = Inr (Some m0)" "questions m0 \<noteq> []"
    "qs_name (hd (questions m0)) = ?sent"
    by (auto simp: acceptable_def echo_ok_def split: option.splits)
  define m where "m = strip_ecs_from_msg L (restore_dns_case ?sent ?orig m0)"
  have rm: "r = Some m" using r m0(1) ne by (simp add: finish_reply_def m_def)
  have secs: "answer m = map (restore_rr ?sent ?orig) (answer m0)" "ns m = map (restore_rr ?sent ?orig) (ns m0)"
    using m0(2,3) by (cases "questions m0"; auto simp: m_def strip_ecs_from_msg_def restore_dns_case_def Let_def split: option.split)+
  have "qs_name (hd (questions m)) = ?orig"
    using m0(2,3) by (cases "questions m0") (simp_all add: m_def restore_dns_case_def Let_def)
  moreover have "\<forall>x\<in>set (answer m) \<union> set (ns m). h_name (rr_hdr x) = ?sent \<longrightarrow> h_name (rr_hdr x) = ?orig"
    unfolding secs by (auto simp: restore_rr_def)
  moreover have "attempt w ?n k (?us ! k) (fst (prepare_query L rnd g q)) = Inr (Some m0)"
    using m0(1) by (simp add: p)
  ultimately show ?thesis using k rm m0(3) by (intro exI [of _ k] exI [of _ m]) blast
qed

definition ex_echo_wire :: wire where
  "ex_echo_wire = \<lparr>w_deadline = None, w_time = (\<lambda>i. 0), w_send = (\<lambda>i u tcp slice m. Inr (Some m)), w_canceled = (\<lambda>i. False)\<rparr>"

lemma case_echo_required_witness:
  "\<exists>m. fst (group_exchange ref_lib even ex_echo_wire (ex_group\<lparr>g_randomize := True\<rparr>) ex_query) = Inr (Some m) \<and>
     qs_name (hd (questions m)) = ''a.example.'' \<and> randomize_dns_case even ''a.example.'' = ''A.ExAmPlE.''"
proof -
  let ?g = "ex_group\<lparr>g_randomize := True\<rparr>"
  obtain res g' where e: "group_exchange ref_lib even ex_echo_wire ?g ex_query = (res, g')" by fastforce
  have "\<not> isl (fst (group_exchange ref_lib even ex_echo_wire ?g ex_query))" by code_simp
  with e obtain r where r: "res = Inr r" by (metis fst_conv sum.collapse(2))
  have q: "g_randomize ?g" "questions ex_query \<noteq> []" "qs_name (hd (questions ex_query)) \<noteq> []"
    by (simp_all add: ex_query_def)
  obtain m where "r = Some m" "qs_name (hd (questions m)) = qs_name (hd (questions ex_query))"
    using case_echo_required [OF q e [unfolded r]] by blast
  moreover have "qs_name (hd (questions ex_query)) = ''a.example.''" by (simp add: ex_query_def)
  moreover have "randomize_dns_case even ''a.example.'' = ''A.ExAmPlE.''" by code_simp
  ultimately show ?thesis using e r by simp
qed

text \<open>No member can eat the others' time: when every attempt ends within its slice, member \<open>i\<close> of
  \<open>n\<close> still has at least its proportional share \<open>(n - i) / n\<close> of the budget left.\<close>

theorem slices_fair:
  assumes "w_deadline w = Some dl" "w_time w 0 \<le> dl"
    "\<forall>j<i. \<exists>s. attempt_slice w n j = Some s \<and> w_time w (Suc j) \<le> w_time w j + s"
    "i < n"
  shows "(dl - w_time w 0) * int (n - i) \<le> (dl - w_time w i) * int n"
  using assms(3,4)
proof (induction i)
  case 0
  then show ?case by simp
next
  case (Suc i)
  then have IH: "(dl - w_time w 0) * int (n - i) \<le> (dl - w_time w i) * int n" by simp
  define R where "R = dl - w_time w i"
  have n: "int n - int i = int (n - i)" "0 < int (n - i)" "int (n - Suc i) = int (n - i) - 1" "0 < int n"
    using Suc.prems(2) by simp_all
  have "0 \<le> (dl - w_time w 0) * int (n - i)" using assms(2) by simp
  with IH have "0 \<le> R * int n" by (simp add: R_def)
  then have R0: "0 \<le> R" using n(4) by (simp add: zero_le_mult_iff)
  obtain s where s: "attempt_slice w n i = Some s" "w_time w (Suc i) \<le> w_time w i + s" using Suc.prems(1) by blast
  have sq: "s = R div int (n - i)"
    using s(1) assms(1) R0 by (simp add: attempt_slice_def go_quot_def R_def n(1))
  have "s * int (n - i) \<le> R"
    unfolding sq using n(2) R0 by (metis minus_mod_eq_div_mult pos_mod_sign diff_le_self le_numeral_extra(3) diff_ge_0_iff_ge cancel_comm_monoid_add_class.diff_cancel diff_left_mono diff_zero)
  then have left: "R * (int (n - i) - 1) \<le> (R - s) * int (n - i)" by (simp add: algebra_simps)
  have "R - s \<le> dl - w_time w (Suc i)" using s(2) by (simp add: R_def)
  then have "R * (int (n - i) - 1) \<le> (dl - w_time w (Suc i)) * int (n - i)"
    using left n(2) by (meson mult_right_mono order_trans less_imp_le)
  then have "R * (int (n - i) - 1) * int n \<le> (dl - w_time w (Suc i)) * int (n - i) * int n"
    using n(4) by (simp add: mult_right_mono)
  moreover have "(dl - w_time w 0) * int (n - i) * (int (n - i) - 1) \<le> R * int n * (int (n - i) - 1)"
    using IH n(2) by (intro mult_right_mono) (simp_all add: R_def)
  ultimately have "((dl - w_time w 0) * (int (n - i) - 1)) * int (n - i) \<le> ((dl - w_time w (Suc i)) * int n) * int (n - i)"
    by (simp add: algebra_simps)
  then have "(dl - w_time w 0) * (int (n - i) - 1) \<le> (dl - w_time w (Suc i)) * int n"
    using n(2) by (simp only: mult_le_cancel_right_pos)
  then show ?case by (simp only: n(3))
qed

lemma slices_fair_witness:
  "attempt_slice ex_wire 2 0 = Some (3 * second div 2) \<and>
   (3 * second - w_time ex_wire 0) * int (2 - 1) \<le> (3 * second - w_time ex_wire 1) * int 2"
proof -
  have s: "attempt_slice ex_wire 2 0 = Some (3 * second div 2)"
    by (simp add: attempt_slice_def ex_wire_def go_quot_def)
  have "(3 * second - w_time ex_wire 0) * int (2 - 1) \<le> (3 * second - w_time ex_wire 1) * int 2"
  proof (rule slices_fair)
    show "w_deadline ex_wire = Some (3 * second)" "w_time ex_wire 0 \<le> 3 * second"
      by (simp_all add: ex_wire_def)
    show "\<forall>j<1. \<exists>s. attempt_slice ex_wire 2 j = Some s \<and> w_time ex_wire (Suc j) \<le> w_time ex_wire j + s"
      using s by (simp add: ex_wire_def)
  qed simp
  with s show ?thesis by blast
qed

lemma find_SomeD: "List.find P xs = Some x \<Longrightarrow> x \<in> set xs \<and> P x"
  by (auto simp: find_Some_iff)

lemma probe_loop_spec:
  "probe_loop sent cased plain stopped i k reach =
     (case List.find (\<lambda>j. stopped j \<or> cased j = Some (sent j)) [i..<i + k] of
        None \<Rightarrow> Some (False, reach \<or> (\<exists>j\<in>{i..<i + k}. cased j \<noteq> None \<or> plain j))
      | Some j \<Rightarrow> if stopped j then None
          else Some (True, reach \<or> (\<exists>l\<in>{i..<j}. cased l \<noteq> None \<or> plain l)))"
proof (induction k arbitrary: i reach)
  case 0
  show ?case by simp
next
  case (Suc k)
  have u: "[i..<i + Suc k] = i # [Suc i..<Suc i + k]" by (simp add: upt_rec)
  have s: "{i..<i + Suc k} = insert i {Suc i..<Suc i + k}" by auto
  show ?case
  proof (cases "stopped i \<or> cased i = Some (sent i)")
    case True
    then show ?thesis unfolding u by auto
  next
    case False
    let ?r = "reach \<or> cased i \<noteq> None \<or> plain i"
    have step: "probe_loop sent cased plain stopped i (Suc k) reach = probe_loop sent cased plain stopped (Suc i) k ?r"
      using False by (auto split: option.split)
    have "{i..<j} = insert i {Suc i..<j}" if "Suc i \<le> j" for j using that by auto
    moreover have "Suc i \<le> j" if "List.find (\<lambda>j. stopped j \<or> cased j = Some (sent j)) [Suc i..<Suc i + k] = Some j" for j
      using find_SomeD [OF that] by (auto simp del: upt_Suc)
    ultimately show ?thesis unfolding step Suc.IH u s using False by (auto split: option.split)
  qed
qed

text \<open>The startup probe turns 0x20 off exactly when it is on, the probe ran to its end, no member
  echoed the cased name, and some member was reachable without preserving the case; it never turns
  it on and changes nothing else.\<close>

theorem probe_disables_iff:
  "probe0x20 sent cased plain stopped g = g\<lparr>g_randomize := g_randomize g \<and>
     \<not> ((\<forall>i<length (g_members g). \<not> stopped i \<and> cased i \<noteq> Some (sent i)) \<and>
        (\<exists>i<length (g_members g). cased i \<noteq> None \<or> plain i))\<rparr>"
proof (cases "g_randomize g")
  case False
  then show ?thesis by (simp add: probe0x20_def)
next
  case True
  then have keep: "g\<lparr>g_randomize := True\<rparr> = g" by (cases g) simp
  let ?n = "length (g_members g)"
  let ?f = "List.find (\<lambda>j. stopped j \<or> cased j = Some (sent j)) [0..<?n]"
  show ?thesis
  proof (cases ?f)
    case None
    then have no: "(\<forall>i<?n. \<not> stopped i \<and> cased i \<noteq> Some (sent i)) = True" by (auto simp: find_None_iff)
    have "probe_loop sent cased plain stopped 0 ?n False =
        Some (False, \<exists>i<?n. cased i \<noteq> None \<or> plain i)"
      using None by (auto simp: probe_loop_spec)
    with True keep show ?thesis
      unfolding no by (cases "\<exists>i<?n. cased i \<noteq> None \<or> plain i") (simp_all add: probe0x20_def decide0x20_def)
  next
    case (Some j)
    then have j: "j < ?n" "stopped j \<or> cased j = Some (sent j)" using find_SomeD by fastforce+
    then have some: "(\<forall>i<?n. \<not> stopped i \<and> cased i \<noteq> Some (sent i)) = False" by auto
    have "probe_loop sent cased plain stopped 0 ?n False =
        (if stopped j then None else Some (True, \<exists>l\<in>{0..<j}. cased l \<noteq> None \<or> plain l))"
      using Some by (simp add: probe_loop_spec)
    with True keep show ?thesis unfolding some by (simp add: probe0x20_def decide0x20_def)
  qed
qed

lemma probe_casing_differs:
  "probe_casing k rnds sent i = probe_name \<Longrightarrow> sent = probe_name"
  by (induction k rnds sent i rule: probe_casing.induct) (auto split: if_splits)

text \<open>Accepted trust entries fix the transport: every member of the group built from a validated
  list is plain UDP to an IPv4 address, or DNS over TLS to an IPv4 address with a certificate name
  that is a host name or an IP, so no member is ever dialled by name and no DoT member lacks a name
  to verify.\<close>

theorem trust_members_typed:
  assumes "validate_upstreams china trust"
    "u \<in> set (g_members (new_trust_group (parse_trust_entry_list (normalize_upstream_list trust))))"
  shows "\<exists>d. valid_ip_port d \<and>
    ((up_net u = ''udp'' \<and> up_tls u = None \<and> up_addr u = add_default_port d ''53'') \<or>
     (up_net u = ''tcp-tls'' \<and> up_addr u = add_default_port d ''853'' \<and>
        (\<exists>nm. up_tls u = Some nm \<and> nm \<noteq> [] \<and> (hostname_re nm \<or> parse_ip nm \<noteq> None))))"
proof -
  from assms(2) obtain t where t: "t \<in> set trust" "u = trust_member (parse_trust_entry (trim_space t))"
    by (auto simp: new_trust_group_def parse_trust_entry_list_def normalize_upstream_list_def)
  have v: "validate_trust_entry t"
    using assms(1) t(1) by (auto simp: validate_upstreams_def list_all_iff split: if_splits)
  have take0: "take i s \<noteq> []" if "0 < i" "last_index_byte s at_sign = Some i" for i and s :: string
    using that by (auto simp: last_index_byte_def index_where_Some)
  show ?thesis
  proof (cases "last_index_byte (trim_space t) at_sign")
    case None
    with v show ?thesis
      by (auto simp: t(2) trust_member_def parse_trust_entry_def validate_trust_entry_def Let_def)
  next
    case (Some i)
    show ?thesis
    proof (cases "i > 0")
      case True
      with v Some take0 [OF True Some] show ?thesis
        by (auto simp: t(2) trust_member_def parse_trust_entry_def validate_trust_entry_def Let_def split: if_splits)
    next
      case False
      with v Some show ?thesis
        by (auto simp: t(2) trust_member_def parse_trust_entry_def validate_trust_entry_def Let_def)
    qed
  qed
qed

lemma trust_members_typed_witness:
  "\<exists>u d. u \<in> set (g_members (new_trust_group (parse_trust_entry_list (normalize_upstream_list [''dns.example@8.8.8.8 ''])))) \<and>
     valid_ip_port d \<and> up_addr u = add_default_port d ''853''"
proof -
  have v: "validate_upstreams [''223.5.5.5''] [''dns.example@8.8.8.8 '']" by code_simp
  let ?g = "new_trust_group (parse_trust_entry_list (normalize_upstream_list [''dns.example@8.8.8.8 '']))"
  have g: "g_members ?g \<noteq> []" "up_net (hd (g_members ?g)) \<noteq> ''udp''" by code_simp+
  then have "hd (g_members ?g) \<in> set (g_members ?g)" by simp
  from trust_members_typed [OF v this] this g(2) show ?thesis by blast
qed

end
