(* ===== verification/Query_Log.thy ===== *)
theory Query_Log
  imports Prelude
begin

text \<open>
  \<open>querylog.go\<close>: the in-memory query log, a ring buffer of fixed capacity with a retention
  window applied when it is read. The locale \<open>recency_log\<close> states what a log of bounded size
  shows, newest entry first; the ring buffer is its interpretation, so the search is proved
  against the abstract list only.
\<close>

section \<open>State and operations\<close>

record query_log_entry =
  q_time :: go_time
  q_client :: string
  q_name :: string
  q_qtype :: string
  q_verdict :: string
  q_reason :: string
  q_upstream :: string
  q_cache_hit :: bool
  q_rcode :: string
  q_ips :: "string list"
  q_duration_us :: int

text \<open>The entry of a fresh slot is Go's zero value.\<close>

definition zero_entry :: query_log_entry where
  "zero_entry = \<lparr>q_time = 0, q_client = [], q_name = [], q_qtype = [], q_verdict = [],
     q_reason = [], q_upstream = [], q_cache_hit = False, q_rcode = [], q_ips = [], q_duration_us = 0\<rparr>"

record query_log =
  l_buf :: "query_log_entry list"
  l_next :: nat
  l_filled :: bool
  l_retention :: duration

definition query_log_capacity :: int where "query_log_capacity = 8192"
definition query_log_retention :: duration where "query_log_retention = 5 * minute"
definition query_log_max_ips :: int where "query_log_max_ips = 8"

definition new_query_log :: "int \<Rightarrow> duration \<Rightarrow> query_log" where
  "new_query_log capacity retention =
     (let c = (if capacity \<le> 0 then query_log_capacity else capacity);
          r = (if retention \<le> 0 then query_log_retention else retention)
      in \<lparr>l_buf = replicate (nat c) zero_entry, l_next = 0, l_filled = False, l_retention = r\<rparr>)"

definition ql_add :: "query_log_entry \<Rightarrow> query_log \<Rightarrow> query_log" where
  "ql_add e l =
     (let l1 = l\<lparr>l_buf := (l_buf l)[l_next l := e], l_next := Suc (l_next l)\<rparr> in
      if l_next l1 = length (l_buf l1) then l1\<lparr>l_next := 0, l_filled := True\<rparr> else l1)"

definition ql_count :: "query_log \<Rightarrow> nat" where
  "ql_count l = (if l_filled l then length (l_buf l) else l_next l)"

definition ql_index :: "query_log \<Rightarrow> nat \<Rightarrow> nat" where
  "ql_index l i =
     (let idx = int (l_next l) - 1 - int i in
      nat (if idx < 0 then idx + int (length (l_buf l)) else idx))"

definition ql_matches :: "string \<Rightarrow> query_log_entry \<Rightarrow> bool" where
  "ql_matches q e \<longleftrightarrow>
     \<not> (q \<noteq> [] \<and> \<not> contains_str (to_lower (q_name e)) q \<and> \<not> contains_str (to_lower (q_client e)) q)"

text \<open>The loop of \<open>search\<close>; \<open>i\<close> counts from the newest entry.\<close>

function ql_loop :: "query_log \<Rightarrow> string \<Rightarrow> nat \<Rightarrow> go_time \<Rightarrow> nat \<Rightarrow> query_log_entry list \<Rightarrow>
    query_log_entry list" where
  "ql_loop l q limit cutoff i out =
     (if i < ql_count l \<and> length out < limit then
        let e = l_buf l ! ql_index l i in
        if q_time e < cutoff then out
        else ql_loop l q limit cutoff (Suc i) (if ql_matches q e then out @ [e] else out)
      else out)"
  by pat_completeness auto
termination
  by (relation "measure (\<lambda>(l, q, limit, cutoff, i, out). ql_count l - i)") auto

declare ql_loop.simps [simp del]

definition ql_search :: "query_log \<Rightarrow> string \<Rightarrow> int \<Rightarrow> go_time \<Rightarrow> query_log_entry list" where
  "ql_search l q limit now =
     (let lim = (if limit \<le> 0 then 200 else limit);
          q' = to_lower (trim_space q);
          cutoff = now - l_retention l
      in ql_loop l q' (nat lim) cutoff 0 [])"

section \<open>The interface\<close>

text \<open>A log of bounded size: its view is the newest entries, newest first, up to its size.\<close>

locale recency_log =
  fixes empty :: "'l"
    and add :: "'e \<Rightarrow> 'l \<Rightarrow> 'l"
    and view :: "'l \<Rightarrow> 'e list"
    and good :: "'l \<Rightarrow> bool"
    and size_bound :: nat
  assumes view_empty: "view empty = []"
    and good_empty: "good empty"
    and good_add: "good l \<Longrightarrow> good (add e l)"
    and view_add: "good l \<Longrightarrow> view (add e l) = take size_bound (e # view l)"
begin

lemma good_fold: "good l \<Longrightarrow> good (fold add es l)"
  by (induction es arbitrary: l) (simp_all add: good_add)

lemma view_fold:
  "good l \<Longrightarrow> view (fold add es l) = take size_bound (rev es @ take size_bound (view l)) \<or> es = []"
proof (induction es rule: rev_induct)
  case Nil
  then show ?case by simp
next
  case (snoc e es)
  have g: "good (fold add es l)" using snoc.prems by (rule good_fold)
  have "view (fold add (es @ [e]) l) = take size_bound (e # view (fold add es l))"
    using g by (simp add: view_add)
  with snoc show ?case by (cases "es = []"; cases size_bound) (auto simp: min_def)
qed

text \<open>Whatever was added, the log shows the newest entries and never more than its bound.\<close>

lemma view_history: "view (fold add es empty) = take size_bound (rev es)"
  using view_fold [OF good_empty, of es] by (cases "es = []") (auto simp: view_empty)

end

section \<open>The ring buffer implements it\<close>

definition ql_view :: "query_log \<Rightarrow> query_log_entry list" where
  "ql_view l = map (\<lambda>i. l_buf l ! ql_index l i) [0..<ql_count l]"

definition ql_good :: "nat \<Rightarrow> duration \<Rightarrow> query_log \<Rightarrow> bool" where
  "ql_good c r l \<longleftrightarrow> length (l_buf l) = c \<and> 0 < c \<and> l_next l < c \<and> l_retention l = r"

definition ql_capacity :: "int \<Rightarrow> nat" where
  "ql_capacity capacity = nat (if capacity \<le> 0 then query_log_capacity else capacity)"

definition ql_window :: "duration \<Rightarrow> duration" where
  "ql_window retention = (if retention \<le> 0 then query_log_retention else retention)"

lemma length_ql_view [simp]: "length (ql_view l) = ql_count l"
  by (simp add: ql_view_def)

lemma ql_view_nth: "i < ql_count l \<Longrightarrow> ql_view l ! i = l_buf l ! ql_index l i"
  by (simp add: ql_view_def)

lemma ql_good_new: "ql_good (ql_capacity c) (ql_window r) (new_query_log c r)"
  by (simp add: ql_good_def new_query_log_def ql_capacity_def ql_window_def query_log_capacity_def Let_def)

lemma ql_good_add: "ql_good c r l \<Longrightarrow> ql_good c r (ql_add e l)"
  by (auto simp: ql_good_def ql_add_def Let_def)

lemma ql_view_add:
  assumes "ql_good c r l"
  shows "ql_view (ql_add e l) = take c (e # ql_view l)"
proof (rule nth_equalityI)
  have g: "length (l_buf l) = c" "0 < c" "l_next l < c" using assms by (auto simp: ql_good_def)
  show len: "length (ql_view (ql_add e l)) = length (take c (e # ql_view l))"
    using g by (auto simp: ql_count_def ql_add_def Let_def min_def)
  fix i assume "i < length (ql_view (ql_add e l))"
  then have i: "i < ql_count (ql_add e l)" "i < c"
    using len by simp_all
  have n: "l_next (ql_add e l) = (if Suc (l_next l) = c then 0 else Suc (l_next l))"
    "l_buf (ql_add e l) = (l_buf l)[l_next l := e]"
    using g by (auto simp: ql_add_def Let_def)
  show "ql_view (ql_add e l) ! i = take c (e # ql_view l) ! i"
  proof (cases i)
    case 0
    then have "ql_index (ql_add e l) i = l_next l"
      using n g by (auto simp: ql_index_def Let_def)
    with i n g 0 show ?thesis by (simp add: ql_view_nth)
  next
    case (Suc j)
    have j: "j < ql_count l" using i(1) g Suc by (auto simp: ql_count_def ql_add_def Let_def split: if_splits)
    have eq: "ql_index (ql_add e l) i = ql_index l j"
      using n g Suc i(2) by (auto simp: ql_index_def Let_def)
    have "ql_index l j \<noteq> l_next l"
      using g i(2) Suc by (auto simp: ql_index_def Let_def)
    then show ?thesis using i n eq j Suc by (simp add: ql_view_nth)
  qed
qed

interpretation ring: recency_log "new_query_log c r" ql_add ql_view
  "ql_good (ql_capacity c) (ql_window r)" "ql_capacity c" for c r
proof unfold_locales
  show "ql_view (new_query_log c r) = []"
    by (simp add: ql_view_def ql_count_def new_query_log_def Let_def)
qed (simp_all add: ql_good_new ql_good_add ql_view_add)

lemma ql_loop_view:
  "ql_loop l q limit cutoff i out =
     out @ take (limit - length out)
       (filter (ql_matches q) (takeWhile (\<lambda>e. \<not> q_time e < cutoff) (drop i (ql_view l))))"
proof (induction "ql_count l - i" arbitrary: i out)
  case 0
  then show ?case by (subst ql_loop.simps) simp
next
  case (Suc n)
  then have i: "i < ql_count l" by simp
  have d: "drop i (ql_view l) = (l_buf l ! ql_index l i) # drop (Suc i) (ql_view l)"
    using i by (metis Cons_nth_drop_Suc length_ql_view ql_view_nth)
  show ?case
  proof (cases "length out < limit")
    case False
    then show ?thesis by (subst ql_loop.simps) simp
  next
    case True
    let ?e = "l_buf l ! ql_index l i"
    have IH: "\<And>out. ql_loop l q limit cutoff (Suc i) out = out @ take (limit - length out)
       (filter (ql_matches q) (takeWhile (\<lambda>e. \<not> q_time e < cutoff) (drop (Suc i) (ql_view l))))"
      using Suc by (intro Suc.hyps(1)) simp
    have "limit - length out = Suc (limit - Suc (length out))" using True by simp
    then show ?thesis
      using True i by (subst ql_loop.simps) (simp add: Let_def d IH)
  qed
qed

section \<open>Properties\<close>

text \<open>After any sequence of queries the search returns exactly the newest entries that are
  still inside the ring and the retention window and whose name or client contains the search
  text in lower case, newest first, cut to the limit (200 when none is given); entries pushed
  out of the ring and everything older than the first stale entry are gone.\<close>

theorem ql_search_spec:
  "ql_search (fold ql_add es (new_query_log c r)) q limit now =
     take (nat (if limit \<le> 0 then 200 else limit))
       (filter (ql_matches (to_lower (trim_space q)))
         (takeWhile (\<lambda>e. \<not> q_time e < now - ql_window r) (take (ql_capacity c) (rev es))))"
proof -
  have "ql_good (ql_capacity c) (ql_window r) (fold ql_add es (new_query_log c r))"
    by (rule ring.good_fold [OF ring.good_empty])
  then have "l_retention (fold ql_add es (new_query_log c r)) = ql_window r"
    by (simp add: ql_good_def)
  then show ?thesis
    by (simp add: ql_search_def Let_def ql_loop_view ring.view_history)
qed

text \<open>The ring never grows: whatever is logged, the buffer keeps the capacity it was made
  with, the write position stays inside it, and a search returns at most that many entries.\<close>

theorem ql_bounded:
  "length (l_buf (fold ql_add es (new_query_log c r))) = ql_capacity c \<and>
   l_next (fold ql_add es (new_query_log c r)) < ql_capacity c \<and>
   length (ql_search (fold ql_add es (new_query_log c r)) q limit now) \<le> ql_capacity c"
proof -
  have g: "ql_good (ql_capacity c) (ql_window r) (fold ql_add es (new_query_log c r))"
    by (rule ring.good_fold [OF ring.good_empty])
  let ?l = "fold ql_add es (new_query_log c r)"
  have "length (ql_view ?l) \<le> ql_capacity c"
    by (simp only: ring.view_history length_take min.cobounded2)
  moreover have "length (ql_search ?l q limit now) \<le> length (ql_view ?l)"
    unfolding ql_search_def Let_def ql_loop_view
    by (simp del: length_ql_view)
       (meson length_filter_le length_takeWhile_le le_trans min.cobounded1)
  ultimately show ?thesis using g by (simp add: ql_good_def)
qed

end
