(* ===== verification/Intercept_Hosts.thy ===== *)
theory Intercept_Hosts
  imports Policy_Runtime
begin

text \<open>
  The capture-host overlay of \<open>handler.go\<close>: the snapshot built from the interception document and
  the lookup of the resolver group and owning extension of a name. \<open>orderedInterceptModules\<close> is in
  \<open>api_intercept.go\<close>. The records hold the fields of the document that this code reads.
\<close>

record intercept_module =
  im_id :: string
  im_enabled :: bool
  im_capture_hosts :: "string list"
  im_capture_dns :: string

record intercept_document =
  doc_mitm_enabled :: bool
  doc_modules :: "intercept_module list"
  doc_execution_order :: "string list"

record host_binding =
  hb_module :: string
  hb_capture_dns :: string
  hb_order :: nat

record host_snapshot =
  hs_exact :: "(string, host_binding) go_map"
  hs_wildcard :: "(string \<times> host_binding) list"

definition ordered_intercept_modules :: "intercept_document \<Rightarrow> intercept_module list" where
  "ordered_intercept_modules d =
     (let by_id = fold (\<lambda>m t. AList.update (im_id m) m t) (doc_modules d) []
      in List.map_filter (\<lambda>i. map_of by_id i) (doc_execution_order d))"

definition norm_pattern :: "string \<Rightarrow> string" where
  "norm_pattern p = to_lower (trim_suffix (trim_space p) [dot])"

definition star_dot :: string where "star_dot = [CHR ''*'', dot]"

definition add_pattern ::
    "host_binding \<Rightarrow> string \<Rightarrow> host_snapshot \<times> string list \<Rightarrow> host_snapshot \<times> string list" where
  "add_pattern b pat st =
     (let (s, seen) = st; p = norm_pattern pat in
      if has_prefix p star_dot then
        (let suffix = trim_prefix p star_dot in
         if suffix \<in> set seen then (s, seen)
         else (s\<lparr>hs_wildcard := hs_wildcard s @ [(suffix, b)]\<rparr>, suffix # seen))
      else if p \<noteq> [] \<and> map_of (hs_exact s) p = None
      then (s\<lparr>hs_exact := AList.update p b (hs_exact s)\<rparr>, seen)
      else (s, seen))"

fun add_modules ::
    "nat \<Rightarrow> intercept_module list \<Rightarrow> host_snapshot \<times> string list \<Rightarrow> host_snapshot \<times> string list" where
  "add_modules order [] st = st"
| "add_modules order (m # ms) st =
     add_modules (Suc order) ms
       (if im_enabled m then
          fold (add_pattern \<lparr>hb_module = im_id m, hb_capture_dns = im_capture_dns m, hb_order = order\<rparr>)
            (im_capture_hosts m) st
        else st)"

definition empty_hosts :: host_snapshot where
  "empty_hosts = \<lparr>hs_exact = [], hs_wildcard = []\<rparr>"

definition new_intercept_host_snapshot :: "intercept_document \<Rightarrow> host_snapshot" where
  "new_intercept_host_snapshot d =
     (if \<not> doc_mitm_enabled d then empty_hosts
      else fst (add_modules 0 (ordered_intercept_modules d) (empty_hosts, [])))"

definition wildcard_hit :: "string \<Rightarrow> string \<Rightarrow> bool" where
  "wildcard_hit name suffix \<longleftrightarrow> length name > length suffix + 1 \<and> has_suffix name (dot # suffix)"

fun capture_loop :: "host_binding option \<Rightarrow> string \<Rightarrow> (string \<times> host_binding) list \<Rightarrow> host_binding option" where
  "capture_loop exact name [] = None"
| "capture_loop exact name ((suffix, b) # ws) =
     (if (case exact of None \<Rightarrow> False | Some e \<Rightarrow> hb_order b \<ge> hb_order e) then None
      else if wildcard_hit name suffix then Some b
      else capture_loop exact name ws)"

text \<open>\<open>CaptureDNS\<close>: resolver group and owning extension, \<open>None\<close> when nothing matched.\<close>

definition capture_dns :: "host_snapshot option \<Rightarrow> string \<Rightarrow> (string \<times> string) option" where
  "capture_dns so nm = (case so of None \<Rightarrow> None | Some s \<Rightarrow>
     let name = to_lower (strip_dot nm);
         exact = map_of (hs_exact s) name
     in case capture_loop exact name (hs_wildcard s) of
          Some b \<Rightarrow> Some (hb_capture_dns b, hb_module b)
        | None \<Rightarrow> map_option (\<lambda>e. (hb_capture_dns e, hb_module e)) exact)"

definition host_match :: "host_snapshot option \<Rightarrow> string \<Rightarrow> bool" where
  "host_match so nm \<longleftrightarrow> capture_dns so nm \<noteq> None"

definition intercept_capture_dns_trust :: string where "intercept_capture_dns_trust = ''trust''"

definition capture_dns_for_name :: "host_snapshot option \<Rightarrow> string \<Rightarrow> string \<times> string" where
  "capture_dns_for_name so nm = (case capture_dns so nm of
     Some r \<Rightarrow> r | None \<Rightarrow> (intercept_capture_dns_trust, []))"

section \<open>The snapshot as a list of patterns\<close>

text \<open>Every pattern with its binding, in execution order.\<close>

fun patterns :: "nat \<Rightarrow> intercept_module list \<Rightarrow> (host_binding \<times> string) list" where
  "patterns k [] = []"
| "patterns k (m # ms) =
     (if im_enabled m then
        map (\<lambda>p. (\<lparr>hb_module = im_id m, hb_capture_dns = im_capture_dns m, hb_order = k\<rparr>, p)) (im_capture_hosts m)
      else []) @ patterns (Suc k) ms"

definition exacts :: "(host_binding \<times> string) list \<Rightarrow> (string \<times> host_binding) list" where
  "exacts L = map (\<lambda>(b, p). (norm_pattern p, b))
     (filter (\<lambda>(b, p). \<not> has_prefix (norm_pattern p) star_dot \<and> norm_pattern p \<noteq> []) L)"

definition wilds :: "(host_binding \<times> string) list \<Rightarrow> (string \<times> host_binding) list" where
  "wilds L = map (\<lambda>(b, p). (trim_prefix (norm_pattern p) star_dot, b))
     (filter (\<lambda>(b, p). has_prefix (norm_pattern p) star_dot) L)"

lemma add_modules_fold:
  "add_modules k ms st = fold (\<lambda>(b, p). add_pattern b p) (patterns k ms) st"
  by (induction k ms st rule: add_modules.induct) (simp_all add: fold_map comp_def)

lemma find_snoc: "List.find P (xs @ [x]) =
    (case List.find P xs of None \<Rightarrow> if P x then Some x else None | Some y \<Rightarrow> Some y)"
  by (induction xs) auto

lemma exacts_snoc: "exacts (L @ [(b, p)]) = exacts L @
    (if \<not> has_prefix (norm_pattern p) star_dot \<and> norm_pattern p \<noteq> [] then [(norm_pattern p, b)] else [])"
  by (simp add: exacts_def)

lemma wilds_snoc: "wilds (L @ [(b, p)]) = wilds L @
    (if has_prefix (norm_pattern p) star_dot then [(trim_prefix (norm_pattern p) star_dot, b)] else [])"
  by (simp add: wilds_def)

text \<open>
  What the snapshot holds of the patterns \<open>L\<close>: the first binding of each exact name; the first
  binding of each suffix, in order, so that searching it finds the same entry.
\<close>

definition built :: "(host_binding \<times> string) list \<Rightarrow> host_snapshot \<times> string list \<Rightarrow> bool" where
  "built L st \<longleftrightarrow> map_of (hs_exact (fst st)) = map_of (exacts L) \<and>
     set (snd st) = fst ` set (wilds L) \<and>
     set (hs_wildcard (fst st)) \<subseteq> set (wilds L) \<and>
     (\<forall>P. List.find (\<lambda>x. P (fst x)) (hs_wildcard (fst st)) = List.find (\<lambda>x. P (fst x)) (wilds L)) \<and>
     sorted (map (hb_order \<circ> snd) (hs_wildcard (fst st)))"

lemma find_Some_if: "x \<in> set xs \<Longrightarrow> P x \<Longrightarrow> \<exists>y. List.find P xs = Some y"
  by (induction xs) auto

lemma built_step:
  assumes "built L st" and le: "\<forall>x\<in>set L. hb_order (fst x) \<le> hb_order b"
  shows "built (L @ [(b, p)]) (add_pattern b p st)"
proof -
  obtain s seen where st: "st = (s, seen)" by fastforce
  from assms(1) have E: "map_of (hs_exact s) = map_of (exacts L)" and S: "set seen = fst ` set (wilds L)"
    and W: "set (hs_wildcard s) \<subseteq> set (wilds L)"
    and F: "\<And>P. List.find (\<lambda>x. P (fst x)) (hs_wildcard s) = List.find (\<lambda>x. P (fst x)) (wilds L)"
    and O: "sorted (map (hb_order \<circ> snd) (hs_wildcard s))" by (auto simp: built_def st)
  have wle: "\<forall>x\<in>set (wilds L). hb_order (snd x) \<le> hb_order b"
    using le by (auto simp: wilds_def)
  show ?thesis
  proof (cases "has_prefix (norm_pattern p) star_dot")
    case False
    have "map_of (hs_exact (fst (add_pattern b p st))) = map_of (exacts (L @ [(b, p)]))"
      using False E by (cases "map_of (exacts L) (norm_pattern p)")
        (auto simp: add_pattern_def st Let_def exacts_snoc map_add_def fun_eq_iff split: option.split)
    moreover have "snd (add_pattern b p st) = seen" "hs_wildcard (fst (add_pattern b p st)) = hs_wildcard s"
      using False by (auto simp: add_pattern_def st Let_def)
    moreover have "wilds (L @ [(b, p)]) = wilds L" using False by (simp add: wilds_snoc)
    ultimately show ?thesis using S W F O by (simp add: built_def)
  next
    case True
    let ?x = "trim_prefix (norm_pattern p) star_dot"
    have ws: "wilds (L @ [(b, p)]) = wilds L @ [(?x, b)]" and es: "exacts (L @ [(b, p)]) = exacts L"
      using True by (simp_all add: wilds_snoc exacts_snoc)
    show ?thesis
    proof (cases "?x \<in> set seen")
      case seen: True
      have add: "add_pattern b p st = (s, seen)" using True seen by (simp add: add_pattern_def st)
      have F': "List.find (\<lambda>x. P (fst x)) (wilds L @ [(?x, b)]) = List.find (\<lambda>x. P (fst x)) (wilds L)" for P
      proof (cases "P ?x")
        case True
        with seen S obtain y where "List.find (\<lambda>x. P (fst x)) (wilds L) = Some y"
          using find_Some_if [of _ "wilds L" "\<lambda>x. P (fst x)"] by fastforce
        then show ?thesis by (simp add: find_snoc)
      qed (simp add: find_snoc split: option.split)
      show ?thesis unfolding built_def add ws es using E S seen W F F' O by auto
    next
      case new: False
      have add: "add_pattern b p st = (s\<lparr>hs_wildcard := hs_wildcard s @ [(?x, b)]\<rparr>, ?x # seen)"
        using True new by (simp add: add_pattern_def st Let_def)
      have "sorted (map (hb_order \<circ> snd) (hs_wildcard s @ [(?x, b)]))"
        using O W wle by (auto simp: sorted_append)
      then show ?thesis unfolding built_def add ws es using E S W F by (auto simp: find_snoc)
    qed
  qed
qed

lemma built_patterns:
  "sorted (map (hb_order \<circ> fst) L) \<Longrightarrow> built L (fold (\<lambda>(b, p). add_pattern b p) L (empty_hosts, []))"
proof (induction L rule: rev_induct)
  case Nil
  show ?case by (simp add: built_def empty_hosts_def exacts_def wilds_def)
next
  case (snoc x L)
  obtain b p where x: "x = (b, p)" by fastforce
  have "built L (fold (\<lambda>(b, p). add_pattern b p) L (empty_hosts, []))"
    using snoc by (simp add: sorted_append)
  moreover have "\<forall>y\<in>set L. hb_order (fst y) \<le> hb_order b"
    using snoc.prems by (auto simp: sorted_append x)
  ultimately show ?case unfolding x using built_step by simp
qed

section \<open>The lookup as a search\<close>

lemma capture_loop_find:
  "sorted (map (hb_order \<circ> snd) ws) \<Longrightarrow> capture_loop exact name ws =
     (case List.find (\<lambda>x. wildcard_hit name (fst x)) ws of None \<Rightarrow> None
      | Some w \<Rightarrow> (case exact of None \<Rightarrow> Some (snd w)
          | Some e \<Rightarrow> if hb_order (snd w) < hb_order e then Some (snd w) else None))"
proof (induction exact name ws rule: capture_loop.induct)
  case (1 exact name)
  then show ?case by simp
next
  case (2 exact name suffix b ws)
  have later: "hb_order b \<le> hb_order (snd w)" if "List.find Q ws = Some w" for Q w
    using 2(2) that by (auto simp: find_Some_iff)
  show ?case
  proof (cases exact)
    case None
    with 2 show ?thesis by auto
  next
    case (Some e)
    show ?thesis
    proof (cases "hb_order e \<le> hb_order b")
      case True
      have "hb_order e \<le> hb_order (snd w)" if "List.find (\<lambda>x. wildcard_hit name (fst x)) ws = Some w" for w
        using later [OF that] True by simp
      with True Some show ?thesis by (auto simp: not_less split: option.split)
    next
      case False
      with 2 Some show ?thesis by simp
    qed
  qed
qed

definition pattern_covers :: "string \<Rightarrow> string \<Rightarrow> bool" where
  "pattern_covers p name \<longleftrightarrow>
     (if has_prefix (norm_pattern p) star_dot
      then \<exists>x. x \<noteq> [] \<and> name = x @ dot # trim_prefix (norm_pattern p) star_dot
      else norm_pattern p \<noteq> [] \<and> name = norm_pattern p)"

lemma wildcard_hit_iff: "wildcard_hit name s \<longleftrightarrow> (\<exists>x. x \<noteq> [] \<and> name = x @ dot # s)"
  by (auto simp: wildcard_hit_def has_suffix_iff)

lemma map_of_exacts:
  "map_of (exacts L) n = map_option fst (List.find (\<lambda>(b, p). \<not> has_prefix (norm_pattern p) star_dot \<and>
     norm_pattern p \<noteq> [] \<and> norm_pattern p = n) L)"
  by (induction L) (auto simp: exacts_def)

lemma find_wilds:
  "map_option snd (List.find (\<lambda>x. wildcard_hit n (fst x)) (wilds L)) =
     map_option fst (List.find (\<lambda>(b, p). has_prefix (norm_pattern p) star_dot \<and>
       wildcard_hit n (trim_prefix (norm_pattern p) star_dot)) L)"
  by (induction L) (auto simp: wilds_def)

text \<open>Of two searches through bindings in order, the one that finds the earlier binding decides.\<close>

lemma find_either:
  assumes "sorted (map (hb_order \<circ> fst) L)"
    and "\<And>x y. x \<in> set L \<Longrightarrow> y \<in> set L \<Longrightarrow> hb_order (fst x) = hb_order (fst y) \<Longrightarrow> fst x = fst y"
  shows "map_option fst (List.find (\<lambda>x. P x \<or> Q x) L) =
    (case map_option fst (List.find P L) of None \<Rightarrow> map_option fst (List.find Q L)
     | Some w \<Rightarrow> (case map_option fst (List.find Q L) of None \<Rightarrow> Some w
         | Some e \<Rightarrow> if hb_order w < hb_order e then Some w else Some e))"
  using assms
proof (induction L)
  case Nil
  show ?case by simp
next
  case (Cons x L)
  have later: "hb_order (fst x) \<le> hb_order (fst w) \<and> (hb_order (fst x) = hb_order (fst w) \<longrightarrow> fst x = fst w)"
    if "List.find R L = Some w" for R w
  proof -
    have w: "w \<in> set L" using that by (auto simp: find_Some_iff)
    then have "hb_order (fst x) \<le> hb_order (fst w)" using Cons.prems(1) by auto
    moreover have "hb_order (fst x) = hb_order (fst w) \<longrightarrow> fst x = fst w"
      using Cons.prems(2) [of x w] w by simp
    ultimately show ?thesis by simp
  qed
  show ?case
  proof (cases "P x \<or> Q x")
    case False
    have "sorted (map (hb_order \<circ> fst) L)" using Cons.prems(1) by (simp add: comp_def)
    moreover have "\<And>x y. x \<in> set L \<Longrightarrow> y \<in> set L \<Longrightarrow> hb_order (fst x) = hb_order (fst y) \<Longrightarrow> fst x = fst y"
      using Cons.prems(2) by auto
    ultimately have IH: "map_option fst (List.find (\<lambda>x. P x \<or> Q x) L) =
      (case map_option fst (List.find P L) of None \<Rightarrow> map_option fst (List.find Q L)
       | Some w \<Rightarrow> (case map_option fst (List.find Q L) of None \<Rightarrow> Some w
           | Some e \<Rightarrow> if hb_order w < hb_order e then Some w else Some e))" by (rule Cons.IH)
    have "List.find P (x # L) = List.find P L" "List.find Q (x # L) = List.find Q L"
      "List.find (\<lambda>x. P x \<or> Q x) (x # L) = List.find (\<lambda>x. P x \<or> Q x) L" using False by simp_all
    then show ?thesis by (simp only: IH)
  next
    case True
    show ?thesis
    proof (cases "List.find P L"; cases "List.find Q L")
      fix w e assume w: "List.find P L = Some w" and e: "List.find Q L = Some e"
      with later [OF w] later [OF e] True show ?thesis by (cases "P x"; cases "Q x") auto
    next
      fix w assume w: "List.find P L = Some w" and e: "List.find Q L = None"
      with later [OF w] True show ?thesis by (cases "P x"; cases "Q x") auto
    next
      fix e assume w: "List.find P L = None" and e: "List.find Q L = Some e"
      with later [OF e] True show ?thesis by (cases "P x"; cases "Q x") auto
    qed (use True in \<open>cases "P x"; cases "Q x"; auto\<close>)
  qed
qed

lemma patterns_order: "x \<in> set (patterns k ms) \<Longrightarrow> k \<le> hb_order (fst x)"
  by (induction k ms rule: patterns.induct) (auto split: if_splits dest: Suc_leD)

lemma patterns_sorted: "sorted (map (hb_order \<circ> fst) (patterns k ms))"
proof (induction k ms rule: patterns.induct)
  case (1 k)
  show ?case by simp
next
  case (2 k m ms)
  have "\<forall>x\<in>set (patterns (Suc k) ms). k \<le> hb_order (fst x)"
    using patterns_order [of _ "Suc k" ms] by force
  then show ?case using 2 by (auto simp: sorted_append comp_def sorted_replicate map_replicate_const)
qed

lemma patterns_binding:
  "x \<in> set (patterns k ms) \<Longrightarrow> y \<in> set (patterns k ms) \<Longrightarrow> hb_order (fst x) = hb_order (fst y) \<Longrightarrow> fst x = fst y"
proof (induction k ms rule: patterns.induct)
  case (1 k)
  then show ?case by simp
next
  case (2 k m ms)
  have "\<And>z. z \<in> set (patterns (Suc k) ms) \<Longrightarrow> k < hb_order (fst z)"
    using patterns_order [of _ "Suc k" ms] by force
  with 2 show ?case by (fastforce split: if_splits)
qed

lemma find_patterns:
  "map_option (\<lambda>x. (hb_capture_dns (fst x), hb_module (fst x))) (List.find (\<lambda>x. C (snd x)) (patterns k ms)) =
   map_option (\<lambda>m. (im_capture_dns m, im_id m))
     (List.find (\<lambda>m. im_enabled m \<and> (\<exists>p\<in>set (im_capture_hosts m). C p)) ms)"
proof (induction k ms rule: patterns.induct)
  case (1 k)
  show ?case by simp
next
  case (2 k m ms)
  have app: "List.find R (xs @ ys) = (case List.find R xs of None \<Rightarrow> List.find R ys | Some z \<Rightarrow> Some z)"
    for R and xs ys :: "(host_binding \<times> string) list" by (induction xs) auto
  have hosts: "List.find (\<lambda>x. C (snd x)) (map (Pair b) hs) = map_option (Pair b) (List.find C hs)"
    for b :: host_binding and hs by (induction hs) auto
  have none: "List.find C hs = None \<longleftrightarrow> \<not> (\<exists>p\<in>set hs. C p)" for hs by (auto simp: find_None_iff)
  show ?case
  proof (cases "im_enabled m \<and> (\<exists>p\<in>set (im_capture_hosts m). C p)")
    case True
    then obtain z where "List.find C (im_capture_hosts m) = Some z" using none by fastforce
    with True show ?thesis by (simp add: app hosts)
  next
    case False
    then have "im_enabled m \<Longrightarrow> List.find C (im_capture_hosts m) = None" using none by blast
    with False 2 show ?thesis by (auto simp: app hosts)
  qed
qed

section \<open>Property\<close>

text \<open>Capture is first match in execution order: with interception on, a name is captured by the
  first enabled extension, in the document's execution order, that declares a pattern covering it,
  exact hosts and wildcards alike, and its resolver group is that extension's; a wildcard covers
  strict subdomains only, and with interception off nothing is captured.\<close>

theorem capture_first_module:
  "capture_dns (Some (new_intercept_host_snapshot d)) nm =
     (if doc_mitm_enabled d then
        map_option (\<lambda>m. (im_capture_dns m, im_id m))
          (List.find (\<lambda>m. im_enabled m \<and> (\<exists>p\<in>set (im_capture_hosts m). pattern_covers p (to_lower (strip_dot nm))))
            (ordered_intercept_modules d))
      else None)"
proof (cases "doc_mitm_enabled d")
  case False
  then show ?thesis by (simp add: new_intercept_host_snapshot_def capture_dns_def empty_hosts_def Let_def)
next
  case True
  let ?L = "patterns 0 (ordered_intercept_modules d)"
  let ?n = "to_lower (strip_dot nm)"
  let ?P = "\<lambda>(b :: host_binding, p). has_prefix (norm_pattern p) star_dot \<and>
       wildcard_hit ?n (trim_prefix (norm_pattern p) star_dot)"
  let ?Q = "\<lambda>(b :: host_binding, p). \<not> has_prefix (norm_pattern p) star_dot \<and> norm_pattern p \<noteq> [] \<and> norm_pattern p = ?n"
  define s where "s = new_intercept_host_snapshot d"
  have "built ?L (fold (\<lambda>(b, p). add_pattern b p) ?L (empty_hosts, []))"
    by (rule built_patterns [OF patterns_sorted])
  then have "built ?L (add_modules 0 (ordered_intercept_modules d) (empty_hosts, []))"
    by (simp add: add_modules_fold)
  then have E: "map_of (hs_exact s) = map_of (exacts ?L)"
    and F: "\<And>P. List.find (\<lambda>x. P (fst x)) (hs_wildcard s) = List.find (\<lambda>x. P (fst x)) (wilds ?L)"
    and O: "sorted (map (hb_order \<circ> snd) (hs_wildcard s))"
    using True by (auto simp: s_def new_intercept_host_snapshot_def built_def)
  define w where "w = map_option fst (List.find ?P ?L)"
  define e where "e = map_option fst (List.find ?Q ?L)"
  have loop: "capture_loop e ?n (hs_wildcard s) =
      (case w of None \<Rightarrow> None | Some b \<Rightarrow> (case e of None \<Rightarrow> Some b
        | Some x \<Rightarrow> if hb_order b < hb_order x then Some b else None))"
    unfolding capture_loop_find [OF O] F w_def find_wilds [symmetric]
    by (cases "List.find (\<lambda>x. wildcard_hit ?n (fst x)) (wilds ?L)") simp_all
  have "map_option fst (List.find (\<lambda>x. ?P x \<or> ?Q x) ?L) =
    (case w of None \<Rightarrow> e | Some b \<Rightarrow> (case e of None \<Rightarrow> Some b
        | Some x \<Rightarrow> if hb_order b < hb_order x then Some b else Some x))"
    unfolding w_def e_def by (rule find_either [OF patterns_sorted patterns_binding])
  moreover have "(\<lambda>x. ?P x \<or> ?Q x) = (\<lambda>x. pattern_covers (snd x) ?n)"
    by (auto simp: pattern_covers_def wildcard_hit_iff fun_eq_iff)
  ultimately have "map_option fst (List.find (\<lambda>x. pattern_covers (snd x) ?n) ?L) =
    (case capture_loop e ?n (hs_wildcard s) of None \<Rightarrow> e | Some b \<Rightarrow> Some b)"
    unfolding loop by (simp split: option.split)
  moreover have "capture_dns (Some s) nm =
      map_option (\<lambda>b. (hb_capture_dns b, hb_module b))
        (case capture_loop e ?n (hs_wildcard s) of None \<Rightarrow> e | Some b \<Rightarrow> Some b)"
    by (simp add: capture_dns_def Let_def E map_of_exacts e_def split: option.split)
  ultimately have "capture_dns (Some s) nm = map_option (\<lambda>b. (hb_capture_dns b, hb_module b))
      (map_option fst (List.find (\<lambda>x. pattern_covers (snd x) ?n) ?L))"
    by (simp only:)
  then have "capture_dns (Some s) nm =
      map_option (\<lambda>x. (hb_capture_dns (fst x), hb_module (fst x))) (List.find (\<lambda>x. pattern_covers (snd x) ?n) ?L)"
    by (simp add: option.map_comp comp_def)
  then show ?thesis using True find_patterns [of "\<lambda>p. pattern_covers p ?n"] by (simp add: s_def)
qed

end
