(* ===== verification/Cache.thy ===== *)
theory Cache
  imports Dns_Msg
begin

text \<open>
  \<open>cache.go\<close>: the capacity-bounded TTL cache of final DNS answers. Every operation runs under
  the cache's mutex, so it is one function on the cache; the injectable clock is the argument
  \<open>now\<close> and the order in which Go ranges over the map when it evicts is the argument \<open>it\<close>, any
  arrangement of the entries. The two readings of the clock in one put are one. A nil \<open>*Cache\<close> is \<open>None\<close> where the code accepts it. The locale
  \<open>response_cache\<close> is what the resolver relies on: a lookup shows only what was put since the
  last flush, and a put with an old epoch does nothing.
\<close>

section \<open>State\<close>

record cache_key =
  k_name :: string
  k_qtype :: u16
  k_dnssec_ok :: bool
  k_checking_disabled :: bool

record cache_options =
  o_dnssec_ok :: bool
  o_checking_disabled :: bool

record cache_metadata =
  cm_verdict :: string
  cm_reason :: string
  cm_upstream :: string

record cache_entry =
  e_msg :: msg
  e_expiry :: go_time
  e_meta :: cache_metadata

record cache =
  c_map :: "(cache_key, cache_entry) go_map"
  c_max :: int
  c_epoch :: u64

definition no_options :: cache_options where
  "no_options = \<lparr>o_dnssec_ok = False, o_checking_disabled = False\<rparr>"

definition no_metadata :: cache_metadata where
  "no_metadata = \<lparr>cm_verdict = [], cm_reason = [], cm_upstream = []\<rparr>"

definition cache_options_from_msg :: "dns_lib \<Rightarrow> msg option \<Rightarrow> cache_options" where
  "cache_options_from_msg L mo =
     (case mo of None \<Rightarrow> no_options
      | Some m \<Rightarrow>
          let opts = no_options\<lparr>o_checking_disabled := checking_disabled m\<rparr> in
          (case lib_is_edns0 L m of None \<Rightarrow> opts
           | Some i \<Rightarrow> opts\<lparr>o_dnssec_ok := lib_do L (extra m ! i)\<rparr>))"

definition new_cache_key :: "dns_lib \<Rightarrow> string \<Rightarrow> u16 \<Rightarrow> cache_options \<Rightarrow> cache_key" where
  "new_cache_key L name qtype opts =
     \<lparr>k_name = to_lower (lib_fqdn L name), k_qtype = qtype,
      k_dnssec_ok = o_dnssec_ok opts, k_checking_disabled = o_checking_disabled opts\<rparr>"

definition new_cache :: "int \<Rightarrow> cache" where
  "new_cache max_entries = \<lparr>c_map = [], c_max = max_entries, c_epoch = 0\<rparr>"

section \<open>Operations\<close>

fun cap_section_ttls :: "rr list \<Rightarrow> u32 \<Rightarrow> rr list" where
  "cap_section_ttls [] mx = []"
| "cap_section_ttls (r # rs) mx =
     (if rr_is_OPT r then r
      else if rr_ttl r > mx then set_rr_ttl mx r
      else r) # cap_section_ttls rs mx"

text \<open>What a lookup does to the copy it hands out.\<close>

definition with_ttls :: "u32 \<Rightarrow> msg \<Rightarrow> msg" where
  "with_ttls secs m = m\<lparr>answer := map (set_rr_ttl secs) (answer m),
     ns := cap_section_ttls (ns m) secs, extra := cap_section_ttls (extra m) secs\<rparr>"

definition get_with_metadata_options ::
    "dns_lib \<Rightarrow> cache \<Rightarrow> go_time \<Rightarrow> string \<Rightarrow> u16 \<Rightarrow> cache_options \<Rightarrow> (msg \<times> cache_metadata) option" where
  "get_with_metadata_options L c now name qtype opts =
     (let k = new_cache_key L name qtype opts in
      case map_of (c_map c) k of
        None \<Rightarrow> None
      | Some e \<Rightarrow>
          if \<not> now < e_expiry e then None
          else
            let remaining = e_expiry e - now;
                secs = (word_of_int (remaining div second) :: u32)
            in Some (with_ttls secs (e_msg e), e_meta e))"

definition get_with_metadata ::
    "dns_lib \<Rightarrow> cache \<Rightarrow> go_time \<Rightarrow> string \<Rightarrow> u16 \<Rightarrow> (msg \<times> cache_metadata) option" where
  "get_with_metadata L c now name qtype = get_with_metadata_options L c now name qtype no_options"

definition cache_get :: "dns_lib \<Rightarrow> cache \<Rightarrow> go_time \<Rightarrow> string \<Rightarrow> u16 \<Rightarrow> msg option" where
  "cache_get L c now name qtype = map_option fst (get_with_metadata L c now name qtype)"

definition stale_grace :: duration where "stale_grace = 1 * hour"

definition get_stale_with_metadata_options ::
    "dns_lib \<Rightarrow> cache \<Rightarrow> go_time \<Rightarrow> string \<Rightarrow> u16 \<Rightarrow> u32 \<Rightarrow> cache_options \<Rightarrow>
       (msg \<times> cache_metadata) option \<times> cache" where
  "get_stale_with_metadata_options L c now name qtype ttl_secs opts =
     (let k = new_cache_key L name qtype opts in
      case map_of (c_map c) k of
        None \<Rightarrow> (None, c)
      | Some e \<Rightarrow>
          if now - e_expiry e > stale_grace
          then (None, c\<lparr>c_map := AList.delete k (c_map c)\<rparr>)
          else (Some (with_ttls ttl_secs (e_msg e), e_meta e), c))"

definition get_stale_with_metadata ::
    "dns_lib \<Rightarrow> cache \<Rightarrow> go_time \<Rightarrow> string \<Rightarrow> u16 \<Rightarrow> u32 \<Rightarrow> (msg \<times> cache_metadata) option \<times> cache" where
  "get_stale_with_metadata L c now name qtype ttl_secs =
     get_stale_with_metadata_options L c now name qtype ttl_secs no_options"

definition get_stale :: "dns_lib \<Rightarrow> cache \<Rightarrow> go_time \<Rightarrow> string \<Rightarrow> u16 \<Rightarrow> u32 \<Rightarrow> msg option \<times> cache" where
  "get_stale L c now name qtype ttl_secs =
     (let (r, c') = get_stale_with_metadata L c now name qtype ttl_secs in (map_option fst r, c'))"

text \<open>
  The loop of \<open>evictOneLocked\<close>: \<open>i\<close> entries were looked at, \<open>first\<close> is the first key. The code's
  \<open>if i++; i >= sample\<close> leaves the loop after the eighth live entry. Leaving it without an
  expired entry deletes \<open>first\<close>; on an empty map that is the zero key, which is not there.
\<close>

definition evict_sample :: nat where "evict_sample = 8"

definition zero_key :: cache_key where
  "zero_key = \<lparr>k_name = [], k_qtype = 0, k_dnssec_ok = False, k_checking_disabled = False\<rparr>"

fun evict_loop :: "go_time \<Rightarrow> cache_key \<Rightarrow> nat \<Rightarrow> (cache_key \<times> cache_entry) list \<Rightarrow> cache_key" where
  "evict_loop now first i [] = first"
| "evict_loop now first i ((k, e) # es) =
     (let first' = (if i = 0 then k else first) in
      if \<not> now < e_expiry e then k
      else if Suc i \<ge> evict_sample then first'
      else evict_loop now first' (Suc i) es)"

definition evict_one :: "go_time \<Rightarrow> (cache_key \<times> cache_entry) list \<Rightarrow> cache \<Rightarrow> cache" where
  "evict_one now it c = c\<lparr>c_map := AList.delete (evict_loop now zero_key 0 it) (c_map c)\<rparr>"

definition put_locked ::
    "dns_lib \<Rightarrow> (cache_key \<times> cache_entry) list \<Rightarrow> cache \<Rightarrow> go_time \<Rightarrow> string \<Rightarrow> u16 \<Rightarrow> cache_options \<Rightarrow>
       msg \<Rightarrow> duration \<Rightarrow> cache_metadata \<Rightarrow> cache" where
  "put_locked L it c now name qtype opts m ttl meta =
     (let k = new_cache_key L name qtype opts;
          c1 = (if int (length (c_map c)) \<ge> c_max c
                then (case map_of (c_map c) k of None \<Rightarrow> evict_one now it c | Some _ \<Rightarrow> c)
                else c)
      in c1\<lparr>c_map := AList.update k \<lparr>e_msg = m, e_expiry = now + ttl, e_meta = meta\<rparr> (c_map c1)\<rparr>)"

definition put_with_metadata ::
    "dns_lib \<Rightarrow> (cache_key \<times> cache_entry) list \<Rightarrow> cache \<Rightarrow> go_time \<Rightarrow> string \<Rightarrow> u16 \<Rightarrow> msg \<Rightarrow> duration \<Rightarrow>
       cache_metadata \<Rightarrow> cache" where
  "put_with_metadata L it c now name qtype m ttl meta =
     put_locked L it c now name qtype no_options m ttl meta"

definition cache_put ::
    "dns_lib \<Rightarrow> (cache_key \<times> cache_entry) list \<Rightarrow> cache \<Rightarrow> go_time \<Rightarrow> string \<Rightarrow> u16 \<Rightarrow> msg \<Rightarrow> duration \<Rightarrow> cache" where
  "cache_put L it c now name qtype m ttl =
     put_locked L it c now name qtype no_options m ttl no_metadata"

definition cache_epoch :: "cache option \<Rightarrow> u64" where
  "cache_epoch co = (case co of None \<Rightarrow> 0 | Some c \<Rightarrow> c_epoch c)"

definition put_at_epoch_with_metadata_options ::
    "dns_lib \<Rightarrow> (cache_key \<times> cache_entry) list \<Rightarrow> cache \<Rightarrow> go_time \<Rightarrow> string \<Rightarrow> u16 \<Rightarrow> cache_options \<Rightarrow>
       msg \<Rightarrow> duration \<Rightarrow> u64 \<Rightarrow> cache_metadata \<Rightarrow> cache" where
  "put_at_epoch_with_metadata_options L it c now name qtype opts m ttl epoch meta =
     (if epoch \<noteq> c_epoch c then c
      else put_locked L it c now name qtype opts m ttl meta)"

definition put_at_epoch_with_metadata ::
    "dns_lib \<Rightarrow> (cache_key \<times> cache_entry) list \<Rightarrow> cache \<Rightarrow> go_time \<Rightarrow> string \<Rightarrow> u16 \<Rightarrow> msg \<Rightarrow> duration \<Rightarrow>
       u64 \<Rightarrow> cache_metadata \<Rightarrow> cache" where
  "put_at_epoch_with_metadata L it c now name qtype m ttl epoch meta =
     put_at_epoch_with_metadata_options L it c now name qtype no_options m ttl epoch meta"

definition put_at_epoch ::
    "dns_lib \<Rightarrow> (cache_key \<times> cache_entry) list \<Rightarrow> cache \<Rightarrow> go_time \<Rightarrow> string \<Rightarrow> u16 \<Rightarrow> msg \<Rightarrow> duration \<Rightarrow>
       u64 \<Rightarrow> cache" where
  "put_at_epoch L it c now name qtype m ttl epoch =
     put_at_epoch_with_metadata L it c now name qtype m ttl epoch no_metadata"

definition cache_len :: "cache \<Rightarrow> nat" where
  "cache_len c = length (c_map c)"

definition flush_entries :: "go_time \<Rightarrow> cache \<Rightarrow> cache" where
  "flush_entries past c = c\<lparr>c_map := map (\<lambda>(k, e). (k, e\<lparr>e_expiry := past\<rparr>)) (c_map c),
     c_epoch := c_epoch c + 1\<rparr>"

definition cache_flush :: "cache option \<Rightarrow> go_time \<Rightarrow> cache option" where
  "cache_flush co now = (case co of None \<Rightarrow> None | Some c \<Rightarrow> Some (flush_entries now c))"

section \<open>What an operation does to the entries\<close>

text \<open>The view the resolver has of the cache: the answer stored under a key that is still live.\<close>

definition live :: "cache \<Rightarrow> go_time \<Rightarrow> cache_key \<Rightarrow> (msg \<times> cache_metadata) option" where
  "live c t k = (case map_of (c_map c) k of None \<Rightarrow> None
     | Some e \<Rightarrow> if t < e_expiry e then Some (e_msg e, e_meta e) else None)"

definition stored :: "msg \<Rightarrow> go_time \<Rightarrow> duration \<Rightarrow> cache_metadata \<Rightarrow> cache_entry" where
  "stored m now ttl meta = \<lparr>e_msg = m, e_expiry = now + ttl, e_meta = meta\<rparr>"

lemma get_None_iff:
  "get_with_metadata_options L c t n q opts = None \<longleftrightarrow> live c t (new_cache_key L n q opts) = None"
  by (simp add: get_with_metadata_options_def live_def Let_def split: option.split)

lemma get_shows_live:
  assumes "get_with_metadata_options L c t n q opts = Some (m, meta)"
  obtains m0 secs where "live c t (new_cache_key L n q opts) = Some (m0, meta)" "m = with_ttls secs m0"
  using assms
  by (auto simp: get_with_metadata_options_def live_def Let_def split: option.splits if_splits)

definition evicts :: "(cache_key \<times> cache_entry) list \<Rightarrow> cache \<Rightarrow> go_time \<Rightarrow> cache_key \<Rightarrow> cache_key option" where
  "evicts it c now k =
     (if int (length (c_map c)) \<ge> c_max c \<and> map_of (c_map c) k = None
      then Some (evict_loop now zero_key 0 it) else None)"

lemma map_of_put_locked:
  "map_of (c_map (put_locked L it c now n q opts m ttl meta)) k' =
     (if k' = new_cache_key L n q opts then Some (stored m now ttl meta)
      else if evicts it c now (new_cache_key L n q opts) = Some k' then None
      else map_of (c_map c) k')"
  by (auto simp: put_locked_def Let_def evict_one_def evicts_def stored_def split: option.splits)

lemma put_locked_same [simp]:
  "c_max (put_locked L it c now n q opts m ttl meta) = c_max c"
  "c_epoch (put_locked L it c now n q opts m ttl meta) = c_epoch c"
  by (auto simp: put_locked_def Let_def evict_one_def split: option.splits)

lemma map_of_flush:
  "map_of (c_map (flush_entries past c)) k =
     map_option (\<lambda>e. e\<lparr>e_expiry := past\<rparr>) (map_of (c_map c) k)"
  by (induction "c_map c" arbitrary: c) (auto simp: flush_entries_def map_of_map)

lemma flush_same [simp]:
  "c_max (flush_entries past c) = c_max c" "c_epoch (flush_entries past c) = c_epoch c + 1"
  "length (c_map (flush_entries past c)) = length (c_map c)"
  "map fst (c_map (flush_entries past c)) = map fst (c_map c)"
  by (auto simp: flush_entries_def)

subsection \<open>Eviction\<close>

lemma evict_loop_result:
  "evict_loop now first i it = k \<Longrightarrow> k = first \<and> it = [] \<or> k = first \<and> 0 < i \<or> k \<in> fst ` set it"
  by (induction now first i it rule: evict_loop.induct) (auto simp: Let_def split: if_splits)

text \<open>Without an expired entry in the sample the first key goes; otherwise an expired one does.\<close>

lemma evict_loop_live:
  "i < evict_sample \<Longrightarrow> (\<forall>p\<in>set (take (evict_sample - i) it). now < e_expiry (snd p)) \<Longrightarrow>
     evict_loop now first i it = (if i = 0 \<and> it \<noteq> [] then fst (hd it) else first)"
proof (induction now first i it rule: evict_loop.induct)
  case (1 now first i)
  then show ?case by simp
next
  case (2 now first i k e es)
  have "evict_sample - i = Suc (evict_sample - Suc i)" using 2 by simp
  then show ?case using 2 by (auto simp: Let_def)
qed

lemma evict_loop_expired:
  "i < evict_sample \<Longrightarrow> (\<exists>p\<in>set (take (evict_sample - i) it). e_expiry (snd p) \<le> now) \<Longrightarrow>
     \<exists>e. (evict_loop now first i it, e) \<in> set it \<and> e_expiry e \<le> now"
proof (induction now first i it rule: evict_loop.induct)
  case (1 now first i)
  then show ?case by simp
next
  case (2 now first i k e es)
  have s: "evict_sample - i = Suc (evict_sample - Suc i)" using 2(2) by simp
  show ?case
  proof (cases "now < e_expiry e")
    case False
    then show ?thesis by (auto simp: Let_def)
  next
    case True
    with 2(3) s have ex: "\<exists>p\<in>set (take (evict_sample - Suc i) es). e_expiry (snd p) \<le> now" by auto
    then have lt: "Suc i < evict_sample" by (cases "evict_sample - Suc i") auto
    have "\<exists>e. (evict_loop now (if i = 0 then k else first) (Suc i) es, e) \<in> set es \<and> e_expiry e \<le> now"
      by (rule 2(1)) (use True lt ex in \<open>simp_all add: not_le\<close>)
    then show ?thesis using True lt by (auto simp: Let_def)
  qed
qed

section \<open>Steps and invariant\<close>

text \<open>The state changes of the cache, in whatever order its callers interleave them.\<close>

inductive cache_step :: "dns_lib \<Rightarrow> cache \<Rightarrow> cache \<Rightarrow> bool" for L where
  step_put: "mset it = mset (c_map c) \<Longrightarrow>
     cache_step L c (put_locked L it c now n q opts m ttl meta)"
| step_put_at_epoch: "mset it = mset (c_map c) \<Longrightarrow>
     cache_step L c (put_at_epoch_with_metadata_options L it c now n q opts m ttl ep meta)"
| step_get_stale: "cache_step L c (snd (get_stale_with_metadata_options L c now n q secs opts))"
| step_flush: "cache_flush (Some c) now = Some c' \<Longrightarrow> cache_step L c c'"

inductive_cases cache_stepE: "cache_step L c c'"

definition cache_inv :: "cache \<Rightarrow> bool" where
  "cache_inv c \<longleftrightarrow> distinct (map fst (c_map c)) \<and> int (length (c_map c)) \<le> c_max c \<and> 0 < c_max c"

lemma cache_inv_new [keeps_inv]: "0 < n \<Longrightarrow> cache_inv (new_cache n)"
  by (simp add: cache_inv_def new_cache_def)

lemma evict_one_shrinks:
  assumes "cache_inv c" "mset it = mset (c_map c)" "c_map c \<noteq> []"
  shows "Suc (length (c_map (evict_one now it c))) = length (c_map c)"
proof -
  have "it \<noteq> []" using assms(2,3) by auto
  moreover have "set it = set (c_map c)" using assms(2) by (rule mset_eq_setD)
  ultimately have "evict_loop now zero_key 0 it \<in> fst ` set (c_map c)"
    using evict_loop_result [OF refl, of now zero_key 0 it] by auto
  then show ?thesis using assms(1) by (simp add: evict_one_def length_delete_old cache_inv_def)
qed

lemma cache_inv_put [keeps_inv]:
  assumes "cache_inv c" "mset it = mset (c_map c)"
  shows "cache_inv (put_locked L it c now n q opts m ttl meta)"
proof -
  let ?k = "new_cache_key L n q opts"
  let ?full = "int (length (c_map c)) \<ge> c_max c"
  have d: "distinct (map fst (AList.update ?k e xs))" if "distinct (map fst xs)"
    for e and xs :: "(cache_key \<times> cache_entry) list" using that by (rule distinct_update)
  have dk: "distinct (map fst (c_map c))" using assms(1) by (simp add: cache_inv_def)
  consider (old) v where "map_of (c_map c) ?k = Some v"
    | (fresh) "map_of (c_map c) ?k = None" "\<not> ?full"
    | (evict) "map_of (c_map c) ?k = None" ?full by (cases "map_of (c_map c) ?k") auto
  then show ?thesis
  proof cases
    case old
    then have "?k \<in> fst ` set (c_map c)" by (metis map_of_eq_None_iff option.distinct(1))
    with old assms(1) dk show ?thesis
      by (auto simp: put_locked_def Let_def cache_inv_def length_update_old intro: d)
  next
    case fresh
    then have "?k \<notin> fst ` set (c_map c)" by (simp add: map_of_eq_None_iff)
    with fresh assms(1) dk show ?thesis
      by (auto simp: put_locked_def Let_def cache_inv_def length_update_new intro: d)
  next
    case evict
    let ?c1 = "evict_one now it c"
    have ne: "c_map c \<noteq> []" using evict(2) assms(1) by (auto simp: cache_inv_def)
    have len: "Suc (length (c_map ?c1)) = length (c_map c)"
      by (rule evict_one_shrinks) (use assms ne in auto)
    have "map_of (c_map ?c1) ?k = None" using evict(1) by (simp add: evict_one_def)
    then have nk: "?k \<notin> fst ` set (c_map ?c1)" by (simp add: map_of_eq_None_iff)
    have d1: "distinct (map fst (c_map ?c1))"
      using dk by (simp add: evict_one_def distinct_map_fst_delete)
    have mx: "c_max ?c1 = c_max c" by (simp add: evict_one_def)
    show ?thesis
      using evict assms(1) len nk d1 mx
      by (simp add: put_locked_def Let_def cache_inv_def length_update_new d)
  qed
qed

lemma cache_inv_stale [keeps_inv]:
  "cache_inv c \<Longrightarrow> cache_inv (snd (get_stale_with_metadata_options L c now n q secs opts))"
  using length_delete_le [of "new_cache_key L n q opts" "c_map c"]
  by (auto simp: get_stale_with_metadata_options_def Let_def cache_inv_def distinct_map_fst_delete
      split: option.split)

lemma cache_inv_flush [keeps_inv]: "cache_inv c \<Longrightarrow> cache_inv (flush_entries now c)"
  unfolding cache_inv_def by (simp only: flush_same)

lemma cache_inv_step: "cache_step L c c' \<Longrightarrow> cache_inv c \<Longrightarrow> cache_inv c'"
  by (erule cache_stepE)
     (auto simp: put_at_epoch_with_metadata_options_def cache_flush_def intro: keeps_inv)

lemma cache_inv_steps: "(cache_step L)\<^sup>*\<^sup>* c c' \<Longrightarrow> cache_inv c \<Longrightarrow> cache_inv c'"
  by (induction rule: rtranclp_induct) (auto intro: cache_inv_step)

lemma cache_max_steps: "(cache_step L)\<^sup>*\<^sup>* c c' \<Longrightarrow> c_max c' = c_max c"
  by (induction rule: rtranclp_induct)
     (auto elim!: cache_stepE simp: put_at_epoch_with_metadata_options_def cache_flush_def
       get_stale_with_metadata_options_def Let_def split: option.splits)

section \<open>The interface\<close>

locale response_cache =
  fixes canon :: "'q \<Rightarrow> 'k"
    and lookup :: "'c \<Rightarrow> go_time \<Rightarrow> 'k \<Rightarrow> 'v option"
    and put :: "'i \<Rightarrow> 'c \<Rightarrow> go_time \<Rightarrow> 'q \<Rightarrow> 'v \<Rightarrow> duration \<Rightarrow> u64 \<Rightarrow> 'c"
    and flush :: "go_time \<Rightarrow> 'c \<Rightarrow> 'c"
    and epoch :: "'c \<Rightarrow> u64"
  assumes put_old_epoch: "e \<noteq> epoch c \<Longrightarrow> put i c t q v d e = c"
    and put_shows: "lookup (put i c t q v d e) t' k = Some w \<Longrightarrow>
      k = canon q \<and> w = v \<or> lookup c t' k = Some w"
    and epoch_put: "epoch (put i c t q v d e) = epoch c"
    and epoch_flush: "epoch (flush t c) = epoch c + 1"
    and flush_hides: "t \<le> t' \<Longrightarrow> lookup (flush t c) t' k = None"
begin

text \<open>Everything a lookup shows from time \<open>t\<close> on satisfies \<open>P\<close>.\<close>

definition shows_only :: "('k \<Rightarrow> 'v \<Rightarrow> bool) \<Rightarrow> 'c \<Rightarrow> go_time \<Rightarrow> bool" where
  "shows_only P c t \<longleftrightarrow> (\<forall>t' k v. t \<le> t' \<longrightarrow> lookup c t' k = Some v \<longrightarrow> P k v)"

lemma shows_only_flush: "t \<le> t' \<Longrightarrow> shows_only P (flush t c) t'"
  by (simp add: shows_only_def flush_hides)

lemma shows_only_later: "shows_only P c t \<Longrightarrow> t \<le> t' \<Longrightarrow> shows_only P c t'"
  unfolding shows_only_def using order_trans by blast

lemma shows_only_weaken: "shows_only P c t \<Longrightarrow> (\<And>k v. P k v \<Longrightarrow> Q k v) \<Longrightarrow> shows_only Q c t"
  by (auto simp: shows_only_def)

lemma shows_only_put:
  "shows_only P c t \<Longrightarrow> e = epoch c \<longrightarrow> P (canon q) v \<Longrightarrow> shows_only P (put i c s q v d e) t"
  by (cases "e = epoch c") (auto simp: shows_only_def put_old_epoch dest: put_shows)

text \<open>Flushes count up, so a captured epoch does not come back for \<open>2 ^ 64\<close> flushes.\<close>

lemma epoch_flushes: "epoch (fold flush ts c) = epoch c + of_nat (length ts)"
  by (induction ts arbitrary: c) (simp_all add: epoch_flush algebra_simps)

lemma epoch_returns: "epoch (fold flush ts c) = epoch c \<longleftrightarrow> 2 ^ 64 dvd length ts"
  by (simp add: epoch_flushes word_of_nat_eq_0_iff)

end

definition put_answer ::
    "dns_lib \<Rightarrow> (cache_key \<times> cache_entry) list \<Rightarrow> cache \<Rightarrow> go_time \<Rightarrow> string \<times> u16 \<times> cache_options \<Rightarrow>
       msg \<times> cache_metadata \<Rightarrow> duration \<Rightarrow> u64 \<Rightarrow> cache" where
  "put_answer L it c now qn v ttl ep =
     put_at_epoch_with_metadata_options L it c now (fst qn) (fst (snd qn)) (snd (snd qn)) (fst v) ttl ep (snd v)"

definition canon_key :: "dns_lib \<Rightarrow> string \<times> u16 \<times> cache_options \<Rightarrow> cache_key" where
  "canon_key L qn = new_cache_key L (fst qn) (fst (snd qn)) (snd (snd qn))"

interpretation answers: response_cache "canon_key L" live "put_answer L" flush_entries c_epoch for L
proof unfold_locales
  fix e c i t d t' k w and q :: "string \<times> u16 \<times> cache_options" and v :: "msg \<times> cache_metadata"
  show "e \<noteq> c_epoch c \<Longrightarrow> put_answer L i c t q v d e = c"
    by (simp add: put_answer_def put_at_epoch_with_metadata_options_def)
  show "c_epoch (put_answer L i c t q v d e) = c_epoch c"
    by (simp add: put_answer_def put_at_epoch_with_metadata_options_def)
  assume "live (put_answer L i c t q v d e) t' k = Some w"
  then show "k = canon_key L q \<and> w = v \<or> live c t' k = Some w"
    by (auto simp: live_def put_answer_def canon_key_def put_at_epoch_with_metadata_options_def stored_def
        map_of_put_locked split: if_splits option.splits)
qed (auto simp: live_def map_of_flush split: option.split)

section \<open>Properties\<close>

text \<open>An example cache for the witnesses.\<close>

definition ex_cache :: "int \<Rightarrow> cache" where
  "ex_cache n = put_locked ref_lib [] (new_cache n) 0 ''a.example'' type_A no_options ex_answer (300 * second)
     no_metadata"

text \<open>Whatever callers do (puts, epoch-guarded puts, stale lookups that prune, flushes, in any
  order, with any map iteration order), the cache never holds more entries than its capacity
  and never two under one key.\<close>

theorem cache_bounded:
  assumes "0 < n" "(cache_step L)\<^sup>*\<^sup>* (new_cache n) c"
  shows "distinct (map fst (c_map c)) \<and> int (cache_len c) \<le> n"
proof -
  have "cache_inv c" using assms by (blast intro: cache_inv_steps cache_inv_new)
  moreover have "c_max c = n" using cache_max_steps [OF assms(2)] by (simp add: new_cache_def)
  ultimately show ?thesis by (simp add: cache_inv_def cache_len_def)
qed

lemma cache_bounded_witness:
  "0 < (1::int) \<and> (cache_step ref_lib)\<^sup>*\<^sup>* (new_cache 1) (ex_cache 1) \<and> cache_len (ex_cache 1) = 1 \<and>
   int (cache_len (ex_cache 1)) \<le> 1"
proof -
  have "cache_step ref_lib (new_cache 1) (ex_cache 1)"
    unfolding ex_cache_def by (rule step_put) (simp add: new_cache_def)
  then have r: "(cache_step ref_lib)\<^sup>*\<^sup>* (new_cache 1) (ex_cache 1)" by (rule r_into_rtranclp)
  have "cache_len (ex_cache 1) = 1" by code_simp
  with r cache_bounded [OF _ r] show ?thesis by simp
qed

lemma new_cache_key_eq:
  "fqdn_ok L \<Longrightarrow> to_lower n' = to_lower n \<Longrightarrow> new_cache_key L n' q opts = new_cache_key L n q opts"
  by (simp add: new_cache_key_def fqdn_ok_def)

text \<open>An answer that was put is found again until its TTL has run out, whatever the letters'
  case of the name asked for (so 0x20 randomisation does not split the cache), with the decision
  that produced it, every answer TTL counted down to the remaining whole seconds, authority and
  additional TTLs capped to them and OPT records untouched; from the expiry on it is a miss.\<close>

theorem cache_put_get:
  assumes "fqdn_ok L" "to_lower n' = to_lower n"
  shows "get_with_metadata_options L (put_locked L it c now n q opts m ttl meta) t n' q opts =
    (if t < now + ttl
     then Some (with_ttls (word_of_int ((now + ttl - t) div second)) m, meta) else None)"
  using new_cache_key_eq [OF assms]
  by (simp add: get_with_metadata_options_def Let_def map_of_put_locked stored_def)

lemma cache_put_get_witness:
  "get_with_metadata_options ref_lib
     (put_locked ref_lib [] (new_cache 4) 0 ''a.example'' type_A no_options ex_answer (300 * second) no_metadata)
     (20 * second) ''A.eXample'' type_A no_options =
   Some (with_ttls 280 ex_answer, no_metadata)"
proof -
  have "fqdn_ok ref_lib" using ref_lib_ok by (simp add: dns_lib_ok_def)
  moreover have "to_lower ''A.eXample'' = to_lower ''a.example''" by code_simp
  ultimately show ?thesis by (subst cache_put_get) simp_all
qed

text \<open>A put touches no other key, except that a full cache gives up one entry for a new key;
  it gives up a live one only when none of the first eight entries it looked at had expired.\<close>

theorem put_spares_live:
  assumes "mset it = mset (c_map c)" "distinct (map fst (c_map c))"
    "k \<noteq> new_cache_key L n q opts"
    "live (put_locked L it c now n q opts m ttl meta) now k \<noteq> live c now k"
  shows "c_max c \<le> int (cache_len c) \<and> map_of (c_map c) (new_cache_key L n q opts) = None \<and>
    live (put_locked L it c now n q opts m ttl meta) now k = None \<and>
    (\<forall>p\<in>set (take 8 it). now < e_expiry (snd p)) \<and> k = fst (hd it)"
proof -
  have ev: "evicts it c now (new_cache_key L n q opts) = Some k"
    using assms(3,4) by (auto simp: live_def map_of_put_locked split: if_splits)
  then have full: "c_max c \<le> int (cache_len c)" "map_of (c_map c) (new_cache_key L n q opts) = None"
    and k: "evict_loop now zero_key 0 it = k"
    by (auto simp: evicts_def cache_len_def split: if_splits)
  have gone: "live (put_locked L it c now n q opts m ttl meta) now k = None"
    using assms(3) ev by (simp add: live_def map_of_put_locked)
  have s: "set it = set (c_map c)" using assms(1) by (rule mset_eq_setD)
  obtain e where e: "map_of (c_map c) k = Some e" "now < e_expiry e"
    using assms(4) gone by (auto simp: live_def split: option.splits if_splits)
  have all: "\<forall>p\<in>set (take 8 it). now < e_expiry (snd p)"
  proof (rule ccontr)
    assume "\<not> ?thesis"
    then have "\<exists>p\<in>set (take (evict_sample - 0) it). e_expiry (snd p) \<le> now"
      by (auto simp: evict_sample_def not_less)
    then obtain e' where "(k, e') \<in> set it" "e_expiry e' \<le> now"
      using evict_loop_expired [of 0 it now zero_key] k by (auto simp: evict_sample_def)
    then have "map_of (c_map c) k = Some e'"
      using assms(2) by (simp add: s)
    with e \<open>e_expiry e' \<le> now\<close> show False by simp
  qed
  have "it \<noteq> []" using s e(1) by (auto dest: map_of_SomeD)
  then have "k = fst (hd it)"
    using evict_loop_live [of 0 it now zero_key] all k by (simp add: evict_sample_def)
  then show ?thesis using full gone all by simp
qed

lemma put_spares_live_witness:
  "0 < length (c_map (ex_cache 1)) \<and>
   map_of (c_map (ex_cache 1)) (new_cache_key ref_lib ''b.example'' type_A no_options) = None"
proof -
  let ?k = "new_cache_key ref_lib ''a.example'' type_A no_options"
  have "?k \<noteq> new_cache_key ref_lib ''b.example'' type_A no_options \<and> distinct (map fst (c_map (ex_cache 1)))
    \<and> live (put_locked ref_lib (c_map (ex_cache 1)) (ex_cache 1) 5 ''b.example'' type_A no_options ex_answer
         second no_metadata) 5 ?k = None \<and> live (ex_cache 1) 5 ?k \<noteq> None \<and> 0 < length (c_map (ex_cache 1))"
    by code_simp
  then show ?thesis
    using put_spares_live [of "c_map (ex_cache 1)" "ex_cache 1" ?k ref_lib "''b.example''" type_A no_options
      5 ex_answer second no_metadata] by auto
qed

text \<open>C38: A flush makes every name a miss at once, whatever is asked later, keeps every entry as a
  stale answer for the hour of grace, and makes every put that carries the epoch from before the
  flush a no-op.\<close>

theorem flush_semantics:
  assumes "cache_flush (Some c) now = Some c'" "now \<le> t"
  shows "get_with_metadata_options L c' t n q opts = None \<and>
    put_at_epoch_with_metadata_options L it c' t n q opts m ttl (cache_epoch (Some c)) meta = c' \<and>
    (\<forall>e. map_of (c_map c) (new_cache_key L n q opts) = Some e \<longrightarrow> t \<le> now + stale_grace \<longrightarrow>
       fst (get_stale_with_metadata_options L c' t n q secs opts) = Some (with_ttls secs (e_msg e), e_meta e))"
proof -
  have c': "c' = flush_entries now c" using assms(1) by (simp add: cache_flush_def)
  have "live c' t (new_cache_key L n q opts) = None"
    unfolding c' by (rule answers.flush_hides) (rule assms(2))
  moreover have "c_epoch c' \<noteq> cache_epoch (Some c)" by (simp add: c' cache_epoch_def)
  ultimately show ?thesis
    unfolding get_None_iff
    by (auto simp: put_at_epoch_with_metadata_options_def get_stale_with_metadata_options_def Let_def
        c' map_of_flush)
qed

lemma flush_semantics_witness:
  "get_with_metadata_options ref_lib (flush_entries 10 (ex_cache 4)) 20 ''a.example'' type_A no_options = None \<and>
   map_of (c_map (ex_cache 4)) (new_cache_key ref_lib ''a.example'' type_A no_options) \<noteq> None"
proof -
  have "map_of (c_map (ex_cache 4)) (new_cache_key ref_lib ''a.example'' type_A no_options) \<noteq> None"
    by code_simp
  then show ?thesis
    using flush_semantics [of "ex_cache 4" 10 "flush_entries 10 (ex_cache 4)" 20 ref_lib "''a.example''" type_A
      no_options] by (simp add: cache_flush_def)
qed

text \<open>C37: Answers never cross request profiles or names. After a put under one (name, type, DNSSEC-OK,
  checking-disabled) profile a lookup under that profile, names compared without regard to letters'
  case, shows the message and decision of that put and nothing else, with its TTLs counted down, until its
  TTL has run out; and a lookup under any other profile shows what it showed before the put, or
  nothing when it was the entry a full cache gave up for the new one.\<close>

theorem cache_no_cross_profile:
  "get_with_metadata_options L (put_locked L it c now n q opts m ttl meta) t n' q' opts' =
    (if to_lower (lib_fqdn L n') = to_lower (lib_fqdn L n) \<and> q' = q \<and> opts' = opts
     then (if t < now + ttl then Some (with_ttls (word_of_int ((now + ttl - t) div second)) m, meta) else None)
     else if evicts it c now (new_cache_key L n q opts) = Some (new_cache_key L n' q' opts') then None
     else get_with_metadata_options L c t n' q' opts')"
proof -
  have "new_cache_key L n' q' opts' = new_cache_key L n q opts \<longleftrightarrow>
      to_lower (lib_fqdn L n') = to_lower (lib_fqdn L n) \<and> q' = q \<and> opts' = opts"
    by (cases opts; cases opts') (auto simp: new_cache_key_def)
  then show ?thesis
    by (simp add: get_with_metadata_options_def Let_def map_of_put_locked stored_def)
qed

text \<open>An AAAA answer put beside an A answer: each question finds its own.\<close>

lemma cache_no_cross_profile_witness:
  "let c = put_locked ref_lib [] (ex_cache 4) 0 ''A.example'' type_AAAA no_options new_msg second no_metadata in
   map_option fst (get_with_metadata_options ref_lib c 0 ''a.example'' type_AAAA no_options) = Some new_msg \<and>
   get_with_metadata_options ref_lib c 5 ''a.example'' type_A no_options =
     get_with_metadata_options ref_lib (ex_cache 4) 5 ''a.example'' type_A no_options \<and>
   get_with_metadata_options ref_lib (ex_cache 4) 5 ''a.example'' type_A no_options \<noteq> None"
proof -
  have k: "to_lower (lib_fqdn ref_lib ''a.example'') = to_lower (lib_fqdn ref_lib ''A.example'')"
    "evicts [] (ex_cache 4) 0 (new_cache_key ref_lib ''A.example'' type_AAAA no_options) = None"
    "type_A \<noteq> type_AAAA" "with_ttls (word_of_int ((0 + second - 0) div second)) new_msg = new_msg"
    "get_with_metadata_options ref_lib (ex_cache 4) 5 ''a.example'' type_A no_options \<noteq> None" by code_simp+
  show ?thesis unfolding Let_def cache_no_cross_profile using k by simp
qed

text \<open>A stale lookup serves an expired answer with every TTL cut to the stale TTL while it is at
  most an hour past its expiry; later than that it prunes the entry and reports a miss.\<close>

theorem stale_window:
  assumes "map_of (c_map c) (new_cache_key L n q opts) = Some e"
  shows "get_stale_with_metadata_options L c t n q secs opts =
    (if t \<le> e_expiry e + 3600 * second then (Some (with_ttls secs (e_msg e), e_meta e), c)
     else (None, c\<lparr>c_map := AList.delete (new_cache_key L n q opts) (c_map c)\<rparr>)) \<and>
    (\<forall>r\<in>set (answer (with_ttls secs (e_msg e))). rr_ttl r = secs) \<and>
    (\<forall>r\<in>set (ns (with_ttls secs (e_msg e))). rr_is_OPT r \<or> rr_ttl r \<le> secs)"
proof -
  have cap: "\<forall>r\<in>set (cap_section_ttls rs mx). rr_is_OPT r \<or> rr_ttl r \<le> mx" for rs mx
    by (induction rs mx rule: cap_section_ttls.induct) auto
  show ?thesis
    using assms cap
    by (auto simp: get_stale_with_metadata_options_def Let_def stale_grace_def with_ttls_def)
qed

lemma stale_window_witness:
  "fst (get_stale_with_metadata_options ref_lib (ex_cache 4) (400 * second) ''a.example'' type_A 30 no_options) =
     Some (with_ttls 30 ex_answer, no_metadata) \<and>
   fst (get_stale_with_metadata_options ref_lib (ex_cache 4) (3901 * second) ''a.example'' type_A 30 no_options) = None"
proof -
  have m: "map_of (c_map (ex_cache 4)) (new_cache_key ref_lib ''a.example'' type_A no_options) =
      Some \<lparr>e_msg = ex_answer, e_expiry = 300 * second, e_meta = no_metadata\<rparr>"
    by (simp add: ex_cache_def new_cache_def put_locked_def Let_def)
  show ?thesis using stale_window [OF m] by simp
qed

end
