(* ===== verification/Stats.thy ===== *)
theory Stats
  imports Prelude
begin

text \<open>
  The query counters of \<open>handler.go\<close> and their persistence in \<open>stats_persist.go\<close>. Counters are
  atomic 64-bit words that wrap; a nil counter set is \<open>None\<close> and every update leaves it so. The
  JSON encoding is the identity on snapshots; what reading the file yields is a \<open>stats_file\<close>.
\<close>

record stats_counters =
  st_total :: u64
  st_block :: u64
  st_force_direct :: u64
  st_force_proxy :: u64
  st_chnroute_cn :: u64
  st_chnroute_foreign :: u64
  st_china_ok :: u64
  st_china_err :: u64
  st_trust_ok :: u64
  st_trust_err :: u64
  st_cache_hits :: u64
  st_cache_misses :: u64
  st_china_lat_nanos :: u64
  st_china_lat_count :: u64
  st_trust_lat_nanos :: u64
  st_trust_lat_count :: u64

type_synonym stats = "stats_counters option"

definition zero_stats :: stats_counters where
  "zero_stats = \<lparr>st_total = 0, st_block = 0, st_force_direct = 0, st_force_proxy = 0, st_chnroute_cn = 0,
     st_chnroute_foreign = 0, st_china_ok = 0, st_china_err = 0, st_trust_ok = 0, st_trust_err = 0,
     st_cache_hits = 0, st_cache_misses = 0, st_china_lat_nanos = 0, st_china_lat_count = 0,
     st_trust_lat_nanos = 0, st_trust_lat_count = 0\<rparr>"

section \<open>Updates\<close>

definition bump_total :: "stats \<Rightarrow> stats" where
  "bump_total = map_option (\<lambda>s. s\<lparr>st_total := st_total s + 1\<rparr>)"

definition bump_china :: "bool \<Rightarrow> stats \<Rightarrow> stats" where
  "bump_china ok = map_option (\<lambda>s. if ok then s\<lparr>st_china_ok := st_china_ok s + 1\<rparr>
     else s\<lparr>st_china_err := st_china_err s + 1\<rparr>)"

definition bump_trust :: "bool \<Rightarrow> stats \<Rightarrow> stats" where
  "bump_trust ok = map_option (\<lambda>s. if ok then s\<lparr>st_trust_ok := st_trust_ok s + 1\<rparr>
     else s\<lparr>st_trust_err := st_trust_err s + 1\<rparr>)"

definition record_china_latency :: "duration \<Rightarrow> stats \<Rightarrow> stats" where
  "record_china_latency d = map_option (\<lambda>s. s\<lparr>st_china_lat_nanos := st_china_lat_nanos s + word_of_int d,
     st_china_lat_count := st_china_lat_count s + 1\<rparr>)"

definition record_trust_latency :: "duration \<Rightarrow> stats \<Rightarrow> stats" where
  "record_trust_latency d = map_option (\<lambda>s. s\<lparr>st_trust_lat_nanos := st_trust_lat_nanos s + word_of_int d,
     st_trust_lat_count := st_trust_lat_count s + 1\<rparr>)"

definition bump_block :: "stats \<Rightarrow> stats" where
  "bump_block = map_option (\<lambda>s. s\<lparr>st_block := st_block s + 1\<rparr>)"

definition bump_force_direct :: "stats \<Rightarrow> stats" where
  "bump_force_direct = map_option (\<lambda>s. s\<lparr>st_force_direct := st_force_direct s + 1\<rparr>)"

definition bump_force_proxy :: "stats \<Rightarrow> stats" where
  "bump_force_proxy = map_option (\<lambda>s. s\<lparr>st_force_proxy := st_force_proxy s + 1\<rparr>)"

definition bump_chnroute_cn :: "stats \<Rightarrow> stats" where
  "bump_chnroute_cn = map_option (\<lambda>s. s\<lparr>st_chnroute_cn := st_chnroute_cn s + 1\<rparr>)"

definition bump_chnroute_foreign :: "stats \<Rightarrow> stats" where
  "bump_chnroute_foreign = map_option (\<lambda>s. s\<lparr>st_chnroute_foreign := st_chnroute_foreign s + 1\<rparr>)"

definition bump_cache :: "bool \<Rightarrow> stats \<Rightarrow> stats" where
  "bump_cache hit = map_option (\<lambda>s. if hit then s\<lparr>st_cache_hits := st_cache_hits s + 1\<rparr>
     else s\<lparr>st_cache_misses := st_cache_misses s + 1\<rparr>)"

lemmas bump_defs = bump_total_def bump_china_def bump_trust_def record_china_latency_def
  record_trust_latency_def bump_block_def bump_force_direct_def bump_force_proxy_def
  bump_chnroute_cn_def bump_chnroute_foreign_def bump_cache_def

section \<open>Persistence\<close>

definition stats_schema_version :: int where "stats_schema_version = 1"

record stats_snapshot =
  ss_version :: int
  ss_counters :: stats_counters

datatype stats_file = StatsMissing | StatsUnreadable | StatsMalformed | StatsFile stats_snapshot
datatype stats_error = StatsReadError | StatsParseError | StatsVersionError | StatsWriteError

definition stats_snapshot_of :: "stats_counters \<Rightarrow> stats_snapshot" where
  "stats_snapshot_of s = \<lparr>ss_version = 0, ss_counters = s\<rparr>"

definition stats_restore :: "stats_snapshot \<Rightarrow> stats_counters \<Rightarrow> stats_counters" where
  "stats_restore snap s = ss_counters snap"

definition load_stats :: "string \<Rightarrow> stats_file \<Rightarrow> stats \<Rightarrow> stats_error option \<times> stats" where
  "load_stats path f so =
     (if path = [] then (None, so)
      else case so of None \<Rightarrow> (None, so)
      | Some s \<Rightarrow>
          (case f of
             StatsMissing \<Rightarrow> (None, so)
           | StatsUnreadable \<Rightarrow> (Some StatsReadError, so)
           | StatsMalformed \<Rightarrow> (Some StatsParseError, so)
           | StatsFile snap \<Rightarrow>
               if ss_version snap \<noteq> stats_schema_version then (Some StatsVersionError, so)
               else (None, Some (stats_restore snap s))))"

text \<open>\<open>SaveStats\<close>; \<open>written\<close> says whether the temporary file was written, synced and renamed.\<close>

definition save_stats :: "bool \<Rightarrow> string \<Rightarrow> stats \<Rightarrow> stats_file \<Rightarrow> stats_error option \<times> stats_file" where
  "save_stats written path so f =
     (if path = [] then (None, f)
      else case so of None \<Rightarrow> (None, f)
      | Some s \<Rightarrow>
          let snap = (stats_snapshot_of s)\<lparr>ss_version := stats_schema_version\<rparr>
          in if written then (None, StatsFile snap) else (Some StatsWriteError, f))"

text \<open>\<open>RunStatsPersister\<close>: a save at every tick and a last one when the context ends. \<open>ticks\<close> holds
  the counters at each tick with the outcome of that save.\<close>

fun stats_persister :: "string \<Rightarrow> (stats \<times> bool) list \<Rightarrow> stats \<times> bool \<Rightarrow> stats_file \<Rightarrow> stats_file" where
  "stats_persister path [] fin f = (case fin of (so, w) \<Rightarrow>
     if path = [] \<or> so = None then f else snd (save_stats w path so f))"
| "stats_persister path ((so, w) # ts) fin f =
     (if path = [] \<or> so = None then f
      else stats_persister path ts fin (snd (save_stats w path so f)))"

section \<open>Properties\<close>

text \<open>Counters survive a restart: after a persister run whose last save worked, loading the file
  gives back exactly the counters of that save, whatever the new process started from and whichever
  earlier saves failed; and a file of another schema version or a damaged one leaves the counters
  untouched.\<close>

theorem stats_survive_restart:
  assumes "path \<noteq> []" "\<forall>t\<in>set ticks. fst t \<noteq> None"
  shows "load_stats path (stats_persister path ticks (Some s, True) f) (Some s0) = (None, Some s) \<and>
    (f = StatsMalformed \<or> f = StatsUnreadable \<or> f = StatsMissing \<or>
      (\<exists>snap. f = StatsFile snap \<and> ss_version snap \<noteq> 1) \<longrightarrow> snd (load_stats path f (Some s0)) = Some s0)"
proof -
  have "\<exists>f'. stats_persister path ticks (Some s, True) f = snd (save_stats True path (Some s) f')"
    using assms
  proof (induction ticks arbitrary: f)
    case Nil
    then show ?case by auto
  next
    case (Cons t ts)
    then show ?case by (cases t) auto
  qed
  then have "stats_persister path ticks (Some s, True) f = StatsFile \<lparr>ss_version = 1, ss_counters = s\<rparr>"
    using assms(1) by (auto simp: save_stats_def stats_snapshot_of_def stats_schema_version_def)
  then show ?thesis
    using assms(1) by (auto simp: load_stats_def stats_restore_def stats_schema_version_def)
qed

lemma stats_survive_restart_witness:
  "load_stats ''stats.json'' (stats_persister ''stats.json'' [(Some zero_stats, False)]
     (bump_total (Some zero_stats), True) StatsMissing) (Some zero_stats) = (None, bump_total (Some zero_stats))"
  using stats_survive_restart [of "''stats.json''" "[(Some zero_stats, False)]"
      "the (bump_total (Some zero_stats))" StatsMissing zero_stats]
  by (simp add: bump_total_def)

end
