(* ===== verification/Arbitrate.thy ===== *)
theory Arbitrate
  imports Dns_Msg Chnroute Stats
begin

text \<open>
  \<open>arbitrate.go\<close>: the choice between the china and the trust group. \<open>arbitrate_src\<close> is the
  function of the two outcomes that the code computes; \<open>arb_step\<close> is the code itself, two
  goroutines that each exchange and post their result, and the caller that reads the channels, in
  every interleaving. An outcome is an error or a reply (\<open>None\<close> for a nil message).
\<close>

datatype upstream_error = UpstreamError

type_synonym exchange_result = "upstream_error + msg option"

definition china_is_cn :: "msg option \<Rightarrow> chnroute option \<Rightarrow> bool" where
  "china_is_cn reply cn = (case reply of None \<Rightarrow> False
     | Some m \<Rightarrow>
         if truncated m then False
         else list_ex (\<lambda>r. case rr_ip r of None \<Rightarrow> False | Some a \<Rightarrow> chn_contains cn a) (answer m))"

definition arbitrate_src ::
    "exchange_result \<Rightarrow> exchange_result \<Rightarrow> chnroute option \<Rightarrow> stats \<Rightarrow>
       (upstream_error + msg option \<times> string) \<times> stats" where
  "arbitrate_src china_res trust_res cn st =
     (let st1 = bump_china (\<not> isl china_res) st in
      case china_res of
        Inr m \<Rightarrow>
          if china_is_cn m cn then (Inr (m, ''china''), st1)
          else (let st2 = bump_trust (\<not> isl trust_res) st1 in
            case trust_res of Inl e \<Rightarrow> (Inl e, st2) | Inr t \<Rightarrow> (Inr (t, ''trust''), st2))
      | Inl e0 \<Rightarrow>
          (let st2 = bump_trust (\<not> isl trust_res) st1 in
           case trust_res of Inl e \<Rightarrow> (Inl e, st2) | Inr t \<Rightarrow> (Inr (t, ''trust''), st2)))"

definition arbitrate ::
    "exchange_result \<Rightarrow> exchange_result \<Rightarrow> chnroute option \<Rightarrow> stats \<Rightarrow> upstream_error + msg option" where
  "arbitrate china_res trust_res cn st = map_sum id fst (fst (arbitrate_src china_res trust_res cn st))"

section \<open>The concurrent program\<close>

text \<open>Where the caller stands, and the channels (buffered, one result each).\<close>

datatype arb_pc =
    AwaitChina
  | AwaitTrust
  | Returned "upstream_error + msg option \<times> string"

record arb_state =
  ar_pc :: arb_pc
  ar_china :: "exchange_result option"
  ar_trust :: "exchange_result option"
  ar_china_done :: bool
  ar_trust_done :: bool
  ar_stats :: stats

definition arb_start :: "stats \<Rightarrow> arb_state" where
  "arb_start st = \<lparr>ar_pc = AwaitChina, ar_china = None, ar_trust = None, ar_china_done = False,
     ar_trust_done = False, ar_stats = st\<rparr>"

text \<open>
  \<open>cr\<close> and \<open>tr\<close> are the outcomes of the two exchanges; a goroutine posts its own after recording
  its latency \<open>d\<close>, at any time, also after the caller has returned.
\<close>

inductive arb_step ::
    "exchange_result \<Rightarrow> exchange_result \<Rightarrow> chnroute option \<Rightarrow> arb_state \<Rightarrow> arb_state \<Rightarrow> bool"
  for cr tr cn where
  arb_china_posts: "\<not> ar_china_done s \<Longrightarrow> arb_step cr tr cn s
     (s\<lparr>ar_china := Some cr, ar_china_done := True, ar_stats := record_china_latency d (ar_stats s)\<rparr>)"
| arb_trust_posts: "\<not> ar_trust_done s \<Longrightarrow> arb_step cr tr cn s
     (s\<lparr>ar_trust := Some tr, ar_trust_done := True, ar_stats := record_trust_latency d (ar_stats s)\<rparr>)"
| arb_reads_china: "ar_pc s = AwaitChina \<Longrightarrow> ar_china s = Some r \<Longrightarrow> arb_step cr tr cn s
     (s\<lparr>ar_china := None, ar_stats := bump_china (\<not> isl r) (ar_stats s),
        ar_pc := (case r of Inr m \<Rightarrow> if china_is_cn m cn then Returned (Inr (m, ''china'')) else AwaitTrust
                          | Inl e \<Rightarrow> AwaitTrust)\<rparr>)"
| arb_reads_trust: "ar_pc s = AwaitTrust \<Longrightarrow> ar_trust s = Some r \<Longrightarrow> arb_step cr tr cn s
     (s\<lparr>ar_trust := None, ar_stats := bump_trust (\<not> isl r) (ar_stats s),
        ar_pc := Returned (case r of Inl e \<Rightarrow> Inl e | Inr t \<Rightarrow> Inr (t, ''trust''))\<rparr>)"

inductive_cases arb_stepE: "arb_step cr tr cn s s'"

definition china_wins :: "exchange_result \<Rightarrow> chnroute option \<Rightarrow> bool" where
  "china_wins cr cn \<longleftrightarrow> (case cr of Inr m \<Rightarrow> china_is_cn m cn | Inl e \<Rightarrow> False)"

definition arb_result :: "exchange_result \<Rightarrow> exchange_result \<Rightarrow> chnroute option \<Rightarrow> upstream_error + msg option \<times> string" where
  "arb_result cr tr cn = fst (arbitrate_src cr tr cn None)"

lemma arbitrate_src_fst: "fst (arbitrate_src cr tr cn st) = arb_result cr tr cn"
  by (auto simp: arbitrate_src_def arb_result_def Let_def split: sum.split)

lemma arb_result_eq:
  "arb_result cr tr cn = (if china_wins cr cn then Inr (projr cr, ''china'')
     else case tr of Inl e \<Rightarrow> Inl e | Inr t \<Rightarrow> Inr (t, ''trust''))"
  by (auto simp: arb_result_def arbitrate_src_def china_wins_def Let_def split: sum.split)

definition arb_inv ::
    "exchange_result \<Rightarrow> exchange_result \<Rightarrow> chnroute option \<Rightarrow> arb_state \<Rightarrow> bool" where
  "arb_inv cr tr cn s \<longleftrightarrow>
     (\<forall>r. ar_china s = Some r \<longrightarrow> r = cr) \<and> (\<forall>r. ar_trust s = Some r \<longrightarrow> r = tr) \<and>
     (ar_pc s = AwaitChina \<longrightarrow> (ar_china_done s \<longleftrightarrow> ar_china s \<noteq> None) \<and> (ar_trust_done s \<longleftrightarrow> ar_trust s \<noteq> None)) \<and>
     (ar_pc s = AwaitTrust \<longrightarrow> \<not> china_wins cr cn \<and> (ar_trust_done s \<longleftrightarrow> ar_trust s \<noteq> None)) \<and>
     (\<forall>res. ar_pc s = Returned res \<longrightarrow> res = arb_result cr tr cn)"

lemma arb_inv_start [keeps_inv]: "arb_inv cr tr cn (arb_start st)"
  by (simp add: arb_inv_def arb_start_def)

lemma arb_inv_step [keeps_inv]: "arb_step cr tr cn s s' \<Longrightarrow> arb_inv cr tr cn s \<Longrightarrow> arb_inv cr tr cn s'"
  by (erule arb_stepE)
     (auto simp: arb_inv_def arb_result_eq china_wins_def split: sum.splits if_splits)

lemma arb_inv_steps: "(arb_step cr tr cn)\<^sup>*\<^sup>* s s' \<Longrightarrow> arb_inv cr tr cn s \<Longrightarrow> arb_inv cr tr cn s'"
  by (induction rule: rtranclp_induct) (auto intro: keeps_inv)

text \<open>Progress: what is left to do before the caller returns.\<close>

definition arb_work :: "arb_state \<Rightarrow> nat" where
  "arb_work s = (if ar_china_done s then 0 else 1) + (if ar_trust_done s then 0 else 1) +
     (case ar_pc s of AwaitChina \<Rightarrow> 2 | AwaitTrust \<Rightarrow> 1 | Returned r \<Rightarrow> 0)"

lemma arb_work_decreases: "arb_step cr tr cn s s' \<Longrightarrow> arb_work s' < arb_work s"
  by (erule arb_stepE) (auto simp: arb_work_def split: sum.splits)

section \<open>Properties\<close>

text \<open>C8: The arbitration is deterministic: in every interleaving of the two exchanges and the caller,
  what the caller returns is the same function of the two outcomes, decided by chnroute membership
  of the china answer and never by which reply came first.\<close>

theorem arbitrate_schedule_independent:
  assumes "(arb_step cr tr cn)\<^sup>*\<^sup>* (arb_start st) s" "ar_pc s = Returned res"
  shows "res = fst (arbitrate_src cr tr cn st0) \<and>
    res = (if \<exists>m. cr = Inr (Some m) \<and> \<not> truncated m \<and>
              (\<exists>r\<in>set (answer m). \<exists>a. rr_data r = A a \<and> chn_contains cn a)
           then Inr (projr cr, ''china'')
           else case tr of Inl e \<Rightarrow> Inl e | Inr t \<Rightarrow> Inr (t, ''trust''))"
proof -
  have "arb_inv cr tr cn s" using assms(1) arb_inv_start by (rule arb_inv_steps)
  then have res: "res = arb_result cr tr cn" using assms(2) by (simp add: arb_inv_def)
  have ip: "rr_ip r = Some a \<longleftrightarrow> rr_data r = A a" for r a by (cases "rr_data r") (simp_all add: rr_ip_def)
  have "china_wins cr cn \<longleftrightarrow> (\<exists>m. cr = Inr (Some m) \<and> \<not> truncated m \<and>
      (\<exists>r\<in>set (answer m). \<exists>a. rr_data r = A a \<and> chn_contains cn a))"
    by (auto simp: china_wins_def china_is_cn_def list_ex_iff ip [symmetric] split: sum.splits option.splits)
  with res show ?thesis by (simp add: arbitrate_src_fst arb_result_eq)
qed

definition ex_cn :: chnroute where
  "ex_cn = \<lparr>ranges = [\<lparr>r_start = 0xCB007100, r_end = 0xCB0071FF\<rparr>]\<rparr>"

lemma arbitrate_schedule_independent_witness:
  "\<exists>s. (arb_step (Inr (Some ex_answer)) (Inl UpstreamError) (Some ex_cn))\<^sup>*\<^sup>* (arb_start None) s \<and>
     ar_pc s = Returned (Inr (Some ex_answer, ''china''))"
proof -
  let ?cr = "Inr (Some ex_answer) :: exchange_result" and ?tr = "Inl UpstreamError :: exchange_result"
  let ?step = "arb_step ?cr ?tr (Some ex_cn)"
  let ?s0 = "arb_start None"
  let ?s1 = "?s0\<lparr>ar_china := Some ?cr, ar_china_done := True, ar_stats := record_china_latency 0 (ar_stats ?s0)\<rparr>"
  have cn: "china_is_cn (Some ex_answer) (Some ex_cn)" by code_simp
  have 1: "?step ?s0 ?s1" by (rule arb_china_posts) (simp add: arb_start_def)
  have "ar_pc ?s1 = AwaitChina" "ar_china ?s1 = Some ?cr" by (simp_all add: arb_start_def)
  from arb_reads_china [where cr = ?cr and tr = ?tr and cn = "Some ex_cn", OF this] obtain s2 where
    2: "?step ?s1 s2" and pc: "ar_pc s2 = Returned (Inr (Some ex_answer, ''china''))"
    using cn by fastforce
  from 1 2 have run: "?step\<^sup>*\<^sup>* ?s0 s2" by (meson converse_rtranclp_into_rtranclp r_into_rtranclp)
  have "Inr (Some ex_answer, ''china'') = fst (arbitrate_src ?cr ?tr (Some ex_cn) None)"
    using arbitrate_schedule_independent [OF run pc, of None] by blast
  with run pc show ?thesis by blast
qed

text \<open>The caller always returns once the exchanges it needs have ended: every run is finite, a
  state in which nothing can step has returned, and a Chinese answer from the china group is enough
  for the caller to return while the trust exchange still hangs.\<close>

theorem arbitrate_returns:
  assumes "(arb_step cr tr cn)\<^sup>*\<^sup>* (arb_start st) s"
  shows "(\<forall>s'. arb_step cr tr cn s s' \<longrightarrow> arb_work s' < arb_work s) \<and>
    ((\<nexists>s'. arb_step cr tr cn s s') \<longrightarrow> ar_pc s = Returned (arb_result cr tr cn)) \<and>
    (china_wins cr cn \<longrightarrow> ar_china_done s \<longrightarrow>
       ar_pc s = Returned (arb_result cr tr cn) \<or>
       (\<exists>s'. arb_step cr tr cn s s' \<and> ar_pc s' = Returned (arb_result cr tr cn) \<and> ar_trust_done s' = ar_trust_done s))"
proof (intro conjI impI allI)
  have inv: "arb_inv cr tr cn s" using assms arb_inv_start by (rule arb_inv_steps)
  fix s' assume "arb_step cr tr cn s s'"
  then show "arb_work s' < arb_work s" by (rule arb_work_decreases)
next
  have inv: "arb_inv cr tr cn s" using assms arb_inv_start by (rule arb_inv_steps)
  assume stuck: "\<nexists>s'. arb_step cr tr cn s s'"
  have fin: "ar_china_done s" "ar_trust_done s"
    using stuck arb_china_posts [of s cr tr cn] arb_trust_posts [of s cr tr cn] by blast+
  show "ar_pc s = Returned (arb_result cr tr cn)"
  proof (cases "ar_pc s")
    case AwaitChina
    with inv fin obtain r where "ar_china s = Some r" by (auto simp: arb_inv_def)
    with AwaitChina stuck arb_reads_china show ?thesis by blast
  next
    case AwaitTrust
    with inv fin obtain r where "ar_trust s = Some r" by (auto simp: arb_inv_def)
    with AwaitTrust stuck arb_reads_trust show ?thesis by blast
  next
    case (Returned res)
    with inv show ?thesis by (simp add: arb_inv_def)
  qed
next
  have inv: "arb_inv cr tr cn s" using assms arb_inv_start by (rule arb_inv_steps)
  assume wins: "china_wins cr cn" and posted: "ar_china_done s"
  show "ar_pc s = Returned (arb_result cr tr cn) \<or>
       (\<exists>s'. arb_step cr tr cn s s' \<and> ar_pc s' = Returned (arb_result cr tr cn) \<and> ar_trust_done s' = ar_trust_done s)"
  proof (cases "ar_pc s")
    case AwaitChina
    with inv posted have c: "ar_china s = Some cr" by (auto simp: arb_inv_def)
    obtain m where "cr = Inr m" "china_is_cn m cn" using wins by (auto simp: china_wins_def split: sum.splits)
    with arb_reads_china [OF AwaitChina c, of cr tr cn] wins show ?thesis
      by (intro disjI2 exI conjI) (assumption, auto simp: arb_result_eq)
  next
    case AwaitTrust
    with inv wins show ?thesis by (simp add: arb_inv_def)
  next
    case (Returned res)
    with inv show ?thesis by (simp add: arb_inv_def)
  qed
qed

lemma arbitrate_returns_witness:
  "\<exists>s'. arb_step (Inl UpstreamError) (Inr None) None (arb_start None) s' \<and> arb_work s' < arb_work (arb_start None)"
proof -
  let ?cr = "Inl UpstreamError :: exchange_result" and ?tr = "Inr None :: exchange_result"
  have "ar_pc (arb_start None) \<noteq> Returned r" for r by (simp add: arb_start_def)
  then obtain s' where "arb_step ?cr ?tr None (arb_start None) s'"
    using arbitrate_returns [of ?cr ?tr None None "arb_start None"] by blast
  then show ?thesis
    using arbitrate_returns [of ?cr ?tr None None "arb_start None"] by blast
qed

end
