(* ===== verification/Handler.thy ===== *)
theory Handler
  imports Intercept_Hosts Cache Arbitrate Query_Log
begin

text \<open>
  \<open>handler.go\<close>: one query through the resolver. The state is the handler's configuration together
  with the shared state a query changes (cache, counters, query log); the query's environment \<open>env\<close>
  holds the clock, the map iteration order of the cache and what the two upstream groups answer.
  A resolution is run by its own caller here; sharing one resolution among callers and the
  interleaving of queries with reloads are separate theories. \<open>L\<close> is the message library.
\<close>

section \<open>State\<close>

datatype resolution_action = ActionAuto | ActionBlock | ActionDirect | ActionGateway

record resolution_decision =
  rd_verdict :: verdict
  rd_action :: resolution_action

record handler =
  hd_cache :: "cache option"
  hd_stats :: stats
  hd_qlog :: "query_log option"
  hd_cn :: "chnroute option"
  hd_policy :: "runtime_snapshot option"
  hd_intercept :: "host_snapshot option"
  hd_gateway :: "ip option"
  hd_console :: string
  hd_zash :: string
  hd_ttl_min :: duration
  hd_ttl_max :: duration

record resolve_info =
  ri_verdict :: string
  ri_reason :: string
  ri_upstream :: string
  ri_cache_hit :: bool

definition no_info :: resolve_info where
  "no_info = \<lparr>ri_verdict = [], ri_reason = [], ri_upstream = [], ri_cache_hit = False\<rparr>"

definition note_verdict :: "verdict \<Rightarrow> resolve_info option \<Rightarrow> resolve_info option" where
  "note_verdict v = map_option (\<lambda>ri. ri\<lparr>ri_verdict := v_verdict v, ri_reason := v_reason v\<rparr>)"

definition note_upstream :: "string \<Rightarrow> resolve_info option \<Rightarrow> resolve_info option" where
  "note_upstream src = map_option (\<lambda>ri. ri\<lparr>ri_upstream := src\<rparr>)"

definition note_cache_hit :: "resolve_info option \<Rightarrow> resolve_info option" where
  "note_cache_hit = map_option (\<lambda>ri. ri\<lparr>ri_cache_hit := True\<rparr>)"

text \<open>
  How the caller meets \<open>coalesceResolution\<close>: it waits for the resolution it runs itself, as the
  leader of its flight or because the map of flights is full; its context ends while the detached
  resolution goes on; its context has ended before, or while it waits for another query's flight; or
  it waits for the flight another query leads, which hands it a message and what was noted about it.
  Which of these happens is the business of \<open>Flights.thy\<close>.
\<close>

datatype caller = CallerStays | CallerLeaves | CallerGone | CallerJoins msg resolve_info

record query_env =
  qe_now :: go_time
  qe_order :: "(cache_key \<times> cache_entry) list"
  qe_china :: "msg \<Rightarrow> exchange_result"
  qe_trust :: "msg \<Rightarrow> exchange_result"
  qe_caller :: caller
abbreviation upd_stats :: "(stats \<Rightarrow> stats) \<Rightarrow> handler \<Rightarrow> handler" where
  "upd_stats f h \<equiv> h\<lparr>hd_stats := f (hd_stats h)\<rparr>"

section \<open>TTLs and reply building\<close>

definition duration_of_ttl :: "u32 \<Rightarrow> duration" where
  "duration_of_ttl v = int (unat v) * second"

definition ttl_of_duration :: "duration \<Rightarrow> u32" where
  "ttl_of_duration d = word_of_int (d div second)"

definition clamp_ttl :: "u32 \<Rightarrow> duration \<Rightarrow> duration \<Rightarrow> u32" where
  "clamp_ttl v lo hi =
     (if duration_of_ttl v < lo then ttl_of_duration lo
      else if duration_of_ttl v > hi then ttl_of_duration hi
      else v)"

fun min_ttl_loop :: "rr list \<Rightarrow> duration \<Rightarrow> duration" where
  "min_ttl_loop [] m = m"
| "min_ttl_loop (r # rs) m =
     (let t = duration_of_ttl (rr_ttl r) in min_ttl_loop rs (if t < m then t else m))"

definition min_answer_ttl :: "msg \<Rightarrow> duration \<Rightarrow> duration \<Rightarrow> duration" where
  "min_answer_ttl m ttl_min ttl_max =
     (let mn = min_ttl_loop (answer m) ttl_max in
      if mn < ttl_min then ttl_min else if mn > ttl_max then ttl_max else mn)"

definition gw_unset :: "handler \<Rightarrow> bool" where
  "gw_unset h \<longleftrightarrow> (case hd_gateway h of None \<Rightarrow> True | Some g \<Rightarrow> ip_unspecified g)"

definition set_reply :: "dns_lib \<Rightarrow> msg \<Rightarrow> msg" where
  "set_reply L r = (lib_set_reply L new_msg r)\<lparr>recursion_available := True\<rparr>"

definition soa_rr :: rr where
  "soa_rr = \<lparr>rr_hdr = \<lparr>h_name = ''.'', h_rrtype = type_SOA, h_class = class_INET, h_ttl = 300, h_rdlength = 0\<rparr>,
     rr_data = SOA \<lparr>soa_ns = ''ns.5gpn.'', soa_mbox = ''hostmaster.5gpn.'', soa_serial = 1, soa_refresh = 3600,
       soa_retry = 600, soa_expire = 86400, soa_minttl = 300\<rparr>\<rparr>"

definition soa_reply :: "dns_lib \<Rightarrow> msg \<Rightarrow> msg" where
  "soa_reply L r = (set_reply L r)\<lparr>ns := [soa_rr]\<rparr>"

definition server_fail :: "dns_lib \<Rightarrow> msg \<Rightarrow> msg" where
  "server_fail L r = lib_set_rcode L new_msg r rcode_server_failure"

definition gateway_rr :: "handler \<Rightarrow> string \<Rightarrow> ip \<Rightarrow> rr" where
  "gateway_rr h nm g = \<lparr>rr_hdr = \<lparr>h_name = nm, h_rrtype = type_A, h_class = class_INET,
     h_ttl = clamp_ttl 60 (hd_ttl_min h) (hd_ttl_max h), h_rdlength = 0\<rparr>, rr_data = A g\<rparr>"

definition gateway_reply :: "dns_lib \<Rightarrow> handler \<Rightarrow> msg \<Rightarrow> msg" where
  "gateway_reply L h r =
     (if gw_unset h then lib_set_rcode L new_msg r rcode_name_error
      else (set_reply L r)\<lparr>answer := [gateway_rr h (qs_name (hd (questions r))) (the (hd_gateway h))]\<rparr>)"

definition strip_dnssec_rrs :: "rr list \<Rightarrow> rr list" where
  "strip_dnssec_rrs rs = filter (\<lambda>r. \<not> rr_is_dnssec r) rs"

definition filter_aaaa :: "msg \<Rightarrow> msg" where
  "filter_aaaa m = m\<lparr>answer := filter (\<lambda>r. \<not> rr_is_AAAA r) (answer m)\<rparr>"

text \<open>The loop of \<open>rewriteA\<close>: the records so far and whether the gateway record was added.\<close>

fun rewrite_loop :: "handler \<Rightarrow> chnroute option \<Rightarrow> rr list \<Rightarrow> rr list \<Rightarrow> bool \<Rightarrow> rr list \<times> bool" where
  "rewrite_loop h cn [] out added = (out, added)"
| "rewrite_loop h cn (r # rs) out added =
     (case rr_ip r of
        None \<Rightarrow> rewrite_loop h cn rs (out @ [r]) added
      | Some a \<Rightarrow>
          if gw_unset h \<or> chn_contains cn a then rewrite_loop h cn rs (out @ [r]) added
          else if \<not> added then
            rewrite_loop h cn rs
              (out @ [\<lparr>rr_hdr = (rr_hdr r)\<lparr>h_ttl := clamp_ttl (rr_ttl r) (hd_ttl_min h) (hd_ttl_max h)\<rparr>,
                       rr_data = A (the (hd_gateway h))\<rparr>]) True
          else rewrite_loop h cn rs out added)"

definition rewrite_a :: "dns_lib \<Rightarrow> handler \<Rightarrow> msg \<Rightarrow> msg \<Rightarrow> chnroute option \<Rightarrow> msg" where
  "rewrite_a L h resp r cn =
     (let (rewritten, added) = rewrite_loop h cn (answer resp) [] False;
          out = (set_reply L r)\<lparr>rcode := rcode resp, answer := rewritten, ns := ns resp\<rparr>
      in if added then out\<lparr>answer := strip_dnssec_rrs (answer out), ns := strip_dnssec_rrs (ns out)\<rparr> else out)"

section \<open>Decisions\<close>

fun default_verdict_loop :: "handler \<Rightarrow> rr list \<Rightarrow> bool \<Rightarrow> verdict" where
  "default_verdict_loop h [] seen = (if seen then mk_verdict ''direct'' ''chnroute-cn'' else no_verdict)"
| "default_verdict_loop h (r # rs) seen =
     (case rr_ip r of
        None \<Rightarrow> default_verdict_loop h rs seen
      | Some a \<Rightarrow>
          if (case hd_gateway h of None \<Rightarrow> False | Some g \<Rightarrow> ip_equal a g)
          then mk_verdict ''proxy'' ''chnroute-foreign''
          else default_verdict_loop h rs True)"

definition default_verdict_of :: "handler \<Rightarrow> msg option \<Rightarrow> verdict" where
  "default_verdict_of h ro = (case ro of None \<Rightarrow> no_verdict | Some m \<Rightarrow> default_verdict_loop h (answer m) False)"

definition bump_default_verdict :: "msg option \<Rightarrow> handler \<Rightarrow> handler" where
  "bump_default_verdict ro h =
     (let reason = v_reason (default_verdict_of h ro) in
      if reason = ''chnroute-foreign'' then upd_stats bump_chnroute_foreign h
      else if reason = ''chnroute-cn'' then upd_stats bump_chnroute_cn h
      else h)"

definition decide_name :: "handler \<Rightarrow> string \<Rightarrow> resolution_decision" where
  "decide_name h name =
     (if host_match (hd_intercept h) name
      then \<lparr>rd_verdict = mk_verdict ''proxy'' ''force-proxy'', rd_action = ActionGateway\<rparr>
      else
        let v = classify_policy_snapshot (hd_policy h) name in
        if v_reason v = ''block'' then \<lparr>rd_verdict = v, rd_action = ActionBlock\<rparr>
        else if v_reason v = ''force-direct'' then \<lparr>rd_verdict = v, rd_action = ActionDirect\<rparr>
        else if v_reason v = ''force-proxy'' then \<lparr>rd_verdict = v, rd_action = ActionGateway\<rparr>
        else case (case hd_policy h of None \<Rightarrow> FallbackAuto | Some s \<Rightarrow> rs_fallback s) of
          FallbackDirect \<Rightarrow> \<lparr>rd_verdict = mk_verdict ''direct'' ''fallback-direct'', rd_action = ActionDirect\<rparr>
        | FallbackGateway \<Rightarrow> \<lparr>rd_verdict = mk_verdict ''proxy'' ''fallback-gateway'', rd_action = ActionGateway\<rparr>
        | _ \<Rightarrow> \<lparr>rd_verdict = no_verdict, rd_action = ActionAuto\<rparr>)"

definition is_panel_domain :: "handler \<Rightarrow> string \<Rightarrow> bool" where
  "is_panel_domain h name =
     (let bare = strip_dot name in
      if hd_console h \<noteq> [] \<and> equal_fold bare (strip_dot (hd_console h)) then True
      else if hd_zash h \<noteq> [] \<and> equal_fold bare (strip_dot (hd_zash h)) then True
      else False)"

section \<open>The cache behind a request\<close>

definition prepare_cached_reply :: "msg \<Rightarrow> msg \<Rightarrow> msg" where
  "prepare_cached_reply cached request = cached\<lparr>msg_id := msg_id request, questions := questions request\<rparr>"

definition cache_get_for_request ::
    "dns_lib \<Rightarrow> query_env \<Rightarrow> msg \<Rightarrow> string \<Rightarrow> u16 \<Rightarrow> handler \<Rightarrow> (msg \<times> cache_metadata) option \<times> handler" where
  "cache_get_for_request L env r name qtype h = (case hd_cache h of
     None \<Rightarrow> (None, h)
   | Some c \<Rightarrow>
       (case get_with_metadata_options L c (qe_now env) name qtype (cache_options_from_msg L (Some r)) of
          None \<Rightarrow> (None, upd_stats (bump_cache False) h)
        | Some (m, meta) \<Rightarrow> (Some (prepare_cached_reply m r, meta), upd_stats (bump_cache True) h)))"

definition stale_reply_ttl_secs :: u32 where "stale_reply_ttl_secs = 30"

definition cache_get_stale_for_request ::
    "dns_lib \<Rightarrow> query_env \<Rightarrow> msg \<Rightarrow> string \<Rightarrow> u16 \<Rightarrow> handler \<Rightarrow> (msg \<times> cache_metadata) option \<times> handler" where
  "cache_get_stale_for_request L env r name qtype h = (case hd_cache h of
     None \<Rightarrow> (None, h)
   | Some c \<Rightarrow>
       (let (res, c') = get_stale_with_metadata_options L c (qe_now env) name qtype stale_reply_ttl_secs
              (cache_options_from_msg L (Some r))
        in (map_option (\<lambda>(m, meta). (prepare_cached_reply m r, meta)) res, h\<lparr>hd_cache := Some c'\<rparr>)))"

definition cache_put_for_request ::
    "dns_lib \<Rightarrow> query_env \<Rightarrow> msg \<Rightarrow> string \<Rightarrow> u16 \<Rightarrow> msg \<Rightarrow> u64 \<Rightarrow> cache_metadata \<Rightarrow> handler \<Rightarrow> handler" where
  "cache_put_for_request L env r name qtype resp epoch meta h = (case hd_cache h of
     None \<Rightarrow> h
   | Some c \<Rightarrow>
       if rcode resp \<noteq> rcode_success then h
       else
         let ttl = (if answer resp = [] then hd_ttl_min h else min_answer_ttl resp (hd_ttl_min h) (hd_ttl_max h))
         in h\<lparr>hd_cache := Some (put_at_epoch_with_metadata_options L (qe_order env) c (qe_now env) name qtype
               (cache_options_from_msg L (Some r)) resp ttl epoch meta)\<rparr>)"

definition meta_verdict :: "cache_metadata \<Rightarrow> verdict" where
  "meta_verdict meta = mk_verdict (cm_verdict meta) (cm_reason meta)"

definition stale_or_server_fail ::
    "dns_lib \<Rightarrow> query_env \<Rightarrow> msg \<Rightarrow> string \<Rightarrow> u16 \<Rightarrow> resolve_info option \<Rightarrow> handler \<Rightarrow>
       msg \<times> resolve_info option \<times> handler" where
  "stale_or_server_fail L env r name qtype ri h =
     (case cache_get_stale_for_request L env r name qtype h of
        (Some (stale, meta), h') \<Rightarrow>
          (let ri1 = (if cm_reason meta \<noteq> [] then note_upstream (cm_upstream meta) (note_verdict (meta_verdict meta) ri)
                      else ri)
           in (stale, note_cache_hit ri1, h'))
      | (None, h') \<Rightarrow> (server_fail L r, ri, h'))"

section \<open>Resolution\<close>

text \<open>
  \<open>coalesceResolution\<close> as one query sees it: a query that runs the resolution runs it on a copy of
  its request, and the reply is made out to the caller; a caller that left gets nothing, and the
  resolution's effects stay; a query that joined a flight runs nothing, and gets the flight's result
  made out to itself.
\<close>

definition coalesce_resolution ::
    "query_env \<Rightarrow> msg \<Rightarrow> resolve_info option \<Rightarrow>
       (msg \<Rightarrow> resolve_info option \<Rightarrow> handler \<Rightarrow> msg \<times> resolve_info option \<times> handler) \<Rightarrow> handler \<Rightarrow>
       msg option \<times> resolve_info option \<times> handler" where
  "coalesce_resolution env r ri f h =
     (case qe_caller env of
        CallerGone \<Rightarrow> (None, ri, h)
      | CallerJoins m info \<Rightarrow>
          (Some (prepare_cached_reply m r), (case ri of None \<Rightarrow> None | Some i \<Rightarrow> Some info), h)
      | CallerLeaves \<Rightarrow> (let (m, info, h') = f r (Some (case ri of None \<Rightarrow> no_info | Some i \<Rightarrow> i)) h in (None, ri, h'))
      | CallerStays \<Rightarrow>
          (let (m, info, h') = f r (Some (case ri of None \<Rightarrow> no_info | Some i \<Rightarrow> i)) h
           in (Some (prepare_cached_reply m r), (case ri of None \<Rightarrow> None | Some i \<Rightarrow> info), h')))"

definition resolve_direct ::
    "dns_lib \<Rightarrow> query_env \<Rightarrow> string \<Rightarrow> u16 \<Rightarrow> u64 \<Rightarrow> verdict \<Rightarrow> msg \<Rightarrow> resolve_info option \<Rightarrow> handler \<Rightarrow>
       msg \<times> resolve_info option \<times> handler" where
  "resolve_direct L env name qtype epoch v req ri h =
     (let (res, st) = arbitrate_src (qe_china env req) (qe_trust env req) (hd_cn h) (hd_stats h);
          h1 = h\<lparr>hd_stats := st\<rparr>
      in case res of
           Inr (Some resolved, src) \<Rightarrow>
             let m = filter_aaaa resolved;
                 meta = \<lparr>cm_verdict = v_verdict v, cm_reason = v_reason v, cm_upstream = src\<rparr>
             in (m, note_upstream src ri, cache_put_for_request L env req name qtype m epoch meta h1)
         | _ \<Rightarrow> stale_or_server_fail L env req name qtype ri h1)"

definition resolve_auto ::
    "dns_lib \<Rightarrow> query_env \<Rightarrow> string \<Rightarrow> u16 \<Rightarrow> u64 \<Rightarrow> msg \<Rightarrow> resolve_info option \<Rightarrow> handler \<Rightarrow>
       msg \<times> resolve_info option \<times> handler" where
  "resolve_auto L env name qtype epoch req ri h =
     (let (res, st) = arbitrate_src (qe_china env req) (qe_trust env req) (hd_cn h) (hd_stats h);
          h1 = h\<lparr>hd_stats := st\<rparr>
      in case res of
           Inr (Some resolved, src) \<Rightarrow>
             let m = rewrite_a L h1 (filter_aaaa resolved) req (hd_cn h1);
                 v = default_verdict_of h1 (Some m);
                 meta = \<lparr>cm_verdict = v_verdict v, cm_reason = v_reason v, cm_upstream = src\<rparr>
             in (m, note_verdict v (note_upstream src ri), cache_put_for_request L env req name qtype m epoch meta h1)
         | _ \<Rightarrow> stale_or_server_fail L env req name qtype ri h1)"

definition resolve_trust ::
    "dns_lib \<Rightarrow> query_env \<Rightarrow> string \<Rightarrow> u16 \<Rightarrow> u64 \<Rightarrow> msg \<Rightarrow> resolve_info option \<Rightarrow> handler \<Rightarrow>
       msg \<times> resolve_info option \<times> handler" where
  "resolve_trust L env name qtype epoch req ri h =
     (case qe_trust env req of
        Inr (Some resolved) \<Rightarrow>
          let ri1 = note_upstream ''trust'' ri;
              meta = \<lparr>cm_verdict = (case ri1 of None \<Rightarrow> [] | Some i \<Rightarrow> ri_verdict i),
                      cm_reason = (case ri1 of None \<Rightarrow> [] | Some i \<Rightarrow> ri_reason i), cm_upstream = ''trust''\<rparr>
          in (resolved, ri1, cache_put_for_request L env req name qtype resolved epoch meta h)
      | _ \<Rightarrow> stale_or_server_fail L env req name qtype ri h)"

definition forward_trust ::
    "dns_lib \<Rightarrow> query_env \<Rightarrow> question \<Rightarrow> msg \<Rightarrow> u64 \<Rightarrow> resolve_info option \<Rightarrow> handler \<Rightarrow>
       msg \<times> resolve_info option \<times> handler" where
  "forward_trust L env q r epoch ri h =
     (let name = qs_name q; qtype = qs_type q;
          ri0 = map_option (\<lambda>i. if ri_reason i = [] then i\<lparr>ri_reason := ''forward-trust''\<rparr> else i) ri
      in case cache_get_for_request L env r name qtype h of
           (Some (cached, meta), h1) \<Rightarrow>
             (cached, note_cache_hit (if cm_reason meta \<noteq> []
                then note_upstream (cm_upstream meta) (note_verdict (meta_verdict meta) ri0) else ri0), h1)
         | (None, h1) \<Rightarrow>
             (case coalesce_resolution env r ri0 (resolve_trust L env name qtype epoch) h1 of
                (Some m, ri1, h2) \<Rightarrow> (m, ri1, h2)
              | (None, ri1, h2) \<Rightarrow> (server_fail L r, ri0, h2)))"

text \<open>The counters of a cache hit on the default path.\<close>

definition bump_cached :: "cache_metadata \<Rightarrow> handler \<Rightarrow> handler" where
  "bump_cached meta h =
     (if cm_reason meta = ''fallback-direct'' then upd_stats bump_force_direct h
      else if cm_reason meta = ''chnroute-cn'' then upd_stats bump_chnroute_cn h
      else if cm_reason meta = ''chnroute-foreign'' then upd_stats bump_chnroute_foreign h
      else h)"

definition resolve_direct_a ::
    "dns_lib \<Rightarrow> query_env \<Rightarrow> question \<Rightarrow> msg \<Rightarrow> u64 \<Rightarrow> verdict \<Rightarrow> resolve_info option \<Rightarrow> handler \<Rightarrow>
       msg \<times> resolve_info option \<times> handler" where
  "resolve_direct_a L env q r epoch v ri h0 =
     (let h = upd_stats bump_force_direct h0; name = qs_name q; qtype = qs_type q in
      case cache_get_for_request L env r name qtype h of
        (Some (cached, meta), h1) \<Rightarrow> (cached, note_cache_hit (note_upstream (cm_upstream meta) ri), h1)
      | (None, h1) \<Rightarrow>
          (case coalesce_resolution env r ri (resolve_direct L env name qtype epoch v) h1 of
             (Some m, ri1, h2) \<Rightarrow> (m, ri1, h2)
           | (None, ri1, h2) \<Rightarrow> (server_fail L r, ri, h2)))"

definition resolve_auto_a ::
    "dns_lib \<Rightarrow> query_env \<Rightarrow> question \<Rightarrow> msg \<Rightarrow> u64 \<Rightarrow> resolve_info option \<Rightarrow> handler \<Rightarrow>
       msg \<times> resolve_info option \<times> handler" where
  "resolve_auto_a L env q r epoch ri h =
     (let name = qs_name q; qtype = qs_type q in
      case cache_get_for_request L env r name qtype h of
        (Some (cached, meta), h1) \<Rightarrow>
          (if cm_reason meta \<noteq> [] then
             (cached, note_cache_hit (note_upstream (cm_upstream meta) (note_verdict (meta_verdict meta) ri)),
              bump_cached meta h1)
           else (cached, note_cache_hit (note_verdict (default_verdict_of h1 (Some cached)) ri),
                 bump_default_verdict (Some cached) h1))
      | (None, h1) \<Rightarrow>
          (case coalesce_resolution env r ri (resolve_auto L env name qtype epoch) h1 of
             (Some m, ri1, h2) \<Rightarrow> (m, ri1, bump_default_verdict (Some m) h2)
           | (None, ri1, h2) \<Rightarrow> (server_fail L r, ri, h2)))"

definition resolve_traced ::
    "dns_lib \<Rightarrow> query_env \<Rightarrow> question \<Rightarrow> msg \<Rightarrow> resolve_info option \<Rightarrow> handler \<Rightarrow>
       msg \<times> resolve_info option \<times> handler" where
  "resolve_traced L env q r ri h0 =
     (let name = qs_name q; h = upd_stats bump_total h0 in
      if is_panel_domain h name then
        (if qs_type q = type_A
         then (gateway_reply L h r, note_verdict (mk_verdict ''direct'' ''panel-self'') ri, h)
         else (soa_reply L r, note_verdict (mk_verdict [] ''panel-self'') ri, h))
      else
        let epoch = cache_epoch (hd_cache h) in
        if qs_type q = type_AAAA
        then (soa_reply L r, note_verdict (mk_verdict [] ''aaaa-synthetic'') ri, h)
        else if qs_type q = type_HTTPS \<or> qs_type q = type_SVCB
        then (soa_reply L r, note_verdict (mk_verdict [] ''https-synthetic'') ri, h)
        else
          let d = decide_name h name; v = rd_verdict d; is_a = (qs_type q = type_A) in
          case rd_action d of
            ActionBlock \<Rightarrow>
              (lib_set_rcode L new_msg r rcode_name_error, note_verdict v ri, upd_stats bump_block h)
          | ActionDirect \<Rightarrow>
              if is_a then resolve_direct_a L env q r epoch v (note_verdict v ri) h
              else forward_trust L env q r epoch (note_verdict v ri) h
          | ActionGateway \<Rightarrow>
              if is_a then
                (gateway_reply L h r, note_verdict v ri,
                 if v_reason v = ''force-proxy'' then upd_stats bump_force_proxy h
                 else upd_stats bump_chnroute_foreign h)
              else forward_trust L env q r epoch (note_verdict v ri) h
          | ActionAuto \<Rightarrow>
              if is_a then resolve_auto_a L env q r epoch ri h
              else forward_trust L env q r epoch ri h)"

section \<open>Serving\<close>

text \<open>\<open>answerIPs\<close> and \<open>clientHost\<close> of \<open>querylog.go\<close>.\<close>

fun answer_ips_loop :: "rr list \<Rightarrow> int \<Rightarrow> string list \<Rightarrow> string list" where
  "answer_ips_loop [] mx out = out"
| "answer_ips_loop (r # rs) mx out =
     (case rr_ip r of
        None \<Rightarrow> answer_ips_loop rs mx out
      | Some a \<Rightarrow>
          let out' = out @ [case to4 a of Some b \<Rightarrow> show_v4 b | None \<Rightarrow> []] in
          if int (length out') = mx then out' else answer_ips_loop rs mx out')"

definition answer_ips :: "msg \<Rightarrow> int \<Rightarrow> string list" where
  "answer_ips m mx = answer_ips_loop (answer m) mx []"

definition client_host :: "string option \<Rightarrow> string" where
  "client_host ra = (case ra of None \<Rightarrow> []
     | Some s \<Rightarrow> (case split_host_port s of Some (host, port) \<Rightarrow> host | None \<Rightarrow> s))"

definition min_msg_size :: int where "min_msg_size = 512"

definition udp_budget :: "dns_lib \<Rightarrow> msg \<Rightarrow> int" where
  "udp_budget L r = (case lib_is_edns0 L r of
     Some i \<Rightarrow> (let sz = int (unat (lib_udp_size L (extra r ! i))) in if sz \<ge> min_msg_size then sz else min_msg_size)
   | None \<Rightarrow> min_msg_size)"

text \<open>The transport: remote address text and whether it is UDP; a free admission slot or no limit.\<close>

record transport =
  tr_remote :: "string option"
  tr_udp :: bool
  tr_admitted :: bool
  tr_elapsed_us :: int

definition log_query ::
    "dns_lib \<Rightarrow> query_env \<Rightarrow> transport \<Rightarrow> question \<Rightarrow> msg \<Rightarrow> resolve_info \<Rightarrow> query_log_entry" where
  "log_query L env w q resp ri =
     \<lparr>q_time = qe_now env, q_client = client_host (tr_remote w), q_name = strip_dot (qs_name q),
      q_qtype = lib_type_to_string L (qs_type q), q_verdict = ri_verdict ri, q_reason = ri_reason ri,
      q_upstream = ri_upstream ri, q_cache_hit = ri_cache_hit ri, q_rcode = lib_rcode_to_string L (rcode resp),
      q_ips = answer_ips resp query_log_max_ips, q_duration_us = tr_elapsed_us w\<rparr>"

definition serve_context :: "dns_lib \<Rightarrow> query_env \<Rightarrow> transport \<Rightarrow> msg \<Rightarrow> handler \<Rightarrow> msg \<times> handler" where
  "serve_context L env w r h =
     (if length (questions r) \<noteq> 1 then (lib_set_rcode L new_msg r rcode_format_error, h)
      else if qs_class (hd (questions r)) \<noteq> class_INET then (lib_set_rcode L new_msg r rcode_not_implemented, h)
      else if \<not> tr_admitted w then (lib_set_rcode L new_msg r rcode_refused, h)
      else
        let q = hd (questions r);
            (resp, ri, h1) = resolve_traced L env q r (Some no_info) h;
            h2 = (case hd_qlog h1 of None \<Rightarrow> h1
                  | Some l \<Rightarrow> h1\<lparr>hd_qlog := Some (ql_add (log_query L env w q resp
                      (case ri of None \<Rightarrow> no_info | Some i \<Rightarrow> i)) l)\<rparr>);
            resp1 = (if tr_udp w then lib_truncate L resp (udp_budget L r) else resp)
        in (resp1, h2))"

end
