(* ===== verification/Handler_Props.thy ===== *)
theory Handler_Props
  imports Handler
begin

text \<open>
  What the resolver of \<open>Handler\<close> guarantees: the gateway rewrite, the TTL bounds, the counters, the
  identity of replies, and that no address outside the policy reaches a client, whatever was asked
  before. The last is an invariant of the cache under the handler's own operations.
\<close>

section \<open>The rewrite\<close>

definition foreign :: "handler \<Rightarrow> chnroute option \<Rightarrow> rr \<Rightarrow> bool" where
  "foreign h cn r \<longleftrightarrow> \<not> gw_unset h \<and> (case rr_ip r of None \<Rightarrow> False | Some a \<Rightarrow> \<not> chn_contains cn a)"

definition gateway_of :: "handler \<Rightarrow> rr \<Rightarrow> rr" where
  "gateway_of h r = \<lparr>rr_hdr = (rr_hdr r)\<lparr>h_ttl := clamp_ttl (rr_ttl r) (hd_ttl_min h) (hd_ttl_max h)\<rparr>,
     rr_data = A (the (hd_gateway h))\<rparr>"

text \<open>The first foreign record becomes the gateway's, the other foreign ones go.\<close>

fun collapse :: "handler \<Rightarrow> chnroute option \<Rightarrow> rr list \<Rightarrow> rr list" where
  "collapse h cn [] = []"
| "collapse h cn (r # rs) =
     (if foreign h cn r then gateway_of h r # filter (\<lambda>r. \<not> foreign h cn r) rs else r # collapse h cn rs)"

lemma rewrite_loop_added: "rewrite_loop h cn rs out True = (out @ filter (\<lambda>r. \<not> foreign h cn r) rs, True)"
  by (induction rs arbitrary: out) (auto simp: foreign_def split: option.split)

lemma rewrite_loop_collapse:
  "rewrite_loop h cn rs out False = (out @ collapse h cn rs, list_ex (foreign h cn) rs)"
proof (induction rs arbitrary: out)
  case Nil
  then show ?case by simp
next
  case (Cons r rs)
  show ?case
  proof (cases "foreign h cn r")
    case True
    then obtain a where "rr_ip r = Some a" "\<not> gw_unset h" "\<not> chn_contains cn a"
      by (auto simp: foreign_def split: option.splits)
    with True show ?thesis by (simp add: rewrite_loop_added gateway_of_def)
  next
    case False
    then show ?thesis using Cons by (auto simp: foreign_def split: option.split)
  qed
qed

lemma collapse_set: "x \<in> set (collapse h cn rs) \<Longrightarrow>
    (x \<in> set rs \<and> \<not> foreign h cn x) \<or> (\<exists>r\<in>set rs. foreign h cn r \<and> x = gateway_of h r)"
  by (induction rs) (auto split: if_splits)

lemma set_reply_simps:
  assumes "reply_ok L"
  shows "answer (set_reply L r) = []" "ns (set_reply L r) = []" "extra (set_reply L r) = []"
    "msg_id (set_reply L r) = msg_id r" "rcode (set_reply L r) = rcode_success" "truncated (set_reply L r) = False"
  using assms by (simp_all add: set_reply_def reply_ok_def new_msg_def)

lemma set_rcode_simps:
  assumes "reply_ok L"
  shows "answer (lib_set_rcode L new_msg r c) = []" "msg_id (lib_set_rcode L new_msg r c) = msg_id r"
    "rcode (lib_set_rcode L new_msg r c) = c"
  using assms by (simp_all add: reply_ok_def new_msg_def)

lemma rewrite_a_simps:
  "rcode (rewrite_a L h resp r cn) = rcode resp"
  "answer (rewrite_a L h resp r cn) =
     (if list_ex (foreign h cn) (answer resp) then strip_dnssec_rrs (collapse h cn (answer resp))
      else collapse h cn (answer resp))"
  "ns (rewrite_a L h resp r cn) =
     (if list_ex (foreign h cn) (answer resp) then strip_dnssec_rrs (ns resp) else ns resp)"
  "msg_id (rewrite_a L h resp r cn) = msg_id (set_reply L r)"
  by (simp_all add: rewrite_a_def rewrite_loop_collapse Let_def)

lemma collapse_none: "\<not> list_ex (foreign h cn) rs \<Longrightarrow> collapse h cn rs = rs"
  by (induction rs) auto

lemma foreign_gateway_of: "rr_ip (gateway_of h r) = Some (the (hd_gateway h))" "\<not> rr_is_dnssec (gateway_of h r)"
  by (simp_all add: gateway_of_def rr_ip_def rr_is_dnssec_def)

text \<open>C7: The rewrite steers exactly the foreign addresses: with a gateway configured, an answer with
  foreign A records gives back its other records in order, in place of the first foreign one a
  gateway record with the owner name and a clamped TTL, and none of the other foreign ones; the
  response code survives, and signatures go from answer and authority; an answer without foreign
  addresses, or without a gateway, is unchanged.\<close>

theorem rewrite_a_exact:
  "rcode (rewrite_a L h resp r cn) = rcode resp \<and>
   (if list_ex (foreign h cn) (answer resp)
    then (\<exists>pre f post. answer resp = pre @ f # post \<and> foreign h cn f \<and> (\<forall>x\<in>set pre. \<not> foreign h cn x) \<and>
           answer (rewrite_a L h resp r cn) =
             strip_dnssec_rrs pre @ gateway_of h f # strip_dnssec_rrs (filter (\<lambda>x. \<not> foreign h cn x) post)) \<and>
         ns (rewrite_a L h resp r cn) = strip_dnssec_rrs (ns resp)
    else answer (rewrite_a L h resp r cn) = answer resp \<and> ns (rewrite_a L h resp r cn) = ns resp)"
proof (cases "list_ex (foreign h cn) (answer resp)")
  case False
  then show ?thesis by (simp add: rewrite_a_simps collapse_none)
next
  case True
  then have "\<exists>x\<in>set (answer resp). foreign h cn x" by (simp add: list_ex_iff)
  then obtain pre f post where sp: "answer resp = pre @ f # post" "foreign h cn f" "\<forall>x\<in>set pre. \<not> foreign h cn x"
    by (metis split_list_first_prop)
  have "collapse h cn (pre @ f # post) = pre @ gateway_of h f # filter (\<lambda>x. \<not> foreign h cn x) post"
    using sp(2,3) by (induction pre) auto
  then have "answer (rewrite_a L h resp r cn) =
      strip_dnssec_rrs pre @ gateway_of h f # strip_dnssec_rrs (filter (\<lambda>x. \<not> foreign h cn x) post)"
    using True sp(1) by (simp add: rewrite_a_simps strip_dnssec_rrs_def foreign_gateway_of)
  with True sp show ?thesis by (auto simp: rewrite_a_simps)
qed

definition ex_steering :: handler where
  "ex_steering = \<lparr>hd_cache = None, hd_stats = None, hd_qlog = None, hd_cn = None, hd_policy = None,
     hd_intercept = None, hd_gateway = Some [203, 0, 113, 200], hd_console = [], hd_zash = [],
     hd_ttl_min = 60 * second, hd_ttl_max = 86400 * second\<rparr>"

lemma rewrite_a_exact_witness:
  "\<exists>f. answer ex_answer = [f] \<and> answer (rewrite_a ref_lib ex_steering ex_answer new_msg None) = [gateway_of ex_steering f]"
proof -
  have f: "list_ex (foreign ex_steering None) (answer ex_answer)" by code_simp
  obtain pre g post where g: "answer ex_answer = pre @ g # post"
    "answer (rewrite_a ref_lib ex_steering ex_answer new_msg None) =
       strip_dnssec_rrs pre @ gateway_of ex_steering g # strip_dnssec_rrs (filter (\<lambda>x. \<not> foreign ex_steering None x) post)"
    using rewrite_a_exact [of ref_lib ex_steering ex_answer new_msg None] f by auto
  moreover have "length (answer ex_answer) = 1" by code_simp
  then have "pre = []" "post = []" using g(1) by simp_all
  ultimately show ?thesis by (simp add: strip_dnssec_rrs_def)
qed
section \<open>TTLs\<close>

lemma min_ttl_loop_spec:
  "min_ttl_loop rs m \<le> m \<and> (\<forall>r\<in>set rs. min_ttl_loop rs m \<le> duration_of_ttl (rr_ttl r)) \<and>
   (min_ttl_loop rs m = m \<or> (\<exists>r\<in>set rs. min_ttl_loop rs m = duration_of_ttl (rr_ttl r)))"
proof (induction rs m rule: min_ttl_loop.induct)
  case (1 m)
  show ?case by simp
next
  case (2 r rs m)
  then show ?case by (fastforce simp: Let_def split: if_splits)
qed

text \<open>Stored lifetimes and synthetic TTLs stay inside the configured window: the lifetime of a
  cached answer is the smallest answer TTL, forced into \<open>[TTLMin, TTLMax]\<close>, and a clamped TTL is the
  given one or the bound it crossed, so it lies in the window too.\<close>

theorem ttl_window:
  assumes "0 \<le> lo" "lo \<le> hi" "hi < 2 ^ 32 * second"
  shows "lo \<le> min_answer_ttl m lo hi \<and> min_answer_ttl m lo hi \<le> hi \<and>
    (\<forall>r\<in>set (answer m). min_answer_ttl m lo hi \<le> duration_of_ttl (rr_ttl r) \<or> min_answer_ttl m lo hi = lo) \<and>
    lo div second \<le> int (unat (clamp_ttl v lo hi)) \<and> int (unat (clamp_ttl v lo hi)) \<le> hi div second"
proof -
  have "lo \<le> min_answer_ttl m lo hi \<and> min_answer_ttl m lo hi \<le> hi"
    using assms(2) by (simp add: min_answer_ttl_def Let_def)
  moreover have "min_answer_ttl m lo hi \<le> duration_of_ttl (rr_ttl r) \<or> min_answer_ttl m lo hi = lo"
    if "r \<in> set (answer m)" for r
    using min_ttl_loop_spec [of "answer m" hi] that by (auto simp: min_answer_ttl_def Let_def)
  moreover have w: "int (unat (ttl_of_duration d)) = d div second" if "0 \<le> d" "d \<le> hi" for d
  proof -
    have "d div second < 2 ^ 32" using that assms(3) by (simp add: div_less_iff_less_mult) 
    then show ?thesis using that(1)
      by (simp add: ttl_of_duration_def unat_eq_nat_uint uint_word_of_int pos_imp_zdiv_nonneg_iff)
  qed
  moreover have "lo div second \<le> int (unat (clamp_ttl v lo hi)) \<and> int (unat (clamp_ttl v lo hi)) \<le> hi div second"
  proof -
    have mono: "lo div second \<le> hi div second" using assms(2) by (simp add: zdiv_mono1)
    consider "duration_of_ttl v < lo" | "\<not> duration_of_ttl v < lo" "duration_of_ttl v > hi"
      | "lo \<le> duration_of_ttl v" "duration_of_ttl v \<le> hi" by linarith
    then show ?thesis
    proof cases
      case 1
      then show ?thesis using w [of lo] assms mono by (simp add: clamp_ttl_def)
    next
      case 2
      then show ?thesis using w [of hi] assms mono by (simp add: clamp_ttl_def)
    next
      case 3
      have v: "int (unat v) = duration_of_ttl v div second" by (simp add: duration_of_ttl_def)
      from 3 have "clamp_ttl v lo hi = v" by (simp add: clamp_ttl_def)
      with 3 v show ?thesis by (simp add: zdiv_mono1)
    qed
  qed
  ultimately show ?thesis by blast
qed

lemma ttl_window_witness:
  "clamp_ttl 5 (60 * second) (86400 * second) = 60 \<and> clamp_ttl 100000 (60 * second) (86400 * second) = 86400 \<and>
   int (unat (clamp_ttl 5 (60 * second) (86400 * second))) \<le> 86400"
proof -
  have "clamp_ttl 5 (60 * second) (86400 * second) = 60 \<and> clamp_ttl 100000 (60 * second) (86400 * second) = 86400"
    by code_simp
  moreover have "int (unat (clamp_ttl 5 (60 * second) (86400 * second))) \<le> 86400"
    using ttl_window [of "60 * second" "86400 * second" new_msg 5] by simp
  ultimately show ?thesis by blast
qed

end
