(* ===== verification/Flights.thy ===== *)
theory Flights
  imports Handler
begin

text \<open>
  \<open>coalesceResolution\<close> of \<open>handler.go\<close> in every interleaving: callers that arrive with a request,
  the map of flights under its mutex, and the goroutine of each flight. A caller joins the flight of
  its key, leads a new one, or resolves alone when the map is full; it gives up when its context
  ends. Snapshot pointers are numbers. What a resolution answers is arbitrary.
\<close>

section \<open>Keys\<close>

record flight_key =
  fk_name :: string
  fk_qtype :: u16
  fk_qclass :: u16
  fk_dnssec_ok :: bool
  fk_checking_disabled :: bool
  fk_epoch :: u64
  fk_policy :: nat
  fk_rules :: nat
  fk_upstreams :: nat
  fk_action :: resolution_action

record flight_scope =
  sc_epoch :: u64
  sc_policy :: nat
  sc_rules :: nat
  sc_upstreams :: nat
  sc_action :: resolution_action

definition new_flight_key :: "dns_lib \<Rightarrow> question \<Rightarrow> msg \<Rightarrow> flight_scope \<Rightarrow> flight_key" where
  "new_flight_key L q r sc =
     (let opts = cache_options_from_msg L (Some r) in
      \<lparr>fk_name = to_lower (lib_fqdn L (qs_name q)), fk_qtype = qs_type q, fk_qclass = qs_class q,
       fk_dnssec_ok = o_dnssec_ok opts, fk_checking_disabled = o_checking_disabled opts,
       fk_epoch = sc_epoch sc, fk_policy = sc_policy sc, fk_rules = sc_rules sc,
       fk_upstreams = sc_upstreams sc, fk_action = sc_action sc\<rparr>)"

definition default_flight_limit :: int where "default_flight_limit = 1024"

definition flight_limit :: "int \<Rightarrow> int" where
  "flight_limit l = (if l \<le> 0 then default_flight_limit else l)"

definition prepare_flight_reply :: "msg option \<Rightarrow> msg \<Rightarrow> msg option" where
  "prepare_flight_reply mo r = map_option (\<lambda>m. prepare_cached_reply m r) mo"

section \<open>State\<close>

type_synonym flight_result = "msg option \<times> resolve_info"

record flight =
  fl_key :: flight_key
  fl_result :: "flight_result option"
  fl_removed :: bool

text \<open>Where a caller stands; a reply remembers the flight it came from, if there was one.\<close>

datatype flight_pc =
    Arrived
  | WaitsOn nat
  | RunsAlone
  | Replied "nat option" "msg option" resolve_info
  | GaveUp resolve_info

record flight_caller =
  fc_question :: question
  fc_request :: msg
  fc_scope :: flight_scope
  fc_initial :: resolve_info
  fc_pc :: flight_pc

record flight_state =
  fs_map :: "(flight_key, nat) go_map"
  fs_flights :: "flight list"
  fs_callers :: "flight_caller list"

definition caller_key :: "dns_lib \<Rightarrow> flight_caller \<Rightarrow> flight_key" where
  "caller_key L c = new_flight_key L (fc_question c) (fc_request c) (fc_scope c)"

definition set_pc :: "nat \<Rightarrow> flight_pc \<Rightarrow> flight_state \<Rightarrow> flight_state" where
  "set_pc i p s = s\<lparr>fs_callers := (fs_callers s)[i := (fs_callers s ! i)\<lparr>fc_pc := p\<rparr>]\<rparr>"

definition new_flight :: "flight_key \<Rightarrow> flight" where
  "new_flight k = \<lparr>fl_key = k, fl_result = None, fl_removed = False\<rparr>"

section \<open>Steps\<close>

text \<open>The section under the mutex, where a caller finds out what it is to do.\<close>

definition enter_flight :: "dns_lib \<Rightarrow> int \<Rightarrow> nat \<Rightarrow> flight_state \<Rightarrow> flight_state" where
  "enter_flight L l i s =
     (let k = caller_key L (fs_callers s ! i) in
      case map_of (fs_map s) k of
        Some f \<Rightarrow> set_pc i (WaitsOn f) s
      | None \<Rightarrow>
          if int (length (fs_map s)) < flight_limit l
          then let f = length (fs_flights s) in
               set_pc i (WaitsOn f) (s\<lparr>fs_map := AList.update k f (fs_map s), fs_flights := fs_flights s @ [new_flight k]\<rparr>)
          else set_pc i RunsAlone s)"

text \<open>The end of a flight's goroutine: it leaves the map unless the map has another flight there.\<close>

definition remove_flight :: "nat \<Rightarrow> flight_state \<Rightarrow> flight_state" where
  "remove_flight f s =
     (let k = fl_key (fs_flights s ! f) in
      s\<lparr>fs_map := (if map_of (fs_map s) k = Some f then AList.delete k (fs_map s) else fs_map s),
        fs_flights := (fs_flights s)[f := (fs_flights s ! f)\<lparr>fl_removed := True\<rparr>]\<rparr>)"

definition finish_flight :: "nat \<Rightarrow> flight_result \<Rightarrow> flight_state \<Rightarrow> flight_state" where
  "finish_flight f res s = s\<lparr>fs_flights := (fs_flights s)[f := (fs_flights s ! f)\<lparr>fl_result := Some res\<rparr>]\<rparr>"

inductive flight_step :: "dns_lib \<Rightarrow> int \<Rightarrow> flight_state \<Rightarrow> flight_state \<Rightarrow> bool" for L l where
  flight_expired: "i < length (fs_callers s) \<Longrightarrow> fc_pc (fs_callers s ! i) = Arrived \<Longrightarrow>
     flight_step L l s (set_pc i (GaveUp (fc_initial (fs_callers s ! i))) s)"
| flight_enter: "i < length (fs_callers s) \<Longrightarrow> fc_pc (fs_callers s ! i) = Arrived \<Longrightarrow>
     flight_step L l s (enter_flight L l i s)"
| flight_alone: "i < length (fs_callers s) \<Longrightarrow> fc_pc (fs_callers s ! i) = RunsAlone \<Longrightarrow>
     flight_step L l s (set_pc i (Replied None (prepare_flight_reply mo (fc_request (fs_callers s ! i))) info) s)"
| flight_finish: "f < length (fs_flights s) \<Longrightarrow> fl_result (fs_flights s ! f) = None \<Longrightarrow>
     flight_step L l s (finish_flight f res s)"
| flight_remove: "f < length (fs_flights s) \<Longrightarrow> fl_result (fs_flights s ! f) \<noteq> None \<Longrightarrow>
     \<not> fl_removed (fs_flights s ! f) \<Longrightarrow> flight_step L l s (remove_flight f s)"
| flight_receive: "i < length (fs_callers s) \<Longrightarrow> fc_pc (fs_callers s ! i) = WaitsOn f \<Longrightarrow>
     fl_result (fs_flights s ! f) = Some (mo, info) \<Longrightarrow>
     flight_step L l s (set_pc i (Replied (Some f) (prepare_flight_reply mo (fc_request (fs_callers s ! i))) info) s)"
| flight_leave: "i < length (fs_callers s) \<Longrightarrow> fc_pc (fs_callers s ! i) = WaitsOn f \<Longrightarrow>
     flight_step L l s (set_pc i (GaveUp (fc_initial (fs_callers s ! i))) s)"

inductive_cases flight_stepE: "flight_step L l s s'"

definition flights_start :: "flight_caller list \<Rightarrow> flight_state" where
  "flights_start cs = \<lparr>fs_map = [], fs_flights = [], fs_callers = map (\<lambda>c. c\<lparr>fc_pc := Arrived\<rparr>) cs\<rparr>"

section \<open>Invariant\<close>

definition map_inv :: "int \<Rightarrow> flight_state \<Rightarrow> bool" where
  "map_inv l s \<longleftrightarrow> distinct (map fst (fs_map s)) \<and> int (length (fs_map s)) \<le> flight_limit l \<and>
     (\<forall>k f. map_of (fs_map s) k = Some f \<longrightarrow>
        f < length (fs_flights s) \<and> fl_key (fs_flights s ! f) = k \<and> \<not> fl_removed (fs_flights s ! f)) \<and>
     (\<forall>f<length (fs_flights s). \<not> fl_removed (fs_flights s ! f) \<longrightarrow>
        map_of (fs_map s) (fl_key (fs_flights s ! f)) = Some f) \<and>
     (\<forall>f<length (fs_flights s). fl_removed (fs_flights s ! f) \<longrightarrow> fl_result (fs_flights s ! f) \<noteq> None)"

text \<open>What a caller's position says: its flight has its key, and its reply is its flight's.\<close>

definition caller_ok :: "dns_lib \<Rightarrow> flight list \<Rightarrow> flight_caller \<Rightarrow> bool" where
  "caller_ok L fl c \<longleftrightarrow> (case fc_pc c of
     WaitsOn f \<Rightarrow> f < length fl \<and> fl_key (fl ! f) = caller_key L c
   | Replied (Some f) m info \<Rightarrow> f < length fl \<and> fl_key (fl ! f) = caller_key L c \<and>
       (\<exists>mo. fl_result (fl ! f) = Some (mo, info) \<and> m = prepare_flight_reply mo (fc_request c))
   | GaveUp info \<Rightarrow> info = fc_initial c
   | _ \<Rightarrow> True)"

definition flights_inv :: "dns_lib \<Rightarrow> int \<Rightarrow> flight_state \<Rightarrow> bool" where
  "flights_inv L l s \<longleftrightarrow> map_inv l s \<and> (\<forall>c\<in>set (fs_callers s). caller_ok L (fs_flights s) c)"

lemma flight_limit_pos: "0 < flight_limit l"
  by (simp add: flight_limit_def default_flight_limit_def)

lemma flights_inv_start [keeps_inv]: "flights_inv L l (flights_start cs)"
  using flight_limit_pos [of l] by (auto simp: flights_inv_def map_inv_def flights_start_def caller_ok_def)

lemma set_pc_simps [simp]:
  "fs_map (set_pc i p s) = fs_map s" "fs_flights (set_pc i p s) = fs_flights s"
  "length (fs_callers (set_pc i p s)) = length (fs_callers s)"
  by (simp_all add: set_pc_def)

lemma caller_key_pc [simp]: "caller_key L (c\<lparr>fc_pc := p\<rparr>) = caller_key L c"
  by (simp add: caller_key_def)

text \<open>Flights only ever grow: a key stays, and so does a result.\<close>

definition flights_grow :: "flight list \<Rightarrow> flight list \<Rightarrow> bool" where
  "flights_grow fl fl' \<longleftrightarrow> length fl \<le> length fl' \<and>
     (\<forall>f<length fl. fl_key (fl' ! f) = fl_key (fl ! f) \<and>
        (fl_result (fl ! f) \<noteq> None \<longrightarrow> fl_result (fl' ! f) = fl_result (fl ! f)))"

lemma caller_ok_grow: "flights_grow fl fl' \<Longrightarrow> caller_ok L fl c \<Longrightarrow> caller_ok L fl' c"
  by (fastforce simp: caller_ok_def flights_grow_def split: flight_pc.splits option.splits)

lemma callers_ok_set_pc:
  assumes "\<forall>c\<in>set (fs_callers s). caller_ok L fl c" "i < length (fs_callers s)"
    "caller_ok L fl ((fs_callers s ! i)\<lparr>fc_pc := p\<rparr>)"
  shows "\<forall>c\<in>set (fs_callers (set_pc i p s)). caller_ok L fl c"
  using assms set_update_subset_insert [of "fs_callers s" i] by (fastforce simp: set_pc_def)

lemma flights_inv_set_pc:
  assumes "flights_inv L l s" "i < length (fs_callers s)" "caller_ok L (fs_flights s) ((fs_callers s ! i)\<lparr>fc_pc := p\<rparr>)"
  shows "flights_inv L l (set_pc i p s)"
  using assms callers_ok_set_pc [of s L "fs_flights s" i p] by (simp add: flights_inv_def map_inv_def)

lemma flights_grow_append: "flights_grow fl (fl @ [x])"
  by (auto simp: flights_grow_def nth_append)

lemma flights_grow_update:
  assumes "fl_key x = fl_key (fl ! f)" "fl_result (fl ! f) \<noteq> None \<Longrightarrow> fl_result x = fl_result (fl ! f)"
  shows "flights_grow fl (fl[f := x])"
  unfolding flights_grow_def
proof (intro conjI allI impI)
  fix g
  assume g: "g < length fl"
  show "fl_key (fl[f := x] ! g) = fl_key (fl ! g)"
    using assms(1) g by (cases "g = f") simp_all
  show "fl_result (fl[f := x] ! g) = fl_result (fl ! g)" if "fl_result (fl ! g) \<noteq> None"
    using assms(2) g that by (cases "g = f") simp_all
qed simp

lemma map_inv_lead:
  assumes "map_inv l s" "map_of (fs_map s) k = None" "int (length (fs_map s)) < flight_limit l"
  shows "map_inv l (s\<lparr>fs_map := AList.update k (length (fs_flights s)) (fs_map s), fs_flights := fs_flights s @ [new_flight k]\<rparr>)"
proof -
  let ?n = "length (fs_flights s)"
  have nk: "k \<notin> fst ` set (fs_map s)" using assms(2) by (simp add: map_of_eq_None_iff)
  then have len: "length (AList.update k ?n (fs_map s)) = Suc (length (fs_map s))" by (rule length_update_new)
  have d: "distinct (map fst (AList.update k ?n (fs_map s)))"
    using assms(1) by (intro distinct_update) (simp add: map_inv_def)
  have old: "f < ?n" if "map_of (fs_map s) k' = Some f" for k' f
    using assms(1) that unfolding map_inv_def by blast
  have key: "fl_key (fs_flights s ! f) \<noteq> k" if "f < ?n" "\<not> fl_removed (fs_flights s ! f)" for f
    using assms(1,2) that unfolding map_inv_def by (metis option.distinct(1))
  let ?s = "s\<lparr>fs_map := AList.update k ?n (fs_map s), fs_flights := fs_flights s @ [new_flight k]\<rparr>"
  have sel: "fs_map ?s = AList.update k ?n (fs_map s)" "fs_flights ?s = fs_flights s @ [new_flight k]" by simp_all
  show ?thesis
    unfolding map_inv_def sel len
  proof (intro conjI allI impI)
    show "distinct (map fst (AList.update k ?n (fs_map s)))" by (rule d)
    show "int (Suc (length (fs_map s))) \<le> flight_limit l" using assms(3) by simp
  next
    fix k' f
    assume m: "map_of (AList.update k ?n (fs_map s)) k' = Some f"
    let ?fl = "fs_flights s @ [new_flight k]"
    have "f < length ?fl \<and> fl_key (?fl ! f) = k' \<and> \<not> fl_removed (?fl ! f)"
    proof (cases "k' = k")
      case True
      with m show ?thesis by (simp add: new_flight_def nth_append)
    next
      case False
      with m have "map_of (fs_map s) k' = Some f" by simp
      then have "f < ?n" "fl_key (fs_flights s ! f) = k'" "\<not> fl_removed (fs_flights s ! f)"
        using assms(1) unfolding map_inv_def by blast+
      then show ?thesis by (simp add: nth_append)
    qed
    then show "f < length ?fl" "fl_key (?fl ! f) = k'" "\<not> fl_removed (?fl ! f)" by blast+
  next
    fix f
    let ?fl = "fs_flights s @ [new_flight k]"
    assume f: "f < length ?fl" "\<not> fl_removed (?fl ! f)"
    show "map_of (AList.update k ?n (fs_map s)) (fl_key (?fl ! f)) = Some f"
    proof (cases "f = ?n")
      case True
      then show ?thesis by (simp add: new_flight_def)
    next
      case False
      then have f': "f < ?n" "\<not> fl_removed (fs_flights s ! f)" using f by (simp_all add: nth_append)
      moreover have "map_of (fs_map s) (fl_key (fs_flights s ! f)) = Some f"
        using assms(1) f' unfolding map_inv_def by blast
      ultimately show ?thesis using key [OF f'] by (simp add: nth_append)
    qed
  next
    fix f
    let ?fl = "fs_flights s @ [new_flight k]"
    assume f: "f < length ?fl" "fl_removed (?fl ! f)"
    then have "f < ?n" by (cases "f = ?n") (simp_all add: new_flight_def)
    moreover from this have "fl_removed (fs_flights s ! f)" using f by (simp add: nth_append)
    ultimately have "fl_result (fs_flights s ! f) \<noteq> None" using assms(1) unfolding map_inv_def by blast
    with \<open>f < ?n\<close> show "fl_result (?fl ! f) \<noteq> None" by (simp add: nth_append)
  qed
qed

lemma map_inv_update:
  assumes "map_inv l s" "f < length (fs_flights s)" "fl_key x = fl_key (fs_flights s ! f)"
    "fl_removed x = fl_removed (fs_flights s ! f)" "fl_result x \<noteq> None"
  shows "map_inv l (s\<lparr>fs_flights := (fs_flights s)[f := x]\<rparr>)"
proof -
  let ?fl = "(fs_flights s)[f := x]"
  have same: "fl_key (?fl ! g) = fl_key (fs_flights s ! g)" "fl_removed (?fl ! g) = fl_removed (fs_flights s ! g)" for g
    using assms(2-4) by (cases "g = f"; simp)+
  have res: "fl_result (?fl ! g) \<noteq> None" if "fl_result (fs_flights s ! g) \<noteq> None" for g
    using assms(2,5) that by (cases "g = f") simp_all
  have sel: "fs_map (s\<lparr>fs_flights := ?fl\<rparr>) = fs_map s" "fs_flights (s\<lparr>fs_flights := ?fl\<rparr>) = ?fl" by simp_all
  show ?thesis
    using assms(1) res unfolding map_inv_def sel length_list_update same by blast
qed

lemma map_inv_remove:
  assumes "map_inv l s" "f < length (fs_flights s)" "fl_result (fs_flights s ! f) \<noteq> None" "\<not> fl_removed (fs_flights s ! f)"
  shows "map_inv l (remove_flight f s)"
proof -
  let ?k = "fl_key (fs_flights s ! f)"
  let ?x = "(fs_flights s ! f)\<lparr>fl_removed := True\<rparr>"
  let ?fl = "(fs_flights s)[f := ?x]" and ?m = "AList.delete ?k (fs_map s)"
  have m: "map_of (fs_map s) ?k = Some f" using assms unfolding map_inv_def by blast
  then have sel: "fs_map (remove_flight f s) = ?m" "fs_flights (remove_flight f s) = ?fl"
    by (simp_all add: remove_flight_def Let_def)
  have nth: "?fl ! g = (if g = f then ?x else fs_flights s ! g)" for g using assms(2) by simp
  have inj: "g = f" if "map_of (fs_map s) k = Some g" "g = f \<or> k = ?k" for k g
    using that m by auto
  have one: "k = ?k" if "map_of (fs_map s) k = Some f" for k using that assms(1) unfolding map_inv_def by blast
  have key: "fl_key (fs_flights s ! g) \<noteq> ?k" if "g < length (fs_flights s)" "\<not> fl_removed (fs_flights s ! g)" "g \<noteq> f" for g
    using that m assms(1) unfolding map_inv_def by (metis option.inject)
  show ?thesis
    unfolding map_inv_def sel length_list_update
  proof (intro conjI allI impI)
    show "distinct (map fst ?m)" using assms(1) by (simp add: map_inv_def distinct_map_fst_delete)
    show "int (length ?m) \<le> flight_limit l"
      using assms(1) length_delete_le [of ?k "fs_map s"] by (simp add: map_inv_def)
  next
    fix k g
    assume g: "map_of ?m k = Some g"
    then have g': "k \<noteq> ?k" "map_of (fs_map s) k = Some g" by (auto split: if_splits)
    then have ne: "g \<noteq> f" using one by blast
    have "g < length (fs_flights s) \<and> fl_key (fs_flights s ! g) = k \<and> \<not> fl_removed (fs_flights s ! g)"
      using g'(2) assms(1) unfolding map_inv_def by blast
    with ne show "g < length (fs_flights s)" "fl_key (?fl ! g) = k" "\<not> fl_removed (?fl ! g)" by (simp_all add: nth)
  next
    fix g
    assume g: "g < length (fs_flights s)" "\<not> fl_removed (?fl ! g)"
    then have ne: "g \<noteq> f" "\<not> fl_removed (fs_flights s ! g)" by (auto simp: nth split: if_splits)
    then have "map_of (fs_map s) (fl_key (fs_flights s ! g)) = Some g" using g(1) assms(1) unfolding map_inv_def by blast
    with key [OF g(1) ne(2,1)] ne(1) show "map_of ?m (fl_key (?fl ! g)) = Some g" by (simp add: nth)
  next
    fix g
    assume g: "g < length (fs_flights s)" "fl_removed (?fl ! g)"
    show "fl_result (?fl ! g) \<noteq> None"
    proof (cases "g = f")
      case False
      then have "fl_removed (fs_flights s ! g)" using g(2) by (simp add: nth)
      then have "fl_result (fs_flights s ! g) \<noteq> None" using g(1) assms(1) unfolding map_inv_def by blast
      with False show ?thesis by (simp add: nth)
    qed (use assms(3) in \<open>simp add: nth\<close>)
  qed
qed

lemma flights_inv_grow:
  assumes "flights_inv L l s" "map_inv l s'" "flights_grow (fs_flights s) (fs_flights s')" "fs_callers s' = fs_callers s"
  shows "flights_inv L l s'"
  using assms caller_ok_grow [OF assms(3)] by (simp add: flights_inv_def)

lemma flights_inv_enter:
  assumes "flights_inv L l s" "i < length (fs_callers s)"
  shows "flights_inv L l (enter_flight L l i s)"
proof -
  let ?k = "caller_key L (fs_callers s ! i)"
  have mi: "map_inv l s" using assms(1) by (simp add: flights_inv_def)
  consider f where "map_of (fs_map s) ?k = Some f"
    | "map_of (fs_map s) ?k = None" "int (length (fs_map s)) < flight_limit l"
    | "map_of (fs_map s) ?k = None" "\<not> int (length (fs_map s)) < flight_limit l" by (cases "map_of (fs_map s) ?k") auto
  then show ?thesis
  proof cases
    case (1 f)
    then have "f < length (fs_flights s) \<and> fl_key (fs_flights s ! f) = ?k" using mi unfolding map_inv_def by blast
    then have "caller_ok L (fs_flights s) ((fs_callers s ! i)\<lparr>fc_pc := WaitsOn f\<rparr>)" by (simp add: caller_ok_def)
    from flights_inv_set_pc [OF assms this] 1 show ?thesis by (simp add: enter_flight_def)
  next
    case 2
    let ?s = "s\<lparr>fs_map := AList.update ?k (length (fs_flights s)) (fs_map s), fs_flights := fs_flights s @ [new_flight ?k]\<rparr>"
    have "flights_inv L l ?s"
      by (rule flights_inv_grow [OF assms(1) map_inv_lead [OF mi 2]]) (simp_all add: flights_grow_append)
    moreover have "caller_ok L (fs_flights ?s) ((fs_callers ?s ! i)\<lparr>fc_pc := WaitsOn (length (fs_flights s))\<rparr>)"
      by (simp add: caller_ok_def new_flight_def)
    ultimately have "flights_inv L l (set_pc i (WaitsOn (length (fs_flights s))) ?s)"
      using assms(2) by (intro flights_inv_set_pc) simp_all
    with 2 show ?thesis by (simp add: enter_flight_def Let_def)
  next
    case 3
    have "caller_ok L (fs_flights s) ((fs_callers s ! i)\<lparr>fc_pc := RunsAlone\<rparr>)" by (simp add: caller_ok_def)
    from flights_inv_set_pc [OF assms this] 3 show ?thesis by (simp add: enter_flight_def)
  qed
qed

lemma flights_inv_step [keeps_inv]:
  assumes "flight_step L l s s'" "flights_inv L l s"
  shows "flights_inv L l s'"
  using assms(1)
proof (cases rule: flight_step.cases)
  case (flight_expired i)
  then show ?thesis using assms(2) by (auto intro!: flights_inv_set_pc simp: caller_ok_def)
next
  case (flight_enter i)
  then show ?thesis using assms(2) by (auto intro: flights_inv_enter)
next
  case (flight_alone i mo info)
  then show ?thesis using assms(2) by (auto intro!: flights_inv_set_pc simp: caller_ok_def)
next
  case (flight_finish f res)
  let ?x = "(fs_flights s ! f)\<lparr>fl_result := Some res\<rparr>"
  have "map_inv l (s\<lparr>fs_flights := (fs_flights s)[f := ?x]\<rparr>)"
    using assms(2) flight_finish by (intro map_inv_update) (simp_all add: flights_inv_def)
  moreover have "flights_grow (fs_flights s) ((fs_flights s)[f := ?x])"
    using flight_finish by (intro flights_grow_update) simp_all
  ultimately show ?thesis
    using flight_finish flights_inv_grow [OF assms(2)] by (simp add: finish_flight_def)
next
  case (flight_remove f)
  have "map_inv l (remove_flight f s)"
    using assms(2) flight_remove by (intro map_inv_remove) (simp_all add: flights_inv_def)
  moreover have "flights_grow (fs_flights s) (fs_flights (remove_flight f s))"
    using flights_grow_update [of "(fs_flights s ! f)\<lparr>fl_removed := True\<rparr>" "fs_flights s" f]
    by (simp add: remove_flight_def Let_def)
  ultimately show ?thesis
    using flight_remove flights_inv_grow [OF assms(2)] by (simp add: remove_flight_def Let_def)
next
  case (flight_receive i f mo info)
  then have "fs_callers s ! i \<in> set (fs_callers s)" by simp
  then have "caller_ok L (fs_flights s) (fs_callers s ! i)" using assms(2) by (simp add: flights_inv_def)
  then show ?thesis using flight_receive assms(2) by (auto intro!: flights_inv_set_pc simp: caller_ok_def)
next
  case (flight_leave i f)
  then show ?thesis using assms(2) by (auto intro!: flights_inv_set_pc simp: caller_ok_def)
qed

lemma flights_inv_steps: "(flight_step L l)\<^sup>*\<^sup>* s s' \<Longrightarrow> flights_inv L l s \<Longrightarrow> flights_inv L l s'"
  by (induction rule: rtranclp_induct) (auto intro: flights_inv_step)

section \<open>Progress\<close>

definition caller_work :: "flight_caller \<Rightarrow> nat" where
  "caller_work c = (case fc_pc c of Arrived \<Rightarrow> 4 | WaitsOn f \<Rightarrow> 1 | RunsAlone \<Rightarrow> 1 | _ \<Rightarrow> 0)"

definition flight_work :: "flight \<Rightarrow> nat" where
  "flight_work f = (if fl_result f = None then 1 else 0) + (if fl_removed f then 0 else 1)"

definition work :: "flight_state \<Rightarrow> nat" where
  "work s = sum_list (map caller_work (fs_callers s)) + sum_list (map flight_work (fs_flights s))"

lemma sum_list_replace:
  fixes g :: "'a \<Rightarrow> nat"
  assumes "i < length xs"
  shows "sum_list (map g (xs[i := x])) + g (xs ! i) = sum_list (map g xs) + g x"
  using assms by (induction xs arbitrary: i) (auto split: nat.split simp: less_Suc_eq_0_disj)

lemma caller_work_pc:
  "caller_work (c\<lparr>fc_pc := p\<rparr>) = (case p of Arrived \<Rightarrow> 4 | WaitsOn f \<Rightarrow> 1 | RunsAlone \<Rightarrow> 1 | _ \<Rightarrow> 0)"
  by (simp add: caller_work_def)

lemma work_set_pc:
  assumes "i < length (fs_callers s)"
  shows "work (set_pc i p s) + caller_work (fs_callers s ! i) = work s + caller_work ((fs_callers s ! i)\<lparr>fc_pc := p\<rparr>)"
  using sum_list_replace [OF assms, of caller_work "(fs_callers s ! i)\<lparr>fc_pc := p\<rparr>"]
  by (simp add: work_def set_pc_def)

lemma flight_work_decreases:
  assumes "flight_step L l s s'"
  shows "work s' < work s"
  using assms
proof (cases rule: flight_step.cases)
  case (flight_expired i)
  then show ?thesis using work_set_pc [of i s "GaveUp (fc_initial (fs_callers s ! i))"]
    by (simp add: caller_work_def)
next
  case (flight_enter i)
  let ?k = "caller_key L (fs_callers s ! i)" and ?n = "length (fs_flights s)"
  let ?s = "s\<lparr>fs_map := AList.update ?k ?n (fs_map s), fs_flights := fs_flights s @ [new_flight ?k]\<rparr>"
  have "work ?s = work s + 2" by (simp add: work_def new_flight_def flight_work_def)
  have joins: "work (set_pc i (WaitsOn f) s) < work s" for f
    using flight_enter work_set_pc [of i s "WaitsOn f"] by (simp add: caller_work_def)
  have alone: "work (set_pc i RunsAlone s) < work s"
    using flight_enter work_set_pc [of i s RunsAlone] by (simp add: caller_work_def)
  have "work (set_pc i (WaitsOn ?n) ?s) + 4 = work ?s + 1"
    using flight_enter work_set_pc [of i ?s "WaitsOn ?n"] by (simp add: caller_work_def)
  with \<open>work ?s = work s + 2\<close> have "work (set_pc i (WaitsOn ?n) ?s) < work s" by linarith
  with joins alone flight_enter(1) show ?thesis by (simp add: enter_flight_def Let_def split: option.split)
next
  case (flight_alone i mo info)
  then show ?thesis
    using work_set_pc [of i s "Replied None (prepare_flight_reply mo (fc_request (fs_callers s ! i))) info"]
    by (simp add: caller_work_def)
next
  case (flight_finish f res)
  then show ?thesis
    using sum_list_replace [of f "fs_flights s" flight_work "(fs_flights s ! f)\<lparr>fl_result := Some res\<rparr>"]
    by (simp add: work_def finish_flight_def flight_work_def)
next
  case (flight_remove f)
  then show ?thesis
    using sum_list_replace [of f "fs_flights s" flight_work "(fs_flights s ! f)\<lparr>fl_removed := True\<rparr>"]
    by (simp add: work_def remove_flight_def Let_def flight_work_def)
next
  case (flight_receive i f mo info)
  then show ?thesis
    using work_set_pc [of i s "Replied (Some f) (prepare_flight_reply mo (fc_request (fs_callers s ! i))) info"]
    by (simp add: caller_work_def)
next
  case (flight_leave i f)
  then show ?thesis using work_set_pc [of i s "GaveUp (fc_initial (fs_callers s ! i))"]
    by (simp add: caller_work_def)
qed

section \<open>Properties\<close>

text \<open>
  A flight that runs for a key, and what becomes of a caller that has arrived: it joins the running
  flight of its key and starts nothing, or it leads a new flight of its key when none is running, or
  it resolves alone when none is running and the map is full, or it gives up with what it came with.
\<close>

definition running :: "flight_state \<Rightarrow> flight_key \<Rightarrow> nat \<Rightarrow> bool" where
  "running s k f \<longleftrightarrow> f < length (fs_flights s) \<and> fl_key (fs_flights s ! f) = k \<and> \<not> fl_removed (fs_flights s ! f)"

definition arrival_ok :: "dns_lib \<Rightarrow> int \<Rightarrow> flight_state \<Rightarrow> flight_state \<Rightarrow> flight_caller \<Rightarrow> flight_pc \<Rightarrow> bool" where
  "arrival_ok L l s s' c p = (let k = caller_key L c in case p of
     Arrived \<Rightarrow> True
   | WaitsOn f \<Rightarrow> running s' k f \<and>
       (if \<exists>g. running s k g then running s k f \<and> fs_flights s' = fs_flights s
        else f = length (fs_flights s) \<and> fs_flights s' = fs_flights s @ [new_flight k])
   | RunsAlone \<Rightarrow> (\<nexists>g. running s k g) \<and> int (length (fs_map s)) = flight_limit l \<and> fs_flights s' = fs_flights s
   | GaveUp info \<Rightarrow> info = fc_initial c \<and> fs_flights s' = fs_flights s
   | Replied fo m info \<Rightarrow> False)"

lemma running_map: "map_inv l s \<Longrightarrow> running s k f \<longleftrightarrow> map_of (fs_map s) k = Some f"
  unfolding map_inv_def running_def by blast

lemma set_pc_same: "i < length (fs_callers s) \<Longrightarrow> fc_pc (fs_callers (set_pc i p s) ! i) = p"
  by (simp add: set_pc_def)

lemma set_pc_other: "i \<noteq> j \<Longrightarrow> fs_callers (set_pc j p s) ! i = fs_callers s ! i"
  by (simp add: set_pc_def)

lemma enter_flight_arrival:
  assumes "map_inv l s" "i < length (fs_callers s)"
  shows "arrival_ok L l s (enter_flight L l i s) (fs_callers s ! i) (fc_pc (fs_callers (enter_flight L l i s) ! i))"
proof -
  let ?k = "caller_key L (fs_callers s ! i)" and ?n = "length (fs_flights s)"
  note run = running_map [OF assms(1)]
  have le: "int (length (fs_map s)) \<le> flight_limit l" using assms(1) by (simp add: map_inv_def)
  consider f where "map_of (fs_map s) ?k = Some f"
    | "map_of (fs_map s) ?k = None" "int (length (fs_map s)) < flight_limit l"
    | "map_of (fs_map s) ?k = None" "int (length (fs_map s)) = flight_limit l"
    using le by (cases "map_of (fs_map s) ?k"; cases "int (length (fs_map s)) < flight_limit l") auto
  then show ?thesis
  proof cases
    case (1 f)
    then have "running (set_pc i (WaitsOn f) s) ?k f" using run [of ?k f] by (simp add: running_def)
    with 1 assms(2) show ?thesis by (simp add: enter_flight_def arrival_ok_def set_pc_same run)
  next
    case 2
    let ?s = "s\<lparr>fs_map := AList.update ?k ?n (fs_map s), fs_flights := fs_flights s @ [new_flight ?k]\<rparr>"
    have "running (set_pc i (WaitsOn ?n) ?s) ?k ?n" by (simp add: running_def new_flight_def)
    with 2 assms(2) show ?thesis
      using set_pc_same [of i ?s "WaitsOn ?n"] by (simp add: enter_flight_def arrival_ok_def Let_def run)
  next
    case 3
    with assms(2) show ?thesis by (simp add: enter_flight_def arrival_ok_def set_pc_same run)
  qed
qed

lemma step_arrival:
  assumes "flight_step L l s s'" "map_inv l s" "i < length (fs_callers s)" "fc_pc (fs_callers s ! i) = Arrived"
  shows "arrival_ok L l s s' (fs_callers s ! i) (fc_pc (fs_callers s' ! i))"
proof -
  have stays: "arrival_ok L l s s' (fs_callers s ! i) (fc_pc (fs_callers s' ! i))" if "fs_callers s' ! i = fs_callers s ! i"
    using that assms(4) by (simp add: arrival_ok_def Let_def)
  show ?thesis using assms(1)
  proof (cases rule: flight_step.cases)
    case (flight_expired j)
    then show ?thesis using stays assms(3,4)
      by (cases "i = j") (simp_all add: set_pc_same set_pc_other arrival_ok_def Let_def)
  next
    case (flight_enter j)
    then show ?thesis
      using stays enter_flight_arrival [OF assms(2,3), of L]
      by (cases "i = j") (simp_all add: enter_flight_def Let_def set_pc_other split: option.splits if_splits)
  next
    case (flight_alone j mo info)
    then show ?thesis using stays assms(3,4) by (cases "i = j") (simp_all add: set_pc_other)
  next
    case (flight_finish f res)
    then show ?thesis using stays by (simp add: finish_flight_def)
  next
    case (flight_remove f)
    then show ?thesis using stays by (simp add: remove_flight_def Let_def)
  next
    case (flight_receive j f mo info)
    then show ?thesis using stays assms(3,4) by (cases "i = j") (simp_all add: set_pc_other)
  next
    case (flight_leave j f)
    then show ?thesis using stays assms(3,4) by (cases "i = j") (simp_all add: set_pc_other)
  qed
qed


definition ex_flight_caller :: flight_caller where
  "ex_flight_caller = \<lparr>fc_question = \<lparr>qs_name = ''a.example.'', qs_type = type_A, qs_class = class_INET\<rparr>,
     fc_request = new_msg\<lparr>msg_id := 7\<rparr>, fc_scope = \<lparr>sc_epoch = 0, sc_policy = 0, sc_rules = 0, sc_upstreams = 0,
     sc_action = ActionAuto\<rparr>, fc_initial = no_info, fc_pc = Arrived\<rparr>"

text \<open>A caller and a second one that joins its flight; the flight ends and the second gets its reply.\<close>

definition ex_flights :: flight_state where
  "ex_flights = enter_flight ref_lib 0 1 (enter_flight ref_lib 0 0 (flights_start [ex_flight_caller, ex_flight_caller]))"

definition ex_landed :: flight_state where
  "ex_landed = finish_flight 0 (Some ex_answer, no_info) ex_flights"

definition ex_received :: flight_state where
  "ex_received = set_pc 1 (Replied (Some 0) (prepare_flight_reply (Some ex_answer) (new_msg\<lparr>msg_id := 7\<rparr>)) no_info) ex_landed"

lemma ex_flights_run:
  "(flight_step ref_lib 0)\<^sup>*\<^sup>* (flights_start [ex_flight_caller, ex_flight_caller]) ex_flights"
  "flight_step ref_lib 0 ex_flights ex_landed" "flight_step ref_lib 0 ex_landed ex_received"
proof -
  let ?s0 = "flights_start [ex_flight_caller, ex_flight_caller]"
  let ?s1 = "enter_flight ref_lib 0 0 ?s0"
  have pc0: "length (fs_callers ?s0) = 2 \<and> fc_pc (fs_callers ?s0 ! 0) = Arrived" by code_simp
  have pc1: "length (fs_callers ?s1) = 2 \<and> fc_pc (fs_callers ?s1 ! 1) = Arrived" by code_simp
  have pc2: "length (fs_flights ex_flights) = 1 \<and> map_option fst (fl_result (fs_flights ex_flights ! 0)) = None" by code_simp
  have pc3: "length (fs_callers ex_landed) = 2 \<and> fc_pc (fs_callers ex_landed ! 1) = WaitsOn 0 \<and>
      fc_request (fs_callers ex_landed ! 1) = new_msg\<lparr>msg_id := 7\<rparr> \<and>
      fl_result (fs_flights ex_landed ! 0) = Some (Some ex_answer, no_info)" by code_simp
  have "flight_step ref_lib 0 ?s0 ?s1" by (rule flight_enter) (use pc0 in auto)
  moreover have "flight_step ref_lib 0 ?s1 ex_flights"
    unfolding ex_flights_def by (rule flight_enter) (use pc1 in auto)
  ultimately show "(flight_step ref_lib 0)\<^sup>*\<^sup>* ?s0 ex_flights"
    by (meson converse_rtranclp_into_rtranclp r_into_rtranclp)
  show "flight_step ref_lib 0 ex_flights ex_landed"
    unfolding ex_landed_def by (rule flight_finish) (use pc2 in auto)
  show "flight_step ref_lib 0 ex_landed ex_received"
    using flight_receive [of 1 ex_landed 0 "Some ex_answer" no_info ref_lib 0] pc3 by (simp add: ex_received_def)
qed

definition ex_led :: flight_state where
  "ex_led = enter_flight ref_lib 0 0 (flights_start [ex_flight_caller, ex_flight_caller])"


text \<open>A shared answer is the caller's own: a reply that came from a flight is the flight's result made
  out to the caller's request (its id and question), and the flight's key is the caller's: same name,
  type, class, DNSSEC and CD bits, cache epoch, policy, rule and upstream snapshots and decision. So a
  query never gets an answer resolved for another profile or under another configuration.\<close>

theorem flight_reply_own_key:
  assumes "(flight_step L l)\<^sup>*\<^sup>* (flights_start cs) s" "i < length (fs_callers s)"
    "fc_pc (fs_callers s ! i) = Replied (Some f) mo info"
  shows "f < length (fs_flights s) \<and> fl_key (fs_flights s ! f) = caller_key L (fs_callers s ! i) \<and>
    (\<exists>r. fl_result (fs_flights s ! f) = Some (r, info) \<and> mo = prepare_flight_reply r (fc_request (fs_callers s ! i))) \<and>
    (\<forall>m. mo = Some m \<longrightarrow> msg_id m = msg_id (fc_request (fs_callers s ! i)) \<and>
       questions m = questions (fc_request (fs_callers s ! i)))"
proof -
  have "caller_ok L (fs_flights s) (fs_callers s ! i)"
    using flights_inv_steps [OF assms(1) flights_inv_start] assms(2) by (simp add: flights_inv_def)
  then show ?thesis
    using assms(3) by (auto simp: caller_ok_def prepare_flight_reply_def prepare_cached_reply_def)
qed

lemma flight_reply_own_key_witness:
  "fl_key (fs_flights ex_received ! 0) = caller_key ref_lib (fs_callers ex_received ! 1)"
proof -
  have pc: "1 < length (fs_callers ex_received) \<and> fc_pc (fs_callers ex_received ! 1) =
      Replied (Some 0) (prepare_flight_reply (Some ex_answer) (new_msg\<lparr>msg_id := 7\<rparr>)) no_info" by code_simp
  have "(flight_step ref_lib 0)\<^sup>*\<^sup>* (flights_start [ex_flight_caller, ex_flight_caller]) ex_received"
    using ex_flights_run by (meson rtranclp.rtrancl_into_rtrancl)
  from flight_reply_own_key [OF this, of 1] pc show ?thesis by blast
qed

text \<open>C11: Coalescing always comes to an end and leaves nothing behind: every step lowers a bounded amount
  of work, so every schedule of finitely many callers stops; and where it stops every caller has a
  reply or has given up, and the map is empty.\<close>

theorem flights_drain:
  assumes "(flight_step L l)\<^sup>*\<^sup>* (flights_start cs) s"
  shows "(\<forall>s'. flight_step L l s s' \<longrightarrow> work s' < work s) \<and>
    ((\<nexists>s'. flight_step L l s s') \<longrightarrow> fs_map s = [] \<and>
      (\<forall>c\<in>set (fs_callers s). \<exists>fo m info. fc_pc c = Replied fo m info \<or> fc_pc c = GaveUp info))"
proof (intro conjI allI impI ballI)
  fix s' assume "flight_step L l s s'"
  then show "work s' < work s" by (rule flight_work_decreases)
next
  assume stuck: "\<nexists>s'. flight_step L l s s'"
  have inv: "map_inv l s" using flights_inv_steps [OF assms flights_inv_start] by (simp add: flights_inv_def)
  have "map_of (fs_map s) k = None" for k
  proof (rule ccontr)
    assume "map_of (fs_map s) k \<noteq> None"
    then obtain f where "f < length (fs_flights s)" "\<not> fl_removed (fs_flights s ! f)"
      using inv unfolding map_inv_def by blast
    then show False using stuck flight_finish [of f s] flight_remove [of f s] by blast
  qed
  then have "map_of (fs_map s) (fst (hd (fs_map s))) = None" by blast
  then show "fs_map s = []" by (cases "fs_map s") auto
next
  fix c
  assume stuck: "\<nexists>s'. flight_step L l s s'" and "c \<in> set (fs_callers s)"
  then obtain i where i: "i < length (fs_callers s)" "c = fs_callers s ! i" by (auto simp: in_set_conv_nth)
  then have "fc_pc c \<noteq> Arrived" "fc_pc c \<noteq> WaitsOn f" "fc_pc c \<noteq> RunsAlone" for f
    using stuck flight_enter [OF i(1)] flight_alone [OF i(1)] flight_leave [OF i(1)] i(2) by blast+
  then show "\<exists>fo m info. fc_pc c = Replied fo m info \<or> fc_pc c = GaveUp info"
    by (cases "fc_pc c") blast+
qed

lemma flights_drain_witness: "\<exists>s'. flight_step ref_lib 0 ex_flights s' \<and> work s' < work ex_flights"
  using flights_drain [OF ex_flights_run(1)] ex_flights_run(2) by blast

end
