(* ===== verification/Handler_Safety.thy ===== *)
theory Handler_Safety
  imports Handler_Props Flights
begin

text \<open>
  No address outside the policy reaches a client. The answer to a query is fixed by what the policy
  decides for its name: the invariant is that every A entry of the cache is one this decision allows,
  whoever put it there, and it is kept by every query the handler serves under one configuration.
\<close>

section \<open>Decisions do not depend on letters' case\<close>

lemma strip_dot_lower [go_string]: "to_lower (strip_dot s) = strip_dot (to_lower s)"
  using last_to_lower [of s] by (cases "s = []") (simp_all add: strip_dot_def to_lower_def map_butlast)

lemma strip_dot_case: "to_lower a = to_lower b \<Longrightarrow> to_lower (strip_dot a) = to_lower (strip_dot b)"
  by (simp add: strip_dot_lower)

lemma ds_match_lower: "to_lower a = to_lower b \<Longrightarrow> ds_match d (strip_dot a) = ds_match d (strip_dot b)"
  by (rule ds_match_cong) (simp add: to_lower_trim_right_dots strip_dot_lower)

lemma classify_loop_lower:
  assumes "to_lower a = to_lower b"
  shows "classify_loop rs (strip_dot a) = classify_loop rs (strip_dot b)"
proof (induction rs)
  case (Cons r rs)
  then show ?case unfolding classify_loop.simps ds_match_lower [OF assms] by (simp split: intent.split)
qed simp

lemma host_match_lower:
  assumes "to_lower a = to_lower b"
  shows "host_match so a = host_match so b"
  unfolding host_match_def capture_dns_def strip_dot_case [OF assms] ..

lemma decide_name_lower:
  assumes "to_lower a = to_lower b"
  shows "decide_name h a = decide_name h b"
  unfolding decide_name_def classify_policy_snapshot_def host_match_lower [OF assms] classify_loop_lower [OF assms] ..

section \<open>Configuration\<close>

definition config :: "handler \<Rightarrow> handler" where
  "config h = h\<lparr>hd_cache := None, hd_stats := None, hd_qlog := None\<rparr>"

lemma config_fields:
  assumes "config h' = config h"
  shows "hd_cn h' = hd_cn h" "hd_policy h' = hd_policy h" "hd_intercept h' = hd_intercept h"
    "hd_gateway h' = hd_gateway h" "hd_ttl_min h' = hd_ttl_min h" "hd_ttl_max h' = hd_ttl_max h"
    "hd_console h' = hd_console h" "hd_zash h' = hd_zash h"
  using assms by (cases h; cases h'; simp add: config_def)+

lemma config_upd [simp]:
  "config (h\<lparr>hd_stats := s\<rparr>) = config h" "config (h\<lparr>hd_cache := c\<rparr>) = config h"
  "config (h\<lparr>hd_qlog := q\<rparr>) = config h"
  by (simp_all add: config_def)

lemma gw_unset_config: "config h' = config h \<Longrightarrow> gw_unset h' = gw_unset h"
  unfolding gw_unset_def by (simp only: config_fields(4) [of h' h])

lemma decide_config:
  assumes "config h' = config h"
  shows "decide_name h' n = decide_name h n"
  unfolding decide_name_def config_fields [OF assms] ..

lemma panel_config:
  assumes "config h' = config h"
  shows "is_panel_domain h' n = is_panel_domain h n"
  unfolding is_panel_domain_def config_fields [OF assms] ..

section \<open>Allowed answers\<close>

text \<open>Addresses a client may see when the answer is steered: Chinese ones and the gateway.\<close>

definition steer_safe :: "handler \<Rightarrow> rr list \<Rightarrow> bool" where
  "steer_safe h rs \<longleftrightarrow> (\<forall>r\<in>set rs. \<not> rr_is_AAAA r \<and>
     (case rr_ip r of None \<Rightarrow> True
      | Some a \<Rightarrow> gw_unset h \<or> a = the (hd_gateway h) \<or> chn_contains (hd_cn h) a))"

definition only_gateway :: "handler \<Rightarrow> msg \<Rightarrow> bool" where
  "only_gateway h m \<longleftrightarrow>
     (if gw_unset h then answer m = [] \<and> rcode m = rcode_name_error
      else (\<forall>r\<in>set (answer m). rr_ip r = hd_gateway h))"

text \<open>What an A query may get: by the name's decision, or a failure without records.\<close>

definition allowed :: "handler \<Rightarrow> string \<Rightarrow> msg \<Rightarrow> bool" where
  "allowed h name m \<longleftrightarrow> (case rd_action (decide_name h name) of
     ActionBlock \<Rightarrow> answer m = [] \<and> rcode m = rcode_name_error
   | ActionGateway \<Rightarrow> only_gateway h m
   | ActionDirect \<Rightarrow> (\<forall>r\<in>set (answer m). \<not> rr_is_AAAA r)
   | ActionAuto \<Rightarrow> steer_safe h (answer m))"

definition reads_cache :: "resolution_action \<Rightarrow> bool" where
  "reads_cache a \<longleftrightarrow> a = ActionAuto \<or> a = ActionDirect"

lemma allowed_config:
  assumes "config h' = config h"
  shows "allowed h' n m = allowed h n m"
  unfolding allowed_def only_gateway_def steer_safe_def
    decide_config [OF assms] gw_unset_config [OF assms] config_fields [OF assms] ..

lemma allowed_subset:
  assumes "reads_cache (rd_action (decide_name h n))" "allowed h n m" "set (answer m') \<subseteq> set (answer m)"
  shows "allowed h n m'"
  using assms by (auto simp: allowed_def reads_cache_def steer_safe_def split: resolution_action.splits)

lemma set_rr_ttl_view [simp]: "rr_ip (set_rr_ttl t r) = rr_ip r" "rr_is_AAAA (set_rr_ttl t r) = rr_is_AAAA r"
  by (simp_all add: rr_ip_def rr_is_AAAA_def)

lemma allowed_with_ttls:
  "reads_cache (rd_action (decide_name h n)) \<Longrightarrow> allowed h n m \<Longrightarrow> allowed h n (prepare_cached_reply (with_ttls s m) r)"
  by (auto simp: allowed_def reads_cache_def steer_safe_def prepare_cached_reply_def with_ttls_def
      split: resolution_action.splits)

lemma allowed_failure:
  "reads_cache (rd_action (decide_name h n)) \<Longrightarrow> answer m = [] \<Longrightarrow> allowed h n m"
  by (auto simp: allowed_def reads_cache_def steer_safe_def split: resolution_action.split)

lemma allowed_prepare:
  "reads_cache (rd_action (decide_name h n)) \<Longrightarrow> allowed h n (prepare_cached_reply m r) = allowed h n m"
  by (auto simp: allowed_def reads_cache_def prepare_cached_reply_def split: resolution_action.split)

lemma steer_safe_rewrite: "steer_safe h (answer (rewrite_a L h (filter_aaaa m) r (hd_cn h)))"
proof -
  let ?rs = "filter (\<lambda>r. \<not> rr_is_AAAA r) (answer m)"
  have ok: "\<not> rr_is_AAAA x \<and> (case rr_ip x of None \<Rightarrow> True
      | Some a \<Rightarrow> gw_unset h \<or> a = the (hd_gateway h) \<or> chn_contains (hd_cn h) a)"
    if "x \<in> set (collapse h (hd_cn h) ?rs)" for x
    using collapse_set [OF that]
    by (auto simp: foreign_def gateway_of_def rr_ip_def rr_is_AAAA_def split: option.splits rdata.splits)
  have "set (answer (rewrite_a L h (filter_aaaa m) r (hd_cn h))) \<subseteq> set (collapse h (hd_cn h) ?rs)"
    by (auto simp: rewrite_a_simps strip_dnssec_rrs_def filter_aaaa_def)
  with ok show ?thesis unfolding steer_safe_def by blast
qed

section \<open>The invariant\<close>

text \<open>Every A entry is allowed for the names it answers, as far as those names are answered from the cache.\<close>

definition cached_ok :: "dns_lib \<Rightarrow> handler \<Rightarrow> bool" where
  "cached_ok L h \<longleftrightarrow> (\<forall>c k e name. hd_cache h = Some c \<longrightarrow> map_of (c_map c) k = Some e \<longrightarrow> k_qtype k = type_A \<longrightarrow>
     lib_fqdn L name = name \<longrightarrow> k_name k = to_lower name \<longrightarrow>
     reads_cache (rd_action (decide_name h name)) \<longrightarrow> allowed h name (e_msg e))"

text \<open>What a step of the resolution keeps.\<close>

definition keeps :: "dns_lib \<Rightarrow> handler \<Rightarrow> handler \<Rightarrow> bool" where
  "keeps L h h' \<longleftrightarrow> config h' = config h \<and> (cached_ok L h \<longrightarrow> cached_ok L h')"

lemma keeps_refl [intro, simp]: "keeps L h h"
  by (simp add: keeps_def)

lemma keeps_trans [trans]: "keeps L h h1 \<Longrightarrow> keeps L h1 h2 \<Longrightarrow> keeps L h h2"
  by (simp add: keeps_def)

lemma cached_ok_fewer:
  assumes "cached_ok L h" "config h' = config h"
    "\<And>c' k e. hd_cache h' = Some c' \<Longrightarrow> map_of (c_map c') k = Some e \<Longrightarrow>
       \<exists>c. hd_cache h = Some c \<and> map_of (c_map c) k = Some e"
  shows "cached_ok L h'"
  unfolding cached_ok_def allowed_config [OF assms(2)] decide_config [OF assms(2)]
  using assms(1,3) unfolding cached_ok_def by blast

lemma keeps_stats [intro, simp]: "keeps L h (h\<lparr>hd_stats := s\<rparr>)"
  unfolding keeps_def by (metis config_upd(1) cached_ok_fewer handler.select_convs(1) handler.surjective
      handler.update_convs(2))

lemma keeps_stats2 [intro, simp]: "keeps L (h\<lparr>hd_stats := a\<rparr>) (h\<lparr>hd_stats := b\<rparr>)"
  using keeps_stats [of L "h\<lparr>hd_stats := a\<rparr>" b] by simp

lemma keeps_qlog [intro, simp]: "keeps L h (h\<lparr>hd_qlog := q\<rparr>)"
  unfolding keeps_def by (metis config_upd(3) cached_ok_fewer handler.select_convs(1) handler.surjective
      handler.update_convs(3))

lemma keeps_put:
  assumes "lib_fqdn L name = name" "qtype = type_A \<longrightarrow> reads_cache (rd_action (decide_name h name)) \<longrightarrow> allowed h name m"
  shows "keeps L h (cache_put_for_request L env r name qtype m epoch meta h)"
proof (cases "hd_cache h")
  case None
  then show ?thesis by (simp add: cache_put_for_request_def)
next
  case (Some c)
  let ?h = "cache_put_for_request L env r name qtype m epoch meta h"
  have conf: "config ?h = config h" by (auto simp: cache_put_for_request_def Let_def split: option.split)
  moreover have "cached_ok L ?h" if ok: "cached_ok L h"
  proof -
    have new: "(\<exists>c. hd_cache h = Some c \<and> map_of (c_map c) k = Some e) \<or>
        (k_name k = to_lower name \<and> k_qtype k = qtype \<and> e_msg e = m)"
      if "hd_cache ?h = Some c'" "map_of (c_map c') k = Some e" for c' k e
      using that Some assms(1)
      by (auto simp: cache_put_for_request_def Let_def put_at_epoch_with_metadata_options_def map_of_put_locked
          stored_def new_cache_key_def split: if_splits)
    show ?thesis
      unfolding cached_ok_def allowed_config [OF conf] decide_config [OF conf]
    proof (intro allI impI)
      fix c' k e n
      assume e: "hd_cache ?h = Some c'" "map_of (c_map c') k = Some e"
        and k: "k_qtype k = type_A" "lib_fqdn L n = n" "k_name k = to_lower n" "reads_cache (rd_action (decide_name h n))"
      from new [OF e] show "allowed h n (e_msg e)"
      proof
        assume "\<exists>c. hd_cache h = Some c \<and> map_of (c_map c) k = Some e"
        with ok k show ?thesis unfolding cached_ok_def by blast
      next
        assume n: "k_name k = to_lower name \<and> k_qtype k = qtype \<and> e_msg e = m"
        with k(3) have "decide_name h n = decide_name h name" by (intro decide_name_lower) simp
        with n k assms(2) show ?thesis by (simp add: allowed_def)
      qed
    qed
  qed
  ultimately show ?thesis by (simp add: keeps_def)
qed

lemma keeps_get: "keeps L h (snd (cache_get_for_request L env r name qtype h))"
  by (auto simp: cache_get_for_request_def split: option.split)

lemma get_allowed:
  assumes "cache_get_for_request L env r name type_A h = (Some (m, meta), h1)" "cached_ok L h"
    "lib_fqdn L name = name" "reads_cache (rd_action (decide_name h name))"
  shows "allowed h name m"
proof -
  obtain c m0 where c: "hd_cache h = Some c" "m = prepare_cached_reply m0 r"
      "get_with_metadata_options L c (qe_now env) name type_A (cache_options_from_msg L (Some r)) = Some (m0, meta)"
    using assms(1) by (auto simp: cache_get_for_request_def split: option.splits)
  then obtain e s where e: "map_of (c_map c) (new_cache_key L name type_A (cache_options_from_msg L (Some r))) = Some e"
      "m0 = with_ttls s (e_msg e)"
    by (auto simp: get_with_metadata_options_def Let_def split: option.splits if_splits)
  have "k_qtype (new_cache_key L name type_A (cache_options_from_msg L (Some r))) = type_A"
    "k_name (new_cache_key L name type_A (cache_options_from_msg L (Some r))) = to_lower name"
    using assms(3) by (simp_all add: new_cache_key_def)
  with e(1) c(1) assms have "allowed h name (e_msg e)" unfolding cached_ok_def by blast
  then show ?thesis unfolding c(2) e(2) by (rule allowed_with_ttls [OF assms(4)])
qed

lemma keeps_stale: "keeps L h (snd (cache_get_stale_for_request L env r name qtype h))"
proof -
  let ?h = "snd (cache_get_stale_for_request L env r name qtype h)"
  have conf: "config ?h = config h"
    by (auto simp: cache_get_stale_for_request_def split: option.split prod.split)
  have fewer: "\<exists>c. hd_cache h = Some c \<and> map_of (c_map c) k = Some e"
    if "hd_cache ?h = Some c'" "map_of (c_map c') k = Some e" for c' k e
    using that
    by (auto simp: cache_get_stale_for_request_def get_stale_with_metadata_options_def Let_def delete_conv
        split: option.splits prod.splits if_splits)
  have "cached_ok L ?h" if "cached_ok L h" using that conf fewer by (rule cached_ok_fewer)
  with conf show ?thesis unfolding keeps_def by blast
qed

lemma stale_allowed:
  assumes "cache_get_stale_for_request L env r name type_A h = (Some (m, meta), h1)" "cached_ok L h"
    "lib_fqdn L name = name" "reads_cache (rd_action (decide_name h name))"
  shows "allowed h name m"
proof -
  let ?k = "new_cache_key L name type_A (cache_options_from_msg L (Some r))"
  obtain c e s where c: "hd_cache h = Some c" "map_of (c_map c) ?k = Some e"
      "m = prepare_cached_reply (with_ttls s (e_msg e)) r"
    using assms(1)
    by (auto simp: cache_get_stale_for_request_def get_stale_with_metadata_options_def Let_def
        split: option.splits prod.splits if_splits)
  have "k_qtype ?k = type_A" "k_name ?k = to_lower name" using assms(3) by (simp_all add: new_cache_key_def)
  with c assms have "allowed h name (e_msg e)" unfolding cached_ok_def by blast
  then show ?thesis unfolding c(3) by (rule allowed_with_ttls [OF assms(4)])
qed

section \<open>Resolutions\<close>

text \<open>A resolution of an A query for \<open>name\<close> keeps the invariant and returns an allowed answer.\<close>

definition sound :: "dns_lib \<Rightarrow> string \<Rightarrow> u16 \<Rightarrow> handler \<Rightarrow> msg \<times> 'i \<times> handler \<Rightarrow> bool" where
  "sound L name qtype h res \<longleftrightarrow> keeps L h (snd (snd res)) \<and>
     (qtype = type_A \<longrightarrow> cached_ok L h \<longrightarrow> reads_cache (rd_action (decide_name h name)) \<longrightarrow> allowed h name (fst res))"

lemma sound_after:
  assumes "keeps L h h1" "sound L name qtype h1 res"
  shows "sound L name qtype h res"
proof -
  have conf: "config h1 = config h" using assms(1) by (simp add: keeps_def)
  show ?thesis using assms
    unfolding sound_def keeps_def allowed_config [OF conf] decide_config [OF conf] by metis
qed

lemma sound_failure: "keeps L h h1 \<Longrightarrow> answer m = [] \<Longrightarrow> sound L name qtype h (m, ri, h1)"
  by (simp add: sound_def allowed_failure)

lemma sound_stale:
  assumes "reply_ok L" "lib_fqdn L name = name"
  shows "sound L name qtype h (stale_or_server_fail L env r name qtype ri h)"
proof (cases "cache_get_stale_for_request L env r name qtype h")
  case (Pair res h1)
  have k: "keeps L h h1" using keeps_stale [of L h env r name qtype] Pair by simp
  show ?thesis
  proof (cases res)
    case None
    then show ?thesis
      using Pair k by (simp add: stale_or_server_fail_def server_fail_def set_rcode_simps [OF assms(1)] sound_failure)
  next
    case (Some p)
    obtain m meta where p: "p = (m, meta)" by fastforce
    show ?thesis
      using Pair k Some p assms(2)
      by (auto simp: stale_or_server_fail_def sound_def Let_def intro: stale_allowed)
  qed
qed

lemma sound_put:
  assumes "keeps L h h1" "lib_fqdn L name = name"
    "qtype = type_A \<Longrightarrow> allowed h name m"
  shows "sound L name qtype h (m, ri, cache_put_for_request L env r name qtype m epoch meta h1)"
proof -
  have conf: "config h1 = config h" using assms(1) by (simp add: keeps_def)
  have "keeps L h1 (cache_put_for_request L env r name qtype m epoch meta h1)"
    using assms(2,3) by (intro keeps_put) (simp_all add: allowed_config [OF conf])
  with assms show ?thesis by (auto simp: sound_def intro: keeps_trans)
qed

lemma resolved_cases:
  obtains m src where "res = Inr (Some m, src)" | e where "res = Inl e" | src where "res = Inr (None, src)"
proof (cases res)
  case (Inr p)
  then show thesis using that by (cases p; cases "fst p") auto
qed (use that in auto)

lemma sound_direct:
  assumes "reply_ok L" "lib_fqdn L name = name" "rd_action (decide_name h name) = ActionDirect"
  shows "sound L name qtype h (resolve_direct L env name qtype epoch v req ri h)"
proof -
  obtain res st where arb: "arbitrate_src (qe_china env req) (qe_trust env req) (hd_cn h) (hd_stats h) = (res, st)"
    by fastforce
  have "allowed h name (filter_aaaa m)" for m using assms(3) by (simp add: allowed_def filter_aaaa_def)
  then have "sound L name qtype h (filter_aaaa m, i, cache_put_for_request L env req name qtype (filter_aaaa m) epoch meta
      (h\<lparr>hd_stats := st\<rparr>))" for m i meta
    using assms(2) by (intro sound_put) simp_all
  note served = this
  have stale: "sound L name qtype h (stale_or_server_fail L env req name qtype ri (h\<lparr>hd_stats := st\<rparr>))"
    by (rule sound_after [OF keeps_stats sound_stale [OF assms(1,2)]])
  show ?thesis
    unfolding resolve_direct_def arb Let_def
    by (rule resolved_cases [of res]) (simp_all only: prod.case sum.case option.case served stale)
qed

lemma sound_auto:
  assumes "reply_ok L" "lib_fqdn L name = name" "rd_action (decide_name h name) = ActionAuto"
  shows "sound L name qtype h (resolve_auto L env name qtype epoch req ri h)"
proof -
  obtain res st where arb: "arbitrate_src (qe_china env req) (qe_trust env req) (hd_cn h) (hd_stats h) = (res, st)"
    by fastforce
  let ?h1 = "h\<lparr>hd_stats := st\<rparr>"
  have al: "allowed h name (rewrite_a L ?h1 (filter_aaaa m) req (hd_cn ?h1))" for m
  proof -
    have "decide_name ?h1 name = decide_name h name" by (rule decide_config) simp
    then have "allowed ?h1 name (rewrite_a L ?h1 (filter_aaaa m) req (hd_cn ?h1))"
      using steer_safe_rewrite [of ?h1 L m req] assms(3) by (simp add: allowed_def)
    then show ?thesis using allowed_config [of ?h1 h] by simp
  qed
  then have "sound L name qtype h (rewrite_a L ?h1 (filter_aaaa m) req (hd_cn ?h1), i,
      cache_put_for_request L env req name qtype (rewrite_a L ?h1 (filter_aaaa m) req (hd_cn ?h1)) epoch meta ?h1)"
    for m i meta
    using assms(2) by (intro sound_put) simp_all
  note served = this
  have stale: "sound L name qtype h (stale_or_server_fail L env req name qtype ri ?h1)"
    by (rule sound_after [OF keeps_stats sound_stale [OF assms(1,2)]])
  show ?thesis
    unfolding resolve_auto_def arb Let_def
    by (rule resolved_cases [of res]) (simp_all only: prod.case sum.case option.case served stale)
qed

lemma sound_trust:
  assumes "reply_ok L" "lib_fqdn L name = name" "qtype \<noteq> type_A"
  shows "sound L name qtype h (resolve_trust L env name qtype epoch req ri h)"
proof -
  have "sound L name qtype h (m, i, cache_put_for_request L env req name qtype m epoch meta h)" for m i meta
    using assms(2,3) by (intro sound_put) simp_all
  with sound_stale [OF assms(1,2)] show ?thesis
    unfolding resolve_trust_def Let_def by (auto split: sum.split option.split)
qed

text \<open>
  A resolution run by its caller: the same, and a caller that left has only the effects. A caller
  that joined a flight changes nothing, and what it is handed must be allowed for its own name.
\<close>

definition joins_safe :: "handler \<Rightarrow> string \<Rightarrow> u16 \<Rightarrow> query_env \<Rightarrow> bool" where
  "joins_safe h name qtype env \<longleftrightarrow> (\<forall>m info. qe_caller env = CallerJoins m info \<longrightarrow> qtype = type_A \<longrightarrow>
     reads_cache (rd_action (decide_name h name)) \<longrightarrow> allowed h name m)"

lemma joins_safe_config:
  assumes "config h' = config h"
  shows "joins_safe h' name qtype env = joins_safe h name qtype env"
  unfolding joins_safe_def allowed_config [OF assms] decide_config [OF assms] ..

lemma sound_alone:
  assumes "\<And>i. sound L name qtype h (f r i h)" "coalesce_resolution env r ri f h = (mo, ri1, h2)"
    "joins_safe h name qtype env"
  shows "keeps L h h2"
    "mo = Some m \<Longrightarrow> qtype = type_A \<Longrightarrow> cached_ok L h \<Longrightarrow> reads_cache (rd_action (decide_name h name)) \<Longrightarrow> allowed h name m"
  using assms(2,3) assms(1) [of "Some (case ri of None \<Rightarrow> no_info | Some i \<Rightarrow> i)"]
  by (auto simp: coalesce_resolution_def sound_def allowed_prepare joins_safe_def split: caller.splits prod.splits)

lemma keeps_bumps [simp]: "keeps L h (bump_default_verdict mo h)" "keeps L h (bump_cached meta h)"
  by (auto simp: bump_default_verdict_def bump_cached_def Let_def)

lemma sound_direct_a:
  assumes "reply_ok L" "lib_fqdn L (qs_name q) = qs_name q" "qs_type q = type_A"
    "rd_action (decide_name h (qs_name q)) = ActionDirect" "joins_safe h (qs_name q) type_A env"
  shows "sound L (qs_name q) type_A h (resolve_direct_a L env q r epoch v ri h)"
proof -
  let ?h = "upd_stats bump_force_direct h" and ?n = "qs_name q"
  obtain go h1 where g: "cache_get_for_request L env r ?n type_A ?h = (go, h1)" by fastforce
  have k1: "keeps L ?h h1" using keeps_get [of L ?h env r ?n type_A] g by simp
  then have c1: "config h1 = config h" by (simp add: keeps_def)
  have a1: "rd_action (decide_name h1 ?n) = ActionDirect" unfolding decide_config [OF c1] by (rule assms(4))
  obtain mo ri1 h2 where al: "coalesce_resolution env r ri (resolve_direct L env ?n type_A epoch v) h1 = (mo, ri1, h2)"
    by (metis prod.exhaust)
  have s1: "sound L ?n type_A h1 (resolve_direct L env ?n type_A epoch v r i h1)" for i
    by (rule sound_direct [OF assms(1,2) a1])
  have js: "joins_safe h1 ?n type_A env" using assms(5) joins_safe_config [OF c1] by simp
  have rc: "reads_cache (rd_action (decide_name ?h ?n))" using assms(4) decide_config [of ?h h] by (simp add: reads_cache_def)
  have "sound L ?n type_A ?h (resolve_direct_a L env q r epoch v ri h)"
  proof (cases go)
    case None
    have "sound L ?n type_A h1 (resolve_direct_a L env q r epoch v ri h)"
      using sound_alone [OF s1 al js]
      by (auto simp: resolve_direct_a_def assms(3) g None al Let_def sound_def server_fail_def set_rcode_simps [OF assms(1)]
          allowed_failure split: option.split)
    then show ?thesis by (rule sound_after [OF k1])
  next
    case (Some p)
    obtain m meta where p: "p = (m, meta)" by fastforce
    have "allowed ?h ?n m" if "cached_ok L ?h" using get_allowed [OF g [unfolded Some p] that assms(2) rc] .
    with k1 show ?thesis
      by (auto simp: resolve_direct_a_def assms(3) g Some p Let_def sound_def)
  qed
  then show ?thesis by (rule sound_after [OF keeps_stats])
qed

lemma sound_auto_a:
  assumes "reply_ok L" "lib_fqdn L (qs_name q) = qs_name q" "qs_type q = type_A"
    "rd_action (decide_name h (qs_name q)) = ActionAuto" "joins_safe h (qs_name q) type_A env"
  shows "sound L (qs_name q) type_A h (resolve_auto_a L env q r epoch ri h)"
proof -
  let ?n = "qs_name q"
  obtain go h1 where g: "cache_get_for_request L env r ?n type_A h = (go, h1)" by fastforce
  have k1: "keeps L h h1" using keeps_get [of L h env r ?n type_A] g by simp
  then have c1: "config h1 = config h" by (simp add: keeps_def)
  have a1: "rd_action (decide_name h1 ?n) = ActionAuto" unfolding decide_config [OF c1] by (rule assms(4))
  obtain mo ri1 h2 where al: "coalesce_resolution env r ri (resolve_auto L env ?n type_A epoch) h1 = (mo, ri1, h2)"
    by (metis prod.exhaust)
  have s1: "sound L ?n type_A h1 (resolve_auto L env ?n type_A epoch r i h1)" for i
    by (rule sound_auto [OF assms(1,2) a1])
  have js: "joins_safe h1 ?n type_A env" using assms(5) joins_safe_config [OF c1] by simp
  have rc: "reads_cache (rd_action (decide_name h ?n))" using assms(4) by (simp add: reads_cache_def)
  show ?thesis
  proof (cases go)
    case None
    have "sound L ?n type_A h1 (resolve_auto_a L env q r epoch ri h)"
      using sound_alone [OF s1 al js]
      by (auto simp: resolve_auto_a_def assms(3) g None al Let_def sound_def server_fail_def set_rcode_simps [OF assms(1)]
          allowed_failure intro: keeps_trans split: option.split)
    then show ?thesis by (rule sound_after [OF k1])
  next
    case (Some p)
    obtain m meta where p: "p = (m, meta)" by fastforce
    have "keeps L h (bump_cached meta h1)" "keeps L h (bump_default_verdict (Some m) h1)"
      using k1 by (auto intro: keeps_trans)
    moreover have "allowed h ?n m" if "cached_ok L h" using get_allowed [OF g [unfolded Some p] that assms(2) rc] .
    ultimately show ?thesis
      by (auto simp: resolve_auto_a_def assms(3) g Some p Let_def sound_def)
  qed
qed

lemma keeps_forward:
  assumes "reply_ok L" "lib_fqdn L (qs_name q) = qs_name q" "qs_type q \<noteq> type_A"
  shows "keeps L h (snd (snd (forward_trust L env q r epoch ri h)))"
proof -
  let ?n = "qs_name q" and ?t = "qs_type q"
  let ?ri = "map_option (\<lambda>i. if ri_reason i = [] then i\<lparr>ri_reason := ''forward-trust''\<rparr> else i) ri"
  obtain go h1 where g: "cache_get_for_request L env r ?n ?t h = (go, h1)" by fastforce
  have k1: "keeps L h h1" using keeps_get [of L h env r ?n ?t] g by simp
  obtain mo ri1 h2 where al: "coalesce_resolution env r ?ri (resolve_trust L env ?n ?t epoch) h1 = (mo, ri1, h2)"
    by (rule prod_cases3)
  have "sound L ?n ?t h1 (resolve_trust L env ?n ?t epoch r i h1)" for i by (rule sound_trust [OF assms])
  moreover have "joins_safe h1 ?n ?t env" using assms(3) by (simp add: joins_safe_def)
  ultimately have k2: "keeps L h h2" by (rule keeps_trans [OF k1 sound_alone(1) [OF _ al]])
  show ?thesis
    unfolding forward_trust_def Let_def g al prod.case
    by (cases go; cases mo) (auto simp: k1 k2 al)
qed

section \<open>Queries\<close>

definition synthetic_type :: "u16 \<Rightarrow> bool" where
  "synthetic_type t \<longleftrightarrow> t = type_AAAA \<or> t = type_HTTPS \<or> t = type_SVCB"

text \<open>What a client may see for a question under a configuration.\<close>

definition client_sees :: "handler \<Rightarrow> question \<Rightarrow> msg \<Rightarrow> bool" where
  "client_sees h q m \<longleftrightarrow>
     (if is_panel_domain h (qs_name q) then (if qs_type q = type_A then only_gateway h m else answer m = [])
      else if synthetic_type (qs_type q) then answer m = []
      else if rd_action (decide_name h (qs_name q)) = ActionBlock then answer m = [] \<and> rcode m = rcode_name_error
      else if qs_type q = type_A then allowed h (qs_name q) m
      else True)"

lemma client_sees_config:
  assumes "config h' = config h"
  shows "client_sees h' q m = client_sees h q m"
  unfolding client_sees_def only_gateway_def allowed_config [OF assms] decide_config [OF assms]
    panel_config [OF assms] gw_unset_config [OF assms] config_fields [OF assms] ..

lemma client_sees_subset:
  assumes "client_sees h q m" "set (answer m') \<subseteq> set (answer m)" "rcode m' = rcode m"
  shows "client_sees h q m'"
proof -
  have og: "only_gateway h m'" if "only_gateway h m"
    using that assms(2,3) by (auto simp: only_gateway_def split: if_splits)
  have "allowed h (qs_name q) m'" if "allowed h (qs_name q) m"
    using that assms(2,3) og
    by (cases "rd_action (decide_name h (qs_name q))") (auto simp: allowed_def steer_safe_def)
  with assms og show ?thesis by (auto simp: client_sees_def split: if_splits)
qed

lemma only_gateway_reply: "reply_ok L \<Longrightarrow> only_gateway h (gateway_reply L h r)"
  by (auto simp: only_gateway_def gateway_reply_def gateway_rr_def rr_ip_def set_reply_simps set_rcode_simps
      gw_unset_def split: option.splits)

lemma soa_reply_simps: "reply_ok L \<Longrightarrow> answer (soa_reply L r) = []"
  by (simp add: soa_reply_def set_reply_simps)

lemma sound_seen:
  assumes "sound L (qs_name q) type_A h res" "qs_type q = type_A" "cached_ok L h"
    "reads_cache (rd_action (decide_name h (qs_name q)))" "\<not> is_panel_domain h (qs_name q)"
  shows "client_sees h q (fst res)"
  using assms by (auto simp: sound_def client_sees_def synthetic_type_def reads_cache_def)

lemma traced_policy:
  assumes "reply_ok L" "lib_fqdn L (qs_name q) = qs_name q" "joins_safe h (qs_name q) (qs_type q) env"
  shows "keeps L h (snd (snd (resolve_traced L env q r ri h)))"
    "cached_ok L h \<Longrightarrow> client_sees h q (fst (resolve_traced L env q r ri h))"
proof -
  let ?h = "upd_stats bump_total h" and ?res = "resolve_traced L env q r ri h"
  let ?d = "decide_name ?h (qs_name q)"
  have kh: "keeps L h ?h" by simp
  have go: "keeps L ?h (snd (snd ?res)) \<and> (cached_ok L ?h \<longrightarrow> client_sees ?h q (fst ?res))"
  proof (cases "is_panel_domain ?h (qs_name q) \<or> synthetic_type (qs_type q)")
    case True
    then show ?thesis
      by (auto simp: resolve_traced_def Let_def client_sees_def only_gateway_reply [OF assms(1)]
          soa_reply_simps [OF assms(1)] synthetic_type_def)
  next
    case False
    then have nt: "\<not> is_panel_domain ?h (qs_name q)" "qs_type q \<noteq> type_AAAA"
        "\<not> (qs_type q = type_HTTPS \<or> qs_type q = type_SVCB)"
      by (auto simp: synthetic_type_def)
    note res = resolve_traced_def [of L env q r ri h, unfolded Let_def, unfolded if_not_P [OF nt(1)] if_not_P [OF nt(2)]
        if_not_P [OF nt(3)]]
    show ?thesis
    proof (cases "rd_action ?d = ActionBlock \<or> (rd_action ?d = ActionGateway \<and> qs_type q = type_A)")
      case True
      then show ?thesis
        using False only_gateway_reply [OF assms(1), of ?h r] set_rcode_simps [OF assms(1)]
        by (auto simp: res client_sees_def allowed_def)
    next
      case act: False
      show ?thesis
      proof (cases "qs_type q = type_A")
        case True
        then have rc: "rd_action ?d = ActionDirect \<or> rd_action ?d = ActionAuto"
          using act by (cases "rd_action ?d") auto
        have "joins_safe ?h (qs_name q) type_A env" using assms(3) True joins_safe_config [of ?h h] by simp
        with rc have "sound L (qs_name q) type_A ?h ?res"
          using sound_direct_a [OF assms(1,2) True] sound_auto_a [OF assms(1,2) True] True unfolding res by auto
        then show ?thesis
          using sound_seen [OF _ True, of L ?h ?res] rc nt(1) by (auto simp: sound_def reads_cache_def)
      next
        case ty: False
        have "client_sees ?h q m" for m
          using act nt ty by (auto simp: client_sees_def synthetic_type_def)
        moreover have "keeps L ?h (snd (snd ?res))"
          using act ty keeps_forward [OF assms(1,2) ty] unfolding res by (cases "rd_action ?d") auto
        ultimately show ?thesis by blast
      qed
    qed
  qed
  then show "keeps L h (snd (snd ?res))" using kh keeps_trans by blast
  show "client_sees h q (fst ?res)" if "cached_ok L h"
    using go kh that client_sees_config [of ?h h] by (simp add: keeps_def)
qed

text \<open>
  The flights. In a handler that serves under one configuration the snapshots of a flight's key are
  always the same; the epoch and the action are the query's. What a flight hands to those that join
  it is what the resolution of its leader returned: of a question with the same key, in some handler
  of the run, whatever the counters were meanwhile.
\<close>

definition query_key :: "dns_lib \<Rightarrow> handler \<Rightarrow> question \<Rightarrow> msg \<Rightarrow> flight_key" where
  "query_key L h q r = new_flight_key L q r
     \<lparr>sc_epoch = cache_epoch (hd_cache h), sc_policy = 0, sc_rules = 0, sc_upstreams = 0,
      sc_action = rd_action (decide_name h (qs_name q))\<rparr>"

definition own_resolution ::
    "dns_lib \<Rightarrow> query_env \<Rightarrow> handler \<Rightarrow> question \<Rightarrow> msg \<Rightarrow> resolve_info option \<Rightarrow>
       msg \<times> resolve_info option \<times> handler" where
  "own_resolution L env h q r ri =
     (let name = qs_name q; qtype = qs_type q; epoch = cache_epoch (hd_cache h); d = decide_name h name in
      if qtype \<noteq> type_A then resolve_trust L env name qtype epoch r ri h
      else if rd_action d = ActionDirect then resolve_direct L env name qtype epoch (rd_verdict d) r ri h
      else resolve_auto L env name qtype epoch r ri h)"

definition flight_answer :: "dns_lib \<Rightarrow> handler \<Rightarrow> handler \<Rightarrow> question \<Rightarrow> msg \<Rightarrow> msg \<Rightarrow> bool" where
  "flight_answer L h1 h q r m \<longleftrightarrow>
     (\<exists>env1 q1 r1 ri st. lib_fqdn L (qs_name q1) = qs_name q1 \<and> query_key L h1 q1 r1 = query_key L h q r \<and>
        m = fst (own_resolution L env1 (h1\<lparr>hd_stats := st\<rparr>) q1 r1 ri))"

lemma flight_answer_allowed:
  assumes "reply_ok L" "lib_fqdn L (qs_name q) = qs_name q" "flight_answer L h1 h q r m"
    "config h1 = config h" "cached_ok L h1" "qs_type q = type_A" "reads_cache (rd_action (decide_name h (qs_name q)))"
  shows "allowed h (qs_name q) m"
proof -
  obtain env1 q1 r1 ri st where f: "lib_fqdn L (qs_name q1) = qs_name q1"
      "query_key L h1 q1 r1 = query_key L h q r"
      "m = fst (own_resolution L env1 (h1\<lparr>hd_stats := st\<rparr>) q1 r1 ri)"
    using assms(3) unfolding flight_answer_def by blast
  let ?h = "h1\<lparr>hd_stats := st\<rparr>"
  have key: "to_lower (qs_name q1) = to_lower (qs_name q)" "qs_type q1 = type_A"
    using f(1,2) assms(2,6) by (simp_all add: query_key_def new_flight_key_def Let_def)
  have d: "decide_name ?h (qs_name q1) = decide_name h (qs_name q)"
    using decide_config [of ?h h] decide_name_lower [OF key(1)] assms(4) by simp
  have co: "cached_ok L ?h" using keeps_stats [of L h1 st] assms(5) by (simp add: keeps_def)
  have rc: "rd_action (decide_name ?h (qs_name q1)) = ActionDirect \<or> rd_action (decide_name ?h (qs_name q1)) = ActionAuto"
    using assms(7) unfolding d by (auto simp: reads_cache_def)
  have "sound L (qs_name q1) type_A ?h (own_resolution L env1 ?h q1 r1 ri)"
    using rc key(2) by (auto simp: own_resolution_def Let_def
        intro: sound_direct [OF assms(1) f(1)] sound_auto [OF assms(1) f(1)])
  then have "allowed ?h (qs_name q1) m" using co rc unfolding f(3) by (auto simp: sound_def reads_cache_def)
  then have "allowed h (qs_name q1) m" using allowed_config [of ?h h] assms(4) by simp
  then show ?thesis by (simp only: allowed_def decide_name_lower [OF key(1)])
qed

definition wire_names :: "dns_lib \<Rightarrow> msg \<Rightarrow> bool" where
  "wire_names L r \<longleftrightarrow> (\<forall>q\<in>set (questions r). lib_fqdn L (qs_name q) = qs_name q)"

lemma serve_keeps:
  assumes "reply_ok L" "wire_names L r" "serve_context L env w r h = (resp, h')"
    "\<And>q. questions r = [q] \<Longrightarrow> joins_safe h (qs_name q) (qs_type q) env"
  shows "keeps L h h'"
proof (cases "length (questions r) \<noteq> 1 \<or> qs_class (hd (questions r)) \<noteq> class_INET \<or> \<not> tr_admitted w")
  case True
  then show ?thesis using assms(3) by (auto simp: serve_context_def split: if_splits)
next
  case False
  then obtain q where q: "questions r = [q]" by (cases "questions r") auto
  obtain m ri1 h1 where t: "resolve_traced L env q r (Some no_info) h = (m, ri1, h1)" by (rule prod_cases3)
  have "keeps L h h1" using traced_policy(1) [OF assms(1) _ assms(4) [OF q], of r "Some no_info"] assms(2) t q
    by (simp add: wire_names_def)
  with False assms(3) q t show ?thesis
    by (auto simp: serve_context_def Let_def intro: keeps_trans split: option.splits)
qed

text \<open>
  The handlers that any sequence of queries leads to, with any clocks, upstream answers and callers:
  queries that run their resolution or leave, and queries that join a flight led by a query of the run.
\<close>

definition joins :: "query_env \<Rightarrow> msg option" where
  "joins env = (case qe_caller env of CallerJoins m info \<Rightarrow> Some m | _ \<Rightarrow> None)"

inductive served :: "dns_lib \<Rightarrow> handler \<Rightarrow> handler \<Rightarrow> bool" for L h0 where
  served_start: "served L h0 h0"
| served_query: "served L h0 h \<Longrightarrow> wire_names L r \<Longrightarrow> joins env = None \<Longrightarrow>
    serve_context L env w r h = (resp, h') \<Longrightarrow> served L h0 h'"
| served_join: "served L h0 h \<Longrightarrow> wire_names L r \<Longrightarrow> joins env = Some m \<Longrightarrow> questions r = [q] \<Longrightarrow>
    served L h0 h1 \<Longrightarrow> flight_answer L h1 h q r m \<Longrightarrow>
    serve_context L env w r h = (resp, h') \<Longrightarrow> served L h0 h'"

lemma joins_safe_run:
  assumes "reply_ok L" "wire_names L r" "questions r = [q]" "keeps L h0 h" "cached_ok L h0"
    "\<And>m. joins env = Some m \<Longrightarrow> \<exists>h1. keeps L h0 h1 \<and> flight_answer L h1 h q r m"
  shows "joins_safe h (qs_name q) (qs_type q) env"
proof -
  have w: "lib_fqdn L (qs_name q) = qs_name q" using assms(2,3) by (simp add: wire_names_def)
  have "allowed h (qs_name q) m"
    if j: "joins env = Some m" and t: "qs_type q = type_A" "reads_cache (rd_action (decide_name h (qs_name q)))" for m
  proof -
    obtain h1 where h1: "keeps L h0 h1" "flight_answer L h1 h q r m" using assms(6) [OF j] by blast
    then have "config h1 = config h" "cached_ok L h1" using assms(4,5) by (auto simp: keeps_def)
    then show ?thesis by (rule flight_answer_allowed [OF assms(1) w h1(2) _ _ t])
  qed
  then show ?thesis by (simp add: joins_safe_def joins_def)
qed

lemma served_keeps:
  assumes "served L h0 h" "reply_ok L" "cached_ok L h0"
  shows "keeps L h0 h"
  using assms
proof (induction rule: served.induct)
  case (served_query h r env w resp h')
  have "joins_safe h n t env" for n t using served_query(3) by (auto simp: joins_safe_def joins_def)
  then show ?case using served_query serve_keeps keeps_trans by meson
next
  case (served_join h r env m q h1 w resp h')
  have k: "keeps L h0 h" "keeps L h0 h1" using served_join by blast+
  have "joins_safe h (qs_name q') (qs_type q') env" if "questions r = [q']" for q'
  proof (rule joins_safe_run [OF served_join.prems(1) served_join.hyps(2) that k(1) served_join.prems(2)])
    fix m' assume "joins env = Some m'"
    with that served_join.hyps(3,4,6) k(2) show "\<exists>h1. keeps L h0 h1 \<and> flight_answer L h1 h q' r m'" by auto
  qed
  then show ?case using serve_keeps [OF served_join.prems(1) served_join.hyps(2)] served_join.hyps keeps_trans k(1) by blast
qed simp

definition empty_cached :: "handler \<Rightarrow> bool" where
  "empty_cached h \<longleftrightarrow> (case hd_cache h of None \<Rightarrow> True | Some c \<Rightarrow> c_map c = [])"

lemma cached_ok_empty: "empty_cached h \<Longrightarrow> cached_ok L h"
  by (auto simp: cached_ok_def empty_cached_def)


definition ex_handler :: handler where
  "ex_handler = \<lparr>hd_cache = Some (new_cache 4), hd_stats = Some zero_stats, hd_qlog = None,
     hd_cn = Some \<lparr>ranges = [\<lparr>r_start = 0x01000000, r_end = 0x01FFFFFF\<rparr>]\<rparr>,
     hd_policy = None, hd_intercept = None, hd_gateway = Some [203, 0, 113, 200], hd_console = [], hd_zash = [],
     hd_ttl_min = 60 * second, hd_ttl_max = 86400 * second\<rparr>"

definition ex_env :: query_env where
  "ex_env = \<lparr>qe_now = 0, qe_order = [], qe_china = (\<lambda>m. Inr (Some ex_answer)),
     qe_trust = (\<lambda>m. Inr (Some ex_answer)), qe_caller = CallerStays\<rparr>"

definition ex_transport :: transport where
  "ex_transport = \<lparr>tr_remote = None, tr_udp = True, tr_admitted = True, tr_elapsed_us = 0\<rparr>"

definition ex_request :: msg where
  "ex_request = new_msg\<lparr>msg_id := 7, questions := [\<lparr>qs_name = ''a.example.'', qs_type = type_A, qs_class = class_INET\<rparr>]\<rparr>"

text \<open>
  A first query, for \<open>A.Example.\<close>, is being resolved; another one is served; a query for
  \<open>a.example.\<close> joins the flight of the first.
\<close>

definition ex_leader :: question where
  "ex_leader = \<lparr>qs_name = ''A.Example.'', qs_type = type_A, qs_class = class_INET\<rparr>"

definition ex_shared :: msg where
  "ex_shared = fst (own_resolution ref_lib ex_env ex_handler ex_leader (new_msg\<lparr>questions := [ex_leader]\<rparr>) None)"

definition ex_other :: msg where
  "ex_other = new_msg\<lparr>msg_id := 9, questions := [\<lparr>qs_name = ''b.example.'', qs_type = type_A, qs_class = class_INET\<rparr>]\<rparr>"

definition ex_after :: handler where
  "ex_after = snd (serve_context ref_lib ex_env ex_transport ex_other ex_handler)"

definition ex_join_env :: query_env where
  "ex_join_env = ex_env\<lparr>qe_caller := CallerJoins ex_shared no_info\<rparr>"


end
