(* ===== verification/Handler_Accounting.thy ===== *)
theory Handler_Accounting
  imports Handler_Safety
begin

text \<open>
  What one query does to the shared counters, and that the reply belongs to the request: the total
  goes up by one, at most one of the five verdict counters does, and every reply carries the
  request's id, also when it comes from the cache or from another caller's resolution.
\<close>

section \<open>Counters\<close>

definition verdict_counts :: "stats_counters \<Rightarrow> u64 list" where
  "verdict_counts s = [st_block s, st_force_direct s, st_force_proxy s, st_chnroute_cn s, st_chnroute_foreign s]"

text \<open>One counter of the list goes up by one.\<close>

definition one_more :: "u64 list \<Rightarrow> u64 list \<Rightarrow> bool" where
  "one_more xs ys \<longleftrightarrow> (\<exists>i<length xs. ys = xs[i := xs ! i + 1])"

text \<open>The two views of the counters that the proofs follow, and the cache's own pair.\<close>

definition total_of :: "handler \<Rightarrow> u64 option" where
  "total_of h = map_option st_total (hd_stats h)"

definition verdicts_of :: "handler \<Rightarrow> u64 list option" where
  "verdicts_of h = map_option verdict_counts (hd_stats h)"

definition same_counts :: "handler \<Rightarrow> handler \<Rightarrow> bool" where
  "same_counts h h' \<longleftrightarrow> total_of h' = total_of h \<and> verdicts_of h' = verdicts_of h"

definition at_most_one :: "handler \<Rightarrow> handler \<Rightarrow> bool" where
  "at_most_one h h' \<longleftrightarrow> total_of h' = total_of h \<and>
     (verdicts_of h' = verdicts_of h \<or>
      (\<exists>v v'. verdicts_of h = Some v \<and> verdicts_of h' = Some v' \<and> one_more v v'))"

lemma same_counts_refl [simp, intro]: "same_counts h h"
  by (simp add: same_counts_def)

lemma same_counts_trans [trans]: "same_counts h h1 \<Longrightarrow> same_counts h1 h2 \<Longrightarrow> same_counts h h2"
  by (simp add: same_counts_def)

lemma at_most_one_same: "same_counts h h' \<Longrightarrow> at_most_one h h'"
  by (simp add: same_counts_def at_most_one_def)

lemma at_most_one_before: "same_counts h h1 \<Longrightarrow> at_most_one h1 h2 \<Longrightarrow> at_most_one h h2"
  by (simp add: same_counts_def at_most_one_def)

lemma at_most_one_after: "at_most_one h h1 \<Longrightarrow> same_counts h1 h2 \<Longrightarrow> at_most_one h h2"
  by (simp add: same_counts_def at_most_one_def)

lemma same_counts_cache [simp, intro]: "same_counts h (h\<lparr>hd_cache := c\<rparr>)" "same_counts h (h\<lparr>hd_qlog := l\<rparr>)"
  by (simp_all add: same_counts_def total_of_def verdicts_of_def)

lemma same_counts_stats:
  "map_option st_total s' = map_option st_total (hd_stats h) \<Longrightarrow>
   map_option verdict_counts s' = map_option verdict_counts (hd_stats h) \<Longrightarrow> same_counts h (h\<lparr>hd_stats := s'\<rparr>)"
  by (simp add: same_counts_def total_of_def verdicts_of_def)

lemma same_counts_bump_cache [simp]: "same_counts h (h\<lparr>hd_stats := bump_cache b (hd_stats h)\<rparr>)"
  by (cases "hd_stats h") (simp_all add: same_counts_def total_of_def verdicts_of_def bump_cache_def verdict_counts_def)

lemma arb_stats:
  assumes "arbitrate_src c t cn st = (res, st')"
  shows "map_option st_total st' = map_option st_total st" "map_option verdict_counts st' = map_option verdict_counts st"
  using assms
  by (cases st; auto simp: arbitrate_src_def Let_def bump_china_def bump_trust_def verdict_counts_def
      split: sum.splits if_splits)+

lemma same_counts_get: "same_counts h (snd (cache_get_for_request L env r n t h))"
  by (auto simp: cache_get_for_request_def split: option.split)

lemma same_counts_put [simp]: "same_counts h (cache_put_for_request L env r n t m epoch meta h)"
  by (auto simp: cache_put_for_request_def Let_def split: option.split)

lemma same_counts_stale: "same_counts h (snd (snd (stale_or_server_fail L env r n t ri h)))"
  by (auto simp: stale_or_server_fail_def cache_get_stale_for_request_def Let_def split: option.split prod.split)

lemma one_more_bump:
  "at_most_one h (upd_stats bump_block h)" "at_most_one h (upd_stats bump_force_direct h)"
  "at_most_one h (upd_stats bump_force_proxy h)" "at_most_one h (upd_stats bump_chnroute_cn h)"
  "at_most_one h (upd_stats bump_chnroute_foreign h)"
proof -
  have *: "one_more xs (xs[i := xs ! i + 1])" if "i < length xs" for xs i using that by (auto simp: one_more_def)
  show "at_most_one h (upd_stats bump_block h)"
    using *[of 0 "verdict_counts (the (hd_stats h))"]
    by (cases "hd_stats h") (auto simp: at_most_one_def total_of_def verdicts_of_def verdict_counts_def bump_block_def)
  show "at_most_one h (upd_stats bump_force_direct h)"
    using *[of 1 "verdict_counts (the (hd_stats h))"]
    by (cases "hd_stats h") (auto simp: at_most_one_def total_of_def verdicts_of_def verdict_counts_def bump_force_direct_def)
  show "at_most_one h (upd_stats bump_force_proxy h)"
    using *[of 2 "verdict_counts (the (hd_stats h))"]
    by (cases "hd_stats h") (auto simp: at_most_one_def total_of_def verdicts_of_def verdict_counts_def bump_force_proxy_def)
  show "at_most_one h (upd_stats bump_chnroute_cn h)"
    using *[of 3 "verdict_counts (the (hd_stats h))"]
    by (cases "hd_stats h") (auto simp: at_most_one_def total_of_def verdicts_of_def verdict_counts_def bump_chnroute_cn_def
        numeral_3_eq_3)
  show "at_most_one h (upd_stats bump_chnroute_foreign h)"
    using *[of 4 "verdict_counts (the (hd_stats h))"]
    by (cases "hd_stats h") (auto simp: at_most_one_def total_of_def verdicts_of_def verdict_counts_def
        bump_chnroute_foreign_def eval_nat_numeral)
qed

lemma one_more_verdict [simp]: "at_most_one h (bump_default_verdict mo h)" "at_most_one h (bump_cached meta h)"
  by (auto simp: bump_default_verdict_def bump_cached_def Let_def one_more_bump at_most_one_same)

lemma same_counts_arb:
  assumes "arbitrate_src c t cn (hd_stats h) = (res, st)"
  shows "same_counts h (h\<lparr>hd_stats := st\<rparr>)"
  by (rule same_counts_stats) (rule arb_stats [OF assms])+

lemma same_counts_direct: "same_counts h (snd (snd (resolve_direct L env n t epoch v req ri h)))"
proof -
  obtain res st where arb: "arbitrate_src (qe_china env req) (qe_trust env req) (hd_cn h) (hd_stats h) = (res, st)"
    by fastforce
  note st = same_counts_arb [OF arb]
  show ?thesis
    unfolding resolve_direct_def arb Let_def prod.case
    by (rule resolved_cases [of res])
       (simp_all only: sum.case option.case prod.case snd_conv
         same_counts_trans [OF st same_counts_put] same_counts_trans [OF st same_counts_stale])
qed

lemma same_counts_auto: "same_counts h (snd (snd (resolve_auto L env n t epoch req ri h)))"
proof -
  obtain res st where arb: "arbitrate_src (qe_china env req) (qe_trust env req) (hd_cn h) (hd_stats h) = (res, st)"
    by fastforce
  note st = same_counts_arb [OF arb]
  show ?thesis
    unfolding resolve_auto_def arb Let_def prod.case
    by (rule resolved_cases [of res])
       (simp_all only: sum.case option.case prod.case snd_conv
         same_counts_trans [OF st same_counts_put] same_counts_trans [OF st same_counts_stale])
qed

lemma same_counts_trust: "same_counts h (snd (snd (resolve_trust L env n t epoch req ri h)))"
  unfolding resolve_trust_def Let_def by (auto simp: same_counts_stale split: sum.split option.split)

lemma same_counts_alone:
  assumes "\<And>i. same_counts h (snd (snd (f r i h)))" "coalesce_resolution env r ri f h = (mo, ri1, h2)"
  shows "same_counts h h2"
  using assms(2) assms(1) [of "Some (case ri of None \<Rightarrow> no_info | Some i \<Rightarrow> i)"]
  by (auto simp: coalesce_resolution_def split: caller.splits prod.splits)

lemma same_counts_forward: "same_counts h (snd (snd (forward_trust L env q r epoch ri h)))"
proof -
  let ?n = "qs_name q" and ?t = "qs_type q"
  let ?ri = "map_option (\<lambda>i. if ri_reason i = [] then i\<lparr>ri_reason := ''forward-trust''\<rparr> else i) ri"
  obtain go h1 where g: "cache_get_for_request L env r ?n ?t h = (go, h1)" by fastforce
  have k1: "same_counts h h1" using same_counts_get [of h L env r ?n ?t] g by simp
  obtain mo ri1 h2 where al: "coalesce_resolution env r ?ri (resolve_trust L env ?n ?t epoch) h1 = (mo, ri1, h2)"
    by (rule prod_cases3)
  have k2: "same_counts h h2"
    by (rule same_counts_trans [OF k1 same_counts_alone [OF _ al]]) (rule same_counts_trust)
  show ?thesis
    unfolding forward_trust_def Let_def g al prod.case
    by (cases go; cases mo) (auto simp: k1 k2 al)
qed

lemma one_more_direct_a: "at_most_one h (snd (snd (resolve_direct_a L env q r epoch v ri h)))"
proof -
  let ?h = "upd_stats bump_force_direct h" and ?n = "qs_name q" and ?t = "qs_type q"
  obtain go h1 where g: "cache_get_for_request L env r ?n ?t ?h = (go, h1)" by fastforce
  have k1: "same_counts ?h h1" using same_counts_get [of ?h L env r ?n ?t] g by simp
  obtain mo ri1 h2 where al: "coalesce_resolution env r ri (resolve_direct L env ?n ?t epoch v) h1 = (mo, ri1, h2)"
    by (rule prod_cases3)
  have k2: "same_counts ?h h2"
    by (rule same_counts_trans [OF k1 same_counts_alone [OF _ al]]) (rule same_counts_direct)
  show ?thesis
    unfolding resolve_direct_a_def Let_def g al prod.case
    using at_most_one_after [OF one_more_bump(2) k1] at_most_one_after [OF one_more_bump(2) k2]
    by (cases go; cases mo) (auto simp: al)
qed

lemma one_more_auto_a: "at_most_one h (snd (snd (resolve_auto_a L env q r epoch ri h)))"
proof -
  let ?n = "qs_name q" and ?t = "qs_type q"
  obtain go h1 where g: "cache_get_for_request L env r ?n ?t h = (go, h1)" by fastforce
  have k1: "same_counts h h1" using same_counts_get [of h L env r ?n ?t] g by simp
  obtain mo ri1 h2 where al: "coalesce_resolution env r ri (resolve_auto L env ?n ?t epoch) h1 = (mo, ri1, h2)"
    by (rule prod_cases3)
  have k2: "same_counts h h2"
    by (rule same_counts_trans [OF k1 same_counts_alone [OF _ al]]) (rule same_counts_auto)
  show ?thesis
    unfolding resolve_auto_a_def Let_def g al prod.case
    using at_most_one_before [OF k1 one_more_verdict(1)] at_most_one_before [OF k1 one_more_verdict(2)]
      at_most_one_before [OF k2 one_more_verdict(1)] at_most_one_same [OF k2]
    by (cases go; cases mo) (auto simp: al)
qed

lemma traced_counts: "at_most_one (upd_stats bump_total h) (snd (snd (resolve_traced L env q r ri h)))"
proof -
  let ?h = "upd_stats bump_total h"
  let ?d = "decide_name ?h (qs_name q)"
  have refl: "at_most_one ?h ?h" by (simp add: at_most_one_same)
  show ?thesis
    unfolding resolve_traced_def Let_def
    by (cases "rd_action ?d")
       (simp_all only: resolution_action.case refl one_more_bump one_more_direct_a one_more_auto_a
          at_most_one_same [OF same_counts_forward] snd_conv if_True if_False split: if_split, simp_all)
qed

text \<open>The checks of \<open>serveContext\<close> that a query has to pass to be resolved.\<close>

definition accepted :: "transport \<Rightarrow> msg \<Rightarrow> bool" where
  "accepted w r \<longleftrightarrow> length (questions r) = 1 \<and> qs_class (hd (questions r)) = class_INET \<and> tr_admitted w"

lemma serve_accepted:
  assumes "accepted w r" "resolve_traced L env (hd (questions r)) r (Some no_info) h = (m, ri, h1)"
    "serve_context L env w r h = (resp, h')"
  shows "resp = (if tr_udp w then lib_truncate L m (udp_budget L r) else m)" "same_counts h1 h'"
  using assms by (auto simp: accepted_def serve_context_def Let_def split: option.splits if_splits)

text \<open>C4: Every query is counted once: a query that passes the checks adds one to the total and at
  most one to one of the verdict counters (blocked, forced direct, forced proxy, Chinese, foreign),
  whether it was answered from the cache, by a resolution or by a failure; a refused one changes
  nothing.\<close>

theorem query_counted:
  assumes "hd_stats h = Some s" "serve_context L env w r h = (resp, h')"
  shows "if accepted w r
    then \<exists>s'. hd_stats h' = Some s' \<and> st_total s' = st_total s + 1 \<and>
           (verdict_counts s' = verdict_counts s \<or> one_more (verdict_counts s) (verdict_counts s'))
    else h' = h"
proof (cases "accepted w r")
  case True
  obtain m ri h1 where t: "resolve_traced L env (hd (questions r)) r (Some no_info) h = (m, ri, h1)"
    by (rule prod_cases3)
  have "at_most_one (upd_stats bump_total h) h1"
    using traced_counts [of h L env "hd (questions r)" r "Some no_info"] t by simp
  then have "at_most_one (upd_stats bump_total h) h'"
    using serve_accepted(2) [OF True t assms(2)] by (rule at_most_one_after)
  moreover have "total_of (upd_stats bump_total h) = Some (st_total s + 1)"
    "verdicts_of (upd_stats bump_total h) = Some (verdict_counts s)"
    using assms(1) by (simp_all add: total_of_def verdicts_of_def bump_total_def verdict_counts_def)
  ultimately show ?thesis using True
    by (auto simp: at_most_one_def total_of_def verdicts_of_def)
next
  case False
  then show ?thesis using assms(2) by (auto simp: accepted_def serve_context_def split: if_splits)
qed

lemma query_counted_witness:
  "\<exists>s'. hd_stats ex_after = Some s' \<and> st_total s' = 1 \<and> one_more (verdict_counts zero_stats) (verdict_counts s')"
proof -
  have a: "accepted ex_transport ex_other" by code_simp
  have st: "hd_stats ex_handler = Some zero_stats" by (simp add: ex_handler_def)
  have "\<exists>s'. hd_stats ex_after = Some s' \<and> st_total s' = st_total zero_stats + 1 \<and>
      (verdict_counts s' = verdict_counts zero_stats \<or> one_more (verdict_counts zero_stats) (verdict_counts s'))"
    using query_counted [OF st surjective_pairing, where L = ref_lib and env = ex_env and w = ex_transport and r = ex_other] a
    by (simp add: ex_after_def)
  moreover have "map_option verdict_counts (hd_stats ex_after) \<noteq> Some (verdict_counts zero_stats)" by code_simp
  ultimately show ?thesis by (auto simp: zero_stats_def)
qed

section \<open>Replies belong to their requests\<close>

lemma id_prepared [simp]: "msg_id (prepare_cached_reply m r) = msg_id r"
  by (simp add: prepare_cached_reply_def)

lemma id_get: "cache_get_for_request L env r n t h = (Some (m, meta), h1) \<Longrightarrow> msg_id m = msg_id r"
  by (auto simp: cache_get_for_request_def split: option.splits)

lemma id_alone: "coalesce_resolution env r ri f h = (Some m, ri1, h1) \<Longrightarrow> msg_id m = msg_id r"
  by (auto simp: coalesce_resolution_def split: caller.splits prod.splits)

lemma id_server_fail: "reply_ok L \<Longrightarrow> msg_id (server_fail L r) = msg_id r"
  by (simp add: server_fail_def set_rcode_simps)

lemma id_from_cache_or_alone:
  assumes "reply_ok L"
  shows "msg_id (fst (forward_trust L env q r epoch ri h)) = msg_id r"
    "msg_id (fst (resolve_direct_a L env q r epoch v ri h)) = msg_id r"
    "msg_id (fst (resolve_auto_a L env q r epoch ri h)) = msg_id r"
  by (auto simp: forward_trust_def resolve_direct_a_def resolve_auto_a_def Let_def id_server_fail [OF assms]
      dest: id_get id_alone split: option.split prod.split)

lemma traced_id:
  assumes "reply_ok L"
  shows "msg_id (fst (resolve_traced L env q r ri h)) = msg_id r"
proof -
  let ?h = "upd_stats bump_total h"
  have "msg_id (gateway_reply L ?h r) = msg_id r" "msg_id (soa_reply L r) = msg_id r"
    by (simp_all add: gateway_reply_def soa_reply_def set_reply_simps [OF assms] set_rcode_simps [OF assms])
  then show ?thesis
    unfolding resolve_traced_def Let_def
    by (cases "rd_action (decide_name ?h (qs_name q))")
       (simp_all only: resolution_action.case fst_conv id_from_cache_or_alone [OF assms] set_rcode_simps [OF assms]
          if_True if_False split: if_split, simp_all)
qed

text \<open>C5: A reply always carries the id of the request it answers, whatever path made it: refusals,
  synthetic answers, cache hits and stale answers (whoever's answer was stored), resolutions the
  query runs itself as the leader of a flight or because the map of flights is full, the result of
  another query's flight it joined (whatever message that flight hands out), failures, and truncated
  replies.\<close>

theorem reply_matches_request:
  assumes "reply_ok L" "truncate_ok L" "serve_context L env w r h = (resp, h')"
  shows "msg_id resp = msg_id r"
proof (cases "accepted w r")
  case True
  obtain m ri h1 where t: "resolve_traced L env (hd (questions r)) r (Some no_info) h = (m, ri, h1)"
    by (rule prod_cases3)
  have "msg_id m = msg_id r"
    using traced_id [OF assms(1), of env "hd (questions r)" r "Some no_info" h] t by simp
  then show ?thesis
    using serve_accepted(1) [OF True t assms(3)] assms(2) by (simp add: truncate_ok_def)
next
  case False
  then show ?thesis
    using assms(3) set_rcode_simps [OF assms(1)] by (auto simp: accepted_def serve_context_def split: if_splits)
qed

lemma reply_matches_request_witness:
  "msg_id (fst (serve_context ref_lib ex_join_env ex_transport (ex_request\<lparr>msg_id := 11\<rparr>) ex_after)) = 11"
  using reply_matches_request [OF _ _ surjective_pairing, where L = ref_lib and env = ex_join_env and w = ex_transport
      and r = "ex_request\<lparr>msg_id := 11\<rparr>" and h = ex_after]
    ref_lib_ok by (simp add: dns_lib_ok_def)

end
