(* ===== verification/Reload.thy ===== *)
theory Reload
  imports Cache
begin

text \<open>
  Queries against reloads: \<open>resolveTraced\<close> of \<open>handler.go\<close> captures the cache epoch, then loads the
  atomic pointers one by one, and puts its answer much later; \<open>swapRuleSets\<close>, \<open>publishPreparedPolicy\<close>,
  \<open>swapUpstreams\<close> and \<open>setInterceptDocument\<close> store their pointers one by one and then flush the cache.
  Every load, store, put and flush is a step of its own, with any number of queries and reloads at
  once. A pointer is the number of what it points to; \<open>produced conf k v\<close> says that a query that ran
  under the pointers \<open>conf\<close> may answer \<open>v\<close> for the key \<open>k\<close>.
\<close>

section \<open>State\<close>

datatype source = Upstreams | Rules | OrderedPolicy | InterceptHosts

type_synonym pointers = "source \<Rightarrow> nat"

text \<open>A query after it captured the epoch, with the pointers it has loaded.\<close>

record inflight =
  iq_epoch :: u64
  iq_seen :: "source \<Rightarrow> nat option"

text \<open>The operations that reload; a rule swap refreshes the policy unless that is paused or fails.\<close>

datatype reload = SwapRuleSets bool | PublishPrepared | SwapUpstreams | SetInterceptDocument

fun stores_of :: "reload \<Rightarrow> source list" where
  "stores_of (SwapRuleSets refreshed) = (if refreshed then [Rules, OrderedPolicy] else [Rules])"
| "stores_of PublishPrepared = [OrderedPolicy]"
| "stores_of SwapUpstreams = [Upstreams]"
| "stores_of SetInterceptDocument = [InterceptHosts]"

text \<open>A reload in progress: the stores left, and whether it has stored something; it flushes last.\<close>

record reloader =
  ro_todo :: "source list"
  ro_dirty :: bool

record reload_state =
  rs_now :: go_time
  rs_cache :: cache
  rs_conf :: pointers
  rs_queries :: "inflight list"
  rs_reloaders :: "reloader list"
  rs_flushes :: nat

definition reload_start :: "go_time \<Rightarrow> int \<Rightarrow> pointers \<Rightarrow> reload_state" where
  "reload_start t n conf = \<lparr>rs_now = t, rs_cache = new_cache n, rs_conf = conf, rs_queries = [],
     rs_reloaders = [], rs_flushes = 0\<rparr>"

section \<open>Steps\<close>

definition capture_epoch :: "reload_state \<Rightarrow> inflight" where
  "capture_epoch s = \<lparr>iq_epoch = cache_epoch (Some (rs_cache s)), iq_seen = (\<lambda>x. None)\<rparr>"

definition load_pointer :: "source \<Rightarrow> pointers \<Rightarrow> inflight \<Rightarrow> inflight" where
  "load_pointer x conf q = q\<lparr>iq_seen := (iq_seen q)(x \<mapsto> conf x)\<rparr>"

inductive reload_step ::
    "dns_lib \<Rightarrow> (pointers \<Rightarrow> cache_key \<Rightarrow> msg \<times> cache_metadata \<Rightarrow> bool) \<Rightarrow> reload_state \<Rightarrow> reload_state \<Rightarrow> bool"
  for L produced where
  rs_tick: "0 \<le> d \<Longrightarrow> reload_step L produced s (s\<lparr>rs_now := rs_now s + d\<rparr>)"
| rs_query: "reload_step L produced s (s\<lparr>rs_queries := capture_epoch s # rs_queries s\<rparr>)"
| rs_load: "rs_queries s = qs1 @ q # qs2 \<Longrightarrow> iq_seen q x = None \<Longrightarrow>
     reload_step L produced s (s\<lparr>rs_queries := qs1 @ load_pointer x (rs_conf s) q # qs2\<rparr>)"
| rs_put: "q \<in> set (rs_queries s) \<Longrightarrow> \<forall>x. iq_seen q x = Some (seen x) \<Longrightarrow> produced seen (canon_key L n) v \<Longrightarrow>
     reload_step L produced s (s\<lparr>rs_cache := put_answer L it (rs_cache s) (rs_now s) n v ttl (iq_epoch q)\<rparr>)"
| rs_stale: "reload_step L produced s
     (s\<lparr>rs_cache := snd (get_stale_with_metadata_options L (rs_cache s) (rs_now s) n qtype secs opts)\<rparr>)"
| rs_reload: "reload_step L produced s (s\<lparr>rs_reloaders := \<lparr>ro_todo = stores_of r, ro_dirty = False\<rparr> # rs_reloaders s\<rparr>)"
| rs_store: "rs_reloaders s = ro1 @ o' # ro2 \<Longrightarrow> ro_todo o' = x # xs \<Longrightarrow>
     reload_step L produced s (s\<lparr>rs_conf := (rs_conf s)(x := p),
       rs_reloaders := ro1 @ \<lparr>ro_todo = xs, ro_dirty = True\<rparr> # ro2\<rparr>)"
| rs_flush: "rs_reloaders s = ro1 @ o' # ro2 \<Longrightarrow> ro_todo o' = [] \<Longrightarrow>
     reload_step L produced s (s\<lparr>rs_cache := the (cache_flush (Some (rs_cache s)) (rs_now s)),
       rs_reloaders := ro1 @ ro2, rs_flushes := Suc (rs_flushes s)\<rparr>)"

inductive_cases reload_stepE: "reload_step L produced s s'"

section \<open>Invariant\<close>

definition quiet :: "reload_state \<Rightarrow> bool" where
  "quiet s \<longleftrightarrow> (\<forall>r\<in>set (rs_reloaders s). \<not> ro_dirty r)"

text \<open>
  Outside the window between a store and its flush, the cache shows only current answers, and what a
  query with the current epoch has loaded is current. Epochs are the count of flushes, as a word.
\<close>

definition query_current :: "reload_state \<Rightarrow> inflight \<Rightarrow> bool" where
  "query_current s q \<longleftrightarrow> (\<exists>n\<le>rs_flushes s. iq_epoch q = of_nat n) \<and>
     (iq_epoch q = c_epoch (rs_cache s) \<longrightarrow> quiet s \<longrightarrow> (\<forall>x p. iq_seen q x = Some p \<longrightarrow> p = rs_conf s x))"

definition reload_inv ::
    "(pointers \<Rightarrow> cache_key \<Rightarrow> msg \<times> cache_metadata \<Rightarrow> bool) \<Rightarrow> reload_state \<Rightarrow> bool" where
  "reload_inv produced s \<longleftrightarrow> c_epoch (rs_cache s) = of_nat (rs_flushes s) \<and>
     (\<forall>r\<in>set (rs_reloaders s). ro_todo r = [] \<longrightarrow> ro_dirty r) \<and>
     (\<forall>q\<in>set (rs_queries s). query_current s q) \<and>
     (quiet s \<longrightarrow> answers.shows_only (produced (rs_conf s)) (rs_cache s) (rs_now s))"

lemma reload_inv_start [keeps_inv]: "reload_inv produced (reload_start t n conf)"
  by (simp add: reload_inv_def reload_start_def new_cache_def answers.shows_only_def live_def quiet_def)

lemma stores_of_ne: "stores_of r \<noteq> []"
  by (cases r) auto

lemma stale_epoch: "c_epoch (snd (get_stale_with_metadata_options L c now n q secs opts)) = c_epoch c"
  by (auto simp: get_stale_with_metadata_options_def Let_def split: option.split)

lemma stale_live:
  "live (snd (get_stale_with_metadata_options L c now n q secs opts)) t k = Some v \<Longrightarrow> live c t k = Some v"
  by (auto simp: get_stale_with_metadata_options_def Let_def live_def split: option.splits if_splits)

lemma shows_only_stale:
  "answers.shows_only P c t \<Longrightarrow>
   answers.shows_only P (snd (get_stale_with_metadata_options L c now n q secs opts)) t"
  unfolding answers.shows_only_def using stale_live by blast

text \<open>Queries are unaffected by a step that leaves epoch, pointers and the window as they are.\<close>

lemma query_current_same:
  assumes "query_current s q" "c_epoch (rs_cache s') = c_epoch (rs_cache s)" "rs_conf s' = rs_conf s"
    "quiet s' = quiet s" "rs_flushes s' = rs_flushes s"
  shows "query_current s' q"
  using assms by (simp add: query_current_def)

lemma of_nat_epoch_less:
  assumes "n \<le> m" "Suc m < 2 ^ 64"
  shows "(of_nat n :: u64) \<noteq> of_nat m + 1"
proof
  have u: "unat (of_nat k :: u64) = k" if "k < 2 ^ 64" for k
    using that by (simp add: unat_of_nat)
  assume "(of_nat n :: u64) = of_nat m + 1"
  then have "(of_nat n :: u64) = of_nat (Suc m)" by (simp only: of_nat_Suc add.commute)
  then have "n = Suc m" using u [of n] u [of "Suc m"] assms by (metis le_less_trans lessI less_trans)
  with assms(1) show False by simp
qed

lemma reload_inv_step [keeps_inv]:
  assumes "reload_step L produced s s'" "reload_inv produced s" "rs_flushes s' < 2 ^ 64"
  shows "reload_inv produced s'"
  using assms(1)
proof (cases rule: reload_step.cases)
  case (rs_tick d)
  have "query_current s' q = query_current s q" for q by (simp add: query_current_def quiet_def rs_tick)
  with assms(2) rs_tick show ?thesis
    by (auto simp: reload_inv_def quiet_def intro: answers.shows_only_later)
next
  case rs_query
  have "query_current s' q = query_current s q" for q by (simp add: query_current_def quiet_def rs_query)
  moreover have "query_current s (capture_epoch s)"
    using assms(2) by (auto simp: query_current_def capture_epoch_def cache_epoch_def reload_inv_def)
  ultimately show ?thesis using assms(2) rs_query by (auto simp: reload_inv_def quiet_def)
next
  case (rs_load qs1 q qs2 x)
  have "query_current s' q' = query_current s q'" for q' by (simp add: query_current_def quiet_def rs_load)
  moreover have "query_current s q" using assms(2) rs_load by (simp add: reload_inv_def)
  then have "query_current s (load_pointer x (rs_conf s) q)"
    by (auto simp: query_current_def load_pointer_def)
  ultimately show ?thesis using assms(2) rs_load by (auto simp: reload_inv_def quiet_def)
next
  case (rs_put q seen n v it ttl)
  have e: "c_epoch (rs_cache s') = c_epoch (rs_cache s)" unfolding rs_put(1) by (simp add: answers.epoch_put)
  have "query_current s' q' = query_current s q'" for q'
    unfolding query_current_def e by (simp add: quiet_def rs_put)
  moreover have "answers.shows_only (produced (rs_conf s')) (rs_cache s') (rs_now s')" if "quiet s'"
  proof -
    have q: "quiet s" using that by (simp add: quiet_def rs_put)
    have qc: "query_current s q" using assms(2) rs_put by (simp add: reload_inv_def)
    have "produced (rs_conf s) (canon_key L n) v" if "iq_epoch q = c_epoch (rs_cache s)"
    proof -
      have "seen = rs_conf s" using qc q that rs_put(3) by (auto simp: query_current_def)
      then show ?thesis using rs_put(4) by simp
    qed
    then have "answers.shows_only (produced (rs_conf s))
        (put_answer L it (rs_cache s) (rs_now s) n v ttl (iq_epoch q)) (rs_now s)"
      using assms(2) q by (intro answers.shows_only_put) (simp_all add: reload_inv_def)
    then show ?thesis by (simp add: rs_put)
  qed
  ultimately show ?thesis using assms(2) e rs_put by (auto simp: reload_inv_def)
next
  case (rs_stale n qtype secs opts)
  have e: "c_epoch (rs_cache s') = c_epoch (rs_cache s)" by (simp add: rs_stale stale_epoch)
  have "query_current s' q' = query_current s q'" for q'
    unfolding query_current_def e by (simp add: quiet_def rs_stale)
  moreover have "quiet s' = quiet s" by (simp add: quiet_def rs_stale)
  ultimately show ?thesis using assms(2) e rs_stale by (auto simp: reload_inv_def intro: shows_only_stale)
next
  case (rs_reload r)
  have "query_current s' q' = query_current s q'" for q' by (simp add: query_current_def quiet_def rs_reload)
  then show ?thesis using assms(2) rs_reload stores_of_ne [of r] by (auto simp: reload_inv_def quiet_def)
next
  case (rs_store ro1 o' ro2 x xs p)
  have nq: "\<not> quiet s'" by (simp add: rs_store quiet_def)
  have "query_current s' q" if "query_current s q" for q
    using that nq by (auto simp: query_current_def rs_store)
  then show ?thesis using assms(2) nq rs_store by (auto simp: reload_inv_def)
next
  case (rs_flush ro1 o' ro2)
  have c: "rs_cache s' = flush_entries (rs_now s) (rs_cache s)" by (simp add: rs_flush cache_flush_def)
  have e: "c_epoch (rs_cache s') = c_epoch (rs_cache s) + 1" unfolding c by (rule answers.epoch_flush)
  have ep: "c_epoch (rs_cache s) = of_nat (rs_flushes s)" using assms(2) by (simp add: reload_inv_def)
  have f: "rs_flushes s' = Suc (rs_flushes s)" by (simp add: rs_flush)
  have "query_current s' q" if q: "query_current s q" for q
  proof -
    obtain n where n: "n \<le> rs_flushes s" "iq_epoch q = of_nat n" using q by (auto simp: query_current_def)
    have "iq_epoch q \<noteq> c_epoch (rs_cache s')"
      unfolding e ep n(2) using n(1) assms(3) f by (intro of_nat_epoch_less) simp_all
    with n f show ?thesis unfolding query_current_def by (metis le_SucI)
  qed
  moreover have "answers.shows_only P (rs_cache s') (rs_now s')" for P
    unfolding c by (rule answers.shows_only_flush) (simp add: rs_flush)
  ultimately show ?thesis using assms(2) e ep f rs_flush by (auto simp: reload_inv_def)
qed

lemma reload_flushes_mono: "reload_step L produced s s' \<Longrightarrow> rs_flushes s \<le> rs_flushes s'"
  by (erule reload_stepE) simp_all

lemma reload_inv_steps:
  assumes "(reload_step L produced)\<^sup>*\<^sup>* s s'" "reload_inv produced s" "rs_flushes s' < 2 ^ 64"
  shows "reload_inv produced s'"
  using assms
proof (induction rule: rtranclp_induct)
  case (step y z)
  have "rs_flushes y < 2 ^ 64" using reload_flushes_mono [OF step.hyps(2)] step.prems(2) by linarith
  then show ?case using step reload_inv_step [OF step.hyps(2)] by blast
qed

section \<open>Property\<close>

text \<open>C9: A reload takes effect for every name at once: with any number of queries and reloads in any
  interleaving, whenever no reload is between its first store and its flush, every answer the cache
  shows, now or later, was produced under exactly the pointers in force, however long the query that
  put it was under way and whatever it loaded before. (Capturing the epoch before the first pointer is
  what makes this true; the count of flushes has to stay below the range of the epoch.)\<close>

theorem reload_takes_effect:
  assumes "(reload_step L produced)\<^sup>*\<^sup>* (reload_start t n conf) s" "rs_flushes s < 2 ^ 64" "quiet s"
    "rs_now s \<le> u" "live (rs_cache s) u k = Some v"
  shows "produced (rs_conf s) k v"
proof -
  have "answers.shows_only (produced (rs_conf s)) (rs_cache s) (rs_now s)"
    using reload_inv_steps [OF assms(1) reload_inv_start assms(2)] assms(3) by (simp add: reload_inv_def)
  with assms(4,5) show ?thesis unfolding answers.shows_only_def by blast
qed

text \<open>One query that loads its four pointers and puts its answer.\<close>

lemma ex_reload_run:
  assumes "produced (\<lambda>x. 3) (canon_key L nm) v"
  shows "(reload_step L produced)\<^sup>*\<^sup>* (reload_start 0 4 (\<lambda>x. 3))
    ((reload_start 0 4 (\<lambda>x. 3))\<lparr>rs_cache := put_answer L [] (new_cache 4) 0 nm v ttl 0,
       rs_queries := [\<lparr>iq_epoch = 0, iq_seen = \<lambda>x. Some 3\<rparr>]\<rparr>)"
proof -
  let ?init = "reload_start 0 4 (\<lambda>x. 3)"
  let ?st = "\<lambda>seen. ?init\<lparr>rs_queries := [\<lparr>iq_epoch = 0, iq_seen = seen\<rparr>]\<rparr>"
  let ?step = "reload_step L produced"
  have load: "?step (?st seen) (?st (seen(x \<mapsto> 3)))" if "seen x = None" for seen x
    using rs_load [of "?st seen" "[]" "\<lparr>iq_epoch = 0, iq_seen = seen\<rparr>" "[]" x L produced] that
    by (simp add: load_pointer_def reload_start_def)
  let ?none = "\<lambda>x :: source. None :: nat option"
  have all: "?none(Upstreams \<mapsto> 3, Rules \<mapsto> 3, InterceptHosts \<mapsto> 3, OrderedPolicy \<mapsto> 3) = (\<lambda>x. Some 3)"
  proof
    fix x show "(?none(Upstreams \<mapsto> 3, Rules \<mapsto> 3, InterceptHosts \<mapsto> 3, OrderedPolicy \<mapsto> 3)) x = Some 3"
      by (cases x) simp_all
  qed
  have q: "?step ?init (?st ?none)"
    using rs_query [of L produced ?init] by (simp add: capture_epoch_def reload_start_def cache_epoch_def new_cache_def)
  have l: "?step (?st ?none) (?st (?none(Upstreams \<mapsto> 3)))"
    "?step (?st (?none(Upstreams \<mapsto> 3))) (?st (?none(Upstreams \<mapsto> 3, Rules \<mapsto> 3)))"
    "?step (?st (?none(Upstreams \<mapsto> 3, Rules \<mapsto> 3))) (?st (?none(Upstreams \<mapsto> 3, Rules \<mapsto> 3, InterceptHosts \<mapsto> 3)))"
    "?step (?st (?none(Upstreams \<mapsto> 3, Rules \<mapsto> 3, InterceptHosts \<mapsto> 3))) (?st (\<lambda>x. Some 3))"
    unfolding all [symmetric] by (rule load, simp)+
  have "?step (?st (\<lambda>x. Some 3)) ((?st (\<lambda>x. Some 3))\<lparr>rs_cache := put_answer L [] (new_cache 4) 0 nm v ttl 0\<rparr>)"
    using rs_put [of "\<lparr>iq_epoch = 0, iq_seen = \<lambda>x. Some 3\<rparr>" "?st (\<lambda>x. Some 3)" "\<lambda>x. 3" produced L nm v "[]" ttl] assms
    by (simp add: reload_start_def)
  with q l have "?step\<^sup>*\<^sup>* ?init ((?st (\<lambda>x. Some 3))\<lparr>rs_cache := put_answer L [] (new_cache 4) 0 nm v ttl 0\<rparr>)"
    by (meson converse_rtranclp_into_rtranclp r_into_rtranclp)
  then show ?thesis by (simp add: reload_start_def)
qed

lemma reload_takes_effect_witness:
  "let c = put_answer ref_lib [] (new_cache 4) 0 (''a.example'', type_A, no_options) (ex_answer, no_metadata) (60 * second) 0;
       k = canon_key ref_lib (''a.example'', type_A, no_options)
   in live c second k = Some (ex_answer, no_metadata) \<and> k_name k = ''a.example.''"
proof -
  let ?nm = "(''a.example'', type_A, no_options)" and ?v = "(ex_answer, no_metadata)"
  let ?produced = "\<lambda>(conf :: pointers) k (v :: msg \<times> cache_metadata). conf Rules = 3 \<and> k_name k = ''a.example.''"
  let ?c = "put_answer ref_lib [] (new_cache 4) 0 ?nm ?v (60 * second) 0"
  have k: "k_name (canon_key ref_lib ?nm) = ''a.example.''" by code_simp
  have v: "live ?c second (canon_key ref_lib ?nm) = Some ?v" by code_simp
  have "(reload_step ref_lib ?produced)\<^sup>*\<^sup>* (reload_start 0 4 (\<lambda>x. 3))
    ((reload_start 0 4 (\<lambda>x. 3))\<lparr>rs_cache := ?c, rs_queries := [\<lparr>iq_epoch = 0, iq_seen = \<lambda>x. Some 3\<rparr>]\<rparr>)"
    by (rule ex_reload_run [where produced = ?produced]) (use k in simp)
  from reload_takes_effect [OF this, of second "canon_key ref_lib ?nm" ?v] v
  show ?thesis by (simp add: reload_start_def quiet_def Let_def)
qed

end
