(* ===== verification/Resolve_Test.thy ===== *)
theory Resolve_Test
  imports Handler_Props Upstream Chnroute_CIDRs
begin

text \<open>
  \<open>resolvetest.go\<close>: the console's diagnostic lookup, which asks every upstream server by itself and
  applies the arbitration and rewrite rules to what they report. \<open>net\<close> is what asking a server gives:
  an error text or a reply. Round-trip times are shown to the operator only and left out.
  The properties compare the diagnosis with what \<open>Handler\<close> does for the same replies.
\<close>

section \<open>Model\<close>

record resolve_probe =
  rp_server :: string
  rp_group :: string
  rp_proto :: string
  rp_ips :: "string list"
  rp_rcode :: string
  rp_err :: string
  rp_selected :: bool

record resolve_test_result =
  rx_name :: string
  rx_verdict :: string
  rx_reason :: string
  rx_probes :: "resolve_probe list"
  rx_chosen :: string
  rx_chosen_ips :: "string list"
  rx_client_ips :: "string list"

text \<open>The part of \<open>upstreamSnapshot\<close> the probes use, and one server to ask.\<close>

record upstream_specs =
  us_china_raw :: "string list"
  us_trust_raw :: "string list"
  us_trust_entries :: "trust_entry list"

record probe_spec =
  ps_display :: string
  ps_addr :: string
  ps_group :: string
  ps_proto :: string
  ps_sni :: string

definition china_spec :: "string \<Rightarrow> probe_spec" where
  "china_spec a = (let addr = add_default_port a ''53'' in
     \<lparr>ps_display = addr, ps_addr = addr, ps_group = ''china'', ps_proto = ''udp'', ps_sni = []\<rparr>)"

definition trust_spec :: "string list \<Rightarrow> nat \<Rightarrow> trust_entry \<Rightarrow> probe_spec" where
  "trust_spec raw i e =
     (let display = (if i < length raw then raw ! i else []) in
      if te_plain e then
        (let addr = add_default_port (te_dial_addr e) ''53'' in
         \<lparr>ps_display = (if display = [] then addr else display), ps_addr = addr, ps_group = ''trust'',
          ps_proto = ''udp'', ps_sni = []\<rparr>)
      else
        (let addr = add_default_port (te_dial_addr e) ''853'' in
         \<lparr>ps_display = (if display = [] then te_server_name e @ [at_sign] @ addr else display), ps_addr = addr,
          ps_group = ''trust'', ps_proto = ''dot'', ps_sni = te_server_name e\<rparr>))"

definition probe_specs :: "upstream_specs \<Rightarrow> probe_spec list" where
  "probe_specs snap = map china_spec (us_china_raw snap) @
     map (\<lambda>(i, e). trust_spec (us_trust_raw snap) i e) (zip [0..<length (us_trust_entries snap)] (us_trust_entries snap))"

definition probe_of :: "dns_lib \<Rightarrow> (probe_spec \<Rightarrow> string + msg option) \<Rightarrow> probe_spec \<Rightarrow> resolve_probe" where
  "probe_of L net sp =
     (let p = \<lparr>rp_server = ps_display sp, rp_group = ps_group sp, rp_proto = ps_proto sp, rp_ips = [], rp_rcode = [],
               rp_err = [], rp_selected = False\<rparr>
      in case net sp of
           Inl e \<Rightarrow> p\<lparr>rp_err := e\<rparr>
         | Inr None \<Rightarrow> p
         | Inr (Some m) \<Rightarrow> p\<lparr>rp_rcode := lib_rcode_to_string L (rcode m), rp_ips := answer_ips m query_log_max_ips\<rparr>)"

definition probe_upstreams :: "dns_lib \<Rightarrow> (probe_spec \<Rightarrow> string + msg option) \<Rightarrow> upstream_specs \<Rightarrow> resolve_probe list" where
  "probe_upstreams L net snap = map (probe_of L net) (probe_specs snap)"

text \<open>The index of the adopted probe; the code returns a pointer into the slice.\<close>

definition select_first :: "resolve_probe list \<Rightarrow> string \<Rightarrow> nat option" where
  "select_first ps grp = index_where (\<lambda>p. rp_group p = grp \<and> rp_err p = [] \<and> rp_rcode p \<noteq> []) ps"

definition any_cn :: "string list \<Rightarrow> chnroute option \<Rightarrow> bool" where
  "any_cn ips cn = list_ex (\<lambda>s. case parse_ip s of None \<Rightarrow> False | Some a \<Rightarrow> chn_contains cn a) ips"

definition gateway_string :: "handler \<Rightarrow> string" where
  "gateway_string h = (case hd_gateway h of None \<Rightarrow> [] | Some g \<Rightarrow> (case to4 g of Some b \<Rightarrow> show_v4 b | None \<Rightarrow> []))"

definition choose_probe :: "chnroute option \<Rightarrow> resolve_probe list \<Rightarrow> (string \<times> nat) option" where
  "choose_probe cn ps =
     (case select_first ps ''china'' of
        Some i \<Rightarrow> if any_cn (rp_ips (ps ! i)) cn then Some (''china'', i)
                  else map_option (Pair ''trust'') (select_first ps ''trust'')
      | None \<Rightarrow> map_option (Pair ''trust'') (select_first ps ''trust''))"

definition resolve_test ::
    "dns_lib \<Rightarrow> (probe_spec \<Rightarrow> string + msg option) \<Rightarrow> upstream_specs option \<Rightarrow> handler \<Rightarrow> string \<Rightarrow> resolve_test_result" where
  "resolve_test L net snap h name =
     (let d = decide_name h name; v = rd_verdict d; cn = hd_cn h;
          res = \<lparr>rx_name = name, rx_verdict = [], rx_reason = [], rx_probes = [], rx_chosen = [], rx_chosen_ips = [],
                 rx_client_ips = []\<rparr>;
          named = res\<lparr>rx_verdict := v_verdict v, rx_reason := v_reason v\<rparr>
      in if rd_action d = ActionBlock then named
         else if rd_action d = ActionGateway then
           (if gw_unset h then named else named\<lparr>rx_client_ips := [gateway_string h]\<rparr>)
         else case snap of
           None \<Rightarrow> named
         | Some sn \<Rightarrow>
             let ps = probe_upstreams L net sn in
             case choose_probe cn ps of
               None \<Rightarrow> named\<lparr>rx_probes := ps\<rparr>
             | Some (grp, i) \<Rightarrow>
                 let ips = rp_ips (ps ! i);
                     res1 = res\<lparr>rx_probes := ps[i := (ps ! i)\<lparr>rp_selected := True\<rparr>], rx_chosen := grp, rx_chosen_ips := ips\<rparr>
                 in if rd_action d = ActionDirect
                    then res1\<lparr>rx_verdict := v_verdict v, rx_reason := v_reason v, rx_client_ips := ips\<rparr>
                    else if ips = [] then res1
                    else if any_cn ips cn
                    then res1\<lparr>rx_verdict := ''direct'', rx_reason := ''chnroute-cn'', rx_client_ips := ips\<rparr>
                    else res1\<lparr>rx_verdict := ''proxy'', rx_reason := ''chnroute-foreign'',
                              rx_client_ips := (if gw_unset h \<or> ips = [] then ips else [gateway_string h])\<rparr>)"

section \<open>Addresses and their texts\<close>

text \<open>The addresses of an answer, and the texts \<open>answer_ips\<close> makes of the first ones.\<close>

definition a_ips :: "msg \<Rightarrow> ip list" where
  "a_ips m = List.map_filter rr_ip (answer m)"

definition ip_text :: "ip \<Rightarrow> string" where
  "ip_text a = (case to4 a of Some b \<Rightarrow> show_v4 b | None \<Rightarrow> [])"

lemma answer_ips_loop_eq:
  assumes "int (length out) < mx"
  shows "answer_ips_loop rs mx out = take (nat mx) (out @ map ip_text (List.map_filter rr_ip rs))"
  using assms
proof (induction rs mx out rule: answer_ips_loop.induct)
  case (1 mx out)
  then show ?case by (simp add: map_filter_simps)
next
  case (2 r rs mx out)
  show ?case
  proof (cases "rr_ip r")
    case None
    with 2 show ?thesis by (simp add: map_filter_simps)
  next
    case (Some a)
    show ?thesis
    proof (cases "int (length out) + 1 = mx")
      case True
      then have "nat mx = Suc (length out)" by simp
      with Some True show ?thesis by (simp add: map_filter_simps ip_text_def Let_def)
    next
      case False
      then have "int (length (out @ [ip_text a])) < mx" using 2(3) by simp
      from 2(2) [OF Some refl _ this [unfolded ip_text_def]] Some False show ?thesis
        by (simp add: map_filter_simps ip_text_def Let_def)
    qed
  qed
qed

lemma answer_ips_eq: "answer_ips m query_log_max_ips = take 8 (map ip_text (a_ips m))"
  by (simp add: answer_ips_def a_ips_def answer_ips_loop_eq query_log_max_ips_def)

lemma any_cn_texts:
  assumes "\<forall>a\<in>set as. length a = 4"
  shows "any_cn (map ip_text as) cn = list_ex (chn_contains cn) as"
proof -
  have "(case parse_ip (ip_text a) of None \<Rightarrow> False | Some b \<Rightarrow> chn_contains cn b) = chn_contains cn a"
    if "length a = 4" for a
    using that
    by (simp add: ip_text_def parse_ip_def parse_addr_show_v4 chn_contains_def to4_def v4_in_v6_prefix_def
        split: option.split)
  with assms show ?thesis by (auto simp: any_cn_def list_ex_iff)
qed

section \<open>The pipeline's answer by its addresses\<close>

lemma a_ips_filter:
  assumes "\<And>r. rr_ip r \<noteq> None \<Longrightarrow> P r"
  shows "List.map_filter rr_ip (filter P rs) = List.map_filter rr_ip rs"
  using assms by (induction rs) (auto simp: map_filter_simps split: option.split)

lemma rr_ip_kind: "rr_ip r \<noteq> None \<Longrightarrow> \<not> rr_is_AAAA r \<and> \<not> rr_is_dnssec r"
  by (auto simp: rr_ip_def rr_is_AAAA_def rr_is_dnssec_def split: rdata.splits)

lemma a_ips_filter_aaaa: "List.map_filter rr_ip (answer (filter_aaaa m)) = a_ips m"
  by (simp add: a_ips_def filter_aaaa_def a_ips_filter rr_ip_kind)

lemma a_ips_strip: "List.map_filter rr_ip (strip_dnssec_rrs rs) = List.map_filter rr_ip rs"
  by (simp add: strip_dnssec_rrs_def a_ips_filter rr_ip_kind)

lemma set_map_filter_ip: "set (List.map_filter rr_ip rs) = {a. \<exists>r\<in>set rs. rr_ip r = Some a}"
  by (induction rs) (auto simp: map_filter_simps split: option.splits)

text \<open>With a gateway: what becomes of the addresses of an answer.\<close>

fun steer_ips :: "chnroute option \<Rightarrow> ip \<Rightarrow> ip list \<Rightarrow> ip list" where
  "steer_ips cn g [] = []"
| "steer_ips cn g (a # as) = (if chn_contains cn a then a # steer_ips cn g as else g # filter (chn_contains cn) as)"

lemma collapse_ips:
  assumes "\<not> gw_unset h"
  shows "List.map_filter rr_ip (collapse h cn rs) = steer_ips cn (the (hd_gateway h)) (List.map_filter rr_ip rs)"
proof (induction rs)
  case (Cons r rs)
  have keep: "List.map_filter rr_ip (filter (\<lambda>x. \<forall>a. rr_ip x = Some a \<longrightarrow> chn_contains cn a) xs) =
      filter (chn_contains cn) (List.map_filter rr_ip xs)" for xs
    by (induction xs) (auto simp: map_filter_simps split: option.split)
  show ?case
    using Cons assms by (auto simp: map_filter_simps foreign_def foreign_gateway_of keep split: option.split)
qed (simp add: map_filter_simps)

lemma live_ips:
  assumes "\<not> gw_unset h"
  shows "a_ips (rewrite_a L h (filter_aaaa m) req cn) = steer_ips cn (the (hd_gateway h)) (a_ips m)"
  unfolding a_ips_def [of "rewrite_a L h (filter_aaaa m) req cn"] rewrite_a_simps
  by (simp add: a_ips_strip collapse_ips [OF assms] a_ips_filter_aaaa)

lemma default_verdict_ips:
  assumes "hd_gateway h = Some g"
  shows "default_verdict_of h (Some m) =
    (if list_ex (\<lambda>a. ip_equal a g) (a_ips m) then mk_verdict ''proxy'' ''chnroute-foreign''
     else if a_ips m \<noteq> [] then mk_verdict ''direct'' ''chnroute-cn'' else no_verdict)"
proof -
  have "default_verdict_loop h rs seen =
      (if list_ex (\<lambda>a. ip_equal a g) (List.map_filter rr_ip rs) then mk_verdict ''proxy'' ''chnroute-foreign''
       else if seen \<or> List.map_filter rr_ip rs \<noteq> [] then mk_verdict ''direct'' ''chnroute-cn'' else no_verdict)" for rs seen
    using assms by (induction rs arbitrary: seen) (auto simp: map_filter_simps split: option.split)
  then show ?thesis by (simp add: default_verdict_of_def a_ips_def)
qed

lemma steer_ips_cases:
  shows "list_all (chn_contains cn) as \<Longrightarrow> steer_ips cn g as = as"
    "as \<noteq> [] \<Longrightarrow> \<not> list_ex (chn_contains cn) as \<Longrightarrow> steer_ips cn g as = [g]"
    "\<not> list_all (chn_contains cn) as \<Longrightarrow> g \<in> set (steer_ips cn g as)"
  by (induction as) (auto simp: list_ex_iff filter_empty_conv)

section \<open>Properties\<close>

text \<open>A reply is mixed when it has Chinese and foreign addresses.\<close>

definition mixed :: "chnroute option \<Rightarrow> msg \<Rightarrow> bool" where
  "mixed cn m \<longleftrightarrow> list_ex (chn_contains cn) (a_ips m) \<and> \<not> list_all (chn_contains cn) (a_ips m)"

definition live_reply :: "dns_lib \<Rightarrow> handler \<Rightarrow> msg \<Rightarrow> msg \<Rightarrow> msg" where
  "live_reply L h req m = rewrite_a L h (filter_aaaa m) req (hd_cn h)"

text \<open>The diagnosis agrees with the live pipeline exactly on homogeneous answers: with a gateway set, for
  a name under the default action whose adopted reply has at most eight A records, the verdict and
  reason reported are those of the live answer if and only if the reply does not mix Chinese and
  foreign addresses, and then the reported client addresses are those a client receives. For a mixed
  reply the console says direct, while the live pipeline collapses the foreign addresses to the
  gateway and counts the query as proxied.\<close>

theorem resolve_test_agrees_iff:
  assumes "rd_action (decide_name h name) = ActionAuto" "hd_gateway h = Some g" "\<not> ip_unspecified g"
    "choose_probe (hd_cn h) (probe_upstreams L net sn) = Some (grp, i)"
    "rp_ips (probe_upstreams L net sn ! i) = answer_ips m query_log_max_ips"
    "length (a_ips m) \<le> 8" "\<forall>a\<in>set (a_ips m). length a = 4 \<and> \<not> ip_equal a g"
  defines "t \<equiv> resolve_test L net (Some sn) h name"
  shows "(mk_verdict (rx_verdict t) (rx_reason t) = default_verdict_of h (Some (live_reply L h req m)) \<longleftrightarrow> \<not> mixed (hd_cn h) m) \<and>
    (\<not> mixed (hd_cn h) m \<longrightarrow> rx_client_ips t = answer_ips (live_reply L h req m) query_log_max_ips)"
proof -
  let ?as = "a_ips m" and ?cn = "hd_cn h"
  have gw: "\<not> gw_unset h" "the (hd_gateway h) = g" using assms(2,3) by (simp_all add: gw_unset_def)
  have ips: "answer_ips m query_log_max_ips = map ip_text ?as" using assms(6) by (simp add: answer_ips_eq)
  have acn: "any_cn (map ip_text ?as) ?cn = list_ex (chn_contains ?cn) ?as"
    using assms(7) by (intro any_cn_texts) blast
  have live: "a_ips (live_reply L h req m) = steer_ips ?cn g ?as"
    unfolding live_reply_def live_ips [OF gw(1)] gw(2) ..
  have gs: "gateway_string h = ip_text g" using assms(2) by (simp add: gateway_string_def ip_text_def)
  have t: "rx_verdict t = (if ?as = [] then [] else if list_ex (chn_contains ?cn) ?as then ''direct'' else ''proxy'')"
    "rx_reason t = (if ?as = [] then [] else if list_ex (chn_contains ?cn) ?as then ''chnroute-cn'' else ''chnroute-foreign'')"
    "rx_client_ips t = (if ?as = [] then [] else if list_ex (chn_contains ?cn) ?as then map ip_text ?as else [ip_text g])"
    using gw(1) assms(1,4) by (simp_all add: t_def resolve_test_def Let_def assms(5) ips acn gs)
  have none: "\<not> list_ex (\<lambda>a. ip_equal a g) ?as" using assms(7) by (auto simp: list_ex_iff)
  consider (empty) "?as = []" | (cn) "?as \<noteq> []" "list_all (chn_contains ?cn) ?as"
    | (foreign) "?as \<noteq> []" "\<not> list_ex (chn_contains ?cn) ?as" | (mixed) "?as \<noteq> []" "mixed ?cn m"
    by (auto simp: mixed_def list_ex_iff list_all_iff)
  then show ?thesis
  proof cases
    case empty
    then show ?thesis
      by (simp add: t default_verdict_ips [OF assms(2)] live mixed_def mk_verdict_def no_verdict_def answer_ips_eq)
  next
    case cn
    then have "list_ex (chn_contains ?cn) ?as" by (cases ?as) auto
    with cn show ?thesis
      using none assms(6)
      by (simp add: t default_verdict_ips [OF assms(2)] live steer_ips_cases mixed_def answer_ips_eq)
  next
    case foreign
    then show ?thesis
      by (simp add: t default_verdict_ips [OF assms(2)] live steer_ips_cases mixed_def answer_ips_eq)
  next
    case mixed
    then have "g \<in> set (steer_ips ?cn g ?as)" by (intro steer_ips_cases(3)) (simp add: mixed_def)
    then have "list_ex (\<lambda>a. ip_equal a g) (steer_ips ?cn g ?as)" using ip_equal_refl by (force simp: list_ex_iff)
    then show ?thesis
      using mixed by (simp add: t default_verdict_ips [OF assms(2)] live mixed_def mk_verdict_def)
  qed
qed

text \<open>A reply with one Chinese and one foreign address.\<close>

definition ex_mixed :: msg where
  "ex_mixed = ex_answer\<lparr>answer := [ex_rr 300, (ex_rr 300)\<lparr>rr_data := A [1, 2, 3, 4]\<rparr>]\<rparr>"

definition ex_specs :: upstream_specs where
  "ex_specs = \<lparr>us_china_raw = [''1.1.1.1''], us_trust_raw = [], us_trust_entries = []\<rparr>"

lemma resolve_test_agrees_iff_witness:
  "let h = ex_steering\<lparr>hd_cn := Some \<lparr>ranges = [\<lparr>r_start = 0x01000000, r_end = 0x01FFFFFF\<rparr>]\<rparr>\<rparr>;
       t = resolve_test ref_lib (\<lambda>sp. Inr (Some ex_mixed)) (Some ex_specs) h ''a.example.''
   in rx_verdict t = ''direct'' \<and> rx_client_ips t = [''203.0.113.7'', ''1.2.3.4''] \<and>
      mk_verdict (rx_verdict t) (rx_reason t) \<noteq> default_verdict_of h (Some (live_reply ref_lib h new_msg ex_mixed))"
proof -
  let ?h = "ex_steering\<lparr>hd_cn := Some \<lparr>ranges = [\<lparr>r_start = 0x01000000, r_end = 0x01FFFFFF\<rparr>]\<rparr>\<rparr>"
  let ?net = "\<lambda>sp :: probe_spec. Inr (Some ex_mixed) :: string + msg option"
  let ?t = "resolve_test ref_lib ?net (Some ex_specs) ?h ''a.example.''"
  have a: "rd_action (decide_name ?h ''a.example.'') = ActionAuto" by code_simp
  have g: "hd_gateway ?h = Some [203, 0, 113, 200]" "\<not> ip_unspecified [203, 0, 113, 200]" by code_simp+
  have i: "rp_ips (probe_upstreams ref_lib ?net ex_specs ! 0) = answer_ips ex_mixed query_log_max_ips" by code_simp
  have l: "length (a_ips ex_mixed) \<le> 8" by code_simp
  have o': "\<forall>a\<in>set (a_ips ex_mixed). length a = 4 \<and> \<not> ip_equal a [203, 0, 113, 200]" by code_simp
  have le: "list_ex (chn_contains (hd_cn ?h)) (a_ips ex_mixed) = True"
    "list_all (chn_contains (hd_cn ?h)) (a_ips ex_mixed) = False"
  proof -
    have ips: "a_ips ex_mixed = [[203, 0, 113, 7], [1, 2, 3, 4]]" by code_simp
    have "chn_contains (hd_cn ?h) [203, 0, 113, 7] = False" "chn_contains (hd_cn ?h) [1, 2, 3, 4] = True"
      by (simp_all add: chn_contains_def ip_to_uint32_def be_uint32_def go_search_def go_search_loop.simps)
    then show "list_ex (chn_contains (hd_cn ?h)) (a_ips ex_mixed) = True"
      "list_all (chn_contains (hd_cn ?h)) (a_ips ex_mixed) = False"
      unfolding ips by simp_all
  qed
  have m: "mixed (hd_cn ?h) ex_mixed" unfolding mixed_def le by simp
  have t: "answer_ips ex_mixed query_log_max_ips = [''203.0.113.7'', ''1.2.3.4'']" by code_simp
  have cn: "any_cn (answer_ips ex_mixed query_log_max_ips) (hd_cn ?h)"
  proof -
    have texts: "answer_ips ex_mixed query_log_max_ips = map ip_text (a_ips ex_mixed)" using l by (simp add: answer_ips_eq)
    have "\<forall>a\<in>set (a_ips ex_mixed). length a = 4" using o' by blast
    then show ?thesis unfolding texts by (simp only: any_cn_texts le)
  qed
  have "select_first (probe_upstreams ref_lib ?net ex_specs) ''china'' = Some 0" by code_simp
  then have c: "choose_probe (hd_cn ?h) (probe_upstreams ref_lib ?net ex_specs) = Some (''china'', 0)"
    unfolding choose_probe_def using cn i by simp
  have r: "rx_verdict ?t = ''direct'' \<and> rx_client_ips ?t = [''203.0.113.7'', ''1.2.3.4'']"
    unfolding resolve_test_def Let_def a using c i cn t by simp
  from resolve_test_agrees_iff [OF a g c i l o', of new_msg] m
  have "mk_verdict (rx_verdict ?t) (rx_reason ?t) \<noteq> default_verdict_of ?h (Some (live_reply ref_lib ?h new_msg ex_mixed))"
    by blast
  with r show ?thesis unfolding Let_def by blast
qed

end
