(* ===== verification/Atomic_File.thy ===== *)
theory Atomic_File
  imports Prelude
begin

text \<open>
  How the daemons replace a file: a temporary file in the same directory, then a rename. A file
  system maps paths to regular files; a file remembers whether its bytes were synced, and a crash may
  leave anything in a file that was not. Each writer of the program is the list of its operations in
  the order of the code; an operation may fail, and then the temporary file is removed. The name
  \<open>os.CreateTemp\<close> picks, the operation that fails and how far a failing write got are arguments.
\<close>

section \<open>Files and operations\<close>

record stored_file =
  sf_data :: string
  sf_mode :: nat
  sf_synced :: bool

type_synonym file_system = "string \<Rightarrow> stored_file option"

datatype file_op =
    CheckContext | MkdirAll | StatTarget | CreateTemp | Chmod nat | WriteData string | SyncTemp
  | CloseTemp | RenameTo string

text \<open>
  \<open>io_fault i\<close> is \<open>None\<close> when the \<open>i\<close>th operation succeeds; a write that fails may have put that
  many bytes into the file. \<open>io_removed\<close> is the success of \<open>os.Remove\<close> on the temporary file.
\<close>

record io =
  io_temp :: string
  io_fault :: "nat \<Rightarrow> nat option"
  io_removed :: bool

definition temp_mode :: nat where "temp_mode = 384"

definition perform :: "string \<Rightarrow> file_op \<Rightarrow> file_system \<Rightarrow> file_system" where
  "perform tmp f s = (case f of
     CreateTemp \<Rightarrow> s(tmp \<mapsto> \<lparr>sf_data = [], sf_mode = temp_mode, sf_synced = True\<rparr>)
   | Chmod m \<Rightarrow> s(tmp := map_option (\<lambda>x. x\<lparr>sf_mode := m\<rparr>) (s tmp))
   | WriteData d \<Rightarrow> s(tmp := map_option (\<lambda>x. x\<lparr>sf_data := sf_data x @ d, sf_synced := False\<rparr>) (s tmp))
   | SyncTemp \<Rightarrow> s(tmp := map_option (\<lambda>x. x\<lparr>sf_synced := True\<rparr>) (s tmp))
   | RenameTo p \<Rightarrow> s(p := s tmp, tmp := None)
   | _ \<Rightarrow> s)"

definition perform_failed :: "string \<Rightarrow> nat \<Rightarrow> file_op \<Rightarrow> file_system \<Rightarrow> file_system" where
  "perform_failed tmp k f s = (case f of WriteData d \<Rightarrow> perform tmp (WriteData (take k d)) s | _ \<Rightarrow> s)"

definition remove_temp :: "io \<Rightarrow> file_system \<Rightarrow> file_system" where
  "remove_temp w s = (if io_removed w then s(io_temp w := None) else s)"

text \<open>
  The states the file system goes through, the last one first, and the operation that failed. A
  failure after the temporary file exists removes it, as the deferred or inlined \<open>os.Remove\<close> does.
\<close>

fun run_ops :: "io \<Rightarrow> bool \<Rightarrow> nat \<Rightarrow> file_op list \<Rightarrow> file_system list \<Rightarrow> file_op option \<times> file_system list" where
  "run_ops w created i [] tr = (None, tr)"
| "run_ops w created i (f # fs) tr =
     (case io_fault w i of
        None \<Rightarrow> run_ops w (created \<or> f = CreateTemp) (Suc i) fs (perform (io_temp w) f (hd tr) # tr)
      | Some k \<Rightarrow>
          let s = perform_failed (io_temp w) k f (hd tr)
          in (Some f, if created then remove_temp w s # s # tr else s # tr))"

definition run_writer :: "io \<Rightarrow> file_op list \<Rightarrow> file_system \<Rightarrow> file_op option \<times> file_system list" where
  "run_writer w fs s = run_ops w False 0 fs [s]"

section \<open>The writers\<close>

definition newline :: char where "newline = char_of (10::nat)"

text \<open>\<open>atomicWriteFileContext\<close> (policy_rules.go); \<open>atomicWriteFile\<close> passes a context that is never done.\<close>

definition atomic_write_file_context :: "string \<Rightarrow> string \<Rightarrow> nat \<Rightarrow> file_op list" where
  "atomic_write_file_context path data mode =
     [CheckContext, MkdirAll, CreateTemp, Chmod mode, WriteData data, SyncTemp, CloseTemp,
      CheckContext, RenameTo path]"

definition atomic_write_file :: "string \<Rightarrow> string \<Rightarrow> nat \<Rightarrow> file_op list" where
  "atomic_write_file path data mode = atomic_write_file_context path data mode"

text \<open>\<open>atomicWriteLines\<close> (subscription.go) writes each line and each newline with a call of its own.\<close>

fun line_writes :: "string list \<Rightarrow> file_op list" where
  "line_writes [] = []"
| "line_writes (e # es) = WriteData e # WriteData [newline] # line_writes es"

definition atomic_write_lines :: "string \<Rightarrow> string list \<Rightarrow> file_op list" where
  "atomic_write_lines path entries =
     [MkdirAll, CreateTemp] @ line_writes entries @ [SyncTemp, CloseTemp, RenameTo path]"

definition save_stats_file :: "string \<Rightarrow> string \<Rightarrow> file_op list" where
  "save_stats_file path data =
     [MkdirAll, CreateTemp, WriteData data, SyncTemp, CloseTemp, RenameTo path]"

definition save_upstreams_file :: "string \<Rightarrow> string \<Rightarrow> file_op list" where
  "save_upstreams_file path data =
     (if path = [] then []
      else [CreateTemp, WriteData (data @ [newline]), CloseTemp, RenameTo path])"

definition save_ecs_file :: "string \<Rightarrow> string \<Rightarrow> file_op list" where
  "save_ecs_file path data =
     (if path = [] then []
      else [CreateTemp, WriteData (data @ [newline]), CloseTemp, RenameTo path])"

definition save_tgbot :: "string \<Rightarrow> string \<Rightarrow> file_op list" where
  "save_tgbot path data =
     (if path = [] then []
      else [CreateTemp, Chmod 384, WriteData (data @ [newline]), SyncTemp, CloseTemp, RenameTo path])"

text \<open>\<open>writeInterceptConfigContext\<close> (api_intercept.go) keeps the mode of the file it replaces.\<close>

definition write_intercept_config :: "string \<Rightarrow> string \<Rightarrow> nat \<Rightarrow> file_op list" where
  "write_intercept_config path body current_mode =
     [CheckContext, StatTarget, CreateTemp, Chmod current_mode, WriteData body, SyncTemp, CloseTemp,
      CheckContext, RenameTo path]"

text \<open>\<open>savePersistentLocked\<close> of the script runtime (5gpn-intercept, module_runtime.go).\<close>

definition save_persistent :: "string \<Rightarrow> string \<Rightarrow> file_op list" where
  "save_persistent path body =
     [MkdirAll, CreateTemp, Chmod 384, WriteData body, SyncTemp, CloseTemp, RenameTo path]"

section \<open>The contract of a writer\<close>

fun is_rename :: "file_op \<Rightarrow> bool" where
  "is_rename (RenameTo p) = True"
| "is_rename _ = False"

definition stage :: "string \<Rightarrow> file_op list \<Rightarrow> file_system \<Rightarrow> file_system" where
  "stage tmp fs s = fold (perform tmp) fs s"

definition agree_off :: "string \<Rightarrow> file_system \<Rightarrow> file_system \<Rightarrow> bool" where
  "agree_off tmp s s' \<longleftrightarrow> (\<forall>p. p \<noteq> tmp \<longrightarrow> s' p = s p)"

lemma perform_agree: "\<not> is_rename f \<Longrightarrow> agree_off tmp s s' \<Longrightarrow> agree_off tmp s (perform tmp f s')"
  by (cases f) (auto simp: agree_off_def perform_def)

lemma perform_failed_agree: "agree_off tmp s s' \<Longrightarrow> agree_off tmp s (perform_failed tmp k f s')"
  by (cases f) (auto simp: perform_failed_def intro!: perform_agree)

lemma remove_temp_agree: "agree_off (io_temp w) s s' \<Longrightarrow> agree_off (io_temp w) s (remove_temp w s')"
  by (auto simp: agree_off_def remove_temp_def)

lemma run_ops_append:
  "run_ops w c i (fs @ gs) tr =
     (case run_ops w c i fs tr of
        (None, tr') \<Rightarrow> run_ops w (c \<or> CreateTemp \<in> set fs) (i + length fs) gs tr'
      | r \<Rightarrow> r)"
proof (induction fs arbitrary: c i tr)
  case (Cons f fs)
  show ?case
  proof (cases "io_fault w i")
    case None
    have e: "(c \<or> CreateTemp \<in> set (f # fs)) = ((c \<or> f = CreateTemp) \<or> CreateTemp \<in> set fs)" by auto
    show ?thesis unfolding e using None Cons [of "c \<or> f = CreateTemp" "Suc i"] by (simp split: option.split prod.split)
  qed (simp add: Let_def)
qed simp

lemma run_ops_stages:
  assumes "list_all (\<lambda>f. \<not> is_rename f) fs" "tr \<noteq> []" "\<forall>s'\<in>set tr. agree_off (io_temp w) s s'"
  shows "\<forall>s'\<in>set (snd (run_ops w c i fs tr)). agree_off (io_temp w) s s'"
  using assms
proof (induction fs arbitrary: c i tr)
  case (Cons f fs)
  have h: "agree_off (io_temp w) s (hd tr)" using Cons.prems by simp
  show ?case
  proof (cases "io_fault w i")
    case None
    then show ?thesis
      using Cons.IH [of "perform (io_temp w) f (hd tr) # tr"] Cons.prems perform_agree [OF _ h] by simp
  next
    case (Some k)
    have "agree_off (io_temp w) s (perform_failed (io_temp w) k f (hd tr))"
      by (rule perform_failed_agree [OF h])
    with Some show ?thesis using Cons.prems remove_temp_agree by (auto simp: Let_def)
  qed
qed simp

lemma run_ops_success:
  assumes "fst (run_ops w c i fs tr) = None" "tr \<noteq> []"
  shows "hd (snd (run_ops w c i fs tr)) = stage (io_temp w) fs (hd tr)"
  using assms
proof (induction fs arbitrary: c i tr)
  case (Cons f fs)
  then have n: "io_fault w i = None" by (cases "io_fault w i") (auto simp: Let_def)
  show ?case using Cons.IH [of "c \<or> f = CreateTemp" "Suc i" "perform (io_temp w) f (hd tr) # tr"] Cons.prems n
    by (simp add: stage_def)
qed (simp add: stage_def)

lemma run_ops_nonempty: "tr \<noteq> [] \<Longrightarrow> snd (run_ops w c i fs tr) \<noteq> []"
  by (induction fs arbitrary: c i tr) (auto simp: Let_def split: option.split)

lemma run_ops_no_fault: "\<forall>j. io_fault w j = None \<Longrightarrow> fst (run_ops w c i fs tr) = None"
  by (induction fs arbitrary: c i tr) auto

text \<open>
  What every writer promises: it stages the new content under the temporary name without touching
  another path, and its last operation is the rename.
\<close>

definition new_file :: "string \<Rightarrow> nat \<Rightarrow> bool \<Rightarrow> stored_file" where
  "new_file data mode synced = \<lparr>sf_data = data, sf_mode = mode, sf_synced = synced\<rparr>"

locale atomic_replacement =
  fixes ops :: "file_op list" and path :: string and data :: string and mode :: nat and synced :: bool
  assumes last_op: "ops \<noteq> [] \<and> last ops = RenameTo path"
    and no_other_rename: "list_all (\<lambda>f. \<not> is_rename f) (butlast ops)"
    and staged: "stage tmp (butlast ops) s tmp = Some (new_file data mode synced)"
begin

lemma ops_split: "ops = butlast ops @ [RenameTo path]"
  using last_op append_butlast_last_id [of ops] by simp

lemma run_split:
  "run_writer w ops s =
     (case run_ops w False 0 (butlast ops) [s] of
        (None, tr) \<Rightarrow> run_ops w (CreateTemp \<in> set (butlast ops)) (length (butlast ops)) [RenameTo path] tr
      | r \<Rightarrow> r)"
  unfolding run_writer_def by (subst ops_split, subst run_ops_append) (simp split: option.split prod.split)

lemma stages_agree:
  "\<forall>s'\<in>set (snd (run_ops w False 0 (butlast ops) [s])). agree_off (io_temp w) s s'"
  by (rule run_ops_stages [OF no_other_rename]) (simp_all add: agree_off_def)

lemma body_done:
  assumes "run_ops w False 0 (butlast ops) [s] = (None, tr)"
  shows "agree_off (io_temp w) s (hd tr) \<and> hd tr (io_temp w) = Some (new_file data mode synced) \<and> tr \<noteq> []"
proof -
  have "hd tr = stage (io_temp w) (butlast ops) s" "tr \<noteq> []"
    using run_ops_success [of w False 0 "butlast ops" "[s]"] run_ops_nonempty [of "[s]" w False 0 "butlast ops"] assms
    by simp_all
  moreover have "agree_off (io_temp w) s (hd tr)"
    using stages_agree [of w s] assms \<open>tr \<noteq> []\<close> by simp
  ultimately show ?thesis using staged by simp
qed

lemma success_installs:
  assumes "run_writer w ops s = (None, tr)"
  shows "hd tr = (hd (tl tr))(path := Some (new_file data mode synced), io_temp w := None) \<and>
    agree_off (io_temp w) s (hd (tl tr)) \<and> tl tr \<noteq> [] \<and> (\<forall>s'\<in>set (tl tr). agree_off (io_temp w) s s')"
proof -
  obtain r tr1 where b: "run_ops w False 0 (butlast ops) [s] = (r, tr1)" by (cases "run_ops w False 0 (butlast ops) [s]")
  have r: "r = None" using assms b by (cases r) (auto simp: run_split)
  then have "tr = perform (io_temp w) (RenameTo path) (hd tr1) # tr1"
    using assms b by (auto simp: run_split Let_def split: option.splits)
  then show ?thesis using body_done [of w s tr1] b r stages_agree [of w s] by (auto simp: perform_def)
qed

lemma failure_keeps:
  assumes "run_writer w ops s = (Some f, tr)"
  shows "\<forall>s'\<in>set tr. agree_off (io_temp w) s s'"
proof -
  obtain r tr1 where b: "run_ops w False 0 (butlast ops) [s] = (r, tr1)" by (cases "run_ops w False 0 (butlast ops) [s]")
  have ag: "\<forall>s'\<in>set tr1. agree_off (io_temp w) s s'" using stages_agree [of w s] b by simp
  show ?thesis
  proof (cases r)
    case None
    have h: "agree_off (io_temp w) s (hd tr1)" "tr1 \<noteq> []" using body_done [of w s tr1] b None by auto
    have "agree_off (io_temp w) s (perform_failed (io_temp w) k (RenameTo path) (hd tr1))" for k
      by (rule perform_failed_agree [OF h(1)])
    then show ?thesis using assms b None ag remove_temp_agree
      by (auto simp: run_split Let_def split: option.splits if_splits)
  next
    case (Some x)
    then show ?thesis using assms b ag by (simp add: run_split)
  qed
qed

end

text \<open>The staging operations of the writers put the content under the temporary name.\<close>

lemma stage_simps [simp]:
  "stage tmp [] s = s"
  "stage tmp (f # fs) s = stage tmp fs (perform tmp f s)"
  by (simp_all add: stage_def)

lemma stage_append [simp]: "stage tmp (fs @ gs) s = stage tmp gs (stage tmp fs s)"
  by (simp add: stage_def)

lemma stage_lines:
  "s tmp = Some (new_file d m y) \<Longrightarrow>
     \<exists>b. stage tmp (line_writes es) s tmp = Some (new_file (d @ concat (map (\<lambda>e. e @ [newline]) es)) m b)"
proof (induction es arbitrary: s d y)
  case (Cons e es)
  have "(perform tmp (WriteData [newline]) (perform tmp (WriteData e) s)) tmp =
      Some (new_file (d @ e @ [newline]) m False)"
    using Cons.prems by (simp add: perform_def new_file_def)
  from Cons.IH [where s = "perform tmp (WriteData [newline]) (perform tmp (WriteData e) s)", OF this] show ?case by simp
qed auto

lemma line_writes_no_rename [simp]: "list_all (\<lambda>f. \<not> is_rename f) (line_writes es)"
  by (induction es) auto

definition lines_text :: "string list \<Rightarrow> string" where
  "lines_text es = concat (map (\<lambda>e. e @ [newline]) es)"

lemmas writer_unfolds = atomic_write_file_context_def atomic_write_file_def atomic_write_lines_def
  save_stats_file_def save_upstreams_file_def save_ecs_file_def save_tgbot_def
  write_intercept_config_def save_persistent_def new_file_def perform_def temp_mode_def

interpretation policy_file: atomic_replacement "atomic_write_file_context path data mode" path data mode True
  for path data mode
  by unfold_locales (simp_all add: writer_unfolds)

interpretation stats_file: atomic_replacement "save_stats_file path data" path data temp_mode True
  for path data
  by unfold_locales (simp_all add: writer_unfolds)

interpretation tgbot_file: atomic_replacement "save_tgbot (c # path) data" "c # path"
  "data @ [newline]" temp_mode True
  for c path data
  by unfold_locales (simp_all add: writer_unfolds)

interpretation upstreams_file: atomic_replacement "save_upstreams_file (c # path) data" "c # path"
  "data @ [newline]" temp_mode False
  for c path data
  by unfold_locales (simp_all add: writer_unfolds)

interpretation intercept_file: atomic_replacement "write_intercept_config path body mode" path body mode True
  for path body mode
  by unfold_locales (simp_all add: writer_unfolds)

interpretation lines_file: atomic_replacement "atomic_write_lines path es" path "lines_text es" temp_mode True
  for path es
proof unfold_locales
  fix tmp :: string and s :: file_system
  have "(perform tmp CreateTemp s) tmp = Some (new_file [] temp_mode True)" by (simp add: perform_def new_file_def)
  from stage_lines [where s = "perform tmp CreateTemp s" and es = es, OF this] show
    "stage tmp (butlast (atomic_write_lines path es)) s tmp = Some (new_file (lines_text es) temp_mode True)"
    by (auto simp: writer_unfolds butlast_append lines_text_def)
qed (simp_all add: writer_unfolds butlast_append)

interpretation ecs_file: atomic_replacement "save_ecs_file (c # path) data" "c # path"
  "data @ [newline]" temp_mode False
  for c path data
  by unfold_locales (simp_all add: writer_unfolds)

interpretation store_file: atomic_replacement "save_persistent path body" path body temp_mode True
  for path body
  by unfold_locales (simp_all add: writer_unfolds)

section \<open>All writers at once\<close>

inductive writes_file :: "file_op list \<Rightarrow> string \<Rightarrow> string \<Rightarrow> nat \<Rightarrow> bool \<Rightarrow> bool" where
  wf_policy: "writes_file (atomic_write_file_context path data mode) path data mode True"
| wf_lines: "writes_file (atomic_write_lines path es) path (lines_text es) temp_mode True"
| wf_stats: "writes_file (save_stats_file path data) path data temp_mode True"
| wf_tgbot: "path \<noteq> [] \<Longrightarrow> writes_file (save_tgbot path data) path (data @ [newline]) temp_mode True"
| wf_intercept: "writes_file (write_intercept_config path data mode) path data mode True"
| wf_store: "writes_file (save_persistent path data) path data temp_mode True"
| wf_upstreams: "path \<noteq> [] \<Longrightarrow> writes_file (save_upstreams_file path data) path (data @ [newline]) temp_mode False"
| wf_ecs: "path \<noteq> [] \<Longrightarrow> writes_file (save_ecs_file path data) path (data @ [newline]) temp_mode False"

lemma writes_file_replaces: "writes_file ops path data mode synced \<Longrightarrow> atomic_replacement ops path data mode synced"
proof (induction rule: writes_file.induct)
  case (wf_tgbot path data) then show ?case by (cases path) (simp_all add: tgbot_file.atomic_replacement_axioms)
next
  case (wf_upstreams path data)
  then show ?case by (cases path) (simp_all add: upstreams_file.atomic_replacement_axioms)
next
  case (wf_ecs path data) then show ?case by (cases path) (simp_all add: ecs_file.atomic_replacement_axioms)
qed (simp_all add: policy_file.atomic_replacement_axioms lines_file.atomic_replacement_axioms
       stats_file.atomic_replacement_axioms intercept_file.atomic_replacement_axioms store_file.atomic_replacement_axioms)

lemma run_ops_clean:
  assumes "fst (run_ops w c i fs tr) \<noteq> None" "io_removed w" "\<not> c \<Longrightarrow> hd tr (io_temp w) = None"
  shows "hd (snd (run_ops w c i fs tr)) (io_temp w) = None"
  using assms
proof (induction fs arbitrary: c i tr)
  case (Cons f fs)
  show ?case
  proof (cases "io_fault w i")
    case None
    have "\<not> (c \<or> f = CreateTemp) \<Longrightarrow> perform (io_temp w) f (hd tr) (io_temp w) = None"
      using Cons.prems(3) by (cases f) (auto simp: perform_def)
    then show ?thesis
      using Cons.IH [of "c \<or> f = CreateTemp" "Suc i" "perform (io_temp w) f (hd tr) # tr"] Cons.prems None by simp
  next
    case (Some k)
    have "\<not> c \<Longrightarrow> perform_failed (io_temp w) k f (hd tr) (io_temp w) = None"
      using Cons.prems(3) by (cases f) (auto simp: perform_def perform_failed_def)
    then show ?thesis using Some Cons.prems(2) by (auto simp: Let_def remove_temp_def)
  qed
qed simp

lemma agree_fresh: "agree_off t s s' \<Longrightarrow> s t = None \<Longrightarrow> s' t = None \<Longrightarrow> s' = s"
  by (rule ext) (metis agree_off_def)

lemma writer_outcome:
  assumes "writes_file ops path data mode synced" "s (io_temp w) = None" "io_temp w \<noteq> path"
    "run_writer w ops s = (e, tr)"
  shows "tr \<noteq> []"
    "e = None \<Longrightarrow> hd tr = s(path \<mapsto> new_file data mode synced) \<and> (\<forall>s'\<in>set (tl tr). agree_off (io_temp w) s s')"
    "e \<noteq> None \<Longrightarrow> \<forall>s'\<in>set tr. agree_off (io_temp w) s s'"
    "e \<noteq> None \<Longrightarrow> io_removed w \<Longrightarrow> hd tr = s"
proof -
  have l: "atomic_replacement ops path data mode synced" by (rule writes_file_replaces [OF assms(1)])
  show tr: "tr \<noteq> []" using run_ops_nonempty [of "[s]" w False 0 ops] assms(4) by (simp add: run_writer_def)
  show "hd tr = s(path \<mapsto> new_file data mode synced) \<and> (\<forall>s'\<in>set (tl tr). agree_off (io_temp w) s s')"
    if "e = None"
  proof -
    have h: "hd tr = (hd (tl tr))(path := Some (new_file data mode synced), io_temp w := None)"
      "agree_off (io_temp w) s (hd (tl tr))" "\<forall>s'\<in>set (tl tr). agree_off (io_temp w) s s'"
      using atomic_replacement.success_installs [OF l, of w s tr] assms(4) that by auto
    then show ?thesis using h(2,3) assms(2,3) unfolding h(1) agree_off_def by auto
  qed
  show k: "\<forall>s'\<in>set tr. agree_off (io_temp w) s s'" if "e \<noteq> None"
    using atomic_replacement.failure_keeps [OF l, of w s _ tr] assms(4) that by auto
  show "hd tr = s" if "e \<noteq> None" "io_removed w"
    using run_ops_clean [of w False 0 ops "[s]"] k tr assms(2,4) that agree_fresh [of "io_temp w" s "hd tr"]
    by (auto simp: run_writer_def)
qed

lemma writer_trace:
  assumes "writes_file ops path data mode synced" "s (io_temp w) = None" "io_temp w \<noteq> path"
    "run_writer w ops s = (e, tr)" "s' \<in> set tr" "p \<noteq> io_temp w"
  shows "s' p = s p \<or> e = None \<and> p = path \<and> s' p = Some (new_file data mode synced)"
proof (cases e)
  case None
  have "s' = hd tr \<or> s' \<in> set (tl tr)" using assms(5) by (cases tr) auto
  then show ?thesis using writer_outcome(2) [OF assms(1-4) None] None assms(6) by (auto simp: agree_off_def split: if_splits)
next
  case (Some f)
  then show ?thesis using writer_outcome(3) [OF assms(1-4)] assms(5,6) by (auto simp: agree_off_def)
qed

text \<open>C34: 
  Each writer replaces its file whole or not at all: in every state it passes through each other path
  keeps its file, and the path holds the old file or, once the writer has succeeded, the new one; a
  failed writer that removed its temporary file leaves the directory as it was, and one whose calls
  all succeed reports success.
\<close>

theorem replacement_all_or_nothing:
  assumes "writes_file ops path data mode synced" "s (io_temp w) = None" "io_temp w \<noteq> path"
  defines "r \<equiv> run_writer w ops s"
  shows "(\<forall>s'\<in>set (snd r). \<forall>p. p \<noteq> io_temp w \<longrightarrow>
       s' p = s p \<or> fst r = None \<and> p = path \<and> s' p = Some (new_file data mode synced)) \<and>
    (fst r = None \<longrightarrow> hd (snd r) = s(path \<mapsto> new_file data mode synced)) \<and>
    (fst r \<noteq> None \<and> io_removed w \<longrightarrow> hd (snd r) = s) \<and>
    ((\<forall>i. io_fault w i = None) \<longrightarrow> fst r = None)"
proof -
  obtain e tr where r: "run_writer w ops s = (e, tr)" by (cases "run_writer w ops s")
  have "(\<forall>i. io_fault w i = None) \<longrightarrow> e = None"
    using run_ops_no_fault [of w False 0 ops "[s]"] r by (simp add: run_writer_def)
  then show ?thesis
    using writer_outcome(2,4) [OF assms(1-3) r] writer_trace [OF assms(1-3) r] r unfolding r_def by auto
qed

definition ex_io :: io where
  "ex_io = \<lparr>io_temp = ''/d/.policy-1.tmp'', io_fault = (\<lambda>i. if i = 4 then Some 2 else None), io_removed = True\<rparr>"

definition ex_files :: file_system where
  "ex_files = [''/d/policy.json'' \<mapsto> new_file ''old'' 420 True]"

lemma replacement_all_or_nothing_witness:
  "hd (snd (run_writer ex_io (atomic_write_file_context ''/d/policy.json'' ''new'' 420) ex_files)) = ex_files"
proof -
  let ?r = "run_writer ex_io (atomic_write_file_context ''/d/policy.json'' ''new'' 420) ex_files"
  have f: "fst ?r = Some (WriteData ''new'')"
    by (simp add: run_writer_def atomic_write_file_context_def ex_io_def Let_def)
  show ?thesis
    using replacement_all_or_nothing [where s = ex_files and w = ex_io, OF wf_policy] f
    by (simp add: ex_files_def ex_io_def)
qed

text \<open>A crash keeps the directory and what was synced; a file that was not may hold anything.\<close>

definition crash_leaves :: "file_system \<Rightarrow> file_system \<Rightarrow> bool" where
  "crash_leaves s s' \<longleftrightarrow> (\<forall>p. case s p of
     None \<Rightarrow> s' p = None
   | Some x \<Rightarrow> \<exists>d. s' p = Some (x\<lparr>sf_data := d\<rparr>) \<and> (sf_synced x \<longrightarrow> d = sf_data x))"

lemma crash_keeps_itself [simp]: "\<exists>d. x = x\<lparr>sf_data := d\<rparr> \<and> (sf_synced x \<longrightarrow> d = sf_data x)"
  by (rule exI [of _ "sf_data x"]) simp

lemma crash_leaves_synced: "crash_leaves s s' \<Longrightarrow> s p = Some x \<Longrightarrow> sf_synced x \<Longrightarrow> s' p = Some x"
  unfolding crash_leaves_def by (drule spec [of _ p]) auto

text \<open>
  A crash at any moment of a writer that synced its temporary file leaves at the path the old file or
  the new one, complete.
\<close>

theorem replacement_crash_safe:
  assumes "writes_file ops path data mode True" "s (io_temp w) = None" "io_temp w \<noteq> path"
    "s path = Some old" "sf_synced old" "s' \<in> set (snd (run_writer w ops s))" "crash_leaves s' s''"
  shows "s'' path = Some old \<or> s'' path = Some (new_file data mode True)"
proof -
  have "s' path = Some old \<or> s' path = Some (new_file data mode True)"
    using writer_trace [OF assms(1-3) prod.collapse [symmetric] assms(6), of path] assms(3,4) by auto
  then show ?thesis using crash_leaves_synced [OF assms(7)] assms(5) by (auto simp: new_file_def)
qed

lemma replacement_crash_safe_witness:
  "\<exists>x. ex_files ''/d/policy.json'' = Some x \<and> sf_data x = ''old''"
proof -
  let ?tr = "snd (run_writer ex_io (atomic_write_file_context ''/d/policy.json'' ''new'' 420) ex_files)"
  have m: "ex_files \<in> set ?tr"
    by (simp add: run_writer_def atomic_write_file_context_def ex_io_def Let_def)
  have c: "crash_leaves ex_files ex_files" by (auto simp: crash_leaves_def split: option.split)
  show ?thesis
    using replacement_crash_safe [where s = ex_files and w = ex_io, OF wf_policy _ _ _ _ m c]
    by (simp add: ex_files_def ex_io_def new_file_def)
qed

text \<open>
  \<open>SaveUpstreams\<close> and \<open>SaveECSFile\<close> rename without syncing the temporary file first: the call
  reports success, and a crash afterwards can leave any bytes under the final name.
\<close>

theorem unsynced_override_can_be_lost:
  assumes "ops = save_upstreams_file path data \<or> ops = save_ecs_file path data" "path \<noteq> []"
    "s (io_temp w) = None" "io_temp w \<noteq> path" "\<forall>i. io_fault w i = None"
  shows "fst (run_writer w ops s) = None \<and>
    (\<exists>s''. crash_leaves (hd (snd (run_writer w ops s))) s'' \<and> map_option sf_data (s'' path) = Some junk)"
proof -
  have wf: "writes_file ops path (data @ [newline]) temp_mode False"
    using assms(1,2) by (auto intro: writes_file.intros)
  obtain e tr where r: "run_writer w ops s = (e, tr)" by (cases "run_writer w ops s")
  have e: "e = None" using run_ops_no_fault [OF assms(5), of False 0 ops "[s]"] r by (simp add: run_writer_def)
  then have fin: "hd tr = s(path \<mapsto> new_file (data @ [newline]) temp_mode False)"
    using writer_outcome(2) [OF wf assms(3,4) r] by simp
  have "crash_leaves (hd tr) (s(path \<mapsto> new_file junk temp_mode False))"
    unfolding fin crash_leaves_def by (auto simp: new_file_def split: option.split)
  then show ?thesis unfolding r e fst_conv snd_conv by (force simp: new_file_def)
qed

lemma unsynced_override_can_be_lost_witness:
  "fst (run_writer (ex_io\<lparr>io_fault := (\<lambda>i. None)\<rparr>) (save_upstreams_file ''/d/u.json'' ''doc'') ex_files) = None \<and>
   (\<exists>s''. crash_leaves (hd (snd (run_writer (ex_io\<lparr>io_fault := (\<lambda>i. None)\<rparr>)
      (save_upstreams_file ''/d/u.json'' ''doc'') ex_files))) s'' \<and> map_option sf_data (s'' ''/d/u.json'') = Some [])"
  by (rule unsynced_override_can_be_lost [where data = "''doc''"]) (simp_all add: ex_io_def ex_files_def)

text \<open>The bot token is never in a file that others may read.\<close>

lemma tgbot_secret:
  assumes "path \<noteq> []" "s (io_temp w) = None" "io_temp w \<noteq> path" "\<forall>x. s path = Some x \<longrightarrow> sf_mode x = 384"
    "s' \<in> set (snd (run_writer w (save_tgbot path data) s))" "s' path = Some x"
  shows "sf_mode x = 384"
  using writer_trace [OF wf_tgbot [OF assms(1)] assms(2,3) prod.collapse [symmetric] assms(5), of path] assms(3,4,6)
  by (auto simp: new_file_def temp_mode_def)

section \<open>The disk as the components see it\<close>

text \<open>
  The components that keep state on disk see paths with decoded contents: absent, present but not
  readable as a file (a directory, an I/O error), or stored with a mode. A write succeeds or leaves
  the disk alone; the writers above implement that.
\<close>

datatype 'c disk_entry = Absent | Unreadable | Stored 'c nat

type_synonym 'c disk = "string \<Rightarrow> 'c disk_entry"

definition disk_write :: "bool \<Rightarrow> string \<Rightarrow> 'c \<Rightarrow> nat \<Rightarrow> 'c disk \<Rightarrow> 'c disk" where
  "disk_write ok path c mode d = (if ok then d(path := Stored c mode) else d)"

definition disk_remove :: "bool \<Rightarrow> string \<Rightarrow> 'c disk \<Rightarrow> 'c disk" where
  "disk_remove ok path d = (if ok then d(path := Absent) else d)"

definition disk_of :: "(string \<Rightarrow> 'c) \<Rightarrow> file_system \<Rightarrow> 'c disk" where
  "disk_of decode s p = (case s p of None \<Rightarrow> Absent | Some x \<Rightarrow> Stored (decode (sf_data x)) (sf_mode x))"

theorem writer_refines_disk_write:
  assumes "writes_file ops path data mode synced" "s (io_temp w) = None" "io_temp w \<noteq> path" "io_removed w"
    "run_writer w ops s = (e, tr)"
  shows "disk_of decode (hd tr) = disk_write (e = None) path (decode data) mode (disk_of decode s)"
proof (cases e)
  case None
  then show ?thesis using writer_outcome(2) [OF assms(1-3,5)]
    by (auto simp: disk_of_def disk_write_def new_file_def)
next
  case (Some f)
  then show ?thesis using writer_outcome(4) [OF assms(1-3,5)] assms(4) by (simp add: disk_write_def)
qed

lemma writer_refines_disk_write_witness:
  "disk_of id (hd (snd (run_writer ex_io (atomic_write_file_context ''/d/policy.json'' ''new'' 420) ex_files))) =
   disk_write (fst (run_writer ex_io (atomic_write_file_context ''/d/policy.json'' ''new'' 420) ex_files) = None)
     ''/d/policy.json'' ''new'' 420 (disk_of id ex_files)"
  using writer_refines_disk_write [where s = ex_files and w = ex_io and decode = id,
      OF wf_policy _ _ _ prod.collapse [symmetric], of "''/d/policy.json''" "''new''" 420]
  by (simp add: ex_files_def ex_io_def)

end
