(* ===== verification/Go_Path.thy ===== *)
theory Go_Path
  imports Go_Net
begin

text \<open>
  \<open>path/filepath\<close> on Unix, as far as the program uses it: \<open>Clean\<close>, \<open>Join\<close> and \<open>Base\<close>.
\<close>

text \<open>\<open>strings.Split\<close> at a character; an empty string has one empty part.\<close>

fun split_on :: "char \<Rightarrow> string \<Rightarrow> string list" where
  "split_on x [] = [[]]"
| "split_on x (c # s) =
     (if c = x then [] # split_on x s
      else case split_on x s of p # ps \<Rightarrow> (c # p) # ps | [] \<Rightarrow> [[c]])"

abbreviation split_path :: "string \<Rightarrow> string list" where
  "split_path \<equiv> split_on slash"

fun join_parts :: "string list \<Rightarrow> string" where
  "join_parts [] = []"
| "join_parts [p] = p"
| "join_parts (p # ps) = p @ slash # join_parts ps"

definition path_rooted :: "string \<Rightarrow> bool" where
  "path_rooted p = has_prefix p [slash]"

text \<open>The stack of parts kept so far, the last one first.\<close>

fun clean_parts :: "bool \<Rightarrow> string list \<Rightarrow> string list \<Rightarrow> string list" where
  "clean_parts rooted st [] = st"
| "clean_parts rooted st (p # ps) =
     (if p = [] \<or> p = ''.'' then clean_parts rooted st ps
      else if p = ''..'' then
        (case st of
           [] \<Rightarrow> clean_parts rooted (if rooted then [] else [p]) ps
         | t # ts \<Rightarrow> clean_parts rooted (if t = ''..'' then p # st else ts) ps)
      else clean_parts rooted (p # st) ps)"

definition path_clean :: "string \<Rightarrow> string" where
  "path_clean p =
     (let s = join_parts (rev (clean_parts (path_rooted p) [] (split_path p)))
      in if path_rooted p then slash # s else if s = [] then ''.'' else s)"

definition path_join :: "string list \<Rightarrow> string" where
  "path_join es = (case dropWhile (\<lambda>e. e = []) es of [] \<Rightarrow> [] | fs \<Rightarrow> path_clean (join_parts fs))"

definition path_base :: "string \<Rightarrow> string" where
  "path_base p =
     (if p = [] then ''.''
      else let q = drop_while_end (\<lambda>c. c = slash) p in
        if q = [] then [slash] else last (split_path q))"

section \<open>Plain parts\<close>

text \<open>A part that \<open>Clean\<close> keeps as it is.\<close>

definition plain_part :: "string \<Rightarrow> bool" where
  "plain_part p \<longleftrightarrow> p \<noteq> [] \<and> p \<noteq> ''.'' \<and> p \<noteq> ''..'' \<and> slash \<notin> set p"

lemma split_on_ne [simp]: "split_on x s \<noteq> []"
  by (induction s) (auto split: list.split)

lemma split_on_at: "split_on x (a @ x # b) = split_on x a @ split_on x b"
proof (induction a)
  case (Cons c a)
  then show ?case by (cases "split_on x a") auto
qed simp

lemma split_on_none: "x \<notin> set p \<Longrightarrow> split_on x p = [p]"
  by (induction p) auto

lemmas split_path_slash = split_on_at [of slash]
lemmas split_path_plain = split_on_none [of slash]

lemma clean_parts_append: "clean_parts r st (ps @ qs) = clean_parts r (clean_parts r st ps) qs"
  by (induction r st ps rule: clean_parts.induct) (auto split: list.split)

lemma clean_parts_plain: "list_all plain_part ps \<Longrightarrow> clean_parts r st ps = rev ps @ st"
  by (induction ps arbitrary: st) (auto simp: plain_part_def)

lemma join_parts_snoc: "join_parts (ps @ [q]) = (if ps = [] then q else join_parts ps @ slash # q)"
  by (induction ps rule: join_parts.induct) auto

lemma plain_not_rooted: "plain_part p \<Longrightarrow> \<not> path_rooted (p @ s)"
  by (cases p) (auto simp: plain_part_def path_rooted_def has_prefix_def)

text \<open>What \<open>Join\<close> puts before the last two parts depends on the first element only.\<close>

definition join_root :: "string \<Rightarrow> string" where
  "join_root d =
     (let st = rev (clean_parts (path_rooted d) [] (split_path d));
          s = (if st = [] then [] else join_parts st @ [slash])
      in if path_rooted d then slash # s else s)"

lemma path_join_plain:
  assumes "plain_part a" "plain_part b"
  shows "path_join [d, a, b] = join_root d @ a @ slash # b"
proof -
  have ne: "a \<noteq> []" "b \<noteq> []" using assms by (auto simp: plain_part_def)
  have sp: "split_path a = [a]" "split_path b = [b]" using assms by (auto simp: plain_part_def split_path_plain)
  have cl: "clean_parts r st [a, b] = b # a # st" for r st
    using clean_parts_plain [of "[a, b]" r st] assms by simp
  have tail: "join_parts (rev st @ [a, b]) = (if st = [] then [] else join_parts (rev st) @ [slash]) @ a @ slash # b"
    for st
  proof -
    have "join_parts (rev st @ [a, b]) = join_parts ((rev st @ [a]) @ [b])" by simp
    also have "\<dots> = join_parts (rev st @ [a]) @ slash # b" by (subst join_parts_snoc) simp
    finally show ?thesis by (simp add: join_parts_snoc)
  qed
  show ?thesis
  proof (cases "d = []")
    case True
    have j: "path_join [d, a, b] = path_clean (a @ slash # b)" using True ne by (simp add: path_join_def)
    have nr: "path_rooted (a @ slash # b) = False" using plain_not_rooted [OF assms(1)] by simp
    have s: "split_path (a @ slash # b) = [a, b]" by (simp add: split_path_slash sp)
    have "join_root d = []" using True by (simp add: join_root_def path_rooted_def has_prefix_def)
    then show ?thesis unfolding j path_clean_def nr s cl using ne by simp
  next
    case False
    let ?p = "d @ slash # a @ slash # b"
    have j: "path_join [d, a, b] = path_clean ?p" using False by (simp add: path_join_def)
    have r: "path_rooted ?p = path_rooted d" using False by (cases d) (auto simp: path_rooted_def has_prefix_def)
    have s: "split_path ?p = split_path d @ [a, b]" by (simp add: split_path_slash sp)
    let ?st = "clean_parts (path_rooted d) [] (split_path d)"
    have "clean_parts (path_rooted d) [] (split_path ?p) = b # a # ?st"
      unfolding s clean_parts_append by (rule cl)
    then show ?thesis
      unfolding j path_clean_def r join_root_def using tail [of ?st] ne by (simp add: Let_def)
  qed
qed

lemma slash_split_unique:
  "slash \<notin> set a \<Longrightarrow> slash \<notin> set a' \<Longrightarrow> a @ slash # b = a' @ slash # b' \<Longrightarrow> a = a' \<and> b = b'"
  by (induction a arbitrary: a') (auto simp: Cons_eq_append_conv)

lemma path_join_inj:
  assumes "plain_part a" "plain_part b" "plain_part a'" "plain_part b'"
    "path_join [d, a, b] = path_join [d, a', b']"
  shows "a = a' \<and> b = b'"
  using assms(5) slash_split_unique [of a a' b b'] assms(1-4)
  unfolding path_join_plain [OF assms(1,2)] path_join_plain [OF assms(3,4)] by (auto simp: plain_part_def)

lemma path_base_plain: "plain_part p \<or> p \<noteq> [] \<and> slash \<notin> set p \<Longrightarrow> path_base p = p"
proof -
  assume "plain_part p \<or> p \<noteq> [] \<and> slash \<notin> set p"
  then have p: "p \<noteq> []" "slash \<notin> set p" by (auto simp: plain_part_def)
  then have "drop_while_end (\<lambda>c. c = slash) p = p"
    by (intro drop_while_end_id) (auto dest: last_in_set)
  then show ?thesis using p by (simp add: path_base_def split_path_plain)
qed

end
