(* ===== verification/Subscriptions.thy ===== *)
theory Subscriptions
  imports Policy_Runtime Atomic_File Go_Path
begin

text \<open>
  \<open>subscription.go\<close>: the remote rule lists, their cache files and the two-phase policy generation.
  The HTTP exchange is an argument (what \<open>client.Do\<close> and reading the body produced), and so are the
  outcomes of the file operations and the iteration orders of the maps. The disk is a map from paths
  to entries; \<open>subscriptions.json\<close> is stored decoded, a cache file as its text. Error texts are
  constructors.
\<close>

section \<open>Data\<close>

datatype sub_error =
    SubNotFound | SubIdEmpty | SubIdTooLong | SubCategory | SubNameEmpty | SubName | SubNameTooLong
  | SubFormat | SubInterval | SubUrlEmpty | SubUrl | SubDuplicateId | SubDuplicatePath | SubNotPolicyOwned
  | FetchBuild | FetchTransport | FetchStatus int | FetchHTML | FetchRead | FetchTooLarge
  | FetchParse parse_error | BelowFloor nat nat | ShrinkRead | BelowShrink nat nat
  | WriteError | RemoveError | ReloadError | BackupError | ContextDone
  | SubsFileRead | SubsFileParse | SubsFileVersion int | PreparedClosed

definition max_subscription_body_size :: nat where "max_subscription_body_size = 33554432"
definition domain_floor :: nat where "domain_floor = 1"
definition chnroute_floor :: nat where "chnroute_floor = 100"
definition shrink_guard_minimum_existing :: nat where "shrink_guard_minimum_existing = 20"
definition shrink_guard_minimum_retained_pct :: nat where "shrink_guard_minimum_retained_pct = 20"
definition subs_schema_version :: int where "subs_schema_version = 1"
definition max_subscription_id_len :: nat where "max_subscription_id_len = 64"
definition max_subscription_name_len :: nat where "max_subscription_name_len = 128"

definition valid_categories :: "string list" where
  "valid_categories = [''block'', ''direct'', ''proxy'', ''chnroute'']"

text \<open>What \<open>subscriptions.json\<close> or a cache file holds.\<close>

datatype content = Text string | SubsDoc int "subscription list"

record update_result =
  ur_id :: string
  ur_ok :: bool
  ur_entries :: nat
  ur_err :: "sub_error option"

record sub_health =
  sh_at :: go_time
  sh_ok :: bool
  sh_entries :: nat
  sh_err :: "sub_error option"

section \<open>Validation\<close>

definition validate_subscription_name :: "string \<Rightarrow> sub_error option" where
  "validate_subscription_name name =
     (if name = [] then Some SubNameEmpty
      else if name = ''.'' \<or> name = ''..'' then Some SubName
      else if slash \<in> set name \<or> CHR 0x5C \<in> set name then Some SubName
      else if path_base name \<noteq> name then Some SubName
      else if length name > max_subscription_name_len then Some SubNameTooLong
      else None)"

definition validate_subscription :: "subscription \<Rightarrow> sub_error option" where
  "validate_subscription s =
     (if sb_id s = [] then Some SubIdEmpty
      else if length (sb_id s) > max_subscription_id_len then Some SubIdTooLong
      else if sb_category s \<notin> set valid_categories then Some SubCategory
      else case validate_subscription_name (sb_name s) of
        Some e \<Rightarrow> Some e
      | None \<Rightarrow>
         (if (if sb_category s = ''chnroute'' then sb_format s \<noteq> ''cidr''
              else sb_format s \<notin> set valid_subscription_formats) then Some SubFormat
          else if sb_enabled s \<and> sb_interval s \<le> 0 then Some SubInterval
          else if sb_url s = [] then Some SubUrlEmpty
          else if \<not> validate_subscription_url_scheme (sb_url s) then Some SubUrl
          else None))"

fun unique_paths_loop :: "(string \<times> string) list \<Rightarrow> subscription list \<Rightarrow> bool" where
  "unique_paths_loop seen [] = True"
| "unique_paths_loop seen (s # ss) =
     (if (sb_category s, sb_name s) \<in> set seen then False
      else unique_paths_loop ((sb_category s, sb_name s) # seen) ss)"

definition validate_unique_subscription_cache_paths :: "subscription list \<Rightarrow> bool" where
  "validate_unique_subscription_cache_paths ss = unique_paths_loop [] ss"

fun load_subs_loop :: "string list \<Rightarrow> subscription list \<Rightarrow> sub_error option" where
  "load_subs_loop seen [] = None"
| "load_subs_loop seen (s # ss) =
     (case validate_subscription s of
        Some e \<Rightarrow> Some e
      | None \<Rightarrow> if sb_id s \<in> set seen then Some SubDuplicateId else load_subs_loop (sb_id s # seen) ss)"

definition load_subscriptions :: "content disk_entry \<Rightarrow> sub_error + subscription list" where
  "load_subscriptions e = (case e of
     Absent \<Rightarrow> Inr []
   | Unreadable \<Rightarrow> Inl SubsFileRead
   | Stored (Text t) m \<Rightarrow> Inl SubsFileParse
   | Stored (SubsDoc v subs) m \<Rightarrow>
      (if v \<noteq> subs_schema_version then Inl (SubsFileVersion v)
       else case load_subs_loop [] subs of
         Some e \<Rightarrow> Inl e
       | None \<Rightarrow> if validate_unique_subscription_cache_paths subs then Inr subs else Inl SubDuplicatePath))"

definition policy_owned_category :: "string \<Rightarrow> bool" where
  "policy_owned_category cat \<longleftrightarrow> cat = ''block'' \<or> cat = ''direct'' \<or> cat = ''proxy''"

section \<open>Cache files\<close>

definition cache_path :: "string \<Rightarrow> subscription \<Rightarrow> string" where
  "cache_path rules_dir s = path_join [rules_dir, sb_category s, sb_name s @ ''.txt'']"

datatype read_error = ReadNotExist | ReadFailed

definition cached_rule_lines :: "content disk_entry \<Rightarrow> read_error + string list" where
  "cached_rule_lines e = (case e of
     Absent \<Rightarrow> Inl ReadNotExist
   | Stored (Text t) m \<Rightarrow> Inr (List.map_filter plain_line (split_on newline t))
   | _ \<Rightarrow> Inl ReadFailed)"

definition lines_unchanged_on_disk :: "content disk_entry \<Rightarrow> string list \<Rightarrow> bool" where
  "lines_unchanged_on_disk e entries = (case e of
     Stored (Text t) m \<Rightarrow>
       length t = length entries + sum_list (map length entries) \<and> t = lines_text entries
   | _ \<Rightarrow> False)"

definition validate_subscription_shrink :: "content disk_entry \<Rightarrow> nat \<Rightarrow> sub_error option" where
  "validate_subscription_shrink e new_count = (case cached_rule_lines e of
     Inl ReadNotExist \<Rightarrow> None
   | Inl ReadFailed \<Rightarrow> Some ShrinkRead
   | Inr old \<Rightarrow>
      (if length old < shrink_guard_minimum_existing then None
       else if new_count * 100 < length old * shrink_guard_minimum_retained_pct
       then Some (BelowShrink new_count (length old)) else None))"

section \<open>Fetching\<close>

text \<open>
  What the HTTP client delivered: no request could be built, no response arrived, or a response with
  its status, the media type \<open>mime.ParseMediaType\<close> found (\<open>None\<close>: none) and the body (\<open>None\<close>: reading failed).
\<close>

datatype http_outcome = NoRequest | NoResponse | Response int "string option" "string option"

definition refused_media_type :: "string option \<Rightarrow> bool" where
  "refused_media_type mt = (case mt of None \<Rightarrow> False
     | Some t \<Rightarrow> to_lower t \<in> {''text/html'', ''application/xhtml+xml''})"

definition fetch_and_parse :: "dns_lib \<Rightarrow> http_outcome \<Rightarrow> subscription \<Rightarrow> sub_error + string list" where
  "fetch_and_parse L resp s = (case resp of
     NoRequest \<Rightarrow> Inl FetchBuild
   | NoResponse \<Rightarrow> Inl FetchTransport
   | Response status mt body \<Rightarrow>
      (if status \<noteq> 200 then Inl (FetchStatus status)
       else if refused_media_type mt then Inl FetchHTML
       else case body of
         None \<Rightarrow> Inl FetchRead
       | Some b \<Rightarrow>
           let limited = take (max_subscription_body_size + 1) b in
           if length limited > max_subscription_body_size then Inl FetchTooLarge
           else (case (if sb_category s = ''chnroute'' then parse_cidrs limited
                       else parse_domains L (sb_format s) limited) of
             Inl e \<Rightarrow> Inl (FetchParse e)
           | Inr entries \<Rightarrow> Inr entries)))"

definition failed_update :: "subscription \<Rightarrow> sub_error \<Rightarrow> update_result" where
  "failed_update s e = \<lparr>ur_id = sb_id s, ur_ok = False, ur_entries = 0, ur_err = Some e\<rparr>"

definition ok_update :: "subscription \<Rightarrow> string list \<Rightarrow> update_result" where
  "ok_update s entries = \<lparr>ur_id = sb_id s, ur_ok = True, ur_entries = length entries, ur_err = None\<rparr>"

text \<open>
  \<open>doFetchAndCache\<close>: \<open>wrote\<close> is the outcome of \<open>atomicWriteLines\<close>; \<open>reload\<close> is \<open>None\<close> without a
  reload function, else whether it succeeds. The last component says whether reload was called.
\<close>

definition do_fetch_and_cache ::
    "dns_lib \<Rightarrow> string \<Rightarrow> http_outcome \<Rightarrow> bool \<Rightarrow> bool option \<Rightarrow> subscription \<Rightarrow> content disk \<Rightarrow>
       update_result \<times> content disk \<times> bool" where
  "do_fetch_and_cache L rules_dir resp wrote reload s d =
     (case fetch_and_parse L resp s of
        Inl e \<Rightarrow> (failed_update s e, d, False)
      | Inr entries \<Rightarrow>
          let floor = (if sb_category s = ''chnroute'' then chnroute_floor else domain_floor);
              path = cache_path rules_dir s
          in if length entries < floor then (failed_update s (BelowFloor (length entries) floor), d, False)
          else case validate_subscription_shrink (d path) (length entries) of
            Some e \<Rightarrow> (failed_update s e, d, False)
          | None \<Rightarrow>
             if lines_unchanged_on_disk (d path) entries then (ok_update s entries, d, False)
             else if \<not> wrote then (failed_update s WriteError, d, False)
             else
               let d1 = disk_write True path (Text (lines_text entries)) temp_mode d in
               case reload of
                 None \<Rightarrow> (ok_update s entries, d1, False)
               | Some True \<Rightarrow> (ok_update s entries, d1, True)
               | Some False \<Rightarrow>
                   (\<lparr>ur_id = sb_id s, ur_ok = False, ur_entries = length entries, ur_err = Some ReloadError\<rparr>,
                    d1, True))"

section \<open>No entry contains a line break\<close>

lemma newline_code: "char_code c = 10 \<longleftrightarrow> c = newline"
  using char_code_inj [of c newline] by (simp add: newline_def char_code_char_of)

lemma set_drop_while_end: "set (drop_while_end p xs) \<subseteq> set xs"
  by (auto simp: drop_while_end_def dest: set_dropWhileD)

lemma set_trim_space: "set (trim_space s) \<subseteq> set s"
  using set_drop_while_end [of is_space "dropWhile is_space s"] by (auto simp: trim_space_def dest: set_dropWhileD)

lemma raw_lines_no_newline: "newline \<notin> set cur \<Longrightarrow> l \<in> set (raw_lines_acc cur s) \<Longrightarrow> newline \<notin> set l"
  by (induction cur s rule: raw_lines_acc.induct) (auto simp: newline_code split: if_splits)

lemma set_drop_cr: "set (drop_cr l) \<subseteq> set l"
  by (auto simp: drop_cr_def dest: in_set_butlastD)

lemma rule_scan_no_newline: "l \<in> set (fst (new_rule_scanner raw)) \<Longrightarrow> newline \<notin> set l"
  using raw_lines_no_newline [of "[]" _ raw] set_drop_cr
  by (fastforce simp: new_rule_scanner_def rule_scan_def Let_def dest: set_takeWhileD)

definition cuts_line :: "(string \<Rightarrow> string option) \<Rightarrow> bool" where
  "cuts_line f \<longleftrightarrow> (\<forall>l x. f l = Some x \<longrightarrow> set x \<subseteq> set l)"

lemma cuts_plain: "cuts_line plain_line"
  using set_trim_space by (auto simp: cuts_line_def plain_line_def Let_def split: if_splits)

lemma set_gfw_strip: "set (gfw_strip l) \<subseteq> set l"
  by (auto simp: gfw_strip_def dest: in_set_dropD)

lemma set_trim_suffix: "set (trim_suffix s p) \<subseteq> set s"
  by (auto simp: trim_suffix_def dest: in_set_takeD)

lemma cuts_gfw: "cuts_line gfw_line"
proof -
  have "set (trim_space (case i of None \<Rightarrow> l | Some n \<Rightarrow> take n l)) \<subseteq> set l" for i l
    using set_trim_space by (auto split: option.split dest: in_set_takeD)
  then show ?thesis
    unfolding cuts_line_def gfw_line_def Let_def
    using set_trim_suffix set_gfw_strip set_trim_space by (auto split: if_splits) blast
qed

lemma cuts_dnsmasq: "cuts_line dnsmasq_line"
  using set_trim_space
  by (auto simp: cuts_line_def dnsmasq_line_def Let_def split: if_splits option.splits
      dest!: in_set_takeD in_set_dropD)

lemma set_go_fields_acc: "f \<in> set (fields_acc cur s) \<Longrightarrow> set f \<subseteq> set cur \<union> set s"
proof (induction cur s rule: fields_acc.induct)
  case (2 cur c s)
  show ?case
  proof (cases "is_space c")
    case True
    then show ?thesis using 2 by (cases "cur = []") auto
  next
    case False
    then show ?thesis using 2(3) [OF False] 2(4) by auto
  qed
qed (simp split: if_splits)

lemma cuts_hosts: "cuts_line hosts_line"
proof -
  have "set (go_fields l ! 1) \<subseteq> set l" if "\<not> length (go_fields l) < 2" for l
    using set_go_fields_acc [of "go_fields l ! 1" "[]" l] that by (auto simp: go_fields_def)
  moreover have "set (trim_space (case i of None \<Rightarrow> t | Some n \<Rightarrow> take n t)) \<subseteq> set t" for i t
    using set_trim_space by (auto split: option.split dest: in_set_takeD)
  ultimately show ?thesis
    unfolding cuts_line_def hosts_line_def Let_def by (auto split: if_splits) blast
qed

lemma scan_result_no_newline:
  assumes "cuts_line f" "scan_result (List.map_filter f) (new_rule_scanner raw) = Inr ls" "l \<in> set ls"
  shows "newline \<notin> set l"
proof -
  obtain l' where l': "l' \<in> set (fst (new_rule_scanner raw))" "f l' = Some l"
    using assms(2,3) by (auto simp: scan_result_def map_filter_def split: if_splits)
  then show ?thesis using assms(1) rule_scan_no_newline [OF l'(1)] by (auto simp: cuts_line_def)
qed

lemma parse_domains_lines_no_newline:
  assumes "parse_domains L format raw = Inr ds"
  obtains ls where "normalize_domain_list L ls = Inr ds" "\<forall>l\<in>set ls. newline \<notin> set l"
  using assms scan_result_no_newline cuts_plain cuts_gfw cuts_dnsmasq cuts_hosts
  unfolding parse_domains_def parse_plain_domains_def parse_gfwlist_def parse_dnsmasq_def parse_hosts_def Let_def
  by (auto split: if_splits sum.splits option.splits)

lemma to_lower_newline: "newline \<notin> set s \<Longrightarrow> newline \<notin> set (to_lower s)"
proof -
  have "to_lower_char c = newline \<Longrightarrow> c = newline" for c
    by (auto simp: to_lower_char_def newline_code [symmetric] char_code_char_of split: if_splits)
  then show "newline \<notin> set s \<Longrightarrow> newline \<notin> set (to_lower s)" by (metis to_lower_def imageE set_map)
qed

lemma normalize_no_newline: "newline \<notin> set l \<Longrightarrow> newline \<notin> set (normalize_domain l)"
proof -
  assume "newline \<notin> set l"
  then have "newline \<notin> set (trim_space l)" using set_trim_space [of l] by blast
  then have "newline \<notin> set (to_lower (trim_space l))" by (rule to_lower_newline)
  then show ?thesis
    using set_drop_while_end [of "\<lambda>c. c = dot" "to_lower (trim_space l)"]
    unfolding normalize_domain_def trim_right_dots_def by blast
qed

lemma set_fold_insert: "set (fold List.insert xs S) = set xs \<union> set S"
  by (induction xs arbitrary: S) auto

lemma normalize_list_members:
  assumes "normalize_domain_list L ls = Inr ds" "x \<in> set ds"
  shows "\<exists>l\<in>set ls. x = normalize_domain l"
  using assms by (auto simp: normalize_domain_list_def norm_loop_spec Let_def set_fold_insert split: if_splits)

lemma cidrs_members:
  assumes "parse_cidrs raw = Inr cs" "x \<in> set cs"
  shows "\<exists>l\<in>set (fst (new_rule_scanner raw)). x = to_lower (trim_space l)"
proof -
  have sub: "cidrs_loop ls S n i = Inr (S', n', i') \<Longrightarrow> set S' \<subseteq> set S \<union> (\<lambda>l. to_lower (trim_space l)) ` set ls" for ls S n i S' n' i'
  proof (induction ls arbitrary: S n i)
    case (Cons t ts)
    let ?l = "trim_space t"
    consider "?l = [] \<or> has_prefix ?l ''#''" | "\<not> (?l = [] \<or> has_prefix ?l ''#'')" "parse_cidr ?l = None"
      | "\<not> (?l = [] \<or> has_prefix ?l ''#'')" "parse_cidr ?l \<noteq> None" by blast
    then show ?case
    proof cases
      case 1
      then show ?thesis using Cons.IH [of S n i] Cons.prems by auto
    next
      case 2
      then show ?thesis using Cons.IH [of S "Suc n" "Suc i"] Cons.prems by (auto simp: Let_def split: if_splits)
    next
      case 3
      then show ?thesis
        using Cons.IH [of "List.insert (to_lower ?l) S" "Suc n" i] Cons.prems by (auto simp: Let_def split: if_splits)
    qed
  qed simp
  obtain n i S where "cidrs_loop (fst (new_rule_scanner raw)) [] 0 0 = Inr (S, n, i)" "cs = sort S"
    using assms(1) by (auto simp: parse_cidrs_def split: prod.splits sum.splits if_splits)
  then show ?thesis using sub [of "fst (new_rule_scanner raw)" "[]" 0 0 S n i] assms(2) by auto
qed

lemma fetched_no_newline:
  assumes "fetch_and_parse L resp s = Inr es" "x \<in> set es"
  shows "newline \<notin> set x"
proof -
  obtain b where b: "(if sb_category s = ''chnroute'' then parse_cidrs b else parse_domains L (sb_format s) b) = Inr es"
    using assms(1) by (auto simp: fetch_and_parse_def Let_def split: http_outcome.splits if_splits option.splits sum.splits)
  show ?thesis
  proof (cases "sb_category s = ''chnroute''")
    case True
    then obtain l where "l \<in> set (fst (new_rule_scanner b))" "x = to_lower (trim_space l)"
      using b cidrs_members [OF _ assms(2)] by auto
    then show ?thesis using rule_scan_no_newline [of l b] set_trim_space to_lower_newline by blast
  next
    case False
    then obtain ls where "normalize_domain_list L ls = Inr es" "\<forall>l\<in>set ls. newline \<notin> set l"
      using b parse_domains_lines_no_newline [of L "sb_format s" b es] by auto
    then show ?thesis using normalize_list_members [of L ls es x] assms(2) normalize_no_newline by auto
  qed
qed

section \<open>Writing a list and reading it back\<close>

lemma lines_text_Nil [simp]: "lines_text [] = []"
  by (simp add: lines_text_def)

lemma lines_text_Cons [simp]: "lines_text (e # es) = e @ newline # lines_text es"
  by (simp add: lines_text_def)

lemma length_lines_text: "length (lines_text es) = length es + sum_list (map length es)"
  by (induction es) auto

lemma split_lines_text: "\<forall>e\<in>set es. newline \<notin> set e \<Longrightarrow> split_on newline (lines_text es) = es @ [[]]"
  by (induction es) (auto simp: split_on_at split_on_none)

lemma lines_unchanged_iff: "lines_unchanged_on_disk e es \<longleftrightarrow> (\<exists>m. e = Stored (Text (lines_text es)) m)"
  by (auto simp: lines_unchanged_on_disk_def length_lines_text split: disk_entry.split content.split)

definition clean_entry :: "string \<Rightarrow> bool" where
  "clean_entry e \<longleftrightarrow> e \<noteq> [] \<and> trim_space e = e \<and> \<not> has_prefix e ''#'' \<and> newline \<notin> set e"

lemma plain_line_clean: "clean_entry e \<Longrightarrow> plain_line e = Some e"
  by (simp add: clean_entry_def plain_line_def)

lemma plain_line_Nil: "plain_line [] = None"
  by (simp add: plain_line_def trim_space_def)

lemma map_filter_length: "length (List.map_filter f xs) \<le> length xs"
  by (induction xs) (auto simp: List.map_filter_simps split: option.split)

lemma map_filter_append: "List.map_filter f (xs @ ys) = List.map_filter f xs @ List.map_filter f ys"
  by (simp add: List.map_filter_def)

lemma cached_lines_of_text:
  "\<forall>e\<in>set es. newline \<notin> set e \<Longrightarrow>
     cached_rule_lines (Stored (Text (lines_text es)) m) = Inr (List.map_filter plain_line es)"
  by (simp add: cached_rule_lines_def split_lines_text map_filter_append List.map_filter_simps plain_line_Nil)

lemma cached_lines_roundtrip:
  "\<forall>e\<in>set es. clean_entry e \<Longrightarrow> cached_rule_lines (Stored (Text (lines_text es)) m) = Inr es"
proof -
  assume c: "\<forall>e\<in>set es. clean_entry e"
  have "List.map_filter plain_line es = es"
    using c by (induction es) (auto simp: List.map_filter_simps plain_line_clean)
  then show ?thesis using cached_lines_of_text [of es m] c by (simp add: clean_entry_def)
qed

lemma shrink_same_list:
  assumes "\<forall>e\<in>set es. newline \<notin> set e"
  shows "validate_subscription_shrink (Stored (Text (lines_text es)) m) (length es) = None"
  using map_filter_length [of plain_line es]
  by (simp add: validate_subscription_shrink_def cached_lines_of_text [OF assms] shrink_guard_minimum_retained_pct_def)

text \<open>C33: A refresh replaces a cache file only by a plausible list, and nothing else on disk. Unless
  \<open>doFetchAndCache\<close> leaves the disk alone, the response had status 200 and a body of at most 32 MiB
  that parsed, the list reaches the floor of its category (100 entries for chnroute), it keeps at
  least a fifth of a cached list of 20 or more lines, the write succeeded, and the only path that
  changed is the subscription's cache path, which now holds exactly the list; reload is called only
  then. A result that is not OK leaves the disk alone unless the reload is what failed.\<close>

theorem cache_replaced_only_by_plausible_list:
  assumes "do_fetch_and_cache L rd resp wrote reload s d = (res, d', reloaded)"
  defines "path \<equiv> cache_path rd s"
  shows "(d' = d \<and> \<not> reloaded) \<or>
    (\<exists>es mt b. resp = Response 200 mt (Some b) \<and> length b \<le> 33554432 \<and> fetch_and_parse L resp s = Inr es \<and>
       (if sb_category s = ''chnroute'' then 100 else 1) \<le> length es \<and>
       (\<forall>old. cached_rule_lines (d path) = Inr old \<longrightarrow> 20 \<le> length old \<longrightarrow> length old \<le> 5 * length es) \<and>
       wrote \<and> d' = d(path := Stored (Text (lines_text es)) temp_mode) \<and> reloaded = (reload \<noteq> None) \<and>
       ur_ok res = (reload \<noteq> Some False))"
proof (cases "fetch_and_parse L resp s")
  case (Inl e)
  then show ?thesis using assms(1) by (simp add: do_fetch_and_cache_def)
next
  case (Inr es)
  let ?floor = "if sb_category s = ''chnroute'' then chnroute_floor else domain_floor"
  obtain mt b where r: "resp = Response 200 mt (Some b)" "length b \<le> 33554432"
    using Inr by (auto simp: fetch_and_parse_def Let_def max_subscription_body_size_def min_def
        split: http_outcome.splits if_splits option.splits)
  show ?thesis
  proof (cases "length es < ?floor \<or> validate_subscription_shrink (d path) (length es) \<noteq> None \<or>
      lines_unchanged_on_disk (d path) es \<or> \<not> wrote")
    case True
    then have "d' = d \<and> \<not> reloaded"
      using assms(1) Inr unfolding path_def
      by (cases "validate_subscription_shrink (d (cache_path rd s)) (length es)")
        (auto simp: do_fetch_and_cache_def Let_def split: if_splits)
    then show ?thesis ..
  next
    case False
    then have g: "\<not> length es < ?floor" "validate_subscription_shrink (d path) (length es) = None"
      "\<not> lines_unchanged_on_disk (d path) es" "wrote" by auto
    have "d' = d(path := Stored (Text (lines_text es)) temp_mode) \<and> reloaded = (reload \<noteq> None) \<and>
        ur_ok res = (reload \<noteq> Some False)"
      using assms(1) Inr g unfolding path_def
      by (auto simp: do_fetch_and_cache_def Let_def disk_write_def ok_update_def split: option.splits bool.splits)
    moreover have "(if sb_category s = ''chnroute'' then 100 else 1) \<le> length es"
      using g(1) by (cases "sb_category s = ''chnroute''") (simp_all add: chnroute_floor_def domain_floor_def Suc_le_eq)
    moreover have "\<forall>old. cached_rule_lines (d path) = Inr old \<longrightarrow> 20 \<le> length old \<longrightarrow> length old \<le> 5 * length es"
      using g(2) by (auto simp: validate_subscription_shrink_def shrink_guard_minimum_existing_def
          shrink_guard_minimum_retained_pct_def split: if_splits)
    ultimately show ?thesis using r Inr g(4) by blast
  qed
qed

definition ex_sub :: "string \<Rightarrow> string \<Rightarrow> subscription" where
  "ex_sub i cat = \<lparr>sb_id = i, sb_category = cat, sb_name = i, sb_url = ''https://lists.example/x'',
     sb_format = (if cat = ''chnroute'' then ''cidr'' else ''plain''), sb_enabled = True, sb_interval = 60\<rparr>"

definition ex_list_outcome :: http_outcome where
  "ex_list_outcome = Response 200 (Some ''text/plain'') (Some ''A.example'')"

definition ex_disk0 :: "content disk" where
  "ex_disk0 = (\<lambda>p. Absent)"

lemma ex_fetch: "fetch_and_parse ref_lib ex_list_outcome (ex_sub ''ads'' ''block'') = Inr [''a.example'']"
  by code_simp

lemma ex_path: "cache_path ''/r'' (ex_sub ''ads'' ''block'') = ''/r/block/ads.txt''"
  by code_simp

lemma ex_category: "sb_category (ex_sub i c) = c"
  by (simp add: ex_sub_def)

lemma ex_refresh:
  "do_fetch_and_cache ref_lib ''/r'' ex_list_outcome True (Some True) (ex_sub ''ads'' ''block'') ex_disk0 =
     (ok_update (ex_sub ''ads'' ''block'') [''a.example''],
      ex_disk0(''/r/block/ads.txt'' := Stored (Text (lines_text [''a.example''])) temp_mode), True)"
  using ex_fetch ex_path ex_category
  by (simp add: do_fetch_and_cache_def ex_disk0_def validate_subscription_shrink_def cached_rule_lines_def
      lines_unchanged_on_disk_def disk_write_def Let_def domain_floor_def chnroute_floor_def)

lemma cache_replaced_only_by_plausible_list_witness:
  "ex_disk0 ''/r/block/ads.txt'' = Absent \<and> (\<exists>b. ex_list_outcome = Response 200 (Some ''text/plain'') (Some b))"
  using cache_replaced_only_by_plausible_list [OF ex_refresh] by (auto simp: ex_disk0_def ex_list_outcome_def)

text \<open>A steady source is silent. Once a refresh has written a list, a refresh that receives the
  same response finds its own file unchanged: it reports success with the same number of entries,
  writes nothing and does not call reload, whatever the outcome of a write or a reload would be.\<close>

theorem steady_refresh_is_silent:
  assumes "do_fetch_and_cache L rd resp wrote reload s d = (res, d1, reloaded)" "d1 \<noteq> d"
  shows "\<exists>es. fetch_and_parse L resp s = Inr es \<and>
    do_fetch_and_cache L rd resp wrote' reload' s d1 = (ok_update s es, d1, False)"
proof -
  obtain es where es: "fetch_and_parse L resp s = Inr es" "\<not> length es < (if sb_category s = ''chnroute'' then chnroute_floor else domain_floor)"
    "d1 = d(cache_path rd s := Stored (Text (lines_text es)) temp_mode)"
    using assms
    by (auto simp: do_fetch_and_cache_def Let_def disk_write_def split: sum.splits if_splits option.splits bool.splits)
  have nl: "\<forall>e\<in>set es. newline \<notin> set e" using fetched_no_newline [OF es(1)] by blast
  have "do_fetch_and_cache L rd resp wrote' reload' s d1 = (ok_update s es, d1, False)"
    using es(1,2) shrink_same_list [OF nl, of temp_mode]
    by (simp add: do_fetch_and_cache_def Let_def es(3) lines_unchanged_iff)
  with es(1) show ?thesis by blast
qed

lemma steady_refresh_is_silent_witness:
  "do_fetch_and_cache ref_lib ''/r'' ex_list_outcome False (Some False) (ex_sub ''ads'' ''block'')
     (ex_disk0(''/r/block/ads.txt'' := Stored (Text (lines_text [''a.example''])) temp_mode)) =
   (ok_update (ex_sub ''ads'' ''block'') [''a.example''],
    ex_disk0(''/r/block/ads.txt'' := Stored (Text (lines_text [''a.example''])) temp_mode), False)"
proof -
  have "ex_disk0(''/r/block/ads.txt'' := Stored (Text (lines_text [''a.example''])) temp_mode) \<noteq> ex_disk0"
    by (auto simp: ex_disk0_def dest!: fun_cong [of _ _ "''/r/block/ads.txt''"])
  from steady_refresh_is_silent [OF ex_refresh this, of False "Some False"] ex_fetch show ?thesis by auto
qed

section \<open>Cache paths\<close>

lemma validate_name_plain:
  assumes "validate_subscription_name name = None"
  shows "plain_part (name @ ''.txt'')"
proof -
  have n: "slash \<notin> set name" "name \<noteq> []"
    using assms by (auto simp: validate_subscription_name_def split: if_splits)
  have "name @ ''.txt'' \<noteq> ''.''" "name @ ''.txt'' \<noteq> ''..''" by (auto dest!: arg_cong [of _ _ length])
  then show ?thesis using n by (auto simp: plain_part_def slash_def)
qed

lemma validate_subscription_parts:
  assumes "validate_subscription s = None"
  shows "plain_part (sb_category s)" "plain_part (sb_name s @ ''.txt'')" "sb_category s \<in> set valid_categories"
proof -
  have c: "sb_category s \<in> set valid_categories" "validate_subscription_name (sb_name s) = None"
    using assms by (auto simp: validate_subscription_def split: if_splits option.splits)
  show "sb_category s \<in> set valid_categories" by (rule c(1))
  show "plain_part (sb_name s @ ''.txt'')" by (rule validate_name_plain [OF c(2)])
  show "plain_part (sb_category s)" using c(1) by (auto simp: valid_categories_def plain_part_def slash_def)
qed

lemma cache_path_eq:
  "validate_subscription s = None \<Longrightarrow>
     cache_path rd s = join_root rd @ sb_category s @ slash # sb_name s @ ''.txt''"
  using path_join_plain [of "sb_category s" "sb_name s @ ''.txt''" rd] validate_subscription_parts [of s]
  by (simp add: cache_path_def)

text \<open>The cache files of valid subscriptions are confined and never shared. The path of a
  subscription that passed validation is a fixed prefix, which depends on the rules directory alone,
  followed by its category and its name as single components, so no name leaves the directory; and
  two valid subscriptions with the same path have the same category and name.\<close>

theorem cache_paths_confined_and_injective:
  assumes "validate_subscription s = None" "validate_subscription s' = None"
  shows "cache_path rd s = join_root rd @ sb_category s @ ''/'' @ sb_name s @ ''.txt'' \<and>
    CHR ''/'' \<notin> set (sb_category s @ sb_name s) \<and>
    (cache_path rd s = cache_path rd s' \<longleftrightarrow> sb_category s = sb_category s' \<and> sb_name s = sb_name s')"
proof -
  note p = validate_subscription_parts [OF assms(1)] validate_subscription_parts [OF assms(2)]
  have "cache_path rd s = cache_path rd s' \<Longrightarrow> sb_category s = sb_category s' \<and> sb_name s = sb_name s'"
    using path_join_inj [OF p(1,2) p(4,5), of rd] by (simp add: cache_path_def)
  moreover have "CHR ''/'' \<notin> set (sb_category s @ sb_name s)" using p(1,2) by (auto simp: plain_part_def slash_def)
  ultimately show ?thesis using cache_path_eq [OF assms(1), of rd] by (auto simp: slash_def cache_path_def)
qed

lemma cache_paths_confined_and_injective_witness:
  "cache_path ''/etc/rules/'' (ex_sub ''ads'' ''block'') = ''/etc/rules/block/ads.txt'' \<and>
   cache_path ''/etc/rules/'' (ex_sub ''ads'' ''block'') \<noteq> cache_path ''/etc/rules/'' (ex_sub ''ads'' ''proxy'')"
proof -
  have v: "validate_subscription (ex_sub ''ads'' ''block'') = None" "validate_subscription (ex_sub ''ads'' ''proxy'') = None"
    by code_simp+
  have "cache_path ''/etc/rules/'' (ex_sub ''ads'' ''block'') \<noteq> cache_path ''/etc/rules/'' (ex_sub ''ads'' ''proxy'')"
    using cache_paths_confined_and_injective [OF v, THEN conjunct2, THEN conjunct2, of "''/etc/rules/''"]
    by (simp add: ex_category)
  moreover have "cache_path ''/etc/rules/'' (ex_sub ''ads'' ''block'') = ''/etc/rules/block/ads.txt''" by code_simp
  ultimately show ?thesis by simp
qed

end
