(* ===== verification/Sub_Generation.thy ===== *)
theory Sub_Generation
  imports Subscriptions
begin

text \<open>
  The subscription manager of \<open>subscription.go\<close>: its record, the ticker bookkeeping, and the
  two-phase generation (\<open>PreparePolicyGeneration\<close>, \<open>CommitFiles\<close>, \<open>Rollback\<close>, \<open>Publish\<close>). A prepared
  generation holds the two mutexes until it is released.
\<close>

section \<open>State\<close>

datatype run_context = NotRunning | Running | RunDone

record ticker_worker =
  wk_sub :: subscription
  wk_cancelled :: bool
  wk_pending :: "subscription option"

record sub_manager =
  sm_path :: string
  sm_rules_dir :: string
  sm_subs :: "subscription list"
  sm_health :: "(string, sub_health) go_map"
  sm_run :: run_context
  sm_cancels :: "(string, nat) go_map"
  sm_workers :: "ticker_worker list"

definition new_sub_manager :: "string \<Rightarrow> string \<Rightarrow> content disk \<Rightarrow> sub_error + sub_manager" where
  "new_sub_manager path rules_dir d = (case load_subscriptions (d path) of
     Inl e \<Rightarrow> Inl e
   | Inr subs \<Rightarrow> Inr \<lparr>sm_path = path, sm_rules_dir = rules_dir, sm_subs = subs, sm_health = [],
       sm_run = NotRunning, sm_cancels = [], sm_workers = []\<rparr>)"

definition find_sub :: "string \<Rightarrow> sub_manager \<Rightarrow> subscription option" where
  "find_sub i m = List.find (\<lambda>s. sb_id s = i) (sm_subs m)"

definition record_health :: "go_time \<Rightarrow> update_result \<Rightarrow> sub_manager \<Rightarrow> sub_manager" where
  "record_health now res m = m\<lparr>sm_health := AList.update (ur_id res)
     \<lparr>sh_at = now, sh_ok = ur_ok res, sh_entries = ur_entries res, sh_err = ur_err res\<rparr> (sm_health m)\<rparr>"

definition cancel_worker :: "nat \<Rightarrow> sub_manager \<Rightarrow> sub_manager" where
  "cancel_worker k m = m\<lparr>sm_workers := (sm_workers m)[k := (sm_workers m ! k)\<lparr>wk_cancelled := True\<rparr>]\<rparr>"

definition stop_ticker_locked :: "string \<Rightarrow> sub_manager \<Rightarrow> sub_manager" where
  "stop_ticker_locked i m = (case map_of (sm_cancels m) i of
     None \<Rightarrow> m
   | Some k \<Rightarrow> (cancel_worker k m)\<lparr>sm_cancels := AList.delete i (sm_cancels m)\<rparr>)"

definition start_ticker_locked :: "subscription \<Rightarrow> sub_manager \<Rightarrow> sub_manager" where
  "start_ticker_locked s m =
     (if sm_run m \<noteq> Running then m
      else if \<not> sb_enabled s \<or> sb_interval s \<le> 0 then m
      else if find_sub (sb_id s) m = None then m
      else
        let m1 = stop_ticker_locked (sb_id s) m in
        m1\<lparr>sm_cancels := AList.update (sb_id s) (length (sm_workers m1)) (sm_cancels m1),
           sm_workers := sm_workers m1 @ [\<lparr>wk_sub = s, wk_cancelled = False, wk_pending = None\<rparr>]\<rparr>)"

text \<open>\<open>Run\<close> up to its wait, and what it does once its context is done.\<close>

definition run_start :: "sub_manager \<Rightarrow> sub_manager" where
  "run_start m = fold start_ticker_locked (sm_subs m) (m\<lparr>sm_run := Running\<rparr>)"

definition run_stop :: "sub_manager \<Rightarrow> sub_manager" where
  "run_stop m = fold (\<lambda>(i, k) m. (cancel_worker k m)\<lparr>sm_cancels := AList.delete i (sm_cancels m)\<rparr>)
     (sm_cancels m) (m\<lparr>sm_run := NotRunning\<rparr>)"

text \<open>\<open>fetchAndCache\<close> under the transaction mutex, and \<open>updateOne\<close>, which looks its subscription up first.\<close>

definition fetch_and_cache ::
    "dns_lib \<Rightarrow> http_outcome \<Rightarrow> bool \<Rightarrow> bool option \<Rightarrow> go_time \<Rightarrow> subscription \<Rightarrow> sub_manager \<Rightarrow> content disk \<Rightarrow>
       update_result \<times> sub_manager \<times> content disk \<times> bool" where
  "fetch_and_cache L resp wrote reload now s m d =
     (let (res, d1, reloaded) = do_fetch_and_cache L (sm_rules_dir m) resp wrote reload s d
      in (res, record_health now res m, d1, reloaded))"

definition update_one ::
    "dns_lib \<Rightarrow> http_outcome \<Rightarrow> bool \<Rightarrow> bool option \<Rightarrow> go_time \<Rightarrow> string \<Rightarrow> sub_manager \<Rightarrow> content disk \<Rightarrow>
       update_result \<times> sub_manager \<times> content disk \<times> bool" where
  "update_one L resp wrote reload now i m d = (case find_sub i m of
     None \<Rightarrow> (\<lparr>ur_id = i, ur_ok = False, ur_entries = 0, ur_err = Some SubNotFound\<rparr>, m, d, False)
   | Some s \<Rightarrow> fetch_and_cache L resp wrote reload now s m d)"

section \<open>Preparing a generation\<close>

record file_backup =
  bk_path :: string
  bk_data :: content
  bk_mode :: nat
  bk_exists :: bool

record prepared =
  pg_final :: "subscription list"
  pg_writes :: "(string, string list) go_map"
  pg_removes :: "string list"
  pg_results :: "update_result list"
  pg_backups :: "file_backup list"
  pg_committed :: bool
  pg_released :: bool

definition read_subscription_backup :: "string \<Rightarrow> content disk_entry \<Rightarrow> file_backup option" where
  "read_subscription_backup path e = (case e of
     Absent \<Rightarrow> Some \<lparr>bk_path = path, bk_data = Text [], bk_mode = 420, bk_exists = False\<rparr>
   | Unreadable \<Rightarrow> None
   | Stored c mode \<Rightarrow> Some \<lparr>bk_path = path, bk_data = c, bk_mode = mode, bk_exists = True\<rparr>)"

fun validate_desired :: "string list \<Rightarrow> subscription list \<Rightarrow> sub_error option" where
  "validate_desired seen [] = None"
| "validate_desired seen (s # ss) =
     (case validate_subscription s of
        Some e \<Rightarrow> Some e
      | None \<Rightarrow>
          if \<not> policy_owned_category (sb_category s) then Some SubNotPolicyOwned
          else if sb_id s \<in> set seen then Some SubDuplicateId
          else validate_desired (sb_id s # seen) ss)"

text \<open>The list of one desired subscription: what was fetched, if it passes the guards.\<close>

definition staged_entries ::
    "dns_lib \<Rightarrow> http_outcome \<Rightarrow> content disk_entry \<Rightarrow> subscription \<Rightarrow> sub_error + string list" where
  "staged_entries L resp e s = (case fetch_and_parse L resp s of
     Inl err \<Rightarrow> Inl err
   | Inr entries \<Rightarrow>
      (if length entries < domain_floor then Inl (BelowFloor (length entries) domain_floor)
       else case validate_subscription_shrink e (length entries) of
         Some err \<Rightarrow> Inl err
       | None \<Rightarrow> Inr entries))"

text \<open>
  \<open>oldByID\<close> keeps the last of the current subscriptions with an id. A failed fetch keeps the cache at
  the target; if there is none and only the place of the list moved, the old cache is staged.
\<close>

definition old_by_id :: "subscription list \<Rightarrow> string \<Rightarrow> subscription option" where
  "old_by_id current i = List.find (\<lambda>s. sb_id s = i) (rev current)"

definition carried_entries ::
    "string \<Rightarrow> subscription list \<Rightarrow> content disk \<Rightarrow> subscription \<Rightarrow> string list option" where
  "carried_entries rules_dir current d s =
     (let target = cache_path rules_dir s in
      if d target \<noteq> Absent then None
      else case old_by_id current (sb_id s) of
        None \<Rightarrow> None
      | Some old \<Rightarrow>
         (if sb_url old = sb_url s \<and> sb_format old = sb_format s \<and> cache_path rules_dir old \<noteq> target
          then (case cached_rule_lines (d (cache_path rules_dir old)) of Inl e \<Rightarrow> None | Inr ls \<Rightarrow> Some ls)
          else None))"

fun prepare_loop ::
    "dns_lib \<Rightarrow> (subscription \<Rightarrow> http_outcome) \<Rightarrow> (subscription \<Rightarrow> bool) \<Rightarrow> string \<Rightarrow> subscription list \<Rightarrow>
     content disk \<Rightarrow> subscription list \<Rightarrow> (string, string list) go_map \<Rightarrow> update_result list \<Rightarrow>
       sub_error + (string, string list) go_map \<times> update_result list" where
  "prepare_loop L fetch ctx_done rules_dir current d [] writes results = Inr (writes, results)"
| "prepare_loop L fetch ctx_done rules_dir current d (s # ss) writes results =
     (if isl (fetch_and_parse L (fetch s) s) \<and> ctx_done s then Inl ContextDone
      else let target = cache_path rules_dir s in
        case staged_entries L (fetch s) (d target) s of
          Inr entries \<Rightarrow>
            prepare_loop L fetch ctx_done rules_dir current d ss (AList.update target entries writes)
              (results @ [ok_update s entries])
        | Inl e \<Rightarrow>
            prepare_loop L fetch ctx_done rules_dir current d ss
              (case carried_entries rules_dir current d s of
                 None \<Rightarrow> writes | Some ls \<Rightarrow> AList.update target ls writes)
              (results @ [failed_update s e]))"

definition stale_paths :: "string \<Rightarrow> subscription list \<Rightarrow> subscription list \<Rightarrow> string list" where
  "stale_paths rules_dir current desired =
     remdups (filter (\<lambda>p. p \<notin> set (map (cache_path rules_dir) desired))
       (map (cache_path rules_dir) (filter (\<lambda>s. policy_owned_category (sb_category s)) current)))"

fun read_backups :: "content disk \<Rightarrow> string list \<Rightarrow> file_backup list option" where
  "read_backups d [] = Some []"
| "read_backups d (p # ps) = (case read_subscription_backup p (d p) of
     None \<Rightarrow> None | Some b \<Rightarrow> map_option ((#) b) (read_backups d ps))"

text \<open>\<open>order\<close> is the iteration order of the map of paths.\<close>

definition prepare_policy_generation ::
    "dns_lib \<Rightarrow> (subscription \<Rightarrow> http_outcome) \<Rightarrow> (subscription \<Rightarrow> bool) \<Rightarrow> (string list \<Rightarrow> string list) \<Rightarrow>
     subscription list \<Rightarrow> sub_manager \<Rightarrow> content disk \<Rightarrow> sub_error + prepared" where
  "prepare_policy_generation L fetch ctx_done order desired m d =
     (let current = sm_subs m;
          final = filter (\<lambda>s. \<not> policy_owned_category (sb_category s)) current @ desired
      in case validate_desired [] desired of
        Some e \<Rightarrow> Inl e
      | None \<Rightarrow>
         (if \<not> validate_unique_subscription_cache_paths desired then Inl SubDuplicatePath
          else if \<not> validate_unique_subscription_cache_paths final then Inl SubDuplicatePath
          else case prepare_loop L fetch ctx_done (sm_rules_dir m) current d desired [] [] of
            Inl e \<Rightarrow> Inl e
          | Inr (writes, results) \<Rightarrow>
              let removes = stale_paths (sm_rules_dir m) current desired;
                  paths = order (remdups (sm_path m # map fst writes @ removes))
              in case read_backups d paths of
                None \<Rightarrow> Inl BackupError
              | Some bs \<Rightarrow> Inr \<lparr>pg_final = final, pg_writes = writes, pg_removes = removes,
                  pg_results = results, pg_backups = bs, pg_committed = False, pg_released = False\<rparr>))"

section \<open>Committing, rolling back, publishing\<close>

text \<open>Which writes and removals succeed.\<close>

record disk_faults =
  df_write :: "string \<Rightarrow> bool"
  df_remove :: "string \<Rightarrow> bool"

fun commit_writes :: "disk_faults \<Rightarrow> (string \<times> string list) list \<Rightarrow> content disk \<Rightarrow> sub_error option \<times> content disk" where
  "commit_writes io [] d = (None, d)"
| "commit_writes io ((p, es) # ws) d =
     (if df_write io p then commit_writes io ws (disk_write True p (Text (lines_text es)) temp_mode d)
      else (Some WriteError, d))"

text \<open>\<open>os.Remove\<close> whose \<open>ErrNotExist\<close> is ignored.\<close>

definition remove_existing :: "disk_faults \<Rightarrow> string \<Rightarrow> content disk \<Rightarrow> bool \<times> content disk" where
  "remove_existing io p d =
     (if d p = Absent then (True, d) else (df_remove io p, disk_remove (df_remove io p) p d))"

fun commit_removes :: "disk_faults \<Rightarrow> string list \<Rightarrow> content disk \<Rightarrow> sub_error option \<times> content disk" where
  "commit_removes io [] d = (None, d)"
| "commit_removes io (p # ps) d =
     (case remove_existing io p d of
        (True, d1) \<Rightarrow> commit_removes io ps d1
      | (False, d1) \<Rightarrow> (Some RemoveError, d1))"

text \<open>\<open>ws\<close> and \<open>rs\<close> enumerate the maps of writes and removals in the iteration order of the run.\<close>

definition commit_files ::
    "disk_faults \<Rightarrow> (string \<times> string list) list \<Rightarrow> string list \<Rightarrow> string \<Rightarrow> prepared \<Rightarrow> content disk \<Rightarrow>
       sub_error option \<times> content disk \<times> prepared" where
  "commit_files io ws rs subs_path p d =
     (if pg_released p then (Some PreparedClosed, d, p)
      else let p1 = p\<lparr>pg_committed := True\<rparr> in
        case commit_writes io ws d of
          (Some e, d1) \<Rightarrow> (Some e, d1, p1)
        | (None, d1) \<Rightarrow>
           (case commit_removes io rs d1 of
              (Some e, d2) \<Rightarrow> (Some e, d2, p1)
            | (None, d2) \<Rightarrow>
               (if df_write io subs_path
                then (None, disk_write True subs_path (SubsDoc subs_schema_version (pg_final p)) 420 d2, p1)
                else (Some WriteError, d2, p1))))"

definition restore_file :: "disk_faults \<Rightarrow> file_backup \<Rightarrow> bool \<times> content disk \<Rightarrow> bool \<times> content disk" where
  "restore_file io b r =
     (if \<not> bk_exists b then
        (let (ok, d) = remove_existing io (bk_path b) (snd r) in (fst r \<and> ok, d))
      else (fst r \<and> df_write io (bk_path b),
            disk_write (df_write io (bk_path b)) (bk_path b) (bk_data b) (bk_mode b) (snd r)))"

text \<open>Every backup is tried; the result says whether all of them succeeded.\<close>

definition restore_files :: "disk_faults \<Rightarrow> file_backup list \<Rightarrow> content disk \<Rightarrow> bool \<times> content disk" where
  "restore_files io bs d = fold (restore_file io) bs (True, d)"

definition rollback :: "disk_faults \<Rightarrow> prepared \<Rightarrow> content disk \<Rightarrow> bool \<times> content disk \<times> prepared" where
  "rollback io p d =
     (if pg_released p then (True, d, p)
      else let (ok, d1) = (if pg_committed p then restore_files io (pg_backups p) d else (True, d))
           in (ok, d1, p\<lparr>pg_released := True\<rparr>))"

definition drop_policy_tickers :: "sub_manager \<Rightarrow> sub_manager" where
  "drop_policy_tickers m = fold (\<lambda>s m.
       if policy_owned_category (sb_category s)
       then (stop_ticker_locked (sb_id s) m)\<lparr>sm_health := AList.delete (sb_id s) (sm_health m)\<rparr> else m)
     (sm_subs m) m"

definition publish :: "go_time \<Rightarrow> prepared \<Rightarrow> sub_manager \<Rightarrow> sub_manager \<times> prepared" where
  "publish now p m =
     (if pg_released p then (m, p)
      else
        let m1 = (drop_policy_tickers m)\<lparr>sm_subs := pg_final p\<rparr>;
            m2 = fold (record_health now) (pg_results p) m1;
            m3 = fold (\<lambda>s m. if policy_owned_category (sb_category s) then start_ticker_locked s m else m)
                   (sm_subs m2) m2
        in (m3, p\<lparr>pg_released := True\<rparr>))"

section \<open>An aborted generation leaves the disk as it was\<close>

definition backup_of :: "file_backup \<Rightarrow> content disk_entry \<Rightarrow> bool" where
  "backup_of b e \<longleftrightarrow> e = (if bk_exists b then Stored (bk_data b) (bk_mode b) else Absent)"

lemma read_backup_of: "read_subscription_backup p e = Some b \<Longrightarrow> backup_of b e \<and> bk_path b = p"
  by (auto simp: read_subscription_backup_def backup_of_def split: disk_entry.splits)

lemma read_backups_spec:
  "read_backups d ps = Some bs \<Longrightarrow> map bk_path bs = ps \<and> (\<forall>b\<in>set bs. backup_of b (d (bk_path b)))"
  by (induction d ps arbitrary: bs rule: read_backups.induct) (auto dest: read_backup_of split: option.splits)

definition disk_agree :: "string set \<Rightarrow> 'c disk \<Rightarrow> 'c disk \<Rightarrow> bool" where
  "disk_agree ps d d' \<longleftrightarrow> (\<forall>p. p \<notin> ps \<longrightarrow> d' p = d p)"

lemma disk_agree_refl [simp]: "disk_agree ps d d"
  by (simp add: disk_agree_def)

lemma disk_agree_mono: "disk_agree ps d d' \<Longrightarrow> ps \<subseteq> qs \<Longrightarrow> disk_agree qs d d'"
  by (auto simp: disk_agree_def)

lemma disk_agree_trans: "disk_agree ps d d' \<Longrightarrow> disk_agree ps d' d'' \<Longrightarrow> disk_agree ps d d''"
  by (simp add: disk_agree_def)

lemma disk_write_agree: "p \<in> ps \<Longrightarrow> disk_agree ps d (disk_write ok p c m d)"
  by (auto simp: disk_agree_def disk_write_def)

lemma remove_existing_agree: "p \<in> ps \<Longrightarrow> disk_agree ps d (snd (remove_existing io p d))"
  by (auto simp: disk_agree_def remove_existing_def disk_remove_def)

lemma commit_writes_agree: "set (map fst ws) \<subseteq> ps \<Longrightarrow> disk_agree ps d (snd (commit_writes io ws d))"
proof (induction ws arbitrary: d)
  case (Cons w ws)
  obtain p es where w: "w = (p, es)" by (cases w)
  show ?case using Cons w by (auto intro: disk_agree_trans [OF disk_write_agree])
qed simp

lemma commit_removes_agree: "set rs \<subseteq> ps \<Longrightarrow> disk_agree ps d (snd (commit_removes io rs d))"
proof (induction rs arbitrary: d)
  case (Cons r rs)
  obtain ok d1 where r: "remove_existing io r d = (ok, d1)" by (cases "remove_existing io r d")
  have "disk_agree ps d d1" using remove_existing_agree [of r ps d io] Cons.prems r by simp
  then show ?case using Cons.IH [of d1] Cons.prems r by (cases ok) (auto intro: disk_agree_trans)
qed simp

lemma commit_files_agree:
  assumes "commit_files io ws rs path p d = (e, d1, p1)"
  shows "disk_agree (insert path (set (map fst ws) \<union> set rs)) d d1"
    "\<not> pg_released p \<Longrightarrow> p1 = p\<lparr>pg_committed := True\<rparr>"
proof -
  let ?S = "insert path (set (map fst ws) \<union> set rs)"
  obtain e1 d2 where w: "commit_writes io ws d = (e1, d2)" by (cases "commit_writes io ws d")
  obtain e2 d3 where r: "commit_removes io rs d2 = (e2, d3)" by (cases "commit_removes io rs d2")
  have a: "disk_agree ?S d d2" using commit_writes_agree [of ws ?S d io] w by auto
  have "disk_agree ?S d2 d3" using commit_removes_agree [of rs ?S d2 io] r by auto
  then have b: "disk_agree ?S d d3" by (rule disk_agree_trans [OF a])
  have "disk_agree ?S d (disk_write True path c md d3)" for c md
    by (rule disk_agree_trans [OF b disk_write_agree]) simp
  then show "disk_agree ?S d d1"
    using assms a b w r by (auto simp: commit_files_def Let_def split: if_splits option.splits)
  show "p1 = p\<lparr>pg_committed := True\<rparr>" if "\<not> pg_released p"
    using assms that by (auto simp: commit_files_def Let_def split: if_splits option.splits prod.splits)
qed

definition no_faults :: "disk_faults \<Rightarrow> bool" where
  "no_faults io \<longleftrightarrow> df_write io = (\<lambda>p. True) \<and> df_remove io = (\<lambda>p. True)"

lemma restore_file_spec:
  assumes "no_faults io" "backup_of b (d0 (bk_path b))"
  shows "restore_file io b (ok, d) = (ok, d(bk_path b := d0 (bk_path b)))"
  using assms by (auto simp: restore_file_def no_faults_def remove_existing_def disk_remove_def disk_write_def
      backup_of_def fun_eq_iff)

lemma restore_files_spec:
  assumes "no_faults io" "\<forall>b\<in>set bs. backup_of b (d0 (bk_path b))" "disk_agree (set (map bk_path bs)) d0 d"
  shows "restore_files io bs d = (True, d0)"
proof -
  have "\<exists>d'. fold (restore_file io) bs (True, d) = (True, d') \<and>
      (\<forall>p. d' p = (if p \<in> set (map bk_path bs) then d0 p else d p))" for d
    using assms(2)
  proof (induction bs arbitrary: d)
    case (Cons b bs)
    let ?d = "d(bk_path b := d0 (bk_path b))"
    have r: "restore_file io b (True, d) = (True, ?d)"
      by (rule restore_file_spec [OF assms(1)]) (use Cons.prems in simp)
    have pre: "\<forall>b\<in>set bs. backup_of b (d0 (bk_path b))" using Cons.prems by simp
    obtain d' where d': "fold (restore_file io) bs (True, ?d) = (True, d')"
      "\<forall>p. d' p = (if p \<in> set (map bk_path bs) then d0 p else ?d p)" using Cons.IH [of ?d] pre by blast
    have "d' p = (if p \<in> set (map bk_path (b # bs)) then d0 p else d p)" for p using d'(2) by auto
    moreover have "fold (restore_file io) (b # bs) (True, d) = (True, d')" using d'(1) r by simp
    ultimately show ?case by blast
  qed simp
  then obtain d' where "fold (restore_file io) bs (True, d) = (True, d')"
    "\<forall>p. d' p = (if p \<in> set (map bk_path bs) then d0 p else d p)" by blast
  then show ?thesis using assms(3) by (auto simp: restore_files_def disk_agree_def fun_eq_iff)
qed

lemma prepare_unfold:
  assumes "prepare_policy_generation L fetch ctx_done order desired m d = Inr p"
  obtains ws rs bs where
    "validate_desired [] desired = None"
    "prepare_loop L fetch ctx_done (sm_rules_dir m) (sm_subs m) d desired [] [] = Inr (ws, rs)"
    "read_backups d (order (remdups (sm_path m # map fst ws @ stale_paths (sm_rules_dir m) (sm_subs m) desired))) = Some bs"
    "validate_unique_subscription_cache_paths (filter (\<lambda>s. \<not> policy_owned_category (sb_category s)) (sm_subs m) @ desired)"
    "p = \<lparr>pg_final = filter (\<lambda>s. \<not> policy_owned_category (sb_category s)) (sm_subs m) @ desired,
      pg_writes = ws, pg_removes = stale_paths (sm_rules_dir m) (sm_subs m) desired, pg_results = rs,
      pg_backups = bs, pg_committed = False, pg_released = False\<rparr>"
  using assms
  by (auto simp: prepare_policy_generation_def Let_def split: option.splits if_splits sum.splits)

lemma prepare_facts:
  assumes "prepare_policy_generation L fetch ctx_done order desired m d = Inr p" "\<forall>xs. set (order xs) = set xs"
  shows "pg_final p = filter (\<lambda>s. \<not> policy_owned_category (sb_category s)) (sm_subs m) @ desired"
    "validate_desired [] desired = None" "validate_unique_subscription_cache_paths (pg_final p)"
    "\<not> pg_committed p" "\<not> pg_released p"
    "set (map bk_path (pg_backups p)) = insert (sm_path m) (set (map fst (pg_writes p)) \<union> set (pg_removes p))"
    "\<forall>b\<in>set (pg_backups p). backup_of b (d (bk_path b))"
    "prepare_loop L fetch ctx_done (sm_rules_dir m) (sm_subs m) d desired [] [] = Inr (pg_writes p, pg_results p)"
    "pg_removes p = stale_paths (sm_rules_dir m) (sm_subs m) desired"
proof -
  from assms(1) obtain ws rs bs where u: "validate_desired [] desired = None"
    "prepare_loop L fetch ctx_done (sm_rules_dir m) (sm_subs m) d desired [] [] = Inr (ws, rs)"
    "read_backups d (order (remdups (sm_path m # map fst ws @ stale_paths (sm_rules_dir m) (sm_subs m) desired))) = Some bs"
    "validate_unique_subscription_cache_paths (filter (\<lambda>s. \<not> policy_owned_category (sb_category s)) (sm_subs m) @ desired)"
    "p = \<lparr>pg_final = filter (\<lambda>s. \<not> policy_owned_category (sb_category s)) (sm_subs m) @ desired,
      pg_writes = ws, pg_removes = stale_paths (sm_rules_dir m) (sm_subs m) desired, pg_results = rs,
      pg_backups = bs, pg_committed = False, pg_released = False\<rparr>"
    by (rule prepare_unfold)
  note b = read_backups_spec [OF u(3)]
  show "set (map bk_path (pg_backups p)) = insert (sm_path m) (set (map fst (pg_writes p)) \<union> set (pg_removes p))"
    using b assms(2) u(5) by auto
  show "\<forall>b\<in>set (pg_backups p). backup_of b (d (bk_path b))" using b u(5) by simp
  show "pg_final p = filter (\<lambda>s. \<not> policy_owned_category (sb_category s)) (sm_subs m) @ desired"
    "validate_desired [] desired = None" "validate_unique_subscription_cache_paths (pg_final p)"
    "\<not> pg_committed p" "\<not> pg_released p"
    "prepare_loop L fetch ctx_done (sm_rules_dir m) (sm_subs m) d desired [] [] = Inr (pg_writes p, pg_results p)"
    "pg_removes p = stale_paths (sm_rules_dir m) (sm_subs m) desired"
    using u by simp_all
qed

text \<open>An aborted generation leaves no trace on disk. Whatever part of a prepared generation was
  committed before the failure, in whatever order the maps were walked and wherever it failed, a
  rollback whose own file operations succeed restores every path to exactly the entry it had when
  the generation was prepared, content, mode and absence alike, and reports success.\<close>

theorem rollback_restores_disk:
  assumes "prepare_policy_generation L fetch ctx_done order desired m d = Inr p" "\<forall>xs. set (order xs) = set xs"
    "set ws \<subseteq> set (pg_writes p)" "set rs \<subseteq> set (pg_removes p)"
    "commit_files io ws rs (sm_path m) p d = (e, d1, p1)" "no_faults io'"
  shows "rollback io' p1 d1 = (True, d, p1\<lparr>pg_released := True\<rparr>)"
proof -
  note f = prepare_facts [OF assms(1,2)]
  have p1: "p1 = p\<lparr>pg_committed := True\<rparr>" by (rule commit_files_agree(2) [OF assms(5) f(5)])
  have "set (map fst ws) \<subseteq> set (map fst (pg_writes p))" using assms(3) by auto
  then have "insert (sm_path m) (set (map fst ws) \<union> set rs) \<subseteq> set (map bk_path (pg_backups p))"
    using assms(4) unfolding f(6) by blast
  then have "disk_agree (set (map bk_path (pg_backups p))) d d1"
    by (rule disk_agree_mono [OF commit_files_agree(1) [OF assms(5)]])
  from restore_files_spec [OF assms(6) f(7) this] show ?thesis
    using f(5) by (simp add: rollback_def p1)
qed

section \<open>Tickers\<close>

definition cancels_inv :: "sub_manager \<Rightarrow> bool" where
  "cancels_inv m \<longleftrightarrow> (\<forall>i k. map_of (sm_cancels m) i = Some k \<longleftrightarrow>
     k < length (sm_workers m) \<and> \<not> wk_cancelled (sm_workers m ! k) \<and> sb_id (wk_sub (sm_workers m ! k)) = i)"

definition scheduled :: "sub_manager \<Rightarrow> subscription set" where
  "scheduled m = set (map wk_sub (filter (\<lambda>w. \<not> wk_cancelled w) (sm_workers m)))"

definition wants_ticker :: "subscription \<Rightarrow> bool" where
  "wants_ticker s \<longleftrightarrow> sb_enabled s \<and> 0 < sb_interval s"

lemma scheduled_nth:
  "scheduled m = {wk_sub (sm_workers m ! k) |k. k < length (sm_workers m) \<and> \<not> wk_cancelled (sm_workers m ! k)}"
  unfolding scheduled_def set_map set_filter by (auto simp: in_set_conv_nth image_iff)

lemma stop_ticker_fields [simp]:
  "sm_subs (stop_ticker_locked i m) = sm_subs m" "sm_run (stop_ticker_locked i m) = sm_run m"
  "sm_path (stop_ticker_locked i m) = sm_path m" "sm_rules_dir (stop_ticker_locked i m) = sm_rules_dir m"
  by (simp_all add: stop_ticker_locked_def cancel_worker_def split: option.split)

lemma stop_ticker_inv:
  assumes "cancels_inv m"
  shows "cancels_inv (stop_ticker_locked i m)" "scheduled (stop_ticker_locked i m) = {s \<in> scheduled m. sb_id s \<noteq> i}"
    "map_of (sm_cancels (stop_ticker_locked i m)) i = None"
proof -
  show "map_of (sm_cancels (stop_ticker_locked i m)) i = None"
    by (simp add: stop_ticker_locked_def split: option.split)
  have "cancels_inv (stop_ticker_locked i m) \<and> scheduled (stop_ticker_locked i m) = {s \<in> scheduled m. sb_id s \<noteq> i}"
  proof (cases "map_of (sm_cancels m) i")
    case None
    then have "sb_id (wk_sub (sm_workers m ! k)) \<noteq> i"
      if "k < length (sm_workers m)" "\<not> wk_cancelled (sm_workers m ! k)" for k
      using assms that unfolding cancels_inv_def by (metis option.distinct(1))
    then show ?thesis using assms None by (auto simp: stop_ticker_locked_def scheduled_nth)
  next
    case (Some k)
    let ?m = "stop_ticker_locked i m"
    have k: "k < length (sm_workers m)" "\<not> wk_cancelled (sm_workers m ! k)" "sb_id (wk_sub (sm_workers m ! k)) = i"
      using assms Some by (auto simp: cancels_inv_def)
    have only: "j = k" if "j < length (sm_workers m)" "\<not> wk_cancelled (sm_workers m ! j)"
        "sb_id (wk_sub (sm_workers m ! j)) = i" for j
      using assms Some that unfolding cancels_inv_def by (metis option.inject)
    have ws: "sm_workers ?m = (sm_workers m)[k := (sm_workers m ! k)\<lparr>wk_cancelled := True\<rparr>]"
      "map_of (sm_cancels ?m) = (map_of (sm_cancels m))(i := None)"
      using Some by (simp_all add: stop_ticker_locked_def cancel_worker_def)
    have nth: "j < length (sm_workers ?m) \<and> \<not> wk_cancelled (sm_workers ?m ! j) \<longleftrightarrow>
        j < length (sm_workers m) \<and> \<not> wk_cancelled (sm_workers m ! j) \<and> j \<noteq> k"
      and sub: "j \<noteq> k \<Longrightarrow> wk_sub (sm_workers ?m ! j) = wk_sub (sm_workers m ! j)" for j
      using k(1) by (auto simp: ws nth_list_update)
    have "cancels_inv ?m"
      unfolding cancels_inv_def
    proof (intro allI)
      fix i' j
      show "(map_of (sm_cancels ?m) i' = Some j) = (j < length (sm_workers ?m) \<and>
          \<not> wk_cancelled (sm_workers ?m ! j) \<and> sb_id (wk_sub (sm_workers ?m ! j)) = i')"
        using assms nth [of j] sub [of j] only [of j] k unfolding cancels_inv_def ws(2) fun_upd_apply
        by (metis option.distinct(1))
    qed
    moreover have "scheduled ?m = {s \<in> scheduled m. sb_id s \<noteq> i}"
      unfolding scheduled_nth using nth sub only k(3) by (auto; metis)
    ultimately show ?thesis ..
  qed
  then show "cancels_inv (stop_ticker_locked i m)" "scheduled (stop_ticker_locked i m) = {s \<in> scheduled m. sb_id s \<noteq> i}"
    by auto
qed

lemma start_ticker_fields [simp]:
  "sm_subs (start_ticker_locked s m) = sm_subs m" "sm_run (start_ticker_locked s m) = sm_run m"
  by (simp_all add: start_ticker_locked_def Let_def)

lemma start_ticker_inv:
  assumes "cancels_inv m"
  shows "cancels_inv (start_ticker_locked s m) \<and> scheduled (start_ticker_locked s m) =
    (if sm_run m = Running \<and> wants_ticker s \<and> find_sub (sb_id s) m \<noteq> None
     then insert s {s' \<in> scheduled m. sb_id s' \<noteq> sb_id s} else scheduled m)"
proof (cases "sm_run m = Running \<and> wants_ticker s \<and> find_sub (sb_id s) m \<noteq> None")
  case False
  then have "start_ticker_locked s m = m" by (auto simp: start_ticker_locked_def wants_ticker_def)
  with False assms show ?thesis by auto
next
  case True
  let ?m1 = "stop_ticker_locked (sb_id s) m" and ?m = "start_ticker_locked s m"
  note st = stop_ticker_inv [OF assms, of "sb_id s"]
  have ws: "sm_workers ?m = sm_workers ?m1 @ [\<lparr>wk_sub = s, wk_cancelled = False, wk_pending = None\<rparr>]"
    "map_of (sm_cancels ?m) = (map_of (sm_cancels ?m1))(sb_id s \<mapsto> length (sm_workers ?m1))"
    using True by (auto simp: start_ticker_locked_def wants_ticker_def Let_def)
  have "cancels_inv ?m"
    unfolding cancels_inv_def
  proof (intro allI)
    fix i k
    show "(map_of (sm_cancels ?m) i = Some k) = (k < length (sm_workers ?m) \<and>
        \<not> wk_cancelled (sm_workers ?m ! k) \<and> sb_id (wk_sub (sm_workers ?m ! k)) = i)"
    proof (cases "k = length (sm_workers ?m1)")
      case True
      then have "map_of (sm_cancels ?m1) i \<noteq> Some k" using st(1) by (auto simp: cancels_inv_def)
      then show ?thesis using True by (auto simp: ws)
    next
      case False
      have "\<not> (k < length (sm_workers ?m1) \<and> \<not> wk_cancelled (sm_workers ?m1 ! k) \<and>
          sb_id (wk_sub (sm_workers ?m1 ! k)) = sb_id s)"
        using st(1,3) unfolding cancels_inv_def by (metis option.distinct(1))
      moreover have "map_of (sm_cancels ?m1) i = Some k \<longleftrightarrow> k < length (sm_workers ?m1) \<and>
          \<not> wk_cancelled (sm_workers ?m1 ! k) \<and> sb_id (wk_sub (sm_workers ?m1 ! k)) = i"
        using st(1) unfolding cancels_inv_def by blast
      ultimately show ?thesis using False by (auto simp: ws nth_append)
    qed
  qed
  moreover have "scheduled ?m = insert s (scheduled ?m1)"
    by (simp add: scheduled_def ws)
  ultimately show ?thesis using True st(2) by simp
qed

lemma start_all:
  assumes "cancels_inv m" "sm_run m = Running" "set ss \<subseteq> set (sm_subs m)" "distinct (map sb_id ss)"
  shows "cancels_inv (fold start_ticker_locked ss m) \<and> sm_run (fold start_ticker_locked ss m) = Running \<and>
    sm_subs (fold start_ticker_locked ss m) = sm_subs m \<and>
    scheduled (fold start_ticker_locked ss m) =
      {s \<in> set ss. wants_ticker s} \<union> {s' \<in> scheduled m. \<forall>s\<in>set ss. wants_ticker s \<longrightarrow> sb_id s' \<noteq> sb_id s}"
  using assms
proof (induction ss arbitrary: m)
  case (Cons s ss)
  let ?m = "start_ticker_locked s m"
  have f: "find_sub (sb_id s) m \<noteq> None" using Cons.prems(3) by (auto simp: find_sub_def find_None_iff)
  have s: "cancels_inv ?m" "scheduled ?m = (if wants_ticker s then insert s {s' \<in> scheduled m. sb_id s' \<noteq> sb_id s} else scheduled m)"
    using start_ticker_inv [OF Cons.prems(1), of s] Cons.prems(2) f by auto
  have fresh: "sb_id s \<noteq> sb_id s'" if "s' \<in> set ss" for s' using Cons.prems(4) that by auto
  have ih: "cancels_inv (fold start_ticker_locked ss ?m) \<and> sm_run (fold start_ticker_locked ss ?m) = Running \<and>
    sm_subs (fold start_ticker_locked ss ?m) = sm_subs m \<and>
    scheduled (fold start_ticker_locked ss ?m) =
      {s \<in> set ss. wants_ticker s} \<union> {s' \<in> scheduled ?m. \<forall>s\<in>set ss. wants_ticker s \<longrightarrow> sb_id s' \<noteq> sb_id s}"
    using Cons.IH [OF s(1)] Cons.prems by simp
  show ?case
  proof (cases "wants_ticker s")
    case True
    then show ?thesis using ih s(2) fresh by auto
  next
    case False
    then show ?thesis using ih s(2) by auto
  qed
qed simp

lemma health_fields [simp]:
  "sm_subs (record_health t r m) = sm_subs m" "sm_run (record_health t r m) = sm_run m"
  "sm_workers (record_health t r m) = sm_workers m" "sm_cancels (record_health t r m) = sm_cancels m"
  by (simp_all add: record_health_def)

lemma cancels_inv_cong:
  "sm_workers m' = sm_workers m \<Longrightarrow> sm_cancels m' = sm_cancels m \<Longrightarrow> cancels_inv m' = cancels_inv m"
  by (simp add: cancels_inv_def)

lemma scheduled_cong: "sm_workers m' = sm_workers m \<Longrightarrow> scheduled m' = scheduled m"
  by (simp add: scheduled_def)

lemma record_all_fields [simp]:
  "sm_subs (fold (record_health t) rs m) = sm_subs m" "sm_run (fold (record_health t) rs m) = sm_run m"
  "sm_workers (fold (record_health t) rs m) = sm_workers m" "sm_cancels (fold (record_health t) rs m) = sm_cancels m"
  by (induction rs arbitrary: m) simp_all

lemma drop_loop:
  fixes drop
  defines "drop \<equiv> (\<lambda>s m. if policy_owned_category (sb_category s)
     then (stop_ticker_locked (sb_id s) m)\<lparr>sm_health := AList.delete (sb_id s) (sm_health m)\<rparr> else m)"
  assumes "cancels_inv m"
  shows "cancels_inv (fold drop ss m) \<and> sm_run (fold drop ss m) = sm_run m \<and> sm_subs (fold drop ss m) = sm_subs m \<and>
    scheduled (fold drop ss m) =
      {s' \<in> scheduled m. \<forall>s\<in>set ss. policy_owned_category (sb_category s) \<longrightarrow> sb_id s' \<noteq> sb_id s}"
  using assms(2)
proof (induction ss arbitrary: m)
  case (Cons s ss)
  let ?h = "(stop_ticker_locked (sb_id s) m)\<lparr>sm_health := AList.delete (sb_id s) (sm_health m)\<rparr>"
  show ?case
  proof (cases "policy_owned_category (sb_category s)")
    case True
    have "cancels_inv ?h" "scheduled ?h = {s' \<in> scheduled m. sb_id s' \<noteq> sb_id s}"
      using stop_ticker_inv [OF Cons.prems, of "sb_id s"]
      by (simp_all add: cancels_inv_cong [of ?h "stop_ticker_locked (sb_id s) m"]
          scheduled_cong [of ?h "stop_ticker_locked (sb_id s) m"])
    then show ?thesis using Cons.IH [of ?h] True by (auto simp: drop_def)
  next
    case False
    then show ?thesis using Cons.IH [OF Cons.prems] by (auto simp: drop_def)
  qed
qed simp

lemma start_fold_subs: "sm_subs (fold start_ticker_locked ss m) = sm_subs m"
  by (induction ss arbitrary: m) simp_all

lemma fold_filter: "fold (\<lambda>x m. if P x then f x m else m) xs m = fold f (filter P xs) m"
  by (induction xs arbitrary: m) auto

text \<open>One worker per subscription that wants one while \<open>Run\<close> is active, none otherwise.\<close>

definition schedule_ok :: "sub_manager \<Rightarrow> bool" where
  "schedule_ok m \<longleftrightarrow> cancels_inv m \<and> distinct (map sb_id (sm_subs m)) \<and>
     (sm_run m = Running \<longrightarrow> scheduled m = {s \<in> set (sm_subs m). wants_ticker s}) \<and>
     (sm_run m = NotRunning \<longrightarrow> scheduled m = {})"

lemma cancels_inv_distinct:
  assumes "cancels_inv m"
  shows "distinct (map sb_id (map wk_sub (filter (\<lambda>w. \<not> wk_cancelled w) (sm_workers m))))"
proof -
  have "distinct (map sb_id (map wk_sub (filter (\<lambda>w. \<not> wk_cancelled w) ws)))"
    if "\<And>j k. j < length ws \<Longrightarrow> k < length ws \<Longrightarrow> \<not> wk_cancelled (ws ! j) \<Longrightarrow> \<not> wk_cancelled (ws ! k) \<Longrightarrow>
        sb_id (wk_sub (ws ! j)) = sb_id (wk_sub (ws ! k)) \<Longrightarrow> j = k" for ws
    using that
  proof (induction ws)
    case (Cons w ws)
    have ih: "distinct (map sb_id (map wk_sub (filter (\<lambda>w. \<not> wk_cancelled w) ws)))"
    proof (rule Cons.IH)
      fix j k
      assume "j < length ws" "k < length ws" "\<not> wk_cancelled (ws ! j)" "\<not> wk_cancelled (ws ! k)"
        "sb_id (wk_sub (ws ! j)) = sb_id (wk_sub (ws ! k))"
      then show "j = k" using Cons.prems [of "Suc j" "Suc k"] by simp
    qed
    have "\<not> wk_cancelled w \<Longrightarrow> w' \<in> set ws \<Longrightarrow> \<not> wk_cancelled w' \<Longrightarrow> sb_id (wk_sub w') \<noteq> sb_id (wk_sub w)" for w'
      using Cons.prems [of 0 "Suc k" for k] by (simp add: in_set_conv_nth) metis
    then show ?case using ih by (auto; metis)
  qed simp
  moreover have "j = k" if "j < length (sm_workers m)" "k < length (sm_workers m)"
    "\<not> wk_cancelled (sm_workers m ! j)" "\<not> wk_cancelled (sm_workers m ! k)"
    "sb_id (wk_sub (sm_workers m ! j)) = sb_id (wk_sub (sm_workers m ! k))" for j k
    using assms that unfolding cancels_inv_def by (metis option.inject)
  ultimately show ?thesis by blast
qed

lemma run_start_schedules:
  assumes "schedule_ok m" "sm_run m = NotRunning"
  shows "schedule_ok (run_start m) \<and> sm_run (run_start m) = Running"
proof -
  let ?m = "m\<lparr>sm_run := Running\<rparr>"
  have "cancels_inv ?m" "scheduled ?m = {}" "distinct (map sb_id (sm_subs ?m))"
    using assms by (simp_all add: schedule_ok_def cancels_inv_def scheduled_def)
  from start_all [OF this(1) _ _ this(3)] this(2,3) show ?thesis
    by (auto simp: schedule_ok_def run_start_def)
qed

lemma publish_subs: "\<not> pg_released p \<Longrightarrow> sm_subs (fst (publish now p m)) = pg_final p"
  by (simp add: publish_def Let_def fold_filter start_fold_subs)

lemma publish_schedules:
  assumes "schedule_ok m" "sm_run m \<noteq> RunDone" "distinct (map sb_id (pg_final p))" "\<not> pg_released p"
    "filter (\<lambda>s. \<not> policy_owned_category (sb_category s)) (pg_final p) =
     filter (\<lambda>s. \<not> policy_owned_category (sb_category s)) (sm_subs m)"
  shows "schedule_ok (fst (publish now p m)) \<and> sm_subs (fst (publish now p m)) = pg_final p \<and>
    sm_run (fst (publish now p m)) = sm_run m"
proof -
  let ?own = "\<lambda>s. policy_owned_category (sb_category s)"
  let ?d = "drop_policy_tickers m"
  let ?h = "fold (record_health now) (pg_results p) (?d\<lparr>sm_subs := pg_final p\<rparr>)"
  have pub: "fst (publish now p m) = fold start_ticker_locked (filter ?own (pg_final p)) ?h"
    using assms(4) by (simp add: publish_def Let_def fold_filter)
  have dr: "cancels_inv ?d" "sm_run ?d = sm_run m"
    "scheduled ?d = {s' \<in> scheduled m. \<forall>s\<in>set (sm_subs m). ?own s \<longrightarrow> sb_id s' \<noteq> sb_id s}"
    using drop_loop [of m "sm_subs m"] assms(1) by (simp_all add: drop_policy_tickers_def schedule_ok_def)
  have h: "cancels_inv ?h" "sm_run ?h = sm_run m" "sm_subs ?h = pg_final p" "scheduled ?h = scheduled ?d"
    using dr(1,2) by (simp_all add: cancels_inv_cong [of ?h ?d] scheduled_cong [of ?h ?d])
  have sys: "s \<in> set (pg_final p) \<and> \<not> ?own s \<longleftrightarrow> s \<in> set (sm_subs m) \<and> \<not> ?own s" for s
    using arg_cong [OF assms(5), of set] by auto
  show ?thesis
  proof (cases "sm_run m")
    case Running
    have old: "scheduled ?d = {s \<in> set (sm_subs m). wants_ticker s \<and> \<not> ?own s}"
    proof -
      have "sb_id s' \<noteq> sb_id s" if "s' \<in> set (sm_subs m)" "\<not> ?own s'" "s \<in> set (sm_subs m)" "?own s" for s s'
        using assms(1) that unfolding schedule_ok_def distinct_map inj_on_def by blast
      then show ?thesis using assms(1) Running dr(3) by (auto simp: schedule_ok_def)
    qed
    have di: "distinct (map sb_id (filter ?own (pg_final p)))" by (rule distinct_map_filter [OF assms(3)])
    have st: "cancels_inv (fst (publish now p m)) \<and> sm_run (fst (publish now p m)) = Running \<and>
      sm_subs (fst (publish now p m)) = pg_final p \<and>
      scheduled (fst (publish now p m)) = {s \<in> set (filter ?own (pg_final p)). wants_ticker s} \<union>
        {s' \<in> scheduled ?h. \<forall>s\<in>set (filter ?own (pg_final p)). wants_ticker s \<longrightarrow> sb_id s' \<noteq> sb_id s}"
      using start_all [OF h(1) _ _ di] h Running unfolding pub by simp
    have "sb_id s' \<noteq> sb_id s" if "s' \<in> set (pg_final p)" "\<not> ?own s'" "s \<in> set (pg_final p)" "?own s" for s s'
      using assms(3) that unfolding distinct_map inj_on_def by blast
    then have "scheduled (fst (publish now p m)) = {s \<in> set (pg_final p). wants_ticker s}"
      using st sys unfolding h(4) old by auto
    then show ?thesis using st assms(3) Running by (simp add: schedule_ok_def)
  next
    case NotRunning
    have "fold start_ticker_locked ss ?h = ?h" for ss
      using h(2) NotRunning by (induction ss) (simp_all add: start_ticker_locked_def)
    then have "fst (publish now p m) = ?h" unfolding pub by simp
    then show ?thesis using h NotRunning dr(3) assms(1,3) by (auto simp: schedule_ok_def)
  qed (use assms(2) in simp)
qed

section \<open>What a prepared generation contains\<close>

lemma validate_desired_spec:
  "validate_desired seen ss = None \<longleftrightarrow>
     (\<forall>s\<in>set ss. validate_subscription s = None \<and> policy_owned_category (sb_category s)) \<and>
     distinct (map sb_id ss) \<and> set (map sb_id ss) \<inter> set seen = {}"
  by (induction seen ss rule: validate_desired.induct) (auto split: option.split)

lemma load_subs_loop_spec:
  "load_subs_loop seen ss = None \<longleftrightarrow>
     (\<forall>s\<in>set ss. validate_subscription s = None) \<and> distinct (map sb_id ss) \<and> set (map sb_id ss) \<inter> set seen = {}"
  by (induction seen ss rule: load_subs_loop.induct) (auto split: option.split)

lemma unique_paths_loop_spec:
  "unique_paths_loop seen ss \<longleftrightarrow>
     distinct (map (\<lambda>s. (sb_category s, sb_name s)) ss) \<and> set (map (\<lambda>s. (sb_category s, sb_name s)) ss) \<inter> set seen = {}"
  by (induction seen ss rule: unique_paths_loop.induct) auto

definition subs_valid :: "subscription list \<Rightarrow> bool" where
  "subs_valid ss \<longleftrightarrow> (\<forall>s\<in>set ss. validate_subscription s = None) \<and> distinct (map sb_id ss) \<and>
     distinct (map (\<lambda>s. (sb_category s, sb_name s)) ss)"

lemma load_subscriptions_iff:
  "load_subscriptions (Stored (SubsDoc 1 ss) md) = Inr ss' \<longleftrightarrow> ss' = ss \<and> subs_valid ss"
  using load_subs_loop_spec [of "[]" ss] unique_paths_loop_spec [of "[]" ss]
  by (auto simp: load_subscriptions_def subs_schema_version_def subs_valid_def
      validate_unique_subscription_cache_paths_def split: option.split)

text \<open>The ids of the policy rules are not the id of a subscription the policy does not own.\<close>

definition ids_apart :: "subscription list \<Rightarrow> subscription list \<Rightarrow> bool" where
  "ids_apart current desired \<longleftrightarrow>
     (\<forall>s\<in>set current. \<not> policy_owned_category (sb_category s) \<longrightarrow> sb_id s \<notin> set (map sb_id desired))"

lemma prepared_final_valid:
  assumes "prepare_policy_generation L fetch ctx_done order desired m d = Inr p" "\<forall>xs. set (order xs) = set xs"
    "subs_valid (sm_subs m)" "ids_apart (sm_subs m) desired"
  shows "subs_valid (pg_final p)"
proof -
  note f = prepare_facts [OF assms(1,2)]
  have d: "\<forall>s\<in>set desired. validate_subscription s = None" "distinct (map sb_id desired)"
    using f(2) by (auto simp: validate_desired_spec)
  have u: "distinct (map (\<lambda>s. (sb_category s, sb_name s)) (pg_final p))"
    using f(3) unique_paths_loop_spec [of "[]"] by (simp add: validate_unique_subscription_cache_paths_def)
  have "distinct (map sb_id (filter (\<lambda>s. \<not> policy_owned_category (sb_category s)) (sm_subs m)))"
    using assms(3) by (auto simp: subs_valid_def intro: distinct_map_filter)
  then have "distinct (map sb_id (pg_final p))"
    using d(2) assms(4) unfolding f(1) by (auto simp: ids_apart_def)
  then show ?thesis using d(1) u assms(3) f(1) by (auto simp: subs_valid_def)
qed

lemma prepare_loop_targets:
  "prepare_loop L fetch ctx_done rd current d ss writes results = Inr (ws, rs) \<Longrightarrow>
     set (map fst ws) \<subseteq> set (map fst writes) \<union> set (map (cache_path rd) ss) \<and>
     (distinct (map fst writes) \<longrightarrow> distinct (map fst ws)) \<and>
     map ur_id rs = map ur_id results @ map sb_id ss"
proof (induction ss arbitrary: writes results)
  case (Cons s ss)
  let ?t = "cache_path rd s"
  show ?case
  proof (cases "staged_entries L (fetch s) (d ?t) s")
    case (Inl e)
    let ?w = "case carried_entries rd current d s of None \<Rightarrow> writes | Some ls \<Rightarrow> AList.update ?t ls writes"
    have k: "prepare_loop L fetch ctx_done rd current d ss ?w (results @ [failed_update s e]) = Inr (ws, rs)"
      using Cons.prems Inl by (simp add: Let_def split: if_splits)
    have "set (map fst (AList.update ?t ls writes)) \<subseteq> insert ?t (set (map fst writes))" for ls
      unfolding update_keys by (simp split: if_splits) blast
    then have "set (map fst ?w) \<subseteq> insert ?t (set (map fst writes))" "distinct (map fst writes) \<longrightarrow> distinct (map fst ?w)"
      by (auto simp: distinct_update split: option.split)
    note w = this
    note ih = Cons.IH [OF k]
    have "set (map fst ws) \<subseteq> set (map fst writes) \<union> set (map (cache_path rd) (s # ss))"
      using ih w(1) unfolding list.map list.set by blast
    moreover have "distinct (map fst writes) \<longrightarrow> distinct (map fst ws)" using ih w(2) by blast
    ultimately show ?thesis using ih by (simp add: failed_update_def)
  next
    case (Inr es)
    have k: "prepare_loop L fetch ctx_done rd current d ss (AList.update ?t es writes) (results @ [ok_update s es]) = Inr (ws, rs)"
      using Cons.prems Inr by (simp add: Let_def split: if_splits)
    note ih = Cons.IH [OF k]
    have "set (map fst (AList.update ?t es writes)) \<subseteq> insert ?t (set (map fst writes))"
      unfolding update_keys by (simp split: if_splits) blast
    then have "set (map fst ws) \<subseteq> set (map fst writes) \<union> set (map (cache_path rd) (s # ss))"
      using ih unfolding list.map list.set by blast
    then show ?thesis using ih by (simp add: ok_update_def distinct_update)
  qed
qed simp

lemma stale_paths_apart: "p \<in> set (stale_paths rd current desired) \<Longrightarrow> p \<notin> set (map (cache_path rd) desired)"
  by (auto simp: stale_paths_def)

lemma commit_writes_all:
  assumes "fst (commit_writes io ws d) = None" "distinct (map fst ws)"
  shows "snd (commit_writes io ws d) p =
    (case map_of ws p of None \<Rightarrow> d p | Some es \<Rightarrow> Stored (Text (lines_text es)) temp_mode)"
  using assms
proof (induction ws arbitrary: d)
  case (Cons w ws)
  obtain q es where w: "w = (q, es)" by (cases w)
  have k: "df_write io q" using Cons.prems(1) w by (auto split: if_splits)
  let ?d = "disk_write True q (Text (lines_text es)) temp_mode d"
  have "snd (commit_writes io ws ?d) p =
      (case map_of ws p of None \<Rightarrow> ?d p | Some es \<Rightarrow> Stored (Text (lines_text es)) temp_mode)"
    using Cons.IH [of ?d] Cons.prems w k by simp
  moreover have "p = q \<Longrightarrow> map_of ws p = None" using Cons.prems(2) w by (auto simp: map_of_eq_None_iff)
  ultimately show ?case using w k by (auto simp: disk_write_def split: option.split)
qed simp

lemma commit_removes_all:
  assumes "fst (commit_removes io rs d) = None"
  shows "snd (commit_removes io rs d) p = (if p \<in> set rs then Absent else d p)"
  using assms
proof (induction rs arbitrary: d)
  case (Cons q rs)
  obtain ok d1 where r: "remove_existing io q d = (ok, d1)" by (cases "remove_existing io q d")
  have ok: "ok" using Cons.prems r by (cases ok) auto
  have "d1 p = (if p = q then Absent else d p)"
    using r ok by (auto simp: remove_existing_def disk_remove_def split: if_splits)
  then show ?case using Cons.IH [of d1] Cons.prems r ok by auto
qed simp

section \<open>Properties of a generation\<close>

text \<open>A committed generation is complete and survives a restart. When \<open>CommitFiles\<close> reports success,
  every staged list is at its path, every stale cache is gone and no other path changed; and, if the
  current subscriptions were valid and no policy rule uses the id of a subscription the policy does
  not own, loading \<open>subscriptions.json\<close> from the new disk gives exactly the generation that is
  published.\<close>

theorem committed_generation_reloads:
  assumes "prepare_policy_generation L fetch ctx_done order desired m d = Inr p" "\<forall>xs. set (order xs) = set xs"
    "subs_valid (sm_subs m)" "ids_apart (sm_subs m) desired"
    "set ws = set (pg_writes p)" "distinct ws" "set rs = set (pg_removes p)"
    "commit_files io ws rs (sm_path m) p d = (None, d1, p1)"
  shows "load_subscriptions (d1 (sm_path m)) = Inr (pg_final p) \<and>
    (\<forall>q. q \<noteq> sm_path m \<longrightarrow> d1 q = (case map_of (pg_writes p) q of
       Some es \<Rightarrow> Stored (Text (lines_text es)) temp_mode
     | None \<Rightarrow> if q \<in> set (pg_removes p) then Absent else d q))"
proof -
  note f = prepare_facts [OF assms(1,2)]
  note t = prepare_loop_targets [OF f(8)]
  have dw: "distinct (map fst (pg_writes p))" using t by simp
  have dws: "distinct (map fst ws)"
    using dw assms(5,6) unfolding distinct_map by (auto simp: inj_on_def)
  have mo: "map_of ws = map_of (pg_writes p)" by (rule map_of_eqI) (use assms(5) dw dws in \<open>auto simp: map_of_inject_set\<close>)
  obtain e1 d2 where w: "commit_writes io ws d = (e1, d2)" by (cases "commit_writes io ws d")
  obtain e2 d3 where r: "commit_removes io rs d2 = (e2, d3)" by (cases "commit_removes io rs d2")
  have ok: "e1 = None" "e2 = None" "d1 = d3(sm_path m := Stored (SubsDoc 1 (pg_final p)) 420)"
    using assms(8) f(5) w r
    by (auto simp: commit_files_def Let_def disk_write_def subs_schema_version_def split: option.splits if_splits)
  have d2: "d2 q = (case map_of (pg_writes p) q of None \<Rightarrow> d q | Some es \<Rightarrow> Stored (Text (lines_text es)) temp_mode)" for q
    using commit_writes_all [of io ws d q] w ok(1) dws mo by simp
  have d3: "d3 q = (if q \<in> set (pg_removes p) then Absent else d2 q)" for q
    using commit_removes_all [of io rs d2 q] r ok(2) assms(7) by simp
  have apart: "map_of (pg_writes p) q = None" if "q \<in> set (pg_removes p)" for q
  proof -
    have "q \<notin> set (map (cache_path (sm_rules_dir m)) desired)"
      using stale_paths_apart [of q "sm_rules_dir m" "sm_subs m" desired] that f(9) by simp
    then have "q \<notin> set (map fst (pg_writes p))" using t by auto
    then show ?thesis by (simp add: map_of_eq_None_iff)
  qed
  have "\<forall>q. q \<noteq> sm_path m \<longrightarrow> d1 q = (case map_of (pg_writes p) q of
       Some es \<Rightarrow> Stored (Text (lines_text es)) temp_mode
     | None \<Rightarrow> if q \<in> set (pg_removes p) then Absent else d q)"
    using ok(3) d3 d2 apart by (auto split: option.split)
  moreover have "load_subscriptions (d1 (sm_path m)) = Inr (pg_final p)"
    using ok(3) prepared_final_valid [OF assms(1-4)] by (simp add: load_subscriptions_iff)
  ultimately show ?thesis by blast
qed

text \<open>C32: Publication leaves exactly one running ticker per subscription that wants one, under four
  conditions: it held for the manager before; the manager's subscriptions are valid, with distinct ids;
  \<open>Run\<close> is active or has not started yet (after it ended nothing is scheduled); and no subscription of
  the generation has the id of a subscription the policy does not own. The code does not check the last
  one: rule ids and subscription ids are chosen independently. Then, when a generation prepared from the
  manager and committed is published, the tickers that are not cancelled have pairwise different ids,
  while \<open>Run\<close> is active they are those of the enabled subscriptions with a positive interval and before
  it there are none, and the subscriptions are those the policy does not own followed by the desired.\<close>

theorem publish_schedules_exactly:
  fixes now :: go_time
  assumes "prepare_policy_generation L fetch ctx_done order desired m d = Inr p" "\<forall>xs. set (order xs) = set xs"
    "subs_valid (sm_subs m)" "ids_apart (sm_subs m) desired"
    "commit_files io ws rs (sm_path m) p d = (None, d1, p1)" "schedule_ok m" "sm_run m \<noteq> RunDone"
  defines "m' \<equiv> fst (publish now p1 m)"
  defines "live \<equiv> map wk_sub (filter (\<lambda>w. \<not> wk_cancelled w) (sm_workers m'))"
  shows "schedule_ok m' \<and> distinct (map sb_id live) \<and>
    (sm_run m = Running \<longrightarrow> set live = {s \<in> set (sm_subs m'). sb_enabled s \<and> 0 < sb_interval s}) \<and>
    (sm_run m = NotRunning \<longrightarrow> live = []) \<and>
    sm_subs m' = filter (\<lambda>s. \<not> policy_owned_category (sb_category s)) (sm_subs m) @ desired"
proof -
  note f = prepare_facts [OF assms(1,2)]
  have p1: "p1 = p\<lparr>pg_committed := True\<rparr>" by (rule commit_files_agree(2) [OF assms(5) f(5)])
  have owned: "\<forall>s\<in>set desired. policy_owned_category (sb_category s)" using f(2) by (simp add: validate_desired_spec)
  have "schedule_ok m' \<and> sm_subs m' = pg_final p1 \<and> sm_run m' = sm_run m"
    unfolding m'_def
  proof (rule publish_schedules [OF assms(6,7)])
    show "distinct (map sb_id (pg_final p1))"
      using prepared_final_valid [OF assms(1-4)] p1 by (simp add: subs_valid_def)
    show "\<not> pg_released p1" using f(5) p1 by simp
    show "filter (\<lambda>s. \<not> policy_owned_category (sb_category s)) (pg_final p1) =
        filter (\<lambda>s. \<not> policy_owned_category (sb_category s)) (sm_subs m)"
      using owned p1 f(1) by (simp add: filter_empty_conv)
  qed
  moreover from this have "distinct (map sb_id live)"
    using cancels_inv_distinct [of m'] by (simp add: live_def schedule_ok_def)
  moreover have "set live = scheduled m'" by (simp add: scheduled_def live_def)
  ultimately have s: "schedule_ok m'" "distinct (map sb_id live)" "set live = scheduled m'"
    "sm_run m' = sm_run m" "sm_subs m' = pg_final p" using p1 by simp_all
  have "sm_run m = Running \<longrightarrow> set live = {s \<in> set (sm_subs m'). sb_enabled s \<and> 0 < sb_interval s}"
    using s(1,3,4) by (simp add: schedule_ok_def wants_ticker_def)
  moreover have "sm_run m = NotRunning \<longrightarrow> live = []" using s(1,3,4) unfolding schedule_ok_def by (metis set_empty)
  ultimately show ?thesis using s(1,2,5) f(1) by simp
qed

section \<open>A generation, run\<close>

definition ex_subs_manager :: sub_manager where
  "ex_subs_manager = \<lparr>sm_path = ''/s.json'', sm_rules_dir = ''/r'', sm_subs = [ex_sub ''cn'' ''chnroute'', ex_sub ''old'' ''proxy''],
     sm_health = [], sm_run = NotRunning, sm_cancels = [], sm_workers = []\<rparr>"

definition ex_disk :: "content disk" where
  "ex_disk = (\<lambda>p. if p = ''/s.json'' then Stored (SubsDoc 1 (sm_subs ex_subs_manager)) 420
     else if p = ''/r/proxy/old.txt'' then Stored (Text ''x.example'') 384 else Absent)"

definition ex_prepared :: prepared where
  "ex_prepared = \<lparr>pg_final = [ex_sub ''cn'' ''chnroute'', ex_sub ''ads'' ''block''],
     pg_writes = [(''/r/block/ads.txt'', [''a.example''])], pg_removes = [''/r/proxy/old.txt''],
     pg_results = [ok_update (ex_sub ''ads'' ''block'') [''a.example'']],
     pg_backups = [
       \<lparr>bk_path = ''/s.json'', bk_data = SubsDoc 1 (sm_subs ex_subs_manager), bk_mode = 420, bk_exists = True\<rparr>,
       \<lparr>bk_path = ''/r/block/ads.txt'', bk_data = Text [], bk_mode = 420, bk_exists = False\<rparr>,
       \<lparr>bk_path = ''/r/proxy/old.txt'', bk_data = Text ''x.example'', bk_mode = 384, bk_exists = True\<rparr>],
     pg_committed = False, pg_released = False\<rparr>"

definition ex_faults :: disk_faults where
  "ex_faults = \<lparr>df_write = (\<lambda>p. p \<noteq> ''/s.json''), df_remove = (\<lambda>p. True)\<rparr>"

definition ex_no_faults :: disk_faults where
  "ex_no_faults = \<lparr>df_write = (\<lambda>p. True), df_remove = (\<lambda>p. True)\<rparr>"

lemma ex_prepare:
  "prepare_policy_generation ref_lib (\<lambda>s. ex_list_outcome) (\<lambda>s. False) (\<lambda>xs. xs) [ex_sub ''ads'' ''block''] ex_subs_manager ex_disk =
     Inr ex_prepared"
  by code_simp

lemma ex_commit_fails:
  "fst (commit_files ex_faults (pg_writes ex_prepared) (pg_removes ex_prepared) ''/s.json'' ex_prepared ex_disk) = Some WriteError \<and>
   fst (snd (commit_files ex_faults (pg_writes ex_prepared) (pg_removes ex_prepared) ''/s.json'' ex_prepared ex_disk))
     ''/r/proxy/old.txt'' = Absent"
  by code_simp

lemma rollback_restores_disk_witness:
  "\<exists>d1 p1. fst (snd (commit_files ex_faults (pg_writes ex_prepared) (pg_removes ex_prepared) ''/s.json'' ex_prepared ex_disk)) = d1 \<and>
     d1 ''/r/proxy/old.txt'' = Absent \<and> rollback ex_no_faults p1 d1 = (True, ex_disk, p1\<lparr>pg_released := True\<rparr>)"
proof -
  obtain e d1 p1 where c: "commit_files ex_faults (pg_writes ex_prepared) (pg_removes ex_prepared) ''/s.json'' ex_prepared ex_disk = (e, d1, p1)"
    by (rule prod_cases3)
  have "rollback ex_no_faults p1 d1 = (True, ex_disk, p1\<lparr>pg_released := True\<rparr>)"
    using rollback_restores_disk [OF ex_prepare, of "pg_writes ex_prepared" "pg_removes ex_prepared" ex_faults e d1 p1 ex_no_faults] c
    by (simp add: ex_subs_manager_def no_faults_def ex_no_faults_def)
  then show ?thesis using c ex_commit_fails by auto
qed

lemma ex_subs_valid: "subs_valid (sm_subs ex_subs_manager)"
  by code_simp

lemma ex_ids_apart: "ids_apart (sm_subs ex_subs_manager) [ex_sub ''ads'' ''block'']"
  by code_simp

lemma ex_commit:
  "\<exists>d1. commit_files ex_no_faults (pg_writes ex_prepared) (pg_removes ex_prepared) ''/s.json'' ex_prepared ex_disk =
     (None, d1, ex_prepared\<lparr>pg_committed := True\<rparr>)"
proof -
  let ?r = "commit_files ex_no_faults (pg_writes ex_prepared) (pg_removes ex_prepared) ''/s.json'' ex_prepared ex_disk"
  have "fst ?r = None" by code_simp
  moreover have "snd (snd ?r) = ex_prepared\<lparr>pg_committed := True\<rparr>" by code_simp
  ultimately show ?thesis by (metis prod.collapse)
qed

lemma committed_generation_reloads_witness:
  "\<exists>d1. load_subscriptions (d1 ''/s.json'') = Inr [ex_sub ''cn'' ''chnroute'', ex_sub ''ads'' ''block''] \<and>
     d1 ''/r/proxy/old.txt'' = Absent"
proof -
  obtain d1 where c: "commit_files ex_no_faults (pg_writes ex_prepared) (pg_removes ex_prepared) ''/s.json'' ex_prepared ex_disk =
     (None, d1, ex_prepared\<lparr>pg_committed := True\<rparr>)" using ex_commit by blast
  from committed_generation_reloads [OF ex_prepare _ ex_subs_valid ex_ids_apart refl _ refl, of ex_no_faults d1 "ex_prepared\<lparr>pg_committed := True\<rparr>"] c
  have "load_subscriptions (d1 ''/s.json'') = Inr (pg_final ex_prepared)"
    "d1 ''/r/proxy/old.txt'' = Absent" by (auto simp: ex_subs_manager_def ex_prepared_def)
  then show ?thesis by (auto simp: ex_prepared_def)
qed

lemma ex_schedule: "schedule_ok (run_start ex_subs_manager)"
proof -
  have "schedule_ok ex_subs_manager"
    by (simp add: schedule_ok_def cancels_inv_def ex_subs_manager_def scheduled_def ex_sub_def)
  then show ?thesis using run_start_schedules [of ex_subs_manager] by (simp add: ex_subs_manager_def)
qed

lemma run_start_same_files:
  "sm_path (run_start m) = sm_path m \<and> sm_rules_dir (run_start m) = sm_rules_dir m \<and> sm_subs (run_start m) = sm_subs m"
proof -
  have "sm_path (fold start_ticker_locked ss m) = sm_path m \<and> sm_rules_dir (fold start_ticker_locked ss m) = sm_rules_dir m \<and>
      sm_subs (fold start_ticker_locked ss m) = sm_subs m" for ss m
    by (induction ss arbitrary: m) (simp_all add: start_ticker_locked_def Let_def)
  then show ?thesis by (simp add: run_start_def)
qed

lemma prepare_cong:
  assumes "sm_path m' = sm_path m" "sm_rules_dir m' = sm_rules_dir m" "sm_subs m' = sm_subs m"
  shows "prepare_policy_generation L fetch ctx_done order desired m' d =
    prepare_policy_generation L fetch ctx_done order desired m d"
  unfolding prepare_policy_generation_def assms ..

lemma ex_prepare_running:
  "prepare_policy_generation ref_lib (\<lambda>s. ex_list_outcome) (\<lambda>s. False) (\<lambda>xs. xs) [ex_sub ''ads'' ''block'']
     (run_start ex_subs_manager) ex_disk = Inr ex_prepared"
  by (rule trans [OF prepare_cong ex_prepare]) (simp_all add: run_start_same_files)

lemma ex_running: "sm_run (run_start ex_subs_manager) = Running \<and> sm_path (run_start ex_subs_manager) = ''/s.json'' \<and>
    sm_subs (run_start ex_subs_manager) = sm_subs ex_subs_manager"
proof -
  have "schedule_ok ex_subs_manager"
    by (simp add: schedule_ok_def cancels_inv_def ex_subs_manager_def scheduled_def ex_sub_def)
  then show ?thesis
    using run_start_schedules [of ex_subs_manager] run_start_same_files [of ex_subs_manager] by (simp add: ex_subs_manager_def)
qed

lemma publish_schedules_exactly_witness:
  "set (map wk_sub (filter (\<lambda>w. \<not> wk_cancelled w) (sm_workers
     (fst (publish 7 (ex_prepared\<lparr>pg_committed := True\<rparr>) (run_start ex_subs_manager)))))) =
   {ex_sub ''cn'' ''chnroute'', ex_sub ''ads'' ''block''}"
proof -
  let ?m = "fst (publish 7 (ex_prepared\<lparr>pg_committed := True\<rparr>) (run_start ex_subs_manager))"
  have pre: "\<forall>xs::string list. set xs = set xs" "subs_valid (sm_subs (run_start ex_subs_manager))"
    "ids_apart (sm_subs (run_start ex_subs_manager)) [ex_sub ''ads'' ''block'']" "sm_run (run_start ex_subs_manager) \<noteq> RunDone"
    using ex_running ex_subs_valid ex_ids_apart by simp_all
  obtain d1 where c: "commit_files ex_no_faults (pg_writes ex_prepared) (pg_removes ex_prepared)
      (sm_path (run_start ex_subs_manager)) ex_prepared ex_disk = (None, d1, ex_prepared\<lparr>pg_committed := True\<rparr>)"
    using ex_commit ex_running by auto
  note pub = publish_schedules_exactly [OF ex_prepare_running pre(1-3) c ex_schedule pre(4), of 7]
  have "sm_subs ?m = filter (\<lambda>s. \<not> policy_owned_category (sb_category s)) (sm_subs ex_subs_manager) @ [ex_sub ''ads'' ''block'']"
    using pub ex_running by (elim conjE) simp
  then have "sm_subs ?m = [ex_sub ''cn'' ''chnroute'', ex_sub ''ads'' ''block'']"
    by (simp add: ex_subs_manager_def policy_owned_category_def ex_category)
  moreover have "set (map wk_sub (filter (\<lambda>w. \<not> wk_cancelled w) (sm_workers ?m))) =
      {s \<in> set (sm_subs ?m). sb_enabled s \<and> 0 < sb_interval s}"
    by (rule mp [OF pub [THEN conjunct2, THEN conjunct2, THEN conjunct1] ex_running [THEN conjunct1]])
  moreover have "sb_enabled (ex_sub i c) \<and> 0 < sb_interval (ex_sub i c)" for i c by (simp add: ex_sub_def)
  ultimately show ?thesis by auto
qed

text \<open>
  The duplicate-id check of \<open>PreparePolicyGeneration\<close> looks at the desired subscriptions only. A policy
  rule with the id of the chnroute subscription is accepted and written, and the file that is written
  is refused when it is loaded again.
\<close>

lemma shared_id_not_reloadable:
  assumes "prepare_policy_generation L fetch ctx_done order desired m d = Inr p" "\<forall>xs. set (order xs) = set xs"
    "s \<in> set (sm_subs m)" "\<not> policy_owned_category (sb_category s)" "sb_id s \<in> set (map sb_id desired)"
  shows "load_subscriptions (Stored (SubsDoc 1 (pg_final p)) md) \<noteq> Inr subs"
proof -
  have "s \<in> set (filter (\<lambda>s. \<not> policy_owned_category (sb_category s)) (sm_subs m))" using assms(3,4) by simp
  then have "\<not> distinct (map sb_id (pg_final p))"
    using assms(5) unfolding prepare_facts(1) [OF assms(1,2)] by auto
  then show ?thesis by (simp add: load_subscriptions_iff subs_valid_def)
qed

lemma shared_id_example:
  "\<not> isl (prepare_policy_generation ref_lib (\<lambda>s. ex_list_outcome) (\<lambda>s. False) (\<lambda>xs. xs) [ex_sub ''cn'' ''block'']
     ex_subs_manager ex_disk)"
  by code_simp

end
