(* ===== verification/Sub_Tickers.thy ===== *)
theory Sub_Tickers
  imports Sub_Generation
begin

text \<open>
  The worker of a subscription (\<open>runOne\<close> and \<open>nextBackoff\<close> in \<open>subscription.go\<close>) and the
  interleaving of workers with policy generations: the two mutexes are held from the preparation of a
  generation to its release, so a worker reads its subscription and runs its fetch in between.
\<close>

section \<open>Retry delays\<close>

definition backoff_min :: duration where "backoff_min = 60000000000"
definition backoff_max :: duration where "backoff_max = 1800000000000"

definition next_backoff :: "duration \<Rightarrow> duration" where
  "next_backoff cur =
     (if cur < backoff_min then backoff_min
      else if cur * 2 > backoff_max then backoff_max else cur * 2)"

text \<open>The closure \<open>schedule\<close>: the next delay and the backoff it leaves.\<close>

definition schedule_next :: "duration \<Rightarrow> duration \<Rightarrow> bool \<Rightarrow> duration \<times> duration" where
  "schedule_next interval backoff ok =
     (if ok then (interval, 0) else (next_backoff backoff, next_backoff backoff))"

text \<open>The delays the timer is armed with, one per fetch result.\<close>

fun timer_delays :: "duration \<Rightarrow> duration \<Rightarrow> bool list \<Rightarrow> duration list" where
  "timer_delays interval backoff [] = []"
| "timer_delays interval backoff (ok # oks) =
     (case schedule_next interval backoff ok of (d, b) \<Rightarrow> d # timer_delays interval b oks)"

text \<open>
  \<open>runOne\<close>: without a cache file the first fetch is immediate; otherwise the timer starts with the
  interval. \<open>oks\<close> are the results of the fetches in order.
\<close>

definition run_one :: "duration \<Rightarrow> bool \<Rightarrow> bool list \<Rightarrow> duration list" where
  "run_one interval cache_missing oks =
     (if cache_missing then (0::duration) # timer_delays interval 0 oks
      else interval # timer_delays interval 0 oks)"

definition trailing_failures :: "bool list \<Rightarrow> nat" where
  "trailing_failures oks = length (takeWhile (\<lambda>b. \<not> b) (rev oks))"

definition backoff_after :: "nat \<Rightarrow> duration" where
  "backoff_after k = (if k = 0 then 0 else min (backoff_min * 2 ^ (k - 1)) backoff_max)"

lemma next_backoff_after: "next_backoff (backoff_after k) = backoff_after (Suc k)"
proof (cases k)
  case 0
  then show ?thesis by (simp add: next_backoff_def backoff_after_def backoff_min_def backoff_max_def)
next
  case (Suc j)
  have n: "\<not> (2::int) ^ j < 1" by (simp add: not_less)
  show ?thesis using Suc
    by (auto simp: next_backoff_def backoff_after_def backoff_min_def backoff_max_def min_def n)
qed

lemma timer_delays_spec:
  "timer_delays interval (backoff_after (trailing_failures pre)) oks =
     map (\<lambda>i. if oks ! i then interval else backoff_after (trailing_failures (pre @ take (Suc i) oks))) [0..<length oks]"
proof (induction oks arbitrary: pre)
  case (Cons ok oks)
  have tf: "trailing_failures (pre @ [ok]) = (if ok then 0 else Suc (trailing_failures pre))"
    by (simp add: trailing_failures_def)
  have b: "schedule_next interval (backoff_after (trailing_failures pre)) ok =
      (if ok then interval else backoff_after (trailing_failures (pre @ [ok])), backoff_after (trailing_failures (pre @ [ok])))"
    using next_backoff_after [of "trailing_failures pre"] tf by (auto simp: schedule_next_def backoff_after_def [of 0])
  have u: "[0..<length (ok # oks)] = 0 # map Suc [0..<length oks]" by (simp add: map_Suc_upt upt_conv_Cons del: upt_Suc)
  show ?case unfolding u using Cons.IH [of "pre @ [ok]"] b by simp
qed simp

lemma backoff_after_bounds: "0 < k \<Longrightarrow> backoff_min \<le> backoff_after k \<and> backoff_after k \<le> backoff_max"
proof -
  assume "0 < k"
  moreover have "(1::int) \<le> 2 ^ (k - 1)" by simp
  ultimately show ?thesis by (auto simp: backoff_after_def backoff_min_def backoff_max_def min_def)
qed

text \<open>The retry schedule of a subscription. After a successful fetch the next one follows one
  interval later; after the \<open>k\<close>th failure in a row it follows \<open>min(2^(k-1), 30)\<close> minutes later,
  however many fetches came before, so a failing source is asked again within 30 minutes and never
  more often than once a minute.\<close>

theorem retry_schedule:
  assumes "i < length oks"
  defines "k \<equiv> trailing_failures (take (Suc i) oks)"
  shows "run_one interval missing oks ! Suc i =
      (if oks ! i then interval else min (60000000000 * 2 ^ (k - 1)) 1800000000000) \<and>
    (\<not> oks ! i \<longrightarrow> 60000000000 \<le> run_one interval missing oks ! Suc i \<and>
       run_one interval missing oks ! Suc i \<le> 1800000000000)"
proof -
  have b: "backoff_after (trailing_failures []) = 0" by (simp add: backoff_after_def trailing_failures_def)
  have r: "run_one interval missing oks ! Suc i = (if oks ! i then interval else backoff_after k)"
    using timer_delays_spec [of interval "[]" oks] assms(1) unfolding b k_def by (simp add: run_one_def)
  have pos: "0 < k" if "\<not> oks ! i"
    using that assms(1) unfolding k_def trailing_failures_def by (simp add: take_Suc_conv_app_nth)
  then have "\<not> oks ! i \<longrightarrow> backoff_after k = min (60000000000 * 2 ^ (k - 1)) 1800000000000"
    by (auto simp: backoff_after_def backoff_min_def backoff_max_def)
  then show ?thesis using r pos backoff_after_bounds [of k] by (auto simp: backoff_min_def backoff_max_def)
qed

lemma retry_schedule_witness:
  "run_one 86400000000000 True [False, False, True, False] ! 2 = 120000000000"
  using retry_schedule [of 1 "[False, False, True, False]" 86400000000000 True]
  by (simp add: trailing_failures_def numeral_2_eq_2)

section \<open>Workers and generations\<close>

text \<open>
  The manager, the disk and the generation that holds the mutexes, if there is one. A fetch is one
  step, because it runs under \<open>txMu\<close>; the lookup before it needs \<open>mu\<close>. A cancelled worker may still
  be past its lookup: its request then fails.
\<close>

record sub_system =
  sy_mgr :: sub_manager
  sy_disk :: "content disk"
  sy_held :: "prepared option"

datatype sub_label = STick nat | SFetch nat | SPrepare | SRefused | SCommit | SRollback disk_faults | SPublish | SRun | SDone | SStop

definition worker_cancelled :: "sub_manager \<Rightarrow> nat \<Rightarrow> bool" where
  "worker_cancelled m k \<longleftrightarrow> wk_cancelled (sm_workers m ! k) \<or> sm_run m \<noteq> Running"

definition set_pending :: "nat \<Rightarrow> subscription option \<Rightarrow> sub_manager \<Rightarrow> sub_manager" where
  "set_pending k s m = m\<lparr>sm_workers := (sm_workers m)[k := (sm_workers m ! k)\<lparr>wk_pending := s\<rparr>]\<rparr>"

inductive sub_step :: "dns_lib \<Rightarrow> sub_system \<Rightarrow> sub_label \<Rightarrow> sub_system \<Rightarrow> bool" for L where
  st_tick: "sy_held y = None \<Longrightarrow> k < length (sm_workers (sy_mgr y)) \<Longrightarrow> wk_pending (sm_workers (sy_mgr y) ! k) = None \<Longrightarrow>
     sub_step L y (STick k)
       (y\<lparr>sy_mgr := set_pending k (find_sub (sb_id (wk_sub (sm_workers (sy_mgr y) ! k))) (sy_mgr y)) (sy_mgr y)\<rparr>)"
| st_fetch: "sy_held y = None \<Longrightarrow> k < length (sm_workers (sy_mgr y)) \<Longrightarrow> wk_pending (sm_workers (sy_mgr y) ! k) = Some s \<Longrightarrow>
     (worker_cancelled (sy_mgr y) k \<Longrightarrow> resp = NoResponse) \<Longrightarrow>
     fetch_and_cache L resp wrote reload now s (sy_mgr y) (sy_disk y) = (res, m', d', reloaded) \<Longrightarrow>
     sub_step L y (SFetch k) (y\<lparr>sy_mgr := set_pending k None m', sy_disk := d'\<rparr>)"
| st_prepare: "sy_held y = None \<Longrightarrow> (\<forall>xs. set (order xs) = set xs) \<Longrightarrow>
     prepare_policy_generation L fetch ctx_done order desired (sy_mgr y) (sy_disk y) = Inr p \<Longrightarrow>
     sub_step L y SPrepare (y\<lparr>sy_held := Some p\<rparr>)"
| st_refused: "sy_held y = None \<Longrightarrow>
     prepare_policy_generation L fetch ctx_done order desired (sy_mgr y) (sy_disk y) = Inl e \<Longrightarrow>
     sub_step L y SRefused y"
| st_commit: "sy_held y = Some p \<Longrightarrow> set ws = set (pg_writes p) \<Longrightarrow> set rs = set (pg_removes p) \<Longrightarrow>
     commit_files io ws rs (sm_path (sy_mgr y)) p (sy_disk y) = (e, d', p') \<Longrightarrow>
     sub_step L y SCommit (y\<lparr>sy_disk := d', sy_held := Some p'\<rparr>)"
| st_rollback: "sy_held y = Some p \<Longrightarrow> rollback io p (sy_disk y) = (ok, d', p') \<Longrightarrow>
     sub_step L y (SRollback io) (y\<lparr>sy_disk := d', sy_held := None\<rparr>)"
| st_publish: "sy_held y = Some p \<Longrightarrow> publish now p (sy_mgr y) = (m', p') \<Longrightarrow>
     sub_step L y SPublish (y\<lparr>sy_mgr := m', sy_held := None\<rparr>)"
| st_run: "sy_held y = None \<Longrightarrow> sm_run (sy_mgr y) = NotRunning \<Longrightarrow>
     sub_step L y SRun (y\<lparr>sy_mgr := run_start (sy_mgr y)\<rparr>)"
| st_done: "sm_run (sy_mgr y) = Running \<Longrightarrow> sub_step L y SDone (y\<lparr>sy_mgr := (sy_mgr y)\<lparr>sm_run := RunDone\<rparr>\<rparr>)"
| st_stop: "sy_held y = None \<Longrightarrow> sm_run (sy_mgr y) = RunDone \<Longrightarrow>
     sub_step L y SStop (y\<lparr>sy_mgr := run_stop (sy_mgr y)\<rparr>)"

inductive_cases sub_rollbackE: "sub_step L y (SRollback io) y'"
inductive_cases sub_prepareE: "sub_step L y SPrepare y'"

inductive sub_steps :: "dns_lib \<Rightarrow> sub_system \<Rightarrow> sub_label list \<Rightarrow> sub_system \<Rightarrow> bool" for L where
  sub_none: "sub_steps L y [] y"
| sub_more: "sub_step L y l y1 \<Longrightarrow> sub_steps L y1 ls y2 \<Longrightarrow> sub_steps L y (l # ls) y2"


text \<open>What holds from the preparation of a generation to its release: \<open>d0\<close> and \<open>subs\<close> are those of then.\<close>

definition held_since :: "content disk \<Rightarrow> subscription list \<Rightarrow> string \<Rightarrow> sub_system \<Rightarrow> bool" where
  "held_since d0 subs path y \<longleftrightarrow> sm_subs (sy_mgr y) = subs \<and> sm_path (sy_mgr y) = path \<and>
     (\<exists>p. sy_held y = Some p \<and> \<not> pg_released p \<and> (\<not> pg_committed p \<longrightarrow> sy_disk y = d0) \<and>
       (\<forall>b\<in>set (pg_backups p). backup_of b (d0 (bk_path b))) \<and>
       insert path (set (map fst (pg_writes p)) \<union> set (pg_removes p)) \<subseteq> set (map bk_path (pg_backups p)) \<and>
       disk_agree (set (map bk_path (pg_backups p))) d0 (sy_disk y))"

lemma held_since_commit:
  assumes "held_since d0 subs path y" "sy_held y = Some p" "set ws = set (pg_writes p)" "set rs = set (pg_removes p)"
    "commit_files io ws rs (sm_path (sy_mgr y)) p (sy_disk y) = (e, d', p')"
  shows "held_since d0 subs path (y\<lparr>sy_disk := d', sy_held := Some p'\<rparr>)"
proof -
  have h: "\<not> pg_released p" "\<forall>b\<in>set (pg_backups p). backup_of b (d0 (bk_path b))"
    "insert path (set (map fst (pg_writes p)) \<union> set (pg_removes p)) \<subseteq> set (map bk_path (pg_backups p))"
    "disk_agree (set (map bk_path (pg_backups p))) d0 (sy_disk y)" "sm_path (sy_mgr y) = path" "sm_subs (sy_mgr y) = subs"
    using assms(1,2) by (auto simp: held_since_def)
  have p': "p' = p\<lparr>pg_committed := True\<rparr>" by (rule commit_files_agree(2) [OF assms(5) h(1)])
  have "set (map fst ws) = set (map fst (pg_writes p))" using assms(3) by auto
  then have "disk_agree (set (map bk_path (pg_backups p))) (sy_disk y) d'"
    using disk_agree_mono [OF commit_files_agree(1) [OF assms(5)]] h(3,5) assms(4) by simp
  then have "disk_agree (set (map bk_path (pg_backups p))) d0 d'" by (rule disk_agree_trans [OF h(4)])
  then show ?thesis using h p' by (simp add: held_since_def)
qed

lemma held_since_step:
  assumes "sub_step L y l y'" "held_since d0 subs path y" "l \<noteq> SPublish" "\<forall>io. l \<noteq> SRollback io"
  shows "held_since d0 subs path y'"
proof -
  have held: "sy_held y \<noteq> None" using assms(2) by (auto simp: held_since_def)
  from assms(1) show ?thesis
  proof (cases rule: sub_step.cases)
    case (st_commit p ws rs io e d' p')
    then show ?thesis using held_since_commit [OF assms(2)] by simp
  next
    case st_done
    then show ?thesis using assms(2) by (auto simp: held_since_def)
  qed (use held assms(3,4) in auto)
qed

lemma held_since_steps:
  "sub_steps L y ls y' \<Longrightarrow> held_since d0 subs path y \<Longrightarrow> SPublish \<notin> set ls \<Longrightarrow> \<forall>io. SRollback io \<notin> set ls \<Longrightarrow>
     held_since d0 subs path y'"
proof (induction rule: sub_steps.induct)
  case (sub_more y l y1 ls y2)
  have "held_since d0 subs path y1"
    by (rule held_since_step [OF sub_more.hyps(1) sub_more.prems(1)]) (use sub_more.prems in auto)
  then show ?case using sub_more by auto
qed simp

text \<open>C31: An aborted generation is invisible, with every worker running. Whatever steps the workers,
  the commit (any number of attempts, each failing anywhere) and the context take between the
  preparation of a generation and its rollback, a rollback whose file operations succeed leaves the
  disk and the live subscriptions exactly as they were when the generation was prepared: no ticker
  can write a cache file, and no partial commit can leak, while the generation is held.\<close>

theorem aborted_generation_invisible:
  assumes "sub_step L y SPrepare y1" "sub_steps L y1 ls y2" "SPublish \<notin> set ls" "\<forall>io. SRollback io \<notin> set ls"
    "sub_step L y2 (SRollback io) y3" "no_faults io"
  shows "sy_disk y3 = sy_disk y \<and> sm_subs (sy_mgr y3) = sm_subs (sy_mgr y) \<and> sy_held y3 = None"
proof -
  obtain order fetch ctx_done desired p0 where pr: "\<forall>xs. set (order xs) = set xs"
    "prepare_policy_generation L fetch ctx_done order desired (sy_mgr y) (sy_disk y) = Inr p0" "y1 = y\<lparr>sy_held := Some p0\<rparr>"
    using assms(1) by (rule sub_prepareE) blast
  have "held_since (sy_disk y) (sm_subs (sy_mgr y)) (sm_path (sy_mgr y)) y1"
    using prepare_facts [OF pr(2,1)] pr(3) by (auto simp: held_since_def)
  then have h: "held_since (sy_disk y) (sm_subs (sy_mgr y)) (sm_path (sy_mgr y)) y2"
    by (rule held_since_steps [OF assms(2) _ assms(3,4)])
  then obtain p where p: "sy_held y2 = Some p" "\<not> pg_released p" "\<not> pg_committed p \<longrightarrow> sy_disk y2 = sy_disk y"
    "\<forall>b\<in>set (pg_backups p). backup_of b (sy_disk y (bk_path b))"
    "disk_agree (set (map bk_path (pg_backups p))) (sy_disk y) (sy_disk y2)"
    "sm_subs (sy_mgr y2) = sm_subs (sy_mgr y)" by (auto simp: held_since_def)
  note r = restore_files_spec [OF assms(6) p(4,5)]
  from assms(5) show ?thesis
    by (cases rule: sub_rollbackE) (use p r in \<open>auto simp: rollback_def split: if_splits\<close>)
qed

definition ex_system :: sub_system where
  "ex_system = \<lparr>sy_mgr = run_start ex_subs_manager, sy_disk = ex_disk, sy_held = None\<rparr>"

lemma aborted_generation_invisible_witness:
  "\<exists>y1 y2 y3. sub_step ref_lib ex_system SPrepare y1 \<and> sub_step ref_lib y1 SCommit y2 \<and>
     sub_step ref_lib y2 (SRollback ex_no_faults) y3 \<and> sy_disk y3 = ex_disk"
proof -
  let ?y1 = "ex_system\<lparr>sy_held := Some ex_prepared\<rparr>"
  have s1: "sub_step ref_lib ex_system SPrepare ?y1"
    by (rule st_prepare [where order = "\<lambda>xs. xs"], simp add: ex_system_def, simp)
      (use ex_prepare_running in \<open>simp add: ex_system_def\<close>)
  obtain e d1 p1 where c: "commit_files ex_faults (pg_writes ex_prepared) (pg_removes ex_prepared)
      (sm_path (sy_mgr ?y1)) ex_prepared (sy_disk ?y1) = (e, d1, p1)" by (rule prod_cases3)
  let ?y2 = "?y1\<lparr>sy_disk := d1, sy_held := Some p1\<rparr>"
  have s2: "sub_step ref_lib ?y1 SCommit ?y2" by (rule st_commit [OF _ refl refl c]) simp
  obtain ok d2 p2 where r: "rollback ex_no_faults p1 (sy_disk ?y2) = (ok, d2, p2)" by (rule prod_cases3)
  let ?y3 = "?y2\<lparr>sy_disk := d2, sy_held := None\<rparr>"
  have s3: "sub_step ref_lib ?y2 (SRollback ex_no_faults) ?y3" by (rule st_rollback [OF _ r]) simp
  have "sub_steps ref_lib ?y1 [SCommit] ?y2" by (rule sub_more [OF s2 sub_none])
  from aborted_generation_invisible [OF s1 this _ _ s3] have "sy_disk ?y3 = sy_disk ex_system"
    by (simp add: no_faults_def ex_no_faults_def)
  then have "sy_disk ?y3 = ex_disk" by (simp add: ex_system_def)
  then show ?thesis using s1 s2 s3 by blast
qed

text \<open>
  A worker that was cancelled by a publication after it had looked its subscription up still runs
  \<open>fetchAndCache\<close>. Its request fails, the disk stays as it is, and the failure is recorded over the
  health entry that the publication wrote for the same id.
\<close>

lemma stale_worker_overwrites_health:
  assumes "sy_held y = None" "k < length (sm_workers (sy_mgr y))" "worker_cancelled (sy_mgr y) k"
    "wk_pending (sm_workers (sy_mgr y) ! k) = Some s"
  shows "\<exists>y'. sub_step L y (SFetch k) y' \<and> sy_disk y' = sy_disk y \<and>
    (\<exists>h. map_of (sm_health (sy_mgr y')) (sb_id s) = Some h \<and> \<not> sh_ok h \<and> sh_err h = Some FetchTransport)"
proof -
  let ?m = "record_health 0 (failed_update s FetchTransport) (sy_mgr y)"
  have f: "fetch_and_cache L NoResponse True None 0 s (sy_mgr y) (sy_disk y) =
      (failed_update s FetchTransport, ?m, sy_disk y, False)"
    by (simp add: fetch_and_cache_def do_fetch_and_cache_def fetch_and_parse_def)
  let ?y' = "y\<lparr>sy_mgr := set_pending k None ?m, sy_disk := sy_disk y\<rparr>"
  have "sub_step L y (SFetch k) ?y'" by (rule st_fetch [OF assms(1,2,4) _ f]) simp
  then show ?thesis by (rule exI [of _ ?y', OF conjI]) (simp add: set_pending_def record_health_def failed_update_def)
qed

end
