(* ===== verification/Fetch_Guard.thy ===== *)
theory Fetch_Guard
  imports Go_Net Go_Url
begin

text \<open>
  The HTTP client of the subscription fetcher (\<open>newSubHTTPClient\<close> and \<open>isInternalFetchIP\<close> in
  \<open>subscription.go\<close>): which address a fetch may connect to, through name resolution and redirects.
  What the resolvers answer, which connections come up and what a server replies are the fields of
  a world (\<open>fw_location\<close> is the absolute target of a redirect); the dialer of the standard library
  tries the addresses of a name in order and applies the \<open>Control\<close> hook to each one.
\<close>

section \<open>Special-purpose addresses\<close>

text \<open>\<open>netip.AddrFromSlice\<close> and \<open>Addr.Unmap\<close>\<close>

definition addr_from_slice :: "ip \<Rightarrow> addr option" where
  "addr_from_slice a =
     (if length a = 4 then Some (V4 a) else if length a = 16 then Some (V6 a) else None)"

definition unmap :: "addr \<Rightarrow> addr" where
  "unmap a = (case a of
     V4 b \<Rightarrow> V4 b
   | V6 b \<Rightarrow> if take 12 b = v4_in_v6_prefix then V4 (drop 12 b) else V6 b)"

text \<open>\<open>netip.Prefix.Contains\<close>: the families must agree.\<close>

record net_prefix =
  np_addr :: addr
  np_bits :: nat

definition prefix_contains :: "net_prefix \<Rightarrow> addr \<Rightarrow> bool" where
  "prefix_contains p a = (case (np_addr p, a) of
     (V4 x, V4 y) \<Rightarrow> ip_mask y (cidr_mask (np_bits p) 32) = ip_mask x (cidr_mask (np_bits p) 32)
   | (V6 x, V6 y) \<Rightarrow> ip_mask y (cidr_mask (np_bits p) 128) = ip_mask x (cidr_mask (np_bits p) 128)
   | _ \<Rightarrow> False)"

text \<open>\<open>netip.MustParsePrefix\<close>, which panics on text that is no prefix.\<close>

definition must_parse_prefix :: "string \<Rightarrow> net_prefix" where
  "must_parse_prefix s = (case index_byte s slash of
     Some k \<Rightarrow>
      (case (parse_addr (take k s), dtoi (drop (Suc k) s)) of
         (Some a, Some (n, _)) \<Rightarrow> \<lparr>np_addr = a, np_bits = n\<rparr>
       | _ \<Rightarrow> undefined)
   | None \<Rightarrow> undefined)"

definition special_fetch_deny_prefixes :: "net_prefix list" where
  "special_fetch_deny_prefixes = map must_parse_prefix
     [''0.0.0.0/8'', ''10.0.0.0/8'', ''100.64.0.0/10'', ''127.0.0.0/8'', ''169.254.0.0/16'', ''172.16.0.0/12'',
      ''192.0.0.0/24'', ''192.0.2.0/24'', ''192.31.196.0/24'', ''192.52.193.0/24'', ''192.88.99.0/24'',
      ''192.168.0.0/16'', ''192.175.48.0/24'', ''198.18.0.0/15'', ''198.51.100.0/24'', ''203.0.113.0/24'',
      ''224.0.0.0/4'', ''240.0.0.0/4'',
      ''::/128'', ''::1/128'', ''64:ff9b::/96'', ''64:ff9b:1::/48'', ''100::/64'', ''2001::/23'',
      ''2001:db8::/32'', ''2002::/16'', ''2620:4f:8000::/48'', ''3fff::/20'', ''5f00::/16'', ''fc00::/7'',
      ''fe80::/10'', ''ff00::/8'']"

definition is_internal_fetch_ip :: "ip \<Rightarrow> bool" where
  "is_internal_fetch_ip a = (case addr_from_slice a of
     None \<Rightarrow> True
   | Some ad \<Rightarrow> list_ex (\<lambda>p. prefix_contains p (unmap ad)) special_fetch_deny_prefixes)"

definition sub_dial_allowed :: "ip \<Rightarrow> bool" where
  "sub_dial_allowed a \<longleftrightarrow> \<not> is_internal_fetch_ip a"

section \<open>Dialling\<close>

record fetch_world =
  fw_trust :: "(string \<Rightarrow> ip list option) option"
  fw_system :: "string \<Rightarrow> ip list"
  fw_connect :: "ip \<Rightarrow> string \<Rightarrow> bool"
  fw_location :: "string \<Rightarrow> string option"

text \<open>\<open>base.DialContext\<close>: the first address the \<open>Control\<close> hook accepts and that answers.\<close>

definition base_dial :: "fetch_world \<Rightarrow> string \<Rightarrow> ip list \<Rightarrow> ip option" where
  "base_dial w port ips = List.find (\<lambda>a. sub_dial_allowed a \<and> fw_connect w a port) ips"

fun dial_trusted :: "fetch_world \<Rightarrow> string \<Rightarrow> ip list \<Rightarrow> ip option" where
  "dial_trusted w port [] = None"
| "dial_trusted w port (a # as) =
     (if \<not> sub_dial_allowed a then dial_trusted w port as
      else case base_dial w port [a] of
        Some b \<Rightarrow> Some b
      | None \<Rightarrow> dial_trusted w port as)"

definition dial :: "fetch_world \<Rightarrow> string \<Rightarrow> ip option" where
  "dial w address = (case split_host_port address of
     None \<Rightarrow> None
   | Some (host, port) \<Rightarrow>
      (case parse_ip host of
         Some a \<Rightarrow> base_dial w port [a]
       | None \<Rightarrow>
          (case (case fw_trust w of
                   None \<Rightarrow> None
                 | Some resolve \<Rightarrow> (case resolve host of None \<Rightarrow> None | Some ips \<Rightarrow> dial_trusted w port ips)) of
             Some a \<Rightarrow> Some a
           | None \<Rightarrow> base_dial w port (fw_system w host))))"

section \<open>Redirects\<close>

datatype redirect_error = TooManyRedirects | RefusedScheme

definition check_redirect :: "string \<Rightarrow> nat \<Rightarrow> redirect_error option" where
  "check_redirect scheme via =
     (if via \<ge> 5 then Some TooManyRedirects
      else if scheme \<noteq> ''http'' \<and> scheme \<noteq> ''https'' then Some RefusedScheme else None)"

text \<open>The host and port a request is dialled at.\<close>

definition request_address :: "go_url \<Rightarrow> string" where
  "request_address u = join_host_port (url_hostname u)
     (if url_port u \<noteq> [] then url_port u else if u_scheme u = ''https'' then ''443'' else ''80'')"

text \<open>
  \<open>client.Do\<close>: the addresses it connected to, in order, and whether a response that is no redirect
  arrived. \<open>via\<close> counts the requests made.
\<close>

function client_do :: "fetch_world \<Rightarrow> nat \<Rightarrow> string \<Rightarrow> ip list \<times> bool" where
  "client_do w via raw = (case url_parse raw of
     None \<Rightarrow> ([], False)
   | Some u \<Rightarrow>
      (case dial w (request_address u) of
         None \<Rightarrow> ([], False)
       | Some a \<Rightarrow>
          (case fw_location w raw of
             None \<Rightarrow> ([a], True)
           | Some next_url \<Rightarrow>
              (case url_parse next_url of
                 None \<Rightarrow> ([a], False)
               | Some u' \<Rightarrow>
                  if check_redirect (u_scheme u') (Suc via) \<noteq> None then ([a], False)
                  else let (as, ok) = client_do w (Suc via) next_url in (a # as, ok)))))"
  by pat_completeness auto
termination
  by (relation "measure (\<lambda>(w, via, raw). 5 - via)") (auto simp: check_redirect_def split: if_splits)

section \<open>The guard\<close>

lemma deny_prefixes:
  "special_fetch_deny_prefixes =
     [\<lparr>np_addr = V4 [0, 0, 0, 0], np_bits = 8\<rparr>,
      \<lparr>np_addr = V4 [10, 0, 0, 0], np_bits = 8\<rparr>,
      \<lparr>np_addr = V4 [100, 64, 0, 0], np_bits = 10\<rparr>,
      \<lparr>np_addr = V4 [127, 0, 0, 0], np_bits = 8\<rparr>,
      \<lparr>np_addr = V4 [169, 254, 0, 0], np_bits = 16\<rparr>,
      \<lparr>np_addr = V4 [172, 16, 0, 0], np_bits = 12\<rparr>,
      \<lparr>np_addr = V4 [192, 0, 0, 0], np_bits = 24\<rparr>,
      \<lparr>np_addr = V4 [192, 0, 2, 0], np_bits = 24\<rparr>,
      \<lparr>np_addr = V4 [192, 31, 196, 0], np_bits = 24\<rparr>,
      \<lparr>np_addr = V4 [192, 52, 193, 0], np_bits = 24\<rparr>,
      \<lparr>np_addr = V4 [192, 88, 99, 0], np_bits = 24\<rparr>,
      \<lparr>np_addr = V4 [192, 168, 0, 0], np_bits = 16\<rparr>,
      \<lparr>np_addr = V4 [192, 175, 48, 0], np_bits = 24\<rparr>,
      \<lparr>np_addr = V4 [198, 18, 0, 0], np_bits = 15\<rparr>,
      \<lparr>np_addr = V4 [198, 51, 100, 0], np_bits = 24\<rparr>,
      \<lparr>np_addr = V4 [203, 0, 113, 0], np_bits = 24\<rparr>,
      \<lparr>np_addr = V4 [224, 0, 0, 0], np_bits = 4\<rparr>,
      \<lparr>np_addr = V4 [240, 0, 0, 0], np_bits = 4\<rparr>,
      \<lparr>np_addr = V6 ([] @ replicate 16 0), np_bits = 128\<rparr>,
      \<lparr>np_addr = V6 [0, 0, 0, 0, 0, 0, 0, 0, 0, 0, 0, 0, 0, 0, 0, 1], np_bits = 128\<rparr>,
      \<lparr>np_addr = V6 ([0, 100, 255, 155] @ replicate 12 0), np_bits = 96\<rparr>,
      \<lparr>np_addr = V6 ([0, 100, 255, 155, 0, 1] @ replicate 10 0), np_bits = 48\<rparr>,
      \<lparr>np_addr = V6 ([1] @ replicate 15 0), np_bits = 64\<rparr>,
      \<lparr>np_addr = V6 ([32, 1] @ replicate 14 0), np_bits = 23\<rparr>,
      \<lparr>np_addr = V6 ([32, 1, 13, 184] @ replicate 12 0), np_bits = 32\<rparr>,
      \<lparr>np_addr = V6 ([32, 2] @ replicate 14 0), np_bits = 16\<rparr>,
      \<lparr>np_addr = V6 ([38, 32, 0, 79, 128] @ replicate 11 0), np_bits = 48\<rparr>,
      \<lparr>np_addr = V6 ([63, 255] @ replicate 14 0), np_bits = 20\<rparr>,
      \<lparr>np_addr = V6 ([95] @ replicate 15 0), np_bits = 16\<rparr>,
      \<lparr>np_addr = V6 ([252] @ replicate 15 0), np_bits = 7\<rparr>,
      \<lparr>np_addr = V6 ([254, 128] @ replicate 14 0), np_bits = 10\<rparr>,
      \<lparr>np_addr = V6 ([255] @ replicate 15 0), np_bits = 8\<rparr>]"
  by code_simp

lemma addr_from_slice_4: "length a = 4 \<Longrightarrow> addr_from_slice a = Some (V4 a)"
  by (simp add: addr_from_slice_def)

lemma cidr_mask_32: "cidr_mask n 32 = [mask_byte n, mask_byte (n - 8), mask_byte (n - 16), mask_byte (n - 24)]"
  by (simp add: cidr_mask_def upt_rec)

lemma internal_v4:
  "is_internal_fetch_ip [a, b, c, d] \<longleftrightarrow>
     a = 0 \<or> a = 10 \<or> (a = 100 \<and> b AND 192 = 64) \<or> a = 127 \<or> (a = 169 \<and> b = 254) \<or> (a = 172 \<and> b AND 240 = 16) \<or>
     (a = 192 \<and> b = 0 \<and> c = 0) \<or> (a = 192 \<and> b = 0 \<and> c = 2) \<or> (a = 192 \<and> b = 31 \<and> c = 196) \<or> (a = 192 \<and> b = 52 \<and> c = 193) \<or>
     (a = 192 \<and> b = 88 \<and> c = 99) \<or> (a = 192 \<and> b = 168) \<or> (a = 192 \<and> b = 175 \<and> c = 48) \<or>
     (a = 198 \<and> b AND 254 = 18) \<or> (a = 198 \<and> b = 51 \<and> c = 100) \<or> (a = 203 \<and> b = 0 \<and> c = 113) \<or>
     a AND 240 = 224 \<or> a AND 240 = 240"
proof -
  have m: "mask_byte 0 = 0" "mask_byte 2 = 192" "mask_byte 4 = 240" "mask_byte 7 = 254" "mask_byte 8 = - 1"
    "mask_byte 15 = - 1" "mask_byte 10 = - 1" "mask_byte 12 = - 1" "mask_byte 16 = - 1" "mask_byte 24 = - 1"
    by code_simp+
  show ?thesis
    by (simp add: is_internal_fetch_ip_def addr_from_slice_def unmap_def deny_prefixes prefix_contains_def
      cidr_mask_32 ip_mask_def m)
qed

lemma internal_mapped:
  "length b = 4 \<Longrightarrow> is_internal_fetch_ip (v4_in_v6_prefix @ b) = is_internal_fetch_ip b"
  by (simp add: is_internal_fetch_ip_def addr_from_slice_def unmap_def v4_in_v6_prefix_def)

lemma base_dial_allowed: "base_dial w port ips = Some a \<Longrightarrow> a \<in> set ips \<and> sub_dial_allowed a \<and> fw_connect w a port"
  by (auto simp: base_dial_def find_Some_iff in_set_conv_nth)

lemma dial_trusted_allowed: "dial_trusted w port ips = Some a \<Longrightarrow> sub_dial_allowed a"
  by (induction w port ips rule: dial_trusted.induct) (auto dest: base_dial_allowed split: if_splits option.splits)

lemma dial_allowed: "dial w address = Some a \<Longrightarrow> sub_dial_allowed a"
  by (auto simp: dial_def dest: base_dial_allowed dial_trusted_allowed split: option.splits prod.splits)

lemma client_do_spec:
  "(\<forall>a\<in>set (fst (client_do w via raw)). sub_dial_allowed a) \<and> (via \<le> 4 \<longrightarrow> via + length (fst (client_do w via raw)) \<le> 5)"
proof (induction w via raw rule: client_do.induct)
  case (1 w via raw)
  show ?case
  proof (cases "url_parse raw")
    case u: (Some u)
    show ?thesis
    proof (cases "dial w (request_address u)")
      case a: (Some a)
      have al: "sub_dial_allowed a" by (rule dial_allowed [OF a])
      show ?thesis
      proof (cases "fw_location w raw")
        case l: (Some nx)
        show ?thesis
        proof (cases "url_parse nx")
          case u': (Some u')
          show ?thesis
          proof (cases "check_redirect (u_scheme u') (Suc via)")
            case None
            then have v: "Suc via \<le> 4" by (simp add: check_redirect_def split: if_splits)
            have "client_do w via raw = (a # fst (client_do w (Suc via) nx), snd (client_do w (Suc via) nx))"
              using u a l u' None by (subst client_do.simps) (simp add: split_beta)
            then show ?thesis using 1 [OF u a l u'] None v al by simp
          next
            case (Some e)
            then show ?thesis using u a l u' al by (subst (1 2) client_do.simps) simp
          qed
        qed (use u a l al in \<open>subst (1 2) client_do.simps, simp\<close>)
      qed (use u a al in \<open>subst (1 2) client_do.simps, simp\<close>)
    qed (use u in \<open>subst (1 2) client_do.simps, simp\<close>)
  qed (subst (1 2) client_do.simps, simp)
qed

text \<open>C40: A subscription fetch never reaches an internal address. Whatever the URL, the answers of both
  resolvers (rebinding included), the redirects of the servers and the connections that come up, no
  address a fetch connects to is one of the special-purpose ranges, in its IPv4 form or mapped into
  IPv6: not loopback, private, link-local (the metadata address 169.254.169.254), carrier-grade
  NAT, multicast or reserved; and one fetch makes at most five requests.\<close>

theorem fetch_never_internal:
  assumes "c \<in> set (fst (client_do w 0 raw))"
  shows "\<not> is_internal_fetch_ip c \<and> length (fst (client_do w 0 raw)) \<le> 5 \<and>
    (\<forall>a b. c \<notin> {[127, a, b, x], [10, a, b, x], [192, 168, a, b], [169, 254, a, b], [0, a, b, x],
      v4_in_v6_prefix @ [127, a, b, x], v4_in_v6_prefix @ [10, a, b, x], v4_in_v6_prefix @ [192, 168, a, b],
      v4_in_v6_prefix @ [169, 254, a, b]})"
proof -
  have n: "\<not> is_internal_fetch_ip c" and l: "length (fst (client_do w 0 raw)) \<le> 5"
    using client_do_spec [of w 0 raw] assms by (auto simp: sub_dial_allowed_def)
  have "is_internal_fetch_ip c" if "c \<in> {[127, a, b, x], [10, a, b, x], [192, 168, a, b], [169, 254, a, b], [0, a, b, x],
      v4_in_v6_prefix @ [127, a, b, x], v4_in_v6_prefix @ [10, a, b, x], v4_in_v6_prefix @ [192, 168, a, b],
      v4_in_v6_prefix @ [169, 254, a, b]}" for a b
    using that by (auto simp: internal_v4 internal_mapped)
  then show ?thesis using n l by blast
qed

definition ex_world :: fetch_world where
  "ex_world = \<lparr>fw_trust = Some (\<lambda>h. Some [[10, 0, 0, 1], [8, 8, 4, 4]]), fw_system = (\<lambda>h. []),
     fw_connect = (\<lambda>a p. True), fw_location = (\<lambda>u. None)\<rparr>"

lemma fetch_never_internal_witness:
  "[8, 8, 4, 4] \<in> set (fst (client_do ex_world 0 ''https://lists.example/x'')) \<and> \<not> is_internal_fetch_ip [8, 8, 4, 4]"
proof -
  have "client_do ex_world 0 ''https://lists.example/x'' = ([[8, 8, 4, 4]], True)" by code_simp
  then have m: "[8, 8, 4, 4] \<in> set (fst (client_do ex_world 0 ''https://lists.example/x''))" by simp
  from fetch_never_internal [OF this] m show ?thesis by blast
qed

end
