(* ===== verification/Policy_Engine.thy ===== *)
theory Policy_Engine
  imports Policy_Runtime Sub_Generation
begin

text \<open>
  \<open>policy_engine.go\<close>: one application of the policy model. \<open>CompileAndApply\<close> compiles the model,
  prepares the subscription generation, and commits both under the revision of the model it compiled:
  cache files, runtime snapshot, reload, publication. Console edits that arrive while the lists are
  fetched, every file operation's outcome and what \<open>loadRuleSets\<close> makes of the files are arguments; the
  reload is the closure of \<open>main.go\<close>, which swaps the loaded rule sets into the handler with
  \<open>swapRuleSets\<close> of \<open>handler.go\<close>. The engine's parts that may be nil are options or flags; \<open>'h\<close> is the
  handler's rule set.
\<close>

section \<open>State\<close>

datatype engine_error =
    EngNoManager | EngCompile compile_error | EngPrepare sub_error | EngCancelled
  | EngPolicy policy_error | EngCommit sub_error bool | EngRuntime compile_error bool | EngReload bool

record 'h engine =
  en_policy :: "policy_manager option"
  en_subs :: "sub_manager option"
  en_disk :: "content disk"
  en_live :: 'h
  en_has_handler :: bool
  en_paused :: bool
  en_published :: "(policy_model \<times> runtime_snapshot) option"
  en_flushes :: nat

text \<open>
  What happens around one apply: the fetch outcomes and the context's state after each, the map
  iteration orders, whether the context is done after preparation, the edits between the snapshot and
  the commit, the outcomes of the commit's and the rollback's file operations, and the time.
\<close>

record apply_env =
  ae_fetch :: "subscription \<Rightarrow> http_outcome"
  ae_ctx_done :: "subscription \<Rightarrow> bool"
  ae_order :: "string list \<Rightarrow> string list"
  ae_order_writes :: "(string \<times> string list) list \<Rightarrow> (string \<times> string list) list"
  ae_cancelled :: bool
  ae_edit :: "policy_manager \<Rightarrow> policy_manager"
  ae_commit :: disk_faults
  ae_rollback :: disk_faults
  ae_now :: go_time

text \<open>The rule files \<open>CompileRuntimePolicy\<close> reads: the cache files below the rules directory.\<close>

definition rule_file_of :: "content disk_entry \<Rightarrow> rule_file" where
  "rule_file_of e = (case e of Absent \<Rightarrow> FileMissing | Stored (Text t) m \<Rightarrow> FileText t | _ \<Rightarrow> FileOpenError)"

definition files_on :: "string \<Rightarrow> content disk \<Rightarrow> string \<Rightarrow> string \<Rightarrow> rule_file" where
  "files_on rules_dir d cat base = rule_file_of (d (path_join [rules_dir, cat, base]))"

section \<open>Publishing to the handler\<close>

definition publish_prepared_policy :: "policy_model \<Rightarrow> runtime_snapshot \<Rightarrow> 'h engine \<Rightarrow> 'h engine" where
  "publish_prepared_policy model snap e = e\<lparr>en_published := Some (model, snap), en_flushes := Suc (en_flushes e)\<rparr>"

definition prepare_runtime :: "string \<Rightarrow> 'h engine \<Rightarrow> engine_error option \<times> 'h engine" where
  "prepare_runtime rules_dir e = (case en_policy e of
     None \<Rightarrow> (None, e)
   | Some g \<Rightarrow>
      (if \<not> en_has_handler e then (None, e)
       else let (model, revision) = pm_snapshot g in
         case compile_runtime_policy model (files_on rules_dir (en_disk e)) of
           Inl err \<Rightarrow> (Some (EngRuntime err True), e)
         | Inr snap \<Rightarrow> (None, publish_prepared_policy model snap e)))"

text \<open>
  \<open>refreshOrderedPolicy\<close>: the published model is compiled again from the files; when that fails the
  snapshot stays. \<open>swapRuleSets\<close>: the new rule set is live, the snapshot is refreshed unless that is
  paused, and the response cache is flushed.
\<close>

definition refresh_ordered_policy :: "string \<Rightarrow> 'h engine \<Rightarrow> 'h engine" where
  "refresh_ordered_policy rules_dir e = (case en_published e of
     None \<Rightarrow> e
   | Some (model, old) \<Rightarrow>
      (case compile_runtime_policy model (files_on rules_dir (en_disk e)) of
         Inl err \<Rightarrow> e
       | Inr snap \<Rightarrow> e\<lparr>en_published := Some (model, snap)\<rparr>))"

definition swap_rule_sets :: "string \<Rightarrow> 'h \<Rightarrow> 'h engine \<Rightarrow> 'h engine" where
  "swap_rule_sets rules_dir cn e =
     (let e1 = e\<lparr>en_live := cn\<rparr>;
          e2 = (if en_paused e1 then e1 else refresh_ordered_policy rules_dir e1)
      in e2\<lparr>en_flushes := Suc (en_flushes e2)\<rparr>)"

text \<open>The closure \<open>reload\<close> of \<open>main.go\<close>; \<open>None\<close> is an error of \<open>loadRuleSets\<close>.\<close>

definition reload_rule_sets :: "(content disk \<Rightarrow> 'h option) \<Rightarrow> string \<Rightarrow> 'h engine \<Rightarrow> bool \<times> 'h engine" where
  "reload_rule_sets load rules_dir e = (case load (en_disk e) of
     None \<Rightarrow> (False, e)
   | Some cn \<Rightarrow> (True, swap_rule_sets rules_dir cn e))"

section \<open>CompileAndApply\<close>

text \<open>The rollback closure: the cause, and whether the restore succeeded.\<close>

definition engine_rollback :: "apply_env \<Rightarrow> prepared option \<Rightarrow> 'h engine \<Rightarrow> bool \<times> 'h engine" where
  "engine_rollback env ps e = (case ps of
     None \<Rightarrow> (True, e)
   | Some p \<Rightarrow> let (ok, d, p1) = rollback (ae_rollback env) p (en_disk e) in (ok, e\<lparr>en_disk := d\<rparr>))"

definition engine_reload ::
    "(content disk \<Rightarrow> 'h option) option \<Rightarrow> string \<Rightarrow> 'h engine \<Rightarrow> bool \<times> 'h engine" where
  "engine_reload reload rules_dir e = (case reload of
     None \<Rightarrow> (True, e)
   | Some load \<Rightarrow>
      let e1 = (if en_has_handler e then e\<lparr>en_paused := True\<rparr> else e);
          (ok, e2) = reload_rule_sets load rules_dir e1
      in (ok, if en_has_handler e2 then e2\<lparr>en_paused := False\<rparr> else e2))"

text \<open>The function that runs under \<open>CommitIfRevision\<close>.\<close>

definition commit_body ::
    "apply_env \<Rightarrow> (content disk \<Rightarrow> 'h option) option \<Rightarrow> string \<Rightarrow> policy_model \<Rightarrow> prepared option \<Rightarrow>
     'h engine \<Rightarrow> engine_error option \<times> 'h engine" where
  "commit_body env reload rules_dir model ps e =
     (let (cerr, ps1, e1) = (case (ps, en_subs e) of
            (Some p, Some m) \<Rightarrow>
              (let (err, d, p1) = commit_files (ae_commit env) (ae_order_writes env (pg_writes p))
                     (ae_order env (pg_removes p)) (sm_path m) p (en_disk e)
               in (err, Some p1, e\<lparr>en_disk := d\<rparr>))
          | _ \<Rightarrow> (None, ps, e))
      in case cerr of
        Some err \<Rightarrow> let (ok, e2) = engine_rollback env ps1 e1 in (Some (EngCommit err ok), e2)
      | None \<Rightarrow>
         (case compile_runtime_policy model (files_on rules_dir (en_disk e1)) of
            Inl err \<Rightarrow> let (ok, e2) = engine_rollback env ps1 e1 in (Some (EngRuntime err ok), e2)
          | Inr snap \<Rightarrow>
             (case engine_reload reload rules_dir e1 of
                (False, e2) \<Rightarrow> let (ok, e3) = engine_rollback env ps1 e2 in (Some (EngReload ok), e3)
              | (True, e2) \<Rightarrow>
                 let e3 = (if en_has_handler e2 then publish_prepared_policy model snap e2 else e2)
                 in (case (ps1, en_subs e3) of
                       (Some p, Some m) \<Rightarrow> (None, e3\<lparr>en_subs := Some (fst (publish (ae_now env) p m))\<rparr>)
                     | _ \<Rightarrow> (None, e3)))))"

definition compile_and_apply ::
    "dns_lib \<Rightarrow> apply_env \<Rightarrow> (content disk \<Rightarrow> 'h option) option \<Rightarrow> string \<Rightarrow> 'h engine \<Rightarrow>
       engine_error option \<times> 'h engine" where
  "compile_and_apply L env reload rules_dir e = (case en_policy e of
     None \<Rightarrow> (Some EngNoManager, e)
   | Some g \<Rightarrow>
      let (model, revision) = pm_snapshot g in
      case compile_policy model of
        Inl err \<Rightarrow> (Some (EngCompile err), e)
      | Inr subs \<Rightarrow>
         (case (case en_subs e of
                  None \<Rightarrow> Inr None
                | Some m \<Rightarrow>
                   (case prepare_policy_generation L (ae_fetch env) (ae_ctx_done env) (ae_order env) subs m (en_disk e) of
                      Inl err \<Rightarrow> Inl err
                    | Inr p \<Rightarrow> Inr (Some p))) of
            Inl err \<Rightarrow> (Some (EngPrepare err), e)
          | Inr ps \<Rightarrow>
             if ae_cancelled env then
               (Some EngCancelled, snd (engine_rollback env ps e))
             else
               let g1 = ae_edit env g; e1 = e\<lparr>en_policy := Some g1\<rparr>;
                   (perr, eerr, e2) = commit_if_revision revision g1
                     (\<lambda>(err, s). let (err', s') = commit_body env reload rules_dir model ps s in (None, err', s'))
                     (None, e1)
               in case perr of
                    Some err \<Rightarrow> (Some (EngPolicy err), snd (engine_rollback env ps e2))
                  | None \<Rightarrow> (eerr, e2)))"

section \<open>Properties\<close>

definition orders_ok :: "apply_env \<Rightarrow> bool" where
  "orders_ok env \<longleftrightarrow> (\<forall>xs. set (ae_order env xs) = set xs) \<and> (\<forall>ws. set (ae_order_writes env ws) = set ws)"

text \<open>A generation prepared from the engine's own subscriptions and disk.\<close>

definition prepared_from :: "dns_lib \<Rightarrow> apply_env \<Rightarrow> subscription list \<Rightarrow> 'h engine \<Rightarrow> prepared option \<Rightarrow> bool" where
  "prepared_from L env subs e ps \<longleftrightarrow> (case (ps, en_subs e) of
     (Some p, Some m) \<Rightarrow>
       prepare_policy_generation L (ae_fetch env) (ae_ctx_done env) (ae_order env) subs m (en_disk e) = Inr p
   | (None, None) \<Rightarrow> True
   | _ \<Rightarrow> False)"

lemma prepared_cases:
  assumes "prepared_from L env subs e ps"
  obtains "ps = None" "en_subs e = None"
  | p m where "ps = Some p" "en_subs e = Some m"
    "prepare_policy_generation L (ae_fetch env) (ae_ctx_done env) (ae_order env) subs m (en_disk e) = Inr p"
  using assms by (auto simp: prepared_from_def split: option.splits)

lemma engine_rollback_fields [simp]:
  "en_policy (snd (engine_rollback env ps e)) = en_policy e" "en_subs (snd (engine_rollback env ps e)) = en_subs e"
  "en_live (snd (engine_rollback env ps e)) = en_live e" "en_published (snd (engine_rollback env ps e)) = en_published e"
  "en_flushes (snd (engine_rollback env ps e)) = en_flushes e"
  by (simp_all add: engine_rollback_def split_beta split: option.split)

lemma refresh_fields [simp]:
  "en_policy (refresh_ordered_policy rd e) = en_policy e" "en_subs (refresh_ordered_policy rd e) = en_subs e"
  "en_disk (refresh_ordered_policy rd e) = en_disk e" "en_live (refresh_ordered_policy rd e) = en_live e"
  "en_flushes (refresh_ordered_policy rd e) = en_flushes e"
  "en_has_handler (refresh_ordered_policy rd e) = en_has_handler e"
  by (simp_all add: refresh_ordered_policy_def split: option.split sum.split)

lemma engine_reload_fields [simp]:
  "en_policy (snd (engine_reload f rd e)) = en_policy e" "en_subs (snd (engine_reload f rd e)) = en_subs e"
  "en_disk (snd (engine_reload f rd e)) = en_disk e"
  "en_has_handler (snd (engine_reload f rd e)) = en_has_handler e"
  by (simp_all add: engine_reload_def reload_rule_sets_def swap_rule_sets_def Let_def split: option.split)

text \<open>A reload that succeeds puts the loaded rule set live and flushes once; one that fails does nothing.\<close>

lemma engine_reload_effect:
  assumes "engine_reload f rd e = (ok, e')"
  shows "ok \<Longrightarrow> en_live e' = (case f of None \<Rightarrow> en_live e | Some load \<Rightarrow> the (load (en_disk e)))"
    "ok \<Longrightarrow> en_flushes e' = en_flushes e + (if f = None then 0 else 1)"
    "\<not> ok \<Longrightarrow> en_live e' = en_live e \<and> en_flushes e' = en_flushes e \<and> en_published e' = en_published e"
proof -
  let ?e1 = "if en_has_handler e then e\<lparr>en_paused := True\<rparr> else e"
  have [simp]: "en_disk ?e1 = en_disk e" "en_live ?e1 = en_live e" "en_flushes ?e1 = en_flushes e"
    "en_published ?e1 = en_published e" by simp_all
  have swap: "en_live (swap_rule_sets rd cn ?e1) = cn" "en_flushes (swap_rule_sets rd cn ?e1) = Suc (en_flushes e)" for cn
    by (simp_all add: swap_rule_sets_def Let_def)
  show "ok \<Longrightarrow> en_live e' = (case f of None \<Rightarrow> en_live e | Some load \<Rightarrow> the (load (en_disk e)))"
    "ok \<Longrightarrow> en_flushes e' = en_flushes e + (if f = None then 0 else 1)"
    "\<not> ok \<Longrightarrow> en_live e' = en_live e \<and> en_flushes e' = en_flushes e \<and> en_published e' = en_published e"
    using assms swap by (cases f; cases "the f (en_disk e)"; auto simp: engine_reload_def reload_rule_sets_def Let_def)+
qed

text \<open>The part of the state a failed apply must leave alone, whatever becomes of the rules on disk.\<close>

definition same_but_rules :: "'h engine \<Rightarrow> 'h engine \<Rightarrow> bool" where
  "same_but_rules e e' \<longleftrightarrow> en_policy e' = en_policy e \<and> en_subs e' = en_subs e \<and> en_disk e' = en_disk e \<and>
     en_live e' = en_live e \<and> en_published e' = en_published e \<and> en_flushes e' = en_flushes e"

lemma rollback_before_commit:
  assumes "prepared_from L env subs e ps" "orders_ok env"
  shows "same_but_rules e (snd (engine_rollback env ps e))"
  using assms(1)
proof (cases rule: prepared_cases)
  case 1
  then show ?thesis by (simp add: same_but_rules_def engine_rollback_def)
next
  case (2 p m)
  have "\<forall>xs. set (ae_order env xs) = set xs" using assms(2) by (simp add: orders_ok_def)
  from prepare_facts(4,5) [OF 2(3) this] show ?thesis
    using 2(1) by (simp add: same_but_rules_def engine_rollback_def rollback_def)
qed

text \<open>The commit's first part, and what a rollback makes of it whatever else happened to the rules.\<close>

definition commit_stage :: "apply_env \<Rightarrow> prepared option \<Rightarrow> 'h engine \<Rightarrow> sub_error option \<times> prepared option \<times> 'h engine" where
  "commit_stage env ps e = (case (ps, en_subs e) of
     (Some p, Some m) \<Rightarrow>
       (let (err, d, p1) = commit_files (ae_commit env) (ae_order_writes env (pg_writes p))
              (ae_order env (pg_removes p)) (sm_path m) p (en_disk e)
        in (err, Some p1, e\<lparr>en_disk := d\<rparr>))
   | _ \<Rightarrow> (None, ps, e))"

lemma rollback_after_commit:
  assumes "prepared_from L env subs e ps" "orders_ok env" "no_faults (ae_rollback env)"
    "commit_stage env ps e = (err, ps1, e1)" "en_disk e2 = en_disk e1" "same_but_rules (e\<lparr>en_disk := en_disk e1\<rparr>) e2"
  shows "same_but_rules e (snd (engine_rollback env ps1 e2))"
  using assms(1)
proof (cases rule: prepared_cases)
  case 1
  then show ?thesis using assms(4-6) by (simp add: commit_stage_def same_but_rules_def engine_rollback_def)
next
  case (2 p m)
  have o: "\<forall>xs. set (ae_order env xs) = set xs" "\<forall>ws. set (ae_order_writes env ws) = set ws"
    using assms(2) by (simp_all add: orders_ok_def)
  obtain d p1 where c: "commit_files (ae_commit env) (ae_order_writes env (pg_writes p))
      (ae_order env (pg_removes p)) (sm_path m) p (en_disk e) = (err, d, p1)" "ps1 = Some p1" "en_disk e1 = d"
    using assms(4) 2(1,2) by (auto simp: commit_stage_def split: prod.splits)
  have "rollback (ae_rollback env) p1 d = (True, en_disk e, p1\<lparr>pg_released := True\<rparr>)"
    using rollback_restores_disk [OF 2(3) o(1) _ _ c(1) assms(3)] o by simp
  then show ?thesis using assms(5,6) c(2,3) by (simp add: same_but_rules_def engine_rollback_def)
qed

lemma commit_body_stages:
  "commit_body env reload rd model ps e =
     (case commit_stage env ps e of (cerr, ps1, e1) \<Rightarrow>
      (case cerr of
        Some err \<Rightarrow> let (ok, e2) = engine_rollback env ps1 e1 in (Some (EngCommit err ok), e2)
      | None \<Rightarrow>
         (case compile_runtime_policy model (files_on rd (en_disk e1)) of
            Inl err \<Rightarrow> let (ok, e2) = engine_rollback env ps1 e1 in (Some (EngRuntime err ok), e2)
          | Inr snap \<Rightarrow>
             (case engine_reload reload rd e1 of
                (False, e2) \<Rightarrow> let (ok, e3) = engine_rollback env ps1 e2 in (Some (EngReload ok), e3)
              | (True, e2) \<Rightarrow>
                 let e3 = (if en_has_handler e2 then publish_prepared_policy model snap e2 else e2)
                 in (case (ps1, en_subs e3) of
                       (Some p, Some m) \<Rightarrow> (None, e3\<lparr>en_subs := Some (fst (publish (ae_now env) p m))\<rparr>)
                     | _ \<Rightarrow> (None, e3))))))"
  unfolding commit_body_def commit_stage_def Let_def by (rule refl)

lemma commit_stage_fields:
  "commit_stage env ps e = (err, ps1, e1) \<Longrightarrow> e1 = e\<lparr>en_disk := en_disk e1\<rparr>"
  by (auto simp: commit_stage_def split: option.splits prod.splits)

lemma commit_body_failure:
  assumes "prepared_from L env subs e ps" "orders_ok env" "no_faults (ae_rollback env)"
    "commit_body env reload rd model ps e = (Some err, e')"
  shows "same_but_rules e e'"
proof -
  obtain cerr ps1 e1 where st: "commit_stage env ps e = (cerr, ps1, e1)" by (rule prod_cases3)
  note e1 = commit_stage_fields [OF st]
  have undo: "same_but_rules e (snd (engine_rollback env ps1 e2))"
    if "en_disk e2 = en_disk e1" "same_but_rules (e\<lparr>en_disk := en_disk e1\<rparr>) e2" for e2
    by (rule rollback_after_commit [OF assms(1-3) st that])
  have s1: "same_but_rules (e\<lparr>en_disk := en_disk e1\<rparr>) e1" using e1 by (simp add: same_but_rules_def)
  have "e' = snd (engine_rollback env ps1 e1) \<or>
      (\<exists>e2. engine_reload reload rd e1 = (False, e2) \<and> e' = snd (engine_rollback env ps1 e2))"
    using assms(4) unfolding commit_body_stages st
    by (auto simp: split_beta Let_def split: option.splits sum.splits bool.splits) (metis prod.collapse)+
  then show ?thesis
  proof
    assume "e' = snd (engine_rollback env ps1 e1)"
    then show ?thesis using undo [OF refl s1] by simp
  next
    assume "\<exists>e2. engine_reload reload rd e1 = (False, e2) \<and> e' = snd (engine_rollback env ps1 e2)"
    then obtain e2 where e2: "engine_reload reload rd e1 = (False, e2)" "e' = snd (engine_rollback env ps1 e2)" by blast
    have "same_but_rules e1 e2"
      using engine_reload_effect(3) [OF e2(1)] engine_reload_fields [of reload rd e1] e2(1) by (simp add: same_but_rules_def)
    then have "same_but_rules (e\<lparr>en_disk := en_disk e1\<rparr>) e2" "en_disk e2 = en_disk e1"
      using s1 by (simp_all add: same_but_rules_def)
    then show ?thesis using undo e2(2) by simp
  qed
qed

lemma commit_if_revision_cases:
  "commit_if_revision n g fn s = (if mg_revision g = n then fn s else (Some ErrPolicyRevisionChanged, s))"
  by (simp add: commit_if_revision_def)

text \<open>How an apply that gets past its preparation goes on.\<close>

lemma apply_cases:
  assumes "compile_and_apply L env reload rd e = (r, e')" "en_policy e = Some g"
  obtains "r \<noteq> None" "e' = e"
  | ps subs where "prepared_from L env subs e ps" "r \<noteq> None"
      "e' = snd (engine_rollback env ps (e\<lparr>en_policy := en_policy e'\<rparr>))" "en_policy e' \<in> {Some g, Some (ae_edit env g)}"
  | ps subs where "prepared_from L env subs e ps" "compile_policy (mg_model g) = Inr subs"
      "mg_revision (ae_edit env g) = mg_revision g"
      "commit_body env reload rd (mg_model g) ps (e\<lparr>en_policy := Some (ae_edit env g)\<rparr>) = (r, e')"
proof -
  show thesis
  proof (cases "compile_policy (mg_model g)")
    case (Inl err)
    then show thesis using assms that(1) by (auto simp: compile_and_apply_def pm_snapshot_def)
  next
    case (Inr subs)
    define prep where "prep = (case en_subs e of
                  None \<Rightarrow> Inr None
                | Some m \<Rightarrow>
                   (case prepare_policy_generation L (ae_fetch env) (ae_ctx_done env) (ae_order env) subs m (en_disk e) of
                      Inl err \<Rightarrow> Inl err
                    | Inr p \<Rightarrow> Inr (Some p)))"
    show thesis
    proof (cases prep)
      case (Inl err)
      then show thesis using assms \<open>compile_policy (mg_model g) = Inr subs\<close> that(1)
        by (auto simp: compile_and_apply_def pm_snapshot_def prep_def [symmetric])
    next
      case ps: (Inr ps)
      have pf: "prepared_from L env subs e ps"
        using ps by (auto simp: prep_def prepared_from_def split: option.splits sum.splits)
      let ?e1 = "e\<lparr>en_policy := Some (ae_edit env g)\<rparr>"
      show thesis
      proof (cases "ae_cancelled env")
        case True
        then have "r = Some EngCancelled" "e' = snd (engine_rollback env ps e)"
          using assms Inr ps by (auto simp: compile_and_apply_def pm_snapshot_def prep_def [symmetric])
        moreover have "e\<lparr>en_policy := Some g\<rparr> = e" using assms(2) by (cases e) simp
        then have "snd (engine_rollback env ps (e\<lparr>en_policy := Some g\<rparr>)) = snd (engine_rollback env ps e)" by metis
        ultimately show thesis using that(2) [OF pf] assms(2) by simp
      next
        case nc: False
        show thesis
        proof (cases "mg_revision (ae_edit env g) = mg_revision g")
          case True
          then have "commit_body env reload rd (mg_model g) ps ?e1 = (r, e')"
            using assms Inr ps nc
            by (auto simp: compile_and_apply_def pm_snapshot_def prep_def [symmetric] commit_if_revision_cases
                Let_def split_beta)
          then show thesis using that(3) [OF pf Inr True] by simp
        next
          case False
          then have "r = Some (EngPolicy ErrPolicyRevisionChanged)" "e' = snd (engine_rollback env ps ?e1)"
            using assms Inr ps nc
            by (auto simp: compile_and_apply_def pm_snapshot_def prep_def [symmetric] commit_if_revision_cases
                Let_def split_beta)
          then show thesis using that(2) [OF pf] by simp
        qed
      qed
    qed
  qed
qed

lemma prepared_from_policy: "prepared_from L env subs (e\<lparr>en_policy := g\<rparr>) ps = prepared_from L env subs e ps"
  by (simp add: prepared_from_def split: option.split)

text \<open>C3: A failed apply changes nothing. If \<open>CompileAndApply\<close> returns an error, wherever it arose
  (compilation, a list that cannot be prepared, a cancelled request, an edit in between, any file
  operation of the commit, the runtime compilation or the reload), and the rollback's own file
  operations succeed, then the disk, the subscriptions with their tickers and health, the live rule
  sets, the published policy and the response cache are those of before; the policy manager holds what
  the concurrent edits made of it.\<close>

theorem apply_failure_atomic:
  assumes "compile_and_apply L env reload rd e = (Some err, e')" "en_policy e = Some g"
    "orders_ok env" "no_faults (ae_rollback env)"
  shows "en_disk e' = en_disk e \<and> en_subs e' = en_subs e \<and> en_published e' = en_published e \<and>
    en_flushes e' = en_flushes e \<and> en_policy e' \<in> {Some g, Some (ae_edit env g)} \<and> en_live e' = en_live e"
  using assms(1,2)
proof (cases rule: apply_cases)
  case 1
  then show ?thesis using assms(2) by simp
next
  case (2 ps subs)
  let ?e1 = "e\<lparr>en_policy := en_policy e'\<rparr>"
  have "same_but_rules ?e1 (snd (engine_rollback env ps ?e1))"
    by (rule rollback_before_commit [OF _ assms(3)]) (use 2(1) in \<open>simp add: prepared_from_policy\<close>)
  then show ?thesis using 2(3,4) by (simp add: same_but_rules_def)
next
  case (3 ps subs)
  have "prepared_from L env subs (e\<lparr>en_policy := Some (ae_edit env g)\<rparr>) ps" using 3(1) by (simp add: prepared_from_policy)
  from commit_body_failure [OF this assms(3,4) 3(4)] show ?thesis by (simp add: same_but_rules_def)
qed

lemma commit_files_ok:
  assumes "commit_files io ws rs path p d = (None, d1, p1)"
  shows "d1 path = Stored (SubsDoc 1 (pg_final p)) 420"
  using assms unfolding commit_files_def Let_def
  by (auto simp: disk_write_def subs_schema_version_def split: if_splits option.splits prod.splits)

text \<open>C30: A successful apply publishes one consistent generation. If \<open>CompileAndApply\<close> returns no error,
  no edit changed the revision since the model was read; what the handler serves is that model with
  the snapshot compiled from the lists now on disk, and the rule sets the reload loaded from that same
  disk; the live subscriptions are the system's own followed by exactly those compiled from the model,
  and \<open>subscriptions.json\<close> holds the same list. The response cache was flushed when the snapshot was
  published, and once before by the reload, when the engine has one.\<close>

theorem apply_success_consistent:
  assumes "compile_and_apply L env reload rd e = (None, e')" "en_policy e = Some g" "en_subs e = Some m"
    "en_has_handler e" "orders_ok env"
  shows "mg_revision (ae_edit env g) = mg_revision g \<and>
    (\<exists>subs snap m'. compile_policy (mg_model g) = Inr subs \<and>
       compile_runtime_policy (mg_model g) (files_on rd (en_disk e')) = Inr snap \<and>
       en_published e' = Some (mg_model g, snap) \<and>
       en_live e' = (case reload of None \<Rightarrow> en_live e | Some load \<Rightarrow> the (load (en_disk e'))) \<and>
       en_flushes e' = en_flushes e + (if reload = None then 1 else 2) \<and>
       en_subs e' = Some m' \<and>
       sm_subs m' = filter (\<lambda>s. \<not> policy_owned_category (sb_category s)) (sm_subs m) @ subs \<and>
       en_disk e' (sm_path m) = Stored (SubsDoc 1 (sm_subs m')) 420)"
  using assms(1,2)
proof (cases rule: apply_cases)
  case (3 ps subs)
  let ?e = "e\<lparr>en_policy := Some (ae_edit env g)\<rparr>"
  obtain p where p: "ps = Some p"
    "prepare_policy_generation L (ae_fetch env) (ae_ctx_done env) (ae_order env) subs m (en_disk e) = Inr p"
    using 3(1) assms(3) by (cases rule: prepared_cases) auto
  have o: "\<forall>xs. set (ae_order env xs) = set xs" using assms(5) by (simp add: orders_ok_def)
  note f = prepare_facts [OF p(2) o]
  obtain cerr d p1 where c: "commit_files (ae_commit env) (ae_order_writes env (pg_writes p))
      (ae_order env (pg_removes p)) (sm_path m) p (en_disk e) = (cerr, d, p1)" by (rule prod_cases3)
  have st: "commit_stage env ps ?e = (cerr, Some p1, ?e\<lparr>en_disk := d\<rparr>)"
    using c p(1) assms(3) by (simp add: commit_stage_def)
  let ?e1 = "?e\<lparr>en_disk := d\<rparr>"
  have cn: "cerr = None" using 3(4) unfolding commit_body_stages st by (auto simp: split_beta Let_def split: option.splits)
  obtain snap where sn: "compile_runtime_policy (mg_model g) (files_on rd d) = Inr snap"
    using 3(4) unfolding commit_body_stages st cn by (auto simp: split_beta Let_def split: sum.splits)
  obtain e2 where rl: "engine_reload reload rd ?e1 = (True, e2)"
    using 3(4) sn unfolding commit_body_stages st cn
    by (cases "engine_reload reload rd ?e1") (auto simp: split_beta Let_def split: bool.splits)
  have e2: "en_subs e2 = Some m" "en_disk e2 = d" "en_has_handler e2"
    using engine_reload_fields [of reload rd ?e1] rl assms(3,4) by simp_all
  have live: "en_live e2 = (case reload of None \<Rightarrow> en_live e | Some load \<Rightarrow> the (load d))"
    "en_flushes e2 = en_flushes e + (if reload = None then 0 else 1)"
    using engine_reload_effect(1,2) [OF rl] by (simp_all split: option.split)
  have e': "e' = (publish_prepared_policy (mg_model g) snap e2)\<lparr>en_subs := Some (fst (publish (ae_now env) p1 m))\<rparr>"
    using 3(4) sn rl e2 unfolding commit_body_stages st cn by (simp add: publish_prepared_policy_def Let_def)
  have p1: "p1 = p\<lparr>pg_committed := True\<rparr>" by (rule commit_files_agree(2) [OF c f(5)])
  have "sm_subs (fst (publish (ae_now env) p1 m)) = pg_final p"
    using publish_subs [of p1 "ae_now env" m] f(5) p1 by simp
  moreover have "d (sm_path m) = Stored (SubsDoc 1 (pg_final p)) 420"
    by (rule commit_files_ok) (use c cn in simp)
  moreover have "en_disk e' = d" "en_published e' = Some (mg_model g, snap)"
    "en_subs e' = Some (fst (publish (ae_now env) p1 m))"
    "en_live e' = (case reload of None \<Rightarrow> en_live e | Some load \<Rightarrow> the (load d))"
    "en_flushes e' = en_flushes e + (if reload = None then 1 else 2)"
    unfolding e' publish_prepared_policy_def using e2 live by simp_all
  ultimately show ?thesis using 3(2,3) sn f(1) by (cases reload) simp_all
qed simp_all

section \<open>An apply, run\<close>

definition ex_rule :: policy_rule where
  "ex_rule = \<lparr>pr_id = ''ads'', pr_order = 0,
     pr_matcher = \<lparr>mt_kind = KindSubscription, mt_value = ''https://lists.example/x'', mt_format = ''plain'', mt_interval = 60\<rparr>,
     pr_intent = IntentBlock, pr_enabled = True\<rparr>"

definition ex_policy :: policy_manager where
  "ex_policy = \<lparr>mg_model = \<lparr>pm_version = 1, pm_rules = [ex_rule], pm_fallback = FallbackAuto\<rparr>, mg_revision = 2, mg_disk = PolicyMissing\<rparr>"

definition ex_engine :: "nat engine" where
  "ex_engine = \<lparr>en_policy = Some ex_policy, en_subs = Some ex_subs_manager, en_disk = ex_disk, en_live = 0,
     en_has_handler = True, en_paused = False, en_published = None, en_flushes = 0\<rparr>"

definition ex_env :: "disk_faults \<Rightarrow> apply_env" where
  "ex_env io = \<lparr>ae_fetch = (\<lambda>s. ex_list_outcome), ae_ctx_done = (\<lambda>s. False), ae_order = (\<lambda>xs. xs), ae_order_writes = (\<lambda>xs. xs),
     ae_cancelled = False, ae_edit = (\<lambda>g. g), ae_commit = io, ae_rollback = ex_no_faults, ae_now = 9\<rparr>"

lemma ex_orders: "orders_ok (ex_env io)"
  by (simp add: orders_ok_def ex_env_def)

lemma ex_apply_fails:
  "fst (compile_and_apply ref_lib (ex_env ex_faults) None ''/r'' ex_engine) = Some (EngCommit WriteError True)"
  by code_simp

definition ex_reload :: "(content disk \<Rightarrow> nat option) option" where
  "ex_reload = Some (\<lambda>d. Some 42)"

lemma ex_apply_works:
  "fst (compile_and_apply ref_lib (ex_env ex_no_faults) ex_reload ''/r'' ex_engine) = None"
  by code_simp

text \<open>The commit and the rollback go through, and it is the reload that fails.\<close>

lemma ex_reload_fails:
  "fst (compile_and_apply ref_lib (ex_env ex_no_faults) (Some (\<lambda>d. None)) ''/r'' ex_engine) = Some (EngReload True)"
  by code_simp

lemma apply_failure_atomic_witness:
  "fst (compile_and_apply ref_lib (ex_env ex_faults) None ''/r'' ex_engine) = Some (EngCommit WriteError True) \<and>
   en_disk (snd (compile_and_apply ref_lib (ex_env ex_faults) None ''/r'' ex_engine)) = ex_disk"
proof -
  obtain e' where r: "compile_and_apply ref_lib (ex_env ex_faults) None ''/r'' ex_engine = (Some (EngCommit WriteError True), e')"
    using ex_apply_fails by (metis prod.collapse)
  have g: "en_policy ex_engine = Some ex_policy" by (simp add: ex_engine_def)
  have n: "no_faults (ae_rollback (ex_env ex_faults))" by (simp add: ex_env_def no_faults_def ex_no_faults_def)
  have "en_disk e' = en_disk ex_engine" by (rule apply_failure_atomic [OF r g ex_orders n, THEN conjunct1])
  then show ?thesis using r by (simp add: ex_engine_def)
qed

lemma apply_success_consistent_witness:
  "let e' = snd (compile_and_apply ref_lib (ex_env ex_no_faults) ex_reload ''/r'' ex_engine) in
   (\<exists>snap. en_published e' = Some (mg_model ex_policy, snap)) \<and> en_live e' = 42 \<and> en_flushes e' = 2"
proof -
  obtain e' where r: "compile_and_apply ref_lib (ex_env ex_no_faults) ex_reload ''/r'' ex_engine = (None, e')"
    using ex_apply_works by (metis prod.collapse)
  have g: "en_policy ex_engine = Some ex_policy" "en_subs ex_engine = Some ex_subs_manager" "en_has_handler ex_engine"
    "en_flushes ex_engine = 0"
    by (simp_all add: ex_engine_def)
  from apply_success_consistent [OF r g(1-3) ex_orders] r g(4) show ?thesis by (auto simp: ex_reload_def)
qed

end
