(* ===== verification/Icp_Hosts.thy ===== *)
theory Icp_Hosts
  imports Go_Path Go_Url Intercept_Hosts
begin

text \<open>
  Host names and host patterns of the interception process (\<open>config.go\<close> and \<open>module_runtime.go\<close> of
  5gpn-intercept): the canonical form of a host, patterns with a leading \<open>*.\<close>, coverage of one pattern
  by another, and the compiled matcher that answers the same question by a set and a list of suffixes.
\<close>

section \<open>Canonical hosts and patterns\<close>

definition canonical_host :: "string \<Rightarrow> string" where
  "canonical_host value =
     (let host = to_lower (trim_space value);
          host = (if colon \<in> set host
                  then (case split_host_port host of Some (parsed, _) \<Rightarrow> parsed | None \<Rightarrow> host)
                  else host)
      in trim_suffix host [dot])"

definition match_host_pattern :: "string \<Rightarrow> string \<Rightarrow> bool" where
  "match_host_pattern pattern host =
     (if has_prefix pattern star_dot then
        (let suffix = trim_prefix pattern star_dot in
         length host > length suffix + 1 \<and> has_suffix host (dot # suffix))
      else host = pattern)"

definition host_pattern_covers :: "string \<Rightarrow> string \<Rightarrow> bool" where
  "host_pattern_covers allowed candidate =
     (if allowed = candidate then True
      else if \<not> has_prefix allowed star_dot then False
      else let base = trim_prefix allowed star_dot; candidate_base = trim_prefix candidate star_dot
           in has_suffix candidate_base (dot # base))"

definition host_covered_by :: "string list \<Rightarrow> string \<Rightarrow> bool" where
  "host_covered_by ps candidate = list_ex (\<lambda>p. host_pattern_covers p candidate) ps"

definition host_label_char :: "char \<Rightarrow> bool" where
  "host_label_char c \<longleftrightarrow> 97 \<le> char_code c \<and> char_code c \<le> 122 \<or> is_digit c \<or> c = CHR ''-''"

definition valid_host_label :: "string \<Rightarrow> bool" where
  "valid_host_label label \<longleftrightarrow>
     \<not> (label = [] \<or> length label > 63 \<or> hd label = CHR ''-'' \<or> last label = CHR ''-'') \<and>
     list_all host_label_char label"

definition valid_host_pattern :: "string \<Rightarrow> bool" where
  "valid_host_pattern pattern =
     (let p = to_lower (trim_space pattern);
          p = (if has_prefix p star_dot then trim_prefix p star_dot else p)
      in \<not> (CHR ''*'' \<in> set p \<or> length p > 253 \<or> dot \<notin> set p) \<and> list_all valid_host_label (Go_Path.split_on dot p))"

text \<open>\<open>uniqueSorted\<close>\<close>

definition unique_sorted :: "string list \<Rightarrow> string list" where
  "unique_sorted values = sort (remdups (map (\<lambda>v. to_lower (trim_space v)) values))"

section \<open>The compiled matcher\<close>

record host_matcher =
  hm_exact :: "string list"
  hm_wildcard :: "string list"

fun add_host_patterns :: "string list \<Rightarrow> host_matcher \<Rightarrow> string list \<Rightarrow> host_matcher" where
  "add_host_patterns seen m [] = m"
| "add_host_patterns seen m (p # ps) =
     (if has_prefix p star_dot then
        (let suffix = trim_prefix p star_dot in
         if suffix \<in> set seen then add_host_patterns seen m ps
         else add_host_patterns (suffix # seen) (m\<lparr>hm_wildcard := hm_wildcard m @ [suffix]\<rparr>) ps)
      else add_host_patterns seen (m\<lparr>hm_exact := List.insert p (hm_exact m)\<rparr>) ps)"

definition new_compiled_host_matcher :: "string list \<Rightarrow> host_matcher" where
  "new_compiled_host_matcher ps = add_host_patterns [] \<lparr>hm_exact = [], hm_wildcard = []\<rparr> ps"

definition matcher_match :: "host_matcher option \<Rightarrow> string \<Rightarrow> bool" where
  "matcher_match mo value = (case mo of
     None \<Rightarrow> False
   | Some m \<Rightarrow>
      let host = canonical_host value in
      if host \<in> set (hm_exact m) then True
      else list_ex (\<lambda>suffix.
             let separator = int (length host) - int (length suffix) - 1 in
             separator > 0 \<and> host ! nat separator = dot \<and> has_suffix host suffix) (hm_wildcard m))"

section \<open>The matcher answers for the patterns\<close>

lemma suffix_with_separator:
  "int (length host) - int (length suffix) - 1 > 0 \<and>
     host ! nat (int (length host) - int (length suffix) - 1) = dot \<and> has_suffix host suffix \<longleftrightarrow>
   length host > length suffix + 1 \<and> has_suffix host (dot # suffix)"
proof -
  have n: "nat (int (length (t @ x # suffix)) - int (length suffix) - 1) = length t" for t and x :: char by simp
  show ?thesis
  proof
    assume l: "int (length host) - int (length suffix) - 1 > 0 \<and>
      host ! nat (int (length host) - int (length suffix) - 1) = dot \<and> has_suffix host suffix"
    then obtain u where u: "host = u @ suffix" by (auto simp: has_suffix_iff)
    with l obtain t x where "u = t @ [x]" by (cases u rule: rev_cases) auto
    with u have h: "host = t @ x # suffix" by simp
    from l have "x = dot" unfolding h n by simp
    then show "length host > length suffix + 1 \<and> has_suffix host (dot # suffix)"
      using l h by (auto simp: has_suffix_iff)
  next
    assume r: "length host > length suffix + 1 \<and> has_suffix host (dot # suffix)"
    then obtain t where h: "host = t @ dot # suffix" by (auto simp: has_suffix_iff)
    show "int (length host) - int (length suffix) - 1 > 0 \<and>
      host ! nat (int (length host) - int (length suffix) - 1) = dot \<and> has_suffix host suffix"
      using r unfolding h n by (auto simp: has_suffix_iff)
  qed
qed

lemma add_host_patterns_sets:
  "set seen = set (hm_wildcard m) \<Longrightarrow>
   set (hm_exact (add_host_patterns seen m ps)) = set (hm_exact m) \<union> {p \<in> set ps. \<not> has_prefix p star_dot} \<and>
   set (hm_wildcard (add_host_patterns seen m ps)) =
     set (hm_wildcard m) \<union> (\<lambda>p. trim_prefix p star_dot) ` {p \<in> set ps. has_prefix p star_dot}"
proof (induction seen m ps rule: add_host_patterns.induct)
  case (2 seen m p ps)
  show ?case
  proof (cases "has_prefix p star_dot")
    case True
    show ?thesis
    proof (cases "trim_prefix p star_dot \<in> set seen")
      case seen: True
      then show ?thesis using 2(1) [OF True refl seen 2(4)] True 2(4) by (auto simp: Let_def)
    next
      case False
      then show ?thesis using 2(2) [OF True refl False] True 2(4) by (auto simp: Let_def)
    qed
  next
    case False
    then show ?thesis using 2(3) [OF False] 2(4) by auto
  qed
qed auto

text \<open>The compiled matcher is the pattern list: a host matches it exactly when its canonical form matches
  one of the patterns it was compiled from.
\<close>

theorem matcher_is_pattern_list:
  "matcher_match (Some (new_compiled_host_matcher ps)) value \<longleftrightarrow>
     list_ex (\<lambda>p. match_host_pattern p (canonical_host value)) ps"
proof -
  let ?h = "canonical_host value"
  have s: "set (hm_exact (new_compiled_host_matcher ps)) = {p \<in> set ps. \<not> has_prefix p star_dot}"
    "set (hm_wildcard (new_compiled_host_matcher ps)) = (\<lambda>p. trim_prefix p star_dot) ` {p \<in> set ps. has_prefix p star_dot}"
    using add_host_patterns_sets [of "[]" "\<lparr>hm_exact = [], hm_wildcard = []\<rparr>" ps]
    by (simp_all add: new_compiled_host_matcher_def)
  show ?thesis
    unfolding matcher_match_def Let_def option.case suffix_with_separator list_ex_iff s match_host_pattern_def
    by auto
qed

section \<open>Coverage\<close>


lemma star_dot_prefix: "has_prefix p star_dot \<Longrightarrow> p = star_dot @ trim_prefix p star_dot"
  by (auto simp: has_prefix_iff trim_prefix_def)

lemma has_suffix_append_eq: "has_suffix (a @ b) s \<Longrightarrow> length s \<le> length b \<Longrightarrow> has_suffix b s"
  by (auto simp: has_suffix_def)

lemma has_suffix_trans: "has_suffix a b \<Longrightarrow> has_suffix b c \<Longrightarrow> has_suffix a c"
  by (auto simp: has_suffix_iff)

lemma valid_pattern_first:
  assumes "valid_host_pattern c"
  shows "c \<noteq> dot # t"
proof
  assume c: "c = dot # t"
  have "\<not> is_space dot" by code_simp
  then have n: "trim_space c = dot # drop_while_end is_space t \<or> trim_space c = [dot]"
    unfolding c trim_space_def by (induction t rule: rev_induct) (simp_all add: drop_while_end_def dropWhile_append)
  then obtain u where u: "to_lower (trim_space c) = dot # u" by (auto simp: to_lower_def to_lower_char_dot)
  have "\<not> has_prefix (dot # u) star_dot" by (simp add: has_prefix_def star_dot_def dot_def)
  then have "list_all valid_host_label (Go_Path.split_on dot (dot # u))"
    using assms by (simp add: valid_host_pattern_def u)
  then show False by (simp add: valid_host_label_def)
qed

text \<open>A pattern that matches some host of every length past its own.\<close>

lemma match_wildcard: "has_prefix p star_dot \<Longrightarrow> match_host_pattern p (x # dot # trim_prefix p star_dot)"
  by (simp add: match_host_pattern_def Let_def has_suffix_iff)

lemma covers_sound:
  assumes "valid_host_pattern c" "host_pattern_covers a c" "match_host_pattern c h"
  shows "match_host_pattern a h"
proof (cases "a = c")
  case False
  let ?A = "trim_prefix a star_dot" and ?C = "trim_prefix c star_dot"
  have a: "has_prefix a star_dot" and s: "has_suffix ?C (dot # ?A)"
    using assms(2) False by (simp_all add: host_pattern_covers_def Let_def split: if_splits)
  have "length h > length ?A + 1 \<and> has_suffix h (dot # ?A)"
  proof (cases "has_prefix c star_dot")
    case True
    then have h: "length h > length ?C + 1" "has_suffix h (dot # ?C)"
      using assms(3) by (simp_all add: match_host_pattern_def Let_def)
    have "has_suffix (dot # ?C) ?C" by (auto simp: has_suffix_iff)
    then have "has_suffix h (dot # ?A)" using h(2) s has_suffix_trans by blast
    moreover have "length ?A + 1 \<le> length ?C" using s by (simp add: has_suffix_def)
    ultimately show ?thesis using h(1) by simp
  next
    case ex: False
    then have h: "h = c" "?C = c" using assms(3) by (simp_all add: match_host_pattern_def trim_prefix_def)
    from s h(2) obtain t where t: "c = t @ dot # ?A" by (auto simp: has_suffix_iff)
    have "t \<noteq> []" using valid_pattern_first [OF assms(1), of ?A] t by auto
    then have "length c > length ?A + 1" by (subst t) simp
    then show ?thesis using s h by simp
  qed
  then show ?thesis using a by (simp add: match_host_pattern_def Let_def)
qed (use assms in simp)

lemma covers_complete:
  assumes "\<And>h. match_host_pattern c h \<Longrightarrow> match_host_pattern a h"
  shows "host_pattern_covers a c"
proof (cases "has_prefix c star_dot")
  case False
  then have m: "match_host_pattern a c" using assms [of c] by (simp add: match_host_pattern_def)
  have "trim_prefix c star_dot = c" using False by (simp add: trim_prefix_def)
  then show ?thesis using m by (auto simp: match_host_pattern_def host_pattern_covers_def Let_def split: if_splits)
next
  case True
  let ?A = "trim_prefix a star_dot" and ?C = "trim_prefix c star_dot"
  have m: "match_host_pattern a (x # dot # ?C)" for x by (rule assms [OF match_wildcard [OF True]])
  have a: "has_prefix a star_dot"
  proof (rule ccontr)
    assume "\<not> has_prefix a star_dot"
    then have "x # dot # ?C = a" for x using m [of x] by (simp add: match_host_pattern_def)
    then have "CHR ''a'' # dot # ?C = CHR ''b'' # dot # ?C" by metis
    then show False by simp
  qed
  have l: "length ?A \<le> length ?C" "has_suffix (CHR ''a'' # dot # ?C) (dot # ?A)"
    using m [of "CHR ''a''"] a by (simp_all add: match_host_pattern_def Let_def)
  have s: "has_suffix (dot # ?C) (dot # ?A)"
    using has_suffix_append_eq [of "[CHR ''a'']" "dot # ?C" "dot # ?A"] l by simp
  show ?thesis
  proof (cases "length ?A = length ?C")
    case True
    then have "?C = ?A" using s by (simp add: has_suffix_def)
    then have "a = c" using star_dot_prefix [OF a] star_dot_prefix [OF \<open>has_prefix c star_dot\<close>] by simp
    then show ?thesis by (simp add: host_pattern_covers_def)
  next
    case False
    then have "has_suffix ?C (dot # ?A)"
      using has_suffix_append_eq [of "[dot]" ?C "dot # ?A"] s l(1) by simp
    then show ?thesis using a by (simp add: host_pattern_covers_def)
  qed
qed

text \<open>Coverage of patterns is inclusion of the hosts they match: for a valid candidate,
  \<open>hostPatternCovers\<close> holds exactly when every host that matches the candidate matches the allowed
  pattern, so the hosts of an action never leave the capture hosts of its extension.
\<close>

theorem covers_iff_included:
  assumes "valid_host_pattern candidate"
  shows "host_pattern_covers allowed candidate \<longleftrightarrow>
    {h. match_host_pattern candidate h} \<subseteq> {h. match_host_pattern allowed h}"
  using covers_sound [of candidate allowed] assms covers_complete [of candidate allowed] by blast

lemma covers_iff_included_witness:
  "host_pattern_covers ''*.example.com'' ''*.cdn.example.com'' \<and>
   {h. match_host_pattern ''*.cdn.example.com'' h} \<subseteq> {h. match_host_pattern ''*.example.com'' h} \<and>
   \<not> host_pattern_covers ''*.example.com'' ''example.com''"
proof -
  have c: "valid_host_pattern ''*.cdn.example.com''" by code_simp
  have "host_pattern_covers ''*.example.com'' ''*.cdn.example.com''" "\<not> host_pattern_covers ''*.example.com'' ''example.com''"
    by code_simp+
  then show ?thesis using covers_iff_included [OF c, of "''*.example.com''"] by blast
qed

section \<open>Targets and identifiers\<close>

definition ip_is_loopback :: "ip \<Rightarrow> bool" where
  "ip_is_loopback a = (case to4 a of Some b \<Rightarrow> b ! 0 = 127 | None \<Rightarrow> ip_equal a (replicate 15 0 @ [1]))"

definition ip_is_private :: "ip \<Rightarrow> bool" where
  "ip_is_private a = (case to4 a of
     Some b \<Rightarrow> b ! 0 = 10 \<or> b ! 0 = 172 \<and> b ! 1 AND 240 = 16 \<or> b ! 0 = 192 \<and> b ! 1 = 168
   | None \<Rightarrow> length a = 16 \<and> a ! 0 AND 254 = 252)"

definition ip_is_multicast :: "ip \<Rightarrow> bool" where
  "ip_is_multicast a = (case to4 a of
     Some b \<Rightarrow> b ! 0 AND 240 = 224 | None \<Rightarrow> length a = 16 \<and> a ! 0 = 255)"

definition ip_is_link_local :: "ip \<Rightarrow> bool" where
  "ip_is_link_local a = (case to4 a of
     Some b \<Rightarrow> b ! 0 = 169 \<and> b ! 1 = 254
   | None \<Rightarrow> length a = 16 \<and> a ! 0 = 254 \<and> a ! 1 AND 192 = 128)"

definition ip_is_global_unicast :: "ip \<Rightarrow> bool" where
  "ip_is_global_unicast a \<longleftrightarrow> (length a = 4 \<or> length a = 16) \<and>
     \<not> ip_equal a (v4_in_v6_prefix @ [255, 255, 255, 255]) \<and> \<not> ip_unspecified a \<and> \<not> ip_is_loopback a \<and>
     \<not> ip_is_multicast a \<and> \<not> ip_is_link_local a"

definition valid_host_target :: "string \<Rightarrow> bool" where
  "valid_host_target value =
     (let value = canonical_host value in
      case parse_ip value of
        Some a \<Rightarrow> to4 a \<noteq> None \<and> ip_is_global_unicast a \<and> \<not> ip_is_private a \<and> \<not> ip_is_loopback a \<and>
          \<not> ip_is_link_local a
      | None \<Rightarrow> \<not> has_prefix value star_dot \<and> value \<noteq> ''localhost'' \<and> \<not> has_suffix value ''.local'' \<and>
          valid_host_pattern value)"

text \<open>\<open>nativeExtensionIDPattern\<close>: \<open>^[a-z0-9](?:[a-z0-9.-]{1,126}[a-z0-9])$\<close>\<close>

definition lower_alnum :: "char \<Rightarrow> bool" where
  "lower_alnum c \<longleftrightarrow> 97 \<le> char_code c \<and> char_code c \<le> 122 \<or> is_digit c"

definition extension_id_pattern :: "string \<Rightarrow> bool" where
  "extension_id_pattern s \<longleftrightarrow> 3 \<le> length s \<and> length s \<le> 128 \<and> lower_alnum (hd s) \<and> lower_alnum (last s) \<and>
     list_all (\<lambda>c. lower_alnum c \<or> c = dot \<or> c = CHR ''-'') (butlast (tl s))"

definition valid_module_id :: "string \<Rightarrow> bool" where
  "valid_module_id i \<longleftrightarrow> length i \<ge> 3 \<and> length i \<le> 40 \<and> extension_id_pattern i"

definition valid_setting_key :: "string \<Rightarrow> bool" where
  "valid_setting_key v \<longleftrightarrow> \<not> (v = [] \<or> length v > 64) \<and>
     list_all (\<lambda>c. is_letter c \<or> is_digit c \<or> c \<in> {CHR ''_'', CHR ''-'', dot}) v"

end
