(* ===== verification/Go_Addr.thy ===== *)
theory Go_Addr
  imports Go_Net
begin

text \<open>
  Printing of addresses and prefixes (\<open>net.IP.String\<close>, \<open>netip.Addr.String\<close>, \<open>net.IPNet.String\<close>), the
  UTF-8 decoder and \<open>strconv.Atoi\<close>, as far as the interception code uses them.
\<close>

section \<open>IPv6 text\<close>

definition hex_digit :: "nat \<Rightarrow> char" where
  "hex_digit d = (if d < 10 then char_of (48 + d) else char_of (87 + d))"

text \<open>\<open>appendHex\<close>: a 16-bit group without leading zeros.\<close>

definition show_hex :: "nat \<Rightarrow> string" where
  "show_hex x =
     (if x \<ge> 4096 then [hex_digit (x div 4096 mod 16)] else []) @
     (if x \<ge> 256 then [hex_digit (x div 256 mod 16)] else []) @
     (if x \<ge> 16 then [hex_digit (x div 16 mod 16)] else []) @ [hex_digit (x mod 16)]"

fun groups16 :: "u8 list \<Rightarrow> nat list" where
  "groups16 (a # b # bs) = (unat a * 256 + unat b) # groups16 bs"
| "groups16 _ = []"

definition zero_run :: "nat list \<Rightarrow> nat \<Rightarrow> nat" where
  "zero_run gs i = length (takeWhile (\<lambda>g. g = 0) (drop i gs))"

text \<open>The first longest run of at least two zero groups: its start and end.\<close>

definition longest_zeros :: "nat list \<Rightarrow> (nat \<times> nat) option" where
  "longest_zeros gs = fold (\<lambda>i best.
     let l = zero_run gs i in
     if l \<ge> 2 \<and> l > (case best of None \<Rightarrow> 0 | Some (s, e) \<Rightarrow> e - s) then Some (i, i + l) else best)
     [0..<8] None"

fun join_hex :: "nat list \<Rightarrow> string" where
  "join_hex [] = []"
| "join_hex [g] = show_hex g"
| "join_hex (g # gs) = show_hex g @ colon # join_hex gs"

definition show_v6 :: "u8 list \<Rightarrow> string" where
  "show_v6 b = (let gs = groups16 b in case longest_zeros gs of
     None \<Rightarrow> join_hex gs
   | Some (s, e) \<Rightarrow> join_hex (take s gs) @ [colon, colon] @ join_hex (drop e gs))"

text \<open>\<open>net.IP.String\<close> of a 4- or 16-byte address.\<close>

definition ip_string :: "ip \<Rightarrow> string" where
  "ip_string a = (case to4 a of Some b \<Rightarrow> show_v4 b | None \<Rightarrow> show_v6 a)"

definition ipnet_string :: "ipnet \<Rightarrow> string" where
  "ipnet_string n = (case to4 (net_ip n) of
     Some b \<Rightarrow> show_v4 b @ [slash] @ show_nat (if net_bits n = 128 then net_ones n - 96 else net_ones n)
   | None \<Rightarrow> show_v6 (net_ip n) @ [slash] @ show_nat (net_ones n))"

lemma ip_string_examples:
  "map (\<lambda>s. map_option ip_string (parse_ip s)) [''2001:db8:0:0:1:0:0:1'', ''::'', ''1::'', ''::1'', ''::ffff:1.2.3.4'', ''10.0.0.1'', ''1:0:3:4:5:6:7:8''] =
   map Some [''2001:db8::1:0:0:1'', ''::'', ''1::'', ''::1'', ''1.2.3.4'', ''10.0.0.1'', ''1:0:3:4:5:6:7:8'']"
  by code_simp

lemma ipnet_string_examples:
  "map (\<lambda>s. map_option ipnet_string (parse_cidr s)) [''10.1.2.3/8'', ''2001:db8::1/32'', ''::ffff:1.2.3.4/120''] =
   map Some [''10.0.0.0/8'', ''2001:db8::/32'', ''1.2.3.0/24'']"
  by code_simp

section \<open>UTF-8\<close>

definition in_range :: "nat \<Rightarrow> char \<Rightarrow> nat \<Rightarrow> bool" where
  "in_range lo c hi \<longleftrightarrow> lo \<le> char_code c \<and> char_code c \<le> hi"

text \<open>The code points of a valid string; \<open>None\<close> where \<open>utf8.ValidString\<close> is false.\<close>

fun utf8_runes :: "string \<Rightarrow> nat list option" where
  "utf8_runes [] = Some []"
| "utf8_runes (c # s) =
     (let b = char_code c in
      if b < 128 then map_option (Cons b) (utf8_runes s)
      else case s of
        [] \<Rightarrow> None
      | c1 # s1 \<Rightarrow>
         if 194 \<le> b \<and> b \<le> 223 then
           (if in_range 128 c1 191 then map_option (Cons ((b - 192) * 64 + (char_code c1 - 128))) (utf8_runes s1) else None)
         else case s1 of
           [] \<Rightarrow> None
         | c2 # s2 \<Rightarrow>
            if 224 \<le> b \<and> b \<le> 239 then
              (if in_range (if b = 224 then 160 else 128) c1 (if b = 237 then 159 else 191) \<and> in_range 128 c2 191
               then map_option (Cons ((b - 224) * 4096 + (char_code c1 - 128) * 64 + (char_code c2 - 128))) (utf8_runes s2)
               else None)
            else case s2 of
              [] \<Rightarrow> None
            | c3 # s3 \<Rightarrow>
               if 240 \<le> b \<and> b \<le> 244 \<and> in_range (if b = 240 then 144 else 128) c1 (if b = 244 then 143 else 191) \<and>
                  in_range 128 c2 191 \<and> in_range 128 c3 191
               then map_option (Cons ((b - 240) * 262144 + (char_code c1 - 128) * 4096 +
                      (char_code c2 - 128) * 64 + (char_code c3 - 128))) (utf8_runes s3)
               else None)"

text \<open>\<open>unicode.IsControl\<close>\<close>

definition rune_is_control :: "nat \<Rightarrow> bool" where
  "rune_is_control r \<longleftrightarrow> r < 32 \<or> 127 \<le> r \<and> r < 160"

section \<open>strconv.Atoi\<close>

fun decimal_value :: "nat \<Rightarrow> string \<Rightarrow> nat" where
  "decimal_value n [] = n"
| "decimal_value n (c # s) = decimal_value (n * 10 + digit_val c) s"

text \<open>An optional sign and digits only; a value outside 64 bits is an error.\<close>

definition go_atoi :: "string \<Rightarrow> int option" where
  "go_atoi s =
     (let (neg, ds) = (case s of
          [] \<Rightarrow> (False, [])
        | c # t \<Rightarrow> if c = CHR ''-'' then (True, t) else if c = CHR ''+'' then (False, t) else (False, s))
      in if ds = [] \<or> \<not> list_all is_digit ds then None
         else let n = int (decimal_value 0 ds); v = (if neg then - n else n) in
           if - (2 ^ 63) \<le> v \<and> v < 2 ^ 63 then Some v else None)"

lemma decimal_value_append: "decimal_value n (a @ b) = decimal_value (decimal_value n a) b"
  by (induction a arbitrary: n) simp_all

lemma decimal_value_show: "decimal_value 0 (show_nat n) = n"
proof (induction n rule: show_nat.induct)
  case (1 n)
  have d: "digit_val (char_of (48 + d)) = d" if "d < 10" for d using digit_char [OF that] by simp
  show ?case
  proof (cases "n < 10")
    case True
    then show ?thesis using d by (subst show_nat.simps) simp
  next
    case False
    then show ?thesis using 1 d [of "n mod 10"] by (subst show_nat.simps) (simp add: decimal_value_append)
  qed
qed

lemma go_atoi_show_nat:
  assumes "n < 2 ^ 63"
  shows "go_atoi (show_nat n) = Some (int n)"
proof -
  obtain c t where s: "show_nat n = c # t" by (cases "show_nat n") simp_all
  have all: "list_all is_digit (show_nat n)" by (simp add: list_all_iff show_nat_digits)
  then have "c \<noteq> CHR ''-'' \<and> c \<noteq> CHR ''+''" unfolding s by (auto simp: is_digit_def char_code_def)
  moreover have "int n < 2 ^ 63" using assms by (metis of_nat_less_iff of_nat_numeral of_nat_power)
  ultimately show ?thesis
    using all decimal_value_show [of n] by (simp add: go_atoi_def s Let_def)
qed

end
