(* ===== verification/Go_Json.thy ===== *)
theory Go_Json
  imports Go_Net Complex_Main
begin

text \<open>
  \<open>encoding/json\<close> as both programs use it: a value as a tree whose objects keep every key in order, the
  scan that refuses repeated keys (\<open>json_strict.go\<close> of 5gpn-dns, \<open>config.go\<close> of 5gpn-intercept), and
  the decoders of the scalar fields. The text of a value is read by a parser that the definitions take
  as an argument; it yields a tree for exactly one value with nothing after it. A number keeps whether
  its literal is an integer, since an integer field refuses any other literal; a float64 is rational.
\<close>

datatype json = JNull | JBool bool | JInt int | JFloat rat | JStr string
  | JArr "json list" | JObj "(string \<times> json) list"

section \<open>Refusing repeated keys\<close>

text \<open>The loop over one object: the keys met so far in lower case, and what the scan of each value says.\<close>

fun scan_fields :: "string list \<Rightarrow> (string \<times> bool) list \<Rightarrow> bool" where
  "scan_fields keys [] = True"
| "scan_fields keys ((key, value_ok) # rest) =
     (if to_lower key \<in> set keys then False
      else value_ok \<and> scan_fields (to_lower key # keys) rest)"

primrec scan_strict_json_value :: "json \<Rightarrow> bool" where
  "scan_strict_json_value JNull = True"
| "scan_strict_json_value (JBool b) = True"
| "scan_strict_json_value (JInt i) = True"
| "scan_strict_json_value (JFloat r) = True"
| "scan_strict_json_value (JStr s) = True"
| "scan_strict_json_value (JArr vs) = list_all id (map scan_strict_json_value vs)"
| "scan_strict_json_value (JObj fs) = scan_fields [] (map (map_prod id scan_strict_json_value) fs)"

text \<open>
  \<open>decodeStrictJSON\<close> without the target: the tree of a text that holds one value without repeated
  keys. What the decoder makes of it is the business of the target's type.
\<close>

definition decode_strict_json :: "(string \<Rightarrow> json option) \<Rightarrow> string \<Rightarrow> json option" where
  "decode_strict_json parse data = (case parse data of
     None \<Rightarrow> None | Some v \<Rightarrow> if scan_strict_json_value v then Some v else None)"

definition is_json_null :: "string \<Rightarrow> bool" where
  "is_json_null raw \<longleftrightarrow> trim_space raw = ''null''"

section \<open>Fields\<close>

text \<open>
  The decoder gives an object's keys to the fields of the target without regard to case, in the order
  of the text, so a later key overwrites an earlier one; \<open>null\<close> leaves a field alone.
\<close>

fun json_field :: "string \<Rightarrow> (string \<times> json) list \<Rightarrow> json option" where
  "json_field name [] = None"
| "json_field name ((key, v) # rest) =
     (case json_field name rest of
        Some w \<Rightarrow> Some w | None \<Rightarrow> if equal_fold key name then Some v else None)"

definition known_fields :: "string list \<Rightarrow> (string \<times> json) list \<Rightarrow> bool" where
  "known_fields names fs = list_all (\<lambda>(k, _). list_ex (equal_fold k) names) fs"

definition json_string :: "json \<Rightarrow> string option" where
  "json_string v = (case v of JStr s \<Rightarrow> Some s | JNull \<Rightarrow> Some [] | _ \<Rightarrow> None)"

definition json_bool :: "json \<Rightarrow> bool option" where
  "json_bool v = (case v of JBool b \<Rightarrow> Some b | JNull \<Rightarrow> Some False | _ \<Rightarrow> None)"

definition json_number :: "json \<Rightarrow> rat option" where
  "json_number v = (case v of JInt i \<Rightarrow> Some (of_int i) | JFloat r \<Rightarrow> Some r | JNull \<Rightarrow> Some 0 | _ \<Rightarrow> None)"

definition json_uint32 :: "json \<Rightarrow> u32 option" where
  "json_uint32 v = (case v of
     JInt i \<Rightarrow> if 0 \<le> i \<and> i < 2 ^ 32 then Some (word_of_int i) else None
   | JNull \<Rightarrow> Some 0 | _ \<Rightarrow> None)"

text \<open>A pointer field: \<open>null\<close> is nil.\<close>

definition json_number_pointer :: "json \<Rightarrow> rat option option" where
  "json_number_pointer v = (if v = JNull then Some None else map_option Some (json_number v))"

section \<open>What the scan buys\<close>

lemma scan_fields_iff:
  "scan_fields keys fs \<longleftrightarrow> list_all snd fs \<and> distinct (map (to_lower \<circ> fst) fs) \<and>
     set (map (to_lower \<circ> fst) fs) \<inter> set keys = {}"
  by (induction keys fs rule: scan_fields.induct) (auto simp: comp_def)

lemma json_field_unique:
  assumes "distinct (map (to_lower \<circ> fst) fs)"
  shows "json_field name fs = Some v \<longleftrightarrow> (\<exists>k. (k, v) \<in> set fs \<and> equal_fold k name)"
  using assms
proof (induction fs arbitrary: v)
  case (Cons f fs)
  obtain k w where f: "f = (k, w)" by (cases f)
  have ih: "json_field name fs = Some u \<longleftrightarrow> (\<exists>k. (k, u) \<in> set fs \<and> equal_fold k name)" for u
    using Cons by simp
  show ?case
  proof (cases "equal_fold k name")
    case True
    have "json_field name fs = None"
    proof (rule ccontr)
      assume "json_field name fs \<noteq> None"
      then obtain u where "json_field name fs = Some u" by auto
      then obtain k' where k': "(k', u) \<in> set fs" "equal_fold k' name" using ih by auto
      then have "to_lower k' = to_lower k" using True by (simp add: equal_fold_def)
      then have "to_lower k \<in> (\<lambda>x. to_lower (fst x)) ` set fs" using k'(1) by force
      then show False using Cons.prems f by (auto simp: comp_def)
    qed
    then show ?thesis using True f ih by (auto simp: image_iff)
  next
    case False
    then show ?thesis using ih f by (cases "json_field name fs") auto
  qed
qed simp

text \<open>A document the strict decoder accepts has one reading: a field of an object gets the value of the
  only key that names it in whatever case, so the order of the keys in the text does not matter.
\<close>

theorem strict_fields_unambiguous:
  assumes "decode_strict_json parse data = Some (JObj fs)"
  shows "(json_field name fs = Some v \<longleftrightarrow> (\<exists>k. (k, v) \<in> set fs \<and> equal_fold k name)) \<and>
    (mset gs = mset fs \<longrightarrow> json_field name gs = json_field name fs)"
proof -
  have d: "distinct (map (to_lower \<circ> fst) fs)"
    using assms by (auto simp: decode_strict_json_def scan_fields_iff comp_def split: option.splits if_splits)
  have "json_field name gs = json_field name fs" if "mset gs = mset fs"
  proof -
    have "mset (map (to_lower \<circ> fst) gs) = mset (map (to_lower \<circ> fst) fs)" using that by simp
    then have dg: "distinct (map (to_lower \<circ> fst) gs)" using d by (metis mset_eq_imp_distinct_iff)
    have "set gs = set fs" using that by (metis set_mset_mset)
    then show ?thesis
      using json_field_unique [OF d] json_field_unique [OF dg] by (metis (no_types, opaque_lifting) not_None_eq)
  qed
  then show ?thesis using json_field_unique [OF d] by blast
qed

lemma strict_fields_unambiguous_witness:
  "json_field ''accuracy'' [(''Accuracy'', JInt 5), (''latitude'', JNull)] = Some (JInt 5) \<and>
   json_field ''accuracy'' [(''latitude'', JNull), (''Accuracy'', JInt 5)] =
     json_field ''accuracy'' [(''Accuracy'', JInt 5), (''latitude'', JNull)] \<and>
   decode_strict_json (\<lambda>_. Some (JObj [(''Accuracy'', JInt 5), (''accuracy'', JInt 9)])) [] = None"
proof -
  let ?fs = "[(''Accuracy'', JInt 5), (''latitude'', JNull)]"
  have a: "decode_strict_json (\<lambda>_. Some (JObj ?fs)) [] = Some (JObj ?fs)" by code_simp
  have b: "decode_strict_json (\<lambda>_. Some (JObj [(''Accuracy'', JInt 5), (''accuracy'', JInt 9)])) [] = None" by code_simp
  have "equal_fold ''Accuracy'' ''accuracy''" by code_simp
  moreover have "mset [(''latitude'', JNull), (''Accuracy'', JInt 5)] = mset ?fs" by simp
  ultimately show ?thesis
    using strict_fields_unambiguous [OF a, of "''accuracy''" "JInt 5" "[(''latitude'', JNull), (''Accuracy'', JInt 5)]"] b
    by fastforce
qed

end
