(* ===== verification/Checks.thy ===== *)
theory Checks
  imports Prelude
begin

text \<open>
  The shapes of the validators of both programs: a sequence of checks that stops at the first failure,
  and a loop over the elements of a slice that also refuses a repeated key. An error is the constant
  part of the message.
\<close>

type_synonym failure = string

definition fail_if :: "bool \<Rightarrow> failure \<Rightarrow> failure option" where
  "fail_if c msg = (if c then Some msg else None)"

fun first_some :: "'e option list \<Rightarrow> 'e option" where
  "first_some [] = None"
| "first_some (c # cs) = (case c of Some e \<Rightarrow> Some e | None \<Rightarrow> first_some cs)"

text \<open>\<open>for _, x := range xs { if err := check(x); err != nil { return err } }\<close>\<close>

definition each :: "('a \<Rightarrow> 'e option) \<Rightarrow> 'a list \<Rightarrow> 'e option" where
  "each check xs = first_some (map check xs)"

text \<open>The same with a set \<open>seen\<close> of keys: checks before the lookup, the lookup, checks after it.\<close>

fun each_unique ::
    "('a \<Rightarrow> 'k) \<Rightarrow> ('a \<Rightarrow> 'e option) \<Rightarrow> 'e \<Rightarrow> ('a \<Rightarrow> 'e option) \<Rightarrow> 'k list \<Rightarrow> 'a list \<Rightarrow> 'e option" where
  "each_unique key before dup after seen [] = None"
| "each_unique key before dup after seen (x # xs) =
     (case before x of
        Some e \<Rightarrow> Some e
      | None \<Rightarrow>
          if key x \<in> set seen then Some dup
          else (case after x of
             Some e \<Rightarrow> Some e
           | None \<Rightarrow> each_unique key before dup after (key x # seen) xs))"

abbreviation no_check :: "'a \<Rightarrow> 'e option" where "no_check \<equiv> \<lambda>_. None"

lemma fail_if_False [simp]: "fail_if False msg = None"
  by (simp add: fail_if_def)

lemma case_first_some [simp]: "first_some (None # cs) = first_some cs"
  by simp

lemma first_some_sole: "first_some cs = None \<Longrightarrow> (case first_some cs of None \<Rightarrow> a | Some e \<Rightarrow> Some e) = a"
  by simp

lemma fail_if_None [simp]: "fail_if c msg = None \<longleftrightarrow> \<not> c"
  by (simp add: fail_if_def)

lemma first_some_Cons_None [simp]: "first_some (c # cs) = None \<longleftrightarrow> c = None \<and> first_some cs = None"
  by (cases c) simp_all

declare first_some.simps(2) [simp del]

lemma first_some_None: "first_some cs = None \<longleftrightarrow> (\<forall>c\<in>set cs. c = None)"
  by (induction cs) simp_all

lemma each_None [simp]: "each check xs = None \<longleftrightarrow> (\<forall>x\<in>set xs. check x = None)"
  by (simp add: each_def first_some_None)

lemma each_unique_None:
  "each_unique key before dup after seen xs = None \<longleftrightarrow>
     (\<forall>x\<in>set xs. before x = None \<and> after x = None) \<and> distinct (map key xs) \<and>
     set (map key xs) \<inter> set seen = {}"
  by (induction key before dup after seen xs rule: each_unique.induct) (auto split: option.splits)

lemma each_unique_Nil_None [simp]:
  "each_unique key before dup after [] xs = None \<longleftrightarrow>
     (\<forall>x\<in>set xs. before x = None \<and> after x = None) \<and> distinct (map key xs)"
  by (simp add: each_unique_None)

end
