(* ===== verification/Icp_Config.thy ===== *)
theory Icp_Config
  imports Icp_Hosts Go_Addr Go_Json Checks
begin

text \<open>
  \<open>config.go\<close> of 5gpn-intercept: the interception document as the proxy process reads it, and every
  check it makes before it uses a replacement. SHA-256, regular expressions, RFC 3339 times and the
  JSON parser of the standard library and the compiler of the JavaScript engine are fields of
  \<open>icp_lib\<close>. A slice that may be nil is an option where nil and empty differ.
\<close>

record icp_lib =
  il_digest :: "string \<Rightarrow> string"
  il_regex_ok :: "string \<Rightarrow> bool"
  il_regex_match :: "string \<Rightarrow> string \<Rightarrow> bool"
  il_rfc3339 :: "string \<Rightarrow> bool"
  il_json :: "string \<Rightarrow> json option"
  il_js_ok :: "string \<Rightarrow> string \<Rightarrow> bool"

section \<open>The document\<close>

record proxy_config =
  px_address :: string
  px_username :: string
  px_password :: string

record mitm_settings =
  mt_enabled :: bool
  mt_http2 :: bool
  mt_quic_fallback :: bool

record module_source =
  so_url :: string
  so_digest :: string
  so_body :: string

record action_match =
  am_hosts :: "string list"
  am_schemes :: "string list"
  am_methods :: "string list"
  am_path_regex :: string
  am_status_codes :: "int list"

record script_rule =
  sc_id :: string
  sc_phase :: string
  sc_match :: action_match
  sc_url :: string
  sc_digest :: string
  sc_body :: string
  sc_body_mode :: string
  sc_timeout_ms :: int
  sc_max_body_bytes :: int

record location_value =
  lo_longitude :: "rat option"
  lo_latitude :: "rat option"
  lo_accuracy :: u32

record module_setting =
  se_key :: string
  se_type :: string
  se_label :: string
  se_description :: string
  se_required :: bool
  se_options :: "string list"
  se_min :: "rat option"
  se_max :: "rat option"
  se_default :: string
  se_value :: string

record host_mapping =
  hp_pattern :: string
  hp_target :: string

record routing_rule =
  rr_action :: string
  rr_domain :: "string option"
  rr_domain_suffix :: "string option"
  rr_domain_keywords :: "string list option"
  rr_all_domain_keywords :: "string list option"
  rr_ip_cidr :: "string option"
  rr_network :: "string option"
  rr_destination_port :: "int option"

text \<open>The two programs write a routing rule differently; the rest of a module is the same record.\<close>

record 'r ext_module =
  em_id :: string
  em_version :: string
  em_name :: string
  em_description :: string
  em_enabled :: bool
  em_imported_at :: string
  em_source :: module_source
  em_capture_hosts :: "string list"
  em_capture_dns :: string
  em_host_mappings :: "host_mapping list"
  em_routing_rules :: "'r list"
  em_settings :: "module_setting list"
  em_scripts :: "script_rule list"
  em_persistent_storage :: bool
  em_network_origins :: "string list"
  em_egress_required :: bool
  em_egress_group :: string

record 'r config_document =
  cf_version :: int
  cf_execution_order :: "string list option"
  cf_listen :: string
  cf_username :: string
  cf_password :: string
  cf_tls_cert :: string
  cf_tls_key :: string
  cf_upstream_proxy :: proxy_config
  cf_mitm :: mitm_settings
  cf_modules :: "'r ext_module list"

section \<open>Settings\<close>

definition location_of_json :: "json \<Rightarrow> location_value option" where
  "location_of_json v = (case v of
     JObj fs \<Rightarrow>
      if \<not> known_fields [''longitude'', ''latitude'', ''accuracy''] fs then None
      else let pointer = (\<lambda>name. case json_field name fs of None \<Rightarrow> Some None | Some w \<Rightarrow> json_number_pointer w) in
        (case (pointer ''longitude'', pointer ''latitude'',
               case json_field ''accuracy'' fs of None \<Rightarrow> Some 0 | Some w \<Rightarrow> json_uint32 w) of
           (Some lon, Some lat, Some acc) \<Rightarrow> Some \<lparr>lo_longitude = lon, lo_latitude = lat, lo_accuracy = acc\<rparr>
         | _ \<Rightarrow> None)
   | _ \<Rightarrow> None)"

definition outside :: "rat \<Rightarrow> rat option \<Rightarrow> bool" where
  "outside bound x = (case x of None \<Rightarrow> False | Some v \<Rightarrow> v < - bound \<or> v > bound)"

definition check_location :: "location_value \<Rightarrow> bool \<Rightarrow> failure option" where
  "check_location value full = first_some
     [fail_if (lo_accuracy value = 0 \<or> lo_accuracy value > 100000 \<or>
        (lo_longitude value = None) \<noteq> (lo_latitude value = None)) ''location coordinates or accuracy are invalid'',
      fail_if (outside 180 (lo_longitude value)) ''longitude is invalid'',
      fail_if (outside 90 (lo_latitude value)) ''latitude is invalid'',
      fail_if (full \<and> lo_longitude value = None) ''coordinates are required'']"

definition validate_setting_value :: "icp_lib \<Rightarrow> module_setting \<Rightarrow> string \<Rightarrow> bool \<Rightarrow> failure option" where
  "validate_setting_value L setting raw full =
     (if raw = [] \<or> is_json_null raw then fail_if full ''value is required''
      else if length raw > 65536 then Some ''value exceeds 65536 bytes''
      else if se_type setting = ''text'' \<or> se_type setting = ''select'' then
        (case Option.bind (il_json L raw) json_string of
           None \<Rightarrow> Some ''value must be a bounded string''
         | Some value \<Rightarrow> first_some
             [fail_if (length value > 4096) ''value must be a bounded string'',
              fail_if (full \<and> trim_space value = []) ''value must not be empty'',
              fail_if (se_type setting = ''select'' \<and> value \<noteq> [] \<and> value \<notin> set (se_options setting))
                ''value is not a declared option''])
      else if se_type setting = ''boolean'' then
        fail_if (Option.bind (il_json L raw) json_bool = None) ''value must be a boolean''
      else if se_type setting = ''number'' then
        (case Option.bind (il_json L raw) json_number of
           None \<Rightarrow> Some ''value must be a finite number''
         | Some value \<Rightarrow> fail_if
             ((case se_min setting of None \<Rightarrow> False | Some l \<Rightarrow> value < l) \<or>
              (case se_max setting of None \<Rightarrow> False | Some u \<Rightarrow> value > u)) ''value is outside its numeric bounds'')
      else if se_type setting = ''location'' then
        (case Option.bind (decode_strict_json (il_json L) raw) location_of_json of
           None \<Rightarrow> Some ''value must be a location object''
         | Some value \<Rightarrow> check_location value full)
      else None)"

definition validate_setting_definition :: "icp_lib \<Rightarrow> module_setting \<Rightarrow> failure option" where
  "validate_setting_definition L setting = first_some
     [if se_type setting = ''text'' then
        fail_if (se_options setting \<noteq> [] \<or> se_min setting \<noteq> None \<or> se_max setting \<noteq> None)
          ''text setting has incompatible constraints''
      else if se_type setting = ''select'' then first_some
        [fail_if (se_options setting = [] \<or> length (se_options setting) > 64 \<or> se_min setting \<noteq> None \<or> se_max setting \<noteq> None)
           ''select setting has invalid options or constraints'',
         each_unique id (\<lambda>option. fail_if (option = [] \<or> length option > 256) ''select setting contains an invalid option'')
           ''select setting contains duplicate options'' no_check [] (se_options setting)]
      else if se_type setting = ''boolean'' \<or> se_type setting = ''location'' then
        fail_if (se_options setting \<noteq> [] \<or> se_min setting \<noteq> None \<or> se_max setting \<noteq> None)
          ''setting has incompatible constraints''
      else if se_type setting = ''number'' then
        fail_if (se_options setting \<noteq> [] \<or>
            (case (se_min setting, se_max setting) of (Some l, Some u) \<Rightarrow> l > u | _ \<Rightarrow> False))
          ''number setting has invalid constraints''
      else Some ''setting type is unsupported'',
      if se_default setting \<noteq> [] then validate_setting_value L setting (se_default setting) False else None,
      if se_value setting \<noteq> [] then validate_setting_value L setting (se_value setting) False else None]"

definition setting_ready :: "icp_lib \<Rightarrow> module_setting \<Rightarrow> bool" where
  "setting_ready L setting \<longleftrightarrow> validate_setting_value L setting (se_value setting) True = None"

definition module_settings_ready :: "icp_lib \<Rightarrow> module_setting list \<Rightarrow> bool" where
  "module_settings_ready L settings = list_all (\<lambda>s. se_required s \<longrightarrow> setting_ready L s) settings"

definition validate_module_settings :: "icp_lib \<Rightarrow> module_setting list \<Rightarrow> bool \<Rightarrow> failure option" where
  "validate_module_settings L settings require_ready = first_some
     [fail_if (length settings > 128) ''extension exceeds 128 settings'',
      each_unique se_key (\<lambda>s. fail_if (\<not> valid_setting_key (se_key s)) ''setting has an invalid key'')
        ''setting is duplicated''
        (\<lambda>s. first_some
          [fail_if (length (se_label s) > 128 \<or> length (se_description s) > 512) ''setting metadata exceeds its bounds'',
           validate_setting_definition L s,
           fail_if (require_ready \<and> se_required s \<and> \<not> setting_ready L s) ''required setting is not configured''])
        [] settings]"

section \<open>Host mappings and action matches\<close>

definition to_upper_char :: "char \<Rightarrow> char" where
  "to_upper_char c = (if 97 \<le> char_code c \<and> char_code c \<le> 122 then char_of (char_code c - 32) else c)"

definition to_upper :: "string \<Rightarrow> string" where
  "to_upper s = map to_upper_char s"

definition validate_host_mappings :: "string list \<Rightarrow> host_mapping list \<Rightarrow> failure option" where
  "validate_host_mappings capture_hosts mappings =
     each_unique hp_pattern
       (\<lambda>m. fail_if (\<not> valid_host_pattern (hp_pattern m) \<or> \<not> host_covered_by capture_hosts (hp_pattern m) \<or>
                     \<not> valid_host_target (hp_target m)) ''upstream mapping is invalid or outside capture_hosts'')
       ''upstream mapping is duplicated'' no_check [] mappings"

definition bad_method :: "string \<Rightarrow> bool" where
  "bad_method m \<longleftrightarrow> m = [] \<or> m \<noteq> to_upper m \<or> list_ex (\<lambda>c. char_code c \<in> {32, 9, 13, 10}) m"

definition validate_action_match :: "icp_lib \<Rightarrow> string list \<Rightarrow> string \<Rightarrow> action_match \<Rightarrow> failure option" where
  "validate_action_match L capture_hosts phase m = first_some
     [fail_if (am_hosts m = [] \<or> length (am_hosts m) > 512 \<or> am_schemes m = [] \<or> am_path_regex m = [])
        ''match hosts, schemes, and path_regex are required'',
      each (\<lambda>h. fail_if (\<not> valid_host_pattern h \<or> \<not> host_covered_by capture_hosts h)
        ''match host is outside capture_hosts'') (am_hosts m),
      each (\<lambda>s. fail_if (s \<noteq> ''http'' \<and> s \<noteq> ''https'') ''scheme is unsupported'') (am_schemes m),
      each (\<lambda>x. fail_if (bad_method x) ''method is invalid'') (am_methods m),
      fail_if (\<not> il_regex_ok L (am_path_regex m)) ''path_regex is invalid'',
      fail_if (phase = ''request'' \<and> am_status_codes m \<noteq> []) ''request action cannot match response status codes'',
      each (\<lambda>s. fail_if (s < 100 \<or> s > 599) ''status code is invalid'') (am_status_codes m)]"

section \<open>Network permissions\<close>

definition canonical_module_network_origin :: "string \<Rightarrow> string option" where
  "canonical_module_network_origin raw =
     (if raw = [] \<or> length raw > 4096 \<or> raw \<noteq> trim_space raw then None
      else case url_parse raw of
        None \<Rightarrow> None
      | Some u \<Rightarrow>
         if u_opaque u \<noteq> [] \<or> u_user u \<noteq> None \<or> u_raw_query u \<noteq> [] \<or> u_force_query u \<or> u_fragment u \<noteq> [] then None
         else if u_path u \<noteq> [] \<and> u_path u \<noteq> [slash] then None
         else let scheme = to_lower (u_scheme u) in
           if scheme \<noteq> ''http'' \<and> scheme \<noteq> ''https'' then None
           else let host = canonical_host (url_hostname u) in
             if host = [] \<or> parse_ip host \<noteq> None \<or> \<not> valid_host_target host \<or> colon \<in> set host then None
             else let port = url_port u in
               if has_suffix (u_host u) [colon] then None
               else let default_port = (if scheme = ''https'' then ''443'' else ''80'');
                        port = (if port = [] then default_port else port)
                 in (case go_atoi port of
                       None \<Rightarrow> None
                     | Some n \<Rightarrow>
                        if n < 1 \<or> n > 65535 then None
                        else let port = show_nat (nat n) in
                          if port = default_port then Some (scheme @ ''://'' @ host)
                          else Some (scheme @ ''://'' @ join_host_port host port)))"

fun check_network_origins :: "string \<Rightarrow> string list \<Rightarrow> failure option" where
  "check_network_origins previous [] = None"
| "check_network_origins previous (origin # rest) =
     (if canonical_module_network_origin origin \<noteq> Some origin then Some ''network origin is not canonical''
      else if previous \<noteq> [] \<and> origin \<le> previous then Some ''network_origins must be sorted and unique''
      else check_network_origins origin rest)"

definition reserved_terminal_match_egress_group :: string where
  "reserved_terminal_match_egress_group = ''__5GPN_TERMINAL_MATCH__''"

definition bad_egress_group :: "string \<Rightarrow> failure option" where
  "bad_egress_group grp = first_some
     [fail_if (grp = reserved_terminal_match_egress_group) ''egress_group uses a reserved internal name'',
      fail_if (utf8_runes grp = None \<or> grp \<noteq> trim_space grp \<or> length grp > 128)
        ''egress_group must contain at most 128 bytes without surrounding whitespace'',
      (case utf8_runes grp of
         None \<Rightarrow> None
       | Some rs \<Rightarrow> fail_if (list_ex (\<lambda>r. r = 44 \<or> rune_is_control r) rs)
           ''egress_group contains a comma or control character'')]"

definition validate_module_network_permissions :: "('r, 'z) ext_module_scheme \<Rightarrow> failure option" where
  "validate_module_network_permissions m = first_some
     [fail_if (length (em_network_origins m) > 256) ''network_origins exceeds 256 entries'',
      check_network_origins [] (em_network_origins m),
      fail_if (em_enabled m \<and> em_egress_required m \<and> trim_space (em_egress_group m) = []) ''egress_group is required'',
      if em_egress_group m \<noteq> [] then bad_egress_group (em_egress_group m) else None]"

section \<open>Routing rules\<close>

definition lower_letter :: "char \<Rightarrow> bool" where
  "lower_letter c \<longleftrightarrow> 97 \<le> char_code c \<and> char_code c \<le> 122"

text \<open>\<open>^(?:[a-z0-9](?:[a-z0-9-]{0,61}[a-z0-9])?\.)+[a-z]{2,63}$\<close>\<close>

definition canonical_routing_domain_pattern :: "string \<Rightarrow> bool" where
  "canonical_routing_domain_pattern s =
     (let labels = Go_Path.split_on dot s in
      length labels \<ge> 2 \<and> list_all valid_host_label (butlast labels) \<and>
      2 \<le> length (last labels) \<and> length (last labels) \<le> 63 \<and> list_all lower_letter (last labels))"

definition valid_canonical_routing_domain :: "string \<Rightarrow> bool" where
  "valid_canonical_routing_domain v \<longleftrightarrow> length v \<ge> 1 \<and> length v \<le> 253 \<and> v = trim_space v \<and> v = to_lower v \<and>
     \<not> has_suffix v [dot] \<and> canonical_routing_domain_pattern v"

text \<open>\<open>^[a-z0-9._-]+$\<close>\<close>

definition route_keyword_pattern :: "string \<Rightarrow> bool" where
  "route_keyword_pattern k \<longleftrightarrow> k \<noteq> [] \<and> list_all (\<lambda>c. lower_alnum c \<or> c \<in> {dot, CHR ''_'', CHR ''-''}) k"

definition unsafe_keyword :: "string \<Rightarrow> bool" where
  "unsafe_keyword k \<longleftrightarrow> k = [] \<or> length k > 64 \<or> k \<noteq> to_lower (trim_space k) \<or> \<not> route_keyword_pattern k"

definition canonical_cidr :: "string \<Rightarrow> bool" where
  "canonical_cidr c \<longleftrightarrow> (case parse_cidr c of None \<Rightarrow> False | Some n \<Rightarrow> ipnet_string n = c)"

abbreviation given :: "'a option \<Rightarrow> nat" where "given x \<equiv> (case x of None \<Rightarrow> 0 | Some _ \<Rightarrow> 1)"
abbreviation declared :: "string list option \<Rightarrow> string list" where "declared x \<equiv> (case x of None \<Rightarrow> [] | Some ks \<Rightarrow> ks)"

definition check_routing_rule :: "routing_rule \<Rightarrow> failure option" where
  "check_routing_rule r =
     (let primary = given (rr_domain r) + given (rr_domain_suffix r) + given (rr_ip_cidr r);
          some = declared (rr_domain_keywords r); every = declared (rr_all_domain_keywords r)
      in first_some
       [fail_if (rr_action r \<noteq> ''reject'' \<and> rr_action r \<noteq> ''direct'') ''routing rule action is invalid'',
        (case rr_domain r of None \<Rightarrow> None | Some d \<Rightarrow>
           fail_if (\<not> valid_canonical_routing_domain d) ''routing rule domain is invalid''),
        (case rr_domain_suffix r of None \<Rightarrow> None | Some d \<Rightarrow>
           fail_if (\<not> valid_canonical_routing_domain d) ''routing rule domain suffix is invalid''),
        (case rr_ip_cidr r of None \<Rightarrow> None | Some c \<Rightarrow>
           fail_if (c = [] \<or> \<not> canonical_cidr c) ''routing rule CIDR is invalid''),
        fail_if (rr_domain_keywords r = Some []) ''routing rule domain keywords are empty'',
        fail_if (rr_all_domain_keywords r = Some []) ''routing rule all-domain keywords are empty'',
        fail_if (primary > 1 \<or> primary = 0 \<and> some = [] \<and> every = [] \<or>
            rr_ip_cidr r \<noteq> None \<and> (some \<noteq> [] \<or> every \<noteq> [])) ''routing rule selector combination is invalid'',
        fail_if (length some > 8 \<or> \<not> sorted some) ''routing rule domain keywords are invalid'',
        fail_if (length some = 1) ''routing rule single domain keyword is not canonical'',
        each_unique id (\<lambda>k. fail_if (unsafe_keyword k) ''routing rule has an unsafe domain keyword'')
          ''routing rule has duplicate domain keywords'' no_check [] some,
        fail_if (length every > 8 \<or> \<not> sorted every) ''routing rule all-domain keywords are invalid'',
        each_unique id (\<lambda>k. fail_if (unsafe_keyword k) ''routing rule has an unsafe all-domain keyword'')
          ''routing rule repeats a domain keyword'' no_check some every,
        (case rr_network r of None \<Rightarrow> None | Some n \<Rightarrow>
           fail_if (n \<noteq> ''tcp'' \<and> n \<noteq> ''udp'') ''routing rule network is invalid''),
        (case rr_destination_port r of None \<Rightarrow> None | Some p \<Rightarrow>
           fail_if (p < 1 \<or> p > 65535) ''routing rule destination port is invalid'')])"

text \<open>A rule is repeated when its JSON text is, that is when the rules are equal.\<close>

definition validate_routing_rules :: "routing_rule list \<Rightarrow> failure option" where
  "validate_routing_rules rules = first_some
     [fail_if (length rules > 256) ''routing_rules exceeds 256 entries'',
      each_unique id check_routing_rule ''routing rule is duplicated'' no_check [] rules]"

section \<open>Modules\<close>

definition valid_snapshot_url :: "string \<Rightarrow> bool" where
  "valid_snapshot_url raw = (case url_parse raw of
     None \<Rightarrow> False
   | Some u \<Rightarrow> u_scheme u = ''https'' \<and> url_hostname u \<noteq> [] \<and> u_user u = None \<and> u_fragment u = [])"

fun first_non_empty :: "string list \<Rightarrow> string" where
  "first_non_empty [] = []"
| "first_non_empty (v # vs) = (if trim_space v \<noteq> [] then trim_space v else first_non_empty vs)"

definition script_filename :: "string \<Rightarrow> script_rule \<Rightarrow> string" where
  "script_filename module_id r = first_non_empty [sc_url r, ''extension:'' @ module_id @ ''/'' @ sc_id r]"

definition check_script :: "icp_lib \<Rightarrow> ('r, 'z) ext_module_scheme \<Rightarrow> script_rule \<Rightarrow> failure option" where
  "check_script L m r = first_some
     [fail_if (sc_phase r \<noteq> ''request'' \<and> sc_phase r \<noteq> ''response'') ''phase is invalid'',
      validate_action_match L (em_capture_hosts m) (sc_phase r) (sc_match r),
      fail_if (length (sc_url r) > 4096 \<or> sc_url r \<noteq> [] \<and> \<not> valid_snapshot_url (sc_url r)) ''action URL is invalid'',
      fail_if (sc_body r = [] \<or> length (sc_body r) > 2 ^ 20 \<or> sc_digest r \<noteq> il_digest L (sc_body r))
        ''script snapshot is invalid'',
      fail_if (\<not> il_js_ok L (script_filename (em_id m) r) (sc_body r)) ''script does not compile'',
      fail_if (sc_body_mode r \<notin> {''none'', ''text'', ''binary''}) ''body mode is invalid'',
      fail_if (sc_timeout_ms r < 50 \<or> sc_timeout_ms r > 30000 \<or>
        sc_max_body_bytes r < 1024 \<or> sc_max_body_bytes r > 64 * 2 ^ 20) ''limits are invalid'']"

text \<open>The checks of one module between its id and its routing rules, and after them.\<close>

definition check_module_head :: "icp_lib \<Rightarrow> routing_rule ext_module \<Rightarrow> failure option" where
  "check_module_head L m = first_some
     [fail_if (\<not> il_rfc3339 L (em_imported_at m)) ''imported_at is invalid'',
      fail_if (trim_space (em_version m) = [] \<or> length (em_version m) > 64 \<or> trim_space (em_name m) = [] \<or>
        length (em_name m) > 128 \<or> length (em_description m) > 1024) ''metadata exceeds its bounds'',
      fail_if (so_body (em_source m) = [] \<or> length (so_body (em_source m)) > 2 * 2 ^ 20 \<or>
        so_digest (em_source m) \<noteq> il_digest L (so_body (em_source m))) ''manifest snapshot digest is invalid'',
      fail_if (length (so_url (em_source m)) > 4096 \<or>
        so_url (em_source m) \<noteq> [] \<and> \<not> valid_snapshot_url (so_url (em_source m))) ''source URL is invalid'',
      fail_if (em_capture_hosts m = [] \<or> length (em_capture_hosts m) > 512 \<or> \<not> sorted (em_capture_hosts m))
        ''capture_hosts are invalid'',
      each (\<lambda>h. fail_if (\<not> valid_host_pattern h) ''invalid capture host'') (em_capture_hosts m),
      fail_if (em_capture_dns m \<noteq> ''trust'' \<and> em_capture_dns m \<noteq> ''china'') ''capture_dns must be trust or china'',
      fail_if (length (em_scripts m) + length (em_host_mappings m) = 0 \<or>
        length (em_scripts m) + length (em_host_mappings m) > 256) ''invalid action count'',
      validate_module_settings L (em_settings m) (em_enabled m),
      validate_host_mappings (em_capture_hosts m) (em_host_mappings m),
      validate_module_network_permissions m,
      validate_routing_rules (em_routing_rules m)]"

definition check_module_scripts :: "icp_lib \<Rightarrow> routing_rule ext_module \<Rightarrow> failure option" where
  "check_module_scripts L m = first_some
     [each_unique sc_id (\<lambda>r. fail_if (\<not> valid_setting_key (sc_id r)) ''invalid action id'') ''duplicate action''
        (check_script L m) [] (em_scripts m),
      fail_if (sum_list (map (\<lambda>r. length (sc_body r)) (em_scripts m)) > 8 * 2 ^ 20) ''script snapshots exceed 8388608 bytes'']"

text \<open>One target for each pattern among the mappings of enabled modules.\<close>

fun merge_mappings :: "(string, string) go_map \<Rightarrow> host_mapping list \<Rightarrow> failure + (string, string) go_map" where
  "merge_mappings active [] = Inr active"
| "merge_mappings active (m # ms) =
     (case map_of active (hp_pattern m) of
        Some target \<Rightarrow>
          if target \<noteq> hp_target m then Inl ''enabled extensions conflict on upstream mapping''
          else merge_mappings (AList.update (hp_pattern m) (hp_target m) active) ms
      | None \<Rightarrow> merge_mappings (AList.update (hp_pattern m) (hp_target m) active) ms)"

fun validate_modules_loop ::
    "icp_lib \<Rightarrow> string list \<Rightarrow> (string, string) go_map \<Rightarrow> nat \<Rightarrow> routing_rule ext_module list \<Rightarrow> failure option" where
  "validate_modules_loop L ids active_mappings active_rules [] = None"
| "validate_modules_loop L ids active_mappings active_rules (m # ms) =
     (let rules = (if em_enabled m then active_rules + length (em_routing_rules m) else active_rules) in
      case first_some
        [fail_if (\<not> valid_module_id (em_id m)) ''invalid extension id'',
         fail_if (em_id m \<in> set ids) ''duplicate extension id'',
         check_module_head L m,
         fail_if (em_enabled m \<and> rules > 2048) ''enabled extensions exceed 2048 declared routing rules'',
         check_module_scripts L m,
         fail_if (em_enabled m \<and> \<not> module_settings_ready L (em_settings m)) ''required settings are not configured''] of
        Some e \<Rightarrow> Some e
      | None \<Rightarrow>
         (if em_enabled m then
            (case merge_mappings active_mappings (em_host_mappings m) of
               Inl e \<Rightarrow> Some e
             | Inr active \<Rightarrow> validate_modules_loop L (em_id m # ids) active rules ms)
          else validate_modules_loop L (em_id m # ids) active_mappings rules ms))"

definition validate_modules :: "icp_lib \<Rightarrow> routing_rule ext_module list \<Rightarrow> failure option" where
  "validate_modules L modules =
     (if length modules > 64 then Some ''at most 64 interception extensions are allowed''
      else validate_modules_loop L [] [] 0 modules)"

definition validate_execution_order :: "('r, 'z) ext_module_scheme list \<Rightarrow> string list option \<Rightarrow> failure option" where
  "validate_execution_order modules order_opt = (case order_opt of
     None \<Rightarrow> Some ''execution_order must be an array''
   | Some order \<Rightarrow>
      if length order \<noteq> length modules then Some ''execution_order must contain every extension id exactly once''
      else each_unique id
        (\<lambda>i. fail_if (i \<notin> set (map em_id modules)) ''execution_order contains unknown extension id'')
        ''execution_order contains duplicate extension id'' no_check [] order)"

section \<open>The whole document\<close>

definition certificate_host_patterns :: "('r, 'z) config_document_scheme \<Rightarrow> string list" where
  "certificate_host_patterns c =
     unique_sorted (concat (map em_capture_hosts (filter em_enabled (cf_modules c))))"

definition validate_loopback_address :: "string \<Rightarrow> failure option" where
  "validate_loopback_address value = (case split_host_port value of
     None \<Rightarrow> Some ''must be a host:port address''
   | Some (host, port) \<Rightarrow> first_some
      [(case parse_ip host of
          None \<Rightarrow> Some ''must use an IPv4 loopback address''
        | Some a \<Rightarrow> fail_if (to4 a = None \<or> \<not> ip_is_loopback a) ''must use an IPv4 loopback address''),
       fail_if (port = [] \<or> port = ''0'') ''must use a non-zero port''])"

definition validate_config :: "icp_lib \<Rightarrow> (routing_rule, 'z) config_document_scheme \<Rightarrow> failure option" where
  "validate_config L c = first_some
     [fail_if (cf_version c \<noteq> 5) ''config version must be 5'',
      validate_loopback_address (cf_listen c),
      validate_loopback_address (px_address (cf_upstream_proxy c)),
      fail_if (cf_listen c \<noteq> ''127.0.0.1:18080'' \<or> px_address (cf_upstream_proxy c) \<noteq> ''127.0.0.1:17890'')
        ''SOCKS addresses do not match the fixed loopback boundary'',
      fail_if (length (cf_username c) < 16 \<or> length (cf_password c) < 24 \<or> length (cf_username c) > 255 \<or>
        length (cf_password c) > 255) ''inbound SOCKS credentials have an invalid length'',
      fail_if (length (px_username (cf_upstream_proxy c)) < 16 \<or> length (px_password (cf_upstream_proxy c)) < 24 \<or>
        length (px_username (cf_upstream_proxy c)) > 255 \<or> length (px_password (cf_upstream_proxy c)) > 255)
        ''upstream SOCKS credentials have an invalid length'',
      fail_if (trim_space (cf_tls_cert c) = [] \<or> trim_space (cf_tls_key c) = []) ''tls_cert and tls_key are required'',
      validate_modules L (cf_modules c),
      validate_execution_order (cf_modules c) (cf_execution_order c),
      fail_if (length (certificate_host_patterns c) > 512) ''enabled interception extensions exceed 512 unique certificate hosts'']"

definition validate_deployment :: "('r, 'z) config_document_scheme \<Rightarrow> failure option" where
  "validate_deployment c = fail_if (cf_tls_cert c \<noteq> ''/etc/5gpn/intercept/tls/fullchain.pem'' \<or>
     cf_tls_key c \<noteq> ''/etc/5gpn/intercept/tls/privkey.pem'') ''TLS paths do not match the fixed interception runtime boundary''"

fun check_certificate_modules :: "string list \<Rightarrow> nat \<Rightarrow> routing_rule ext_module list \<Rightarrow> failure option" where
  "check_certificate_modules ids active_rules [] = None"
| "check_certificate_modules ids active_rules (m # ms) =
     (let rules = (if em_enabled m then active_rules + length (em_routing_rules m) else active_rules) in
      case first_some
        [fail_if (em_id m \<in> set ids) ''duplicate extension id'',
         validate_module_network_permissions m,
         validate_routing_rules (em_routing_rules m),
         fail_if (em_capture_dns m \<noteq> ''trust'' \<and> em_capture_dns m \<noteq> ''china'') ''capture_dns must be trust or china'',
         (if \<not> em_enabled m then None
          else first_some
            [fail_if (rules > 2048) ''enabled extensions exceed 2048 declared routing rules'',
             fail_if (\<not> valid_module_id (em_id m) \<or> em_capture_hosts m = [] \<or> length (em_capture_hosts m) > 512)
               ''enabled extension has invalid identity or capture host count'',
             each (\<lambda>h. fail_if (\<not> valid_host_pattern h) ''enabled extension has invalid capture host'') (em_capture_hosts m)])] of
        Some e \<Rightarrow> Some e
      | None \<Rightarrow> check_certificate_modules (em_id m # ids) rules ms)"

definition validate_certificate_request :: "(routing_rule, 'z) config_document_scheme \<Rightarrow> failure option" where
  "validate_certificate_request c = first_some
     [fail_if (cf_version c \<noteq> 5) ''config version must be 5'',
      validate_deployment c,
      fail_if (length (cf_modules c) > 64) ''at most 64 interception extensions are allowed'',
      validate_execution_order (cf_modules c) (cf_execution_order c),
      check_certificate_modules [] 0 (cf_modules c),
      fail_if (length (certificate_host_patterns c) > 512) ''enabled interception extensions exceed 512 unique certificate hosts'']"

section \<open>What an accepted document guarantees\<close>

definition module_ok :: "icp_lib \<Rightarrow> routing_rule ext_module \<Rightarrow> bool" where
  "module_ok L m \<longleftrightarrow> valid_module_id (em_id m) \<and> check_module_head L m = None \<and> check_module_scripts L m = None \<and>
     (em_enabled m \<longrightarrow> module_settings_ready L (em_settings m))"

lemma validate_modules_loop_step:
  assumes "validate_modules_loop L ids act n (m # ms) = None"
  obtains act' where "module_ok L m" "em_id m \<notin> set ids"
    "em_enabled m \<longrightarrow> n + length (em_routing_rules m) \<le> 2048"
    "em_enabled m \<longrightarrow> merge_mappings act (em_host_mappings m) = Inr act'"
    "validate_modules_loop L (em_id m # ids) act' (if em_enabled m then n + length (em_routing_rules m) else n) ms = None"
  using assms by (fastforce simp: module_ok_def Let_def split: option.splits if_splits sum.splits)

lemma validate_modules_loop_ok:
  "validate_modules_loop L ids act n ms = None \<Longrightarrow>
     (\<forall>m\<in>set ms. module_ok L m) \<and> distinct (map em_id ms) \<and> set (map em_id ms) \<inter> set ids = {}"
proof (induction ms arbitrary: ids act n)
  case (Cons m ms)
  from Cons.prems obtain act' where m: "module_ok L m" "em_id m \<notin> set ids"
    "validate_modules_loop L (em_id m # ids) act' (if em_enabled m then n + length (em_routing_rules m) else n) ms = None"
    by (rule validate_modules_loop_step)
  from Cons.IH [OF m(3)] m(1,2) show ?case by auto
qed simp

lemma validate_config_modules:
  assumes "validate_config L c = None"
  shows "length (cf_modules c) \<le> 64" "validate_modules_loop L [] [] 0 (cf_modules c) = None"
    "\<forall>m\<in>set (cf_modules c). module_ok L m" "distinct (map em_id (cf_modules c))"
    "validate_execution_order (cf_modules c) (cf_execution_order c) = None"
    "length (certificate_host_patterns c) \<le> 512"
proof -
  have v: "validate_modules L (cf_modules c) = None" and
    o: "validate_execution_order (cf_modules c) (cf_execution_order c) = None" "length (certificate_host_patterns c) \<le> 512"
    using assms by (simp_all add: validate_config_def)
  show "length (cf_modules c) \<le> 64" and l: "validate_modules_loop L [] [] 0 (cf_modules c) = None"
    using v by (auto simp: validate_modules_def split: if_splits)
  from validate_modules_loop_ok [OF l]
  show "\<forall>m\<in>set (cf_modules c). module_ok L m" "distinct (map em_id (cf_modules c))" by auto
  show "validate_execution_order (cf_modules c) (cf_execution_order c) = None"
    "length (certificate_host_patterns c) \<le> 512" by (rule o)+
qed

lemma execution_order_None:
  "validate_execution_order ms order = None \<longleftrightarrow> (\<exists>os. order = Some os \<and> length os = length ms \<and>
     set os \<subseteq> set (map em_id ms) \<and> distinct os)"
  by (auto simp: validate_execution_order_def split: option.splits)

lemma execution_order_permutation:
  assumes "distinct (map em_id ms)"
  shows "validate_execution_order ms order = None \<longleftrightarrow> (\<exists>os. order = Some os \<and> mset os = mset (map em_id ms))"
proof -
  have "length os = length ms \<and> set os \<subseteq> set (map em_id ms) \<and> distinct os \<longleftrightarrow> mset os = mset (map em_id ms)" for os
  proof
    assume a: "length os = length ms \<and> set os \<subseteq> set (map em_id ms) \<and> distinct os"
    then have "card (set os) = card (set (map em_id ms))"
      using assms by (metis distinct_card length_map)
    then have "set os = set (map em_id ms)" using a card_subset_eq [of "set (map em_id ms)" "set os"] by auto
    then show "mset os = mset (map em_id ms)" using a assms set_eq_iff_mset_eq_distinct by blast
  next
    assume m: "mset os = mset (map em_id ms)"
    then show "length os = length ms \<and> set os \<subseteq> set (map em_id ms) \<and> distinct os"
      using assms mset_eq_imp_distinct_iff [OF m] mset_eq_setD [OF m] mset_eq_length [OF m] by auto
  qed
  then show ?thesis unfolding execution_order_None by blast
qed

lemma module_ok_head:
  assumes "module_ok L m"
  shows "validate_module_network_permissions m = None" "validate_routing_rules (em_routing_rules m) = None"
    "em_capture_dns m = ''trust'' \<or> em_capture_dns m = ''china''" "em_capture_hosts m \<noteq> []"
    "length (em_capture_hosts m) \<le> 512" "\<forall>h\<in>set (em_capture_hosts m). valid_host_pattern h"
    "sorted (em_capture_hosts m)" "valid_module_id (em_id m)"
    "validate_host_mappings (em_capture_hosts m) (em_host_mappings m) = None"
  using assms by (auto simp: module_ok_def check_module_head_def)

lemma module_ok_scripts:
  assumes "module_ok L m" "r \<in> set (em_scripts m)"
  shows "check_script L m r = None" "distinct (map sc_id (em_scripts m))"
  using assms by (auto simp: module_ok_def check_module_scripts_def)

lemma validate_modules_certificate:
  "validate_modules_loop L ids act n ms = None \<Longrightarrow> check_certificate_modules ids n ms = None"
proof (induction ms arbitrary: ids act n)
  case (Cons m ms)
  from Cons.prems obtain act' where m: "module_ok L m" "em_id m \<notin> set ids"
    "em_enabled m \<longrightarrow> n + length (em_routing_rules m) \<le> 2048"
    "validate_modules_loop L (em_id m # ids) act' (if em_enabled m then n + length (em_routing_rules m) else n) ms = None"
    by (rule validate_modules_loop_step)
  show ?case
    unfolding check_certificate_modules.simps Let_def
    by (subst first_some_sole)
       (use Cons.IH [OF m(4)] m(2,3) module_ok_head [OF m(1)] in auto)
qed simp

text \<open>A document the proxy runs on is one the certificate publisher issues a certificate for: what
  \<open>Validate\<close> and \<open>ValidateDeployment\<close> accept, \<open>ValidateCertificateRequest\<close> accepts.
\<close>

theorem certificate_request_accepts_valid:
  assumes "validate_config L c = None" "validate_deployment c = None"
  shows "validate_certificate_request c = None"
proof -
  note v = validate_config_modules [OF assms(1)]
  have "cf_version c = 5" using assms(1) by (simp add: validate_config_def)
  then show ?thesis
    using v(1,5,6) assms(2) validate_modules_certificate [OF v(2)] by (simp add: validate_certificate_request_def)
qed

text \<open>C21: An action of an accepted document stays within its extension: a host that matches one of the
  action's hosts matches one of the extension's capture hosts, and the execution order is a
  permutation of the extensions.
\<close>

theorem action_hosts_within_capture:
  assumes "validate_config L c = None" "m \<in> set (cf_modules c)" "r \<in> set (em_scripts m)"
    "p \<in> set (am_hosts (sc_match r))" "match_host_pattern p host"
  shows "list_ex (\<lambda>q. match_host_pattern q host) (em_capture_hosts m) \<and>
    (\<exists>os. cf_execution_order c = Some os \<and> mset os = mset (map em_id (cf_modules c)))"
proof -
  note v = validate_config_modules [OF assms(1)]
  have "check_script L m r = None" using module_ok_scripts(1) [OF _ assms(3)] v(3) assms(2) by blast
  then have "valid_host_pattern p" "host_covered_by (em_capture_hosts m) p"
    using assms(4) by (auto simp: check_script_def validate_action_match_def)
  then obtain q where "q \<in> set (em_capture_hosts m)" "host_pattern_covers q p" "valid_host_pattern p"
    by (auto simp: host_covered_by_def list_ex_iff)
  then have "list_ex (\<lambda>q. match_host_pattern q host) (em_capture_hosts m)"
    using covers_sound [of p q host] assms(5) by (auto simp: list_ex_iff)
  then show ?thesis using execution_order_permutation [OF v(4)] v(5) by blast
qed

section \<open>An example document\<close>

definition ex_icp_lib :: icp_lib where
  "ex_icp_lib = \<lparr>il_digest = (\<lambda>s. ''sha256''), il_regex_ok = (\<lambda>r. True),
     il_regex_match = (\<lambda>r s. has_prefix s (drop 1 r)), il_rfc3339 = (\<lambda>t. t = ''2025-01-01T00:00:00Z''),
     il_json = (\<lambda>s. if s = ''true'' then Some (JBool True) else None), il_js_ok = (\<lambda>f s. True)\<rparr>"

definition ex_script :: script_rule where
  "ex_script = \<lparr>sc_id = ''rewrite'', sc_phase = ''request'',
     sc_match = \<lparr>am_hosts = [''*.cdn.example.com''], am_schemes = [''https''], am_methods = [''GET''],
       am_path_regex = ''^/v1/'', am_status_codes = []\<rparr>,
     sc_url = [], sc_digest = ''sha256'', sc_body = ''function transform() {}'', sc_body_mode = ''none'',
     sc_timeout_ms = 1000, sc_max_body_bytes = 1048576\<rparr>"

definition ex_module :: "routing_rule ext_module" where
  "ex_module = \<lparr>em_id = ''demo.ext'', em_version = ''1.0.0'', em_name = ''Demo'', em_description = [], em_enabled = True,
     em_imported_at = ''2025-01-01T00:00:00Z'', em_source = \<lparr>so_url = [], so_digest = ''sha256'', so_body = ''kind: Extension''\<rparr>,
     em_capture_hosts = [''*.example.com''], em_capture_dns = ''trust'',
     em_host_mappings = [\<lparr>hp_pattern = ''*.cdn.example.com'', hp_target = ''origin.example.net''\<rparr>],
     em_routing_rules = [\<lparr>rr_action = ''reject'', rr_domain = Some ''ads.example.com'', rr_domain_suffix = None,
       rr_domain_keywords = None, rr_all_domain_keywords = None, rr_ip_cidr = None, rr_network = Some ''udp'',
       rr_destination_port = Some 443\<rparr>],
     em_settings = [\<lparr>se_key = ''on'', se_type = ''boolean'', se_label = [], se_description = [], se_required = True,
       se_options = [], se_min = None, se_max = None, se_default = [], se_value = ''true''\<rparr>],
     em_scripts = [ex_script], em_persistent_storage = True, em_network_origins = [''https://api.example.net''],
     em_egress_required = False, em_egress_group = []\<rparr>"

definition ex_document :: "routing_rule config_document" where
  "ex_document = \<lparr>cf_version = 5, cf_execution_order = Some [''demo.ext''], cf_listen = ''127.0.0.1:18080'',
     cf_username = ''0123456789abcdef'', cf_password = ''0123456789abcdef01234567'',
     cf_tls_cert = ''/etc/5gpn/intercept/tls/fullchain.pem'', cf_tls_key = ''/etc/5gpn/intercept/tls/privkey.pem'',
     cf_upstream_proxy = \<lparr>px_address = ''127.0.0.1:17890'', px_username = ''fedcba9876543210'', px_password = ''fedcba987654321001234567''\<rparr>,
     cf_mitm = \<lparr>mt_enabled = True, mt_http2 = True, mt_quic_fallback = True\<rparr>, cf_modules = [ex_module]\<rparr>"

lemma ex_document_valid: "validate_config ex_icp_lib ex_document = None" "validate_deployment ex_document = None"
  by code_simp+

lemma certificate_request_accepts_valid_witness: "validate_certificate_request ex_document = None"
  by (rule certificate_request_accepts_valid [OF ex_document_valid])

lemma action_hosts_within_capture_witness:
  "list_ex (\<lambda>q. match_host_pattern q ''a.cdn.example.com'') (em_capture_hosts ex_module)"
proof -
  have m: "ex_module \<in> set (cf_modules ex_document)" by (simp add: ex_document_def)
  have r: "ex_script \<in> set (em_scripts ex_module)" by (simp add: ex_module_def)
  have p: "''*.cdn.example.com'' \<in> set (am_hosts (sc_match ex_script))" by (simp add: ex_script_def)
  have h: "match_host_pattern ''*.cdn.example.com'' ''a.cdn.example.com''" by code_simp
  show ?thesis using action_hosts_within_capture [OF ex_document_valid(1) m r p h] by blast
qed

end
