(* ===== verification/Icp_Rules.thy ===== *)
theory Icp_Rules
  imports Icp_Config
begin

text \<open>
  What the proxy decides from an accepted document: which hosts it intercepts, which extension owns a
  host, where a host is mapped to (\<open>config.go\<close>), which actions a message meets (\<open>module_runtime.go\<close>),
  how far an action may rewrite a URL and which targets a connection may reach
  (\<open>module_request_rewrite.go\<close>, \<open>module_network.go\<close>). A document may carry the structures compiled
  when it was loaded; a compiled regular expression is its text.
\<close>

record compiled_script_rule =
  cr_rule :: script_rule
  cr_path :: string
  cr_hosts :: host_matcher

record compiled_script_module =
  cm_module :: "routing_rule ext_module"
  cm_rules :: "compiled_script_rule list"
  cm_hosts :: "host_matcher option"

record compiled_script_config =
  cs_modules :: "compiled_script_module list"
  cs_module_hosts :: "(string, host_matcher) go_map"
  cs_active_hosts :: host_matcher
  cs_active_patterns :: "string list"

record icp_config = "routing_rule config_document" +
  cf_runtime :: "compiled_script_config option"

abbreviation mitm_on :: "icp_config \<Rightarrow> bool" where "mitm_on c \<equiv> mt_enabled (cf_mitm c)"

section \<open>Compilation\<close>

definition compile_script_rules :: "icp_lib \<Rightarrow> script_rule list \<Rightarrow> compiled_script_rule list option" where
  "compile_script_rules L rules =
     (if list_all (\<lambda>r. il_regex_ok L (am_path_regex (sc_match r))) rules
      then Some (map (\<lambda>r. \<lparr>cr_rule = r, cr_path = am_path_regex (sc_match r),
             cr_hosts = new_compiled_host_matcher (am_hosts (sc_match r))\<rparr>) rules)
      else None)"

fun compile_ordered ::
    "icp_lib \<Rightarrow> (string, routing_rule ext_module) go_map \<Rightarrow> (string, host_matcher) go_map \<Rightarrow> string list \<Rightarrow>
       compiled_script_module list option" where
  "compile_ordered L by_id hosts [] = Some []"
| "compile_ordered L by_id hosts (i # order) =
     (case map_of by_id i of
        None \<Rightarrow> compile_ordered L by_id hosts order
      | Some m \<Rightarrow>
          if \<not> em_enabled m then compile_ordered L by_id hosts order
          else (case compile_script_rules L (em_scripts m) of
             None \<Rightarrow> None
           | Some rs \<Rightarrow> map_option (Cons \<lparr>cm_module = m, cm_rules = rs, cm_hosts = map_of hosts (em_id m)\<rparr>)
               (compile_ordered L by_id hosts order)))"

definition enabled_modules :: "icp_config \<Rightarrow> routing_rule ext_module list" where
  "enabled_modules c = filter em_enabled (cf_modules c)"

definition execution_order :: "icp_config \<Rightarrow> string list" where
  "execution_order c = (case cf_execution_order c of None \<Rightarrow> [] | Some os \<Rightarrow> os)"

definition compile_script_config :: "icp_lib \<Rightarrow> icp_config \<Rightarrow> compiled_script_config option" where
  "compile_script_config L c =
     (let by_id = fold (\<lambda>m t. AList.update (em_id m) m t) (cf_modules c) [];
          hosts = fold (\<lambda>m t. AList.update (em_id m) (new_compiled_host_matcher (em_capture_hosts m)) t)
                    (enabled_modules c) [];
          active = unique_sorted (if mitm_on c then concat (map em_capture_hosts (enabled_modules c)) else [])
      in map_option (\<lambda>ms. \<lparr>cs_modules = ms, cs_module_hosts = hosts,
             cs_active_hosts = new_compiled_host_matcher active, cs_active_patterns = active\<rparr>)
           (compile_ordered L by_id hosts (execution_order c)))"

section \<open>Hosts\<close>

definition active_host_patterns :: "icp_config \<Rightarrow> string list" where
  "active_host_patterns c =
     (if \<not> mitm_on c then []
      else case cf_runtime c of
        Some r \<Rightarrow> cs_active_patterns r
      | None \<Rightarrow> unique_sorted (concat (map em_capture_hosts (enabled_modules c))))"

definition active_intercept_host :: "icp_config \<Rightarrow> string \<Rightarrow> bool" where
  "active_intercept_host c value =
     (if \<not> mitm_on c then False
      else case cf_runtime c of
        Some r \<Rightarrow> matcher_match (Some (cs_active_hosts r)) value
      | None \<Rightarrow> list_ex (\<lambda>p. match_host_pattern p (canonical_host value)) (active_host_patterns c))"

definition has_active_extensions :: "icp_config \<Rightarrow> bool" where
  "has_active_extensions c =
     (if \<not> mitm_on c then False
      else case cf_runtime c of
        Some r \<Rightarrow> cs_active_patterns r \<noteq> []
      | None \<Rightarrow> active_host_patterns c \<noteq> [])"

record socks_target =
  tg_host :: string
  tg_port :: int

definition allowed_inbound_socks_target :: "icp_config \<Rightarrow> socks_target \<Rightarrow> bool" where
  "allowed_inbound_socks_target c t =
     (if \<not> mitm_on c \<or> tg_port t \<noteq> 80 \<and> tg_port t \<noteq> 443 then False
      else active_intercept_host c (tg_host t) \<or> parse_ip (tg_host t) \<noteq> None)"

definition module_owns_host :: "('r, 'z) ext_module_scheme \<Rightarrow> string \<Rightarrow> bool" where
  "module_owns_host m host = list_ex (\<lambda>p. match_host_pattern p (canonical_host host)) (em_capture_hosts m)"

text \<open>The answer of the compiled matcher of a module where there is one.\<close>

definition runtime_owns_host :: "icp_config \<Rightarrow> routing_rule ext_module \<Rightarrow> string \<Rightarrow> bool" where
  "runtime_owns_host c m host = (case cf_runtime c of
     None \<Rightarrow> module_owns_host m host
   | Some r \<Rightarrow> matcher_match (map_of (cs_module_hosts r) (em_id m)) host)"

definition better_mapping :: "string \<Rightarrow> host_mapping \<Rightarrow> string \<times> string \<Rightarrow> string \<times> string" where
  "better_mapping host m best =
     (if match_host_pattern (hp_pattern m) host \<and>
         (hp_pattern m = host \<or> length (hp_pattern m) > length (fst best))
      then (hp_pattern m, hp_target m) else best)"

definition mapped_intercept_target :: "icp_config \<Rightarrow> string \<Rightarrow> string" where
  "mapped_intercept_target c h =
     (let host = canonical_host h in
      snd (fold (\<lambda>m best. if em_enabled m \<and> runtime_owns_host c m host
                          then fold (better_mapping host) (em_host_mappings m) best else best)
             (cf_modules c) ([], host)))"

section \<open>Matching actions\<close>

record script_message =
  mg_url :: string
  mg_method :: string
  mg_headers :: "(string, string list) go_map"
  mg_trailers :: "(string, string list) go_map"
  mg_body :: string
  mg_status :: int

definition message_path :: "go_url \<Rightarrow> string" where
  "message_path u = (let p = (if escaped_path u = [] then [slash] else escaped_path u)
     in if u_raw_query u \<noteq> [] then p @ CHR ''?'' # u_raw_query u else p)"

definition rule_matches ::
    "icp_lib \<Rightarrow> string \<Rightarrow> script_message \<Rightarrow> go_url \<Rightarrow> compiled_script_rule \<Rightarrow> bool" where
  "rule_matches L phase msg u cr =
     (let r = cr_rule cr; host = canonical_host (url_hostname u) in
      \<not> (sc_phase r \<noteq> phase \<or> \<not> matcher_match (Some (cr_hosts cr)) host \<or>
         to_lower (u_scheme u) \<notin> set (am_schemes (sc_match r))) \<and>
      \<not> (am_methods (sc_match r) \<noteq> [] \<and> mg_method msg \<notin> set (am_methods (sc_match r))) \<and>
      \<not> (am_status_codes (sc_match r) \<noteq> [] \<and> mg_status msg \<notin> set (am_status_codes (sc_match r))) \<and>
      il_regex_match L (cr_path cr) (message_path u))"

definition matching_script_rules ::
    "icp_lib \<Rightarrow> icp_config \<Rightarrow> string \<Rightarrow> script_message \<Rightarrow> (routing_rule ext_module \<times> script_rule) list" where
  "matching_script_rules L c phase msg = (case url_parse (mg_url msg) of
     None \<Rightarrow> []
   | Some u \<Rightarrow>
      (case (case cf_runtime c of Some r \<Rightarrow> Some r | None \<Rightarrow> compile_script_config L c) of
         None \<Rightarrow> []
       | Some r \<Rightarrow> concat (map (\<lambda>cm.
            if matcher_match (cm_hosts cm) (canonical_host (url_hostname u))
            then map (\<lambda>cr. (cm_module cm, cr_rule cr)) (filter (rule_matches L phase msg u) (cm_rules cm))
            else []) (cs_modules r))))"

section \<open>Where a request may go\<close>

definition parse_module_network_request_url :: "string \<Rightarrow> (go_url \<times> string \<times> socks_target) option" where
  "parse_module_network_request_url raw =
     (if CHR ''#'' \<in> set raw then None
      else case url_parse raw of
        None \<Rightarrow> None
      | Some u \<Rightarrow>
         if u_opaque u \<noteq> [] \<or> u_user u \<noteq> None \<or> u_fragment u \<noteq> [] \<or> url_hostname u = [] then None
         else (case canonical_module_network_origin (to_lower (u_scheme u) @ ''://'' @ u_host u) of
            None \<Rightarrow> None
          | Some origin \<Rightarrow>
             (case url_parse origin of
                None \<Rightarrow> None
              | Some ou \<Rightarrow>
                 let port_text = (if url_port ou = [] then (if u_scheme ou = ''https'' then ''443'' else ''80'') else url_port ou)
                 in case go_atoi port_text of
                      None \<Rightarrow> None
                    | Some port \<Rightarrow>
                       let host = canonical_host (url_hostname u);
                           u' = u\<lparr>u_scheme := to_lower (u_scheme u),
                                  u_host := if url_port ou \<noteq> [] then join_host_port host (url_port ou) else host\<rparr>
                       in Some (u', origin, \<lparr>tg_host = canonical_host (url_hostname ou), tg_port = port\<rparr>))))"

definition module_declares_network_origin :: "('r, 'z) ext_module_scheme \<Rightarrow> string \<Rightarrow> bool" where
  "module_declares_network_origin m origin \<longleftrightarrow> origin \<in> set (em_network_origins m)"

text \<open>The two authorisations use the compiled matcher only when the runtime has one for the module.\<close>

definition boundary_owns_host :: "icp_config \<Rightarrow> routing_rule ext_module \<Rightarrow> string \<Rightarrow> bool" where
  "boundary_owns_host c m host = (case cf_runtime c of
     None \<Rightarrow> module_owns_host m host
   | Some r \<Rightarrow> (case map_of (cs_module_hosts r) (em_id m) of
        None \<Rightarrow> module_owns_host m host | Some h \<Rightarrow> matcher_match (Some h) host))"

definition authorize_request_url_rewrite ::
    "icp_config \<Rightarrow> routing_rule ext_module \<Rightarrow> string \<Rightarrow> string \<Rightarrow> failure + go_url" where
  "authorize_request_url_rewrite c m current_url raw_target =
     (if raw_target = [] \<or> length raw_target > 16384 then Inl ''request URL rewrite must contain 1 to 16384 bytes''
      else case url_parse raw_target of
        None \<Rightarrow> Inl ''request URL rewrite must be an absolute HTTP URL''
      | Some rt \<Rightarrow>
         if u_scheme rt \<noteq> ''http'' \<and> u_scheme rt \<noteq> ''https'' then Inl ''request URL rewrite must be an absolute HTTP URL''
         else case parse_module_network_request_url current_url of
            None \<Rightarrow> Inl ''current request URL is invalid''
          | Some (current, current_origin, _) \<Rightarrow>
             (case parse_module_network_request_url raw_target of
                None \<Rightarrow> Inl ''request URL rewrite is invalid''
              | Some (target, target_origin, _) \<Rightarrow>
                  if target_origin = current_origin then
                    (if \<not> boundary_owns_host c m (url_hostname target) \<and> \<not> module_declares_network_origin m target_origin
                     then Inl ''same-origin rewrite target is outside the extension boundary'' else Inr rt)
                  else if u_scheme current = ''https'' \<and> u_scheme target \<noteq> ''https''
                    then Inl ''request URL rewrite cannot downgrade HTTPS to HTTP''
                  else if u_scheme rt @ ''://'' @ u_host rt \<noteq> target_origin
                    then Inl ''cross-origin request URL origin must be canonical''
                  else if \<not> module_declares_network_origin m target_origin
                    then Inl ''cross-origin request URL origin is not declared''
                  else Inr target))"

definition authorize_request_action_url :: "icp_config \<Rightarrow> routing_rule ext_module \<Rightarrow> string \<Rightarrow> failure option" where
  "authorize_request_action_url c m raw = (case parse_module_network_request_url raw of
     None \<Rightarrow> Some ''current request URL is invalid''
   | Some (u, origin, _) \<Rightarrow>
      fail_if (\<not> (boundary_owns_host c m (url_hostname u) \<or> module_declares_network_origin m origin))
        ''current request origin is outside this extension's capture hosts and declared network origins'')"

fun declared_target :: "string \<Rightarrow> int \<Rightarrow> string list \<Rightarrow> socks_target option" where
  "declared_target host port [] = None"
| "declared_target host port (origin # rest) =
     (case parse_module_network_request_url origin of
        Some (_, canonical, t) \<Rightarrow>
          if canonical = origin \<and> tg_host t = host \<and> tg_port t = port then Some t
          else declared_target host port rest
      | None \<Rightarrow> declared_target host port rest)"

fun first_declared :: "string \<Rightarrow> int \<Rightarrow> routing_rule ext_module list \<Rightarrow> socks_target option" where
  "first_declared host port [] = None"
| "first_declared host port (m # ms) =
     (if \<not> em_enabled m then first_declared host port ms
      else case declared_target host port (em_network_origins m) of
        Some t \<Rightarrow> Some t | None \<Rightarrow> first_declared host port ms)"

definition active_module_upstream_target :: "icp_config \<Rightarrow> string \<Rightarrow> string \<Rightarrow> socks_target option" where
  "active_module_upstream_target c raw_host port_text =
     (if \<not> mitm_on c then None
      else let host = canonical_host raw_host in
        case go_atoi port_text of
          None \<Rightarrow> None
        | Some port \<Rightarrow>
           if port < 1 \<or> port > 65535 then None
           else if (port = 80 \<or> port = 443) \<and> active_intercept_host c host
             then Some \<lparr>tg_host = mapped_intercept_target c host, tg_port = port\<rparr>
           else first_declared host port (cf_modules c))"

section \<open>The compiled structures answer for the document\<close>

lemma fold_update_keys:
  "map_of (fold (\<lambda>x t. AList.update (f x) (g x) t) xs t) k =
     (case List.find (\<lambda>x. f x = k) (rev xs) of Some x \<Rightarrow> Some (g x) | None \<Rightarrow> map_of t k)"
proof (induction xs rule: rev_induct)
  case (snoc x xs)
  then show ?case by (auto simp: split: option.split)
qed simp

lemma find_rev_SomeD: "List.find P (rev xs) = Some y \<Longrightarrow> y \<in> set xs \<and> P y"
  by (metis find_Some_iff nth_mem set_rev)

lemma find_distinct_key:
  assumes "distinct (map f xs)" "x \<in> set xs"
  shows "List.find (\<lambda>y. f y = f x) (rev xs) = Some x"
proof -
  have "List.find (\<lambda>y. f y = f x) (rev xs) \<noteq> None" using assms(2) by (auto simp: find_None_iff)
  then obtain y where y: "List.find (\<lambda>y. f y = f x) (rev xs) = Some y" by blast
  then have "y \<in> set xs" "f y = f x" using find_rev_SomeD [OF y] by simp_all
  moreover have "inj_on f (set xs)" using assms(1) by (simp add: distinct_map)
  ultimately have "y = x" using assms(2) by (metis inj_onD)
  then show ?thesis using y by simp
qed

lemma fold_update_distinct:
  assumes "distinct (map f xs)" "x \<in> set xs"
  shows "map_of (fold (\<lambda>x t. AList.update (f x) (g x) t) xs t) (f x) = Some (g x)"
  using find_distinct_key [OF assms] by (simp add: fold_update_keys)

text \<open>The enabled modules in execution order.\<close>

definition ordered_enabled :: "icp_config \<Rightarrow> routing_rule ext_module list" where
  "ordered_enabled c = concat (map (\<lambda>i. filter (\<lambda>m. em_id m = i) (enabled_modules c)) (execution_order c))"

definition all_regex_ok :: "icp_lib \<Rightarrow> icp_config \<Rightarrow> bool" where
  "all_regex_ok L c = list_all (\<lambda>m. list_all (\<lambda>r. il_regex_ok L (am_path_regex (sc_match r))) (em_scripts m)) (cf_modules c)"

definition compiled_rules :: "script_rule list \<Rightarrow> compiled_script_rule list" where
  "compiled_rules rules = map (\<lambda>r. \<lparr>cr_rule = r, cr_path = am_path_regex (sc_match r),
     cr_hosts = new_compiled_host_matcher (am_hosts (sc_match r))\<rparr>) rules"

definition compiled_module :: "routing_rule ext_module \<Rightarrow> compiled_script_module" where
  "compiled_module m = \<lparr>cm_module = m, cm_rules = compiled_rules (em_scripts m),
     cm_hosts = Some (new_compiled_host_matcher (em_capture_hosts m))\<rparr>"

lemma filter_key_distinct:
  "distinct (map f xs) \<Longrightarrow> filter (\<lambda>x. f x = k) xs =
     (case List.find (\<lambda>x. f x = k) (rev xs) of Some x \<Rightarrow> [x] | None \<Rightarrow> [])"
proof (induction xs rule: rev_induct)
  case (snoc x xs)
  show ?case
  proof (cases "f x = k")
    case True
    then have "filter (\<lambda>x. f x = k) xs = []" using snoc.prems by (force simp: filter_empty_conv image_iff)
    then show ?thesis using True by simp
  qed (use snoc in simp)
qed simp

lemma find_filter_enabled:
  assumes "distinct (map em_id ms)"
  shows "filter (\<lambda>m. em_id m = i) (filter em_enabled ms) =
    (case map_of (fold (\<lambda>m t. AList.update (em_id m) m t) ms []) i of
       None \<Rightarrow> [] | Some m \<Rightarrow> if em_enabled m then [m] else [])"
proof -
  have "filter (\<lambda>m. em_id m = i) (filter em_enabled ms) = filter em_enabled (filter (\<lambda>m. em_id m = i) ms)"
    by (simp add: conj_commute)
  then show ?thesis unfolding filter_key_distinct [OF assms] fold_update_keys [where g = "\<lambda>m. m"]
    by (auto split: option.split)
qed

lemma compile_ordered_spec:
  assumes d: "distinct (map em_id (cf_modules c))" and r: "all_regex_ok L c"
  defines "by_id \<equiv> fold (\<lambda>m t. AList.update (em_id m) m t) (cf_modules c) []"
    and "hosts \<equiv> fold (\<lambda>m t. AList.update (em_id m) (new_compiled_host_matcher (em_capture_hosts m)) t) (enabled_modules c) []"
  shows "compile_ordered L by_id hosts order =
    Some (map compiled_module (concat (map (\<lambda>i. filter (\<lambda>m. em_id m = i) (enabled_modules c)) order)))"
proof (induction order)
  case (Cons i order)
  have f: "filter (\<lambda>m. em_id m = i) (enabled_modules c) =
    (case map_of by_id i of None \<Rightarrow> [] | Some m \<Rightarrow> if em_enabled m then [m] else [])"
    unfolding by_id_def enabled_modules_def by (rule find_filter_enabled [OF d])
  show ?case
  proof (cases "map_of by_id i")
    case (Some m)
    have "m \<in> set (cf_modules c)"
      using Some find_rev_SomeD [of "\<lambda>m. em_id m = i" "cf_modules c"]
      unfolding by_id_def fold_update_keys [where g = "\<lambda>m. m"] by (auto split: option.splits)
    then have "compile_script_rules L (em_scripts m) = Some (compiled_rules (em_scripts m))"
      using r by (auto simp: all_regex_ok_def list_all_iff compile_script_rules_def compiled_rules_def)
    moreover have "map_of hosts (em_id m) = Some (new_compiled_host_matcher (em_capture_hosts m))" if "em_enabled m"
      unfolding hosts_def
      using fold_update_distinct [of em_id "enabled_modules c" m "\<lambda>m. new_compiled_host_matcher (em_capture_hosts m)" "[]"]
        d that \<open>m \<in> set (cf_modules c)\<close> distinct_map_filter [OF d] by (simp add: enabled_modules_def)
    ultimately show ?thesis using Some f Cons by (simp add: compiled_module_def)
  qed (use f Cons in simp)
qed simp

lemma compile_script_config_spec:
  assumes "distinct (map em_id (cf_modules c))" "all_regex_ok L c"
  obtains r where "compile_script_config L c = Some r" "cs_modules r = map compiled_module (ordered_enabled c)"
    "cs_active_patterns r = unique_sorted (if mitm_on c then concat (map em_capture_hosts (enabled_modules c)) else [])"
    "cs_active_hosts r = new_compiled_host_matcher (cs_active_patterns r)"
    "\<forall>m\<in>set (cf_modules c). map_of (cs_module_hosts r) (em_id m) =
       (if em_enabled m then Some (new_compiled_host_matcher (em_capture_hosts m)) else None)"
proof -
  let ?hosts = "fold (\<lambda>m t. AList.update (em_id m) (new_compiled_host_matcher (em_capture_hosts m)) t) (enabled_modules c) []"
  have h: "map_of ?hosts (em_id m) = (if em_enabled m then Some (new_compiled_host_matcher (em_capture_hosts m)) else None)"
    if "m \<in> set (cf_modules c)" for m
  proof (cases "em_enabled m")
    case True
    then show ?thesis
      using fold_update_distinct [of em_id "enabled_modules c" m "\<lambda>m. new_compiled_host_matcher (em_capture_hosts m)" "[]"]
        that distinct_map_filter [OF assms(1)] by (simp add: enabled_modules_def)
  next
    case False
    have "em_id n \<noteq> em_id m" if "n \<in> set (enabled_modules c)" for n
      using that \<open>m \<in> set (cf_modules c)\<close> False assms(1) by (auto simp: enabled_modules_def distinct_map dest: inj_onD)
    then have "List.find (\<lambda>n. em_id n = em_id m) (rev (enabled_modules c)) = None" by (auto simp: find_None_iff)
    then show ?thesis using False by (simp add: fold_update_keys)
  qed
  define act where "act = unique_sorted (if mitm_on c then concat (map em_capture_hosts (enabled_modules c)) else [])"
  define hosts where "hosts = ?hosts"
  let ?r = "\<lparr>cs_modules = map compiled_module (ordered_enabled c), cs_module_hosts = hosts,
    cs_active_hosts = new_compiled_host_matcher act, cs_active_patterns = act\<rparr>"
  have c: "compile_script_config L c = Some ?r"
    by (simp add: compile_script_config_def Let_def compile_ordered_spec [OF assms] ordered_enabled_def act_def hosts_def)
  have h': "\<forall>m\<in>set (cf_modules c). map_of (cs_module_hosts ?r) (em_id m) =
       (if em_enabled m then Some (new_compiled_host_matcher (em_capture_hosts m)) else None)"
    using h by (simp only: hosts_def compiled_script_config.simps) blast
  show thesis by (rule that [OF c _ _ _ h']) (simp_all add: act_def)
qed

lemma matcher_unique_sorted:
  "list_ex (\<lambda>p. match_host_pattern p h) (unique_sorted ps) \<longleftrightarrow>
     list_ex (\<lambda>p. match_host_pattern (to_lower (trim_space p)) h) ps"
  by (auto simp: unique_sorted_def list_ex_iff)

definition action_applies :: "icp_lib \<Rightarrow> string \<Rightarrow> script_message \<Rightarrow> go_url \<Rightarrow> script_rule \<Rightarrow> bool" where
  "action_applies L phase msg u r \<longleftrightarrow> sc_phase r = phase \<and>
     list_ex (\<lambda>p. match_host_pattern p (canonical_host (canonical_host (url_hostname u)))) (am_hosts (sc_match r)) \<and>
     to_lower (u_scheme u) \<in> set (am_schemes (sc_match r)) \<and>
     (am_methods (sc_match r) = [] \<or> mg_method msg \<in> set (am_methods (sc_match r))) \<and>
     (am_status_codes (sc_match r) = [] \<or> mg_status msg \<in> set (am_status_codes (sc_match r))) \<and>
     il_regex_match L (am_path_regex (sc_match r)) (message_path u)"

lemma rule_matches_compiled:
  "map cr_rule (filter (rule_matches L phase msg u) (compiled_rules rs)) = filter (action_applies L phase msg u) rs"
  unfolding compiled_rules_def
  by (induction rs) (simp_all add: rule_matches_def action_applies_def matcher_is_pattern_list Let_def)

lemma matching_compiled:
  assumes "cs_modules r = map compiled_module ms"
  shows "concat (map (\<lambda>cm. if matcher_match (cm_hosts cm) h
            then map (\<lambda>cr. (cm_module cm, cr_rule cr)) (filter (rule_matches L phase msg u) (cm_rules cm))
            else []) (cs_modules r)) =
    concat (map (\<lambda>m. map (Pair m) (filter (action_applies L phase msg u) (em_scripts m)))
      (filter (\<lambda>m. module_owns_host m h) ms))"
proof -
  have "map (\<lambda>cr. (m, cr_rule cr)) (filter (rule_matches L phase msg u) (compiled_rules rs)) =
    map (Pair m) (filter (action_applies L phase msg u) rs)" for m :: "routing_rule ext_module" and rs
    using arg_cong [OF rule_matches_compiled, of "map (Pair m)"] by (simp add: comp_def)
  then show ?thesis unfolding assms
    by (induction ms) (simp_all add: compiled_module_def matcher_is_pattern_list module_owns_host_def)
qed

text \<open>A document as \<open>loadConfig\<close> leaves it: accepted, with its compiled structures or without.\<close>

definition loaded :: "icp_lib \<Rightarrow> icp_config \<Rightarrow> bool" where
  "loaded L c \<longleftrightarrow> validate_config L c = None \<and>
     (cf_runtime c = None \<or> cf_runtime c = compile_script_config L c)"

lemma validate_config_regex:
  assumes "validate_config L c = None"
  shows "all_regex_ok L c" "distinct (map em_id (cf_modules c))"
proof -
  note v = validate_config_modules [OF assms]
  show "distinct (map em_id (cf_modules c))" by (rule v(4))
  have "il_regex_ok L (am_path_regex (sc_match r))" if "m \<in> set (cf_modules c)" "r \<in> set (em_scripts m)" for m r
    using module_ok_scripts(1) [OF _ that(2)] v(3) that(1) by (auto simp: check_script_def validate_action_match_def)
  then show "all_regex_ok L c" by (simp add: all_regex_ok_def list_all_iff)
qed

lemma loaded_compiled:
  assumes "loaded L c"
  obtains r where "compile_script_config L c = Some r" "cf_runtime c = None \<or> cf_runtime c = Some r"
    "cs_modules r = map compiled_module (ordered_enabled c)"
    "mitm_on c \<Longrightarrow> cs_active_patterns r = unique_sorted (concat (map em_capture_hosts (enabled_modules c)))"
    "cs_active_hosts r = new_compiled_host_matcher (cs_active_patterns r)"
    "\<forall>m\<in>set (cf_modules c). map_of (cs_module_hosts r) (em_id m) =
       (if em_enabled m then Some (new_compiled_host_matcher (em_capture_hosts m)) else None)"
proof -
  have v: "validate_config L c = None" using assms by (simp add: loaded_def)
  obtain r where "compile_script_config L c = Some r" "cs_modules r = map compiled_module (ordered_enabled c)"
    "cs_active_patterns r = unique_sorted (if mitm_on c then concat (map em_capture_hosts (enabled_modules c)) else [])"
    "cs_active_hosts r = new_compiled_host_matcher (cs_active_patterns r)"
    "\<forall>m\<in>set (cf_modules c). map_of (cs_module_hosts r) (em_id m) =
       (if em_enabled m then Some (new_compiled_host_matcher (em_capture_hosts m)) else None)"
    by (rule compile_script_config_spec [OF validate_config_regex(2,1) [OF v]])
  then show thesis using assms by (intro that [of r]) (auto simp: loaded_def)
qed

lemma runtime_owns_loaded:
  assumes "loaded L c" "m \<in> set (cf_modules c)" "em_enabled m"
  shows "runtime_owns_host c m h = module_owns_host m h"
  by (rule loaded_compiled [OF assms(1)])
     (use assms(2,3) in \<open>auto simp: runtime_owns_host_def matcher_is_pattern_list module_owns_host_def\<close>)

lemma boundary_owns_loaded:
  assumes "loaded L c" "m \<in> set (cf_modules c)"
  shows "boundary_owns_host c m h = module_owns_host m h"
  by (rule loaded_compiled [OF assms(1)])
     (use assms(2) in \<open>auto simp: boundary_owns_host_def matcher_is_pattern_list module_owns_host_def split: if_splits\<close>)

text \<open>The hosts an accepted document intercepts, with the normalisation of the active pattern list.\<close>

lemma active_intercept_host_loaded:
  assumes "loaded L c"
  shows "active_intercept_host c v \<longleftrightarrow> mitm_on c \<and>
    list_ex (\<lambda>m. list_ex (\<lambda>p. match_host_pattern (to_lower (trim_space p)) (canonical_host v)) (em_capture_hosts m))
      (enabled_modules c)"
proof (cases "mitm_on c")
  case True
  have c: "list_ex P (concat (map em_capture_hosts ms)) \<longleftrightarrow> list_ex (\<lambda>m. list_ex P (em_capture_hosts m)) ms"
    for P and ms :: "routing_rule ext_module list" by (auto simp: list_ex_iff)
  show ?thesis
    by (rule loaded_compiled [OF assms])
       (use True c in \<open>auto simp: active_intercept_host_def active_host_patterns_def matcher_is_pattern_list matcher_unique_sorted\<close>)
qed (simp add: active_intercept_host_def)

text \<open>C19: What runs on a message: in execution order, each enabled extension that owns the message's host
  contributes the actions, in its own order, whose phase, hosts, schemes, methods, status codes and
  path expression all fit, whether the structures were compiled at load or are compiled on the spot.
\<close>

theorem matching_rules_spec:
  assumes "loaded L c"
  shows "matching_script_rules L c phase msg = (case url_parse (mg_url msg) of
     None \<Rightarrow> []
   | Some u \<Rightarrow> concat (map (\<lambda>m. map (Pair m) (filter (action_applies L phase msg u) (em_scripts m)))
       (filter (\<lambda>m. module_owns_host m (canonical_host (url_hostname u))) (ordered_enabled c))))"
proof (cases "url_parse (mg_url msg)")
  case (Some u)
  obtain r where r: "compile_script_config L c = Some r" "cf_runtime c = None \<or> cf_runtime c = Some r"
    "cs_modules r = map compiled_module (ordered_enabled c)" by (rule loaded_compiled [OF assms])
  have "matching_script_rules L c phase msg = concat (map (\<lambda>cm. if matcher_match (cm_hosts cm) (canonical_host (url_hostname u))
            then map (\<lambda>cr. (cm_module cm, cr_rule cr)) (filter (rule_matches L phase msg u) (cm_rules cm))
            else []) (cs_modules r))"
    using r(1,2) Some by (auto simp: matching_script_rules_def)
  then show ?thesis using matching_compiled [OF r(3)] Some by simp
qed (simp add: matching_script_rules_def)

section \<open>Mapped targets\<close>

text \<open>The mappings a host may meet: those of the enabled extensions that own it.\<close>

definition candidate_mappings :: "icp_config \<Rightarrow> string \<Rightarrow> host_mapping list" where
  "candidate_mappings c host = filter (\<lambda>x. match_host_pattern (hp_pattern x) host)
     (concat (map em_host_mappings (filter (\<lambda>m. em_enabled m \<and> runtime_owns_host c m host) (cf_modules c))))"

lemma fold_concat_if:
  "fold (\<lambda>m s. if P m then fold f (g m) s else s) ms s = fold f (concat (map g (filter P ms))) s"
  by (induction ms arbitrary: s) simp_all

lemma matched_pattern_length: "match_host_pattern p h \<Longrightarrow> length p \<le> length h"
  by (cases "has_prefix p star_dot")
     (auto simp: match_host_pattern_def Let_def has_prefix_iff trim_prefix_def star_dot_def)

text \<open>The mapping that wins: a longest pattern, and the host's own name when it is one of the patterns.\<close>

definition best_mapping :: "string \<Rightarrow> host_mapping list \<Rightarrow> host_mapping \<Rightarrow> bool" where
  "best_mapping host xs x \<longleftrightarrow> x \<in> set xs \<and> list_all (\<lambda>y. length (hp_pattern y) \<le> length (hp_pattern x)) xs \<and>
     (hp_pattern x = host \<or> list_all (\<lambda>y. hp_pattern y \<noteq> host) xs)"

lemma better_mapping_fold:
  fixes host
  defines "hits xs \<equiv> filter (\<lambda>x. match_host_pattern (hp_pattern x) host) xs"
  shows "hits xs = [] \<and> fold (better_mapping host) xs ([], host) = ([], host) \<or>
    (\<exists>x. best_mapping host (hits xs) x \<and> fold (better_mapping host) xs ([], host) = (hp_pattern x, hp_target x))"
proof (induction xs rule: rev_induct)
  case (snoc m xs)
  show ?case
  proof (cases "match_host_pattern (hp_pattern m) host")
    case False
    then show ?thesis using snoc by (simp add: hits_def better_mapping_def)
  next
    case True
    note l = matched_pattern_length [OF True]
    have hl: "length (hp_pattern y) \<le> length host" if "y \<in> set (hits xs)" for y
      using that by (auto simp: hits_def dest: matched_pattern_length)
    have h: "hits (xs @ [m]) = hits xs @ [m]" using True by (simp add: hits_def)
    from snoc show ?thesis
    proof
      assume a: "hits xs = [] \<and> fold (better_mapping host) xs ([], host) = ([], host)"
      have "hp_pattern m = host \<or> 0 < length (hp_pattern m)"
        using True by (auto simp: match_host_pattern_def has_prefix_def star_dot_def)
      moreover have "fold (better_mapping host) (xs @ [m]) ([], host) = better_mapping host m ([], host)" using a by simp
      ultimately show ?thesis using a True h by (auto simp: better_mapping_def [of host m] best_mapping_def)
    next
      assume "\<exists>x. best_mapping host (hits xs) x \<and> fold (better_mapping host) xs ([], host) = (hp_pattern x, hp_target x)"
      then obtain x where x: "x \<in> set (hits xs)" "fold (better_mapping host) xs ([], host) = (hp_pattern x, hp_target x)"
        "\<forall>y\<in>set (hits xs). length (hp_pattern y) \<le> length (hp_pattern x)"
        "hp_pattern x = host \<or> (\<forall>y\<in>set (hits xs). hp_pattern y \<noteq> host)" by (auto simp: list_all_iff best_mapping_def)
      show ?thesis
      proof (cases "hp_pattern m = host \<or> length (hp_pattern m) > length (hp_pattern x)")
        case rep: True
        then have "\<forall>y\<in>set (hits xs). length (hp_pattern y) \<le> length (hp_pattern m)"
          using x(3) hl by (auto intro: order.trans less_imp_le)
        moreover have "hp_pattern m = host \<or> (\<forall>y\<in>set (hits xs). hp_pattern y \<noteq> host)"
          using rep x(4) l by auto
        ultimately show ?thesis using rep True x(2) h
          by (intro disjI2 exI [of _ m]) (auto simp: better_mapping_def [of host m] best_mapping_def list_all_iff)
      next
        case False
        then show ?thesis using x True h
          by (intro disjI2 exI [of _ x]) (simp_all add: better_mapping_def [of host m] best_mapping_def list_all_iff)
      qed
    qed
  qed
qed (simp add: hits_def)

text \<open>Where an intercepted host is sent: to the target of the best of the matching mappings of the
  enabled extensions that own it, and to itself when there is none.
\<close>

theorem mapped_target_longest:
  "candidate_mappings c (canonical_host h) = [] \<and> mapped_intercept_target c h = canonical_host h \<or>
   (\<exists>x. best_mapping (canonical_host h) (candidate_mappings c (canonical_host h)) x \<and>
      mapped_intercept_target c h = hp_target x)"
  using better_mapping_fold [of "canonical_host h"
      "concat (map em_host_mappings (filter (\<lambda>m. em_enabled m \<and> runtime_owns_host c m (canonical_host h)) (cf_modules c)))"]
  unfolding mapped_intercept_target_def Let_def fold_concat_if candidate_mappings_def by fastforce

section \<open>Targets of connections\<close>

lemma declared_target_Some:
  "declared_target host port os = Some t \<Longrightarrow> \<exists>origin\<in>set os. \<exists>u.
     parse_module_network_request_url origin = Some (u, origin, t) \<and> t = \<lparr>tg_host = host, tg_port = port\<rparr>"
proof (induction os)
  case (Cons w os)
  show ?case
  proof (cases "parse_module_network_request_url w")
    case None
    then show ?thesis using Cons by auto
  next
    case (Some r)
    obtain u cn x where r: "r = (u, cn, x)" by (rule prod_cases3)
    show ?thesis
    proof (cases "cn = w \<and> tg_host x = host \<and> tg_port x = port")
      case True
      then have "x = t" using Cons.prems Some r by simp
      then show ?thesis using True Some r by (cases t) auto
    qed (use Cons Some r in auto)
  qed
qed simp

lemma first_declared_Some:
  "first_declared host port ms = Some t \<Longrightarrow>
     \<exists>m\<in>set ms. em_enabled m \<and> declared_target host port (em_network_origins m) = Some t"
  by (induction host port ms rule: first_declared.induct) (auto split: option.splits if_splits)

lemma check_network_origins_canonical:
  "check_network_origins prev os = None \<Longrightarrow> origin \<in> set os \<Longrightarrow> canonical_module_network_origin origin = Some origin"
  by (induction prev os rule: check_network_origins.induct) (auto split: if_splits)

lemma canonical_origin_host:
  assumes "canonical_module_network_origin raw = Some origin" "url_parse raw = Some u"
  shows "valid_host_target (canonical_host (url_hostname u))" "canonical_host (url_hostname u) \<noteq> []"
    "parse_ip (canonical_host (url_hostname u)) = None"
  using assms by (auto simp: canonical_module_network_origin_def Let_def split: if_splits)

text \<open>C20: A connection the proxy opens for a request goes where the document says. The port is the
  one asked for. On port 80 or 443 an intercepted host is reached under the target of the best host
  mapping that matches it - one of an enabled extension that owns the host, with the host's own name
  before a wildcard and a longer pattern before a shorter one, whose target is a public name - and
  under its own name when no mapping matches. Everything else is reached under its own name, a public
  one, and only when an enabled extension declares exactly that origin.\<close>

theorem upstream_target_allowed:
  assumes "loaded L c" "active_module_upstream_target c raw_host port_text = Some t"
  shows "mitm_on c \<and> go_atoi port_text = Some (tg_port t) \<and> 1 \<le> tg_port t \<and> tg_port t \<le> 65535 \<and>
    (let host = canonical_host raw_host; key = canonical_host host; xs = candidate_mappings c key in
     if (tg_port t = 80 \<or> tg_port t = 443) \<and> active_intercept_host c host
     then xs = [] \<and> tg_host t = key \<or>
       (\<exists>x. best_mapping key xs x \<and> tg_host t = hp_target x \<and> valid_host_target (hp_target x))
     else valid_host_target (tg_host t) \<and> tg_host t = host \<and>
       list_ex (\<lambda>m. em_enabled m \<and> list_ex (\<lambda>w. \<exists>u. parse_module_network_request_url w = Some (u, w, t)) (em_network_origins m))
         (cf_modules c))"
proof -
  let ?h = "canonical_host raw_host"
  from assms(2) have on: "mitm_on c" by (auto simp: active_module_upstream_target_def split: if_splits)
  then obtain port where port: "go_atoi port_text = Some port"
    using assms(2) by (auto simp: active_module_upstream_target_def Let_def split: option.splits)
  then have "(if port < 1 \<or> port > 65535 then None
       else if (port = 80 \<or> port = 443) \<and> active_intercept_host c ?h
         then Some \<lparr>tg_host = mapped_intercept_target c ?h, tg_port = port\<rparr>
       else first_declared ?h port (cf_modules c)) = Some t"
    using assms(2) on by (simp add: active_module_upstream_target_def Let_def)
  then have p: "1 \<le> port" "port \<le> 65535" and
    r: "if (port = 80 \<or> port = 443) \<and> active_intercept_host c ?h
        then t = \<lparr>tg_host = mapped_intercept_target c ?h, tg_port = port\<rparr>
        else first_declared ?h port (cf_modules c) = Some t"
    by (auto split: if_splits)
  have v: "validate_config L c = None" using assms(1) by (simp add: loaded_def)
  have ok: "module_ok L m" if "m \<in> set (cf_modules c)" for m using validate_config_modules(3) [OF v] that by blast
  show ?thesis
  proof (cases "(port = 80 \<or> port = 443) \<and> active_intercept_host c ?h")
    case True
    then have t: "tg_host t = mapped_intercept_target c ?h" "tg_port t = port" using r by simp_all
    have valid: "valid_host_target (hp_target x)"
      if "best_mapping (canonical_host ?h) (candidate_mappings c (canonical_host ?h)) x" for x
    proof -
      from that obtain m where m: "m \<in> set (cf_modules c)" "x \<in> set (em_host_mappings m)"
        by (auto simp: candidate_mappings_def best_mapping_def)
      then show ?thesis using module_ok_head(9) [OF ok] by (auto simp: validate_host_mappings_def)
    qed
    have "candidate_mappings c (canonical_host ?h) = [] \<and> tg_host t = canonical_host ?h \<or>
       (\<exists>x. best_mapping (canonical_host ?h) (candidate_mappings c (canonical_host ?h)) x \<and>
          tg_host t = hp_target x \<and> valid_host_target (hp_target x))"
      using mapped_target_longest [of c ?h] t(1) valid by auto
    then show ?thesis using True t(2) on p port by (simp add: Let_def)
  next
    case False
    then obtain m where m: "m \<in> set (cf_modules c)" "em_enabled m" "declared_target ?h port (em_network_origins m) = Some t"
      using r first_declared_Some by (metis (no_types, lifting))
    from declared_target_Some [OF m(3)] obtain origin u where
      o: "origin \<in> set (em_network_origins m)" "parse_module_network_request_url origin = Some (u, origin, t)"
        "t = \<lparr>tg_host = ?h, tg_port = port\<rparr>" by blast
    have "check_network_origins [] (em_network_origins m) = None"
      using module_ok_head(1) [OF ok [OF m(1)]] by (simp add: validate_module_network_permissions_def)
    then have c: "canonical_module_network_origin origin = Some origin" by (rule check_network_origins_canonical [OF _ o(1)])
    from o(2) obtain ou where ou: "url_parse origin = Some ou" "tg_host t = canonical_host (url_hostname ou)"
      by (auto simp: parse_module_network_request_url_def Let_def split: if_splits option.splits)
    have "valid_host_target (tg_host t)" using canonical_origin_host(1) [OF c ou(1)] ou(2) by simp
    moreover have "tg_port t = port" "tg_host t = ?h" using o(3) by simp_all
    ultimately show ?thesis using False on p port o(1,2) m(1,2) by (auto simp: list_ex_iff Let_def)
  qed
qed

section \<open>Rewriting a request's URL\<close>

text \<open>An action cannot send a request out of its extension's boundary: an authorised rewrite keeps the
  origin of the request where the extension owns the host or declares the origin, or moves to an
  origin the extension declares, spelled canonically; a cross-origin rewrite never goes from https to http.
\<close>

theorem rewrite_within_boundary:
  assumes "authorize_request_url_rewrite c m current_url raw_target = Inr u"
  shows "\<exists>cu co ct tu t_origin tt. parse_module_network_request_url current_url = Some (cu, co, ct) \<and>
    parse_module_network_request_url raw_target = Some (tu, t_origin, tt) \<and>
    (t_origin = co \<and> (boundary_owns_host c m (url_hostname tu) \<or> t_origin \<in> set (em_network_origins m)) \<and>
        url_parse raw_target = Some u \<or>
     t_origin \<noteq> co \<and> t_origin \<in> set (em_network_origins m) \<and> u = tu \<and>
        \<not> (u_scheme cu = ''https'' \<and> u_scheme tu \<noteq> ''https''))"
  using assms unfolding authorize_request_url_rewrite_def module_declares_network_origin_def
  by (auto split: option.splits if_splits prod.splits)

section \<open>Examples\<close>

definition ex_config :: icp_config where
  "ex_config = config_document.extend ex_document (icp_config.fields None)"

lemma ex_config_loaded: "loaded ex_icp_lib ex_config"
proof -
  have "validate_config ex_icp_lib ex_config = None" "cf_runtime ex_config = None" by code_simp+
  then show ?thesis by (simp add: loaded_def)
qed

definition ex_message :: script_message where
  "ex_message = \<lparr>mg_url = ''https://a.cdn.example.com/v1/items'', mg_method = ''GET'', mg_headers = [], mg_trailers = [],
     mg_body = [], mg_status = 0\<rparr>"

lemma matching_rules_spec_witness:
  "matching_script_rules ex_icp_lib ex_config ''request'' ex_message = [(ex_module, ex_script)]"
proof -
  have "(case url_parse (mg_url ex_message) of
     None \<Rightarrow> []
   | Some u \<Rightarrow> concat (map (\<lambda>m. map (Pair m) (filter (action_applies ex_icp_lib ''request'' ex_message u) (em_scripts m)))
       (filter (\<lambda>m. module_owns_host m (canonical_host (url_hostname u))) (ordered_enabled ex_config)))) =
     [(ex_module, ex_script)]" by code_simp
  then show ?thesis using matching_rules_spec [OF ex_config_loaded, of "''request''" ex_message] by simp
qed

text \<open>An intercepted host with a mapping goes to the mapping's target.\<close>

definition ex_mapping :: host_mapping where
  "ex_mapping = hd (candidate_mappings ex_config ''a.cdn.example.com'')"

lemma upstream_target_allowed_witness:
  "best_mapping ''a.cdn.example.com'' (candidate_mappings ex_config ''a.cdn.example.com'') ex_mapping \<and>
   hp_target ex_mapping = ''origin.example.net'' \<and> valid_host_target ''origin.example.net''"
proof -
  have a: "active_module_upstream_target ex_config ''a.cdn.example.com'' ''443'' =
    Some \<lparr>tg_host = ''origin.example.net'', tg_port = 443\<rparr>" by code_simp
  have h: "canonical_host ''a.cdn.example.com'' = ''a.cdn.example.com''"
    "active_intercept_host ex_config ''a.cdn.example.com''"
    "length (candidate_mappings ex_config ''a.cdn.example.com'') = 1" by code_simp+
  from h(3) have c: "candidate_mappings ex_config ''a.cdn.example.com'' = [ex_mapping]"
    by (cases "candidate_mappings ex_config ''a.cdn.example.com''") (auto simp: ex_mapping_def)
  from upstream_target_allowed [OF ex_config_loaded a] h
  obtain x where "best_mapping ''a.cdn.example.com'' (candidate_mappings ex_config ''a.cdn.example.com'') x"
      "hp_target x = ''origin.example.net''" "valid_host_target (hp_target x)"
    using c by (auto simp: Let_def)
  moreover from this(1) have "x = ex_mapping" unfolding c by (simp add: best_mapping_def)
  ultimately show ?thesis by simp
qed

lemma rewrite_within_boundary_witness:
  "\<exists>cu co ct tu t_origin tt. parse_module_network_request_url ''https://a.example.com/x'' = Some (cu, co, ct) \<and>
    parse_module_network_request_url ''https://api.example.net/y?z'' = Some (tu, t_origin, tt) \<and>
    t_origin \<in> set (em_network_origins ex_module)"
proof -
  have i: "isl (authorize_request_url_rewrite ex_config ex_module ''https://a.example.com/x'' ''https://api.example.net/y?z'') = False"
    by code_simp
  then obtain u where u: "authorize_request_url_rewrite ex_config ex_module ''https://a.example.com/x'' ''https://api.example.net/y?z'' = Inr u"
    by (cases "authorize_request_url_rewrite ex_config ex_module ''https://a.example.com/x'' ''https://api.example.net/y?z''") auto
  have o: "\<not> boundary_owns_host ex_config ex_module ''api.example.net''" by code_simp
  have h: "map_option (\<lambda>(u, _). url_hostname u) (parse_module_network_request_url ''https://api.example.net/y?z'') = Some ''api.example.net''"
    by code_simp
  from rewrite_within_boundary [OF u] show ?thesis using o h by fastforce
qed

text \<open>
  A capture host may be written in any case: the document is accepted, its certificate and its
  interception cover the name, but no extension owns it, so none of the actions ever runs.
\<close>

definition ex_mixed_case :: icp_config where
  "ex_mixed_case = ex_config\<lparr>cf_modules := [ex_module\<lparr>em_capture_hosts := [''*.Example.com''],
     em_host_mappings := [], em_scripts := [ex_script\<lparr>sc_match := (sc_match ex_script)\<lparr>am_hosts := [''*.Example.com'']\<rparr>\<rparr>]\<rparr>]\<rparr>"

theorem mixed_case_capture_is_inert:
  "validate_config ex_icp_lib ex_mixed_case = None \<and> certificate_host_patterns ex_mixed_case = [''*.example.com''] \<and>
   active_intercept_host ex_mixed_case ''a.cdn.example.com'' \<and>
   matching_script_rules ex_icp_lib ex_mixed_case ''request'' ex_message = []"
  by code_simp

end
