(* ===== verification/Icp_Socks.thy ===== *)
theory Icp_Socks
  imports Icp_Rules
begin

text \<open>
  \<open>socks.go\<close> and \<open>handleSOCKSConnection\<close> of \<open>proxy.go\<close>: both ends of the SOCKS5 exchange, the address
  codec and the UDP encapsulation. A party is a tree of reads and writes, as the code performs them on
  its connection: a read asks for a number of bytes and gets them or an error, a write reports whether
  it succeeded. Deadlines and contexts only turn a pending call into an error.
\<close>

section \<open>Parties\<close>

datatype 'r party = Recv nat "u8 list option \<Rightarrow> 'r party" | Send "u8 list" "bool \<Rightarrow> 'r party" | Stop 'r

text \<open>\<open>io.ReadFull\<close> with an early return on error.\<close>

abbreviation recv :: "nat \<Rightarrow> 'r party \<Rightarrow> (u8 list \<Rightarrow> 'r party) \<Rightarrow> 'r party" where
  "recv n failed k \<equiv> Recv n (\<lambda>b. case b of None \<Rightarrow> failed | Some bs \<Rightarrow> k bs)"

abbreviation send :: "u8 list \<Rightarrow> 'r party \<Rightarrow> 'r party \<Rightarrow> 'r party" where
  "send bs failed k \<equiv> Send bs (\<lambda>ok. if ok then k else failed)"

definition bytes :: "string \<Rightarrow> u8 list" where
  "bytes s = map of_char s"

definition text_of :: "u8 list \<Rightarrow> string" where
  "text_of bs = map (\<lambda>b. char_of (unat b)) bs"

section \<open>Addresses\<close>

definition be_uint16 :: "u8 list \<Rightarrow> int" where
  "be_uint16 b = uint (b ! 0) * 256 + uint (b ! 1)"

definition put_uint16 :: "int \<Rightarrow> u8 list" where
  "put_uint16 v = [word_of_int (v div 256), word_of_int v]"

definition read_port :: "string \<Rightarrow> (failure \<Rightarrow> 'r party) \<Rightarrow> (socks_target \<Rightarrow> 'r party) \<Rightarrow> 'r party" where
  "read_port host err k = recv 2 (err ''read'') (\<lambda>p. k \<lparr>tg_host = host, tg_port = be_uint16 p\<rparr>)"

definition read_socks_address :: "(failure \<Rightarrow> 'r party) \<Rightarrow> (socks_target \<Rightarrow> 'r party) \<Rightarrow> 'r party" where
  "read_socks_address err k = recv 1 (err ''read'') (\<lambda>atyp.
     if atyp ! 0 = 1 then recv 4 (err ''read'') (\<lambda>v. read_port (ip_string v) err k)
     else if atyp ! 0 = 4 then recv 16 (err ''read'') (\<lambda>v. read_port (ip_string v) err k)
     else if atyp ! 0 = 3 then recv 1 (err ''read'') (\<lambda>len.
       if len ! 0 = 0 then err ''empty SOCKS domain''
       else recv (unat (len ! 0)) (err ''read'') (\<lambda>v. read_port (text_of v) err k))
     else err ''unsupported SOCKS address type'')"

definition encode_socks_address :: "socks_target \<Rightarrow> failure + u8 list" where
  "encode_socks_address t =
     (if tg_port t < 0 \<or> tg_port t > 65535 then Inl ''SOCKS target port is out of range''
      else case parse_ip (tg_host t) of
        Some a \<Rightarrow> (case to4 a of
           Some b \<Rightarrow> Inr (1 # b @ put_uint16 (tg_port t))
         | None \<Rightarrow> Inr (4 # a @ put_uint16 (tg_port t)))
      | None \<Rightarrow>
         if length (tg_host t) = 0 \<or> length (tg_host t) > 255 then Inl ''SOCKS target domain length is invalid''
         else Inr (3 # word_of_nat (length (tg_host t)) # bytes (tg_host t) @ put_uint16 (tg_port t)))"

section \<open>The server\<close>

definition authenticate_socks_server ::
    "string \<Rightarrow> string \<Rightarrow> (failure \<Rightarrow> 'r party) \<Rightarrow> 'r party \<Rightarrow> 'r party" where
  "authenticate_socks_server username password err k = recv 2 (err ''read'') (\<lambda>header.
     if header ! 0 \<noteq> 5 \<or> header ! 1 = 0 then err ''invalid SOCKS greeting''
     else recv (unat (header ! 1)) (err ''read'') (\<lambda>methods.
       if 2 \<notin> set methods then Send [5, 255] (\<lambda>_. err ''no username/password authentication offered'')
       else send [5, 2] (err ''write'')
        (recv 2 (err ''read'') (\<lambda>auth.
          if auth ! 0 \<noteq> 1 \<or> auth ! 1 = 0 then err ''invalid SOCKS authentication header''
          else recv (unat (auth ! 1)) (err ''read'') (\<lambda>user. recv 1 (err ''read'') (\<lambda>plen.
            if plen ! 0 = 0 then err ''empty SOCKS password''
            else recv (unat (plen ! 0)) (err ''read'') (\<lambda>pass.
              let status = (if user = bytes username \<and> pass = bytes password then 0 else 1) in
              send [1, status] (err ''write'')
                (if status \<noteq> 0 then err ''invalid SOCKS credentials'' else k))))))))"

definition read_socks_request ::
    "string \<Rightarrow> string \<Rightarrow> (failure \<Rightarrow> 'r party) \<Rightarrow> (u8 \<Rightarrow> socks_target \<Rightarrow> 'r party) \<Rightarrow> 'r party" where
  "read_socks_request username password err k = authenticate_socks_server username password err
     (recv 3 (err ''read'') (\<lambda>header.
        if header ! 0 \<noteq> 5 \<or> header ! 2 \<noteq> 0 then err ''invalid SOCKS request header''
        else read_socks_address err (k (header ! 1))))"

text \<open>\<open>writeSOCKSReply\<close>; the address is \<open>host:port\<close> text or nil.\<close>

definition reply_bytes :: "u8 \<Rightarrow> string option \<Rightarrow> failure + u8 list" where
  "reply_bytes status address =
     (let target = (case address of
          None \<Rightarrow> Inr \<lparr>tg_host = ''0.0.0.0'', tg_port = 0\<rparr>
        | Some a \<Rightarrow> (case split_host_port a of
             None \<Rightarrow> Inl ''address''
           | Some (host, port) \<Rightarrow> (case go_atoi port of
                None \<Rightarrow> Inl ''port'' | Some n \<Rightarrow> Inr \<lparr>tg_host = host, tg_port = n\<rparr>)))
      in case target of
           Inl e \<Rightarrow> Inl e
         | Inr t \<Rightarrow> map_sum id (\<lambda>payload. [5, status, 0] @ payload) (encode_socks_address t))"

definition write_socks_reply :: "u8 \<Rightarrow> string option \<Rightarrow> (failure option \<Rightarrow> 'r party) \<Rightarrow> 'r party" where
  "write_socks_reply status address k = (case reply_bytes status address of
     Inl e \<Rightarrow> k (Some e)
   | Inr bs \<Rightarrow> Send bs (\<lambda>ok. k (if ok then None else Some ''write'')))"

text \<open>
  \<open>handleSOCKSConnection\<close> up to the hand-over to the HTTP servers. The connection's local address and
  the outcome of opening the UDP socket (its address) are arguments.
\<close>

datatype session = PlainHttp socks_target | TlsHttp socks_target | UdpHttp3 string | UdpDiscard string | Refused failure

definition serve_udp_association ::
    "string \<Rightarrow> string \<Rightarrow> string option \<Rightarrow> icp_config option \<Rightarrow> session party" where
  "serve_udp_association local_addr remote_addr udp current =
     (if split_host_port local_addr = None then Stop (Refused ''local address'')
      else case udp of
        None \<Rightarrow> write_socks_reply 1 None (\<lambda>_. Stop (Refused ''listen''))
      | Some addr \<Rightarrow>
          if split_host_port remote_addr = None then Stop (Refused ''remote address'')
          else write_socks_reply 0 (Some addr) (\<lambda>e. case e of
            Some err \<Rightarrow> Stop (Refused err)
          | None \<Rightarrow> (case current of
               None \<Rightarrow> Stop (Refused ''configuration'')
             | Some c \<Rightarrow> Stop (if mt_quic_fallback (cf_mitm c) then UdpDiscard addr else UdpHttp3 addr))))"

definition handle_socks_connection ::
    "icp_config \<Rightarrow> string \<Rightarrow> string \<Rightarrow> string option \<Rightarrow> icp_config option \<Rightarrow> session party" where
  "handle_socks_connection c local_addr remote_addr udp current =
     read_socks_request (cf_username c) (cf_password c) (\<lambda>e. Stop (Refused e)) (\<lambda>command target.
       if command = 1 then
         (if \<not> allowed_inbound_socks_target c target then
            write_socks_reply 2 None (\<lambda>_. Stop (Refused ''CONNECT target is outside the active extension allowlist''))
          else write_socks_reply 0 (Some local_addr) (\<lambda>e. case e of
             Some err \<Rightarrow> Stop (Refused err)
           | None \<Rightarrow> Stop (if tg_port target = 80 then PlainHttp target else TlsHttp target)))
       else if command = 3 then serve_udp_association local_addr remote_addr udp current
       else write_socks_reply 7 None (\<lambda>_. Stop (Refused ''unsupported SOCKS command'')))"

section \<open>The client\<close>

definition authenticate_socks_client :: "string \<Rightarrow> string \<Rightarrow> (failure \<Rightarrow> 'r party) \<Rightarrow> 'r party \<Rightarrow> 'r party" where
  "authenticate_socks_client username password err k =
     (if length username = 0 \<or> length username > 255 \<or> length password = 0 \<or> length password > 255
      then err ''SOCKS credentials have invalid length''
      else send [5, 1, 2] (err ''write'')
       (recv 2 (err ''read'') (\<lambda>response.
         if response \<noteq> [5, 2] then err ''upstream SOCKS proxy rejected username/password authentication''
         else send ([1, word_of_nat (length username)] @ bytes username @ [word_of_nat (length password)] @ bytes password)
           (err ''write'')
           (recv 2 (err ''read'') (\<lambda>response.
             if response ! 0 \<noteq> 1 \<or> response ! 1 \<noteq> 0 then err ''upstream SOCKS authentication failed'' else k)))))"

definition read_socks_client_reply :: "(failure \<Rightarrow> 'r party) \<Rightarrow> (socks_target \<Rightarrow> 'r party) \<Rightarrow> 'r party" where
  "read_socks_client_reply err k = recv 3 (err ''read'') (\<lambda>header.
     if header ! 0 \<noteq> 5 \<or> header ! 2 \<noteq> 0 then err ''invalid upstream SOCKS reply''
     else read_socks_address err (\<lambda>address.
       if header ! 1 \<noteq> 0 then err ''upstream SOCKS request failed'' else k address))"

text \<open>\<open>dialSOCKS5TCP\<close> once connected: \<open>None\<close> is the open connection, an error closes it.\<close>

definition dial_socks5_tcp :: "proxy_config \<Rightarrow> socks_target \<Rightarrow> failure option party" where
  "dial_socks5_tcp proxy target =
     (let err = (\<lambda>e. Stop (Some e)) in
      authenticate_socks_client (px_username proxy) (px_password proxy) err
       (case encode_socks_address target of
          Inl e \<Rightarrow> err e
        | Inr address \<Rightarrow> send ([5, 1, 0] @ address) (err ''write'')
            (read_socks_client_reply err (\<lambda>_. Stop None))))"

text \<open>\<open>dialSOCKS5UDP\<close> up to the relay's address, and the address a datagram is then sent to.\<close>

definition dial_socks5_udp :: "proxy_config \<Rightarrow> (failure + socks_target) party" where
  "dial_socks5_udp proxy =
     (let err = (\<lambda>e. Stop (Inl e)) in
      authenticate_socks_client (px_username proxy) (px_password proxy) err
       (case encode_socks_address \<lparr>tg_host = ''0.0.0.0'', tg_port = 0\<rparr> of
          Inl e \<Rightarrow> err e
        | Inr request \<Rightarrow> send ([5, 3, 0] @ request) (err ''write'')
            (read_socks_client_reply err (\<lambda>relay. Stop (Inr relay)))))"

definition resolve_socks_relay :: "(string \<Rightarrow> ip list option) \<Rightarrow> string \<Rightarrow> socks_target \<Rightarrow> failure + ip \<times> int" where
  "resolve_socks_relay lookup4 proxy_address relay =
     (let host = (case parse_ip (tg_host relay) of
            Some a \<Rightarrow> if ip_unspecified a then map_option fst (split_host_port proxy_address) else Some (tg_host relay)
          | None \<Rightarrow> Some (tg_host relay))
      in case host of
        None \<Rightarrow> Inl ''proxy address''
      | Some h \<Rightarrow>
         (case (case parse_ip h of
                  Some a \<Rightarrow> Inr a
                | None \<Rightarrow> (case lookup4 h of
                     None \<Rightarrow> Inl ''lookup''
                   | Some [] \<Rightarrow> Inl ''upstream SOCKS UDP relay has no IPv4 address''
                   | Some (a # _) \<Rightarrow> Inr a)) of
            Inl e \<Rightarrow> Inl e
          | Inr a \<Rightarrow> (case to4 a of
               None \<Rightarrow> Inl ''upstream SOCKS UDP relay is not IPv4'' | Some b \<Rightarrow> Inr (b, tg_port relay))))"

section \<open>Datagrams\<close>

text \<open>A party that reads from a byte string, as \<open>bytes.Reader\<close> serves it: its result and what is left.\<close>

primrec read_from :: "'r party \<Rightarrow> u8 list \<Rightarrow> 'r \<times> u8 list" where
  "read_from (Recv n k) = (\<lambda>inp. if length inp < n then read_from (k None) [] else read_from (k (Some (take n inp))) (drop n inp))"
| "read_from (Send bs k) = (\<lambda>inp. read_from (k True) inp)"
| "read_from (Stop r) = (\<lambda>inp. (r, inp))"

definition encode_socks_udp_datagram :: "socks_target \<Rightarrow> u8 list \<Rightarrow> failure + u8 list" where
  "encode_socks_udp_datagram target payload =
     map_sum id (\<lambda>address. [0, 0, 0] @ address @ payload) (encode_socks_address target)"

definition parse_socks_udp_datagram :: "u8 list \<Rightarrow> failure + u8 list \<times> socks_target" where
  "parse_socks_udp_datagram packet =
     (if length packet < 4 \<or> packet ! 0 \<noteq> 0 \<or> packet ! 1 \<noteq> 0 \<or> packet ! 2 \<noteq> 0
      then Inl ''invalid or fragmented SOCKS UDP packet''
      else case read_from (read_socks_address (\<lambda>e. Stop (Inl e)) (\<lambda>t. Stop (Inr t))) (drop 3 packet) of
        (Inl e, _) \<Rightarrow> Inl e
      | (Inr t, rest) \<Rightarrow> Inr (rest, t))"

section \<open>Both ends together\<close>

text \<open>
  A connection between a server and a client: the two parties, the bytes on their way to the server and
  the bytes on their way to the client. Writes succeed; a read that the peer can no longer satisfy,
  because it has stopped, fails.
\<close>

type_synonym ('a, 'b) duplex = "'a party \<times> 'b party \<times> u8 list \<times> u8 list"

inductive duplex_step :: "('a, 'b) duplex \<Rightarrow> ('a, 'b) duplex \<Rightarrow> bool" where
  ds_server_recv: "n \<le> length i \<Longrightarrow> duplex_step (Recv n k, c, i, j) (k (Some (take n i)), c, drop n i, j)"
| ds_server_eof: "length i < n \<Longrightarrow> duplex_step (Recv n k, Stop r, i, j) (k None, Stop r, [], j)"
| ds_server_send: "duplex_step (Send bs k, c, i, j) (k True, c, i, j @ bs)"
| ds_client_recv: "n \<le> length j \<Longrightarrow> duplex_step (s, Recv n k, i, j) (s, k (Some (take n j)), i, drop n j)"
| ds_client_eof: "length j < n \<Longrightarrow> duplex_step (Stop r, Recv n k, i, j) (Stop r, k None, i, [])"
| ds_client_send: "duplex_step (s, Send bs k, i, j) (s, k True, i @ bs, j)"

inductive_cases duplex_stepE [consumes 1, case_names 1 2 3 4 5 6]: "duplex_step (s, c, i, j) y"

inductive_simps duplex_step_stopped [simp]: "duplex_step (Stop r, Stop q, i, j) y"

abbreviation duplex_run :: "('a, 'b) duplex \<Rightarrow> ('a, 'b) duplex \<Rightarrow> bool" where
  "duplex_run \<equiv> duplex_step\<^sup>*\<^sup>*"

text \<open>Two different next steps belong to different parties and commute.\<close>

lemma duplex_diamond:
  assumes "duplex_step x y" "duplex_step x z"
  shows "y = z \<or> (\<exists>w. duplex_step y w \<and> duplex_step z w)"
proof -
  obtain s c i j where x: "x = (s, c, i, j)" by (cases x)
  show ?thesis
    using assms(2) unfolding x
  proof (cases rule: duplex_stepE)
    case (1 n k)
    note zc = this
    show ?thesis using assms(1) unfolding x
    proof (cases rule: duplex_stepE)
      case (4 n' k')
      then have "duplex_step y (k (Some (take n i)), k' (Some (take n' j)), drop n i, drop n' j)"
        "duplex_step z (k (Some (take n i)), k' (Some (take n' j)), drop n i, drop n' j)"
        using zc by (auto intro: duplex_step.intros)
      then show ?thesis by blast
    next
      case (6 bs k')
      have "duplex_step (s, k' True, i @ bs, j) (k (Some (take n (i @ bs))), k' True, drop n (i @ bs), j)"
        unfolding zc(1) using zc by (intro duplex_step.intros) simp
      moreover have "duplex_step z (k (Some (take n i)), k' True, drop n i @ bs, j)"
        using 6 zc by (auto intro: duplex_step.intros)
      ultimately show ?thesis using 6 zc by auto
    qed (use zc in auto)
  next
    case (3 bs k)
    note zc = this
    show ?thesis using assms(1) unfolding x
    proof (cases rule: duplex_stepE)
      case (4 n' k')
      have "duplex_step (k True, c, i, j @ bs) (k True, k' (Some (take n' (j @ bs))), i, drop n' (j @ bs))"
        unfolding 4(1) using 4 by (intro duplex_step.intros) simp
      moreover have "duplex_step y (k True, k' (Some (take n' j)), i, drop n' j @ bs)"
        using 4 zc by (auto intro: duplex_step.intros)
      ultimately show ?thesis using 4 zc by auto
    next
      case (6 bs' k')
      then have "duplex_step y (k True, k' True, i @ bs', j @ bs)" "duplex_step z (k True, k' True, i @ bs', j @ bs)"
        using zc by (auto intro: duplex_step.intros)
      then show ?thesis by blast
    qed (use zc in auto)
  next
    case (4 n k)
    note zc = this
    show ?thesis using assms(1) unfolding x
    proof (cases rule: duplex_stepE)
      case (1 n' k')
      then have "duplex_step y (k' (Some (take n' i)), k (Some (take n j)), drop n' i, drop n j)"
        "duplex_step z (k' (Some (take n' i)), k (Some (take n j)), drop n' i, drop n j)"
        using zc by (auto intro: duplex_step.intros)
      then show ?thesis by blast
    next
      case (3 bs k')
      have "duplex_step (k' True, c, i, j @ bs) (k' True, k (Some (take n (j @ bs))), i, drop n (j @ bs))"
        unfolding zc(1) using zc by (intro duplex_step.intros) simp
      moreover have "duplex_step z (k' True, k (Some (take n j)), i, drop n j @ bs)"
        using 3 zc by (auto intro: duplex_step.intros)
      ultimately show ?thesis using 3 zc by auto
    qed (use zc in auto)
  next
    case (6 bs k)
    note zc = this
    show ?thesis using assms(1) unfolding x
    proof (cases rule: duplex_stepE)
      case (1 n' k')
      have "duplex_step (s, k True, i @ bs, j) (k' (Some (take n' (i @ bs))), k True, drop n' (i @ bs), j)"
        unfolding 1(1) using 1 by (intro duplex_step.intros) simp
      moreover have "duplex_step y (k' (Some (take n' i)), k True, drop n' i @ bs, j)"
        using 1 zc by (auto intro: duplex_step.intros)
      ultimately show ?thesis using 1 zc by auto
    next
      case (3 bs' k')
      then have "duplex_step y (k' True, k True, i @ bs, j @ bs')" "duplex_step z (k' True, k True, i @ bs, j @ bs')"
        using zc by (auto intro: duplex_step.intros)
      then show ?thesis by blast
    qed (use zc in auto)
  qed (use assms(1) x in \<open>auto elim!: duplex_stepE\<close>)
qed

text \<open>Hence a run that comes to rest is met by every other run.\<close>

lemma duplex_rest_step:
  assumes "duplex_run x e" "\<nexists>y. duplex_step e y" "duplex_step x y"
  shows "duplex_run y e"
  using assms
proof (induction arbitrary: y rule: converse_rtranclp_induct)
  case (step x x1)
  from duplex_diamond [OF step.prems(2) step.hyps(1)] show ?case
  proof
    assume "\<exists>w. duplex_step y w \<and> duplex_step x1 w"
    then obtain w where w: "duplex_step y w" "duplex_step x1 w" by blast
    have "duplex_run w e" by (rule step.IH [OF step.prems(1) w(2)])
    show ?thesis by (rule converse_rtranclp_into_rtranclp [of duplex_step, OF w(1)]) fact
  qed (use step.hyps(2) in simp)
qed blast

lemma duplex_outcome:
  assumes "duplex_run x e" "\<nexists>y. duplex_step e y" "duplex_run x y"
  shows "duplex_run y e"
  using assms(3)
proof (induction rule: rtranclp_induct)
  case (step y z)
  then show ?case using duplex_rest_step assms(2) by blast
qed (rule assms(1))

lemmas duplex_into = converse_rtranclp_into_rtranclp [of duplex_step]

lemma run_client_send: "duplex_run (s, k True, i @ bs, j) e \<Longrightarrow> duplex_run (s, Send bs k, i, j) e"
  by (rule duplex_into [OF ds_client_send])

lemma run_server_send: "duplex_run (k True, c, i, j @ bs) e \<Longrightarrow> duplex_run (Send bs k, c, i, j) e"
  by (rule duplex_into [OF ds_server_send])

lemma run_server_recv:
  "n \<le> length i \<Longrightarrow> duplex_run (k (Some (take n i)), c, drop n i, j) e \<Longrightarrow> duplex_run (Recv n k, c, i, j) e"
  by (rule duplex_into [OF ds_server_recv])

lemma run_client_recv:
  "n \<le> length j \<Longrightarrow> duplex_run (s, k (Some (take n j)), i, drop n j) e \<Longrightarrow> duplex_run (s, Recv n k, i, j) e"
  by (rule duplex_into [OF ds_client_recv])

lemma run_server_eof: "length i < n \<Longrightarrow> duplex_run (k None, Stop r, [], j) e \<Longrightarrow> duplex_run (Recv n k, Stop r, i, j) e"
  by (rule duplex_into [OF ds_server_eof])

lemma run_client_eof: "length j < n \<Longrightarrow> duplex_run (Stop r, k None, i, []) e \<Longrightarrow> duplex_run (Stop r, Recv n k, i, j) e"
  by (rule duplex_into [OF ds_client_eof])

lemma length_bytes [simp]: "length (bytes s) = length s"
  by (simp add: bytes_def)

lemma of_char_u8: "unat (of_char c :: u8) = of_char c"
proof -
  have "(of_char c :: u8) = of_nat (of_char c)" by (simp add: of_nat_of_char)
  then show ?thesis using of_char_of [of "of_char c"] by (simp add: unat_of_nat) 
qed

lemma text_of_bytes [simp]: "text_of (bytes s) = s"
  by (induction s) (simp_all add: text_of_def bytes_def of_char_u8)

lemma bytes_inject [simp]: "bytes a = bytes b \<longleftrightarrow> a = b"
  by (metis text_of_bytes)

definition credential :: "string \<Rightarrow> bool" where
  "credential s \<longleftrightarrow> 0 < length s \<and> length s \<le> 255"

lemma length_byte: "n \<le> 255 \<Longrightarrow> unat (word_of_nat n :: u8) = n"
  by (simp add: unat_of_nat)

lemma length_byte_zero: "0 < n \<Longrightarrow> n \<le> 255 \<Longrightarrow> (word_of_nat n :: u8) \<noteq> 0"
  using length_byte by (metis unat_0 less_numeral_extra(3))

text \<open>The authentication of a client whose credentials have a length the client accepts.\<close>

lemma authentication_run:
  assumes "credential u'" "credential p'"
    and "u' = u \<and> p' = p \<Longrightarrow> duplex_run (ks, kc, [], []) e"
    and "\<not> (u' = u \<and> p' = p) \<Longrightarrow>
      duplex_run (es ''invalid SOCKS credentials'', ec ''upstream SOCKS authentication failed'', [], []) e"
  shows "duplex_run (authenticate_socks_server u p es ks, authenticate_socks_client u' p' ec kc, [], []) e"
proof -
  let ?lu = "word_of_nat (length u') :: u8" and ?lp = "word_of_nat (length p') :: u8"
  have l: "unat ?lu = length u'" "unat ?lp = length p'" "?lu \<noteq> 0" "?lp \<noteq> 0"
    using assms(1,2) by (simp_all add: credential_def length_byte length_byte_zero)
  have c: "authenticate_socks_client u' p' ec kc = send [5, 1, 2] (ec ''write'')
       (recv 2 (ec ''read'') (\<lambda>response.
         if response \<noteq> [5, 2] then ec ''upstream SOCKS proxy rejected username/password authentication''
         else send ([1, ?lu] @ bytes u' @ [?lp] @ bytes p') (ec ''write'')
           (recv 2 (ec ''read'') (\<lambda>response.
             if response ! 0 \<noteq> 1 \<or> response ! 1 \<noteq> 0 then ec ''upstream SOCKS authentication failed'' else kc))))"
    using assms(1,2) by (auto simp: authenticate_socks_client_def credential_def)
  show ?thesis
    unfolding c authenticate_socks_server_def
    apply (rule run_client_send, simp)
    apply (rule run_server_recv, simp, simp)
    apply (rule run_server_recv, simp, simp)
    apply (rule run_server_send, simp)
    apply (rule run_client_recv, simp, simp)
    apply (rule run_client_send, simp)
    apply (rule run_server_recv, simp, simp add: l)
    apply (rule run_server_recv, simp add: l, simp add: l)
    apply (rule run_server_recv, simp, simp add: l)
    apply (rule run_server_recv, simp add: l, simp add: l)
    apply (cases "u' = u"; cases "p' = p"; simp add: Let_def)
       apply (rule run_server_send, simp, rule run_client_recv, simp, simp add: assms)+
    done
qed

section \<open>Reading an address back\<close>

text \<open>A party that, given \<open>bs\<close>, has only read and goes on as another party.\<close>

inductive reads :: "'r party \<Rightarrow> u8 list \<Rightarrow> 'r party \<Rightarrow> bool" where
  reads_none: "reads p [] p"
| reads_recv: "length a = n \<Longrightarrow> reads (k (Some a)) bs q \<Longrightarrow> reads (Recv n k) (a @ bs) q"

lemma reads_server: "reads p bs q \<Longrightarrow> duplex_run (q, c, rest, j) e \<Longrightarrow> duplex_run (p, c, bs @ rest, j) e"
  by (induction rule: reads.induct) (auto intro!: run_server_recv)

lemma reads_client: "reads p bs q \<Longrightarrow> duplex_run (s, q, i, rest) e \<Longrightarrow> duplex_run (s, p, i, bs @ rest) e"
  by (induction rule: reads.induct) (auto intro!: run_client_recv)

lemma reads_from: "reads p bs q \<Longrightarrow> read_from p (bs @ rest) = read_from q rest"
  by (induction rule: reads.induct) auto

text \<open>The target a peer sees: an address is printed again, a name is the name.\<close>

definition canonical_target :: "socks_target \<Rightarrow> socks_target" where
  "canonical_target t = t\<lparr>tg_host := (case parse_ip (tg_host t) of None \<Rightarrow> tg_host t | Some a \<Rightarrow> ip_string a)\<rparr>"

lemma be_put_uint16: "0 \<le> v \<Longrightarrow> v \<le> 65535 \<Longrightarrow> be_uint16 (put_uint16 v) = v"
proof -
  assume v: "0 \<le> v" "v \<le> 65535"
  have "v div 256 mod 256 = v div 256" using v by (intro mod_pos_pos_trivial) auto
  then show ?thesis by (simp add: be_uint16_def put_uint16_def uint_word_of_int take_bit_eq_mod) 
qed

lemma length_put_uint16 [simp]: "length (put_uint16 v) = 2"
  by (simp add: put_uint16_def)

lemma reads_port:
  assumes "0 \<le> v" "v \<le> 65535"
  shows "reads (read_port h err k) (put_uint16 v) (k \<lparr>tg_host = h, tg_port = v\<rparr>)"
proof -
  have "reads (read_port h err k) (put_uint16 v @ []) (k \<lparr>tg_host = h, tg_port = v\<rparr>)"
    unfolding read_port_def using assms by (intro reads_recv) (auto simp: be_put_uint16 intro: reads_none)
  then show ?thesis by simp
qed

lemma reads_then: "length a = n \<Longrightarrow> reads (k (Some a)) bs q \<Longrightarrow> xs = a @ bs \<Longrightarrow> reads (Recv n k) xs q"
  by (simp add: reads_recv)


lemma v6_loop_length:
  "v6_loop bs ell s = Some (bs', ell', r) \<Longrightarrow> even (length bs) \<Longrightarrow> length bs \<le> 16 \<Longrightarrow> length bs' \<le> 16"
proof (induction bs ell s arbitrary: bs' ell' r rule: v6_loop.induct)
  case (1 bs ell s)
  show ?case
  proof (cases "length bs \<ge> 16")
    case True
    then show ?thesis using 1 by (auto simp: v6_loop.simps [of bs])
  next
    case False
    then have "length bs + 2 \<le> 16" using 1 by presburger
    then show ?thesis
      using 1 False
      by (fastforce simp: v6_loop.simps [of bs ell s] Let_def dest: parse_v4_length split: if_splits list.splits)
  qed
qed

lemma v6_finish_length: "v6_finish (bs, ell, r) = Some b \<Longrightarrow> length bs \<le> 16 \<Longrightarrow> length b = 16"
  by (auto simp: v6_finish_def split: if_splits option.splits)

lemma parse_v6_length: "parse_v6 s = Some b \<Longrightarrow> length b = 16"
  unfolding parse_v6_def
  by (auto split: if_splits Option.bind_splits dest!: v6_loop_length elim!: v6_finish_length)

lemma parse_ip_length: "parse_ip s = Some a \<Longrightarrow> length a = 16"
  using parse_v4_length parse_v6_length
  by (fastforce simp: parse_ip_def parse_addr_def v4_in_v6_prefix_def split: option.splits if_splits)

text \<open>What \<open>encodeSOCKSAddress\<close> writes is what \<open>readSOCKSAddress\<close> reads.\<close>

lemma reads_address:
  assumes "encode_socks_address t = Inr bs"
  shows "reads (read_socks_address err k) bs (k (canonical_target t))"
proof -
  have p: "0 \<le> tg_port t" "tg_port t \<le> 65535"
    using assms by (auto simp: encode_socks_address_def split: if_splits)
  have port: "reads (read_port h err k) (put_uint16 (tg_port t)) (k (t\<lparr>tg_host := h\<rparr>))" for h
    using reads_port [OF p] by (cases t) simp
  show ?thesis
  proof (cases "parse_ip (tg_host t)")
    case None
    then have b: "bs = [3] @ [word_of_nat (length (tg_host t))] @ bytes (tg_host t) @ put_uint16 (tg_port t)"
      and c: "credential (tg_host t)"
      using assms p by (auto simp: encode_socks_address_def credential_def split: if_splits)
    have "canonical_target t = t\<lparr>tg_host := tg_host t\<rparr>"
      by (simp add: canonical_target_def None)
    then show ?thesis
      using c port [of "tg_host t"] unfolding b read_socks_address_def credential_def
      by (auto intro!: reads_recv simp: length_byte_zero length_byte simp del: append_Cons)
  next
    case (Some a)
    then have c: "canonical_target t = t\<lparr>tg_host := ip_string a\<rparr>"
      by (simp add: canonical_target_def)
    show ?thesis
    proof (cases "to4 a")
      case None
      then have "bs = [4] @ a @ put_uint16 (tg_port t)"
        using assms Some p by (auto simp: encode_socks_address_def)
      then show ?thesis
        using port [of "ip_string a"] parse_ip_length [OF Some] unfolding c read_socks_address_def
        by (auto intro!: reads_recv simp del: append_Cons)
    next
      case v4: (Some b)
      then have "bs = [1] @ b @ put_uint16 (tg_port t)" "ip_string b = ip_string a"
        using assms Some p to4_length [OF v4] by (auto simp: encode_socks_address_def ip_string_def)
      then show ?thesis
        using port [of "ip_string a"] to4_length [OF v4] unfolding c read_socks_address_def
        by (auto intro!: reads_recv simp del: append_Cons)
    qed
  qed
qed

lemma encode_address_prefix:
  assumes "encode_socks_address t = Inr bs"
  shows "bs \<noteq> []"
  using assms by (auto simp: encode_socks_address_def split: if_splits option.splits)

lemma datagram_roundtrip:
  assumes "encode_socks_udp_datagram t payload = Inr packet"
  shows "parse_socks_udp_datagram packet = Inr (payload, canonical_target t)"
proof -
  obtain a where a: "encode_socks_address t = Inr a" and p: "packet = [0, 0, 0] @ a @ payload"
    using assms by (cases "encode_socks_address t") (auto simp: encode_socks_udp_datagram_def)
  have r: "reads (read_socks_address (\<lambda>e. Stop (Inl e)) (\<lambda>t. Stop (Inr t)) :: (failure + socks_target) party) a
      (Stop (Inr (canonical_target t)))"
    using reads_address [OF a, of "\<lambda>e. Stop (Inl e)" "\<lambda>t. Stop (Inr t)"] .
  have "4 \<le> length packet" using encode_address_prefix [OF a] p by (cases a) auto
  then show ?thesis
    using reads_from [OF r, of payload] p encode_address_prefix [OF a]
    by (simp add: parse_socks_udp_datagram_def)
qed

text \<open>C18: what \<open>encodeSOCKSUDPDatagram\<close> builds for a target and a payload, \<open>parseSOCKSUDPDatagram\<close> takes
  apart again into that payload and that target, the host of which is printed afresh when it is an
  address and unchanged when it is a name.
\<close>

theorem udp_datagram_roundtrip:
  assumes "encode_socks_udp_datagram t payload = Inr packet"
  shows "parse_socks_udp_datagram packet = Inr (payload, canonical_target t)"
  by (rule datagram_roundtrip [OF assms])

theorem udp_datagram_roundtrip_witness:
  "map (\<lambda>h. case encode_socks_udp_datagram \<lparr>tg_host = h, tg_port = 443\<rparr> [7, 8] of
       Inr p \<Rightarrow> parse_socks_udp_datagram p = Inr ([7, 8], canonical_target \<lparr>tg_host = h, tg_port = 443\<rparr>)
     | Inl e \<Rightarrow> False) [''a.example'', ''192.0.2.1'', ''2001:db8:0::1''] = [True, True, True]"
proof -
  have e: "map (\<lambda>h. encode_socks_udp_datagram \<lparr>tg_host = h, tg_port = 443\<rparr> [7, 8]) [''a.example'', ''192.0.2.1'', ''2001:db8:0::1''] =
    map Inr [[0, 0, 0, 3, 9, 97, 46, 101, 120, 97, 109, 112, 108, 101, 1, 187, 7, 8],
      [0, 0, 0, 1, 192, 0, 2, 1, 1, 187, 7, 8],
      [0, 0, 0, 4, 32, 1, 13, 184, 0, 0, 0, 0, 0, 0, 0, 0, 0, 0, 0, 1, 1, 187, 7, 8]]"
    by code_simp
  then show ?thesis
    using udp_datagram_roundtrip [of "\<lparr>tg_host = ''a.example'', tg_port = 443\<rparr>" "[7, 8]"]
      udp_datagram_roundtrip [of "\<lparr>tg_host = ''192.0.2.1'', tg_port = 443\<rparr>" "[7, 8]"]
      udp_datagram_roundtrip [of "\<lparr>tg_host = ''2001:db8:0::1'', tg_port = 443\<rparr>" "[7, 8]"]
    by simp
qed

section \<open>Who is let in\<close>

text \<open>The byte stream of a client that offers the method and sends the credentials.\<close>

definition login_stream :: "u8 list \<Rightarrow> string \<Rightarrow> string \<Rightarrow> u8 list" where
  "login_stream methods u p = [5, word_of_nat (length methods)] @ methods @
     [1, word_of_nat (length u)] @ bytes u @ [word_of_nat (length p)] @ bytes p"

abbreviation login :: "string \<Rightarrow> string \<Rightarrow> (failure + unit) party" where
  "login u p \<equiv> authenticate_socks_server u p (\<lambda>e. Stop (Inl e)) (Stop (Inr ()))"

lemma take_split: "n \<le> length xs \<Longrightarrow> \<exists>a r. length a = n \<and> xs = a @ r"
  by (metis append_take_drop_id length_take min.absorb2)

lemma length_two: "length a = 2 \<Longrightarrow> a = [a ! 0, a ! 1]"
  by (cases a; cases "tl a") auto

lemma length_one: "length a = Suc 0 \<Longrightarrow> a = [a ! 0]"
  by (cases a) auto

lemma read_from_recv:
  assumes "read_from (recv n (Stop (Inl e)) k) inp = (Inr x, rest)"
  obtains a r where "length a = n" "inp = a @ r" "read_from (k a) r = (Inr x, rest)"
proof (cases "length inp < n")
  case False
  then show ?thesis
    using assms that [of "take n inp" "drop n inp"] by (simp add: min_absorb2 not_less)
qed (use assms in simp)

lemma byte_length: "unat (b :: u8) = n \<Longrightarrow> word_of_nat n = b"
  by auto

lemma byte_bounds: "b \<noteq> 0 \<Longrightarrow> 0 < unat (b :: u8) \<and> unat b \<le> 255"
proof -
  assume "b \<noteq> 0"
  moreover have "unat b < 2 ^ LENGTH(8)" by (rule unsigned_less)
  ultimately show ?thesis by (simp add: unat_gt_0)
qed

lemma login_reads:
  assumes "read_from (login u p) inp = (Inr x, rest)"
  shows "credential u \<and> credential p \<and>
    (\<exists>methods. length methods \<le> 255 \<and> 2 \<in> set methods \<and> inp = login_stream methods u p @ rest)"
proof -
  obtain h r0 where h: "length h = 2" "inp = h @ r0" "h ! 0 = 5" "h ! 1 \<noteq> 0"
    and 0: "read_from (recv (unat (h ! 1)) (Stop (Inl ''read'')) (\<lambda>methods.
       if 2 \<notin> set methods then Send [5, 255] (\<lambda>_. Stop (Inl ''no username/password authentication offered''))
       else send [5, 2] (Stop (Inl ''write''))
        (recv 2 (Stop (Inl ''read'')) (\<lambda>auth.
          if auth ! 0 \<noteq> 1 \<or> auth ! 1 = 0 then Stop (Inl ''invalid SOCKS authentication header'')
          else recv (unat (auth ! 1)) (Stop (Inl ''read'')) (\<lambda>user. recv 1 (Stop (Inl ''read'')) (\<lambda>plen.
            if plen ! 0 = 0 then Stop (Inl ''empty SOCKS password'')
            else recv (unat (plen ! 0)) (Stop (Inl ''read'')) (\<lambda>pass.
              let status = (if user = bytes u \<and> pass = bytes p then 0 else 1) in
              send [1, status] (Stop (Inl ''write''))
                (if status \<noteq> 0 then Stop (Inl ''invalid SOCKS credentials'') else Stop (Inr ()))))))))) r0 = (Inr x, rest)"
    using assms unfolding authenticate_socks_server_def
    by (elim read_from_recv) (auto split: if_splits)
  obtain ms r1 where ms: "length ms = unat (h ! 1)" "r0 = ms @ r1" "2 \<in> set ms"
    and 1: "read_from (recv 2 (Stop (Inl ''read'')) (\<lambda>auth.
          if auth ! 0 \<noteq> 1 \<or> auth ! 1 = 0 then Stop (Inl ''invalid SOCKS authentication header'')
          else recv (unat (auth ! 1)) (Stop (Inl ''read'')) (\<lambda>user. recv 1 (Stop (Inl ''read'')) (\<lambda>plen.
            if plen ! 0 = 0 then Stop (Inl ''empty SOCKS password'')
            else recv (unat (plen ! 0)) (Stop (Inl ''read'')) (\<lambda>pass.
              let status = (if user = bytes u \<and> pass = bytes p then 0 else 1) in
              send [1, status] (Stop (Inl ''write''))
                (if status \<noteq> 0 then Stop (Inl ''invalid SOCKS credentials'') else Stop (Inr ()))))))) r1 = (Inr x, rest)"
    using 0 by (elim read_from_recv) (simp split: if_splits)
  obtain a r2 where a: "length a = 2" "r1 = a @ r2" "a ! 0 = 1" "a ! 1 \<noteq> 0"
    and 2: "read_from (recv (unat (a ! 1)) (Stop (Inl ''read'')) (\<lambda>user. recv 1 (Stop (Inl ''read'')) (\<lambda>plen.
            if plen ! 0 = 0 then Stop (Inl ''empty SOCKS password'')
            else recv (unat (plen ! 0)) (Stop (Inl ''read'')) (\<lambda>pass.
              let status = (if user = bytes u \<and> pass = bytes p then 0 else 1) in
              send [1, status] (Stop (Inl ''write''))
                (if status \<noteq> 0 then Stop (Inl ''invalid SOCKS credentials'') else Stop (Inr ())))))) r2 = (Inr x, rest)"
    using 1 by (elim read_from_recv) (simp split: if_splits)
  obtain us r3 pl r4 where us: "length us = unat (a ! 1)" "r2 = us @ r3" and pl: "length pl = 1" "r3 = pl @ r4" "pl ! 0 \<noteq> 0"
    and 3: "read_from (recv (unat (pl ! 0)) (Stop (Inl ''read'')) (\<lambda>pass.
              let status = (if us = bytes u \<and> pass = bytes p then 0 else 1) in
              send [1, status] (Stop (Inl ''write''))
                (if status \<noteq> 0 then Stop (Inl ''invalid SOCKS credentials'') else Stop (Inr ())))) r4 = (Inr x, rest)"
    using 2 by (elim read_from_recv) (simp split: if_splits)
  obtain ps where ps: "length ps = unat (pl ! 0)" "r4 = ps @ rest" "us = bytes u" "ps = bytes p"
    using 3 by (elim read_from_recv) (simp add: Let_def split: if_splits)
  have "credential u" "credential p"
    using us(1) ps(1) byte_bounds [OF a(4)] byte_bounds [OF pl(3)] by (simp_all add: credential_def ps)
  moreover have "h = [5, word_of_nat (length ms)]" "a = [1, word_of_nat (length u)]" "pl = [word_of_nat (length p)]"
    using length_two [OF h(1)] h(3) byte_length [OF ms(1) [symmetric]] length_two [OF a(1)] a(3)
      byte_length [OF us(1) [symmetric]] length_one [of pl] pl(1) byte_length [OF ps(1) [symmetric]]
    by (simp_all add: ps)
  moreover have "length ms \<le> 255" using byte_bounds [OF h(4)] ms(1) by simp
  ultimately show ?thesis
    using h(2) ms(2,3) a(2) us(2) pl(2) ps(2-4) unfolding login_stream_def by auto
qed

lemma login_accepts:
  assumes "credential u" "credential p" "length methods \<le> 255" "2 \<in> set methods"
  shows "read_from (login u p) (login_stream methods u p @ rest) = (Inr (), rest)"
proof -
  have "methods \<noteq> []" using assms(4) by auto
  then show ?thesis
    using assms by (simp add: authenticate_socks_server_def login_stream_def credential_def
      length_byte length_byte_zero Let_def)
qed

text \<open>C16: \<open>authenticateSOCKSServer\<close> lets a client through exactly when its byte stream begins with a greeting
  that offers the username/password method and the sub-negotiation with the configured name and
  password, each of one to 255 bytes; it has then read those bytes and no more.
\<close>

theorem socks_login_language:
  "read_from (login u p) inp = (Inr (), rest) \<longleftrightarrow>
     credential u \<and> credential p \<and>
     (\<exists>methods. length methods \<le> 255 \<and> 2 \<in> set methods \<and> inp = login_stream methods u p @ rest)"
  using login_reads login_accepts by blast

section \<open>The handshake\<close>

text \<open>Every exchange ends, whatever the two parties are.\<close>

lemma duplex_accessible: "Wellfounded.accp (\<lambda>y x. duplex_step x y) (s, c, i, j)"
proof (induction s arbitrary: c i j)
  case (Recv n k)
  note server = this
  show ?case
    by (induction c arbitrary: i j) (rule accp.accI, erule duplex_stepE, auto intro: server)+
next
  case (Send bs k)
  note server = this
  show ?case
    by (induction c arbitrary: i j) (rule accp.accI, erule duplex_stepE, auto intro: server)+
next
  case (Stop r)
  show ?case
    by (induction c arbitrary: i j) (rule accp.accI, erule duplex_stepE, auto)+
qed

lemma duplex_ends: "wfp (\<lambda>y x. duplex_step x y)"
proof (rule accp_wfpI, rule allI)
  fix x :: "('a, 'b) duplex"
  show "Wellfounded.accp (\<lambda>y x. duplex_step x y) x" by (cases x) (simp add: duplex_accessible)
qed

lemma duplex_no_infinite: "\<nexists>f. f 0 = x \<and> (\<forall>n. duplex_step (f n) (f (Suc n)))"
  using duplex_ends by (metis wf_iff_no_infinite_down_chain wfp_def mem_Collect_eq case_prodI)

lemma duplex_unique_rest:
  assumes "duplex_run x e" "\<nexists>y. duplex_step e y"
  shows "(duplex_run x z \<and> (\<nexists>y. duplex_step z y)) \<longleftrightarrow> z = e"
proof
  assume z: "duplex_run x z \<and> (\<nexists>y. duplex_step z y)"
  then have "duplex_run z e" using duplex_outcome [OF assms] by blast
  then show "z = e" using z by (metis converse_rtranclpE)
qed (use assms in simp)

lemma map_sum_Inr: "map_sum id f x = Inr y \<longleftrightarrow> (\<exists>b. x = Inr b \<and> y = f b)"
  by (cases x) auto

lemma reply_run:
  assumes "reply_bytes status address = Inr bs"
    and "status = 0 \<Longrightarrow> duplex_run (sk None, ck, [], []) e"
    and "status \<noteq> 0 \<Longrightarrow> duplex_run (sk None, err ''upstream SOCKS request failed'', [], []) e"
  shows "duplex_run (write_socks_reply status address sk, read_socks_client_reply err (\<lambda>_. ck), [], []) e"
proof -
  obtain t a where bs: "bs = [5, status, 0] @ a" and a: "encode_socks_address t = Inr a"
    using assms(1) by (auto simp: reply_bytes_def Let_def map_sum_Inr split: sum.splits)
  let ?k = "\<lambda>_. if status \<noteq> 0 then err ''upstream SOCKS request failed'' else ck"
  have r: "reads (read_socks_address err ?k) a (?k (canonical_target t))" by (rule reads_address [OF a])
  have "duplex_run (sk None, read_socks_address err ?k, [], a) e"
    using reads_client [OF r, of "sk None" "[]" "[]" e] assms(2,3) by auto
  then show ?thesis
    unfolding write_socks_reply_def read_socks_client_reply_def assms(1) bs
    by (auto intro!: run_server_send run_client_recv)
qed

text \<open>How the two ends of a CONNECT finish.\<close>

definition connect_outcome :: "icp_config \<Rightarrow> proxy_config \<Rightarrow> socks_target \<Rightarrow> session \<times> failure option" where
  "connect_outcome c proxy target =
     (if \<not> (px_username proxy = cf_username c \<and> px_password proxy = cf_password c)
      then (Refused ''invalid SOCKS credentials'', Some ''upstream SOCKS authentication failed'')
      else if \<not> allowed_inbound_socks_target c (canonical_target target)
      then (Refused ''CONNECT target is outside the active extension allowlist'', Some ''upstream SOCKS request failed'')
      else (if tg_port target = 80 then PlainHttp (canonical_target target) else TlsHttp (canonical_target target), None))"

lemma connect_run:
  assumes cred: "credential (px_username proxy)" "credential (px_password proxy)"
    and a: "encode_socks_address target = Inr a" and r: "reply_bytes 0 (Some local_addr) = Inr r"
  shows "duplex_run (handle_socks_connection c local_addr remote udp current, dial_socks5_tcp proxy target, [], [])
    (Stop (fst (connect_outcome c proxy target)), Stop (snd (connect_outcome c proxy target)), [], [])"
proof -
  let ?e = "(Stop (fst (connect_outcome c proxy target)), Stop (snd (connect_outcome c proxy target)), [], [])"
  let ?t = "canonical_target target" and ?err = "\<lambda>e. Stop (Some e) :: failure option party"
  let ?server = "\<lambda>t. if \<not> allowed_inbound_socks_target c t then
            write_socks_reply 2 None (\<lambda>_. Stop (Refused ''CONNECT target is outside the active extension allowlist''))
          else write_socks_reply 0 (Some local_addr) (\<lambda>e. case e of
             Some err \<Rightarrow> Stop (Refused err)
           | None \<Rightarrow> Stop (if tg_port t = 80 then PlainHttp t else TlsHttp t))"
  have none: "\<exists>z. reply_bytes 2 None = Inr z" by (rule exI [of _ "[5, 2, 0, 1, 0, 0, 0, 0, 0, 0]"]) code_simp
  show ?thesis
    unfolding handle_socks_connection_def dial_socks5_tcp_def Let_def read_socks_request_def
  proof (rule authentication_run [OF cred])
    assume ok: "px_username proxy = cf_username c \<and> px_password proxy = cf_password c"
    have reply: "duplex_run (?server ?t, read_socks_client_reply ?err (\<lambda>_. Stop None), [], []) ?e"
      using none r ok by (auto intro!: reply_run simp: connect_outcome_def canonical_target_def)
    show "duplex_run (recv 3 (Stop (Refused ''read'')) (\<lambda>header.
        if header ! 0 \<noteq> 5 \<or> header ! 2 \<noteq> 0 then Stop (Refused ''invalid SOCKS request header'')
        else read_socks_address (\<lambda>e. Stop (Refused e)) (\<lambda>target. if header ! 1 = 1 then ?server target
          else if header ! 1 = 3 then serve_udp_association local_addr remote udp current
          else write_socks_reply 7 None (\<lambda>_. Stop (Refused ''unsupported SOCKS command'')))),
       case encode_socks_address target of Inl e \<Rightarrow> ?err e
        | Inr address \<Rightarrow> send ([5, 1, 0] @ address) (?err ''write'')
            (read_socks_client_reply ?err (\<lambda>_. Stop None)), [], []) ?e"
      using reply reads_server [OF reads_address [OF a], of _ "read_socks_client_reply ?err (\<lambda>_. Stop None)" "[]" "[]" ?e]
      unfolding a by (auto intro!: run_client_send run_server_recv)
  qed (auto simp: connect_outcome_def)
qed

text \<open>C15: whatever order their reads and writes fall in, a \<open>handleSOCKSConnection\<close> and a \<open>dialSOCKS5TCP\<close> that
  talk to each other come to rest after finitely many of them, with nothing left unread, and always with
  the same outcome: both refuse when the credentials differ, both refuse when the target the server
  decodes is outside the extensions' allowlist, and otherwise both go on, the server with the target
  the client asked for.
\<close>

theorem socks_connect_handshake:
  assumes "credential (px_username proxy)" "credential (px_password proxy)"
    and "encode_socks_address target = Inr a" "reply_bytes 0 (Some local_addr) = Inr r"
  shows "(\<nexists>f. f 0 = (handle_socks_connection c local_addr remote udp current, dial_socks5_tcp proxy target, [], []) \<and>
        (\<forall>n. duplex_step (f n) (f (Suc n)))) \<and>
    ((duplex_run (handle_socks_connection c local_addr remote udp current, dial_socks5_tcp proxy target, [], []) z \<and>
        (\<nexists>y. duplex_step z y)) \<longleftrightarrow>
     z = (Stop (fst (connect_outcome c proxy target)), Stop (snd (connect_outcome c proxy target)), [], []))"
  by (intro conjI duplex_no_infinite duplex_unique_rest connect_run [OF assms]) simp

section \<open>Datagram connections\<close>

text \<open>
  What arrives on a UDP socket: the sender's address and port and the bytes. A read hands over at most
  as many bytes as its buffer holds, which is the caller's buffer and 512 more for the SOCKS header.
\<close>

type_synonym sender = "ip \<times> int"

abbreviation same_sender :: "sender \<Rightarrow> sender \<Rightarrow> bool" where
  "same_sender a b \<equiv> ip_equal (fst a) (fst b) \<and> snd a = snd b"

text \<open>\<open>fixedSOCKSPacketConn.ReadFrom\<close>: \<open>None\<close> while nothing acceptable has arrived.\<close>

fun fixed_read_from :: "sender \<Rightarrow> nat \<Rightarrow> (sender \<times> u8 list) list \<Rightarrow> (u8 list \<times> (sender \<times> u8 list) list) option" where
  "fixed_read_from relay n [] = None"
| "fixed_read_from relay n ((source, packet) # arriving) =
     (if \<not> same_sender source relay then fixed_read_from relay n arriving
      else case parse_socks_udp_datagram (take (n + 512) packet) of
        Inl e \<Rightarrow> fixed_read_from relay n arriving
      | Inr (payload, t) \<Rightarrow>
          if tg_port t \<noteq> 443 \<or> length payload > n then fixed_read_from relay n arriving
          else Some (payload, arriving))"

text \<open>
  \<open>fixedSOCKSPacketConn.WriteTo\<close>, with the text of the address it is given: the packet and where it goes.
\<close>

definition itoa :: "int \<Rightarrow> string" where
  "itoa n = (if n < 0 then CHR ''-'' # show_nat (nat (- n)) else show_nat (nat n))"

definition target_string :: "socks_target \<Rightarrow> string" where
  "target_string t = join_host_port (tg_host t) (itoa (tg_port t))"

definition fixed_write_to :: "sender \<Rightarrow> socks_target \<Rightarrow> u8 list \<Rightarrow> string option \<Rightarrow> failure + sender \<times> u8 list" where
  "fixed_write_to relay target buffer address =
     (if address \<noteq> Some (target_string target) then Inl ''unexpected QUIC upstream address''
      else map_sum id (\<lambda>packet. (relay, packet)) (encode_socks_udp_datagram target buffer))"

text \<open>
  \<open>socksServerPacketConn.targetAllowed\<close> and \<open>ReadFrom\<close>: with each datagram comes the configuration that is
  current when it is looked at. The first datagram from the allowed address pins the relay.
\<close>

definition target_allowed :: "icp_config option \<Rightarrow> socks_target \<Rightarrow> bool" where
  "target_allowed current t = (case current of None \<Rightarrow> False
     | Some c \<Rightarrow> tg_port t = 443 \<and> allowed_inbound_socks_target c t)"

type_synonym arrival = "sender \<times> u8 list \<times> icp_config option"

text \<open>One datagram: the relay then, and what is handed to the caller unless the loop goes on.\<close>

definition server_receive :: "ip \<Rightarrow> sender option \<Rightarrow> nat \<Rightarrow> arrival \<Rightarrow> sender option \<times> (u8 list \<times> sender \<times> socks_target) option" where
  "server_receive allowed relay n a = (case a of (source, packet, current) \<Rightarrow>
     if \<not> ip_equal (fst source) allowed then (relay, None)
     else let relay' = (case relay of None \<Rightarrow> source | Some r \<Rightarrow> r) in
       if \<not> same_sender source relay' then (Some relay', None)
       else case parse_socks_udp_datagram (take (n + 512) packet) of
         Inl e \<Rightarrow> (Some relay', None)
       | Inr (payload, t) \<Rightarrow>
           if \<not> target_allowed current t \<or> length payload > n then (Some relay', None)
           else (Some relay', Some (payload, source, t)))"

fun server_read_from :: "ip \<Rightarrow> sender option \<Rightarrow> nat \<Rightarrow> arrival list \<Rightarrow>
    sender option \<times> ((u8 list \<times> sender \<times> socks_target) \<times> arrival list) option" where
  "server_read_from allowed relay n [] = (relay, None)"
| "server_read_from allowed relay n (a # arriving) = (case server_receive allowed relay n a of
     (relay', None) \<Rightarrow> server_read_from allowed relay' n arriving
   | (relay', Some r) \<Rightarrow> (relay', Some (r, arriving)))"

text \<open>Successive reads of one association, with the sizes of their buffers.\<close>

fun server_reads :: "ip \<Rightarrow> sender option \<Rightarrow> nat list \<Rightarrow> arrival list \<Rightarrow> (u8 list \<times> sender \<times> socks_target) list" where
  "server_reads allowed relay [] arriving = []"
| "server_reads allowed relay (n # sizes) arriving = (case server_read_from allowed relay n arriving of
     (relay', None) \<Rightarrow> []
   | (relay', Some (r, rest)) \<Rightarrow> r # server_reads allowed relay' sizes rest)"

text \<open>\<open>socksServerPacketConn.WriteTo\<close> to the peer a read returned.\<close>

definition server_write_to :: "(sender \<times> socks_target) option \<Rightarrow> u8 list \<Rightarrow> failure + sender \<times> u8 list" where
  "server_write_to peer buffer = (case peer of
     None \<Rightarrow> Inl ''unexpected SOCKS UDP peer address''
   | Some (relay, t) \<Rightarrow> map_sum id (\<lambda>packet. (relay, packet)) (encode_socks_udp_datagram t buffer))"


subsection \<open>What an association hands over\<close>

text \<open>The relay an association ends up with: the one it has, or the first sender it may listen to.\<close>

definition pinned :: "ip \<Rightarrow> sender option \<Rightarrow> arrival list \<Rightarrow> sender option" where
  "pinned allowed relay arriving = (case relay of Some r \<Rightarrow> Some r
     | None \<Rightarrow> List.find (\<lambda>s. ip_equal (fst s) allowed) (map fst arriving))"

definition handed_over :: "ip \<Rightarrow> sender option \<Rightarrow> arrival list \<Rightarrow> u8 list \<times> sender \<times> socks_target \<Rightarrow> bool" where
  "handed_over allowed relay arriving r = (case r of (payload, source, t) \<Rightarrow>
     (\<exists>pin. relay = Some pin \<and> same_sender source pin) \<and> ip_equal (fst source) allowed \<and>
     (\<exists>packet c n. (source, packet, Some c) \<in> set arriving \<and> tg_port t = 443 \<and> allowed_inbound_socks_target c t \<and>
        parse_socks_udp_datagram (take n packet) = Inr (payload, t)))"

lemma server_receive_relay:
  assumes "server_receive allowed relay n a = (relay', res)"
  shows "relay' = pinned allowed relay [a]" "res = Some r \<Longrightarrow> handed_over allowed relay' [a] r"
proof -
  obtain source packet current where a: "a = (source, packet, current)" by (cases a)
  show "relay' = pinned allowed relay [a]"
    using assms unfolding a server_receive_def pinned_def
    by (cases relay) (auto simp: Let_def split: if_splits sum.splits)
  show "res = Some r \<Longrightarrow> handed_over allowed relay' [a] r"
    using assms unfolding a server_receive_def handed_over_def
    by (auto simp: Let_def target_allowed_def split: if_splits sum.splits option.splits)
qed

lemma pinned_Cons: "pinned allowed relay (a # arriving) = pinned allowed (pinned allowed relay [a]) arriving"
  by (auto simp: pinned_def split: option.splits)

lemma pinned_Some [simp]: "pinned allowed (Some r) arriving = Some r"
  by (simp add: pinned_def)

lemma handed_over_mono: "handed_over allowed relay xs r \<Longrightarrow> set xs \<subseteq> set ys \<Longrightarrow> handed_over allowed relay ys r"
  by (fastforce simp: handed_over_def)

lemma server_read_from_relay:
  "server_read_from allowed relay n arriving = (relay', Some (r, rest)) \<Longrightarrow>
   relay' = pinned allowed relay arriving \<and> handed_over allowed relay' arriving r \<and> set rest \<subseteq> set arriving"
proof (induction allowed relay n arriving rule: server_read_from.induct)
  case (2 allowed relay n a arriving)
  obtain relay1 res where one: "server_receive allowed relay n a = (relay1, res)" by fastforce
  note facts = server_receive_relay [OF one]
  show ?case
  proof (cases res)
    case None
    then have "server_read_from allowed relay1 n arriving = (relay', Some (r, rest))"
      using "2.prems" one by simp
    then have "relay' = pinned allowed relay1 arriving \<and> handed_over allowed relay' arriving r \<and> set rest \<subseteq> set arriving"
      by (rule "2.IH" [OF one [symmetric] None])
    then show ?thesis
      using facts(1) pinned_Cons [of allowed relay a arriving] handed_over_mono [of allowed relay' arriving r "a # arriving"]
      by auto
  next
    case (Some q)
    then have "relay' = relay1" "r = q" "rest = arriving" using 2 one by simp_all
    moreover have "handed_over allowed relay1 [a] q" by (rule facts(2)) fact
    moreover from this obtain pin where "relay1 = Some pin" by (auto simp: handed_over_def)
    ultimately show ?thesis
      using facts(1) pinned_Cons [of allowed relay a arriving] handed_over_mono [of allowed relay1 "[a]" q "a # arriving"]
      by auto
  qed
qed simp

lemma server_reads_relay:
  "r \<in> set (server_reads allowed relay sizes arriving) \<Longrightarrow> handed_over allowed (pinned allowed relay arriving) arriving r"
proof (induction allowed relay sizes arriving rule: server_reads.induct)
  case (2 allowed relay n sizes arriving)
  obtain relay' q rest where one: "server_read_from allowed relay n arriving = (relay', Some (q, rest))"
    using 2(2) that by (cases "server_read_from allowed relay n arriving") (auto split: option.splits)
  note facts = server_read_from_relay [OF one]
  from 2(2) consider "r = q" | "r \<in> set (server_reads allowed relay' sizes rest)" using one by auto
  then show ?case
  proof cases
    case 2
    then have h: "handed_over allowed (pinned allowed relay' rest) rest r" using "2.IH" one by simp
    obtain pin where "relay' = Some pin" using facts by (auto simp: handed_over_def split: prod.splits)
    then show ?thesis using facts h handed_over_mono by (metis pinned_Some)
  qed (use facts in blast)
qed simp

text \<open>C17: every datagram one UDP association hands to HTTP/3, over any number of reads, was sent by the one
  sender the association is pinned to, the first one from the address that opened it; it was parsed from
  an arrived packet, and its target had port 443 and was inside the allowlist of the configuration current
  at that moment.
\<close>

theorem association_pinned:
  assumes "(payload, source, t) \<in> set (server_reads allowed None sizes arriving)"
  shows "(\<exists>pin. List.find (\<lambda>s. ip_equal (fst s) allowed) (map fst arriving) = Some pin \<and> same_sender source pin) \<and>
    tg_port t = 443 \<and>
    (\<exists>packet c n. (source, packet, Some c) \<in> set arriving \<and> allowed_inbound_socks_target c t \<and>
       parse_socks_udp_datagram (take n packet) = Inr (payload, t))"
  using server_reads_relay [OF assms] by (auto simp: handed_over_def pinned_def)

lemma address_length: "encode_socks_address t = Inr a \<Longrightarrow> length a \<le> 259"
  by (auto simp: encode_socks_address_def dest: to4_length parse_ip_length split: if_splits option.splits)

text \<open>a datagram the pinned sender encapsulates for an allowed target reaches the caller unchanged whenever
  its payload fits the caller's buffer: the 512 spare bytes hold every header, so it is never truncated.
\<close>

theorem association_delivers:
  assumes "encode_socks_udp_datagram t payload = Inr packet" "length payload \<le> n"
    and "ip_equal (fst source) allowed" "relay = None \<or> relay = Some source"
    and "target_allowed current (canonical_target t)"
  shows "server_read_from allowed relay n ((source, packet, current) # arriving) =
    (Some source, Some ((payload, source, canonical_target t), arriving))"
proof -
  obtain a where "encode_socks_address t = Inr a" "packet = [0, 0, 0] @ a @ payload"
    using assms(1) by (auto simp: encode_socks_udp_datagram_def map_sum_Inr)
  then have "take (n + 512) packet = packet" using address_length [of t a] assms(2) by simp
  then show ?thesis
    using assms datagram_roundtrip [OF assms(1)] by (auto simp: server_receive_def)
qed

theorem socks_connect_handshake_witness:
  "map (\<lambda>(u, h, p). connect_outcome ex_config \<lparr>px_address = ''127.0.0.1:18080'', px_username = u, px_password = ''0123456789abcdef01234567''\<rparr>
       \<lparr>tg_host = h, tg_port = p\<rparr>)
     [(''0123456789abcdef'', ''a.cdn.example.com'', 443), (''0123456789abcdef'', ''other.test'', 443), (''guess'', ''a.cdn.example.com'', 80)] =
   [(TlsHttp \<lparr>tg_host = ''a.cdn.example.com'', tg_port = 443\<rparr>, None),
    (Refused ''CONNECT target is outside the active extension allowlist'', Some ''upstream SOCKS request failed''),
    (Refused ''invalid SOCKS credentials'', Some ''upstream SOCKS authentication failed'')] \<and>
   duplex_run (handle_socks_connection ex_config ''127.0.0.1:18080'' ''127.0.0.1:5000'' None None,
     dial_socks5_tcp \<lparr>px_address = ''127.0.0.1:18080'', px_username = ''0123456789abcdef'', px_password = ''0123456789abcdef01234567''\<rparr>
       \<lparr>tg_host = ''a.cdn.example.com'', tg_port = 443\<rparr>, [], [])
    (Stop (TlsHttp \<lparr>tg_host = ''a.cdn.example.com'', tg_port = 443\<rparr>), Stop None, [], [])"
proof -
  let ?proxy = "\<lparr>px_address = ''127.0.0.1:18080'', px_username = ''0123456789abcdef'', px_password = ''0123456789abcdef01234567''\<rparr>"
  let ?target = "\<lparr>tg_host = ''a.cdn.example.com'', tg_port = 443\<rparr>"
  have o: "connect_outcome ex_config ?proxy ?target = (TlsHttp ?target, None)" by code_simp
  have a: "encode_socks_address ?target = Inr ([3, 17] @ bytes ''a.cdn.example.com'' @ [1, 187])" by code_simp
  have r: "reply_bytes 0 (Some ''127.0.0.1:18080'') = Inr [5, 0, 0, 1, 127, 0, 0, 1, 70, 160]" by code_simp
  have c: "credential (px_username ?proxy)" "credential (px_password ?proxy)" by code_simp+
  show ?thesis
  proof
    show "duplex_run (handle_socks_connection ex_config ''127.0.0.1:18080'' ''127.0.0.1:5000'' None None,
        dial_socks5_tcp ?proxy ?target, [], []) (Stop (TlsHttp ?target), Stop None, [], [])"
      using socks_connect_handshake [OF c a r, of ex_config "''127.0.0.1:5000''" None None
        "(Stop (TlsHttp ?target), Stop None, [], [])"] unfolding o by simp
  qed code_simp
qed

theorem association_pinned_witness:
  "server_reads [127, 0, 0, 1] None [16] [(([10, 0, 0, 9], 1), [1], None), (([127, 0, 0, 1], 7), [], None),
     (([127, 0, 0, 1], 8), [0, 0, 0, 3, 13, 97, 46, 101, 120, 97, 109, 112, 108, 101, 46, 99, 111, 109, 1, 187, 9], Some ex_config),
     (([127, 0, 0, 1], 7), [0, 0, 0, 3, 13, 97, 46, 101, 120, 97, 109, 112, 108, 101, 46, 99, 111, 109, 1, 187, 9], Some ex_config)] =
     [([9], ([127, 0, 0, 1], 7), \<lparr>tg_host = ''a.example.com'', tg_port = 443\<rparr>)] \<and>
   (\<exists>pin. List.find (\<lambda>s. ip_equal (fst s) [127, 0, 0, 1]) [([10, 0, 0, 9], 1), ([127, 0, 0, 1], 7)] = Some pin \<and>
     same_sender ([127, 0, 0, 1], 7) pin)"
proof -
  let ?arriving = "[(([10, 0, 0, 9], 1), [1], None), (([127, 0, 0, 1], 7), [], None),
     (([127, 0, 0, 1], 8), [0, 0, 0, 3, 13, 97, 46, 101, 120, 97, 109, 112, 108, 101, 46, 99, 111, 109, 1, 187, 9], Some ex_config),
     (([127, 0, 0, 1], 7), [0, 0, 0, 3, 13, 97, 46, 101, 120, 97, 109, 112, 108, 101, 46, 99, 111, 109, 1, 187, 9], Some ex_config)]"
  have r: "server_reads [127, 0, 0, 1] None [16] ?arriving =
     [([9], ([127, 0, 0, 1], 7), \<lparr>tg_host = ''a.example.com'', tg_port = 443\<rparr>)]" by code_simp
  then have "([9], ([127, 0, 0, 1], 7), \<lparr>tg_host = ''a.example.com'', tg_port = 443\<rparr>) \<in> set (server_reads [127, 0, 0, 1] None [16] ?arriving)"
    by simp
  from association_pinned [OF this] r show ?thesis by (simp split: if_splits)
qed

theorem association_delivers_witness:
  "server_read_from [127, 0, 0, 1] None 1 [(([127, 0, 0, 1], 7),
      [0, 0, 0, 3, 13, 97, 46, 101, 120, 97, 109, 112, 108, 101, 46, 99, 111, 109, 1, 187, 9], Some ex_config)] =
    (Some ([127, 0, 0, 1], 7), Some (([9], ([127, 0, 0, 1], 7), canonical_target \<lparr>tg_host = ''a.example.com'', tg_port = 443\<rparr>), []))"
proof (rule association_delivers)
  show "encode_socks_udp_datagram \<lparr>tg_host = ''a.example.com'', tg_port = 443\<rparr> [9] =
    Inr [0, 0, 0, 3, 13, 97, 46, 101, 120, 97, 109, 112, 108, 101, 46, 99, 111, 109, 1, 187, 9]" by code_simp
  show "target_allowed (Some ex_config) (canonical_target \<lparr>tg_host = ''a.example.com'', tg_port = 443\<rparr>)" by code_simp
qed simp_all

end
