(* ===== verification/Icp_Headers.thy ===== *)
theory Icp_Headers
  imports Icp_Socks
begin

text \<open>
  Header fields in the sidecar: \<open>http.Header\<close> as it is used by \<open>proxy.go\<close>, the hop-by-hop and trailer rules
  of that file, and the import of headers from a script or a peer with its budget
  (\<open>exportedHeaders\<close> of \<open>module_runtime.go\<close>). A header is an association list; a Go map keeps one entry
  for a key, which \<open>header_ok\<close> states.
\<close>

type_synonym headers = "(string, string list) go_map"

section \<open>net/http headers\<close>

text \<open>The bytes of a header name; \<open>isModuleNetworkTokenByte\<close> and the table of net/textproto agree.\<close>

definition token_marks :: string where
  "token_marks = ''!#$%&*+-.^_`|~''"

definition token_byte :: "char \<Rightarrow> bool" where
  "token_byte c \<longleftrightarrow> lower_alnum c \<or> 65 \<le> char_code c \<and> char_code c \<le> 90 \<or> c \<in> set token_marks \<or> char_code c = 39"

definition valid_header_name :: "string \<Rightarrow> bool" where
  "valid_header_name name \<longleftrightarrow> name \<noteq> [] \<and> list_all token_byte name"

text \<open>\<open>http.CanonicalHeaderKey\<close>\<close>

fun canonical_from :: "bool \<Rightarrow> string \<Rightarrow> string" where
  "canonical_from upper [] = []"
| "canonical_from upper (c # s) =
     (if upper then to_upper_char c else to_lower_char c) # canonical_from (c = CHR ''-'') s"

definition canonical_header_key :: "string \<Rightarrow> string" where
  "canonical_header_key name = (if list_all token_byte name then canonical_from True name else name)"

definition header_values :: "headers \<Rightarrow> string \<Rightarrow> string list" where
  "header_values h name = (case map_of h (canonical_header_key name) of None \<Rightarrow> [] | Some vs \<Rightarrow> vs)"

definition header_get :: "headers \<Rightarrow> string \<Rightarrow> string" where
  "header_get h name = (case header_values h name of [] \<Rightarrow> [] | v # _ \<Rightarrow> v)"

definition header_del :: "string \<Rightarrow> headers \<Rightarrow> headers" where
  "header_del name h = AList.delete (canonical_header_key name) h"

definition header_set :: "string \<Rightarrow> string \<Rightarrow> headers \<Rightarrow> headers" where
  "header_set name v h = AList.update (canonical_header_key name) [v] h"

section \<open>Hop-by-hop fields\<close>

definition is_hop_by_hop_header :: "string \<Rightarrow> bool" where
  "is_hop_by_hop_header name \<longleftrightarrow> to_lower name \<in>
     {''connection'', ''proxy-connection'', ''keep-alive'', ''proxy-authenticate'', ''proxy-authorization'', ''te'',
      ''trailer'', ''transfer-encoding'', ''upgrade''}"

definition connection_tokens :: "headers \<Rightarrow> string list" where
  "connection_tokens h = concat (map (\<lambda>v. map trim_space (Go_Path.split_on (CHR '','') v)) (header_values h ''Connection''))"

definition connection_lists_header :: "headers \<Rightarrow> string \<Rightarrow> bool" where
  "connection_lists_header h want \<longleftrightarrow> list_ex (\<lambda>name. equal_fold name want) (connection_tokens h)"

definition remove_hop_by_hop_headers :: "headers \<Rightarrow> headers" where
  "remove_hop_by_hop_headers h =
     (let h1 = fold header_del (filter valid_header_name (connection_tokens h)) h
      in fold header_del (filter is_hop_by_hop_header (map fst h1)) h1)"

definition copy_response_headers :: "headers \<Rightarrow> headers \<Rightarrow> headers" where
  "copy_response_headers destination source =
     fold (\<lambda>(name, values) d. if is_hop_by_hop_header name \<or> connection_lists_header source name then d
                              else AList.update name values d) source destination"

definition te_fields :: "headers \<Rightarrow> headers" where
  "te_fields h = filter (\<lambda>(name, _). equal_fold name ''Te'') h"

definition request_te_is_trailers :: "headers \<Rightarrow> bool" where
  "request_te_is_trailers h = (case te_fields h of
     [(_, [v])] \<Rightarrow> equal_fold (trim_space v) ''trailers'' | _ \<Rightarrow> False)"

definition normalize_request_te_header :: "headers \<Rightarrow> failure + headers" where
  "normalize_request_te_header h = (case te_fields h of
     [] \<Rightarrow> Inr h
   | [(name, values)] \<Rightarrow> (case values of
        [v] \<Rightarrow> if equal_fold (trim_space v) ''trailers'' then Inr (header_set ''Te'' ''trailers'' (AList.delete name h))
               else Inl ''TE header must contain exactly trailers''
      | _ \<Rightarrow> Inl ''TE header must contain exactly trailers'')
   | _ \<Rightarrow> Inl ''duplicate TE header names'')"

definition validate_native_patch_headers :: "headers \<Rightarrow> bool \<Rightarrow> failure + headers" where
  "validate_native_patch_headers h responding =
     (case (if responding then Inr h else normalize_request_te_header h) of
        Inl e \<Rightarrow> Inl e
      | Inr h1 \<Rightarrow>
          if list_ex (\<lambda>(name, _). is_hop_by_hop_header name \<and> \<not> (\<not> responding \<and> equal_fold name ''Te'')) h1
          then Inl ''header is not permitted in a native patch'' else Inr h1)"

definition sanitize_forward_request_headers :: "headers \<Rightarrow> headers" where
  "sanitize_forward_request_headers h =
     (let h1 = remove_hop_by_hop_headers h
      in if request_te_is_trailers h then header_set ''Te'' ''trailers'' h1 else h1)"

section \<open>Trailers\<close>

definition valid_response_trailer_name :: "string \<Rightarrow> bool" where
  "valid_response_trailer_name name \<longleftrightarrow> valid_header_name name \<and>
     \<not> has_prefix (canonical_header_key name) ''If-'' \<and>
     canonical_header_key name \<notin> {''Authorization'', ''Cache-Control'', ''Connection'', ''Content-Encoding'', ''Content-Length'',
       ''Content-Range'', ''Content-Type'', ''Expect'', ''Host'', ''Keep-Alive'', ''Max-Forwards'', ''Pragma'',
       ''Proxy-Authenticate'', ''Proxy-Authorization'', ''Proxy-Connection'', ''Range'', ''Realm'', ''Te'', ''Trailer'',
       ''Transfer-Encoding'', ''Www-Authenticate''}"

definition response_trailer_names :: "headers \<Rightarrow> string list" where
  "response_trailer_names trailers =
     sort (remdups (filter valid_response_trailer_name (map (canonical_header_key \<circ> fst) trailers)))"

fun join_comma :: "string list \<Rightarrow> string" where
  "join_comma [] = []"
| "join_comma [n] = n"
| "join_comma (n # m # names) = n @ '', '' @ join_comma (m # names)"

definition declare_response_trailers :: "headers \<Rightarrow> headers \<Rightarrow> headers \<times> string list" where
  "declare_response_trailers header trailers =
     (let h = header_del ''Trailer'' header; names = response_trailer_names trailers
      in if names = [] then (h, [])
         else (header_set ''Trailer'' (join_comma names) (header_del ''Content-Length'' h), names))"

definition response_trailer_values :: "headers \<Rightarrow> string \<Rightarrow> string list" where
  "response_trailer_values trailers name = concat (map snd (filter (\<lambda>(n, _). equal_fold n name) trailers))"

definition trailer_prefix :: string where "trailer_prefix = ''Trailer:''"

definition publish_response_trailers :: "headers \<Rightarrow> headers \<Rightarrow> string list \<Rightarrow> headers" where
  "publish_response_trailers header trailers announced =
     fold (\<lambda>name h. AList.update (if name \<in> set announced then name else trailer_prefix @ name)
                      (response_trailer_values trailers name) h) (response_trailer_names trailers) header"

section \<open>Importing headers\<close>

text \<open>
  What a script returns, as the engine exports it to Go: \<open>JsNil\<close> is null, undefined or nil, a float comes
  with its truncation and its text, \<open>JsBytes\<close> is a \<open>Uint8Array\<close> or an \<open>ArrayBuffer\<close>, \<open>JsOther\<close> everything else.
\<close>

datatype js = JsNil | JsBool bool | JsInt int | JsFloat int string | JsString string | JsBytes string
  | JsArray "js list" | JsObject "(string \<times> js) list" | JsOther

definition max_header_fields :: nat where "max_header_fields = 256"
definition max_header_values :: nat where "max_header_values = 512"
definition max_header_value_bytes :: nat where "max_header_value_bytes = 16384"
definition max_header_bytes :: nat where "max_header_bytes = 65536"

definition valid_http_header_value :: "string \<Rightarrow> bool" where
  "valid_http_header_value v \<longleftrightarrow> list_all (\<lambda>c. \<not> (char_code c = 127 \<or> char_code c < 32 \<and> char_code c \<noteq> 9)) v"

text \<open>\<open>scriptHeaderBudget\<close>: values and bytes so far.\<close>

type_synonym budget = "nat \<times> nat"

definition add_field :: "string \<Rightarrow> budget \<Rightarrow> failure + budget" where
  "add_field name b = (let bytes = snd b + length name in
     if bytes > max_header_bytes then Inl ''script headers exceed 65536 bytes'' else Inr (fst b, bytes))"

definition add_value :: "string \<Rightarrow> budget \<Rightarrow> failure + budget" where
  "add_value v b =
     (if \<not> valid_http_header_value v then Inl ''invalid header value''
      else if length v > max_header_value_bytes then Inl ''header value exceeds 16384 bytes''
      else if fst b + 1 > max_header_values then Inl ''script headers exceed 512 values''
      else if snd b + length v > max_header_bytes then Inl ''script headers exceed 65536 bytes''
      else Inr (fst b + 1, snd b + length v))"

fun add_values :: "string list \<Rightarrow> budget \<Rightarrow> failure + budget" where
  "add_values [] b = Inr b"
| "add_values (v # vs) b = (case add_value v b of Inl e \<Rightarrow> Inl e | Inr b' \<Rightarrow> add_values vs b')"

definition exported_header_scalar :: "js \<Rightarrow> string option" where
  "exported_header_scalar v = (case v of
     JsString s \<Rightarrow> Some s
   | JsBool b \<Rightarrow> Some (if b then ''true'' else ''false'')
   | JsInt n \<Rightarrow> Some ((if n < 0 then [CHR ''-''] else []) @ show_nat (nat \<bar>n\<bar>))
   | JsFloat n text \<Rightarrow> Some text
   | _ \<Rightarrow> None)"

text \<open>The loop over a \<open>[]any\<close>.\<close>

fun add_scalars :: "js list \<Rightarrow> budget \<Rightarrow> failure + string list \<times> budget" where
  "add_scalars [] b = Inr ([], b)"
| "add_scalars (item # items) b = (case exported_header_scalar item of
     None \<Rightarrow> Inl ''invalid header value''
   | Some text \<Rightarrow> (case add_value text b of
       Inl e \<Rightarrow> Inl e
     | Inr b' \<Rightarrow> map_sum id (\<lambda>(texts, b''). (text # texts, b'')) (add_scalars items b')))"

definition exported_header_values :: "js \<Rightarrow> budget \<Rightarrow> failure + string list \<times> budget" where
  "exported_header_values raw b = (case raw of
     JsArray items \<Rightarrow>
       if length items > max_header_values - fst b then Inl ''script headers exceed 512 values'' else add_scalars items b
   | _ \<Rightarrow> add_scalars [raw] b)"

definition validated_script_header_names :: "string list \<Rightarrow> failure + string list" where
  "validated_script_header_names names =
     (if length names > max_header_fields then Inl ''script headers exceed 256 fields''
      else case each_unique to_lower (\<lambda>n. fail_if (\<not> valid_header_name n) ''invalid header name'')
             ''duplicate header names'' no_check [] (sort names) of
        Some e \<Rightarrow> Inl e | None \<Rightarrow> Inr (sort names))"

text \<open>The common loop of \<open>exportedHeaders\<close>; \<open>values_of\<close> imports the values of one field.\<close>

fun export_fields :: "(string \<Rightarrow> budget \<Rightarrow> failure + string list \<times> budget) \<Rightarrow> string list \<Rightarrow> budget \<Rightarrow> headers \<Rightarrow> failure + headers" where
  "export_fields values_of [] b h = Inr h"
| "export_fields values_of (name # names) b h = (case add_field name b of
     Inl e \<Rightarrow> Inl e
   | Inr b1 \<Rightarrow> (case values_of name b1 of
       Inl e \<Rightarrow> Inl e
     | Inr (vs, b2) \<Rightarrow> export_fields values_of names b2 (AList.update (canonical_header_key name) vs h)))"

text \<open>\<open>exportedStringSliceHeaders\<close>: headers a peer sent.\<close>

definition string_values :: "headers \<Rightarrow> string \<Rightarrow> budget \<Rightarrow> failure + string list \<times> budget" where
  "string_values h name b = (let vs = (case map_of h name of None \<Rightarrow> [] | Some vs \<Rightarrow> vs) in
     if length vs > max_header_values - fst b then Inl ''script headers exceed 512 values''
     else map_sum id (Pair vs) (add_values vs b))"

definition exported_string_slice_headers :: "headers \<Rightarrow> failure + headers" where
  "exported_string_slice_headers h = (case validated_script_header_names (map fst h) of
     Inl e \<Rightarrow> Inl e | Inr names \<Rightarrow> export_fields (string_values h) names (0, 0) [])"

text \<open>\<open>exportedHeaders\<close> of what a script returned.\<close>

definition exported_headers :: "js \<Rightarrow> failure + headers" where
  "exported_headers value = (case value of
     JsObject fs \<Rightarrow> (case validated_script_header_names (map fst fs) of
        Inl e \<Rightarrow> Inl e
      | Inr names \<Rightarrow> export_fields (\<lambda>name. exported_header_values (the (map_of fs name))) names (0, 0) [])
   | _ \<Rightarrow> Inl ''headers must be an object'')"

definition only_trailers :: "failure + headers \<Rightarrow> failure + headers" where
  "only_trailers h = (case h of
     Inl e \<Rightarrow> Inl e
   | Inr t \<Rightarrow> if list_all (\<lambda>(name, _). valid_response_trailer_name name) t then Inr t else Inl ''invalid trailer'')"

text \<open>\<open>exportedTrailers\<close> of a script's value and of a peer's trailers.\<close>

definition exported_trailers :: "js \<Rightarrow> failure + headers" where
  "exported_trailers value = only_trailers (exported_headers value)"

definition exported_peer_trailers :: "headers \<Rightarrow> failure + headers" where
  "exported_peer_trailers t = only_trailers (exported_string_slice_headers t)"

section \<open>Names\<close>

lemma char_code_lower: "char_code (to_lower_char c) = (if 65 \<le> char_code c \<and> char_code c \<le> 90 then char_code c + 32 else char_code c)"
  by (auto simp: to_lower_char_def char_code_char_of)

lemma char_code_upper: "char_code (to_upper_char c) = (if 97 \<le> char_code c \<and> char_code c \<le> 122 then char_code c - 32 else char_code c)"
  using char_code_less [of c] by (auto simp: to_upper_char_def char_code_char_of)

lemma upper_lower [simp]: "to_upper_char (to_lower_char c) = to_upper_char c"
  by (rule char_code_inj [THEN iffD1]) (simp add: char_code_upper char_code_lower)

lemma lower_upper [simp]: "to_lower_char (to_upper_char c) = to_lower_char c"
  by (rule char_code_inj [THEN iffD1]) (auto simp: char_code_upper char_code_lower)

lemma token_codes:
  "token_byte c \<longleftrightarrow> (let n = char_code c in 97 \<le> n \<and> n \<le> 122 \<or> 48 \<le> n \<and> n \<le> 57 \<or> 65 \<le> n \<and> n \<le> 90 \<or>
     n \<in> {33, 35, 36, 37, 38, 39, 42, 43, 45, 46, 94, 95, 96, 124, 126})"
proof -
  have codes: "map char_code token_marks = [33, 35, 36, 37, 38, 42, 43, 45, 46, 94, 95, 96, 124, 126]"
    by code_simp
  have "c \<in> set token_marks \<longleftrightarrow> char_code c \<in> set (map char_code token_marks)"
    by (auto simp: char_code_inj)
  then have s: "c \<in> set token_marks \<longleftrightarrow> char_code c \<in> {33, 35, 36, 37, 38, 42, 43, 45, 46, 94, 95, 96, 124, 126}"
    unfolding codes by simp
  show ?thesis unfolding token_byte_def s lower_alnum_def is_digit_def Let_def by auto
qed

lemma token_lower [simp]: "token_byte (to_lower_char c) = token_byte c"
proof (cases "65 \<le> char_code c \<and> char_code c \<le> 90")
  case True
  then have "97 \<le> char_code (to_lower_char c) \<and> char_code (to_lower_char c) \<le> 122" by (simp add: char_code_lower)
  then show ?thesis unfolding token_codes Let_def using True by blast
qed (auto simp: to_lower_char_def)

lemma token_upper [simp]: "token_byte (to_upper_char c) = token_byte c"
proof (cases "97 \<le> char_code c \<and> char_code c \<le> 122")
  case True
  then have "65 \<le> char_code (to_upper_char c) \<and> char_code (to_upper_char c) \<le> 90" by (simp add: char_code_upper) arith
  then show ?thesis unfolding token_codes Let_def using True by blast
qed (auto simp: to_upper_char_def)

lemma canonical_from_lower [simp]: "canonical_from u (to_lower s) = canonical_from u s"
proof (induction u s rule: canonical_from.induct)
  case (2 u c s)
  have "to_lower_char c = CHR ''-'' \<longleftrightarrow> c = CHR ''-''"
    by (simp add: char_code_inj [symmetric] char_code_lower) (simp add: char_code_def)
  then show ?case using 2 by (simp add: to_lower_def)
qed (simp add: to_lower_def)

lemma lower_canonical_from [simp]: "to_lower (canonical_from u s) = to_lower s"
  by (induction u s rule: canonical_from.induct) (auto simp: to_lower_def)

lemma list_all_token_lower [simp]: "list_all token_byte (to_lower s) = list_all token_byte s"
  by (simp add: to_lower_def list_all_iff)

lemma canonical_fold:
  assumes "equal_fold a b" "list_all token_byte a"
  shows "canonical_header_key a = canonical_header_key b"
proof -
  have e: "to_lower a = to_lower b" using assms(1) by (simp add: equal_fold_def)
  then have "list_all token_byte b" using assms(2) list_all_token_lower by metis
  then show ?thesis
    using assms(2) e canonical_from_lower [of True a] canonical_from_lower [of True b]
    by (simp add: canonical_header_key_def)
qed

lemma lower_canonical [simp]: "to_lower (canonical_header_key n) = to_lower n"
  by (simp add: canonical_header_key_def)

lemma canonical_fold_iff:
  assumes "list_all token_byte a" 
  shows "canonical_header_key a = canonical_header_key b \<longleftrightarrow> to_lower a = to_lower b"
  using canonical_fold [of a b] assms lower_canonical by (metis equal_fold_def)

lemma list_all_token_canonical [simp]: "list_all token_byte (canonical_header_key n) = list_all token_byte n"
  by (metis list_all_token_lower lower_canonical)

lemma canonical_idem [simp]: "canonical_header_key (canonical_header_key n) = canonical_header_key n"
proof (cases "list_all token_byte n")
  case True
  have "equal_fold (canonical_header_key n) n" by (simp add: equal_fold_def)
  then show ?thesis by (rule canonical_fold) (simp add: True)
qed (simp add: canonical_header_key_def)

lemma valid_header_name_canonical [simp]: "valid_header_name (canonical_header_key n) = valid_header_name n"
  by (metis lower_canonical list_all_token_canonical to_lower_eq_Nil valid_header_name_def)

lemma hop_by_hop_canonical [simp]: "is_hop_by_hop_header (canonical_header_key n) = is_hop_by_hop_header n"
  by (simp add: is_hop_by_hop_header_def)

text \<open>A Go map of headers, with the keys net/http stores.\<close>

definition header_ok :: "headers \<Rightarrow> bool" where
  "header_ok h \<longleftrightarrow> distinct (map fst h) \<and> (\<forall>n\<in>fst ` set h. valid_header_name n \<and> canonical_header_key n = n)"

section \<open>What reaches the upstream\<close>

lemma map_of_fold_del:
  "map_of (fold header_del ds h) k = (if k \<in> canonical_header_key ` set ds then None else map_of h k)"
  by (induction ds arbitrary: h) (auto simp: header_del_def)

lemma keys_fold_del: "set (map fst (fold header_del ds h)) = set (map fst h) - canonical_header_key ` set ds"
proof -
  have "dom (map_of (fold header_del ds h)) = dom (map_of h) - canonical_header_key ` set ds"
    by (auto simp: map_of_fold_del split: if_splits)
  then show ?thesis by (simp add: dom_map_of_conv_image_fst)
qed

lemma header_ok_key: "header_ok h \<Longrightarrow> map_of h k = Some v \<Longrightarrow> valid_header_name k \<and> canonical_header_key k = k"
  unfolding header_ok_def by (metis image_eqI map_of_SomeD fst_conv)

text \<open>The names a \<open>Connection\<close> header takes away.\<close>

definition connection_named :: "headers \<Rightarrow> string \<Rightarrow> bool" where
  "connection_named h k \<longleftrightarrow> (\<exists>n\<in>set (connection_tokens h). valid_header_name n \<and> canonical_header_key n = k)"

lemma map_of_remove_hop_by_hop:
  assumes "header_ok h"
  shows "map_of (remove_hop_by_hop_headers h) k =
    (if is_hop_by_hop_header k \<or> connection_named h k then None else map_of h k)"
proof -
  define h1 where "h1 = fold header_del (filter valid_header_name (connection_tokens h)) h"
  have named: "k \<in> canonical_header_key ` set (filter valid_header_name (connection_tokens h)) \<longleftrightarrow> connection_named h k"
    by (auto simp: connection_named_def)
  have h1: "map_of h1 k = (if connection_named h k then None else map_of h k)"
    unfolding h1_def by (simp only: map_of_fold_del named)
  have keys: "n \<in> fst ` set h1 \<longleftrightarrow> map_of h1 n \<noteq> None" for n
    by (simp add: map_of_eq_None_iff)
  have "set (map fst h1) \<subseteq> set (map fst h)" unfolding h1_def keys_fold_del by blast
  then have canon: "canonical_header_key n = n" if "n \<in> fst ` set h1" for n
    using that assms by (metis header_ok_def image_set subsetD)
  have image: "k \<in> canonical_header_key ` set (filter is_hop_by_hop_header (map fst h1)) \<longleftrightarrow>
      is_hop_by_hop_header k \<and> map_of h1 k \<noteq> None"
    using canon keys [of k] by (auto simp: image_iff)
  have "remove_hop_by_hop_headers h = fold header_del (filter is_hop_by_hop_header (map fst h1)) h1"
    by (simp add: remove_hop_by_hop_headers_def h1_def Let_def)
  then show ?thesis by (simp only: map_of_fold_del image) (auto simp: h1)
qed

lemma canonical_te [simp]: "canonical_header_key ''Te'' = ''Te''" "is_hop_by_hop_header ''Te''" "is_hop_by_hop_header ''te''"
  by code_simp+

text \<open>
  The sanitised header, field by field: the hop-by-hop fields and everything the \<open>Connection\<close> header
  names are gone, except a \<open>TE: trailers\<close> when that is all the request said about TE.
\<close>

lemma sanitized_field:
  assumes "header_ok h"
  shows "map_of (sanitize_forward_request_headers h) k =
    (if k = ''Te'' then (if request_te_is_trailers h then Some [''trailers''] else None)
     else if is_hop_by_hop_header k \<or> connection_named h k then None
     else map_of h k)"
  by (simp add: sanitize_forward_request_headers_def header_set_def Let_def map_of_remove_hop_by_hop [OF assms])

text \<open>What the two tests look at: one field each.\<close>

lemma connection_named_cong:
  assumes "map_of h ''Connection'' = map_of h' ''Connection''"
  shows "connection_named h k = connection_named h' k"
proof -
  have "canonical_header_key ''Connection'' = ''Connection''" by code_simp
  then show ?thesis using assms by (simp add: connection_named_def connection_tokens_def header_values_def)
qed

lemma filter_key: "distinct (map fst h) \<Longrightarrow> filter (\<lambda>(n, _). n = k) h = (case map_of h k of None \<Rightarrow> [] | Some v \<Rightarrow> [(k, v)])"
proof (induction h)
  case (Cons a h)
  obtain n v where a: "a = (n, v)" by fastforce
  have "map_of h k = None" if "n = k" using Cons.prems that a by (simp add: map_of_eq_None_iff)
  then show ?case using Cons a by (cases "n = k") auto
qed simp

lemma te_fields_ok:
  assumes "header_ok h"
  shows "te_fields h = (case map_of h ''Te'' of None \<Rightarrow> [] | Some v \<Rightarrow> [(''Te'', v)])"
proof -
  have "equal_fold n ''Te'' \<longleftrightarrow> n = ''Te''" if "n \<in> fst ` set h" for n
  proof -
    have n: "list_all token_byte n" "canonical_header_key n = n" using that assms by (auto simp: header_ok_def valid_header_name_def)
    show ?thesis using canonical_fold [OF _ n(1), of "''Te''"] n(2) by (auto simp: equal_fold_def)
  qed
  then have "te_fields h = filter (\<lambda>(n, _). n = ''Te'') h"
    unfolding te_fields_def by (intro filter_cong) force+
  moreover have "distinct (map fst h)" using assms by (simp add: header_ok_def)
  ultimately show ?thesis using filter_key [of h "''Te''"] by (simp only:)
qed

lemma request_te_cong:
  assumes "header_ok h" "header_ok h'" "map_of h ''Te'' = map_of h' ''Te''"
  shows "request_te_is_trailers h = request_te_is_trailers h'"
  unfolding request_te_is_trailers_def te_fields_ok [OF assms(1)] te_fields_ok [OF assms(2)] assms(3) ..

definition ex_headers :: headers where
  "ex_headers = [(''Accept'', [''*/*'']), (''Connection'', [''close, X-Secret'']), (''X-Secret'', [''1'']), (''Te'', ['' Trailers'']),
     (''Upgrade'', [''h2c''])]"

lemma ex_headers_ok:
  "header_ok ex_headers" "connection_named ex_headers ''X-Secret''" "\<not> connection_named ex_headers ''Accept''"
  "request_te_is_trailers ex_headers" "is_hop_by_hop_header ''Connection''" "is_hop_by_hop_header ''Upgrade''"
  "\<not> is_hop_by_hop_header ''Accept''"
proof -
  show "header_ok ex_headers"
    unfolding header_ok_def ex_headers_def by (auto simp: valid_header_name_def) (code_simp)+
  show "connection_named ex_headers ''X-Secret''" "\<not> connection_named ex_headers ''Accept''"
    unfolding connection_named_def by code_simp+
qed code_simp+

section \<open>Imported headers are bounded and carry no line breaks\<close>

definition total_values :: "headers \<Rightarrow> nat" where
  "total_values h = sum_list (map (\<lambda>(n, vs). length vs) h)"

definition total_bytes :: "headers \<Rightarrow> nat" where
  "total_bytes h = sum_list (map (\<lambda>(n, vs). length n + sum_list (map length vs)) h)"

text \<open>A header that may be sent: a header of net/http within the budget, no value with a line break.\<close>

definition header_safe :: "headers \<Rightarrow> bool" where
  "header_safe h \<longleftrightarrow> header_ok h \<and> length h \<le> max_header_fields \<and> total_values h \<le> max_header_values \<and>
     total_bytes h \<le> max_header_bytes \<and>
     (\<forall>vs\<in>snd ` set h. \<forall>v\<in>set vs. valid_http_header_value v \<and> length v \<le> max_header_value_bytes)"

text \<open>What one field adds.\<close>

definition good_values :: "string list \<Rightarrow> bool" where
  "good_values vs \<longleftrightarrow> (\<forall>v\<in>set vs. valid_http_header_value v \<and> length v \<le> max_header_value_bytes)"

definition adds :: "string list \<Rightarrow> budget \<Rightarrow> budget \<Rightarrow> bool" where
  "adds vs b b' \<longleftrightarrow> good_values vs \<and> fst b' = fst b + length vs \<and> snd b' = snd b + sum_list (map length vs) \<and>
     (fst b \<le> max_header_values \<longrightarrow> fst b' \<le> max_header_values) \<and>
     (snd b \<le> max_header_bytes \<longrightarrow> snd b' \<le> max_header_bytes)"

lemma add_value_adds: "add_value v b = Inr b' \<Longrightarrow> adds [v] b b'"
  by (auto simp: add_value_def adds_def good_values_def split: if_splits)

lemma adds_Cons: "adds [v] b b1 \<Longrightarrow> adds vs b1 b2 \<Longrightarrow> adds (v # vs) b b2"
  by (auto simp: adds_def good_values_def)

lemma adds_Nil [simp]: "adds [] b b"
  by (simp add: adds_def good_values_def)

lemma add_values_adds: "add_values vs b = Inr b' \<Longrightarrow> adds vs b b'"
  by (induction vs b rule: add_values.induct) (auto split: sum.splits intro: adds_Cons dest: add_value_adds)

lemma add_scalars_adds: "add_scalars items b = Inr (vs, b') \<Longrightarrow> adds vs b b'"
  by (induction items b arbitrary: vs rule: add_scalars.induct)
    (auto split: sum.splits option.splits prod.splits simp: map_sum_Inr intro: adds_Cons dest: add_value_adds)

lemma exported_header_values_adds: "exported_header_values raw b = Inr (vs, b') \<Longrightarrow> adds vs b b'"
  by (cases raw) (auto simp: exported_header_values_def simp del: add_scalars.simps split: if_splits dest: add_scalars_adds)

lemma string_values_adds: "string_values h name b = Inr (vs, b') \<Longrightarrow> adds vs b b'"
  by (auto simp: string_values_def Let_def map_sum_Inr split: if_splits dest: add_values_adds)

lemma update_nonempty_new: "k \<notin> fst ` set h \<Longrightarrow> AList.update k v h = h @ [(k, v)]"
  by (induction h) auto

lemma distinct_fst_update: "distinct (map fst h) \<Longrightarrow> distinct (map fst (AList.update k v h))"
  by (simp add: distinct_update)

text \<open>The import of fields whose folded names are distinct and new.\<close>

lemma export_fields_safe:
  assumes "\<And>name b vs b'. values_of name b = Inr (vs, b') \<Longrightarrow> adds vs b b'"
  shows "export_fields values_of names b h = Inr h' \<Longrightarrow> header_ok h \<Longrightarrow> list_all valid_header_name names \<Longrightarrow>
    distinct (map to_lower names) \<Longrightarrow> to_lower ` set names \<inter> to_lower ` fst ` set h = {} \<Longrightarrow>
    total_values h = fst b \<Longrightarrow> total_bytes h = snd b \<Longrightarrow> fst b \<le> max_header_values \<Longrightarrow> snd b \<le> max_header_bytes \<Longrightarrow>
    good_values (concat (map snd h)) \<Longrightarrow>
    header_ok h' \<and> length h' = length h + length names \<and> total_values h' \<le> max_header_values \<and>
    total_bytes h' \<le> max_header_bytes \<and> good_values (concat (map snd h'))"
proof (induction names arbitrary: b h)
  case (Cons name names)
  from Cons.prems(1) obtain b1 vs b2 where 1: "add_field name b = Inr b1" and 2: "values_of name b1 = Inr (vs, b2)"
    and 3: "export_fields values_of names b2 (AList.update (canonical_header_key name) vs h) = Inr h'"
    by (auto split: sum.splits)
  let ?k = "canonical_header_key name"
  have b1: "fst b1 = fst b" "snd b1 = snd b + length name" "snd b1 \<le> max_header_bytes"
    using 1 by (auto simp: add_field_def Let_def split: if_splits)
  have new: "?k \<notin> fst ` set h"
  proof
    assume "?k \<in> fst ` set h"
    then have "to_lower name \<in> to_lower ` fst ` set h" by (metis imageI lower_canonical)
    then show False using Cons.prems(5) by auto
  qed
  then have upd: "AList.update ?k vs h = h @ [(?k, vs)]" by (rule update_nonempty_new)
  have len: "length ?k = length name" by (metis length_to_lower lower_canonical)

  let ?h = "h @ [(?k, vs)]"
  have valid: "valid_header_name name" "list_all valid_header_name names" using Cons.prems(3) by simp_all
  have 4: "header_ok ?h"
    using Cons.prems(2) new valid(1) by (auto simp: header_ok_def)
  have dist: "distinct (map to_lower names)" "to_lower name \<notin> to_lower ` set names" using Cons.prems(4) by simp_all
  have 5: "to_lower ` set names \<inter> to_lower ` fst ` set ?h = {}"
    using Cons.prems(5) dist(2) by auto
  have a: "good_values vs" "fst b2 = fst b1 + length vs" "snd b2 = snd b1 + sum_list (map length vs)"
      "fst b1 \<le> max_header_values \<Longrightarrow> fst b2 \<le> max_header_values" "snd b1 \<le> max_header_bytes \<Longrightarrow> snd b2 \<le> max_header_bytes"
    using assms [OF 2] by (simp_all add: adds_def)
  have 6: "total_values ?h = fst b2" using Cons.prems(6) b1 a(2) by (simp add: total_values_def)
  have 7: "total_bytes ?h = snd b2" using Cons.prems(7) b1 a(3) len by (simp add: total_bytes_def)
  have 8: "fst b2 \<le> max_header_values" using a(4) b1 Cons.prems(8) by simp
  have 9: "snd b2 \<le> max_header_bytes" using a(5) b1 by simp
  have 10: "good_values (concat (map snd ?h))" using Cons.prems(10) a(1) by (auto simp: good_values_def)
  from Cons.IH [OF 3 [unfolded upd] 4 valid(2) dist(1) 5 6 7 8 9 10] show ?case by simp
qed simp

lemma validated_names:
  assumes "validated_script_header_names names = Inr names'"
  shows "names' = sort names \<and> length names \<le> max_header_fields \<and> list_all valid_header_name names' \<and> distinct (map to_lower names')"
  using assms by (auto simp: validated_script_header_names_def list_all_iff split: if_splits option.splits)

lemma export_all_safe:
  assumes "validated_script_header_names keys = Inr names" "export_fields values_of names (0, 0) [] = Inr h"
    and "\<And>name b vs b'. values_of name b = Inr (vs, b') \<Longrightarrow> adds vs b b'"
  shows "header_safe h"
proof -
  have n: "names = sort keys" "length keys \<le> max_header_fields" "list_all valid_header_name names" "distinct (map to_lower names)"
    using validated_names [OF assms(1)] by blast+
  have "header_ok h \<and> length h = length ([] :: headers) + length names \<and> total_values h \<le> max_header_values \<and>
    total_bytes h \<le> max_header_bytes \<and> good_values (concat (map snd h))"
    by (rule export_fields_safe [OF assms(3,2)])
      (use n(3,4) in \<open>simp_all add: header_ok_def total_values_def total_bytes_def good_values_def max_header_values_def max_header_bytes_def\<close>)
  then show ?thesis using n by (auto simp: header_safe_def good_values_def)
qed

lemma exported_headers_safe: "exported_headers value = Inr h \<Longrightarrow> header_safe h"
  by (auto simp: exported_headers_def split: js.splits sum.splits intro: export_all_safe exported_header_values_adds)

lemma exported_peer_headers_safe: "exported_string_slice_headers p = Inr h \<Longrightarrow> header_safe h"
  by (auto simp: exported_string_slice_headers_def split: sum.splits intro: export_all_safe string_values_adds)

text \<open>The headers of a peer come out as they went in.\<close>

lemma export_fields_map:
  "export_fields (string_values p) names b h = Inr h' \<Longrightarrow> \<forall>n\<in>set names. canonical_header_key n = n \<Longrightarrow>
   map_of h' k = (if k \<in> set names then Some (case map_of p k of None \<Rightarrow> [] | Some vs \<Rightarrow> vs) else map_of h k)"
proof (induction names arbitrary: b h)
  case (Cons name names)
  let ?v = "case map_of p name of None \<Rightarrow> [] | Some vs \<Rightarrow> vs"
  obtain b1 vs b2 where "string_values p name b1 = Inr (vs, b2)"
      "export_fields (string_values p) names b2 (AList.update (canonical_header_key name) vs h) = Inr h'"
    using Cons.prems(1) by (auto split: sum.splits)
  moreover from this(1) have "vs = ?v" by (auto simp: string_values_def Let_def map_sum_Inr split: if_splits)
  ultimately have "export_fields (string_values p) names b2 (AList.update name ?v h) = Inr h'"
    using Cons.prems(2) by simp
  from Cons.IH [OF this] Cons.prems(2) show ?case by auto
qed simp

lemma exported_peer_map:
  assumes "exported_string_slice_headers p = Inr h" "header_ok p"
  shows "map_of h = map_of p"
proof
  fix k
  from assms(1) have e: "export_fields (string_values p) (sort (map fst p)) (0, 0) [] = Inr h"
    by (auto simp: exported_string_slice_headers_def dest: validated_names split: sum.splits)
  have "\<forall>n\<in>set (sort (map fst p)). canonical_header_key n = n" using assms(2) by (simp add: header_ok_def)
  note m = export_fields_map [OF e this, of k]
  show "map_of h k = map_of p k"
  proof (cases "map_of p k")
    case None
    then have "k \<notin> set (sort (map fst p))" by (simp add: map_of_eq_None_iff)
    with m None show ?thesis by (simp only: if_False map_of.simps)
  next
    case (Some v)
    then have "k \<in> set (sort (map fst p))" using map_of_SomeD [OF Some] by force
    with m Some show ?thesis by (simp only: if_True option.case)
  qed
qed

lemma only_trailers_Inr: "only_trailers r = Inr t \<Longrightarrow> r = Inr t \<and> list_all (\<lambda>(n, _). valid_response_trailer_name n) t"
  by (auto simp: only_trailers_def split: sum.splits if_splits)

text \<open>C26: whatever object a script hands over as headers, and whatever headers a peer sent, the import either
  fails or yields fields that may be written to a connection: distinct canonical names made of token
  bytes, no value with a control byte other than a tab, so none with a line break, at most 256 fields,
  512 values and 65536 bytes in all.
\<close>

theorem imported_headers_safe:
  assumes "exported_headers value = Inr h \<or> exported_string_slice_headers p = Inr h"
  shows "header_safe h"
  using assms exported_headers_safe exported_peer_headers_safe by blast

theorem imported_headers_safe_witness:
  "exported_headers (JsObject [(''x-b'', JsArray [JsInt 1, JsString ''two'']), (''Accept'', JsBool True)]) =
     Inr [(''Accept'', [''true'']), (''X-B'', [''1'', ''two''])] \<and>
   exported_headers (JsObject [(''x-b'', JsString [CHR ''a'', char_of (10::nat)])]) = Inl ''invalid header value'' \<and>
   header_safe [(''Accept'', [''true'']), (''X-B'', [''1'', ''two''])]"
proof -
  have e: "exported_headers (JsObject [(''x-b'', JsArray [JsInt 1, JsString ''two'']), (''Accept'', JsBool True)]) =
     Inr [(''Accept'', [''true'']), (''X-B'', [''1'', ''two''])]" by code_simp
  moreover have "exported_headers (JsObject [(''x-b'', JsString [CHR ''a'', char_of (10::nat)])]) = Inl ''invalid header value''"
    by code_simp
  ultimately show ?thesis
    using imported_headers_safe [OF disjI1, OF e] by blast
qed

end
