(* ===== verification/Icp_Pipeline.thy ===== *)
theory Icp_Pipeline
  imports Icp_Headers
begin

text \<open>
  What happens to one HTTP exchange: \<open>module_proxy.go\<close> with the script results of \<open>module_runtime.go\<close>
  and the body decoding of \<open>content_encoding.go\<close>. The JavaScript engine is an argument, a function of the
  extension, the action and the messages that may change a world of its own (storage, network); so are
  the decompressors. Reads of a body give all its bytes or an error.
\<close>

section \<open>Script results\<close>

record script_result =
  sr_url :: string
  sr_headers :: headers
  sr_trailers :: headers
  sr_body :: string
  sr_status :: int
  sr_synthetic :: bool
  sr_abort :: bool
  sr_changed_url :: bool
  sr_changed_body :: bool
  sr_changed_headers :: bool
  sr_changed_trailers :: bool
  sr_changed_status :: bool

definition no_result :: script_result where
  "no_result = \<lparr>sr_url = [], sr_headers = [], sr_trailers = [], sr_body = [], sr_status = 0, sr_synthetic = False,
     sr_abort = False, sr_changed_url = False, sr_changed_body = False, sr_changed_headers = False,
     sr_changed_trailers = False, sr_changed_status = False\<rparr>"

definition byte_of :: "js \<Rightarrow> char option" where
  "byte_of v = (case v of JsInt n \<Rightarrow> if n < 0 \<or> n > 255 then None else Some (char_of (nat n)) | _ \<Rightarrow> None)"

definition exported_body :: "js \<Rightarrow> string option" where
  "exported_body v = (case v of
     JsString s \<Rightarrow> Some s
   | JsBytes b \<Rightarrow> Some b
   | JsArray items \<Rightarrow> if list_all (\<lambda>i. byte_of i \<noteq> None) items then Some (map (the \<circ> byte_of) items) else None
   | _ \<Rightarrow> None)"

definition exported_status :: "js \<Rightarrow> int option" where
  "exported_status v = (let in_range = (\<lambda>n. if n < 100 \<or> n > 599 then None else Some n) in
     case v of JsInt n \<Rightarrow> in_range n | JsFloat n text \<Rightarrow> in_range n | _ \<Rightarrow> None)"

text \<open>\<open>if raw, exists := object[key]; exists\<close> around a step that may fail.\<close>

definition when_field :: "(string \<times> js) list \<Rightarrow> string \<Rightarrow> (js \<Rightarrow> 's \<Rightarrow> failure + 's) \<Rightarrow> failure + 's \<Rightarrow> failure + 's" where
  "when_field fs key step r = (case r of
     Inl e \<Rightarrow> Inl e
   | Inr s \<Rightarrow> (case map_of fs key of None \<Rightarrow> Inr s | Some v \<Rightarrow> step v s))"

definition apply_native_patch :: "script_result \<Rightarrow> js \<Rightarrow> bool \<Rightarrow> failure + script_result" where
  "apply_native_patch result raw responding = (case raw of
     JsObject fs \<Rightarrow>
       if list_ex (\<lambda>(k, _). k \<notin> {''url'', ''headers'', ''trailers'', ''body'', ''status''}) fs
       then Inl ''transform patch contains unsupported field''
       else
         when_field fs ''status'' (\<lambda>v r. if \<not> responding then Inl ''request patches cannot set status''
           else case exported_status v of None \<Rightarrow> Inl ''status must be an integer between 100 and 599''
             | Some n \<Rightarrow> Inr (r\<lparr>sr_status := n, sr_changed_status := True\<rparr>))
        (when_field fs ''body'' (\<lambda>v r. case exported_body v of None \<Rightarrow> Inl ''body must be a string or Uint8Array''
             | Some b \<Rightarrow> Inr (r\<lparr>sr_body := b, sr_changed_body := True\<rparr>))
        (when_field fs ''trailers'' (\<lambda>v r. if \<not> responding then Inl ''request patches cannot set trailers''
           else map_sum id (\<lambda>t. r\<lparr>sr_trailers := t, sr_changed_trailers := True\<rparr>) (exported_trailers v))
        (when_field fs ''headers'' (\<lambda>v r. case exported_headers v of Inl e \<Rightarrow> Inl e
             | Inr h \<Rightarrow> map_sum id (\<lambda>h'. r\<lparr>sr_headers := h', sr_changed_headers := True\<rparr>) (validate_native_patch_headers h responding))
        (when_field fs ''url'' (\<lambda>v r. if responding then Inl ''response patches cannot change the request URL''
           else case v of JsString s \<Rightarrow> Inr (r\<lparr>sr_url := s, sr_changed_url := True\<rparr>) | _ \<Rightarrow> Inl ''request.url must be a string'')
        (Inr result)))))
   | _ \<Rightarrow> Inl ''transform request/response patch must be an object'')"

definition parse_native_script_result :: "js \<Rightarrow> bool \<Rightarrow> failure + script_result" where
  "parse_native_script_result value response_phase = (case value of
     JsNil \<Rightarrow> Inr no_result
   | JsObject fs \<Rightarrow>
       if list_ex (\<lambda>(k, _). k \<notin> {''abort'', ''request'', ''response''}) fs then Inl ''transform result contains unsupported field''
       else (case when_field fs ''abort'' (\<lambda>v r. case v of JsBool b \<Rightarrow> Inr (r\<lparr>sr_abort := b\<rparr>) | _ \<Rightarrow> Inl ''transform.abort must be a boolean'')
                    (Inr no_result) of
          Inl e \<Rightarrow> Inl e
        | Inr r0 \<Rightarrow>
            let has_request = map_of fs ''request'' \<noteq> None; has_response = map_of fs ''response'' \<noteq> None in
            if response_phase \<and> has_request then Inl ''a response action cannot return a request patch''
            else if \<not> response_phase \<and> has_request \<and> has_response
              then Inl ''a request action cannot return request and synthetic response patches together''
            else when_field fs ''response'' (\<lambda>v r. map_sum id (\<lambda>r'. r'\<lparr>sr_synthetic := \<not> response_phase\<rparr>) (apply_native_patch r v True))
                  (when_field fs ''request'' (\<lambda>v r. apply_native_patch r v False) (Inr r0)))
   | _ \<Rightarrow> Inl ''transform(context) must return an object, null, or undefined'')"

section \<open>Bodies\<close>

definition max_module_http_body :: nat where "max_module_http_body = 67108864"

definition read_bounded :: "failure + string \<Rightarrow> nat \<Rightarrow> failure + string" where
  "read_bounded source limit = (case source of
     Inl e \<Rightarrow> Inl e
   | Inr b \<Rightarrow> if length b > limit then Inl ''response exceeds its limit'' else Inr b)"

text \<open>The decompressors: \<open>None\<close> is an error; a zlib stream may already fail to open.\<close>

record content_lib =
  cl_gzip :: "string \<Rightarrow> string option"
  cl_zlib :: "string \<Rightarrow> string option option"
  cl_flate :: "string \<Rightarrow> string option"
  cl_brotli :: "string \<Rightarrow> string option"

definition is_gzip :: "string \<Rightarrow> bool" where
  "is_gzip b \<longleftrightarrow> length b \<ge> 2 \<and> char_code (b ! 0) = 31 \<and> char_code (b ! 1) = 139"

definition decode_content_body :: "content_lib \<Rightarrow> string \<Rightarrow> string \<Rightarrow> nat \<Rightarrow> failure + string" where
  "decode_content_body D body encoding limit =
     (let enc = to_lower (trim_space encoding);
          bounded = (\<lambda>r. case r of None \<Rightarrow> Inl ''decode body'' | Some b \<Rightarrow> read_bounded (Inr b) limit)
      in if enc = [] \<or> enc = ''identity'' then Inr body
         else if enc = ''gzip'' then bounded (cl_gzip D body)
         else if enc = ''deflate'' then bounded (case cl_zlib D body of None \<Rightarrow> cl_flate D body | Some r \<Rightarrow> r)
         else if enc = ''br'' then bounded (cl_brotli D body)
         else Inl ''content encoding is unsupported'')"

section \<open>Writing a response\<close>

definition response_can_have_body :: "string \<Rightarrow> int \<Rightarrow> bool" where
  "response_can_have_body http_method status =
     (if http_method = ''HEAD'' \<or> 100 \<le> status \<and> status \<le> 199 then False else status \<noteq> 204 \<and> status \<noteq> 304)"

text \<open>What the client gets: the header map when the status is written, the body, the header map at the end.\<close>

record written_response =
  wr_status :: int
  wr_headers :: headers
  wr_body :: string
  wr_final :: headers

definition write_buffered_module_response ::
    "headers \<Rightarrow> string \<Rightarrow> int \<Rightarrow> headers \<Rightarrow> headers \<Rightarrow> string \<Rightarrow> failure + written_response" where
  "write_buffered_module_response w http_method status headers trailers body =
     (if body \<noteq> [] \<and> \<not> response_can_have_body http_method status then Inl ''body not allowed''
      else if response_trailer_names trailers \<noteq> [] \<and> \<not> response_can_have_body http_method status
        then Inl ''response trailers require a response body section''
      else let h = header_del ''Content-Encoding'' (remove_hop_by_hop_headers (copy_response_headers w headers));
               (h1, names) = declare_response_trailers h trailers;
               h2 = (if names = [] then header_set ''Content-Length'' (show_nat (length body)) h1 else h1)
           in Inr \<lparr>wr_status = status, wr_headers = h2, wr_body = body, wr_final = publish_response_trailers h2 trailers names\<rparr>)"

section \<open>The request\<close>

record client_request =
  cq_https :: bool
  cq_uri :: string
  cq_method :: string
  cq_headers :: headers
  cq_body :: "(failure + string) option"

record outbound_request =
  ob_url :: go_url
  ob_method :: string
  ob_headers :: headers
  ob_body :: "string option"

datatype prepared = Forward outbound_request | Answered written_response | AbortHandler | FailedWith failure

type_synonym 'w script_runner =
  "routing_rule ext_module \<Rightarrow> script_rule \<Rightarrow> script_message \<Rightarrow> script_message option \<Rightarrow> 'w \<Rightarrow> (failure + js) \<times> 'w"

text \<open>\<open>scriptRuntime.execute\<close> around the engine.\<close>

definition execute_action ::
    "'w script_runner \<Rightarrow> routing_rule ext_module \<Rightarrow> script_rule \<Rightarrow> script_message \<Rightarrow> script_message option \<Rightarrow> 'w \<Rightarrow>
       (failure + script_result) \<times> 'w" where
  "execute_action run m r msg resp w = (case run m r msg resp w of
     (Inl e, w') \<Rightarrow> (Inl e, w')
   | (Inr v, w') \<Rightarrow> (parse_native_script_result v (resp \<noteq> None), w'))"

text \<open>What one request action leaves behind: the changed message, or the end of the exchange.\<close>

definition apply_request_result ::
    "icp_config \<Rightarrow> routing_rule ext_module \<Rightarrow> string \<Rightarrow> script_message \<Rightarrow> script_result \<Rightarrow> prepared + script_message" where
  "apply_request_result c m http_method msg r =
     (if sr_abort r then Inl AbortHandler
      else if sr_synthetic r then
        (case write_buffered_module_response [] http_method (if sr_status r = 0 then 200 else sr_status r)
            (sr_headers r) (sr_trailers r) (sr_body r) of
           Inl _ \<Rightarrow> Inl AbortHandler | Inr wr \<Rightarrow> Inl (Answered wr))
      else case (if sr_changed_url r then map_sum id Some (authorize_request_url_rewrite c m (mg_url msg) (sr_url r)) else Inr None) of
        Inl e \<Rightarrow> Inl (FailedWith e)
      | Inr u \<Rightarrow> Inr (msg\<lparr>mg_url := (case u of None \<Rightarrow> mg_url msg | Some v \<Rightarrow> url_string v),
              mg_headers := (if sr_changed_headers r then sr_headers r else mg_headers msg),
              mg_body := (if sr_changed_body r then sr_body r else mg_body msg)\<rparr>))"

definition too_long_for :: "script_rule \<Rightarrow> string \<Rightarrow> bool" where
  "too_long_for r body \<longleftrightarrow> sc_body_mode r \<noteq> ''none'' \<and> int (length body) > sc_max_body_bytes r"

fun run_request_actions ::
    "'w script_runner \<Rightarrow> icp_config \<Rightarrow> string \<Rightarrow> (routing_rule ext_module \<times> script_rule) list \<Rightarrow> script_message \<Rightarrow> 'w \<Rightarrow>
       (prepared + script_message) \<times> 'w" where
  "run_request_actions run c http_method [] msg w = (Inr msg, w)"
| "run_request_actions run c http_method ((m, r) # rules) msg w =
     (case authorize_request_action_url c m (mg_url msg) of
        Some e \<Rightarrow> (Inl (FailedWith e), w)
      | None \<Rightarrow>
         if too_long_for r (mg_body msg) then (Inl (FailedWith ''request body exceeds action limit''), w)
         else (case execute_action run m r msg None w of
            (Inl e, w') \<Rightarrow> (Inl (FailedWith e), w')
          | (Inr result, w') \<Rightarrow> (case apply_request_result c m http_method msg result of
               Inl out \<Rightarrow> (Inl out, w')
             | Inr msg' \<Rightarrow> run_request_actions run c http_method rules msg' w')))"

definition strip_content :: "headers \<Rightarrow> headers" where
  "strip_content h = header_del ''Content-Length'' (header_del ''Content-Encoding'' h)"

text \<open>The message the request actions start from.\<close>

definition request_message :: "content_lib \<Rightarrow> client_request \<Rightarrow> string \<Rightarrow> headers \<Rightarrow> failure + script_message" where
  "request_message D rq host h =
     (let body = (case cq_body rq of
            None \<Rightarrow> Inr []
          | Some source \<Rightarrow> (case read_bounded source max_module_http_body of
               Inl e \<Rightarrow> Inl e
             | Inr b \<Rightarrow> decode_content_body D b (header_get (cq_headers rq) ''Content-Encoding'') max_module_http_body))
      in map_sum id (\<lambda>b. \<lparr>mg_url = (if cq_https rq then ''https'' else ''http'') @ ''://'' @ host @ cq_uri rq,
           mg_method = cq_method rq, mg_headers = strip_content h, mg_trailers = [], mg_body = b, mg_status = 0\<rparr>) body)"

text \<open>Matching looks at the URL, the method and the status of a message only.\<close>

definition outbound_of :: "client_request \<Rightarrow> script_message \<Rightarrow> prepared" where
  "outbound_of rq msg = (case url_parse (mg_url msg) of
     None \<Rightarrow> FailedWith ''url''
   | Some u \<Rightarrow> Forward \<lparr>ob_url = u, ob_method = cq_method rq,
        ob_headers = header_set ''Accept-Encoding'' ''identity'' (sanitize_forward_request_headers (mg_headers msg)),
        ob_body = (if mg_body msg = [] \<and> cq_body rq = None then None else Some (mg_body msg))\<rparr>)"

definition prepare_module_request ::
    "icp_lib \<Rightarrow> content_lib \<Rightarrow> 'w script_runner \<Rightarrow> icp_config \<Rightarrow> client_request \<Rightarrow> string \<Rightarrow> 'w \<Rightarrow> prepared \<times> 'w" where
  "prepare_module_request L D run c rq host w = (case exported_string_slice_headers (cq_headers rq) of
     Inl e \<Rightarrow> (FailedWith e, w)
   | Inr h \<Rightarrow> (case request_message D rq host h of
       Inl e \<Rightarrow> (FailedWith e, w)
     | Inr msg \<Rightarrow> (case run_request_actions run c (cq_method rq) (matching_script_rules L c ''request'' msg) msg w of
         (Inl out, w') \<Rightarrow> (out, w')
       | (Inr msg', w') \<Rightarrow> (outbound_of rq msg', w'))))"

section \<open>The response\<close>

record upstream_response =
  up_status :: int
  up_headers :: headers
  up_trailers :: headers
  up_body :: "failure + string"

record transformed_response =
  tr_status :: int
  tr_headers :: headers
  tr_trailers :: headers
  tr_body :: string

datatype transformed = Untouched | Transformed transformed_response | AbortResponse | BadResponse failure

definition apply_response_result :: "script_message \<Rightarrow> script_result \<Rightarrow> transformed + script_message" where
  "apply_response_result msg r =
     (if sr_abort r then Inl AbortResponse
      else if sr_changed_url r then Inl (BadResponse ''response action attempted an unsupported URL mutation'')
      else Inr (msg\<lparr>mg_headers := (if sr_changed_headers r then sr_headers r else mg_headers msg),
              mg_trailers := (if sr_changed_trailers r then sr_trailers r else mg_trailers msg),
              mg_body := (if sr_changed_body r then sr_body r else mg_body msg),
              mg_status := (if sr_changed_status r then sr_status r else mg_status msg)\<rparr>))"

fun run_response_actions ::
    "'w script_runner \<Rightarrow> script_message \<Rightarrow> (routing_rule ext_module \<times> script_rule) list \<Rightarrow> script_message \<Rightarrow> 'w \<Rightarrow>
       (transformed + script_message) \<times> 'w" where
  "run_response_actions run req [] msg w = (Inr msg, w)"
| "run_response_actions run req ((m, r) # rules) msg w =
     (if too_long_for r (mg_body msg) then (Inl (BadResponse ''response body exceeds action limit''), w)
      else (case execute_action run m r req (Some msg) w of
         (Inl e, w') \<Rightarrow> (Inl (BadResponse e), w')
       | (Inr result, w') \<Rightarrow> (case apply_response_result msg result of
            Inl out \<Rightarrow> (Inl out, w')
          | Inr msg' \<Rightarrow> run_response_actions run req rules msg' w')))"

definition response_limit :: "(routing_rule ext_module \<times> script_rule) list \<Rightarrow> int" where
  "response_limit rules = min (int max_module_http_body)
     (fold (\<lambda>(m, r) limit. if sc_max_body_bytes r > limit then sc_max_body_bytes r else limit) rules 1024)"

text \<open>The message the response actions start from.\<close>

definition response_message ::
    "content_lib \<Rightarrow> outbound_request \<Rightarrow> upstream_response \<Rightarrow> nat \<Rightarrow> failure + script_message" where
  "response_message D rq up limit = (case exported_string_slice_headers (up_headers up) of
     Inl e \<Rightarrow> Inl e
   | Inr h \<Rightarrow> (case read_bounded (up_body up) limit of
       Inl e \<Rightarrow> Inl e
     | Inr b \<Rightarrow>
        let encoding = (if header_get h ''Content-Encoding'' = [] \<and> is_gzip b then ''gzip'' else header_get h ''Content-Encoding'') in
        (case decode_content_body D b encoding limit of
           Inl e \<Rightarrow> Inl e
         | Inr body \<Rightarrow> (case exported_peer_trailers (up_trailers up) of
             Inl e \<Rightarrow> Inl e
           | Inr t \<Rightarrow> Inr \<lparr>mg_url = url_string (ob_url rq), mg_method = ob_method rq, mg_headers = strip_content h,
                 mg_trailers = t, mg_body = body, mg_status = up_status up\<rparr>))))"

definition transform_module_response ::
    "icp_lib \<Rightarrow> content_lib \<Rightarrow> 'w script_runner \<Rightarrow> icp_config \<Rightarrow> outbound_request \<Rightarrow> upstream_response \<Rightarrow> 'w \<Rightarrow>
       transformed \<times> 'w" where
  "transform_module_response L D run c rq up w =
     (let req = \<lparr>mg_url = url_string (ob_url rq), mg_method = ob_method rq, mg_headers = ob_headers rq, mg_trailers = [],
            mg_body = [], mg_status = 0\<rparr>;
          rules = matching_script_rules L c ''response'' (req\<lparr>mg_status := up_status up, mg_headers := up_headers up\<rparr>)
      in if rules = [] then (Untouched, w)
         else case response_message D rq up (nat (response_limit rules)) of
           Inl e \<Rightarrow> (BadResponse e, w)
         | Inr msg \<Rightarrow> (case run_response_actions run req rules msg w of
             (Inl out, w') \<Rightarrow> (out, w')
           | (Inr msg', w') \<Rightarrow> (Transformed \<lparr>tr_status = mg_status msg',
                tr_headers = strip_content (remove_hop_by_hop_headers (mg_headers msg')),
                tr_trailers = mg_trailers msg', tr_body = mg_body msg'\<rparr>, w')))"

section \<open>The exchange\<close>

definition write_streaming_proxy_response ::
    "headers \<Rightarrow> nat \<Rightarrow> string \<Rightarrow> upstream_response \<Rightarrow> nat \<Rightarrow> headers \<Rightarrow> failure + written_response" where
  "write_streaming_proxy_response w down_major http_method up up_major final_trailers =
     (case exported_string_slice_headers (up_headers up) of
        Inl e \<Rightarrow> Inl e
      | Inr h \<Rightarrow> (case exported_peer_trailers (up_trailers up) of
          Inl e \<Rightarrow> Inl e
        | Inr early \<Rightarrow>
          let can = response_can_have_body http_method (up_status up) in
          if response_trailer_names early \<noteq> [] \<and> \<not> can then Inl ''response trailers require a response body section''
          else let (h1, names) = declare_response_trailers (copy_response_headers w h) early;
                   h2 = (if down_major = 1 \<and> up_major \<ge> 2 \<and> can then header_del ''Content-Length'' h1 else h1)
               in (case up_body up of
                  Inl e \<Rightarrow> Inl e
                | Inr b \<Rightarrow> (case exported_peer_trailers final_trailers of
                    Inl e \<Rightarrow> Inl e
                  | Inr late \<Rightarrow>
                     if response_trailer_names late \<noteq> [] \<and> \<not> can then Inl ''response trailers require a response body section''
                     else Inr \<lparr>wr_status = up_status up, wr_headers = h2, wr_body = b,
                            wr_final = publish_response_trailers h2 late names\<rparr>))))"

text \<open>
  \<open>ServeHTTP\<close>. The upstream is a function of the request and the world: the response, its protocol and the
  trailers after its body. The body slots are a counter, \<open>None\<close> when there is no limit; a panic with
  \<open>ErrAbortHandler\<close> still runs the deferred releases.
\<close>

datatype served = HttpError int | Replied written_response | AbortedExchange

type_synonym 'w upstream = "outbound_request \<Rightarrow> 'w \<Rightarrow> (failure + upstream_response \<times> nat \<times> headers) \<times> 'w"

definition acquire_body_slot :: "nat option \<Rightarrow> nat option option" where
  "acquire_body_slot slots = (case slots of None \<Rightarrow> Some None | Some 0 \<Rightarrow> None | Some (Suc n) \<Rightarrow> Some (Some n))"

definition release_body_slot :: "nat option \<Rightarrow> nat option" where
  "release_body_slot slots = map_option Suc slots"

definition deferred_release :: "bool \<Rightarrow> nat option \<Rightarrow> nat option" where
  "deferred_release held slots = (if held then release_body_slot slots else slots)"

definition reply :: "failure + written_response \<Rightarrow> served" where
  "reply r = (case r of Inl e \<Rightarrow> AbortedExchange | Inr wr \<Rightarrow> Replied wr)"

definition finish_response ::
    "icp_lib \<Rightarrow> content_lib \<Rightarrow> 'w script_runner \<Rightarrow> icp_config \<Rightarrow> client_request \<Rightarrow> nat \<Rightarrow> outbound_request \<Rightarrow>
       upstream_response \<times> nat \<times> headers \<Rightarrow> 'w \<Rightarrow> served \<times> 'w" where
  "finish_response L D run c rq down_major ob from_up w = (case from_up of (up, up_major, late) \<Rightarrow>
     (case transform_module_response L D run c ob up w of
        (BadResponse e, w') \<Rightarrow> (HttpError 502, w')
      | (AbortResponse, w') \<Rightarrow> (AbortedExchange, w')
      | (Transformed t, w') \<Rightarrow>
          (reply (write_buffered_module_response [] (cq_method rq) (tr_status t) (tr_headers t) (tr_trailers t) (tr_body t)), w')
      | (Untouched, w') \<Rightarrow> (reply (write_streaming_proxy_response [] down_major (cq_method rq) up up_major late), w')))"

definition response_probe :: "outbound_request \<Rightarrow> upstream_response \<Rightarrow> script_message" where
  "response_probe ob up = \<lparr>mg_url = url_string (ob_url ob), mg_method = ob_method ob, mg_headers = up_headers up, mg_trailers = [],
     mg_body = [], mg_status = up_status up\<rparr>"

text \<open>The handler's path from the outbound request on, with the slots it holds already.\<close>

definition serve_response ::
    "icp_lib \<Rightarrow> content_lib \<Rightarrow> 'w script_runner \<Rightarrow> 'w upstream \<Rightarrow> icp_config \<Rightarrow> client_request \<Rightarrow> nat \<Rightarrow> bool \<Rightarrow>
       outbound_request \<Rightarrow> 'w \<Rightarrow> nat option \<Rightarrow> served \<times> 'w \<times> nat option" where
  "serve_response L D run upstream c rq down_major held ob w slots = (case upstream ob w of
     (Inl e, w') \<Rightarrow> (HttpError 502, w', slots)
   | (Inr (up, up_major, late), w') \<Rightarrow>
       let need = (\<not> held \<and> matching_script_rules L c ''response'' (response_probe ob up) \<noteq> [])
       in case (if need then acquire_body_slot slots else Some slots) of
            None \<Rightarrow> (HttpError 503, w', slots)
          | Some slots' \<Rightarrow>
              let (out, w'') = finish_response L D run c rq down_major ob (up, up_major, late) w'
              in (out, w'', deferred_release need slots'))"

definition serve_http ::
    "icp_lib \<Rightarrow> content_lib \<Rightarrow> 'w script_runner \<Rightarrow> 'w upstream \<Rightarrow> icp_config option \<Rightarrow> client_request \<Rightarrow> string \<Rightarrow> nat \<Rightarrow> bool \<Rightarrow>
       'w \<Rightarrow> nat option \<Rightarrow> served \<times> 'w \<times> nat option" where
  "serve_http L D run upstream current rq raw_host down_major has_payload w slots =
     (case current of
        None \<Rightarrow> (HttpError 503, w, slots)
      | Some c \<Rightarrow>
         let host = canonical_host raw_host in
         if \<not> active_intercept_host c host then (HttpError 421, w, slots)
         else case (if has_payload then acquire_body_slot slots else Some slots) of
            None \<Rightarrow> (HttpError 503, w, slots)
          | Some slots' \<Rightarrow> (case prepare_module_request L D run c rq host w of
               (Answered wr, w') \<Rightarrow> (Replied wr, w', deferred_release has_payload slots')
             | (AbortHandler, w') \<Rightarrow> (AbortedExchange, w', deferred_release has_payload slots')
             | (FailedWith e, w') \<Rightarrow> (HttpError 502, w', deferred_release has_payload slots')
             | (Forward ob, w') \<Rightarrow>
                 let (out, w'', slots'') = serve_response L D run upstream c rq down_major has_payload ob w' slots'
                 in (out, w'', deferred_release has_payload slots'')))"

section \<open>Which scripts see a request\<close>

text \<open>A runner that keeps a record of the calls made to it.\<close>

type_synonym script_call = "routing_rule ext_module \<times> script_rule \<times> script_message \<times> script_message option"

definition logged :: "'w script_runner \<Rightarrow> ('w \<times> script_call list) script_runner" where
  "logged run m r msg resp s = (let (result, w) = run m r msg resp (fst s) in (result, (w, snd s @ [(m, r, msg, resp)])))"

text \<open>
  What an action of extension \<open>m\<close> may do to the URL of the request: leave it, or rewrite it as
  \<open>authorizeModuleRequestURLRewriteConfig\<close> accepts for that extension and that current URL. The calls
  of an exchange: each action sees the URL the ones before it left, which its own extension may act on.
\<close>

definition action_rewrite :: "icp_config \<Rightarrow> routing_rule ext_module \<Rightarrow> string \<Rightarrow> string \<Rightarrow> bool" where
  "action_rewrite c m a b \<longleftrightarrow> b = a \<or> (\<exists>raw u. authorize_request_url_rewrite c m a raw = Inr u \<and> b = url_string u)"

fun authorised_path :: "icp_config \<Rightarrow> (routing_rule ext_module \<times> script_rule) list \<Rightarrow> string \<Rightarrow> string \<Rightarrow> bool" where
  "authorised_path c [] a b \<longleftrightarrow> b = a"
| "authorised_path c ((m, r) # rules) a b \<longleftrightarrow>
     authorize_request_action_url c m a = None \<and> (\<exists>u. action_rewrite c m a u \<and> authorised_path c rules u b)"

fun confined_calls :: "icp_config \<Rightarrow> string \<Rightarrow> script_call list \<Rightarrow> bool" where
  "confined_calls c url [] \<longleftrightarrow> True"
| "confined_calls c url ((m, r, msg, resp) # calls) \<longleftrightarrow>
     resp = None \<and> mg_url msg = url \<and> authorize_request_action_url c m url = None \<and> \<not> too_long_for r (mg_body msg) \<and>
     (\<exists>u. action_rewrite c m url u \<and> confined_calls c u calls)"

definition action_of :: "script_call \<Rightarrow> routing_rule ext_module \<times> script_rule" where
  "action_of call = (case call of (m, r, _, _) \<Rightarrow> (m, r))"

lemma action_rewriteI [intro, simp]:
  "action_rewrite c m a a" "authorize_request_url_rewrite c m a raw = Inr u \<Longrightarrow> action_rewrite c m a (url_string u)"
  by (auto simp: action_rewrite_def)

lemma apply_request_result_url:
  assumes "apply_request_result c m hm msg r = Inr msg'"
  shows "action_rewrite c m (mg_url msg) (mg_url msg')"
  using assms unfolding apply_request_result_def
  by (auto simp: map_sum_Inr split: if_splits sum.splits)

lemma run_request_actions_log:
  assumes "run_request_actions (logged run) c hm rules msg (w, made0) = (res, (w', made))"
  shows "\<exists>calls rest. made = made0 @ calls \<and> rules = map action_of calls @ rest \<and> confined_calls c (mg_url msg) calls"
  using assms
proof (induction rules arbitrary: msg w made0)
  case (Cons a rules)
  obtain m r where a: "a = (m, r)" by (cases a)
  show ?case
  proof (cases "authorize_request_action_url c m (mg_url msg) \<noteq> None \<or> too_long_for r (mg_body msg)")
    case True
    then show ?thesis using Cons.prems by (auto simp: a split: option.splits)
  next
    case False
    obtain result w1 where run: "run m r msg None w = (result, w1)" by fastforce
    let ?call = "(m, r, msg, None)"
    have ex: "execute_action (logged run) m r msg None (w, made0) =
        (case result of Inl e \<Rightarrow> Inl e | Inr v \<Rightarrow> parse_native_script_result v False, (w1, made0 @ [?call]))"
      by (simp add: execute_action_def logged_def run split: sum.splits)
    consider (stop) "made = made0 @ [?call]"
      | (go) sr msg' where "apply_request_result c m hm msg sr = Inr msg'"
          "run_request_actions (logged run) c hm rules msg' (w1, made0 @ [?call]) = (res, (w', made))"
      using Cons.prems False by (auto simp: a ex split: sum.splits)
    then show ?thesis
    proof cases
      case stop
      have "confined_calls c (mg_url msg) [?call]" using False by (auto simp: action_rewrite_def)
      with stop have "made = made0 @ [?call] \<and> a # rules = map action_of [?call] @ rules \<and> confined_calls c (mg_url msg) [?call]"
        by (simp add: a action_of_def)
      then show ?thesis by blast
    next
      case go
      from Cons.IH [OF go(2)] obtain calls rest where i: "made = (made0 @ [?call]) @ calls"
        "rules = map action_of calls @ rest" "confined_calls c (mg_url msg') calls" by blast
      then have "confined_calls c (mg_url msg) (?call # calls)"
        using False apply_request_result_url [OF go(1)] by auto
      then have "made = made0 @ (?call # calls) \<and> a # rules = map action_of (?call # calls) @ rest \<and>
          confined_calls c (mg_url msg) (?call # calls)"
        using i by (simp add: a action_of_def)
      then show ?thesis by blast
    qed
  qed
qed simp

lemma run_request_actions_url:
  "run_request_actions run c hm rules msg w = (Inr msg', w') \<Longrightarrow> authorised_path c rules (mg_url msg) (mg_url msg')"
proof (induction run c hm rules msg w rule: run_request_actions.induct)
  case (2 run c hm m r rules msg w)
  then obtain sr w1 msg1 where "execute_action run m r msg None w = (Inr sr, w1)"
    and a: "apply_request_result c m hm msg sr = Inr msg1" and "run_request_actions run c hm rules msg1 w1 = (Inr msg', w')"
    and "authorize_request_action_url c m (mg_url msg) = None" "\<not> too_long_for r (mg_body msg)"
    by (auto split: option.splits if_splits prod.splits sum.splits)
  then show ?case using 2 apply_request_result_url [OF a] by auto
qed simp

text \<open>The URL the client asked for, as the actions are matched against it.\<close>

definition request_url :: "client_request \<Rightarrow> string \<Rightarrow> string" where
  "request_url rq host = (if cq_https rq then ''https'' else ''http'') @ ''://'' @ host @ cq_uri rq"

lemma request_message_url: "request_message D rq host h = Inr msg \<Longrightarrow> mg_url msg = request_url rq host \<and> mg_method msg = cq_method rq \<and> mg_status msg = 0"
  by (auto simp: request_message_def request_url_def map_sum_Inr Let_def)

lemma matching_cong:
  "mg_url a = mg_url b \<Longrightarrow> mg_method a = mg_method b \<Longrightarrow> mg_status a = mg_status b \<Longrightarrow>
   matching_script_rules L c phase a = matching_script_rules L c phase b"
proof -
  assume e: "mg_url a = mg_url b" "mg_method a = mg_method b" "mg_status a = mg_status b"
  then have r: "rule_matches L phase a = rule_matches L phase b" by (intro ext) (simp add: rule_matches_def)
  show ?thesis unfolding matching_script_rules_def r e(1) ..
qed

definition probe :: "client_request \<Rightarrow> string \<Rightarrow> script_message" where
  "probe rq host = \<lparr>mg_url = request_url rq host, mg_method = cq_method rq, mg_headers = [], mg_trailers = [], mg_body = [], mg_status = 0\<rparr>"

lemma matching_request:
  "request_message D rq host h = Inr msg \<Longrightarrow> matching_script_rules L c ''request'' msg = matching_script_rules L c ''request'' (probe rq host)"
  by (rule matching_cong) (auto dest!: request_message_url simp: probe_def)

text \<open>C2: whatever the scripts do, the request actions that are run are the first of those matching the
  client's request, in execution order. The first is called with the URL the client asked for, and each
  later one with the URL the one before it saw or with a rewrite of it that
  \<open>authorizeModuleRequestURLRewriteConfig\<close> accepted for that action's own extension; each is called
  only when its extension captures or declares the origin of the URL it is called with, and with a body
  within the action's limit.
\<close>

theorem request_actions_confined:
  assumes "prepare_module_request L D (logged run) c rq host (w, []) = (out, (w', made))"
  shows "\<exists>rest. matching_script_rules L c ''request'' (probe rq host) = map action_of made @ rest \<and>
    confined_calls c (request_url rq host) made"
proof -
  consider (early) "made = []"
    | (run) h msg res where "request_message D rq host h = Inr msg"
        "run_request_actions (logged run) c (cq_method rq) (matching_script_rules L c ''request'' msg) msg (w, []) = (res, (w', made))"
    using assms by (fastforce simp: prepare_module_request_def split: sum.splits prod.splits)
  then show ?thesis
  proof cases
    case run
    from run_request_actions_log [OF run(2)] matching_request [OF run(1)] request_message_url [OF run(1)]
    show ?thesis by auto
  qed simp
qed

section \<open>Headers along the pipeline\<close>

text \<open>Fields that may be written: a header of net/http, and no value with a line break.\<close>

definition wire_ok :: "headers \<Rightarrow> bool" where
  "wire_ok h \<longleftrightarrow> header_ok h \<and> list_all (\<lambda>(n, vs). good_values vs) h"

lemma header_safe_wire: "header_safe h \<Longrightarrow> wire_ok h"
  by (force simp: header_safe_def wire_ok_def good_values_def list_all_iff)

lemma wire_delete: "wire_ok h \<Longrightarrow> wire_ok (AList.delete k h)"
proof -
  assume w: "wire_ok h"
  have "set (AList.delete k h) \<subseteq> set h" by (auto simp: AList.delete_eq)
  then show ?thesis
    using w distinct_map_fst_delete [of h k] by (fastforce simp: wire_ok_def header_ok_def list_all_iff)
qed

lemma wire_update:
  "wire_ok h \<Longrightarrow> valid_header_name k \<Longrightarrow> canonical_header_key k = k \<Longrightarrow> good_values vs \<Longrightarrow> wire_ok (AList.update k vs h)"
proof -
  assume a: "wire_ok h" "valid_header_name k" "canonical_header_key k = k" "good_values vs"
  have "set (AList.update k vs h) \<subseteq> insert (k, vs) (set h)" by (induction h) auto
  then show ?thesis
    using a by (fastforce simp: wire_ok_def header_ok_def list_all_iff distinct_update)
qed

lemma wire_del: "wire_ok h \<Longrightarrow> wire_ok (header_del k h)"
  by (simp add: header_del_def wire_delete)

lemma wire_set: "wire_ok h \<Longrightarrow> valid_header_name k \<Longrightarrow> good_values [v] \<Longrightarrow> wire_ok (header_set k v h)"
  by (simp add: header_set_def wire_update)

lemma wire_fold_del: "wire_ok h \<Longrightarrow> wire_ok (fold header_del ds h)"
  by (induction ds arbitrary: h) (simp_all add: wire_del)

lemma wire_strip: "wire_ok h \<Longrightarrow> wire_ok (strip_content h)"
  by (simp add: strip_content_def wire_del)

lemma wire_hop: "wire_ok h \<Longrightarrow> wire_ok (remove_hop_by_hop_headers h)"
  by (simp add: remove_hop_by_hop_headers_def Let_def wire_fold_del)

lemma constant_fields:
  "valid_header_name ''Te''" "good_values [''trailers'']" "valid_header_name ''Accept-Encoding''" "good_values [''identity'']"
  by code_simp+

lemma wire_sanitize: "wire_ok h \<Longrightarrow> wire_ok (sanitize_forward_request_headers h)"
  by (simp add: sanitize_forward_request_headers_def Let_def wire_set wire_hop constant_fields)

lemma wire_normalize: "normalize_request_te_header h = Inr h' \<Longrightarrow> wire_ok h \<Longrightarrow> wire_ok h'"
  by (auto simp: normalize_request_te_header_def wire_set wire_delete constant_fields split: list.splits prod.splits if_splits)

lemma wire_patch: "validate_native_patch_headers h responding = Inr h' \<Longrightarrow> wire_ok h \<Longrightarrow> wire_ok h'"
  by (auto simp: validate_native_patch_headers_def dest: wire_normalize split: sum.splits if_splits)

lemma exported_trailers_safe: "exported_trailers v = Inr t \<Longrightarrow> wire_ok t"
  by (auto simp: exported_trailers_def dest!: only_trailers_Inr exported_headers_safe header_safe_wire)

text \<open>What the parser of a script's result lets through.\<close>

definition result_ok :: "script_result \<Rightarrow> bool" where
  "result_ok r \<longleftrightarrow> wire_ok (sr_headers r) \<and> wire_ok (sr_trailers r)"

lemma wire_ok_Nil [simp]: "wire_ok []"
  by (simp add: wire_ok_def header_ok_def)

lemma when_field_ok:
  "when_field fs key step r = Inr s' \<Longrightarrow> (\<And>s. r = Inr s \<Longrightarrow> P s) \<Longrightarrow> (\<And>v s s1. step v s = Inr s1 \<Longrightarrow> P s \<Longrightarrow> P s1) \<Longrightarrow> P s'"
  by (auto simp: when_field_def split: sum.splits option.splits)

lemma apply_native_patch_ok:
  assumes "apply_native_patch r raw responding = Inr r'" "result_ok r"
  shows "result_ok r'"
proof (cases raw)
  case (JsObject fs)
  note patch = assms(1) [unfolded apply_native_patch_def JsObject js.case]
  note steps = result_ok_def map_sum_Inr
  show ?thesis
    using patch assms(2)
    apply (simp only: split: if_splits)
     apply simp
    apply (elim when_field_ok [where P = result_ok])
         apply (simp_all split: if_splits option.splits sum.splits js.splits add: steps)
    by (auto dest: wire_patch exported_headers_safe [THEN header_safe_wire] exported_trailers_safe)
qed (use assms(1) in \<open>simp_all add: apply_native_patch_def\<close>)

text \<open>Every body slot is given back, whether the exchange succeeds, fails or is aborted by a script.\<close>

lemma acquire_release: "acquire_body_slot slots = Some slots' \<Longrightarrow> release_body_slot slots' = slots"
  by (auto simp: acquire_body_slot_def release_body_slot_def split: option.splits nat.splits)

lemma serve_response_slots: "snd (snd (serve_response L D run up c rq dm held ob w slots)) = slots"
  by (auto simp: serve_response_def Let_def deferred_release_def acquire_release split: prod.splits sum.splits option.splits if_splits)

text \<open>C24: an exchange ends with as many free body slots as it began with, on every path: refused, answered by
  a script, forwarded, failed, or aborted.
\<close>

theorem body_slots_returned:
  "snd (snd (serve_http L D run up current rq raw_host dm payload w slots)) = slots"
proof (cases current)
  case (Some c)
  show ?thesis
    using serve_response_slots [of L D run up c rq dm payload]
    by (auto simp: serve_http_def Some Let_def deferred_release_def acquire_release
        split: prepared.splits prod.splits option.splits if_splits) (metis acquire_release snd_conv)+
qed (simp add: serve_http_def)

lemma parse_result_ok:
  assumes "parse_native_script_result v phase = Inr r"
  shows "result_ok r"
proof (cases v)
  case (JsObject fs)
  have no: "result_ok no_result" by (simp add: result_ok_def no_result_def)
  from assms obtain r0 where r0: "when_field fs ''abort'' (\<lambda>v r. case v of JsBool b \<Rightarrow> Inr (r\<lparr>sr_abort := b\<rparr>)
        | _ \<Rightarrow> Inl ''transform.abort must be a boolean'') (Inr no_result) = Inr r0"
    and r: "when_field fs ''response'' (\<lambda>v r. map_sum id (\<lambda>r'. r'\<lparr>sr_synthetic := \<not> phase\<rparr>) (apply_native_patch r v True))
                  (when_field fs ''request'' (\<lambda>v r. apply_native_patch r v False) (Inr r0)) = Inr r"
    by (auto simp: parse_native_script_result_def JsObject Let_def split: if_splits sum.splits)
  have "result_ok r0"
    using r0 by (rule when_field_ok) (use no in \<open>auto simp: result_ok_def split: js.splits\<close>)
  show ?thesis
    using r
  proof (rule when_field_ok)
    show "result_ok s" if "when_field fs ''request'' (\<lambda>v r. apply_native_patch r v False) (Inr r0) = Inr s" for s
      using that by (rule when_field_ok) (use \<open>result_ok r0\<close> apply_native_patch_ok in auto)
    show "result_ok s1" if "map_sum id (\<lambda>r'. r'\<lparr>sr_synthetic := \<not> phase\<rparr>) (apply_native_patch s v True) = Inr s1" "result_ok s" for v s s1
      using that apply_native_patch_ok [of s v True] by (auto simp: map_sum_Inr) (auto simp: result_ok_def)
  qed
qed (use assms in \<open>auto simp: parse_native_script_result_def result_ok_def no_result_def\<close>)

lemma execute_action_ok: "execute_action run m r msg resp w = (Inr result, w') \<Longrightarrow> result_ok result"
  by (auto simp: execute_action_def parse_result_ok split: prod.splits sum.splits)

lemma run_request_actions_wire:
  "run_request_actions run c hm rules msg w = (Inr msg', w') \<Longrightarrow> wire_ok (mg_headers msg) \<Longrightarrow> wire_ok (mg_headers msg')"
proof (induction run c hm rules msg w rule: run_request_actions.induct)
  case (2 run c hm m r rules msg w)
  then obtain sr w1 msg1 where e: "execute_action run m r msg None w = (Inr sr, w1)"
    and a: "apply_request_result c m hm msg sr = Inr msg1" and "run_request_actions run c hm rules msg1 w1 = (Inr msg', w')"
    and "authorize_request_action_url c m (mg_url msg) = None" "\<not> too_long_for r (mg_body msg)"
    by (auto split: option.splits if_splits prod.splits sum.splits)
  moreover have "wire_ok (mg_headers msg1)"
    using a 2(3) execute_action_ok [OF e] by (auto simp: apply_request_result_def result_ok_def split: if_splits sum.splits)
  ultimately show ?case using 2(1) by simp
qed simp

lemma run_request_actions_no_forward:
  "run_request_actions run c hm rules msg w = (Inl x, w') \<Longrightarrow> x \<noteq> Forward ob"
  by (induction run c hm rules msg w rule: run_request_actions.induct)
    (auto simp: apply_request_result_def split: option.splits if_splits prod.splits sum.splits)

text \<open>A forwarded request: the message the actions started from, the one they left, and what is sent of it.\<close>

lemma forwarded_parts:
  assumes "prepare_module_request L D run c rq host w = (Forward ob, w')"
  obtains h msg msg' where "exported_string_slice_headers (cq_headers rq) = Inr h" "request_message D rq host h = Inr msg"
    "run_request_actions run c (cq_method rq) (matching_script_rules L c ''request'' (probe rq host)) msg w = (Inr msg', w')"
    "url_parse (mg_url msg') = Some (ob_url ob)" "ob_method ob = cq_method rq" "wire_ok h" "wire_ok (mg_headers msg')"
    "mg_url msg = request_url rq host" "mg_headers msg = strip_content h"
    "ob_headers ob = header_set ''Accept-Encoding'' ''identity'' (sanitize_forward_request_headers (mg_headers msg'))"
proof -
  obtain h msg msg' where h: "exported_string_slice_headers (cq_headers rq) = Inr h"
    and m: "request_message D rq host h = Inr msg"
    and r: "run_request_actions run c (cq_method rq) (matching_script_rules L c ''request'' msg) msg w = (Inr msg', w')"
    and o: "outbound_of rq msg' = Forward ob"
    using assms run_request_actions_no_forward [of run c "cq_method rq"]
    by (fastforce simp: prepare_module_request_def split: sum.splits prod.splits)
  have wh: "wire_ok h" by (rule exported_peer_headers_safe [OF h, THEN header_safe_wire])
  have mh: "mg_headers msg = strip_content h" using m by (auto simp: request_message_def Let_def map_sum_Inr)
  have "wire_ok (mg_headers msg')" using run_request_actions_wire [OF r] wh mh by (simp add: wire_strip)
  then show thesis
    using that [OF h m r [unfolded matching_request [OF m]] _ _ wh _ _ mh] o request_message_url [OF m]
    by (auto simp: outbound_of_def split: option.splits)
qed

lemma accept_encoding:
  "canonical_header_key ''Accept-Encoding'' = ''Accept-Encoding''" "\<not> is_hop_by_hop_header ''Accept-Encoding''"
  by code_simp+

text \<open>
  What is forwarded of the header \<open>h\<close> under the name \<open>k\<close>: answers are asked for without an encoding, of
  TE only a lone \<open>trailers\<close> stays, and hop-by-hop fields and those \<open>Connection\<close> names go.
\<close>

definition forwarded_field :: "headers \<Rightarrow> string \<Rightarrow> string list option" where
  "forwarded_field h k =
     (if k = ''Accept-Encoding'' then Some [''identity'']
      else if k = ''Te'' then (if request_te_is_trailers h then Some [''trailers''] else None)
      else if is_hop_by_hop_header k \<or> connection_named h k then None
      else map_of h k)"

lemma map_of_forwarded:
  assumes "wire_ok h"
  shows "map_of (header_set ''Accept-Encoding'' ''identity'' (sanitize_forward_request_headers h)) k = forwarded_field h k"
proof -
  have "header_ok h" using assms by (simp add: wire_ok_def)
  then show ?thesis by (simp add: header_set_def accept_encoding sanitized_field forwarded_field_def)
qed

text \<open>C23: a request that is forwarded goes to the URL the client asked for, changed only by the actions
  that match the client's request, one after the other in execution order: each one's extension captures
  or declares the origin of the URL it found, and left it or rewrote it as authorised for that extension.
  Whatever the scripts returned, its header can be written to a connection, without a line break in any
  field, and carries no hop-by-hop field other than \<open>TE: trailers\<close>.
\<close>

theorem forwarded_request_confined:
  assumes "prepare_module_request L D run c rq host w = (Forward ob, w')"
  shows "(\<exists>url. authorised_path c (matching_script_rules L c ''request'' (probe rq host)) (request_url rq host) url \<and>
      url_parse url = Some (ob_url ob)) \<and>
    ob_method ob = cq_method rq \<and> wire_ok (ob_headers ob) \<and>
    (is_hop_by_hop_header k \<longrightarrow> map_of (ob_headers ob) k = None \<or> k = ''Te'' \<and> map_of (ob_headers ob) k = Some [''trailers''])"
proof (rule forwarded_parts [OF assms])
  fix h msg msg'
  assume r: "run_request_actions run c (cq_method rq) (matching_script_rules L c ''request'' (probe rq host)) msg w = (Inr msg', w')"
    and u: "url_parse (mg_url msg') = Some (ob_url ob)" "ob_method ob = cq_method rq" "mg_url msg = request_url rq host"
    and w: "wire_ok (mg_headers msg')"
    and ob: "ob_headers ob = header_set ''Accept-Encoding'' ''identity'' (sanitize_forward_request_headers (mg_headers msg'))"
  have "wire_ok (ob_headers ob)" unfolding ob by (intro wire_set wire_sanitize w constant_fields)
  moreover have "is_hop_by_hop_header k \<longrightarrow> map_of (ob_headers ob) k = None \<or> k = ''Te'' \<and> map_of (ob_headers ob) k = Some [''trailers'']"
    unfolding ob map_of_forwarded [OF w] using accept_encoding by (auto simp: forwarded_field_def)
  ultimately show ?thesis using u run_request_actions_url [OF r] by auto
qed

lemma map_of_strip_content:
  "map_of (strip_content h) k = (if k \<in> {''Content-Encoding'', ''Content-Length''} then None else map_of h k)"
proof -
  have "canonical_header_key ''Content-Length'' = ''Content-Length''"
    "canonical_header_key ''Content-Encoding'' = ''Content-Encoding''" by code_simp+
  then show ?thesis by (auto simp: strip_content_def header_del_def)
qed

lemma forwarded_field_strip:
  assumes "wire_ok h" "header_ok p" "map_of h = map_of p"
  shows "forwarded_field (strip_content h) k = (if k \<in> {''Content-Encoding'', ''Content-Length''} then None else forwarded_field p k)"
proof -
  have ne: "''Te'' \<notin> {''Content-Encoding'', ''Content-Length''}" "''Connection'' \<notin> {''Content-Encoding'', ''Content-Length''}"
    "''Accept-Encoding'' \<notin> {''Content-Encoding'', ''Content-Length''}" by simp_all
  have "map_of (strip_content h) ''Te'' = map_of p ''Te''" "map_of (strip_content h) ''Connection'' = map_of p ''Connection''"
    unfolding map_of_strip_content using ne assms(3) by simp_all
  moreover have "header_ok (strip_content h)" using wire_strip [OF assms(1)] by (simp add: wire_ok_def)
  ultimately have "request_te_is_trailers (strip_content h) = request_te_is_trailers p"
    "connection_named (strip_content h) k = connection_named p k"
    using request_te_cong [of "strip_content h" p] connection_named_cong [of "strip_content h" p] assms(2) by auto
  then show ?thesis using assms(3) by (auto simp: forwarded_field_def map_of_strip_content)
qed

text \<open>C25: the header \<open>prepareModuleRequest\<close> forwards, field by field. The first action is shown the
  client's header without \<open>Content-Encoding\<close> and \<open>Content-Length\<close>, every other field as the client sent
  it; what is forwarded is the header the last action left, with \<open>Accept-Encoding: identity\<close>, with
  \<open>TE: trailers\<close> only when that is all it says about TE, without the other hop-by-hop fields and without
  the fields its \<open>Connection\<close> header names, and with every other field as it is. When no action matches, that
  is the client's own header.
\<close>

theorem forwarded_header_fields:
  assumes "prepare_module_request L D run c rq host w = (Forward ob, w')" "header_ok (cq_headers rq)"
  shows "(\<exists>h msg msg'. request_message D rq host h = Inr msg \<and>
      run_request_actions run c (cq_method rq) (matching_script_rules L c ''request'' (probe rq host)) msg w = (Inr msg', w') \<and>
      (\<forall>k. map_of (mg_headers msg) k = (if k \<in> {''Content-Encoding'', ''Content-Length''} then None else map_of (cq_headers rq) k)) \<and>
      (\<forall>k. map_of (ob_headers ob) k = forwarded_field (mg_headers msg') k)) \<and>
    (matching_script_rules L c ''request'' (probe rq host) = [] \<longrightarrow>
      (\<forall>k. map_of (ob_headers ob) k =
         (if k \<in> {''Content-Encoding'', ''Content-Length''} then None else forwarded_field (cq_headers rq) k)))"
proof (rule forwarded_parts [OF assms(1)])
  fix h msg msg'
  assume h: "exported_string_slice_headers (cq_headers rq) = Inr h" "wire_ok h"
    and m: "request_message D rq host h = Inr msg" "mg_headers msg = strip_content h"
    and r: "run_request_actions run c (cq_method rq) (matching_script_rules L c ''request'' (probe rq host)) msg w = (Inr msg', w')"
    and w: "wire_ok (mg_headers msg')"
    and ob: "ob_headers ob = header_set ''Accept-Encoding'' ''identity'' (sanitize_forward_request_headers (mg_headers msg'))"
  have p: "map_of h = map_of (cq_headers rq)" by (rule exported_peer_map [OF h(1) assms(2)])
  have f: "map_of (ob_headers ob) k = forwarded_field (mg_headers msg') k" for k unfolding ob by (rule map_of_forwarded [OF w])
  have s: "map_of (mg_headers msg) k = (if k \<in> {''Content-Encoding'', ''Content-Length''} then None else map_of (cq_headers rq) k)" for k
    unfolding m(2) map_of_strip_content p ..
  have "map_of (ob_headers ob) k = (if k \<in> {''Content-Encoding'', ''Content-Length''} then None else forwarded_field (cq_headers rq) k)"
    if "matching_script_rules L c ''request'' (probe rq host) = []" for k
  proof -
    have "mg_headers msg' = strip_content h" using r that m(2) by simp
    then show ?thesis unfolding f by (simp only: forwarded_field_strip [OF h(2) assms(2) p])
  qed
  with m(1) r s f show ?thesis by blast
qed

section \<open>The framing of a transformed response\<close>

lemma wire_copy: "wire_ok d \<Longrightarrow> list_all (\<lambda>(n, vs). valid_header_name n \<and> canonical_header_key n = n \<and> good_values vs) xs \<Longrightarrow>
  wire_ok (fold (\<lambda>(name, values) d. if P name then d else AList.update name values d) xs d)"
proof (induction xs arbitrary: d)
  case (Cons a xs)
  then show ?case by (cases a) (simp add: wire_update)
qed simp

lemma wire_copy_response: "wire_ok d \<Longrightarrow> wire_ok s \<Longrightarrow> wire_ok (copy_response_headers d s)"
  unfolding copy_response_headers_def
  by (rule wire_copy) (auto simp: wire_ok_def header_ok_def list_all_iff)

lemma canonical_fields:
  "canonical_header_key ''Content-Length'' = ''Content-Length''" "canonical_header_key ''Content-Encoding'' = ''Content-Encoding''"
  "canonical_header_key ''Trailer'' = ''Trailer''" "\<not> is_hop_by_hop_header ''Content-Length''"
  "\<not> is_hop_by_hop_header ''Content-Encoding''" "is_hop_by_hop_header ''Trailer''"
  by code_simp+

text \<open>a response that was buffered for the actions is framed by what is sent, not by what the upstream said:
  with no trailers the length field is the length of the body and no trailer is announced, with
  trailers they are announced by name and there is no length field; there is no content encoding, no
  hop-by-hop field but the announcement, and no body where the status or the method forbids one.
\<close>

theorem buffered_response_framing:
  assumes "write_buffered_module_response w http_method status h trailers body = Inr wr" "wire_ok w" "wire_ok h"
  shows "wr_status wr = status \<and> wr_body wr = body \<and>
    map_of (wr_headers wr) ''Content-Encoding'' = None \<and>
    map_of (wr_headers wr) ''Content-Length'' =
      (if response_trailer_names trailers = [] then Some [show_nat (length body)] else None) \<and>
    map_of (wr_headers wr) ''Trailer'' =
      (if response_trailer_names trailers = [] then None else Some [join_comma (response_trailer_names trailers)]) \<and>
    (is_hop_by_hop_header k \<and> k \<noteq> ''Trailer'' \<longrightarrow> map_of (wr_headers wr) k = None) \<and>
    (body \<noteq> [] \<or> response_trailer_names trailers \<noteq> [] \<longrightarrow> response_can_have_body http_method status)"
proof -
  let ?c = "copy_response_headers w h" and ?names = "response_trailer_names trailers"
  have "header_ok ?c" using wire_copy_response [OF assms(2,3)] by (simp add: wire_ok_def)
  note hop = map_of_remove_hop_by_hop [OF this]
  have e: "wr = \<lparr>wr_status = status,
      wr_headers = (if ?names = [] then header_set ''Content-Length'' (show_nat (length body))
          (header_del ''Trailer'' (header_del ''Content-Encoding'' (remove_hop_by_hop_headers ?c)))
        else header_set ''Trailer'' (join_comma ?names) (header_del ''Content-Length''
          (header_del ''Trailer'' (header_del ''Content-Encoding'' (remove_hop_by_hop_headers ?c))))),
      wr_body = body, wr_final = wr_final wr\<rparr>"
    using assms(1) by (auto simp: write_buffered_module_response_def declare_response_trailers_def Let_def split: if_splits)
  have body: "body \<noteq> [] \<or> ?names \<noteq> [] \<longrightarrow> response_can_have_body http_method status"
    using assms(1) by (auto simp: write_buffered_module_response_def split: if_splits)
  show ?thesis
    by (subst (1 2 3 4 5 6) e) (auto simp: header_set_def header_del_def hop canonical_fields body)
qed

lemma map_of_publish_other:
  "k \<notin> set names \<Longrightarrow> k \<notin> (\<lambda>n. trailer_prefix @ n) ` set names \<Longrightarrow>
   map_of (fold (\<lambda>name h. AList.update (if name \<in> X then name else trailer_prefix @ name) (f name) h) names h) k = map_of h k"
  by (induction names arbitrary: h) auto

text \<open>Trailer names carry no colon, so an announced name and a prefixed one never meet.\<close>

lemma token_no_colon: "list_all token_byte n \<Longrightarrow> CHR '':'' \<notin> set n"
proof
  assume "list_all token_byte n" "CHR '':'' \<in> set n"
  then have "token_byte (CHR '':'')" by (simp add: list_all_iff)
  moreover have "\<not> token_byte (CHR '':'')" by code_simp
  ultimately show False by simp
qed

lemma trailer_names_tokens: "n \<in> set (response_trailer_names t) \<Longrightarrow> list_all token_byte n \<and> distinct (response_trailer_names t)"
  by (auto simp: response_trailer_names_def valid_response_trailer_name_def valid_header_name_def)

lemma map_of_publish:
  assumes "distinct names" "\<And>n. n \<in> set names \<Longrightarrow> CHR '':'' \<notin> set n" "n \<in> set names"
  shows "map_of (fold (\<lambda>name h. AList.update (if name \<in> X then name else trailer_prefix @ name) (f name) h) names h)
     (if n \<in> X then n else trailer_prefix @ n) = Some (f n)"
  using assms
proof (induction names arbitrary: h)
  case (Cons a names)
  show ?case
  proof (cases "n = a")
    case True
    have colon: "CHR '':'' \<in> set (trailer_prefix @ x)" for x by (simp add: trailer_prefix_def)
    have clean: "CHR '':'' \<notin> set x" if "x = n \<or> x \<in> set names" for x
      using Cons.prems(2,3) that by auto
    have "trailer_prefix @ x \<noteq> n \<and> trailer_prefix @ x \<notin> set names" for x
      using colon [of x] clean by metis
    then have "(if n \<in> X then n else trailer_prefix @ n) \<notin> set names"
      "(if n \<in> X then n else trailer_prefix @ n) \<notin> (\<lambda>n. trailer_prefix @ n) ` set names"
      using Cons.prems(1) True by (auto split: if_splits)
    from map_of_publish_other [OF this, of X f "AList.update (if n \<in> X then n else trailer_prefix @ n) (f n) h"]
    show ?thesis unfolding True [symmetric] by (simp split del: if_split)
  next
    case False
    then show ?thesis using Cons by simp
  qed
qed simp

text \<open>every trailer a script or the upstream set, under any spelling of its name, reaches the client with all its
  values: in the field announced before the body, or under the trailer prefix when it was not announced.
\<close>

theorem trailers_published:
  assumes "n \<in> set (response_trailer_names trailers)"
  shows "map_of (publish_response_trailers h trailers announced) (if n \<in> set announced then n else trailer_prefix @ n) =
    Some (concat (map snd (filter (\<lambda>(name, _). equal_fold name n) trailers)))"
  unfolding publish_response_trailers_def response_trailer_values_def [symmetric]
  by (rule map_of_publish) (use assms trailer_names_tokens token_no_colon in auto)

section \<open>Examples\<close>

definition ex_content_lib :: content_lib where
  "ex_content_lib = \<lparr>cl_gzip = (\<lambda>s. None), cl_zlib = (\<lambda>s. None), cl_flate = (\<lambda>s. None), cl_brotli = (\<lambda>s. None)\<rparr>"

text \<open>A script that moves every request to an origin its extension declares.\<close>

definition ex_runner :: "unit script_runner" where
  "ex_runner m r msg resp w = (Inr (JsObject [(''request'', JsObject [(''url'', JsString ''https://api.example.net/z''),
     (''headers'', JsObject [(''te'', JsString ''Trailers''), (''x-a'', JsInt 7)])])]), w)"

definition ex_client_request :: client_request where
  "ex_client_request = \<lparr>cq_https = True, cq_uri = ''/v1/items'', cq_method = ''GET'', cq_headers = [(''Upgrade'', [''h2c''])], cq_body = None\<rparr>"

abbreviation ex_prepared :: "prepared \<times> unit" where
  "ex_prepared \<equiv> prepare_module_request ex_icp_lib ex_content_lib ex_runner ex_config ex_client_request ''a.cdn.example.com'' ()"

lemma ex_prepared_forward:
  "ex_prepared = (Forward \<lparr>ob_url = the (url_parse ''https://api.example.net/z''), ob_method = ''GET'',
     ob_headers = [(''X-A'', [''7'']), (''Te'', [''trailers'']), (''Accept-Encoding'', [''identity''])], ob_body = None\<rparr>, ())"
  by code_simp

text \<open>
  The one matching action takes the request from the client's URL to the other origin, authorised for its
  extension.
\<close>

theorem forwarded_request_confined_witness:
  "(\<exists>url. authorised_path ex_config [(ex_module, ex_script)] ''https://a.cdn.example.com/v1/items'' url \<and>
      url_parse url = url_parse ''https://api.example.net/z'') \<and>
   wire_ok [(''X-A'', [''7'']), (''Te'', [''trailers'']), (''Accept-Encoding'', [''identity''])]"
proof -
  have "request_url ex_client_request ''a.cdn.example.com'' = ''https://a.cdn.example.com/v1/items''"
    "url_parse ''https://api.example.net/z'' = Some (the (url_parse ''https://api.example.net/z''))"
    "matching_script_rules ex_icp_lib ex_config ''request'' (probe ex_client_request ''a.cdn.example.com'') = [(ex_module, ex_script)]"
    by code_simp+
  then show ?thesis using forwarded_request_confined [OF ex_prepared_forward] by simp
qed

text \<open>A request no action matches, with a header that loses four of its fields and gains one.\<close>

definition ex_plain_request :: client_request where
  "ex_plain_request = \<lparr>cq_https = True, cq_uri = ''/other'', cq_method = ''GET'',
     cq_headers = (''Content-Length'', [''0'']) # ex_headers, cq_body = None\<rparr>"

definition ex_plain_outbound :: outbound_request where
  "ex_plain_outbound = (case prepare_module_request ex_icp_lib ex_content_lib ex_runner ex_config ex_plain_request ''b.org'' ()
     of (Forward ob, _) \<Rightarrow> ob)"

theorem forwarded_header_fields_witness:
  "map (map_of (ob_headers ex_plain_outbound))
     [''Accept'', ''Connection'', ''X-Secret'', ''Te'', ''Upgrade'', ''Content-Length'', ''Accept-Encoding''] =
   [Some [''*/*''], None, None, Some [''trailers''], None, None, Some [''identity'']]"
proof -
  let ?p = "prepare_module_request ex_icp_lib ex_content_lib ex_runner ex_config ex_plain_request ''b.org'' ()"
  have "(case ?p of (Forward ob, _) \<Rightarrow> True | _ \<Rightarrow> False)" by code_simp
  then have f: "?p = (Forward ex_plain_outbound, ())"
    unfolding ex_plain_outbound_def by (cases ?p) (auto split: prepared.splits)
  have none: "matching_script_rules ex_icp_lib ex_config ''request'' (probe ex_plain_request ''b.org'') = []" by code_simp
  let ?h = "cq_headers ex_plain_request"
  have cl: "valid_header_name ''Content-Length''" "canonical_header_key ''Content-Length'' = ''Content-Length''"
    "list_ex (\<lambda>(n, _). n = ''Content-Length'') ex_headers = False" by code_simp+
  then have ok: "header_ok ?h" using ex_headers_ok(1) by (auto simp: header_ok_def ex_plain_request_def list_ex_iff)
  have same: "connection_named ?h k = connection_named ex_headers k" for k
    by (rule connection_named_cong) (simp add: ex_plain_request_def)
  have te: "request_te_is_trailers ?h"
    using request_te_cong [OF ok ex_headers_ok(1)] ex_headers_ok(4) by (simp add: ex_plain_request_def)
  have "map_of (ob_headers ex_plain_outbound) k =
      (if k \<in> {''Content-Encoding'', ''Content-Length''} then None else forwarded_field ?h k)" for k
    using forwarded_header_fields [OF f ok] none by blast
  then show ?thesis
    by (simp add: forwarded_field_def same te ex_headers_ok) (simp add: ex_plain_request_def ex_headers_def)
qed

theorem request_actions_confined_witness:
  "\<exists>made. prepare_module_request ex_icp_lib ex_content_lib (logged ex_runner) ex_config ex_client_request ''a.cdn.example.com'' ((), []) =
       (fst ex_prepared, ((), made)) \<and> map action_of made = [(ex_module, ex_script)] \<and>
     confined_calls ex_config ''https://a.cdn.example.com/v1/items'' made"
proof -
  have u: "request_url ex_client_request ''a.cdn.example.com'' = ''https://a.cdn.example.com/v1/items''" by code_simp
  let ?msg = "\<lparr>mg_url = ''https://a.cdn.example.com/v1/items'', mg_method = ''GET'', mg_headers = [(''Upgrade'', [''h2c''])],
      mg_trailers = [], mg_body = [], mg_status = 0\<rparr>"
  have p: "prepare_module_request ex_icp_lib ex_content_lib (logged ex_runner) ex_config ex_client_request ''a.cdn.example.com'' ((), []) =
    (fst ex_prepared, ((), [(ex_module, ex_script, ?msg, None)]))" by code_simp
  show ?thesis using request_actions_confined [OF p] p unfolding u by (auto simp: action_of_def)
qed

theorem buffered_response_framing_witness:
  "write_buffered_module_response [] ''GET'' 200 [(''Content-Length'', [''99'']), (''Upgrade'', [''h2c''])] [] ''body'' =
     Inr \<lparr>wr_status = 200, wr_headers = [(''Content-Length'', [''4''])], wr_body = ''body'', wr_final = [(''Content-Length'', [''4''])]\<rparr> \<and>
   map_of [(''Content-Length'', [''4''])] ''Content-Length'' = Some [show_nat (length ''body'')]"
proof -
  let ?h = "[(''Content-Length'', [''99'']), (''Upgrade'', [''h2c''])]"
  have r: "write_buffered_module_response [] ''GET'' 200 ?h [] ''body'' =
     Inr \<lparr>wr_status = 200, wr_headers = [(''Content-Length'', [''4''])], wr_body = ''body'', wr_final = [(''Content-Length'', [''4''])]\<rparr>"
    by code_simp
  have n: "list_all (\<lambda>(n, vs). valid_header_name n \<and> canonical_header_key n = n) ?h" "response_trailer_names [] = []" by code_simp+
  have g: "good_values [''99'']" "good_values [''h2c'']" by code_simp+
  have w: "wire_ok ?h" using n(1) g by (auto simp: wire_ok_def header_ok_def)
  show ?thesis using buffered_response_framing [OF r wire_ok_Nil w] r n(2) by simp
qed

theorem trailers_published_witness:
  "map_of (publish_response_trailers [] [(''x-sum'', [''1'']), (''X-Sum'', [''2'']), (''x-late'', [''3''])] [''X-Sum'']) ''X-Sum'' = Some [''1'', ''2''] \<and>
   map_of (publish_response_trailers [] [(''x-sum'', [''1'']), (''X-Sum'', [''2'']), (''x-late'', [''3''])] [''X-Sum'']) ''Trailer:X-Late'' = Some [''3'']"
proof -
  let ?t = "[(''x-sum'', [''1'']), (''X-Sum'', [''2'']), (''x-late'', [''3''])]"
  have n: "response_trailer_names ?t = [''X-Late'', ''X-Sum'']" by code_simp
  have f: "concat (map snd (filter (\<lambda>(name, _). equal_fold name ''X-Sum'') ?t)) = [''1'', ''2'']"
    "concat (map snd (filter (\<lambda>(name, _). equal_fold name ''X-Late'') ?t)) = [''3'']"
    "trailer_prefix @ ''X-Late'' = ''Trailer:X-Late''" by code_simp+
  have "''X-Sum'' \<in> set (response_trailer_names ?t)" "''X-Late'' \<in> set (response_trailer_names ?t)" unfolding n by simp_all
  from this [THEN trailers_published, of "[]" "[''X-Sum'']"] show ?thesis unfolding f by (simp add: f(3))
qed

end
