(* ===== verification/Icp_Store.thy ===== *)
theory Icp_Store
  imports Icp_Pipeline
begin

text \<open>
  The storage of the extensions (\<open>module_runtime.go\<close>): \<open>get\<close>, \<open>set\<close>, \<open>delete\<close> and \<open>clear\<close> as a script sees them,
  pruning, loading and saving. Every operation runs under the runtime's lock, so it is one step; whether
  the write of the file succeeds is an argument (the writer itself is \<open>save_persistent\<close> of Atomic_File,
  which replaces the file or leaves it). A nil bucket and an empty one behave alike and are both the
  empty list.
\<close>

type_synonym bucket = "(string, string) go_map"
type_synonym buckets = "(string, bucket) go_map"

text \<open>The file: absent, not a store, or the stored map.\<close>

datatype store_file = NoStore | BadStore | Store buckets

record script_store =
  ss_persistent :: buckets
  ss_has_path :: bool
  ss_module_set :: string
  ss_module_set_ready :: bool
  ss_disk :: store_file

text \<open>\<open>len(json.Marshal(persistent))\<close> is an argument of the definitions that use it.\<close>

type_synonym encoded_size = "buckets \<Rightarrow> nat"

definition max_store_bytes :: nat where "max_store_bytes = 4194304"
definition max_store_keys :: nat where "max_store_keys = 256"
definition max_store_key_bytes :: nat where "max_store_key_bytes = 256"
definition max_store_value_bytes :: nat where "max_store_value_bytes = 65536"

definition save_persistent_locked :: "encoded_size \<Rightarrow> bool \<Rightarrow> script_store \<Rightarrow> bool \<times> script_store" where
  "save_persistent_locked enc io s =
     (if \<not> ss_has_path s then (True, s)
      else if enc (ss_persistent s) > max_store_bytes \<or> \<not> io then (False, s)
      else (True, s\<lparr>ss_disk := Store (ss_persistent s)\<rparr>))"

definition entry_ok :: "string \<times> string \<Rightarrow> bool" where
  "entry_ok kv \<longleftrightarrow> fst kv \<noteq> [] \<and> length (fst kv) \<le> max_store_key_bytes \<and> length (snd kv) \<le> max_store_value_bytes"

definition load_persistent :: "encoded_size \<Rightarrow> script_store \<Rightarrow> bool \<times> script_store" where
  "load_persistent enc s =
     (if \<not> ss_has_path s then (True, s)
      else case ss_disk s of
        Store d \<Rightarrow>
          if enc d > max_store_bytes then (False, s)
          else if list_ex (\<lambda>(m, b). \<not> valid_module_id m \<or> length b > max_store_keys \<or> \<not> list_all entry_ok b) d then (False, s)
          else (True, s\<lparr>ss_persistent := d\<rparr>)
      | _ \<Rightarrow> (False, s))"

text \<open>\<open>newScriptRuntime\<close>: a load that fails leaves the store empty.\<close>

definition new_script_store :: "encoded_size \<Rightarrow> bool \<Rightarrow> store_file \<Rightarrow> script_store" where
  "new_script_store enc has_path disk =
     snd (load_persistent enc \<lparr>ss_persistent = [], ss_has_path = has_path, ss_module_set = [], ss_module_set_ready = False,
       ss_disk = disk\<rparr>)"

definition bucket_of :: "buckets \<Rightarrow> string \<Rightarrow> bucket" where
  "bucket_of p m = (case map_of p m of None \<Rightarrow> [] | Some b \<Rightarrow> b)"

definition storage_get :: "string \<Rightarrow> string \<Rightarrow> script_store \<Rightarrow> string option" where
  "storage_get m key s = map_of (bucket_of (ss_persistent s) m) key"

definition put_bucket :: "string \<Rightarrow> bucket \<Rightarrow> script_store \<Rightarrow> script_store" where
  "put_bucket m b s = s\<lparr>ss_persistent := AList.update m b (ss_persistent s)\<rparr>"

definition storage_set :: "encoded_size \<Rightarrow> bool \<Rightarrow> string \<Rightarrow> string \<Rightarrow> string \<Rightarrow> script_store \<Rightarrow> bool \<times> script_store" where
  "storage_set enc io m key value s =
     (if key = [] \<or> length key > max_store_key_bytes \<or> length value > max_store_value_bytes then (False, s)
      else let bucket = bucket_of (ss_persistent s) m in
        if length bucket \<ge> max_store_keys \<and> map_of bucket key = None then (False, s)
        else let previous = map_of bucket key; changed = AList.update key value bucket in
          case save_persistent_locked enc io (put_bucket m changed s) of
            (True, s') \<Rightarrow> (True, s')
          | (False, s') \<Rightarrow> (False, put_bucket m (case previous of Some v \<Rightarrow> AList.update key v changed
                                                   | None \<Rightarrow> AList.delete key changed) s'))"

text \<open>\<open>delete\<close> of a key in a bucket that does not exist touches nothing.\<close>

definition storage_delete :: "encoded_size \<Rightarrow> bool \<Rightarrow> string \<Rightarrow> string \<Rightarrow> script_store \<Rightarrow> bool \<times> script_store" where
  "storage_delete enc io m key s =
     (let bucket = bucket_of (ss_persistent s) m; previous = map_of bucket key;
          s1 = (if map_of (ss_persistent s) m = None then s else put_bucket m (AList.delete key bucket) s)
      in case save_persistent_locked enc io s1 of
           (True, s') \<Rightarrow> (previous \<noteq> None, s')
         | (False, s') \<Rightarrow> (False, case previous of Some v \<Rightarrow> put_bucket m (AList.update key v (AList.delete key bucket)) s'
                                       | None \<Rightarrow> s'))"

definition storage_clear :: "encoded_size \<Rightarrow> bool \<Rightarrow> string \<Rightarrow> script_store \<Rightarrow> bool \<times> script_store" where
  "storage_clear enc io m s =
     (let previous = bucket_of (ss_persistent s) m
      in case save_persistent_locked enc io (s\<lparr>ss_persistent := AList.delete m (ss_persistent s)\<rparr>) of
           (True, s') \<Rightarrow> (True, s')
         | (False, s') \<Rightarrow> (False, put_bucket m previous s'))"

fun join_lines :: "string list \<Rightarrow> string" where
  "join_lines [] = []"
| "join_lines [l] = l"
| "join_lines (l # k # ls) = l @ char_of (10::nat) # join_lines (k # ls)"

definition storing_ids :: "'r ext_module list \<Rightarrow> string list" where
  "storing_ids modules = map em_id (filter em_persistent_storage modules)"

text \<open>\<open>prune\<close>, with whether it went without logging a failed save.\<close>

definition prune :: "encoded_size \<Rightarrow> bool \<Rightarrow> 'r ext_module list \<Rightarrow> script_store \<Rightarrow> bool \<times> script_store" where
  "prune enc io modules s =
     (let signature = join_lines (sort (storing_ids modules)) in
      if ss_module_set_ready s \<and> signature = ss_module_set s then (True, s)
      else let kept = filter (\<lambda>(m, _). m \<in> set (storing_ids modules)) (ss_persistent s);
               s1 = s\<lparr>ss_persistent := kept, ss_module_set := signature, ss_module_set_ready := True\<rparr>
           in if kept \<noteq> ss_persistent s then save_persistent_locked enc io s1 else (True, s1))"

section \<open>What a script may rely on\<close>

text \<open>
  The contract of the storage: an accepted write is read back, a refused one changes nothing, and no
  operation on one extension's storage is seen by another extension.
\<close>

text \<open>A script's writes: each with its key, the new value or a deletion, and the luck of its save.\<close>

type_synonym script_write = "string \<times> string option \<times> bool"

fun apply_writes ::
    "(bool \<Rightarrow> string \<Rightarrow> string \<Rightarrow> string \<Rightarrow> 's \<Rightarrow> bool \<times> 's) \<Rightarrow> (bool \<Rightarrow> string \<Rightarrow> string \<Rightarrow> 's \<Rightarrow> bool \<times> 's) \<Rightarrow>
       string \<Rightarrow> script_write list \<Rightarrow> 's \<Rightarrow> bool list \<times> 's" where
  "apply_writes put del m [] s = ([], s)"
| "apply_writes put del m ((k, v, io) # ws) s =
     (let (ok, s1) = (case v of Some x \<Rightarrow> put io m k x s | None \<Rightarrow> del io m k s);
          (oks, s2) = apply_writes put del m ws s1
      in (ok # oks, s2))"

text \<open>What is under a key after the accepted ones of these writes.\<close>

definition after_writes :: "string \<Rightarrow> (script_write \<times> bool) list \<Rightarrow> string option \<Rightarrow> string option" where
  "after_writes key ws = fold (\<lambda>((k, v, io), ok) cur. if ok \<and> k = key then v else cur) ws"

locale extension_storage =
  fixes get :: "string \<Rightarrow> string \<Rightarrow> 's \<Rightarrow> string option"
    and set_key :: "bool \<Rightarrow> string \<Rightarrow> string \<Rightarrow> string \<Rightarrow> 's \<Rightarrow> bool \<times> 's"
    and delete_key :: "bool \<Rightarrow> string \<Rightarrow> string \<Rightarrow> 's \<Rightarrow> bool \<times> 's"
  assumes get_set: "set_key io m k v s = (ok, s') \<Longrightarrow> get m' k' s' = (if ok \<and> m' = m \<and> k' = k then Some v else get m' k' s)"
    and get_delete: "delete_key io m k s = (ok, s') \<Longrightarrow>
      get m' k' s' = (if ok \<and> m' = m \<and> k' = k then None else get m' k' s)"
begin

lemma get_after_writes:
  assumes "apply_writes set_key delete_key m ws s = (oks, s')"
  shows "get m' k s' = (if m' = m then after_writes k (zip ws oks) (get m k s) else get m' k s)"
  using assms
proof (induction ws arbitrary: s oks)
  case (Cons w ws)
  obtain key v io where w: "w = (key, v, io)" by (cases w)
  obtain ok s1 where one: "(case v of Some x \<Rightarrow> set_key io m key x s | None \<Rightarrow> delete_key io m key s) = (ok, s1)"
    by fastforce
  obtain oks1 where oks: "oks = ok # oks1" and rest: "apply_writes set_key delete_key m ws s1 = (oks1, s')"
    using Cons.prems by (auto simp: w one split: prod.splits)
  have "get m'' k s1 = (if ok \<and> m'' = m \<and> k = key then v else get m'' k s)" for m''
    using one get_set get_delete by (cases v) auto
  then show ?case using Cons.IH [OF rest] by (auto simp: w oks after_writes_def)
qed (simp add: after_writes_def)

end

section \<open>The store keeps the contract\<close>

lemma storage_get_put: "storage_get m k (put_bucket m' b s) = (if m = m' then map_of b k else storage_get m k s)"
  by (simp add: storage_get_def put_bucket_def bucket_of_def)

lemma save_persistent_keeps [simp]:
  "ss_persistent (snd (save_persistent_locked enc io s)) = ss_persistent s"
  by (simp add: save_persistent_locked_def)

lemma storage_get_saved [simp]: "storage_get m k (snd (save_persistent_locked enc io s)) = storage_get m k s"
  by (simp add: storage_get_def)

lemma saved_get: "save_persistent_locked enc io s = (ok, s') \<Longrightarrow> storage_get m k s' = storage_get m k s"
  by (metis snd_conv storage_get_saved)

lemma storage_get_delete_bucket:
  "storage_get m k (s\<lparr>ss_persistent := AList.delete m' (ss_persistent s)\<rparr>) = (if m = m' then None else storage_get m k s)"
  by (simp add: storage_get_def bucket_of_def)

lemma storage_get_set:
  assumes "storage_set enc io m key value s = (ok, s')"
  shows "storage_get m' k s' = (if ok \<and> m' = m \<and> k = key then Some value else storage_get m' k s)"
  using assms unfolding storage_set_def Let_def
  by (auto simp: storage_get_put storage_get_def [of m] dest: saved_get [of _ _ _ _ _ m' k]
      split: if_splits prod.splits bool.splits option.splits)

interpretation store: extension_storage storage_get "storage_set enc" "storage_delete enc" for enc
proof unfold_locales
  show "storage_get m' k' s' = (if ok \<and> m' = m \<and> k' = k then Some v else storage_get m' k' s)"
    if "storage_set enc io m k v s = (ok, s')" for io m k v s ok s' m' k'
    using that by (rule storage_get_set)
  show "storage_get m' k' s' = (if ok \<and> m' = m \<and> k' = k then None else storage_get m' k' s)"
    if "storage_delete enc io m k s = (ok, s')" for io m k s ok s' m' k'
    using that unfolding storage_delete_def Let_def
    by (auto simp: storage_get_put storage_get_def [of m] bucket_of_def dest: saved_get [of _ _ _ _ _ m' k']
        split: if_splits prod.splits bool.splits option.splits)
qed

text \<open>C27: a script reads back exactly its accepted writes: after any sequence of \<open>set\<close> and \<open>delete\<close> calls of one
  extension, with any of their saves failing, a key of that extension holds what the last call on it that
  returned true put there, and no key of another extension has changed.
\<close>

theorem script_writes_read_back:
  assumes "apply_writes (storage_set enc) (storage_delete enc) m ws s = (oks, s')"
  shows "storage_get m' k s' = (if m' = m then after_writes k (zip ws oks) (storage_get m k s) else storage_get m' k s)"
  by (rule store.get_after_writes [OF assms])

theorem script_writes_read_back_witness:
  "\<exists>s'. apply_writes (storage_set length) (storage_delete length) ''a.b''
      [(''k'', Some ''1'', True), (''k'', Some ''2'', False), ([], Some ''3'', True)] (new_script_store length True NoStore) =
      ([True, False, False], s') \<and> storage_get ''a.b'' ''k'' s' = Some ''1'' \<and> storage_get ''c.d'' ''k'' s' = None"
proof -
  let ?ws = "[(''k'', Some ''1'', True), (''k'', Some ''2'', False), ([], Some ''3'', True)]"
  let ?s = "new_script_store length True NoStore"
  obtain s' where s': "apply_writes (storage_set length) (storage_delete length) ''a.b'' ?ws ?s = ([True, False, False], s')"
  proof -
    have "fst (apply_writes (storage_set length) (storage_delete length) ''a.b'' ?ws ?s) = [True, False, False]" by code_simp
    then show thesis using that by (metis prod.collapse)
  qed
  have "storage_get ''a.b'' ''k'' ?s = None" "storage_get ''c.d'' ''k'' ?s = None" by code_simp+
  with script_writes_read_back [OF s', of "''a.b''" "''k''"] script_writes_read_back [OF s', of "''c.d''" "''k''"] s'
  show ?thesis by (intro exI [of _ s']) (simp add: after_writes_def)
qed

section \<open>Restarts\<close>

datatype 'r store_op =
    OpSet string string string bool
  | OpDelete string string bool
  | OpClear string bool
  | OpPrune "'r ext_module list" bool

fun store_step :: "encoded_size \<Rightarrow> 'r store_op \<Rightarrow> script_store \<Rightarrow> bool \<times> script_store" where
  "store_step enc (OpSet m k v io) s = storage_set enc io m k v s"
| "store_step enc (OpDelete m k io) s = storage_delete enc io m k s"
| "store_step enc (OpClear m io) s = storage_clear enc io m s"
| "store_step enc (OpPrune ms io) s = prune enc io ms s"

text \<open>The identifiers are those of validated extensions.\<close>

fun op_ok :: "'r store_op \<Rightarrow> bool" where
  "op_ok (OpSet m k v io) = valid_module_id m"
| "op_ok (OpDelete m k io) = valid_module_id m"
| "op_ok (OpClear m io) = valid_module_id m"
| "op_ok (OpPrune ms io) = True"

fun is_prune :: "'r store_op \<Rightarrow> bool" where
  "is_prune (OpPrune ms io) = True"
| "is_prune _ = False"

text \<open>A run, with whether every prune in it went without a failed save.\<close>

fun store_run :: "encoded_size \<Rightarrow> 'r store_op list \<Rightarrow> script_store \<Rightarrow> bool \<times> script_store" where
  "store_run enc [] s = (True, s)"
| "store_run enc (op # ops) s =
     (let (ok, s1) = store_step enc op s; (all_ok, s2) = store_run enc ops s1 in ((is_prune op \<longrightarrow> ok) \<and> all_ok, s2))"

definition bucket_ok :: "string \<times> bucket \<Rightarrow> bool" where
  "bucket_ok mb \<longleftrightarrow> valid_module_id (fst mb) \<and> length (snd mb) \<le> max_store_keys \<and> list_all entry_ok (snd mb) \<and>
     distinct (map fst (snd mb))"

definition buckets_ok :: "buckets \<Rightarrow> bool" where
  "buckets_ok p \<longleftrightarrow> list_all bucket_ok p \<and> distinct (map fst p)"

text \<open>The file holds what is in memory; with \<open>exact\<close>, nothing more.\<close>

definition mirrored :: "encoded_size \<Rightarrow> bool \<Rightarrow> script_store \<Rightarrow> bool" where
  "mirrored enc exact s \<longleftrightarrow> ss_has_path s \<and> buckets_ok (ss_persistent s) \<and>
     (case ss_disk s of
        NoStore \<Rightarrow> \<forall>m k. storage_get m k s = None
      | BadStore \<Rightarrow> False
      | Store d \<Rightarrow> buckets_ok d \<and> enc d \<le> max_store_bytes \<and>
          (\<forall>m k v. storage_get m k s = Some v \<longrightarrow> map_of (bucket_of d m) k = Some v) \<and>
          (exact \<longrightarrow> (\<forall>m k. map_of (bucket_of d m) k = storage_get m k s)))"

lemma mirrored_saved:
  assumes "save_persistent_locked enc io s = (True, s')" "ss_has_path s" "buckets_ok (ss_persistent s)"
  shows "mirrored enc exact s'"
  using assms by (auto simp: save_persistent_locked_def mirrored_def storage_get_def split: if_splits)

lemma save_refused: "save_persistent_locked enc io s = (False, s') \<Longrightarrow> s' = s"
  by (auto simp: save_persistent_locked_def split: if_splits)

lemma buckets_ok_bucket: "buckets_ok p \<Longrightarrow> valid_module_id m \<Longrightarrow> bucket_ok (m, bucket_of p m)"
  by (auto simp: buckets_ok_def bucket_of_def list_all_iff bucket_ok_def split: option.splits dest!: map_of_SomeD)

lemma buckets_ok_update:
  assumes "buckets_ok p" "bucket_ok (m, b)"
  shows "buckets_ok (AList.update m b p)"
proof -
  have "set (AList.update m b p) \<subseteq> insert (m, b) (set p)" by (induction p) auto
  then show ?thesis using assms by (auto simp: buckets_ok_def list_all_iff distinct_update)
qed

lemma bucket_ok_update:
  assumes "bucket_ok (m, b)" "entry_ok (k, v)" "\<not> (length b \<ge> max_store_keys \<and> map_of b k = None)"
  shows "bucket_ok (m, AList.update k v b)"
proof -
  have "set (AList.update k v b) \<subseteq> insert (k, v) (set b)" by (induction b) auto
  moreover have "length (AList.update k v b) \<le> max_store_keys"
  proof (cases "k \<in> fst ` set b")
    case True
    then show ?thesis using assms(1) by (simp add: bucket_ok_def length_update_old)
  next
    case False
    then have "map_of b k = None" by (simp add: map_of_eq_None_iff)
    then show ?thesis using assms(3) False by (simp add: length_update_new)
  qed
  ultimately show ?thesis using assms(1,2) by (auto simp: bucket_ok_def list_all_iff distinct_update)
qed

lemma bucket_ok_delete: "bucket_ok (m, b) \<Longrightarrow> bucket_ok (m, AList.delete k b)"
proof -
  assume b: "bucket_ok (m, b)"
  have "set (AList.delete k b) \<subseteq> set b" "length (AList.delete k b) \<le> length b"
    by (auto simp: AList.delete_eq)
  then show ?thesis using b distinct_map_fst_delete [of b k] by (auto simp: bucket_ok_def list_all_iff)
qed

lemma mirrored_unsaved:
  assumes "mirrored enc exact s" "buckets_ok (ss_persistent s')" "ss_has_path s' = ss_has_path s" "ss_disk s' = ss_disk s"
    and "\<And>m k v. storage_get m k s' = Some v \<Longrightarrow> storage_get m k s = Some v"
    and "exact' \<longrightarrow> exact \<and> (\<forall>m k. storage_get m k s' = storage_get m k s)"
  shows "mirrored enc exact' s'"
proof (cases "ss_disk s")
  case NoStore
  then have "storage_get m k s' = None" for m k
    using assms(1,5) by (cases "storage_get m k s'") (auto simp: mirrored_def)
  then show ?thesis using assms NoStore by (simp add: mirrored_def)
next
  case (Store d)
  then have d: "ss_has_path s" "buckets_ok d" "enc d \<le> max_store_bytes"
    "\<And>m k v. storage_get m k s = Some v \<Longrightarrow> map_of (bucket_of d m) k = Some v"
    "exact \<Longrightarrow> map_of (bucket_of d m) k = storage_get m k s" for m k
    using assms(1) by (simp_all add: mirrored_def)
  have "map_of (bucket_of d m) k = Some v" if "storage_get m k s' = Some v" for m k v
    by (rule d(4) [OF assms(5) [OF that]])
  moreover have "map_of (bucket_of d m) k = storage_get m k s'" if exact' for m k
    using d(5) [of m k] assms(6) that by metis
  ultimately show ?thesis
    unfolding mirrored_def assms(3,4) Store using d(1,2,3) assms(2) by simp
qed (use assms(1) in \<open>simp add: mirrored_def\<close>)

lemma save_unsaved:
  assumes "save_persistent_locked enc io s1 = (ok, s')" "mirrored enc exact s" "buckets_ok (ss_persistent s1)"
    and "ss_has_path s1 = ss_has_path s" "ss_disk s1 = ss_disk s"
  shows "ok \<and> mirrored enc exact' s' \<or> \<not> ok \<and> s' = s1"
proof (cases ok)
  case True
  have "ss_has_path s1" using assms(2,4) by (simp add: mirrored_def)
  from mirrored_saved [OF assms(1) [unfolded True [THEN eqTrueI]] this assms(3)] True show ?thesis by simp
next
  case False
  then show ?thesis using assms(1) save_refused [of enc io s1 s'] by simp
qed

lemma put_bucket_simps [simp]:
  "ss_persistent (put_bucket m b s) = AList.update m b (ss_persistent s)"
  "ss_has_path (put_bucket m b s) = ss_has_path s" "ss_disk (put_bucket m b s) = ss_disk s"
  by (simp_all add: put_bucket_def)

lemma set_mirrored:
  assumes "storage_set enc io m k v s = (ok, s')" "mirrored enc exact s" "valid_module_id m"
  shows "mirrored enc exact s'"
proof -
  have p: "buckets_ok (ss_persistent s)" using assms(2) by (simp add: mirrored_def)
  let ?b = "bucket_of (ss_persistent s) m"
  have b: "bucket_ok (m, ?b)" by (rule buckets_ok_bucket [OF p assms(3)])
  obtain ok1 s1 where save: "save_persistent_locked enc io (put_bucket m (AList.update k v ?b) s) = (ok1, s1)" by fastforce
  consider "s' = s" | (go) "entry_ok (k, v)" "\<not> (length ?b \<ge> max_store_keys \<and> map_of ?b k = None)" "ok = ok1"
      "s' = (if ok1 then s1 else put_bucket m (case map_of ?b k of Some w \<Rightarrow> AList.update k w (AList.update k v ?b)
           | None \<Rightarrow> AList.delete k (AList.update k v ?b)) s1)"
  proof (cases "entry_ok (k, v) \<and> \<not> (length ?b \<ge> max_store_keys \<and> map_of ?b k = None)")
    case True
    then have n: "\<not> (k = [] \<or> length k > max_store_key_bytes \<or> length v > max_store_value_bytes)"
      and f: "\<not> (length ?b \<ge> max_store_keys \<and> map_of ?b k = None)" by (auto simp: entry_ok_def)
    have "(ok, s') = (case (ok1, s1) of (True, s') \<Rightarrow> (True, s')
          | (False, s') \<Rightarrow> (False, put_bucket m (case map_of ?b k of Some w \<Rightarrow> AList.update k w (AList.update k v ?b)
                                                   | None \<Rightarrow> AList.delete k (AList.update k v ?b)) s'))"
      using assms(1) unfolding storage_set_def Let_def if_not_P [OF n] if_not_P [OF f] save by (rule sym)
    then show thesis using True f by (intro that(2)) (cases ok1; simp)+
  next
    case False
    then show thesis
      using assms(1) that(1) by (auto simp: storage_set_def Let_def entry_ok_def not_le split: if_splits)
  qed
  then show ?thesis
  proof cases
    case go
    have c: "bucket_ok (m, AList.update k v ?b)" by (rule bucket_ok_update [OF b go(1,2)])
    have d: "bucket_ok (m, case map_of ?b k of Some w \<Rightarrow> AList.update k w (AList.update k v ?b) | None \<Rightarrow> AList.delete k (AList.update k v ?b))"
    proof (cases "map_of ?b k")
      case (Some w)
      then have "entry_ok (k, w)" using b by (auto simp: bucket_ok_def list_all_iff dest: map_of_SomeD)
      from bucket_ok_update [OF c this] Some show ?thesis by simp
    qed (simp add: bucket_ok_delete [OF c])
    from save_unsaved [OF save assms(2)] buckets_ok_update [OF p c]
    have "ok1 \<and> mirrored enc exact s1 \<or> \<not> ok1 \<and> s1 = put_bucket m (AList.update k v ?b) s" by simp
    then show ?thesis
    proof
      assume "\<not> ok1 \<and> s1 = put_bucket m (AList.update k v ?b) s"
      then have s': "s' = put_bucket m (case map_of ?b k of Some w \<Rightarrow> AList.update k w (AList.update k v ?b)
           | None \<Rightarrow> AList.delete k (AList.update k v ?b)) (put_bucket m (AList.update k v ?b) s)" and "\<not> ok"
        using go by simp_all
      have g: "storage_get m' k' s' = storage_get m' k' s" for m' k'
        using storage_get_set [OF assms(1), of m' k'] \<open>\<not> ok\<close> by simp
      show ?thesis
        by (rule mirrored_unsaved [OF assms(2)])
          (use g d p c in \<open>simp_all add: s' buckets_ok_update\<close>)
    qed (use go in simp)
  qed (use assms(2) in simp)
qed

lemma delete_mirrored:
  assumes "storage_delete enc io m k s = (ok, s')" "mirrored enc exact s" "valid_module_id m"
  shows "mirrored enc exact s'"
proof -
  have p: "buckets_ok (ss_persistent s)" using assms(2) by (simp add: mirrored_def)
  let ?b = "bucket_of (ss_persistent s) m"
  let ?s1 = "if map_of (ss_persistent s) m = None then s else put_bucket m (AList.delete k ?b) s"
  have b: "bucket_ok (m, ?b)" by (rule buckets_ok_bucket [OF p assms(3)])
  have d: "bucket_ok (m, AList.delete k ?b)" by (rule bucket_ok_delete [OF b])
  have p1: "buckets_ok (ss_persistent ?s1)" using p d by (simp add: buckets_ok_update)
  obtain ok1 s1 where save: "save_persistent_locked enc io ?s1 = (ok1, s1)" by fastforce
  have s': "s' = (if ok1 then s1 else case map_of ?b k of Some v \<Rightarrow> put_bucket m (AList.update k v (AList.delete k ?b)) s1 | None \<Rightarrow> s1)"
    and ok: "ok \<longrightarrow> ok1"
    using assms(1) unfolding storage_delete_def Let_def save by (cases ok1; simp)+
  have "ok1 \<and> mirrored enc exact s1 \<or> \<not> ok1 \<and> s1 = ?s1"
    by (rule save_unsaved [OF save assms(2) p1]) simp_all
  then consider "ok1" "mirrored enc exact s1" | "\<not> ok1" "s1 = ?s1" by blast
  then show ?thesis
  proof cases
    case 2
    have g: "storage_get m' k' s' = storage_get m' k' s" for m' k'
      using store.get_delete [OF assms(1), of m' k'] 2 ok by auto
    have "buckets_ok (ss_persistent s')"
    proof (cases "map_of ?b k")
      case (Some v)
      then have "entry_ok (k, v)" using b by (auto simp: bucket_ok_def list_all_iff dest: map_of_SomeD)
      moreover have "\<not> (length (AList.delete k ?b) \<ge> max_store_keys \<and> map_of (AList.delete k ?b) k = None)"
        using b Some length_delete_old [of ?b k] by (force simp: bucket_ok_def dest: map_of_SomeD)
      ultimately have "bucket_ok (m, AList.update k v (AList.delete k ?b))" by (rule bucket_ok_update [OF d])
      then show ?thesis using Some 2 p1 by (simp add: s' buckets_ok_update)
    qed (use 2 p1 in \<open>simp add: s'\<close>)
    moreover have "ss_has_path s' = ss_has_path s" "ss_disk s' = ss_disk s"
      using 2 by (auto simp: s' split: option.splits)
    ultimately show ?thesis using g by (intro mirrored_unsaved [OF assms(2)]) simp_all
  qed (simp add: s')
qed

lemma buckets_ok_subset: "buckets_ok p \<Longrightarrow> set q \<subseteq> set p \<Longrightarrow> distinct (map fst q) \<Longrightarrow> buckets_ok q"
  by (auto simp: buckets_ok_def list_all_iff)

lemma clear_get:
  assumes "storage_clear enc io m s = (ok, s')"
  shows "storage_get m' k s' = (if ok \<and> m' = m then None else storage_get m' k s)"
  using assms unfolding storage_clear_def Let_def
  by (auto simp: storage_get_put storage_get_delete_bucket storage_get_def [of m] dest: saved_get [of _ _ _ _ _ m' k]
      split: prod.splits bool.splits if_splits)

lemma clear_mirrored:
  assumes "storage_clear enc io m s = (ok, s')" "mirrored enc exact s" "valid_module_id m"
  shows "mirrored enc exact s'"
proof -
  let ?s1 = "s\<lparr>ss_persistent := AList.delete m (ss_persistent s)\<rparr>"
  have p: "buckets_ok (ss_persistent s)" using assms(2) by (simp add: mirrored_def)
  have p1: "buckets_ok (ss_persistent ?s1)"
    using p buckets_ok_subset [OF p, of "AList.delete m (ss_persistent s)"] distinct_map_fst_delete [of "ss_persistent s" m]
    by (auto simp: buckets_ok_def AList.delete_eq)
  obtain ok1 s1 where save: "save_persistent_locked enc io ?s1 = (ok1, s1)" by fastforce
  have s': "s' = (if ok1 then s1 else put_bucket m (bucket_of (ss_persistent s) m) s1)" and ok: "ok = ok1"
    using assms(1) unfolding storage_clear_def Let_def save by (cases ok1; simp)+
  have "ok1 \<and> mirrored enc exact s1 \<or> \<not> ok1 \<and> s1 = ?s1"
    by (rule save_unsaved [OF save assms(2) p1]) simp_all
  then consider "ok1" "mirrored enc exact s1" | "\<not> ok1" "s1 = ?s1" by blast
  then show ?thesis
  proof cases
    case 2
    have "storage_get m' k' s' = storage_get m' k' s" for m' k'
      using clear_get [OF assms(1), of m' k'] 2 ok by simp
    then show ?thesis
      using 2 p1 buckets_ok_bucket [OF p assms(3)]
      by (intro mirrored_unsaved [OF assms(2)]) (simp_all add: s' buckets_ok_update)
  qed (simp add: s')
qed

lemma kept_get:
  "map_of (bucket_of (filter (\<lambda>(m, _). m \<in> X) p) m) k = (if m \<in> X then map_of (bucket_of p m) k else None)"
proof -
  have "map_of (filter (\<lambda>(m, _). m \<in> X) p) m = (if m \<in> X then map_of p m else None)"
    by (induction p) auto
  then show ?thesis by (simp add: bucket_of_def)
qed

lemma prune_get:
  assumes "prune enc io ms s = (ok, s')"
  shows "s' = s \<and> ss_module_set_ready s \<and> join_lines (sort (storing_ids ms)) = ss_module_set s \<or>
    storage_get m k s' = (if m \<in> set (storing_ids ms) then storage_get m k s else None)"
proof -
  let ?kept = "filter (\<lambda>(m, _). m \<in> set (storing_ids ms)) (ss_persistent s)"
  have "s' = s \<and> ss_module_set_ready s \<and> join_lines (sort (storing_ids ms)) = ss_module_set s \<or> ss_persistent s' = ?kept"
    using assms save_persistent_keeps unfolding prune_def Let_def
    by (auto split: if_splits dest: arg_cong [where f = "\<lambda>x. ss_persistent (snd x)"])
  then show ?thesis by (auto simp: storage_get_def kept_get)
qed

lemma prune_mirrored:
  assumes "prune enc io ms s = (ok, s')" "mirrored enc exact s"
  shows "mirrored enc (exact \<and> ok) s'"
proof -
  let ?kept = "filter (\<lambda>(m, _). m \<in> set (storing_ids ms)) (ss_persistent s)"
  let ?s1 = "s\<lparr>ss_persistent := ?kept, ss_module_set := join_lines (sort (storing_ids ms)), ss_module_set_ready := True\<rparr>"
  have p: "buckets_ok (ss_persistent s)" using assms(2) by (simp add: mirrored_def)
  have p1: "buckets_ok (ss_persistent ?s1)"
    using p buckets_ok_subset [OF p, of ?kept] by (auto simp: buckets_ok_def distinct_map_filter)
  have sub: "storage_get m k ?s1 = Some v \<Longrightarrow> storage_get m k s = Some v" for m k v
    by (simp add: storage_get_def kept_get split: if_splits)
  consider "s' = s" | "?kept = ss_persistent s" "s' = ?s1" "ok" | "save_persistent_locked enc io ?s1 = (ok, s')"
    using assms(1) by (auto simp: prune_def Let_def split: if_splits)
  then show ?thesis
  proof cases
    case 1
    then show ?thesis by (intro mirrored_unsaved [OF assms(2)]) (use p in auto)
  next
    case 2
    have "storage_get m k s' = storage_get m k s" for m k
      using 2(1) by (simp add: 2(2) storage_get_def)
    then show ?thesis by (intro mirrored_unsaved [OF assms(2)]) (use p1 2 in auto)
  next
    case 3
    have "ok \<and> mirrored enc (exact \<and> ok) s' \<or> \<not> ok \<and> s' = ?s1"
      by (rule save_unsaved [OF 3 assms(2) p1]) simp_all
    then consider "ok" "mirrored enc (exact \<and> ok) s'" | "\<not> ok" "s' = ?s1" by blast
    then show ?thesis
    proof cases
      case 2
      show ?thesis unfolding 2(2) by (rule mirrored_unsaved [OF assms(2) p1]) (use sub 2(1) in auto)
    qed
  qed
qed

lemma step_mirrored:
  assumes "store_step enc op s = (ok, s')" "mirrored enc exact s" "op_ok op"
  shows "mirrored enc (exact \<and> (is_prune op \<longrightarrow> ok)) s'"
  using assms set_mirrored delete_mirrored clear_mirrored prune_mirrored by (cases op) auto

lemma run_mirrored:
  "store_run enc ops s = (all_saved, s') \<Longrightarrow> mirrored enc exact s \<Longrightarrow> list_all op_ok ops \<Longrightarrow> mirrored enc (exact \<and> all_saved) s'"
proof (induction ops arbitrary: s exact all_saved)
  case (Cons op ops)
  obtain ok s1 where one: "store_step enc op s = (ok, s1)" by fastforce
  obtain rest where "store_run enc ops s1 = (rest, s')" "all_saved = ((is_prune op \<longrightarrow> ok) \<and> rest)"
    using Cons.prems(1) one by (auto split: prod.splits)
  then show ?case using Cons.IH [OF _ step_mirrored [OF one Cons.prems(2)]] Cons.prems(3) by simp
qed simp

lemma mirrored_reload:
  assumes "mirrored enc exact s"
  shows "storage_get m k s = Some v \<Longrightarrow> storage_get m k (new_script_store enc True (ss_disk s)) = Some v"
    and "exact \<Longrightarrow> storage_get m k (new_script_store enc True (ss_disk s)) = storage_get m k s"
proof -
  let ?r = "new_script_store enc True (ss_disk s)"
  have r: "storage_get m k ?r = (case ss_disk s of Store d \<Rightarrow> map_of (bucket_of d m) k | _ \<Rightarrow> None)"
  proof (cases "ss_disk s")
    case (Store d)
    then have d: "buckets_ok d" "enc d \<le> max_store_bytes" using assms by (simp_all add: mirrored_def)
    then have "\<not> list_ex (\<lambda>(m, b). \<not> valid_module_id m \<or> length b > max_store_keys \<or> \<not> list_all entry_ok b) d"
      by (force simp: buckets_ok_def bucket_ok_def list_all_iff list_ex_iff)
    then show ?thesis using Store d by (simp add: new_script_store_def load_persistent_def storage_get_def)
  qed (simp_all add: new_script_store_def load_persistent_def storage_get_def bucket_of_def)
  show "storage_get m k s = Some v \<Longrightarrow> storage_get m k ?r = Some v"
    using assms unfolding r by (auto simp: mirrored_def split: store_file.splits)
  show "exact \<Longrightarrow> storage_get m k ?r = storage_get m k s"
    using assms unfolding r by (auto simp: mirrored_def split: store_file.splits)
qed

text \<open>C28: whatever the extensions stored, deleted and cleared, and whichever saves failed, the file the sidecar
  finds when it starts again is accepted by its checks and gives back every value that was in memory;
  and nothing else, unless the save of a pruning had failed.
\<close>

theorem extension_data_survive_restart:
  fixes ops :: "'r store_op list"
  assumes "list_all op_ok ops" "store_run enc ops (new_script_store enc True NoStore) = (all_saved, s)"
  shows "(storage_get m k s = Some v \<longrightarrow> storage_get m k (new_script_store enc True (ss_disk s)) = Some v) \<and>
    (all_saved \<longrightarrow> storage_get m k (new_script_store enc True (ss_disk s)) = storage_get m k s) \<and>
    (ss_disk s = NoStore \<or> fst (load_persistent enc s))"
proof -
  have "mirrored enc True (new_script_store enc True NoStore)"
    by (simp add: mirrored_def new_script_store_def load_persistent_def storage_get_def bucket_of_def buckets_ok_def)
  from run_mirrored [OF assms(2) this assms(1)] have inv: "mirrored enc all_saved s" by simp
  have "ss_disk s = NoStore \<or> fst (load_persistent enc s)"
  proof (cases "ss_disk s")
    case (Store d)
    then have d: "ss_has_path s" "buckets_ok d" "enc d \<le> max_store_bytes" using inv by (simp_all add: mirrored_def)
    then have "\<not> list_ex (\<lambda>(m, b). \<not> valid_module_id m \<or> length b > max_store_keys \<or> \<not> list_all entry_ok b) d"
      by (force simp: buckets_ok_def bucket_ok_def list_all_iff list_ex_iff)
    then show ?thesis using Store d by (simp add: load_persistent_def)
  qed (use inv in \<open>simp_all add: mirrored_def\<close>)
  then show ?thesis using mirrored_reload [OF inv] by blast
qed

theorem extension_data_survive_restart_witness:
  "\<exists>s. store_run length [OpSet ''a.b'' ''k'' ''1'' True, OpSet ''a.b'' ''k'' ''2'' False, OpClear ''c.d'' True,
      OpPrune [ex_module\<lparr>em_id := ''a.b''\<rparr>] True] (new_script_store length True NoStore) = (True, s) \<and>
    storage_get ''a.b'' ''k'' (new_script_store length True (ss_disk s)) = Some ''1''"
proof -
  let ?ops = "[OpSet ''a.b'' ''k'' ''1'' True, OpSet ''a.b'' ''k'' ''2'' False, OpClear ''c.d'' True,
      OpPrune [ex_module\<lparr>em_id := ''a.b''\<rparr>] True]"
  let ?s = "\<lparr>ss_persistent = [(''a.b'', [(''k'', ''1'')])], ss_has_path = True, ss_module_set = ''a.b'', ss_module_set_ready = True,
      ss_disk = Store [(''a.b'', [(''k'', ''1'')])]\<rparr>"
  have ops: "list_all op_ok ?ops" by code_simp
  have run: "store_run length ?ops (new_script_store length True NoStore) = (True, ?s)" by code_simp
  have "storage_get ''a.b'' ''k'' ?s = Some ''1''" by code_simp
  then show ?thesis
    using extension_data_survive_restart [OF ops run, of "''a.b''" "''k''" "''1''"] run by blast
qed

end
