(* ===== verification/Module_Types.thy ===== *)
theory Module_Types
  imports Icp_Config
begin

text \<open>
  The interception extensions as the DNS process holds them (\<open>intercept_module_types.go\<close> and the document
  checks of \<open>api_intercept.go\<close>). The document and its modules are the records of Icp_Config, with the routing
  rules as this program stores them; \<open>icp_lib\<close> holds the parts of Go's standard library both programs
  call. The two programs validate the same document with code of their own.
\<close>

section \<open>Routing rules\<close>

record intercept_routing_rule =
  ir_action :: string
  ir_domain :: string
  ir_domain_suffix :: string
  ir_domain_keywords :: "string list"
  ir_all_domain_keywords :: "string list"
  ir_ip_cidr :: string
  ir_network :: string
  ir_destination_port :: int

type_synonym module_snapshot = "intercept_routing_rule ext_module"
type_synonym module_document = "intercept_routing_rule config_document"

text \<open>\<open>isValidDomain\<close> of \<open>bot.go\<close>; \<open>domainRE\<close> is the expression of \<open>canonical_routing_domain_pattern\<close>.\<close>

definition is_valid_domain :: "string \<Rightarrow> bool" where
  "is_valid_domain v \<longleftrightarrow> (let s = to_lower v in 1 \<le> length s \<and> length s \<le> 253 \<and> canonical_routing_domain_pattern s)"

definition valid_canonical_route_domain :: "string \<Rightarrow> bool" where
  "valid_canonical_route_domain v \<longleftrightarrow>
     v = trim_space v \<and> v = to_lower v \<and> \<not> has_suffix v [dot] \<and> is_valid_domain v"

definition validate_intercept_routing_rule :: "intercept_routing_rule \<Rightarrow> failure option" where
  "validate_intercept_routing_rule r =
     (let primary = (if ir_domain r \<noteq> [] then 1 else 0) + (if ir_domain_suffix r \<noteq> [] then 1 else 0) +
            (if ir_ip_cidr r \<noteq> [] then 1 else (0 :: nat));
          some = ir_domain_keywords r; every = ir_all_domain_keywords r
      in first_some
       [fail_if (ir_action r \<noteq> ''reject'' \<and> ir_action r \<noteq> ''direct'') ''action must be reject or direct'',
        fail_if (ir_domain r \<noteq> [] \<and> \<not> valid_canonical_route_domain (ir_domain r)) ''domain must be one canonical exact hostname'',
        fail_if (ir_domain_suffix r \<noteq> [] \<and> \<not> valid_canonical_route_domain (ir_domain_suffix r))
          ''domain_suffix must be one canonical suffix'',
        fail_if (ir_ip_cidr r \<noteq> [] \<and> \<not> canonical_cidr (ir_ip_cidr r)) ''ip_cidr must be canonical'',
        fail_if (primary > 1 \<or> primary = 0 \<and> some = [] \<and> every = []) ''declare exactly one selector or at least one keyword'',
        fail_if (ir_ip_cidr r \<noteq> [] \<and> (some \<noteq> [] \<or> every \<noteq> [])) ''ip_cidr cannot be combined with domain keywords'',
        fail_if (length some > 8 \<or> \<not> sorted some) ''domain_keywords must be canonical, sorted, and bounded'',
        fail_if (length some = 1) ''a single domain keyword must use all_domain_keywords'',
        each_unique id (\<lambda>k. fail_if (unsafe_keyword k) ''domain_keywords contains an unsafe entry'')
          ''domain_keywords contains a duplicate'' no_check [] some,
        fail_if (length every > 8 \<or> \<not> sorted every) ''all_domain_keywords must be canonical, sorted, and bounded'',
        each_unique id (\<lambda>k. fail_if (unsafe_keyword k) ''all_domain_keywords contains an unsafe entry'')
          ''routing rule repeats a keyword across any/all groups'' no_check some every,
        fail_if (ir_network r \<noteq> [] \<and> ir_network r \<noteq> ''tcp'' \<and> ir_network r \<noteq> ''udp'') ''network must be tcp or udp'',
        fail_if (ir_destination_port r < 0 \<or> ir_destination_port r > 65535) ''destination_port must be 1 to 65535 when set''])"

definition validate_intercept_routing_rules :: "intercept_routing_rule list \<Rightarrow> failure option" where
  "validate_intercept_routing_rules rules = first_some
     [fail_if (length rules > 256) ''routing_rules exceeds 256 entries'',
      each_unique id validate_intercept_routing_rule ''routing rule duplicates an earlier rule'' no_check [] rules]"

section \<open>Hosts, targets and origins\<close>

definition validate_intercept_host_pattern :: "string \<Rightarrow> failure option" where
  "validate_intercept_host_pattern raw =
     (let host = to_lower (trim_space (trim_suffix raw [dot])) in
      if has_prefix host star_dot then
        (let base = trim_prefix host star_dot
         in fail_if (\<not> is_valid_domain base \<or> dot \<notin> set base) ''invalid wildcard capture host'')
      else fail_if (CHR ''*'' \<in> set host \<or> \<not> is_valid_domain host) ''invalid exact capture host'')"

definition normalize_intercept_host_pattern :: "string \<Rightarrow> failure + string" where
  "normalize_intercept_host_pattern raw =
     (let host = trim_suffix (to_lower (trim_space raw)) [dot] in
      case validate_intercept_host_pattern host of Some e \<Rightarrow> Inl e | None \<Rightarrow> Inr host)"

definition intercept_host_pattern_covers :: "string \<Rightarrow> string \<Rightarrow> bool" where
  "intercept_host_pattern_covers allowed candidate =
     (if allowed = candidate then True
      else if \<not> has_prefix allowed star_dot then False
      else let base = trim_prefix allowed star_dot; candidate_base = trim_prefix candidate star_dot
           in has_suffix candidate_base (dot # base))"

definition intercept_host_covered_by :: "string list \<Rightarrow> string \<Rightarrow> bool" where
  "intercept_host_covered_by ps candidate = list_ex (\<lambda>p. intercept_host_pattern_covers p candidate) ps"

definition valid_intercept_host_target :: "string \<Rightarrow> bool" where
  "valid_intercept_host_target raw =
     (let value = to_lower (trim_space (trim_suffix raw [dot])) in
      case parse_ip value of
        Some a \<Rightarrow> to4 a \<noteq> None \<and> ip_is_global_unicast a \<and> \<not> ip_is_private a \<and> \<not> ip_is_loopback a \<and> \<not> ip_is_link_local a
      | None \<Rightarrow> is_valid_domain value \<and> value \<noteq> ''localhost'' \<and> \<not> has_suffix value ''.local'')"

definition parse_intercept_network_origin :: "string \<Rightarrow> failure + string \<times> (string \<times> int)" where
  "parse_intercept_network_origin raw =
     (let value = trim_space raw in
      if value = [] \<or> length value > 4096 then Inl ''origin must contain 1 to 4096 bytes''
      else case url_parse value of
        None \<Rightarrow> Inl ''invalid origin''
      | Some u \<Rightarrow>
         let scheme = to_lower (u_scheme u) in
         if scheme \<noteq> ''http'' \<and> scheme \<noteq> ''https'' then Inl ''origin scheme must be http or https''
         else if u_opaque u \<noteq> [] \<or> u_user u \<noteq> None \<or> url_hostname u = [] then Inl ''origin must have a host and no userinfo''
         else if u_path u \<noteq> [] \<and> u_path u \<noteq> [slash] \<or> u_raw_query u \<noteq> [] \<or> u_force_query u \<or> u_fragment u \<noteq> [] \<or>
            CHR ''#'' \<in> set value then Inl ''origin must not contain a path, query, or fragment''
         else let host = to_lower (trim_suffix (url_hostname u) [dot]) in
           if CHR ''*'' \<in> set host \<or> parse_ip host \<noteq> None \<or> \<not> is_valid_domain host \<or> host = ''localhost'' \<or>
              has_suffix host ''.local'' then Inl ''origin host must be an exact public DNS hostname''
           else if has_suffix (u_host u) [colon] then Inl ''origin port is empty''
           else let default_port = (if scheme = ''https'' then 443 else 80) in
             case (if url_port u \<noteq> [] then go_atoi (url_port u) else Some default_port) of
               None \<Rightarrow> Inl ''origin port must be between 1 and 65535''
             | Some port \<Rightarrow>
                if port < 1 \<or> port > 65535 then Inl ''origin port must be between 1 and 65535''
                else Inr (scheme @ ''://'' @ host @ (if port \<noteq> default_port then '':'' @ show_nat (nat port) else []), (host, port)))"

definition normalize_intercept_network_origin :: "string \<Rightarrow> failure + string" where
  "normalize_intercept_network_origin raw = map_sum id fst (parse_intercept_network_origin raw)"

fun check_intercept_origins :: "string option \<Rightarrow> string list \<Rightarrow> failure option" where
  "check_intercept_origins previous [] = None"
| "check_intercept_origins previous (origin # rest) = (case normalize_intercept_network_origin origin of
     Inl e \<Rightarrow> Some e
   | Inr canonical \<Rightarrow>
      if canonical \<noteq> origin then Some ''network origin is not canonical''
      else if previous = Some origin then Some ''duplicate network origin''
      else check_intercept_origins (Some origin) rest)"

definition validate_intercept_network_origins :: "string list \<Rightarrow> failure option" where
  "validate_intercept_network_origins origins = first_some
     [fail_if (length origins > 256) ''network_origins exceeds 256 entries'',
      fail_if (\<not> sorted origins) ''network_origins must be canonical and sorted'',
      check_intercept_origins None origins]"

definition validate_intercept_egress_group_binding :: "string \<Rightarrow> failure option" where
  "validate_intercept_egress_group_binding grp =
     (if grp = [] then None
      else first_some
        [fail_if (grp = reserved_terminal_match_egress_group) ''egress_group uses a reserved internal name'',
         fail_if (utf8_runes grp = None \<or> trim_space grp \<noteq> grp \<or> length grp > 128)
           ''egress_group must contain 1 to 128 canonical bytes'',
         (case utf8_runes grp of
            None \<Rightarrow> None
          | Some rs \<Rightarrow> fail_if (list_ex (\<lambda>r. r = 44 \<or> rune_is_control r) rs)
              ''egress_group must not contain commas or control characters'')])"

section \<open>Settings\<close>

definition check_intercept_location :: "location_value \<Rightarrow> bool \<Rightarrow> failure option" where
  "check_intercept_location value full = first_some
     [fail_if (lo_accuracy value = 0 \<or> lo_accuracy value > 100000) ''accuracy must be between 1 and 100000'',
      fail_if ((lo_longitude value = None) \<noteq> (lo_latitude value = None)) ''longitude and latitude must be set together'',
      fail_if (outside 180 (lo_longitude value)) ''longitude must be between -180 and 180'',
      fail_if (outside 90 (lo_latitude value)) ''latitude must be between -90 and 90'',
      fail_if (full \<and> lo_longitude value = None) ''coordinates are required'']"

definition validate_intercept_setting_value :: "icp_lib \<Rightarrow> module_setting \<Rightarrow> string \<Rightarrow> bool \<Rightarrow> failure option" where
  "validate_intercept_setting_value L setting raw full =
     (if raw = [] \<or> is_json_null raw then (if full then Some ''value is required'' else None)
      else if length raw > 65536 then Some ''value exceeds 65536 bytes''
      else if se_type setting = ''text'' \<or> se_type setting = ''select'' then
        (case Option.bind (il_json L raw) json_string of
           None \<Rightarrow> Some ''value must be a string''
         | Some value \<Rightarrow> first_some
             [fail_if (length value > 4096) ''string value exceeds 4096 bytes'',
              fail_if (full \<and> trim_space value = []) ''value must not be empty'',
              fail_if (se_type setting = ''select'' \<and> value \<noteq> [] \<and> \<not> list_ex (\<lambda>option. option = value) (se_options setting))
                ''value is not a declared option''])
      else if se_type setting = ''boolean'' then
        (case Option.bind (il_json L raw) json_bool of None \<Rightarrow> Some ''value must be a boolean'' | Some _ \<Rightarrow> None)
      else if se_type setting = ''number'' then
        (case Option.bind (il_json L raw) json_number of
           None \<Rightarrow> Some ''value must be a finite number''
         | Some value \<Rightarrow> first_some
             [fail_if (case se_min setting of None \<Rightarrow> False | Some l \<Rightarrow> value < l) ''value is below the minimum'',
              fail_if (case se_max setting of None \<Rightarrow> False | Some u \<Rightarrow> value > u) ''value exceeds the maximum''])
      else if se_type setting = ''location'' then
        (case Option.bind (decode_strict_json (il_json L) raw) location_of_json of
           None \<Rightarrow> Some ''value must be a location object''
         | Some value \<Rightarrow> check_intercept_location value full)
      else None)"

definition validate_intercept_setting_definition :: "icp_lib \<Rightarrow> module_setting \<Rightarrow> failure option" where
  "validate_intercept_setting_definition L s = first_some
     [if se_type s = ''text'' then
        fail_if (se_options s \<noteq> [] \<or> se_min s \<noteq> None \<or> se_max s \<noteq> None) ''text settings cannot declare options or numeric bounds''
      else if se_type s = ''select'' then first_some
        [fail_if (se_options s = [] \<or> length (se_options s) > 64 \<or> se_min s \<noteq> None \<or> se_max s \<noteq> None)
           ''select settings require 1 to 64 options and no numeric bounds'',
         each_unique id (\<lambda>option. fail_if (option = [] \<or> length option > 256) ''select setting contains an invalid option'')
           ''select setting contains duplicate options'' no_check [] (se_options s)]
      else if se_type s = ''boolean'' \<or> se_type s = ''location'' then
        fail_if (se_options s \<noteq> [] \<or> se_min s \<noteq> None \<or> se_max s \<noteq> None) ''settings cannot declare options or numeric bounds''
      else if se_type s = ''number'' then first_some
        [fail_if (se_options s \<noteq> []) ''number settings cannot declare options'',
         fail_if (case (se_min s, se_max s) of (Some l, Some u) \<Rightarrow> l > u | _ \<Rightarrow> False) ''minimum exceeds maximum'']
      else Some ''unsupported setting type'',
      if se_default s \<noteq> [] then validate_intercept_setting_value L s (se_default s) False else None,
      if se_value s \<noteq> [] then validate_intercept_setting_value L s (se_value s) False else None]"

definition intercept_setting_ready :: "icp_lib \<Rightarrow> module_setting \<Rightarrow> bool" where
  "intercept_setting_ready L s \<longleftrightarrow> validate_intercept_setting_value L s (se_value s) True = None"

definition intercept_module_settings_ready :: "icp_lib \<Rightarrow> module_setting list \<Rightarrow> bool" where
  "intercept_module_settings_ready L settings \<longleftrightarrow> \<not> list_ex (\<lambda>s. se_required s \<and> \<not> intercept_setting_ready L s) settings"

definition valid_module_setting_key :: "string \<Rightarrow> bool" where
  "valid_module_setting_key v \<longleftrightarrow> \<not> (length v = 0 \<or> length v > 64) \<and>
     list_all (\<lambda>c. is_letter c \<or> is_digit c \<or> c = CHR ''_'' \<or> c = CHR ''-'' \<or> c = dot) v"

definition validate_intercept_module_settings :: "icp_lib \<Rightarrow> module_setting list \<Rightarrow> bool \<Rightarrow> failure option" where
  "validate_intercept_module_settings L settings require_ready = first_some
     [fail_if (length settings > 128) ''extension exceeds 128 settings'',
      each_unique se_key (\<lambda>s. fail_if (\<not> valid_module_setting_key (se_key s)) ''setting has an invalid key'')
        ''duplicate setting''
        (\<lambda>s. first_some
          [fail_if (length (se_label s) > 128 \<or> length (se_description s) > 512) ''setting metadata exceeds its bounds'',
           validate_intercept_setting_definition L s,
           fail_if (require_ready \<and> se_required s \<and> \<not> intercept_setting_ready L s) ''required setting is not configured''])
        [] settings]"

section \<open>One module\<close>

definition validate_intercept_action_match :: "icp_lib \<Rightarrow> string list \<Rightarrow> string \<Rightarrow> action_match \<Rightarrow> failure option" where
  "validate_intercept_action_match L capture_hosts phase m = first_some
     [fail_if (am_hosts m = [] \<or> length (am_hosts m) > 512) ''match.hosts must not be empty'',
      each (\<lambda>h. first_some [validate_intercept_host_pattern h,
        fail_if (\<not> intercept_host_covered_by capture_hosts h) ''match host is outside capture_hosts'']) (am_hosts m),
      fail_if (am_schemes m = [] \<or> length (am_schemes m) > 2) ''match.schemes must contain http or https'',
      each (\<lambda>s. fail_if (s \<noteq> ''http'' \<and> s \<noteq> ''https'') ''unsupported scheme'') (am_schemes m),
      each (\<lambda>x. fail_if (bad_method x) ''invalid HTTP method'') (am_methods m),
      fail_if (am_path_regex m = [] \<or> length (am_path_regex m) > 4096) ''match.path_regex is required'',
      fail_if (\<not> il_regex_ok L (am_path_regex m)) ''path_regex is outside the supported RE2 subset'',
      fail_if (phase = ''request'' \<and> am_status_codes m \<noteq> []) ''request actions cannot match response status codes'',
      each (\<lambda>s. fail_if (s < 100 \<or> s > 599) ''invalid response status code'') (am_status_codes m)]"

definition validate_intercept_host_mappings :: "string list \<Rightarrow> host_mapping list \<Rightarrow> failure option" where
  "validate_intercept_host_mappings capture_hosts mappings =
     each_unique hp_pattern
       (\<lambda>m. first_some
         [fail_if (normalize_intercept_host_pattern (hp_pattern m) \<noteq> Inr (hp_pattern m)) ''upstream mapping has an invalid host'',
          fail_if (\<not> intercept_host_covered_by capture_hosts (hp_pattern m)) ''upstream mapping host is outside capture_hosts''])
       ''duplicate upstream mapping''
       (\<lambda>m. fail_if (\<not> valid_intercept_host_target (hp_target m)) ''upstream mapping has an unsafe target'') [] mappings"

definition validate_remote_module_url :: "string \<Rightarrow> failure option" where
  "validate_remote_module_url raw = (case url_parse raw of
     None \<Rightarrow> Some ''invalid URL''
   | Some u \<Rightarrow> first_some
      [fail_if (u_scheme u \<noteq> ''https'') ''extension resources must use https'',
       fail_if (url_hostname u = [] \<or> u_user u \<noteq> None) ''extension resource URL must have a host and no userinfo'',
       fail_if (u_fragment u \<noteq> []) ''extension resource URL must not contain a fragment''])"

definition hex_byte :: "char \<Rightarrow> bool" where
  "hex_byte c \<longleftrightarrow> is_digit c \<or> 97 \<le> char_code c \<and> char_code c \<le> 102 \<or> 65 \<le> char_code c \<and> char_code c \<le> 70"

definition valid_sha256 :: "string \<Rightarrow> bool" where
  "valid_sha256 v \<longleftrightarrow> length v = 64 \<and> v = to_lower v \<and> list_all hex_byte v"

definition valid_intercept_module_id :: "string \<Rightarrow> bool" where
  "valid_intercept_module_id i \<longleftrightarrow> length i \<ge> 3 \<and> length i \<le> 40 \<and> extension_id_pattern i"

definition validate_intercept_capture_dns :: "string \<Rightarrow> failure option" where
  "validate_intercept_capture_dns v = fail_if (v \<noteq> ''trust'' \<and> v \<noteq> ''china'') ''capture_dns must be trust or china''"

definition check_intercept_action :: "icp_lib \<Rightarrow> string list \<Rightarrow> script_rule \<Rightarrow> failure option" where
  "check_intercept_action L capture_hosts r = first_some
     [fail_if (sc_phase r \<noteq> ''request'' \<and> sc_phase r \<noteq> ''response'') ''action has an invalid phase'',
      validate_intercept_action_match L capture_hosts (sc_phase r) (sc_match r),
      fail_if (length (sc_url r) > 4096) ''action URL exceeds 4096 bytes'',
      (if sc_url r \<noteq> [] then validate_remote_module_url (sc_url r) else None),
      fail_if (length (sc_body r) = 0 \<or> length (sc_body r) > 2 ^ 20) ''action source must contain 1 to 1048576 bytes'',
      fail_if (\<not> valid_sha256 (sc_digest r) \<or> sc_digest r \<noteq> il_digest L (sc_body r))
        ''action digest does not match its immutable script snapshot'',
      fail_if (sc_body_mode r \<noteq> ''none'' \<and> sc_body_mode r \<noteq> ''text'' \<and> sc_body_mode r \<noteq> ''binary'')
        ''action body_mode must be none, text, or binary'',
      fail_if (sc_timeout_ms r < 50 \<or> sc_timeout_ms r > 30000) ''action timeout_ms must be between 50 and 30000'',
      fail_if (sc_max_body_bytes r < 1024 \<or> sc_max_body_bytes r > 64 * 2 ^ 20) ''action max_body_bytes must be between 1024 and 67108864'']"

definition validate_intercept_module :: "icp_lib \<Rightarrow> module_snapshot \<Rightarrow> failure option" where
  "validate_intercept_module L m = first_some
     [fail_if (\<not> valid_intercept_module_id (em_id m)) ''id must be a lowercase dotted extension identifier'',
      fail_if (trim_space (em_version m) = [] \<or> length (em_version m) > 64) ''extension_version must contain 1 to 64 bytes'',
      fail_if (trim_space (em_name m) = [] \<or> length (em_name m) > 128) ''name must contain 1 to 128 bytes'',
      fail_if (length (em_description m) > 1024) ''description exceeds 1024 bytes'',
      fail_if (length (so_url (em_source m)) > 4096) ''source URL exceeds 4096 bytes'',
      (if so_url (em_source m) \<noteq> [] then validate_remote_module_url (so_url (em_source m)) else None),
      fail_if (\<not> valid_sha256 (so_digest (em_source m)) \<or> so_digest (em_source m) \<noteq> il_digest L (so_body (em_source m)))
        ''source digest does not match the immutable manifest snapshot'',
      fail_if (length (so_body (em_source m)) = 0 \<or> length (so_body (em_source m)) > 2 * 2 ^ 20)
        ''manifest snapshot must contain 1 to 2097152 bytes'',
      fail_if (\<not> il_rfc3339 L (em_imported_at m)) ''imported_at must be RFC3339'',
      fail_if (length (em_capture_hosts m) = 0 \<or> length (em_capture_hosts m) > 512) ''capture_hosts must contain 1 to 512 entries'',
      fail_if (\<not> sorted (em_capture_hosts m)) ''capture_hosts must be canonical and sorted'',
      each validate_intercept_host_pattern (em_capture_hosts m),
      validate_intercept_capture_dns (em_capture_dns m),
      validate_intercept_network_origins (em_network_origins m),
      validate_intercept_egress_group_binding (em_egress_group m),
      fail_if (em_enabled m \<and> em_egress_required m \<and> em_egress_group m = []) ''egress_group is required before enable'',
      fail_if (length (em_scripts m) + length (em_host_mappings m) = 0) ''extension has no actions or upstream mappings'',
      fail_if (length (em_scripts m) + length (em_host_mappings m) > 256) ''extension exceeds 256 actions and upstream mappings'',
      validate_intercept_module_settings L (em_settings m) (em_enabled m),
      validate_intercept_host_mappings (em_capture_hosts m) (em_host_mappings m),
      validate_intercept_routing_rules (em_routing_rules m),
      each_unique sc_id (\<lambda>r. fail_if (\<not> valid_module_setting_key (sc_id r)) ''action has an invalid id'') ''duplicate action id''
        (check_intercept_action L (em_capture_hosts m)) [] (em_scripts m),
      fail_if (sum_list (map (\<lambda>r. length (sc_body r)) (em_scripts m)) > 8 * 2 ^ 20) ''extension script snapshots exceed 8388608 bytes'',
      fail_if (em_enabled m \<and> \<not> intercept_module_settings_ready L (em_settings m))
        ''required extension settings must be configured before enable'']"

section \<open>The document\<close>

fun validate_intercept_modules_loop ::
    "icp_lib \<Rightarrow> string list \<Rightarrow> (string, string) go_map \<Rightarrow> nat \<Rightarrow> module_snapshot list \<Rightarrow> failure option" where
  "validate_intercept_modules_loop L ids active_mappings active_rules [] = None"
| "validate_intercept_modules_loop L ids active_mappings active_rules (m # ms) =
     (case first_some
        [fail_if (\<not> valid_intercept_module_id (em_id m)) ''extension has an invalid id'',
         fail_if (em_id m \<in> set ids) ''duplicate interception extension id'',
         validate_intercept_module L m] of
        Some e \<Rightarrow> Some e
      | None \<Rightarrow>
         if em_enabled m then
           (let rules = active_rules + length (em_routing_rules m) in
            if rules > 2048 then Some ''enabled extensions exceed 2048 declared routing rules''
            else case merge_mappings active_mappings (em_host_mappings m) of
               Inl e \<Rightarrow> Some e
             | Inr active \<Rightarrow> validate_intercept_modules_loop L (em_id m # ids) active rules ms)
         else validate_intercept_modules_loop L (em_id m # ids) active_mappings active_rules ms)"

definition validate_intercept_modules :: "icp_lib \<Rightarrow> module_snapshot list \<Rightarrow> failure option" where
  "validate_intercept_modules L modules =
     (if length modules > 64 then Some ''at most 64 interception extensions are allowed''
      else validate_intercept_modules_loop L [] [] 0 modules)"

definition validate_intercept_execution_order :: "module_snapshot list \<Rightarrow> string list option \<Rightarrow> failure option" where
  "validate_intercept_execution_order modules order_opt = (case order_opt of
     None \<Rightarrow> Some ''execution_order is required''
   | Some order \<Rightarrow>
      if length order \<noteq> length modules then Some ''execution_order must contain every interception extension id exactly once''
      else each_unique id
        (\<lambda>i. fail_if (i \<notin> set (map em_id modules)) ''execution_order contains unknown interception extension id'')
        ''execution_order contains duplicate interception extension id'' no_check [] order)"

text \<open>\<open>uniqueSortedStrings\<close>\<close>

definition unique_sorted_strings :: "string list \<Rightarrow> string list" where
  "unique_sorted_strings values = sort (remdups (filter (\<lambda>v. v \<noteq> []) (map trim_space values)))"

definition certificate_intercept_hosts :: "module_document \<Rightarrow> string list" where
  "certificate_intercept_hosts d = unique_sorted_strings (concat (map em_capture_hosts (filter em_enabled (cf_modules d))))"

definition active_intercept_hosts :: "module_document \<Rightarrow> string list" where
  "active_intercept_hosts d = (if \<not> mt_enabled (cf_mitm d) then [] else certificate_intercept_hosts d)"

definition validate_intercept_document :: "icp_lib \<Rightarrow> module_document \<Rightarrow> failure option" where
  "validate_intercept_document L d = first_some
     [fail_if (cf_version d \<noteq> 5) ''interception config version must be 5'',
      fail_if (cf_listen d \<noteq> ''127.0.0.1:18080'' \<or> px_address (cf_upstream_proxy d) \<noteq> ''127.0.0.1:17890'')
        ''interception SOCKS addresses do not match the fixed loopback boundary'',
      fail_if (length (cf_username d) < 16 \<or> length (cf_password d) < 24 \<or> length (px_username (cf_upstream_proxy d)) < 16 \<or>
        length (px_password (cf_upstream_proxy d)) < 24) ''interception SOCKS credentials are missing or too short'',
      fail_if (cf_tls_cert d \<noteq> ''/etc/5gpn/intercept/tls/fullchain.pem'' \<or> cf_tls_key d \<noteq> ''/etc/5gpn/intercept/tls/privkey.pem'')
        ''interception TLS paths do not match the fixed runtime boundary'',
      validate_intercept_modules L (cf_modules d),
      validate_intercept_execution_order (cf_modules d) (cf_execution_order d),
      fail_if (length (certificate_intercept_hosts d) > 512) ''enabled interception modules exceed 512 unique certificate hosts'']"

end
