(* ===== verification/Module_Agree.thy ===== *)
theory Module_Agree
  imports Module_Types
begin

text \<open>
  Both programs check the interception document, each with validators of its own. Here a document that
  the DNS process accepts is shown to be one the proxy accepts, as it arrives there in the file.
\<close>

section \<open>Strings\<close>

lemma length_dropWhile_same: "length (dropWhile P xs) = length xs \<Longrightarrow> dropWhile P xs = xs"
  using length_dropWhile_le [of P "tl xs"] by (cases xs) (auto split: if_splits)

lemma length_trim_space: "length (trim_space s) \<le> length s"
  using length_dropWhile_le [of is_space "rev (dropWhile is_space s)"] length_dropWhile_le [of is_space s]
  by (simp add: trim_space_def drop_while_end_def)

lemma trim_space_same:
  assumes "length (trim_space s) = length s"
  shows "trim_space s = s"
proof -
  have a: "length (dropWhile is_space (rev (dropWhile is_space s))) \<le> length (dropWhile is_space s)" "length (dropWhile is_space s) \<le> length s"
    using length_dropWhile_le [of is_space "rev (dropWhile is_space s)"] length_dropWhile_le [of is_space s] by simp_all
  then have "length (dropWhile is_space s) = length s"
    using assms by (simp add: trim_space_def drop_while_end_def)
  then have s: "dropWhile is_space s = s" by (rule length_dropWhile_same)
  then have "length (dropWhile is_space (rev s)) = length (rev s)" using assms by (simp add: trim_space_def drop_while_end_def)
  from length_dropWhile_same [OF this] show ?thesis by (simp add: trim_space_def drop_while_end_def s)
qed

lemma length_split_host_port: "split_host_port s = Some (h, p) \<Longrightarrow> length h < length s"
proof -
  assume a: "split_host_port s = Some (h, p)"
  then obtain i where i: "last_index_byte s colon = Some i" by (auto simp: split_host_port_def split: option.splits)
  then have "i < length s" by (cases s) (auto simp: last_index_byte_def index_where_Some split: option.splits)
  then show ?thesis using a i by (auto simp: split_host_port_def split: option.splits if_splits)
qed

lemma length_trim_suffix: "length (trim_suffix s p) \<le> length s"
  by (simp add: trim_suffix_def)

text \<open>A host in its canonical spelling: lower case, without spaces around it and without a final dot.\<close>

lemma canonical_host_fixed:
  assumes "canonical_host h = h" "h \<noteq> []"
  shows "to_lower h = h" "trim_space h = h" "\<not> has_suffix h [dot]"
proof -
  let ?g = "to_lower (trim_space h)"
  define k where "k = (if colon \<in> set ?g then (case split_host_port ?g of Some (parsed, _) \<Rightarrow> parsed | None \<Rightarrow> ?g) else ?g)"
  have e: "trim_suffix k [dot] = h" using assms(1) by (simp add: canonical_host_def k_def Let_def)
  have g: "length ?g \<le> length h" using length_trim_space [of h] by simp
  have kg: "k = ?g \<or> length k < length ?g"
    by (auto simp: k_def split: option.splits dest: length_split_host_port)
  have kh: "length h \<le> length k" using e length_trim_suffix [of k "[dot]"] by simp
  then have k: "k = ?g" "length ?g = length h" using g kg by auto
  then show t: "trim_space h = h" by (simp add: trim_space_same)
  have n: "\<not> has_suffix k [dot]"
  proof
    assume d: "has_suffix k [dot]"
    then have "k \<noteq> []" by (auto simp: has_suffix_iff)
    then have "length (trim_suffix k [dot]) < length k" using d by (simp add: trim_suffix_def)
    then show False using e k by simp
  qed
  then have "k = h" using e by (simp add: trim_suffix_def)
  then show "to_lower h = h" "\<not> has_suffix h [dot]" using k n t by simp_all
qed

lemma trim_suffix_none [simp]: "\<not> has_suffix s p \<Longrightarrow> trim_suffix s p = s"
  by (simp add: trim_suffix_def)

section \<open>Domains\<close>

lemma set_split_on: "set s \<subseteq> insert x (\<Union>p\<in>set (Go_Path.split_on x s). set p)"
proof (induction x s rule: Go_Path.split_on.induct)
  case (2 x c s)
  then show ?case by (cases "Go_Path.split_on x s"; cases "c = x") (auto simp: split_on_ne)
qed simp

lemma split_on_single: "Go_Path.split_on x s = [p] \<Longrightarrow> s = p"
proof (cases "x \<in> set s")
  case True
  then obtain a b where "s = a @ x # b" by (meson split_list)
  then have "length (Go_Path.split_on x s) = length (Go_Path.split_on x a) + length (Go_Path.split_on x b)" by (simp add: split_on_at)
  moreover have "length (Go_Path.split_on x a) > 0" "length (Go_Path.split_on x b) > 0" by simp_all
  ultimately show "Go_Path.split_on x s = [p] \<Longrightarrow> s = p" by simp
qed (simp add: split_on_none)

lemma last_split_on: "\<exists>t. s = t @ last (Go_Path.split_on x s)"
proof (induction x s rule: Go_Path.split_on.induct)
  case (2 x c s)
  then obtain t where t: "s = t @ last (Go_Path.split_on x s)" by (cases "c = x") auto
  obtain p ps where p: "Go_Path.split_on x s = p # ps" by (cases "Go_Path.split_on x s") (simp_all add: split_on_ne)
  show ?case
  proof (cases "c = x")
    case True
    then show ?thesis using t p by (intro exI [of _ "c # t"]) simp
  next
    case False
    then show ?thesis using t p split_on_single [of x s p] by (cases ps) (auto intro: exI [of _ "c # t"])
  qed
qed simp

lemma split_on_two: "length (Go_Path.split_on x s) \<ge> 2 \<Longrightarrow> x \<in> set s"
  using split_on_none [of x s] by (cases "x \<in> set s") auto

lemma last_label_valid:
  assumes "2 \<le> length l" "length l \<le> 63" "list_all lower_letter l"
  shows "valid_host_label l"
proof -
  have "\<not> lower_letter (CHR ''-'')" by code_simp
  moreover have "lower_letter (hd l)" "lower_letter (last l)"
    using assms by (cases l; simp add: list_all_iff)+
  ultimately show ?thesis
    using assms by (auto simp: valid_host_label_def list_all_iff lower_letter_def host_label_char_def)
qed

lemma domain_labels:
  assumes "canonical_routing_domain_pattern s"
  shows "list_all valid_host_label (Go_Path.split_on dot s)" "dot \<in> set s" "CHR ''*'' \<notin> set s" "\<forall>c\<in>set s. host_label_char c \<or> c = dot"
    "lower_letter (last s)" "s \<noteq> []"
proof -
  let ?ls = "Go_Path.split_on dot s"
  have l: "length ?ls \<ge> 2" "list_all valid_host_label (butlast ?ls)" "valid_host_label (last ?ls)"
    using assms last_label_valid by (auto simp: canonical_routing_domain_pattern_def Let_def)
  have "list_all valid_host_label (butlast ?ls @ [last ?ls])" using l by (simp del: append_butlast_last_id)
  then show v: "list_all valid_host_label ?ls" by (simp only: append_butlast_last_id split_on_ne not_False_eq_True)
  show "dot \<in> set s" by (rule split_on_two [OF l(1)])
  show all: "\<forall>c\<in>set s. host_label_char c \<or> c = dot"
  proof
    fix c assume "c \<in> set s"
    then have "c = dot \<or> (\<exists>p\<in>set ?ls. c \<in> set p)" using set_split_on [of s dot] by auto
    then show "host_label_char c \<or> c = dot" using v by (auto simp: list_all_iff valid_host_label_def)
  qed
  moreover have "\<not> host_label_char (CHR ''*'')" "CHR ''*'' \<noteq> dot" by code_simp+
  ultimately show "CHR ''*'' \<notin> set s" by blast
  show "s \<noteq> []" using \<open>dot \<in> set s\<close> by auto
  obtain t where t: "s = t @ last ?ls" using last_split_on by blast
  have "last ?ls \<noteq> []" "list_all lower_letter (last ?ls)"
    using assms by (auto simp: canonical_routing_domain_pattern_def Let_def)
  then have "lower_letter (last (last ?ls))" "last s = last (last ?ls)"
    by (auto simp: list_all_iff) (metis t last_appendR)
  then show "lower_letter (last s)" by simp
qed

lemma is_valid_domain_lower:
  "is_valid_domain h \<Longrightarrow> to_lower h = h \<Longrightarrow> canonical_routing_domain_pattern h \<and> length h \<le> 253"
  by (simp add: is_valid_domain_def Let_def)

lemma label_char_no_space: "host_label_char c \<or> c = dot \<Longrightarrow> \<not> is_space c"
  by (auto simp: host_label_char_def is_space_def is_digit_def char_code_def dot_def)

lemma domain_no_space: "canonical_routing_domain_pattern s \<Longrightarrow> trim_space s = s"
  using domain_labels(4) [of s] label_char_no_space
  by (intro trim_space_id) blast

section \<open>Hosts\<close>

lemma valid_host_pattern_exact:
  assumes "canonical_routing_domain_pattern h" "length h \<le> 253" "to_lower h = h"
  shows "valid_host_pattern h"
proof -
  note d = domain_labels [OF assms(1)]
  have "\<not> has_prefix h star_dot" using d(3) by (auto simp: has_prefix_iff star_dot_def)
  then show ?thesis using d assms domain_no_space [OF assms(1)] by (simp add: valid_host_pattern_def Let_def)
qed

lemma normalized_fixed:
  assumes "normalize_intercept_host_pattern h = Inr h"
  shows "validate_intercept_host_pattern h = None" "to_lower h = h" "trim_space h = h" "\<not> has_suffix h [dot]"
proof -
  let ?g = "to_lower (trim_space h)"
  have e: "trim_suffix ?g [dot] = h" and v: "validate_intercept_host_pattern h = None"
    using assms by (auto simp: normalize_intercept_host_pattern_def Let_def split: option.splits)
  show "validate_intercept_host_pattern h = None" by (rule v)
  have l: "length ?g = length h"
    using length_trim_space [of h] length_trim_suffix [of ?g "[dot]"] unfolding e by simp
  then show t: "trim_space h = h" by (simp add: trim_space_same)
  have "\<not> has_suffix ?g [dot]"
  proof
    assume d: "has_suffix ?g [dot]"
    then have "length (trim_suffix ?g [dot]) < length ?g" by (auto simp: trim_suffix_def has_suffix_def)
    then show False unfolding e using l by simp
  qed
  with e t show "\<not> has_suffix h [dot]" "to_lower h = h" by simp_all
qed

lemma host_pattern_agrees:
  assumes "normalize_intercept_host_pattern h = Inr h"
  shows "valid_host_pattern h"
proof -
  note c = normalized_fixed(2-4) [OF assms] and v = normalized_fixed(1) [OF assms]
  show ?thesis
  proof (cases "has_prefix h star_dot")
    case True
    let ?b = "trim_prefix h star_dot"
    have h: "h = star_dot @ ?b" using True by (rule star_dot_prefix)
    have b: "is_valid_domain ?b" using v True by (simp add: validate_intercept_host_pattern_def c Let_def)
    have "to_lower ?b = ?b" using c(1) h by (metis append_eq_append_conv length_to_lower to_lower_append)
    from is_valid_domain_lower [OF b this] domain_labels show ?thesis
      by (simp add: valid_host_pattern_def c True Let_def)
  next
    case False
    then have "is_valid_domain h" using v by (simp add: validate_intercept_host_pattern_def c Let_def)
    from is_valid_domain_lower [OF this c(1)] show ?thesis by (intro valid_host_pattern_exact) (simp_all add: c)
  qed
qed

lemma host_covered_same: "intercept_host_covered_by = host_covered_by"
proof -
  have "intercept_host_pattern_covers a c = host_pattern_covers a c" for a c
    by (simp add: intercept_host_pattern_covers_def host_pattern_covers_def)
  then show ?thesis by (intro ext) (simp add: intercept_host_covered_by_def host_covered_by_def)
qed

lemma domain_not_star: "is_valid_domain t \<Longrightarrow> to_lower t = t \<Longrightarrow> \<not> has_prefix t star_dot"
  using domain_labels(3) is_valid_domain_lower by (force simp: has_prefix_iff star_dot_def)

lemma target_agrees:
  assumes "valid_intercept_host_target t" "canonical_host t = t"
  shows "valid_host_target t"
proof (cases "t = []")
  case True
  have "\<not> valid_intercept_host_target []" by code_simp
  then show ?thesis using assms(1) True by simp
next
  case False
  note c = canonical_host_fixed [OF assms(2) False]
  show ?thesis
  proof (cases "parse_ip t")
    case None
    then have "is_valid_domain t" using assms(1) by (simp add: valid_intercept_host_target_def c Let_def)
    then show ?thesis
      using None assms domain_not_star [OF _ c(1)] is_valid_domain_lower [OF _ c(1)] valid_host_pattern_exact [OF _ _ c(1)]
      by (auto simp: valid_intercept_host_target_def valid_host_target_def c Let_def)
  next
    case (Some a)
    then show ?thesis using assms by (auto simp: valid_intercept_host_target_def valid_host_target_def c Let_def)
  qed
qed

section \<open>Network origins\<close>

lemma trim_space_ends: "s \<noteq> [] \<Longrightarrow> \<not> is_space (hd s) \<Longrightarrow> \<not> is_space (last s) \<Longrightarrow> trim_space s = s"
  by (cases s) (simp_all add: trim_space_def drop_while_end_id)

lemma to_lower_trim_suffix_dot: "trim_suffix (to_lower x) [dot] = to_lower (trim_suffix x [dot])"
proof (cases x rule: rev_cases)
  case (snoc y c)
  have "to_lower [c] = [to_lower_char c]" by (simp add: to_lower_def)
  then show ?thesis using snoc
    by (cases "c = dot") (auto simp: trim_suffix_def has_suffix_def to_lower_append)
qed (simp add: trim_suffix_def has_suffix_def)

lemma set_of_trim_suffix_dot: "set x \<subseteq> insert dot (set (trim_suffix x [dot]))"
  by (cases x rule: rev_cases) (auto simp: trim_suffix_def has_suffix_def)

lemma not_label_chars: "\<not> host_label_char colon" "colon \<noteq> dot"
  by code_simp+

lemma canonical_hostname:
  assumes "canonical_routing_domain_pattern (to_lower (trim_suffix x [dot]))"
  shows "canonical_host x = to_lower (trim_suffix x [dot])"
proof -
  have l: "host_label_char (to_lower_char c) \<or> c = dot" if "c \<in> set x" for c
  proof -
    have "c = dot \<or> to_lower_char c \<in> set (to_lower (trim_suffix x [dot]))"
      using that set_of_trim_suffix_dot [of x] by (auto simp: to_lower_def)
    then show ?thesis using domain_labels(4) [OF assms] by auto
  qed
  have "trim_space x = x"
  proof (intro trim_space_id ballI)
    fix c assume "c \<in> set x"
    then show "\<not> is_space c" using l [of c]
      by (auto simp: host_label_char_def is_space_def is_digit_def char_code_def dot_def to_lower_char_def split: if_splits)
  qed
  moreover have "colon \<notin> set (to_lower x)"
  proof
    assume "colon \<in> set (to_lower x)"
    then obtain c where "c \<in> set x" "to_lower_char c = colon" by (auto simp: to_lower_def)
    then show False using l [of c] not_label_chars by (metis to_lower_char_dot)
  qed
  ultimately show ?thesis by (simp add: canonical_host_def Let_def to_lower_trim_suffix_dot)
qed

lemma canonical_domain_fixed:
  assumes "canonical_routing_domain_pattern h" "to_lower h = h"
  shows "canonical_host h = h"
proof -
  note d = domain_labels [OF assms(1)]
  have "lower_letter (last h)" "h \<noteq> []" using d by simp_all
  moreover have "\<not> lower_letter dot" by code_simp
  ultimately have "\<not> has_suffix h [dot]" by (auto simp: has_suffix_iff)
  then show ?thesis using canonical_hostname [of h] assms by simp
qed

lemma show_nat_inj: "show_nat a = show_nat b \<longleftrightarrow> a = b"
  by (metis decimal_value_show)

lemma parsed_origin:
  assumes "parse_intercept_network_origin raw = Inr (canonical, host, port)"
  obtains u where "trim_space raw \<noteq> []" "length (trim_space raw) \<le> 4096" "url_parse (trim_space raw) = Some u"
    "to_lower (u_scheme u) = ''http'' \<or> to_lower (u_scheme u) = ''https''"
    "u_opaque u = []" "u_user u = None" "u_path u = [] \<or> u_path u = [slash]" "u_raw_query u = []" "\<not> u_force_query u" "u_fragment u = []"
    "host = to_lower (trim_suffix (url_hostname u) [dot])" "parse_ip host = None" "is_valid_domain host"
    "host \<noteq> ''localhost''" "\<not> has_suffix host ''.local''" "\<not> has_suffix (u_host u) [colon]"
    "(if url_port u \<noteq> [] then go_atoi (url_port u) else Some (if to_lower (u_scheme u) = ''https'' then 443 else 80)) = Some port"
    "1 \<le> port" "port \<le> 65535"
    "canonical = to_lower (u_scheme u) @ ''://'' @ host @
       (if port \<noteq> (if to_lower (u_scheme u) = ''https'' then 443 else 80) then '':'' @ show_nat (nat port) else [])"
  using assms unfolding parse_intercept_network_origin_def Let_def
  by (auto split: if_splits option.splits)

lemma origin_trimmed:
  assumes "scheme = ''http'' \<or> scheme = ''https''" "host \<noteq> []" "lower_letter (last host)"
  shows "trim_space (scheme @ ''://'' @ host @ (if b then '':'' @ show_nat n else [])) = scheme @ ''://'' @ host @ (if b then '':'' @ show_nat n else [])"
proof (rule trim_space_ends)
  let ?o = "scheme @ ''://'' @ host @ (if b then '':'' @ show_nat n else [])"
  show "?o \<noteq> []" by simp
  have "\<not> is_space (CHR ''h'')" by code_simp
  then show "\<not> is_space (hd ?o)" using assms(1) by auto
  have "\<not> is_space (last (show_nat n))"
    using show_nat_digits [of "last (show_nat n)" n] last_in_set [of "show_nat n"]
    by (auto simp: is_digit_def is_space_def char_code_def)
  moreover have "\<not> is_space (last host)" using assms(3) by (auto simp: lower_letter_def is_space_def char_code_def)
  ultimately show "\<not> is_space (last ?o)" using assms(2) by auto
qed

lemma default_ports:
  "go_atoi ''443'' = Some 443" "go_atoi ''80'' = Some 80" "show_nat 443 = ''443''" "show_nat 80 = ''80''"
  by code_simp+

lemma port_agrees:
  assumes "(if p \<noteq> [] then go_atoi p else Some (if https then 443 else 80)) = Some port" "1 \<le> port" "port \<le> 65535"
  shows "go_atoi (if p = [] then (if https then ''443'' else ''80'') else p) = Some port"
    "show_nat (nat port) = (if https then ''443'' else ''80'') \<longleftrightarrow> port = (if https then 443 else 80)"
proof -
  show "go_atoi (if p = [] then (if https then ''443'' else ''80'') else p) = Some port"
    using assms(1) default_ports by (auto split: if_splits)
  have "show_nat (nat port) = show_nat k \<longleftrightarrow> port = int k" for k using assms(2) by (auto simp: show_nat_inj)
  from this [of 443] this [of 80]
  show "show_nat (nat port) = (if https then ''443'' else ''80'') \<longleftrightarrow> port = (if https then 443 else 80)"
    by (simp add: default_ports)
qed

lemma origin_agrees:
  assumes "normalize_intercept_network_origin raw = Inr raw"
  shows "canonical_module_network_origin raw = Some raw"
proof -
  obtain host port where p: "parse_intercept_network_origin raw = Inr (raw, host, port)"
    using assms by (cases "parse_intercept_network_origin raw") (auto simp: normalize_intercept_network_origin_def)
  from p obtain u where u: "trim_space raw \<noteq> []" "length (trim_space raw) \<le> 4096" "url_parse (trim_space raw) = Some u"
    "to_lower (u_scheme u) = ''http'' \<or> to_lower (u_scheme u) = ''https''"
    "u_opaque u = []" "u_user u = None" "u_path u = [] \<or> u_path u = [slash]" "u_raw_query u = []" "\<not> u_force_query u" "u_fragment u = []"
    and h: "host = to_lower (trim_suffix (url_hostname u) [dot])" "parse_ip host = None" "is_valid_domain host"
    "host \<noteq> ''localhost''" "\<not> has_suffix host ''.local''" and c: "\<not> has_suffix (u_host u) [colon]"
    and port: "(if url_port u \<noteq> [] then go_atoi (url_port u) else Some (if to_lower (u_scheme u) = ''https'' then 443 else 80)) = Some port"
    "1 \<le> port" "port \<le> 65535"
    and raw: "raw = to_lower (u_scheme u) @ ''://'' @ host @
       (if port \<noteq> (if to_lower (u_scheme u) = ''https'' then 443 else 80) then '':'' @ show_nat (nat port) else [])"
    by (rule parsed_origin)
  have l: "to_lower host = host" unfolding h(1) by simp
  note d = is_valid_domain_lower [OF h(3) l]
  note labels = domain_labels [OF conjunct1 [OF d]]
  have t: "trim_space raw = raw"
    unfolding raw by (rule origin_trimmed [OF u(4) labels(6,5)])
  have ch: "canonical_host (url_hostname u) = host" using canonical_hostname d by (simp add: h(1))
  have cc: "canonical_host host = host" using canonical_domain_fixed d l by blast
  have nc: "colon \<notin> set host" using labels(4) not_label_chars by blast
  have vt: "valid_host_target host"
    using h(2,4,5) domain_not_star [OF h(3) l] valid_host_pattern_exact [OF conjunct1 [OF d] conjunct2 [OF d] l]
    by (simp add: valid_host_target_def cc Let_def)
  note pa = port_agrees [OF port]
  show ?thesis
    unfolding canonical_module_network_origin_def Let_def t
    using u(1-3,5-10) c t pa port labels(6) h(2) vt nc u(4) raw
    by (simp add: ch join_host_port_def)
qed

section \<open>Settings\<close>

lemma location_agrees: "check_intercept_location v full = None \<longleftrightarrow> check_location v full = None"
  by (auto simp: check_intercept_location_def check_location_def)

lemma setting_value_agrees:
  "validate_intercept_setting_value L s raw full = None \<longleftrightarrow> validate_setting_value L s raw full = None"
proof -
  have [simp]: "list_ex (\<lambda>x. x = v) xs \<longleftrightarrow> v \<in> set xs" for v :: string and xs by (auto simp: list_ex_iff)
  show ?thesis
    by (simp add: validate_intercept_setting_value_def validate_setting_value_def location_agrees split: option.splits)
qed

lemma setting_definition_agrees:
  "validate_intercept_setting_definition L s = None \<longleftrightarrow> validate_setting_definition L s = None"
  by (auto simp: validate_intercept_setting_definition_def validate_setting_definition_def setting_value_agrees)

lemma setting_ready_agrees: "intercept_setting_ready L s \<longleftrightarrow> setting_ready L s"
  by (simp add: intercept_setting_ready_def setting_ready_def setting_value_agrees)

lemma settings_ready_agrees: "intercept_module_settings_ready L ss \<longleftrightarrow> module_settings_ready L ss"
  by (auto simp: intercept_module_settings_ready_def module_settings_ready_def setting_ready_agrees list_ex_iff list_all_iff)

lemma setting_key_agrees: "valid_module_setting_key k \<longleftrightarrow> valid_setting_key k"
  by (auto simp: valid_module_setting_key_def valid_setting_key_def list_all_iff)

lemma settings_agree: "validate_intercept_module_settings L ss ready = None \<longleftrightarrow> validate_module_settings L ss ready = None"
  by (simp add: validate_intercept_module_settings_def validate_module_settings_def setting_definition_agrees
      setting_ready_agrees setting_key_agrees)

section \<open>The document in the file\<close>

text \<open>A field left out when it is empty, and decoded into a pointer by the proxy.\<close>

definition unless_empty :: "'a list \<Rightarrow> 'a list option" where
  "unless_empty xs = (if xs = [] then None else Some xs)"

definition written_rule :: "intercept_routing_rule \<Rightarrow> routing_rule" where
  "written_rule r = \<lparr>rr_action = ir_action r, rr_domain = unless_empty (ir_domain r),
     rr_domain_suffix = unless_empty (ir_domain_suffix r), rr_domain_keywords = unless_empty (ir_domain_keywords r),
     rr_all_domain_keywords = unless_empty (ir_all_domain_keywords r), rr_ip_cidr = unless_empty (ir_ip_cidr r),
     rr_network = unless_empty (ir_network r),
     rr_destination_port = (if ir_destination_port r = 0 then None else Some (ir_destination_port r))\<rparr>"

definition written_module :: "module_snapshot \<Rightarrow> routing_rule ext_module" where
  "written_module m = \<lparr>em_id = em_id m, em_version = em_version m, em_name = em_name m, em_description = em_description m,
     em_enabled = em_enabled m, em_imported_at = em_imported_at m, em_source = em_source m,
     em_capture_hosts = em_capture_hosts m, em_capture_dns = em_capture_dns m, em_host_mappings = em_host_mappings m,
     em_routing_rules = map written_rule (em_routing_rules m), em_settings = em_settings m, em_scripts = em_scripts m,
     em_persistent_storage = em_persistent_storage m, em_network_origins = em_network_origins m,
     em_egress_required = em_egress_required m, em_egress_group = em_egress_group m\<rparr>"

definition written_document :: "module_document \<Rightarrow> routing_rule config_document" where
  "written_document d = \<lparr>cf_version = cf_version d, cf_execution_order = cf_execution_order d, cf_listen = cf_listen d,
     cf_username = cf_username d, cf_password = cf_password d, cf_tls_cert = cf_tls_cert d, cf_tls_key = cf_tls_key d,
     cf_upstream_proxy = cf_upstream_proxy d, cf_mitm = cf_mitm d, cf_modules = map written_module (cf_modules d)\<rparr>"

lemma written_module_simps [simp]:
  "em_id (written_module m) = em_id m" "em_version (written_module m) = em_version m" "em_name (written_module m) = em_name m"
  "em_description (written_module m) = em_description m" "em_enabled (written_module m) = em_enabled m"
  "em_imported_at (written_module m) = em_imported_at m" "em_source (written_module m) = em_source m"
  "em_capture_hosts (written_module m) = em_capture_hosts m" "em_capture_dns (written_module m) = em_capture_dns m"
  "em_host_mappings (written_module m) = em_host_mappings m"
  "em_routing_rules (written_module m) = map written_rule (em_routing_rules m)"
  "em_settings (written_module m) = em_settings m" "em_scripts (written_module m) = em_scripts m"
  "em_network_origins (written_module m) = em_network_origins m" "em_egress_required (written_module m) = em_egress_required m"
  "em_egress_group (written_module m) = em_egress_group m" "em_persistent_storage (written_module m) = em_persistent_storage m"
  by (simp_all add: written_module_def)

lemma written_document_simps [simp]:
  "cf_modules (written_document d) = map written_module (cf_modules d)" "cf_version (written_document d) = cf_version d"
  "cf_execution_order (written_document d) = cf_execution_order d" "cf_listen (written_document d) = cf_listen d"
  "cf_username (written_document d) = cf_username d" "cf_password (written_document d) = cf_password d"
  "cf_tls_cert (written_document d) = cf_tls_cert d" "cf_tls_key (written_document d) = cf_tls_key d"
  "cf_upstream_proxy (written_document d) = cf_upstream_proxy d" "cf_mitm (written_document d) = cf_mitm d"
  by (simp_all add: written_document_def)

section \<open>Routing rules\<close>

lemma unless_empty_simps [simp]:
  "unless_empty xs = None \<longleftrightarrow> xs = []" "unless_empty xs = Some ys \<longleftrightarrow> ys \<noteq> [] \<and> xs = ys"
  by (auto simp: unless_empty_def)

lemma case_unless_empty [simp]:
  "(case unless_empty xs of None \<Rightarrow> a | Some ys \<Rightarrow> f ys) = (if xs = [] then a else f xs)"
  by (simp add: unless_empty_def)

lemma inj_unless_empty: "unless_empty xs = unless_empty ys \<longleftrightarrow> xs = ys"
  by (auto simp: unless_empty_def split: if_splits)

lemma inj_written_rule: "inj written_rule"
proof (rule injI)
  fix r q :: intercept_routing_rule assume "written_rule r = written_rule q"
  then show "r = q"
    by (cases r; cases q) (auto simp: written_rule_def inj_unless_empty split: if_splits)
qed

lemma route_domain_agrees:
  "valid_canonical_route_domain v \<Longrightarrow> valid_canonical_routing_domain v"
  by (auto simp: valid_canonical_route_domain_def valid_canonical_routing_domain_def is_valid_domain_def Let_def)

lemma rule_agrees:
  assumes "validate_intercept_routing_rule r = None"
  shows "check_routing_rule (written_rule r) = None"
  using assms route_domain_agrees
  by (auto simp: validate_intercept_routing_rule_def check_routing_rule_def written_rule_def Let_def each_unique_None split: if_splits)

lemma rules_agree:
  assumes "validate_intercept_routing_rules rs = None"
  shows "validate_routing_rules (map written_rule rs) = None"
proof -
  have "length rs \<le> 256" "distinct rs" "\<forall>r\<in>set rs. validate_intercept_routing_rule r = None"
    using assms by (simp_all add: validate_intercept_routing_rules_def)
  then show ?thesis
    using rule_agrees inj_written_rule by (auto simp: validate_routing_rules_def distinct_map inj_on_def)
qed

section \<open>Modules\<close>

text \<open>The spelling the parser of manifests aims at: hosts are their own normal form, targets are lower case
  and bare.
\<close>

definition normal_module :: "module_snapshot \<Rightarrow> bool" where
  "normal_module m \<longleftrightarrow>
     list_all (\<lambda>h. normalize_intercept_host_pattern h = Inr h) (em_capture_hosts m) \<and>
     list_all (\<lambda>r. list_all (\<lambda>h. normalize_intercept_host_pattern h = Inr h) (am_hosts (sc_match r))) (em_scripts m) \<and>
     list_all (\<lambda>hm. canonical_host (hp_target hm) = hp_target hm) (em_host_mappings m)"

definition scripts_compile :: "icp_lib \<Rightarrow> module_snapshot \<Rightarrow> bool" where
  "scripts_compile L m \<longleftrightarrow> list_all (\<lambda>r. il_js_ok L (script_filename (em_id m) r) (sc_body r)) (em_scripts m)"

lemma url_agrees: "validate_remote_module_url raw = None \<Longrightarrow> valid_snapshot_url raw"
  by (auto simp: validate_remote_module_url_def valid_snapshot_url_def split: option.splits)

lemma match_agrees:
  assumes "validate_intercept_action_match L hosts phase m = None"
    and "list_all (\<lambda>h. normalize_intercept_host_pattern h = Inr h) (am_hosts m)"
  shows "validate_action_match L hosts phase m = None"
  using assms host_pattern_agrees
  by (auto simp: validate_intercept_action_match_def validate_action_match_def host_covered_same list_all_iff)

lemma action_agrees:
  assumes "check_intercept_action L (em_capture_hosts m) r = None"
    and "list_all (\<lambda>h. normalize_intercept_host_pattern h = Inr h) (am_hosts (sc_match r))"
    and "il_js_ok L (script_filename (em_id m) r) (sc_body r)"
  shows "check_script L (written_module m) r = None"
  using assms match_agrees [OF _ assms(2)] url_agrees
  by (auto simp: check_intercept_action_def check_script_def split: if_splits)

lemma mappings_agree:
  assumes "validate_intercept_host_mappings hosts ms = None"
    and "list_all (\<lambda>hm. canonical_host (hp_target hm) = hp_target hm) ms"
  shows "validate_host_mappings hosts ms = None"
  using assms host_pattern_agrees target_agrees
  by (auto simp: validate_intercept_host_mappings_def validate_host_mappings_def host_covered_same list_all_iff)

lemma origins_agree_loop:
  "check_intercept_origins previous os = None \<Longrightarrow> sorted os \<Longrightarrow> (\<forall>p. previous = Some p \<longrightarrow> (\<forall>o'\<in>set os. p \<le> o')) \<Longrightarrow>
     check_network_origins (case previous of None \<Rightarrow> [] | Some p \<Rightarrow> p) os = None"
proof (induction previous os rule: check_intercept_origins.induct)
  case (2 previous raw rest)
  have n: "normalize_intercept_network_origin raw = Inr raw" and p: "previous \<noteq> Some raw"
    and r: "check_intercept_origins (Some raw) rest = None"
    using 2(2) by (auto split: sum.splits if_splits)
  have "check_network_origins raw rest = None" using 2(1) [OF n _ p] r 2(3) by auto
  moreover have "\<not> raw \<le> q" if "previous = Some q" for q using that p 2(4) by fastforce
  ultimately show ?case using origin_agrees [OF n] by (cases previous) auto
qed simp

lemma egress_agrees: "validate_intercept_egress_group_binding g = None \<Longrightarrow> g = [] \<or> bad_egress_group g = None \<and> trim_space g = g"
  by (auto simp: validate_intercept_egress_group_binding_def bad_egress_group_def split: if_splits)

lemma permissions_agree:
  assumes "validate_intercept_module L m = None"
  shows "validate_module_network_permissions (written_module m) = None"
proof -
  have "validate_intercept_network_origins (em_network_origins m) = None"
    "validate_intercept_egress_group_binding (em_egress_group m) = None"
    "\<not> (em_enabled m \<and> em_egress_required m \<and> em_egress_group m = [])"
    using assms by (simp_all add: validate_intercept_module_def)
  then show ?thesis
    using origins_agree_loop [of None] egress_agrees [of "em_egress_group m"]
    by (auto simp: validate_intercept_network_origins_def validate_module_network_permissions_def)
qed

lemma module_agrees:
  assumes "validate_intercept_module L m = None" "normal_module m" "scripts_compile L m"
  shows "module_ok L (written_module m)"
proof -
  have "check_module_head L (written_module m) = None"
    using assms(1,2) permissions_agree [OF assms(1)] rules_agree mappings_agree host_pattern_agrees url_agrees
    unfolding validate_intercept_module_def check_module_head_def
    by (auto simp: settings_agree validate_intercept_capture_dns_def normal_module_def list_all_iff split: if_splits)
  moreover have "check_module_scripts L (written_module m) = None"
    using assms action_agrees [of L m]
    by (auto simp: validate_intercept_module_def check_module_scripts_def setting_key_agrees normal_module_def scripts_compile_def list_all_iff)
  moreover have "valid_module_id (em_id m)" "em_enabled m \<longrightarrow> module_settings_ready L (em_settings m)"
    using assms(1) by (auto simp: validate_intercept_module_def valid_intercept_module_id_def valid_module_id_def settings_ready_agrees)
  ultimately show ?thesis by (simp add: module_ok_def)
qed

section \<open>The document\<close>

lemma modules_agree:
  "validate_intercept_modules_loop L ids act n ms = None \<Longrightarrow> \<forall>m\<in>set ms. normal_module m \<and> scripts_compile L m \<Longrightarrow>
     validate_modules_loop L ids act n (map written_module ms) = None"
proof (induction L ids act n ms rule: validate_intercept_modules_loop.induct)
  case (2 L ids act n m ms)
  let ?w = "written_module m"
  let ?F = "first_some
        [fail_if (\<not> valid_intercept_module_id (em_id m)) ''extension has an invalid id'',
         fail_if (em_id m \<in> set ids) ''duplicate interception extension id'', validate_intercept_module L m]"
  have c0: "?F = None" using 2(3) unfolding validate_intercept_modules_loop.simps by (cases ?F) (simp_all only: option.simps)
  then have first: "em_id m \<notin> set ids" "validate_intercept_module L m = None" by simp_all
  have w: "module_ok L ?w" using module_agrees [OF first(2)] 2(4) by simp
  have ok: "valid_module_id (em_id m)" "check_module_head L ?w = None" "check_module_scripts L ?w = None"
    "em_enabled m \<Longrightarrow> module_settings_ready L (em_settings m)"
    using w by (auto simp: module_ok_def)
  show ?case
  proof (cases "em_enabled m")
    case True
    obtain act' where a: "n + length (em_routing_rules m) \<le> 2048" "merge_mappings act (em_host_mappings m) = Inr act'"
      "validate_intercept_modules_loop L (em_id m # ids) act' (n + length (em_routing_rules m)) ms = None"
      using 2(3) True unfolding validate_intercept_modules_loop.simps c0 by (auto simp: Let_def split: if_splits sum.splits)
    have "validate_modules_loop L (em_id m # ids) act' (n + length (em_routing_rules m)) (map written_module ms) = None"
      using 2(1) [OF c0 True refl _ a(2,3)] a(1) 2(4) by simp
    then show ?thesis using a(1,2) True ok first(1) by (simp add: Let_def)
  next
    case False
    then have "validate_modules_loop L (em_id m # ids) act n (map written_module ms) = None"
      using 2(2) [OF c0 False] 2(3,4) unfolding validate_intercept_modules_loop.simps c0 by simp
    then show ?thesis using False ok first(1) by (simp add: Let_def)
  qed
qed simp

lemma remdups_sorted_same: "set xs = set ys \<Longrightarrow> sort (remdups xs) = sort (remdups (ys :: 'a :: linorder list))"
  by (simp add: sorted_list_of_set_sort_remdups [symmetric])

lemma normal_host: "normal_module m \<Longrightarrow> h \<in> set (em_capture_hosts m) \<Longrightarrow> trim_space h = h \<and> to_lower h = h \<and> h \<noteq> []"
proof -
  assume "normal_module m" "h \<in> set (em_capture_hosts m)"
  then have n: "normalize_intercept_host_pattern h = Inr h" by (simp add: normal_module_def list_all_iff)
  have "validate_intercept_host_pattern [] \<noteq> None" by code_simp
  then have "h \<noteq> []" using normalized_fixed(1) [OF n] by metis
  then show ?thesis using normalized_fixed(2,3) [OF n] by simp
qed

lemma certificate_hosts_agree:
  assumes "\<forall>m\<in>set (cf_modules d). normal_module m"
  shows "certificate_host_patterns (written_document d) = certificate_intercept_hosts d"
proof -
  let ?hs = "concat (map em_capture_hosts (filter em_enabled (cf_modules d)))"
  have h: "trim_space h = h \<and> to_lower h = h \<and> h \<noteq> []" if "h \<in> set ?hs" for h
    using that assms normal_host by auto
  have "map (\<lambda>v. to_lower (trim_space v)) ?hs = ?hs" "filter (\<lambda>v. v \<noteq> []) (map trim_space ?hs) = ?hs"
    using h by (auto intro!: map_idI simp: filter_map filter_id_conv comp_def)
  moreover have "concat (map em_capture_hosts (filter em_enabled (map written_module (cf_modules d)))) = ?hs"
    by (simp add: filter_map comp_def)
  ultimately show ?thesis
    by (simp add: certificate_host_patterns_def certificate_intercept_hosts_def unique_sorted_def unique_sorted_strings_def)
qed

lemma order_agrees:
  "validate_intercept_execution_order ms order = None \<Longrightarrow> validate_execution_order (map written_module ms) order = None"
  by (cases order) (auto simp: validate_intercept_execution_order_def execution_order_None comp_def split: if_splits)

lemma fixed_addresses:
  "validate_loopback_address ''127.0.0.1:18080'' = None" "validate_loopback_address ''127.0.0.1:17890'' = None"
  by code_simp+

text \<open>C22: the two programs agree on the document: one that the DNS process accepts and writes is accepted by the
  proxy and by its certificate publisher, which then covers the same hosts, provided its hosts are
  normalised, its credentials fit a SOCKS message and its scripts compile.
\<close>

theorem document_accepted_by_proxy:
  assumes "validate_intercept_document L d = None"
    and "list_all (\<lambda>m. normal_module m \<and> scripts_compile L m) (cf_modules d)"
    and "list_all (\<lambda>s. length s \<le> 255)
      [cf_username d, cf_password d, px_username (cf_upstream_proxy d), px_password (cf_upstream_proxy d)]"
  shows "validate_config L (written_document d) = None \<and> validate_certificate_request (written_document d) = None \<and>
    certificate_host_patterns (written_document d) = certificate_intercept_hosts d"
proof -
  have n: "\<forall>m\<in>set (cf_modules d). normal_module m \<and> scripts_compile L m" using assms(2) by (simp add: list_all_iff)
  then have hosts: "certificate_host_patterns (written_document d) = certificate_intercept_hosts d"
    by (intro certificate_hosts_agree) simp
  have v: "cf_version d = 5" "cf_listen d = ''127.0.0.1:18080''" "px_address (cf_upstream_proxy d) = ''127.0.0.1:17890''"
    "16 \<le> length (cf_username d)" "24 \<le> length (cf_password d)" "16 \<le> length (px_username (cf_upstream_proxy d))"
    "24 \<le> length (px_password (cf_upstream_proxy d))" "cf_tls_cert d = ''/etc/5gpn/intercept/tls/fullchain.pem''"
    "cf_tls_key d = ''/etc/5gpn/intercept/tls/privkey.pem''" "validate_intercept_modules L (cf_modules d) = None"
    "validate_intercept_execution_order (cf_modules d) (cf_execution_order d) = None" "length (certificate_intercept_hosts d) \<le> 512"
    using assms(1) by (auto simp: validate_intercept_document_def)
  have "length (cf_modules d) \<le> 64" "validate_intercept_modules_loop L [] [] 0 (cf_modules d) = None"
    using v(10) by (auto simp: validate_intercept_modules_def split: if_splits)
  then have m: "validate_modules L (map written_module (cf_modules d)) = None"
    using modules_agree n by (simp add: validate_modules_def)
  have "trim_space ''/etc/5gpn/intercept/tls/fullchain.pem'' \<noteq> []" "trim_space ''/etc/5gpn/intercept/tls/privkey.pem'' \<noteq> []"
    by code_simp+
  then have c: "validate_config L (written_document d) = None"
    using v m order_agrees [OF v(11)] assms(3) hosts
    by (simp add: validate_config_def fixed_addresses)
  have "validate_deployment (written_document d) = None" using v by (simp add: validate_deployment_def)
  then show ?thesis using c hosts certificate_request_accepts_valid [OF c] by simp
qed

section \<open>Examples\<close>

definition ex_digest :: string where "ex_digest = replicate 64 (CHR ''a'')"

definition ex_module_lib :: icp_lib where
  "ex_module_lib = ex_icp_lib\<lparr>il_digest := (\<lambda>s. ex_digest)\<rparr>"

definition ex_snapshot :: module_snapshot where
  "ex_snapshot = \<lparr>em_id = ''demo.ext'', em_version = ''1.0.0'', em_name = ''Demo'', em_description = [], em_enabled = True,
     em_imported_at = ''2025-01-01T00:00:00Z'', em_source = \<lparr>so_url = [], so_digest = ex_digest, so_body = ''kind: Extension''\<rparr>,
     em_capture_hosts = [''*.example.com''], em_capture_dns = ''trust'',
     em_host_mappings = [\<lparr>hp_pattern = ''*.cdn.example.com'', hp_target = ''origin.example.net''\<rparr>],
     em_routing_rules = [\<lparr>ir_action = ''reject'', ir_domain = ''ads.example.com'', ir_domain_suffix = [],
       ir_domain_keywords = [], ir_all_domain_keywords = [], ir_ip_cidr = [], ir_network = ''udp'', ir_destination_port = 443\<rparr>],
     em_settings = em_settings ex_module, em_scripts = [ex_script\<lparr>sc_digest := ex_digest\<rparr>], em_persistent_storage = True,
     em_network_origins = [''https://api.example.net''], em_egress_required = False, em_egress_group = []\<rparr>"

definition ex_module_document :: module_document where
  "ex_module_document = \<lparr>cf_version = 5, cf_execution_order = Some [''demo.ext''], cf_listen = ''127.0.0.1:18080'',
     cf_username = ''0123456789abcdef'', cf_password = ''0123456789abcdef01234567'',
     cf_tls_cert = ''/etc/5gpn/intercept/tls/fullchain.pem'', cf_tls_key = ''/etc/5gpn/intercept/tls/privkey.pem'',
     cf_upstream_proxy = cf_upstream_proxy ex_document, cf_mitm = cf_mitm ex_document, cf_modules = [ex_snapshot]\<rparr>"

lemma ex_module_document_valid: "validate_intercept_document ex_module_lib ex_module_document = None"
  by code_simp

lemma document_accepted_by_proxy_witness:
  "validate_config ex_module_lib (written_document ex_module_document) = None \<and>
   certificate_host_patterns (written_document ex_module_document) = [''*.example.com'']"
proof -
  have "list_all (\<lambda>m. normal_module m \<and> scripts_compile ex_module_lib m) (cf_modules ex_module_document)"
    "list_all (\<lambda>s. length s \<le> 255) [cf_username ex_module_document, cf_password ex_module_document,
      px_username (cf_upstream_proxy ex_module_document), px_password (cf_upstream_proxy ex_module_document)]"
    "certificate_intercept_hosts ex_module_document = [''*.example.com'']"
    by code_simp+
  then show ?thesis using document_accepted_by_proxy [OF ex_module_document_valid] by simp
qed

text \<open>
  The normal form of a host is not always one: of two final dots one is left, which the DNS process
  accepts and the proxy refuses, for the whole document.
\<close>

definition ex_dotted :: module_document where
  "ex_dotted = ex_module_document\<lparr>cf_modules := [ex_snapshot\<lparr>em_capture_hosts := [''*.example.com'', ''example.org.'']\<rparr>]\<rparr>"

theorem dotted_host_divides_the_programs:
  "normalize_intercept_host_pattern ''example.org..'' = Inr ''example.org.'' \<and>
   validate_intercept_document ex_module_lib ex_dotted = None \<and> validate_config ex_module_lib (written_document ex_dotted) \<noteq> None"
  by code_simp

end
