(* ===== verification/Module_Manager.thy ===== *)
theory Module_Manager
  imports Module_Agree
begin

text \<open>
  The manager of the interception extensions (\<open>intercept_module_manager.go\<close>, with \<open>api_intercept.go\<close>): the
  transaction that changes the document, republishes mihomo's routing and hands the DNS handler its new
  hosts. Each operation holds the manager's lock, so it is one step. What it asks of the outside, and how
  often that fails, is an argument: the two JSON functions, the analysis and rendering of mihomo's YAML
  (\<open>intercept_mihomo.go\<close>, over trees of a third-party parser), the checkers of candidates, the writers (each a
  replacement as Atomic_File has them), the state file of the certificate publisher, and mihomo itself.
\<close>

section \<open>The outside\<close>

record routing_analysis =
  ra_manageable :: bool
  ra_reconcileable :: bool
  ra_reason :: string
  ra_egress_groups :: "string list"

record manager_env =
  me_lib :: icp_lib
  me_decode :: "string \<Rightarrow> module_document option"
  me_encode :: "module_document \<Rightarrow> string option"
  me_encode_module :: "module_snapshot \<Rightarrow> string"
  me_credentials_match :: "string \<Rightarrow> module_document \<Rightarrow> bool"
  me_analyze :: "string \<Rightarrow> module_document \<Rightarrow> routing_analysis"
  me_render :: "string \<Rightarrow> module_document \<Rightarrow> module_document \<Rightarrow> string option"
  me_egress_groups :: "string \<Rightarrow> string list option"
  me_managed :: bool
  me_cert_path :: bool

text \<open>One turn of the wait for a certificate: the state file as read, and what happened next.\<close>

datatype wait_event = WaitCancelled | WaitDeadline | WaitPoll | WaitRetrigger bool

text \<open>
  What becomes of a call of \<open>PutConfigs\<close>: mihomo takes the configuration in its file; it refuses it and
  goes on with the one it runs; or the call fails although the configuration was taken.
\<close>

datatype put_result = PutTaken | PutRefused | PutUnconfirmed

text \<open>What one operation meets.\<close>

record attempt =
  at_read :: bool
  at_first_read :: bool
  at_sidecar :: "string \<Rightarrow> failure option"
  at_write :: bool
  at_mihomo_read :: bool
  at_candidate :: "string \<Rightarrow> failure option"
  at_cert_state :: "string option"
  at_waits :: "(string option \<times> wait_event) list"
  at_backup_write :: bool
  at_config_write :: bool
  at_put :: put_result
  at_restore_write :: bool
  at_restore_put :: put_result
  at_sidecar_restore :: bool
  at_view :: bool

record manager =
  mm_body :: string
  mm_mihomo :: string
  mm_running :: string
  mm_backup :: string
  mm_hosts :: host_snapshot
  mm_flushes :: nat
  mm_hooks :: nat

datatype manager_error =
    ErrUnavailable
  | ErrRevisionConflict
  | ErrModuleConflict failure
  | ErrModuleNotFound
  | ErrApplyFailed bool failure
  | ErrView failure
  | ErrModule failure

section \<open>Reading and writing the document\<close>

definition max_intercept_config_bytes :: nat where "max_intercept_config_bytes = 16777216"

definition store_read :: "manager_env \<Rightarrow> attempt \<Rightarrow> string \<Rightarrow> failure + module_document" where
  "store_read E att body =
     (if \<not> at_read att then Inl ''read interception config''
      else if length body > max_intercept_config_bytes then Inl ''interception config exceeds its limit''
      else case me_decode E body of
        None \<Rightarrow> Inl ''decode interception config''
      | Some d \<Rightarrow> (case validate_intercept_document (me_lib E) d of Some e \<Rightarrow> Inl e | None \<Rightarrow> Inr d))"

definition marshal_intercept_document :: "manager_env \<Rightarrow> module_document \<Rightarrow> failure + string" where
  "marshal_intercept_document E d = (case validate_intercept_document (me_lib E) d of
     Some e \<Rightarrow> Inl e
   | None \<Rightarrow> (case me_encode E d of
       None \<Rightarrow> Inl ''encode interception config''
     | Some body \<Rightarrow>
        if length body + 1 > max_intercept_config_bytes then Inl ''interception config exceeds its limit''
        else Inr (body @ [char_of (10 :: nat)])))"

definition intercept_revision :: "manager_env \<Rightarrow> string \<Rightarrow> string" where
  "intercept_revision E body = il_digest (me_lib E) body"

text \<open>What the handler is given of a document.\<close>

definition host_module :: "module_snapshot \<Rightarrow> intercept_module" where
  "host_module m = \<lparr>im_id = em_id m, im_enabled = em_enabled m, im_capture_hosts = em_capture_hosts m, im_capture_dns = em_capture_dns m\<rparr>"

definition document_order :: "module_document \<Rightarrow> string list" where
  "document_order d = (case cf_execution_order d of None \<Rightarrow> [] | Some order \<Rightarrow> order)"

definition host_document :: "module_document \<Rightarrow> intercept_document" where
  "host_document d = \<lparr>doc_mitm_enabled = mt_enabled (cf_mitm d), doc_modules = map host_module (cf_modules d),
     doc_execution_order = document_order d\<rparr>"

definition publish_hosts :: "module_document option \<Rightarrow> manager \<Rightarrow> manager" where
  "publish_hosts document s =
     s\<lparr>mm_hosts := (case document of None \<Rightarrow> empty_hosts | Some d \<Rightarrow> new_intercept_host_snapshot (host_document d)),
       mm_flushes := mm_flushes s + 1\<rparr>"

definition view_locked :: "manager_env \<Rightarrow> attempt \<Rightarrow> manager \<Rightarrow> manager_error option" where
  "view_locked E att s = (case store_read E (att\<lparr>at_read := at_view att\<rparr>) (mm_body s) of Inl e \<Rightarrow> Some (ErrView e) | Inr d \<Rightarrow> None)"

section \<open>Certificates\<close>

fun join_newline :: "string list \<Rightarrow> string" where
  "join_newline [] = []"
| "join_newline [l] = l"
| "join_newline (l # k # ls) = l @ char_of (10 :: nat) # join_newline (k # ls)"

definition intercept_certificate_digest :: "manager_env \<Rightarrow> string list \<Rightarrow> string" where
  "intercept_certificate_digest E hosts =
     il_digest (me_lib E) (join_newline (unique_sorted_strings hosts) @ [char_of (10 :: nat)])"

definition certificate_ready :: "manager_env \<Rightarrow> attempt \<Rightarrow> module_document \<Rightarrow> bool" where
  "certificate_ready E att d =
     (if \<not> me_cert_path E then True
      else case at_cert_state att of
        None \<Rightarrow> False
      | Some state \<Rightarrow> trim_space state = intercept_certificate_digest E (certificate_intercept_hosts d))"

text \<open>The loop of \<open>waitForCertificate\<close>; the deadline ends it when nothing else does.\<close>

fun wait_loop :: "string \<Rightarrow> string \<Rightarrow> (string option \<times> wait_event) list \<Rightarrow> manager \<Rightarrow> failure option \<times> manager" where
  "wait_loop digest candidate [] s = (Some ''timed out waiting for the certificate publisher'', s)"
| "wait_loop digest candidate ((state, event) # waits) s =
     (if (case state of None \<Rightarrow> False | Some b \<Rightarrow> trim_space b = digest) then (None, s)
      else case event of
        WaitCancelled \<Rightarrow> (Some ''context canceled'', s)
      | WaitDeadline \<Rightarrow> (Some ''timed out waiting for the certificate publisher'', s)
      | WaitPoll \<Rightarrow> wait_loop digest candidate waits s
      | WaitRetrigger ok \<Rightarrow>
          if mm_body s \<noteq> candidate then (Some ''certificate candidate changed during publication'', s)
          else if \<not> ok then (Some ''retrigger certificate publisher'', s)
          else wait_loop digest candidate waits (s\<lparr>mm_body := candidate\<rparr>))"

definition wait_for_certificate :: "manager_env \<Rightarrow> attempt \<Rightarrow> string \<Rightarrow> string \<Rightarrow> manager \<Rightarrow> failure option \<times> manager" where
  "wait_for_certificate E att digest candidate s =
     (if \<not> me_cert_path E then (None, s) else wait_loop digest candidate (at_waits att) s)"

section \<open>The transaction\<close>

definition validate_intercept_egress_bindings :: "module_document \<Rightarrow> string list \<Rightarrow> failure option" where
  "validate_intercept_egress_bindings d available =
     each (\<lambda>m. fail_if (em_egress_group m \<noteq> [] \<and> em_egress_group m \<notin> set available) ''egress group does not exist'') (cf_modules d)"

definition put_configs :: "put_result \<Rightarrow> manager \<Rightarrow> bool \<times> manager" where
  "put_configs r s = (case r of
     PutTaken \<Rightarrow> (True, s\<lparr>mm_running := mm_mihomo s\<rparr>)
   | PutRefused \<Rightarrow> (False, s)
   | PutUnconfirmed \<Rightarrow> (False, s\<lparr>mm_running := mm_mihomo s\<rparr>))"

definition publish_mihomo :: "attempt \<Rightarrow> string \<Rightarrow> string \<Rightarrow> manager \<Rightarrow> failure option \<times> manager" where
  "publish_mihomo att old_text next_text s =
     (if \<not> at_backup_write att then (Some ''write mihomo backup'', s)
      else let s1 = s\<lparr>mm_backup := old_text\<rparr> in
        if \<not> at_config_write att then (Some ''write mihomo config'', s1)
        else let (ok, s2) = put_configs (at_put att) (s1\<lparr>mm_mihomo := next_text\<rparr>) in
          if ok then (None, s2)
          else (Some ''mihomo hot-apply failed'',
                if at_restore_write att then snd (put_configs (at_restore_put att) (s2\<lparr>mm_mihomo := old_text\<rparr>)) else s2))"

definition sidecar_rollback :: "attempt \<Rightarrow> string \<Rightarrow> failure \<Rightarrow> manager \<Rightarrow> manager_error option \<times> manager" where
  "sidecar_rollback att old_body e s =
     (Some (ErrApplyFailed (at_sidecar_restore att) e), if at_sidecar_restore att then s\<lparr>mm_body := old_body\<rparr> else s)"

text \<open>From the written document on: the certificate, mihomo, and the handler.\<close>

definition publish_document ::
    "manager_env \<Rightarrow> attempt \<Rightarrow> module_document \<Rightarrow> string \<Rightarrow> module_document \<Rightarrow> string \<Rightarrow> string \<Rightarrow> manager \<Rightarrow>
       manager_error option \<times> manager" where
  "publish_document E att old old_body next new_body next_mihomo s =
     (let old_hosts = certificate_intercept_hosts old; next_hosts = certificate_intercept_hosts next;
          first_activation = (active_intercept_hosts old = [] \<and> active_intercept_hosts next \<noteq> []);
          need = (next_hosts \<noteq> [] \<and> (old_hosts \<noteq> next_hosts \<or> first_activation \<and> \<not> certificate_ready E att next))
      in case (if need then wait_for_certificate E att (intercept_certificate_digest E next_hosts) new_body s else (None, s)) of
           (Some e, s1) \<Rightarrow> sidecar_rollback att old_body e s1
         | (None, s1) \<Rightarrow> (case publish_mihomo att (mm_mihomo s) next_mihomo s1 of
             (Some e, s2) \<Rightarrow> sidecar_rollback att old_body e s2
           | (None, s2) \<Rightarrow> (None, let s3 = publish_hosts (Some next) s2 in s3\<lparr>mm_hooks := mm_hooks s3 + 1\<rparr>)))"

definition apply_routing ::
    "manager_env \<Rightarrow> attempt \<Rightarrow> module_document \<Rightarrow> string \<Rightarrow> module_document \<Rightarrow> string \<Rightarrow> manager \<Rightarrow> manager_error option \<times> manager" where
  "apply_routing E att old old_body next new_body s =
     (if \<not> me_managed E then (Some ErrUnavailable, s)
      else if \<not> at_mihomo_read att then (Some (ErrModule ''read mihomo config''), s)
      else if \<not> me_credentials_match E (mm_mihomo s) old then (Some (ErrModuleConflict ''credentials differ''), s)
      else let analysis = me_analyze E (mm_mihomo s) old in
        if \<not> ra_reconcileable analysis then (Some (ErrModuleConflict (ra_reason analysis)), s)
        else case validate_intercept_egress_bindings next (ra_egress_groups analysis) of
          Some e \<Rightarrow> (Some (ErrModuleConflict e), s)
        | None \<Rightarrow> (case me_render E (mm_mihomo s) old next of
            None \<Rightarrow> (Some (ErrModule ''render interception routing''), s)
          | Some next_mihomo \<Rightarrow>
             if \<not> ra_manageable (me_analyze E next_mihomo next) then (Some (ErrModule ''structural verification''), s)
             else (case at_candidate att next_mihomo of
               Some e \<Rightarrow> (Some (ErrModule e), s)
             | None \<Rightarrow>
                if \<not> at_write att then (Some (ErrModule ''write interception config''), s)
                else publish_document E att old old_body next new_body next_mihomo (s\<lparr>mm_body := new_body\<rparr>))))"

type_synonym mutator = "module_document \<Rightarrow> manager_error + module_document \<times> bool"

definition mutate :: "manager_env \<Rightarrow> attempt \<Rightarrow> string \<Rightarrow> mutator \<Rightarrow> manager \<Rightarrow> manager_error option \<times> manager" where
  "mutate E att revision mutator s = (case store_read E att (mm_body s) of
     Inl e \<Rightarrow> (Some (ErrModule e), s)
   | Inr old \<Rightarrow>
      if intercept_revision E (mm_body s) \<noteq> revision then (Some ErrRevisionConflict, s)
      else case mutator (old\<lparr>cf_execution_order := Some (document_order old)\<rparr>) of
        Inl e \<Rightarrow> (Some e, s)
      | Inr (next, routing_changed) \<Rightarrow> (case marshal_intercept_document E next of
          Inl e \<Rightarrow> (Some (ErrModule e), s)
        | Inr new_body \<Rightarrow> (case at_sidecar att new_body of
            Some e \<Rightarrow> (Some (ErrModule e), s)
          | None \<Rightarrow>
             if mm_body s = new_body \<and> \<not> routing_changed then (view_locked E att s, s)
             else if \<not> routing_changed then
               (if \<not> at_write att then (Some (ErrModule ''write interception config''), s)
                else let s1 = s\<lparr>mm_body := new_body\<rparr> in (view_locked E att s1, s1))
             else apply_routing E att old (mm_body s) next new_body s)))"

section \<open>Changes of the document\<close>

fun assign_settings :: "(string, string) go_map \<Rightarrow> module_setting list \<Rightarrow> failure + module_setting list" where
  "assign_settings vals [] = Inr []"
| "assign_settings vals (x # xs) = (case map_of vals (se_key x) of
     None \<Rightarrow> Inl ''missing extension setting''
   | Some v \<Rightarrow> map_sum id (Cons (x\<lparr>se_value := v\<rparr>)) (assign_settings vals xs))"

definition update_intercept_module_settings :: "icp_lib \<Rightarrow> (string, string) go_map \<Rightarrow> module_snapshot \<Rightarrow> failure + module_snapshot" where
  "update_intercept_module_settings L vals m =
     (if length vals \<noteq> length (em_settings m) then Inl ''submit exactly one value for every extension setting''
      else case assign_settings vals (em_settings m) of
        Inl e \<Rightarrow> Inl e
      | Inr settings \<Rightarrow> (case validate_intercept_module_settings L settings (em_enabled m) of
          Some e \<Rightarrow> Inl e | None \<Rightarrow> Inr (m\<lparr>em_settings := settings\<rparr>)))"

record module_update =
  mu_enabled :: "bool option"
  mu_egress_group :: "string option"
  mu_capture_dns :: "string option"
  mu_settings :: "(string, string) go_map option"

text \<open>The body of \<open>Update\<close>'s loop for the module with the id, in the order of its fields.\<close>

definition update_settings_of :: "icp_lib \<Rightarrow> module_update \<Rightarrow> module_snapshot \<Rightarrow> failure + module_snapshot" where
  "update_settings_of L u m = (case mu_settings u of None \<Rightarrow> Inr m | Some vals \<Rightarrow> update_intercept_module_settings L vals m)"

definition update_egress_of :: "module_update \<Rightarrow> module_snapshot \<times> bool \<Rightarrow> failure + module_snapshot \<times> bool" where
  "update_egress_of u mb = (case mu_egress_group u of
     None \<Rightarrow> Inr mb
   | Some g \<Rightarrow> (case validate_intercept_egress_group_binding g of
       Some e \<Rightarrow> Inl e | None \<Rightarrow> Inr ((fst mb)\<lparr>em_egress_group := g\<rparr>, True)))"

definition update_capture_dns_of :: "bool \<Rightarrow> module_update \<Rightarrow> module_snapshot \<times> bool \<Rightarrow> failure + module_snapshot \<times> bool" where
  "update_capture_dns_of mitm u mb = (case mu_capture_dns u of
     None \<Rightarrow> Inr mb
   | Some c \<Rightarrow> (case validate_intercept_capture_dns c of
       Some e \<Rightarrow> Inl e
     | None \<Rightarrow> Inr ((fst mb)\<lparr>em_capture_dns := c\<rparr>, snd mb \<or> mitm \<and> em_enabled (fst mb) \<and> em_capture_dns (fst mb) \<noteq> c)))"

definition update_enabled_of :: "icp_lib \<Rightarrow> bool \<Rightarrow> module_update \<Rightarrow> module_snapshot \<times> bool \<Rightarrow> failure + module_snapshot \<times> bool" where
  "update_enabled_of L mitm u mb = (let m = fst mb in case mu_enabled u of
     None \<Rightarrow> Inr mb
   | Some b \<Rightarrow>
      if b \<and> \<not> intercept_module_settings_ready L (em_settings m)
      then Inl ''configure every required extension setting before enable''
      else if b \<and> em_egress_required m \<and> em_egress_group m = [] then Inl ''select an egress group before enabling this extension''
      else Inr (m\<lparr>em_enabled := b\<rparr>, snd mb \<or> mitm \<and> em_enabled m \<noteq> b))"

definition update_module :: "icp_lib \<Rightarrow> bool \<Rightarrow> module_update \<Rightarrow> module_snapshot \<Rightarrow> failure + module_snapshot \<times> bool" where
  "update_module L mitm u m = (case update_settings_of L u m of
     Inl e \<Rightarrow> Inl e
   | Inr m1 \<Rightarrow> (case update_egress_of u (m1, False) of
       Inl e \<Rightarrow> Inl e
     | Inr mb \<Rightarrow> (case update_capture_dns_of mitm u mb of
         Inl e \<Rightarrow> Inl e
       | Inr mb' \<Rightarrow> update_enabled_of L mitm u mb')))"

fun update_first ::
    "(module_snapshot \<Rightarrow> failure + module_snapshot \<times> bool) \<Rightarrow> string \<Rightarrow> module_snapshot list \<Rightarrow>
       manager_error + module_snapshot list \<times> bool" where
  "update_first f i [] = Inl ErrModuleNotFound"
| "update_first f i (m # ms) =
     (if em_id m \<noteq> i then map_sum id (map_prod (Cons m) id) (update_first f i ms)
      else map_sum ErrModule (\<lambda>(m', b). (m' # ms, b)) (f m))"

definition update_mutator :: "icp_lib \<Rightarrow> string \<Rightarrow> module_update \<Rightarrow> mutator" where
  "update_mutator L i u d =
     map_sum id (\<lambda>(ms, b). (d\<lparr>cf_modules := ms\<rparr>, b)) (update_first (update_module L (mt_enabled (cf_mitm d)) u) i (cf_modules d))"

definition reorder_mutator :: "string list \<Rightarrow> mutator" where
  "reorder_mutator requested d = (case validate_intercept_execution_order (cf_modules d) (Some requested) of
     Some e \<Rightarrow> Inl (ErrModule e)
   | None \<Rightarrow> Inr (d\<lparr>cf_execution_order := Some requested\<rparr>, document_order d \<noteq> requested))"

definition settings_mutator :: "mitm_settings \<Rightarrow> mutator" where
  "settings_mutator mitm d =
     (let d' = d\<lparr>cf_mitm := mitm\<rparr>
      in Inr (d', (active_intercept_hosts d \<noteq> []) \<noteq> (active_intercept_hosts d' \<noteq> [])))"

definition update :: "manager_env \<Rightarrow> attempt \<Rightarrow> string \<Rightarrow> string \<Rightarrow> module_update \<Rightarrow> manager \<Rightarrow> manager_error option \<times> manager" where
  "update E att i revision u s =
     (if \<not> valid_sha256 revision \<or> mu_enabled u = None \<and> mu_egress_group u = None \<and> mu_capture_dns u = None \<and> mu_settings u = None
      then (Some (ErrModule ''revision and at least one update field are required''), s)
      else mutate E att revision (update_mutator (me_lib E) i u) s)"

definition reorder :: "manager_env \<Rightarrow> attempt \<Rightarrow> string \<Rightarrow> string list \<Rightarrow> manager \<Rightarrow> manager_error option \<times> manager" where
  "reorder E att revision order s =
     (if \<not> valid_sha256 revision then (Some (ErrModule ''a valid revision is required''), s)
      else mutate E att revision (reorder_mutator order) s)"

definition update_settings :: "manager_env \<Rightarrow> attempt \<Rightarrow> string \<Rightarrow> mitm_settings \<Rightarrow> manager \<Rightarrow> manager_error option \<times> manager" where
  "update_settings E att revision mitm s = mutate E att revision (settings_mutator mitm) s"

section \<open>Import, update and removal of a disabled extension\<close>

text \<open>Encode, test and write the document, and compose the view.\<close>

definition replace_document :: "manager_env \<Rightarrow> attempt \<Rightarrow> module_document \<Rightarrow> manager \<Rightarrow> manager_error option \<times> manager" where
  "replace_document E att next s = (case marshal_intercept_document E next of
     Inl e \<Rightarrow> (Some (ErrModule e), s)
   | Inr new_body \<Rightarrow> (case at_sidecar att new_body of
       Some e \<Rightarrow> (Some (ErrModule e), s)
     | None \<Rightarrow>
        if \<not> at_write att then (Some (ErrModule ''write interception config''), s)
        else let s1 = s\<lparr>mm_body := new_body\<rparr> in (view_locked E att s1, s1)))"

definition import_snapshot :: "manager_env \<Rightarrow> attempt \<Rightarrow> string \<Rightarrow> module_snapshot \<Rightarrow> manager \<Rightarrow> manager_error option \<times> manager" where
  "import_snapshot E att revision m s =
     (if \<not> valid_sha256 revision then (Some (ErrModule ''a valid revision is required''), s)
      else case validate_intercept_module (me_lib E) m of
        Some e \<Rightarrow> (Some (ErrModule e), s)
      | None \<Rightarrow> (case store_read E att (mm_body s) of
          Inl e \<Rightarrow> (Some (ErrModule e), s)
        | Inr d \<Rightarrow>
           if intercept_revision E (mm_body s) \<noteq> revision then (Some ErrRevisionConflict, s)
           else if list_ex (\<lambda>x. em_id x = em_id m) (cf_modules d) then (Some (ErrModuleConflict ''already installed''), s)
           else replace_document E att
             (d\<lparr>cf_modules := cf_modules d @ [m], cf_execution_order := Some (document_order d @ [em_id m])\<rparr>) s))"

fun remove_first :: "string \<Rightarrow> module_snapshot list \<Rightarrow> module_snapshot list" where
  "remove_first i [] = []"
| "remove_first i (m # ms) = (if em_id m = i then ms else m # remove_first i ms)"

definition remove_intercept_module_id :: "string list \<Rightarrow> string \<Rightarrow> string list" where
  "remove_intercept_module_id ids i = filter (\<lambda>x. x \<noteq> i) ids"

definition delete_module :: "manager_env \<Rightarrow> attempt \<Rightarrow> string \<Rightarrow> string \<Rightarrow> manager \<Rightarrow> manager_error option \<times> manager" where
  "delete_module E att i revision s = (case store_read E att (mm_body s) of
     Inl e \<Rightarrow> (Some (ErrModule e), s)
   | Inr d \<Rightarrow>
      if intercept_revision E (mm_body s) \<noteq> revision then (Some ErrRevisionConflict, s)
      else case List.find (\<lambda>m. em_id m = i) (cf_modules d) of
        None \<Rightarrow> (Some ErrModuleNotFound, s)
      | Some m \<Rightarrow>
         if em_enabled m then (Some (ErrModule ''disable the module before deleting it''), s)
         else replace_document E att (d\<lparr>cf_modules := remove_first i (cf_modules d),
            cf_execution_order := Some (remove_intercept_module_id (document_order d) i)\<rparr>) s)"

text \<open>What of a module its snapshot digest covers.\<close>

definition reviewed_part :: "module_snapshot \<Rightarrow> module_snapshot" where
  "reviewed_part m = m\<lparr>em_enabled := False, em_egress_group := [], em_capture_dns := [], em_imported_at := [],
     em_source := (em_source m)\<lparr>so_body := []\<rparr>, em_settings := map (\<lambda>x. x\<lparr>se_value := []\<rparr>) (em_settings m),
     em_scripts := map (\<lambda>r. r\<lparr>sc_body := []\<rparr>) (em_scripts m)\<rparr>"

definition intercept_module_snapshot_digest :: "manager_env \<Rightarrow> module_snapshot \<Rightarrow> string" where
  "intercept_module_snapshot_digest E m = il_digest (me_lib E) (me_encode_module E (reviewed_part m))"

definition merge_intercept_setting_values :: "icp_lib \<Rightarrow> module_setting list \<Rightarrow> module_setting list \<Rightarrow> module_setting list" where
  "merge_intercept_setting_values L current candidate =
     (let values = fold (\<lambda>x t. AList.update (se_key x) x t) current []
      in map (\<lambda>x. case map_of values (se_key x) of
           None \<Rightarrow> x
         | Some previous \<Rightarrow>
            if se_type previous \<noteq> se_type x then x
            else if validate_intercept_setting_value L x (se_value previous) False = None then x\<lparr>se_value := se_value previous\<rparr>
            else x) candidate)"

definition intercept_module_source_unchanged :: "module_document \<Rightarrow> string \<Rightarrow> string \<Rightarrow> string \<Rightarrow> bool" where
  "intercept_module_source_unchanged d i source_url digest = (case List.find (\<lambda>m. em_id m = i) (cf_modules d) of
     None \<Rightarrow> False | Some m \<Rightarrow> so_url (em_source m) = source_url \<and> so_digest (em_source m) = digest)"

fun last_index_of :: "string \<Rightarrow> nat \<Rightarrow> module_snapshot list \<Rightarrow> nat option" where
  "last_index_of i k [] = None"
| "last_index_of i k (m # ms) = (case last_index_of i (Suc k) ms of
     Some j \<Rightarrow> Some j | None \<Rightarrow> if em_id m = i then Some k else None)"

text \<open>
  \<open>ApplyUpdate\<close> reads the document, lets go of the lock while it fetches the manifest (\<open>imported\<close>, what the
  parser made of the module's URL), and reads it again; \<open>earlier\<close> is the file as it was the first time.
\<close>

definition apply_update ::
    "manager_env \<Rightarrow> attempt \<Rightarrow> string \<Rightarrow> string \<Rightarrow> string \<Rightarrow> string \<Rightarrow> (string \<Rightarrow> failure + module_snapshot) \<Rightarrow>
       manager \<Rightarrow> manager_error option \<times> manager" where
  "apply_update E att i revision digest earlier imported s =
     (if \<not> valid_sha256 revision \<or> \<not> valid_sha256 digest then (Some (ErrModule ''a valid revision and candidate digest are required''), s)
      else case store_read E (att\<lparr>at_read := at_first_read att\<rparr>) earlier of
        Inl e \<Rightarrow> (Some (ErrModule e), s)
      | Inr d0 \<Rightarrow>
         if intercept_revision E earlier \<noteq> revision then (Some ErrRevisionConflict, s)
         else case List.find (\<lambda>m. em_id m = i) (cf_modules d0) of
           None \<Rightarrow> (Some ErrModuleNotFound, s)
         | Some current \<Rightarrow>
            if em_enabled current then (Some (ErrModule ''disable the extension before replacing its immutable snapshot''), s)
            else if trim_space (so_url (em_source current)) = [] then (Some (ErrModule ''only URL-sourced extensions can be updated''), s)
            else case imported (so_url (em_source current)) of
              Inl e \<Rightarrow> (Some (ErrModule e), s)
            | Inr candidate \<Rightarrow>
               if em_id candidate \<noteq> em_id current then (Some (ErrModule ''updated manifest changed metadata.id''), s)
               else if intercept_module_snapshot_digest E candidate \<noteq> digest then (Some ErrRevisionConflict, s)
               else case store_read E att (mm_body s) of
                 Inl e \<Rightarrow> (Some (ErrModule e), s)
               | Inr d \<Rightarrow>
                  if intercept_revision E (mm_body s) \<noteq> revision \<or>
                     \<not> intercept_module_source_unchanged d i (so_url (em_source current)) (so_digest (em_source current))
                  then (Some ErrRevisionConflict, s)
                  else case last_index_of i 0 (cf_modules d) of
                    None \<Rightarrow> (Some ErrModuleNotFound, s)
                  | Some k \<Rightarrow>
                     let old = cf_modules d ! k in
                     replace_document E att (d\<lparr>cf_modules := (cf_modules d)[k := candidate
                        \<lparr>em_settings := merge_intercept_setting_values (me_lib E) (em_settings old) (em_settings candidate),
                         em_egress_group := em_egress_group old, em_capture_dns := em_capture_dns old\<rparr>]\<rparr>) s)"

section \<open>Start and reconciliation\<close>

definition prepare_runtime :: "manager_env \<Rightarrow> attempt \<Rightarrow> manager \<Rightarrow> manager_error option \<times> manager" where
  "prepare_runtime E att s = (case store_read E att (mm_body s) of
     Inl e \<Rightarrow> (Some (ErrModule e), s)
   | Inr d \<Rightarrow>
      if \<not> mt_enabled (cf_mitm d) then (None, publish_hosts None s)
      else if \<not> me_managed E then
        (if active_intercept_hosts d \<noteq> [] then (Some (ErrModule ''cannot be reconciled without mihomo management''), s)
         else (None, publish_hosts None s))
      else if \<not> at_mihomo_read att then (Some (ErrModule ''read mihomo config''), s)
      else if \<not> ra_manageable (me_analyze E (mm_mihomo s) d) \<or> \<not> me_credentials_match E (mm_mihomo s) d
        then (Some (ErrModule ''interception routing is not ready''), publish_hosts None s)
      else if active_intercept_hosts d \<noteq> [] \<and> \<not> certificate_ready E att d
        then (Some (ErrModule ''interception certificate state is not ready''), publish_hosts None s)
      else (None, publish_hosts (Some d) s))"

definition reconcile_mihomo_text :: "manager_env \<Rightarrow> attempt \<Rightarrow> string \<Rightarrow> manager \<Rightarrow> manager_error option \<times> manager" where
  "reconcile_mihomo_text E att text s = (case store_read E att (mm_body s) of
     Inl e \<Rightarrow> (Some (ErrModule e), publish_hosts None s)
   | Inr d \<Rightarrow>
      if \<not> mt_enabled (cf_mitm d) then (None, publish_hosts None s)
      else if \<not> ra_manageable (me_analyze E text d) \<or> \<not> me_credentials_match E text d
        then (Some (ErrModule ''interception routing is not ready''), publish_hosts None s)
      else if active_intercept_hosts d \<noteq> [] \<and> \<not> certificate_ready E att d
        then (Some (ErrModule ''interception certificate state is not ready''), publish_hosts None s)
      else (None, publish_hosts (Some d) s))"

text \<open>\<open>LockMihomoCandidate\<close>: whether a raw change of mihomo's configuration may go on.\<close>

definition lock_mihomo_candidate :: "manager_env \<Rightarrow> attempt \<Rightarrow> string \<Rightarrow> manager \<Rightarrow> manager_error option" where
  "lock_mihomo_candidate E att text s = (case store_read E att (mm_body s) of
     Inl e \<Rightarrow> Some (ErrModule e)
   | Inr d \<Rightarrow> (case me_egress_groups E text of
       None \<Rightarrow> Some (ErrModule ''proxy-groups structure'')
     | Some available \<Rightarrow> map_option ErrModuleConflict (validate_intercept_egress_bindings d available)))"

end
