(* ===== verification/Manager_Props.thy ===== *)
theory Manager_Props
  imports Module_Manager
begin

text \<open>
  What the extension manager promises: a change that fails leaves the document, mihomo's configuration
  and the handler as they were; a change that succeeds leaves all three on the new document; and
  whatever operations ran, the handler captures names as the document in the file says.
\<close>

section \<open>What a document captures\<close>

definition document_answers :: "module_document \<Rightarrow> string \<Rightarrow> (string \<times> string) option" where
  "document_answers d name = capture_dns (Some (new_intercept_host_snapshot (host_document d))) name"

definition handler_answers :: "manager \<Rightarrow> string \<Rightarrow> (string \<times> string) option" where
  "handler_answers s name = capture_dns (Some (mm_hosts s)) name"

definition shown :: "module_snapshot \<Rightarrow> intercept_module option" where
  "shown m = (if em_enabled m then Some (host_module m) else None)"

definition owner_in :: "module_snapshot list \<Rightarrow> string \<Rightarrow> intercept_module option" where
  "owner_in ms i = Option.bind (List.find (\<lambda>m. em_id m = i) ms) shown"

lemma find_distinct_fold:
  "distinct (map im_id ms) \<Longrightarrow> map_of (fold (\<lambda>m t. AList.update (im_id m) m t) ms t) i =
     (case List.find (\<lambda>m. im_id m = i) ms of Some m \<Rightarrow> Some m | None \<Rightarrow> map_of t i)"
proof (induction ms arbitrary: t)
  case (Cons m ms)
  have "List.find (\<lambda>x. im_id x = im_id m) ms = None" using Cons.prems by (auto simp: find_None_iff) (metis image_eqI)
  then show ?case using Cons by (auto split: option.splits)
qed simp

lemma find_host_module: "List.find (\<lambda>m. im_id m = i) (map host_module ms) = map_option host_module (List.find (\<lambda>m. em_id m = i) ms)"
  by (induction ms) (auto simp: host_module_def)

lemma find_map_filter:
  "List.find (\<lambda>m. im_enabled m \<and> Q m) (List.map_filter (\<lambda>i. map_option host_module (f i)) xs) =
     List.find Q (List.map_filter (\<lambda>i. Option.bind (f i) shown) xs)"
proof (induction xs)
  case (Cons x xs)
  then show ?case
    by (cases "f x") (auto simp: List.map_filter_simps shown_def host_module_def split: option.splits)
qed (simp add: List.map_filter_simps)

lemma answers_by_owner:
  assumes "distinct (map em_id (cf_modules d))"
  shows "document_answers d name =
    (if mt_enabled (cf_mitm d) then
       map_option (\<lambda>m. (im_capture_dns m, im_id m))
         (List.find (\<lambda>m. \<exists>p\<in>set (im_capture_hosts m). pattern_covers p (to_lower (strip_dot name)))
           (List.map_filter (owner_in (cf_modules d)) (document_order d)))
     else None)"
proof -
  have dist: "distinct (map im_id (map host_module (cf_modules d)))"
    using assms by (simp add: host_module_def comp_def)
  have "map_of (fold (\<lambda>m t. AList.update (im_id m) m t) (map host_module (cf_modules d)) []) =
      (\<lambda>i. map_option host_module (List.find (\<lambda>m. em_id m = i) (cf_modules d)))"
    by (rule ext) (simp add: find_distinct_fold [OF dist] find_host_module option.case_eq_if)
  then have "ordered_intercept_modules (host_document d) =
      List.map_filter (\<lambda>i. map_option host_module (List.find (\<lambda>m. em_id m = i) (cf_modules d))) (document_order d)"
    by (simp add: ordered_intercept_modules_def host_document_def Let_def)
  moreover have "List.map_filter (owner_in (cf_modules d)) (document_order d) =
      List.map_filter (\<lambda>i. Option.bind (List.find (\<lambda>m. em_id m = i) (cf_modules d)) shown) (document_order d)"
    by (simp add: owner_in_def [abs_def])
  moreover have "doc_mitm_enabled (host_document d) = mt_enabled (cf_mitm d)" by (simp add: host_document_def)
  ultimately show ?thesis
    unfolding document_answers_def capture_first_module by (simp add: find_map_filter)
qed

lemma answers_cong:
  assumes "distinct (map em_id (cf_modules d))" "distinct (map em_id (cf_modules e))"
    and "mt_enabled (cf_mitm d) = mt_enabled (cf_mitm e)"
    and "mt_enabled (cf_mitm d) \<Longrightarrow> List.map_filter (owner_in (cf_modules d)) (document_order d) =
      List.map_filter (owner_in (cf_modules e)) (document_order e)"
  shows "document_answers d = document_answers e"
  using assms by (intro ext) (simp add: answers_by_owner)

lemma handler_answers_publish [simp]:
  "handler_answers (publish_hosts (Some d) s) = document_answers d" "handler_answers (publish_hosts None s) = (\<lambda>_. None)"
  by (auto simp: handler_answers_def document_answers_def publish_hosts_def capture_dns_def empty_hosts_def fun_eq_iff)

section \<open>Accepted documents\<close>

lemma intercept_modules_loop_ok:
  "validate_intercept_modules_loop L ids act n ms = None \<Longrightarrow>
     (\<forall>m\<in>set ms. validate_intercept_module L m = None) \<and> distinct (map em_id ms) \<and> set (map em_id ms) \<inter> set ids = {}"
proof (induction L ids act n ms rule: validate_intercept_modules_loop.induct)
  case (2 L ids act n m ms)
  let ?F = "first_some
        [fail_if (\<not> valid_intercept_module_id (em_id m)) ''extension has an invalid id'',
         fail_if (em_id m \<in> set ids) ''duplicate interception extension id'', validate_intercept_module L m]"
  have c: "?F = None" using 2(3) unfolding validate_intercept_modules_loop.simps by (cases ?F) (simp_all only: option.simps)
  then have m: "em_id m \<notin> set ids" "validate_intercept_module L m = None" by simp_all
  have "(\<forall>m\<in>set ms. validate_intercept_module L m = None) \<and> distinct (map em_id ms) \<and> set (map em_id ms) \<inter> set (em_id m # ids) = {}"
  proof (cases "em_enabled m")
    case True
    then obtain act' where "\<not> n + length (em_routing_rules m) > 2048" "merge_mappings act (em_host_mappings m) = Inr act'"
      "validate_intercept_modules_loop L (em_id m # ids) act' (n + length (em_routing_rules m)) ms = None"
      using 2(3) unfolding validate_intercept_modules_loop.simps c by (auto simp: Let_def split: if_splits sum.splits)
    then show ?thesis using 2(1) [OF c True refl] by blast
  next
    case False
    then show ?thesis using 2(2) [OF c False] 2(3) unfolding validate_intercept_modules_loop.simps c by simp
  qed
  then show ?case using m by auto
qed simp

lemma accepted_modules:
  assumes "validate_intercept_document L d = None"
  shows "distinct (map em_id (cf_modules d))" "m \<in> set (cf_modules d) \<Longrightarrow> validate_intercept_module L m = None"
    "\<exists>order. cf_execution_order d = Some order"
proof -
  have "validate_intercept_modules L (cf_modules d) = None" using assms by (simp add: validate_intercept_document_def)
  then have "validate_intercept_modules_loop L [] [] 0 (cf_modules d) = None"
    by (simp add: validate_intercept_modules_def split: if_splits)
  from intercept_modules_loop_ok [OF this]
  show "distinct (map em_id (cf_modules d))" "m \<in> set (cf_modules d) \<Longrightarrow> validate_intercept_module L m = None" by auto
  show "\<exists>order. cf_execution_order d = Some order"
    using assms by (cases "cf_execution_order d") (auto simp: validate_intercept_document_def validate_intercept_execution_order_def)
qed

lemma order_restored: "cf_execution_order d = Some order \<Longrightarrow> d\<lparr>cf_execution_order := Some (document_order d)\<rparr> = d"
  by (cases d) (simp add: document_order_def)

section \<open>Changes the handler need not hear of\<close>

lemma owner_in_replace:
  assumes "em_id m' = em_id m" "shown m' = shown m"
  shows "owner_in (xs @ m' # ys) = owner_in (xs @ m # ys)"
proof
  fix i
  show "owner_in (xs @ m' # ys) i = owner_in (xs @ m # ys) i"
    using assms by (induction xs) (simp_all add: owner_in_def)
qed

lemma update_first_parts:
  assumes "update_first f i ms = Inr (ms', b)"
  obtains xs m m' ys where "ms = xs @ m # ys" "ms' = xs @ m' # ys" "f m = Inr (m', b)" "em_id m = i"
proof -
  have "\<exists>xs m m' ys. ms = xs @ m # ys \<and> ms' = xs @ m' # ys \<and> f m = Inr (m', b) \<and> em_id m = i"
    using assms
  proof (induction ms arbitrary: ms')
    case (Cons x ms)
    show ?case
    proof (cases "em_id x = i")
      case True
      then obtain x' where "f x = Inr (x', b)" "ms' = x' # ms" using Cons.prems by (cases "f x") auto
      then show ?thesis using True by (intro exI [of _ "[]"] exI [of _ x] exI [of _ x'] exI [of _ ms]) simp
    next
      case False
      then obtain ms1 where m: "update_first f i ms = Inr (ms1, b)" "ms' = x # ms1"
        using Cons.prems by (cases "update_first f i ms") auto
      from Cons.IH [OF m(1)] obtain xs m m' ys where "ms = xs @ m # ys \<and> ms1 = xs @ m' # ys \<and> f m = Inr (m', b) \<and> em_id m = i"
        by blast
      then show ?thesis using m(2) by (intro exI [of _ "x # xs"] exI [of _ m] exI [of _ m'] exI [of _ ys]) simp
    qed
  qed simp
  then show thesis using that by blast
qed

lemma update_settings_parts:
  assumes "update_settings_of L u m = Inr m1"
  shows "em_id m1 = em_id m \<and> em_enabled m1 = em_enabled m \<and> em_capture_hosts m1 = em_capture_hosts m \<and> em_capture_dns m1 = em_capture_dns m"
  using assms by (auto simp: update_settings_of_def update_intercept_module_settings_def split: option.splits if_splits sum.splits)

lemma update_module_quiet:
  assumes "update_module L mitm u m = Inr (m', b)"
  shows "em_id m' = em_id m \<and> (\<not> b \<longrightarrow> mitm \<longrightarrow> shown m' = shown m)"
proof -
  obtain m1 m2 b2 m3 b3 where s: "update_settings_of L u m = Inr m1" and e: "update_egress_of u (m1, False) = Inr (m2, b2)"
    and c: "update_capture_dns_of mitm u (m2, b2) = Inr (m3, b3)" and n: "update_enabled_of L mitm u (m3, b3) = Inr (m', b)"
    using assms by (auto simp: update_module_def split: sum.splits)
  have 2: "em_id m2 = em_id m1 \<and> em_enabled m2 = em_enabled m1 \<and> em_capture_hosts m2 = em_capture_hosts m1 \<and> em_capture_dns m2 = em_capture_dns m1"
    using e by (auto simp: update_egress_of_def split: option.splits)
  have 3: "em_id m3 = em_id m2 \<and> em_enabled m3 = em_enabled m2 \<and> em_capture_hosts m3 = em_capture_hosts m2 \<and>
      (\<not> b3 \<longrightarrow> mitm \<longrightarrow> em_enabled m2 \<longrightarrow> em_capture_dns m3 = em_capture_dns m2)"
    using c by (auto simp: update_capture_dns_of_def split: option.splits)
  have 4: "em_id m' = em_id m3 \<and> em_capture_hosts m' = em_capture_hosts m3 \<and> em_capture_dns m' = em_capture_dns m3 \<and>
      (\<not> b \<longrightarrow> \<not> b3 \<and> (mitm \<longrightarrow> em_enabled m' = em_enabled m3))"
    using n by (auto simp: update_enabled_of_def Let_def split: option.splits if_splits)
  show ?thesis using update_settings_parts [OF s] 2 3 4 by (auto simp: shown_def host_module_def)
qed

lemma update_quiet:
  assumes "update_mutator L i u d = Inr (next, False)" "distinct (map em_id (cf_modules d))"
  shows "document_answers next = document_answers d \<and> distinct (map em_id (cf_modules next))"
proof -
  from assms(1) obtain ms' where f: "update_first (update_module L (mt_enabled (cf_mitm d)) u) i (cf_modules d) = Inr (ms', False)"
    and nx: "next = d\<lparr>cf_modules := ms'\<rparr>"
    by (cases "update_first (update_module L (mt_enabled (cf_mitm d)) u) i (cf_modules d)") (auto simp: update_mutator_def)
  from f obtain xs m m' ys where p: "cf_modules d = xs @ m # ys" "ms' = xs @ m' # ys"
      "update_module L (mt_enabled (cf_mitm d)) u m = Inr (m', False)" by (rule update_first_parts)
  note q = update_module_quiet [OF p(3)]
  have dist: "distinct (map em_id (cf_modules next))" using assms(2) q p by (simp add: nx)
  have "document_answers next = document_answers d"
    using dist assms(2) q owner_in_replace [of m' m xs ys] p
    by (intro answers_cong) (simp_all add: nx document_order_def)
  then show ?thesis using dist by simp
qed

lemma reorder_quiet:
  assumes "reorder_mutator requested d = Inr (next, False)"
  shows "document_answers next = document_answers d"
proof -
  have n: "next = d\<lparr>cf_execution_order := Some requested\<rparr>" "document_order d = requested"
    using assms by (auto simp: reorder_mutator_def split: option.splits)
  have "host_document next = host_document d" by (simp add: n(1) n(2) [symmetric] host_document_def document_order_def)
  then show ?thesis by (simp add: document_answers_def [abs_def])
qed

lemma trim_space_Nil: "trim_space h = [] \<Longrightarrow> list_all is_space h"
proof -
  assume "trim_space h = []"
  then have "\<forall>c\<in>set (dropWhile is_space h). is_space c"
    by (auto simp: trim_space_def drop_while_end_def dropWhile_eq_Nil_conv)
  moreover have "\<forall>c\<in>set (takeWhile is_space h). is_space c" using set_takeWhileD by metis
  ultimately show ?thesis
    by (metis (no_types, lifting) Un_iff list_all_iff set_append takeWhile_dropWhile_id)
qed

lemma valid_pattern_not_blank: "validate_intercept_host_pattern h = None \<Longrightarrow> trim_space h \<noteq> []"
proof
  assume v: "validate_intercept_host_pattern h = None" and t: "trim_space h = []"
  have "\<not> is_space dot" by code_simp
  then have "\<not> has_suffix h [dot]" using trim_space_Nil [OF t] by (auto simp: has_suffix_iff)
  moreover have "trim_space (trim_suffix [] [dot]) = []" by code_simp
  ultimately have "validate_intercept_host_pattern h = validate_intercept_host_pattern []"
    using t unfolding validate_intercept_host_pattern_def by (simp add: trim_suffix_none)
  moreover have "validate_intercept_host_pattern [] \<noteq> None" by code_simp
  ultimately show False using v by metis
qed

lemma no_hosts_no_module:
  assumes "validate_intercept_document L d = None" "certificate_intercept_hosts d = []"
  shows "owner_in (cf_modules d) = (\<lambda>_. None)"
proof -
  have "\<not> em_enabled m" if m: "m \<in> set (cf_modules d)" for m
  proof
    assume e: "em_enabled m"
    have "em_capture_hosts m \<noteq> []" "\<forall>h\<in>set (em_capture_hosts m). validate_intercept_host_pattern h = None"
      using accepted_modules(2) [OF assms(1) m] by (auto simp: validate_intercept_module_def)
    then obtain h where h: "h \<in> set (em_capture_hosts m)" "trim_space h \<noteq> []"
      using valid_pattern_not_blank by (cases "em_capture_hosts m") auto
    then have "trim_space h \<in> set (certificate_intercept_hosts d)"
      using m e by (auto simp: certificate_intercept_hosts_def unique_sorted_strings_def)
    then show False using assms(2) by simp
  qed
  then have "shown m = None" if "List.find P (cf_modules d) = Some m" for P m
    using that by (auto simp: shown_def find_Some_iff)
  then have "Option.bind (List.find P (cf_modules d)) shown = None" for P
    by (cases "List.find P (cf_modules d)") simp_all
  then show ?thesis by (intro ext) (simp add: owner_in_def)
qed

lemma settings_quiet:
  assumes "settings_mutator mitm d = Inr (next, False)" "validate_intercept_document L d = None"
  shows "document_answers next = document_answers d"
proof -
  have n: "next = d\<lparr>cf_mitm := mitm\<rparr>" "(active_intercept_hosts d \<noteq> []) = (active_intercept_hosts next \<noteq> [])"
    using assms(1) by (auto simp: settings_mutator_def Let_def)
  note dist = accepted_modules(1) [OF assms(2)]
  show ?thesis
  proof (cases "active_intercept_hosts d = []")
    case False
    then have "mt_enabled (cf_mitm d)" "mt_enabled mitm" using n by (auto simp: active_intercept_hosts_def split: if_splits)
    then show ?thesis using dist by (intro answers_cong) (simp_all add: n(1) document_order_def)
  next
    case True
    have "certificate_intercept_hosts next = certificate_intercept_hosts d" by (simp add: n(1) certificate_intercept_hosts_def)
    then have "mt_enabled (cf_mitm d) \<or> mt_enabled mitm \<Longrightarrow> certificate_intercept_hosts d = []"
      using True n by (auto simp: active_intercept_hosts_def split: if_splits)
    then have "mt_enabled (cf_mitm d) \<or> mt_enabled mitm \<Longrightarrow> owner_in (cf_modules d) = (\<lambda>_. None)"
      using no_hosts_no_module [OF assms(2)] by blast
    then show ?thesis using dist
      by (intro ext) (auto simp: answers_by_owner n(1) List.map_filter_def)
  qed
qed

section \<open>One transaction\<close>

text \<open>The law of the JSON functions: what was encoded is decoded again.\<close>

definition json_law :: "manager_env \<Rightarrow> bool" where
  "json_law E \<longleftrightarrow> (\<forall>d b. me_encode E d = Some b \<longrightarrow> me_decode E (b @ [char_of (10 :: nat)]) = Some d)"

definition holds_document :: "manager_env \<Rightarrow> string \<Rightarrow> module_document \<Rightarrow> bool" where
  "holds_document E body d \<longleftrightarrow> me_decode E body = Some d \<and> validate_intercept_document (me_lib E) d = None"

lemma holds_document_unique: "holds_document E body d \<Longrightarrow> holds_document E body e \<Longrightarrow> d = e"
  by (simp add: holds_document_def)

lemma holds_distinct: "holds_document E body d \<Longrightarrow> distinct (map em_id (cf_modules d))"
  by (auto simp: holds_document_def intro: accepted_modules(1))

lemma store_read_holds: "store_read E att body = Inr d \<Longrightarrow> holds_document E body d"
  by (auto simp: store_read_def holds_document_def split: if_splits option.splits)

lemma marshal_holds: "json_law E \<Longrightarrow> marshal_intercept_document E d = Inr body \<Longrightarrow> holds_document E body d"
  by (auto simp: marshal_intercept_document_def holds_document_def json_law_def split: option.splits if_splits)

lemma wait_loop_same: "wait_loop digest (mm_body s) waits s = (r, s') \<Longrightarrow> s' = s"
  by (induction digest "mm_body s" waits s rule: wait_loop.induct) (auto split: if_splits option.splits wait_event.splits)

lemma wait_for_certificate_same: "wait_for_certificate E att digest (mm_body s) s = (r, s') \<Longrightarrow> s' = s"
  by (auto simp: wait_for_certificate_def split: if_splits dest: wait_loop_same)

text \<open>mihomo took the new configuration, said otherwise, and did not take the old one back.\<close>

definition put_unsettled :: "attempt \<Rightarrow> bool" where
  "put_unsettled att \<longleftrightarrow> at_put att = PutUnconfirmed \<and> (\<not> at_restore_write att \<or> at_restore_put att = PutRefused)"

lemma publish_mihomo_parts:
  assumes "publish_mihomo att old_text next_text s = (r, s')"
  shows "mm_hosts s' = mm_hosts s \<and> mm_body s' = mm_body s \<and> mm_flushes s' = mm_flushes s \<and> mm_hooks s' = mm_hooks s \<and>
    (r = None \<longrightarrow> mm_mihomo s' = next_text \<and> mm_running s' = next_text \<and> at_put att = PutTaken) \<and>
    (r \<noteq> None \<longrightarrow> old_text = mm_mihomo s \<longrightarrow> (mm_mihomo s' = mm_mihomo s \<or> \<not> at_restore_write att) \<and>
      (mm_running s' \<in> {mm_running s, mm_mihomo s} \<or> put_unsettled att))"
  using assms
  by (cases "at_put att"; cases "at_restore_put att")
    (auto simp: publish_mihomo_def put_configs_def put_unsettled_def Let_def split: if_splits)

text \<open>What an error leaves behind of a change that got as far as the writes.\<close>

definition left_alone :: "attempt \<Rightarrow> manager_error \<Rightarrow> manager \<Rightarrow> manager \<Rightarrow> bool" where
  "left_alone att e s s' \<longleftrightarrow> mm_hosts s' = mm_hosts s \<and> mm_flushes s' = mm_flushes s \<and> mm_hooks s' = mm_hooks s \<and>
     (mm_body s' = mm_body s \<or> (\<exists>why. e = ErrApplyFailed False why)) \<and>
     (mm_mihomo s' = mm_mihomo s \<or> \<not> at_restore_write att \<and> (\<exists>ok why. e = ErrApplyFailed ok why)) \<and>
     (mm_running s' \<in> {mm_running s, mm_mihomo s} \<or> put_unsettled att \<and> (\<exists>ok why. e = ErrApplyFailed ok why))"

lemma left_alone_refl [simp]: "left_alone att e s s"
  by (simp add: left_alone_def)

text \<open>What success means for a change of the routing.\<close>

definition published :: "manager_env \<Rightarrow> attempt \<Rightarrow> module_document \<Rightarrow> string \<Rightarrow> manager \<Rightarrow> manager \<Rightarrow> bool" where
  "published E att next new_body s s' \<longleftrightarrow> mm_body s' = new_body \<and>
     mm_hosts s' = new_intercept_host_snapshot (host_document next) \<and> mm_flushes s' = mm_flushes s + 1 \<and> mm_hooks s' = mm_hooks s + 1 \<and>
     ra_manageable (me_analyze E (mm_mihomo s') next) \<and> at_candidate att (mm_mihomo s') = None \<and>
     at_put att = PutTaken \<and> mm_running s' = mm_mihomo s'"

lemma publish_document_parts:
  assumes "publish_document E att old old_body next new_body next_mihomo (s\<lparr>mm_body := new_body\<rparr>) = (r, s')" "old_body = mm_body s"
  shows "case r of
      Some e \<Rightarrow> left_alone att e s s'
    | None \<Rightarrow> mm_body s' = new_body \<and> mm_mihomo s' = next_mihomo \<and> mm_running s' = next_mihomo \<and> at_put att = PutTaken \<and>
        mm_hosts s' = new_intercept_host_snapshot (host_document next) \<and> mm_flushes s' = mm_flushes s + 1 \<and> mm_hooks s' = mm_hooks s + 1"
proof -
  let ?s = "s\<lparr>mm_body := new_body\<rparr>"
  define wait where "wait = (if certificate_intercept_hosts next \<noteq> [] \<and>
      (certificate_intercept_hosts old \<noteq> certificate_intercept_hosts next \<or>
       (active_intercept_hosts old = [] \<and> active_intercept_hosts next \<noteq> []) \<and> \<not> certificate_ready E att next)
    then wait_for_certificate E att (intercept_certificate_digest E (certificate_intercept_hosts next)) new_body ?s else (None, ?s))"
  have w: "snd wait = ?s"
  proof -
    have "snd (wait_for_certificate E att digest new_body ?s) = ?s" for digest
      using wait_for_certificate_same [of E att digest ?s] by (cases "wait_for_certificate E att digest new_body ?s") auto
    then show ?thesis by (simp add: wait_def)
  qed
  have p: "publish_document E att old old_body next new_body next_mihomo ?s =
      (case wait of (Some e, s1) \<Rightarrow> sidecar_rollback att old_body e s1
       | (None, s1) \<Rightarrow> (case publish_mihomo att (mm_mihomo ?s) next_mihomo s1 of
             (Some e, s2) \<Rightarrow> sidecar_rollback att old_body e s2
           | (None, s2) \<Rightarrow> (None, let s3 = publish_hosts (Some next) s2 in s3\<lparr>mm_hooks := mm_hooks s3 + 1\<rparr>)))"
    unfolding publish_document_def wait_def Let_def by simp
  show ?thesis
  proof (cases "fst wait")
    case (Some e)
    then have "wait = (Some e, ?s)" using w by (metis prod.collapse)
    then show ?thesis using assms(1) [unfolded p] assms(2)
      by (auto simp: sidecar_rollback_def left_alone_def split: if_splits)
  next
    case None
    then have wt: "wait = (None, ?s)" using w by (metis prod.collapse)
    obtain r2 s2 where m: "publish_mihomo att (mm_mihomo ?s) next_mihomo ?s = (r2, s2)" by fastforce
    note parts = publish_mihomo_parts [OF m]
    show ?thesis
    proof (cases r2)
      case (Some e)
      then show ?thesis using assms(1) [unfolded p wt prod.case option.case m] Some assms(2) parts
        by (auto simp: sidecar_rollback_def left_alone_def m split: if_splits)
    next
      case None
      then show ?thesis using assms(1) [unfolded p wt prod.case option.case m] None parts
        by (auto simp: m publish_hosts_def Let_def)
    qed
  qed
qed

lemma apply_routing_parts:
  assumes "apply_routing E att old old_body next new_body s = (r, s')" "old_body = mm_body s"
  shows "case r of Some e \<Rightarrow> left_alone att e s s' | None \<Rightarrow> published E att next new_body s s'"
proof (cases "\<exists>next_mihomo. me_render E (mm_mihomo s) old next = Some next_mihomo \<and>
    ra_manageable (me_analyze E next_mihomo next) \<and> at_candidate att next_mihomo = None \<and>
    apply_routing E att old old_body next new_body s =
      publish_document E att old old_body next new_body next_mihomo (s\<lparr>mm_body := new_body\<rparr>)")
  case True
  then obtain next_mihomo where n: "ra_manageable (me_analyze E next_mihomo next)" "at_candidate att next_mihomo = None"
    "publish_document E att old old_body next new_body next_mihomo (s\<lparr>mm_body := new_body\<rparr>) = (r, s')"
    using assms(1) by auto
  from publish_document_parts [OF n(3) assms(2)] n(1,2) show ?thesis
    by (auto simp: published_def split: option.splits)
next
  case False
  then have "s' = s \<and> r \<noteq> None"
    using assms(1) unfolding apply_routing_def Let_def
    by (auto split: if_splits option.splits)
  then show ?thesis by (auto split: option.splits)
qed

text \<open>The order the mutator sees is a copy, which is the order itself in an accepted document.\<close>

lemma mutate_parts:
  assumes "mutate E att revision f s = (r, s')"
  obtains (refused) e where "r = Some e" "s' = s"
    | (quiet) old new where "holds_document E (mm_body s) old" "intercept_revision E (mm_body s) = revision" "f old = Inr (new, False)"
        "marshal_intercept_document E new = Inr (mm_body s')" "at_sidecar att (mm_body s') = None"
        "s' = s\<lparr>mm_body := mm_body s'\<rparr>" "r = view_locked E att s'"
    | (routed) old new new_body where "holds_document E (mm_body s) old" "intercept_revision E (mm_body s) = revision"
        "f old = Inr (new, True)" "marshal_intercept_document E new = Inr new_body" "at_sidecar att new_body = None"
        "apply_routing E att old (mm_body s) new new_body s = (r, s')"
proof (cases "store_read E att (mm_body s)")
  case (Inl e)
  then have "r = Some (ErrModule e)" "s' = s" using assms by (simp_all add: mutate_def)
  then show thesis by (rule refused)
next
  case (Inr old)
  note h = store_read_holds [OF Inr]
  have o: "old\<lparr>cf_execution_order := Some (document_order old)\<rparr> = old"
    using h accepted_modules(3) order_restored by (auto simp: holds_document_def)
  show thesis
  proof (cases "intercept_revision E (mm_body s) = revision \<and>
      (\<exists>new b new_body. f old = Inr (new, b) \<and> marshal_intercept_document E new = Inr new_body \<and> at_sidecar att new_body = None)")
    case True
    then obtain new b new_body where m: "intercept_revision E (mm_body s) = revision" "f old = Inr (new, b)"
      "marshal_intercept_document E new = Inr new_body" "at_sidecar att new_body = None" by blast
    show thesis
    proof (cases b)
      case True
      then have "apply_routing E att old (mm_body s) new new_body s = (r, s')"
        using assms m by (simp add: mutate_def Inr o)
      then show thesis using routed [OF h m(1) _ m(3,4)] m(2) True by simp
    next
      case False
      then have "mutate E att revision f s =
         (if mm_body s = new_body then (view_locked E att s, s)
          else if \<not> at_write att then (Some (ErrModule ''write interception config''), s)
          else (view_locked E att (s\<lparr>mm_body := new_body\<rparr>), s\<lparr>mm_body := new_body\<rparr>))"
        using m by (simp add: mutate_def Inr o Let_def)
      then consider "mm_body s = new_body" "r = view_locked E att s'" "s' = s" | e where "r = Some e" "s' = s"
        | "r = view_locked E att s'" "s' = s\<lparr>mm_body := new_body\<rparr>"
        using assms by (auto split: if_splits)
      then show thesis
      proof cases
        case 1
        then show thesis using quiet [OF h m(1), of new] m False by simp
      next
        case 3
        then show thesis using quiet [OF h m(1), of new] m False by simp
      qed (rule refused)
    qed
  next
    case False
    then have "s' = s \<and> r \<noteq> None"
      using assms by (auto simp: mutate_def Inr o split: if_splits sum.splits prod.splits option.splits)
    then show thesis using refused by blast
  qed
qed

text \<open>C13: a change of the extensions that fails takes nothing with it: unless it was only the view that could not be read
  back, the handler answers as before and its cache was not flushed; the document is the old one
  again or the error says that it could not be restored; mihomo's configuration file is the old one
  again unless the write that restores it failed; and mihomo runs what it ran, or the configuration of
  the old file, unless it took the new one while reporting an error and then would not take the old one
  back, because the file could not be restored or the second call was refused.
\<close>

theorem change_failure_atomic:
  assumes "mutate E att revision f s = (Some e, s')"
  shows "(\<exists>why. e = ErrView why) \<and> mm_hosts s' = mm_hosts s \<and> mm_mihomo s' = mm_mihomo s \<and> mm_running s' = mm_running s \<or>
    left_alone att e s s'"
  using assms
proof (cases rule: mutate_parts)
  case (quiet old new)
  have "\<exists>why. e = ErrView why" using quiet(7) by (auto simp: view_locked_def split: sum.splits)
  moreover have "mm_hosts s' = mm_hosts s \<and> mm_mihomo s' = mm_mihomo s \<and> mm_running s' = mm_running s"
    by (subst (1 2 3) quiet(6)) simp
  ultimately show ?thesis by blast
next
  case (routed old new new_body)
  from apply_routing_parts [OF routed(6) refl] show ?thesis by simp
qed simp

text \<open>C14: a change of the extensions that succeeds was made to the document of the requested revision, leaves a document
  in the file that both programs' checks accept, and, when it concerns the routing, leaves mihomo running
  the configuration in its file, which was verified for that document, and the handler on the
  hosts of that document with its cache flushed; otherwise it leaves them alone. That the decoder reads
  back what the encoder wrote is a hypothesis.
\<close>

theorem change_published:
  assumes "json_law E" "mutate E att revision f s = (None, s')"
  shows "\<exists>old new routed. holds_document E (mm_body s) old \<and> il_digest (me_lib E) (mm_body s) = revision \<and>
    f old = Inr (new, routed) \<and> holds_document E (mm_body s') new \<and> at_sidecar att (mm_body s') = None \<and>
    (if routed then published E att new (mm_body s') s s'
     else mm_hosts s' = mm_hosts s \<and> mm_mihomo s' = mm_mihomo s \<and> mm_running s' = mm_running s \<and> mm_flushes s' = mm_flushes s)"
  using assms(2)
proof (cases rule: mutate_parts)
  case (quiet old new)
  have "mm_hosts s' = mm_hosts s \<and> mm_mihomo s' = mm_mihomo s \<and> mm_running s' = mm_running s \<and> mm_flushes s' = mm_flushes s"
    by (subst (1 2 3 4) quiet(6)) simp
  then show ?thesis
    using quiet(1-3,5) marshal_holds [OF assms(1) quiet(4)]
    by (intro exI [of _ old] exI [of _ new] exI [of _ False]) (simp add: intercept_revision_def)
next
  case (routed old new new_body)
  from apply_routing_parts [OF routed(6) refl] have p: "published E att new new_body s s'" by simp
  then have "mm_body s' = new_body" by (simp add: published_def)
  then show ?thesis
    using routed(1-3,5) marshal_holds [OF assms(1) routed(4)] p
    by (intro exI [of _ old] exI [of _ new] exI [of _ True]) (simp add: intercept_revision_def)
qed simp

section \<open>All operations\<close>

datatype manager_op =
    OpUpdate attempt string string module_update
  | OpReorder attempt string "string list"
  | OpSettings attempt string mitm_settings
  | OpImport attempt string module_snapshot
  | OpDelete attempt string string
  | OpApplyUpdate attempt string string string string "string \<Rightarrow> failure + module_snapshot"
  | OpPrepare attempt
  | OpReconcile attempt string

fun manager_step :: "manager_env \<Rightarrow> manager_op \<Rightarrow> manager \<Rightarrow> manager_error option \<times> manager" where
  "manager_step E (OpUpdate att i revision u) s = update E att i revision u s"
| "manager_step E (OpReorder att revision order) s = reorder E att revision order s"
| "manager_step E (OpSettings att revision mitm) s = update_settings E att revision mitm s"
| "manager_step E (OpImport att revision m) s = import_snapshot E att revision m s"
| "manager_step E (OpDelete att i revision) s = delete_module E att i revision s"
| "manager_step E (OpApplyUpdate att i revision digest earlier imported) s = apply_update E att i revision digest earlier imported s"
| "manager_step E (OpPrepare att) s = prepare_runtime E att s"
| "manager_step E (OpReconcile att text) s = reconcile_mihomo_text E att text s"

text \<open>
  What the operations are called with: the parser of manifests makes disabled extensions only, and no
  two files met have the same SHA-256.
\<close>

fun op_ok :: "manager_env \<Rightarrow> manager_op \<Rightarrow> bool" where
  "op_ok E (OpImport att revision m) \<longleftrightarrow> \<not> em_enabled m"
| "op_ok E (OpApplyUpdate att i revision digest earlier imported) \<longleftrightarrow>
     (\<forall>url m. imported url = Inr m \<longrightarrow> \<not> em_enabled m) \<and>
     (\<forall>body. il_digest (me_lib E) body = il_digest (me_lib E) earlier \<longrightarrow> body = earlier)"
| "op_ok E _ \<longleftrightarrow> True"

text \<open>An operation that finds the data plane not ready takes the hosts away.\<close>

fun suspends :: "manager_op \<Rightarrow> manager_error option \<Rightarrow> bool" where
  "suspends (OpPrepare att) r \<longleftrightarrow> r \<noteq> None"
| "suspends (OpReconcile att text) r \<longleftrightarrow> r \<noteq> None"
| "suspends _ r \<longleftrightarrow> False"

fun manager_run :: "manager_env \<Rightarrow> manager_op list \<Rightarrow> manager \<Rightarrow> (manager_op \<times> manager_error option) list \<times> manager" where
  "manager_run E [] s = ([], s)"
| "manager_run E (op # ops) s =
     (let (r, s1) = manager_step E op s; (rs, s2) = manager_run E ops s1 in ((op, r) # rs, s2))"

definition follows :: "manager_env \<Rightarrow> bool \<Rightarrow> manager \<Rightarrow> bool" where
  "follows E exact s \<longleftrightarrow> (\<exists>d. holds_document E (mm_body s) d \<and>
     (handler_answers s = document_answers d \<or> \<not> exact \<and> handler_answers s = (\<lambda>_. None)))"

lemma follows_hosts: "mm_hosts s' = mm_hosts s \<Longrightarrow> mm_body s' = mm_body s \<Longrightarrow> follows E exact s \<Longrightarrow> follows E exact s'"
  by (simp add: follows_def handler_answers_def [abs_def])

lemma follows_quiet:
  assumes "follows E exact s" "holds_document E (mm_body s) d" "holds_document E body e" "document_answers e = document_answers d"
  shows "follows E exact (s\<lparr>mm_body := body\<rparr>)"
proof -
  obtain d' where d': "holds_document E (mm_body s) d'"
    "handler_answers s = document_answers d' \<or> \<not> exact \<and> handler_answers s = (\<lambda>_. None)"
    using assms(1) by (auto simp: follows_def)
  have "d' = d" by (rule holds_document_unique [OF d'(1) assms(2)])
  moreover have "handler_answers (s\<lparr>mm_body := body\<rparr>) = handler_answers s" by (simp add: handler_answers_def [abs_def])
  ultimately show ?thesis
    using d'(2) assms(3,4) unfolding follows_def by (intro exI [of _ e]) simp
qed

lemma handler_answers_snapshot:
  "mm_hosts s = new_intercept_host_snapshot (host_document d) \<Longrightarrow> handler_answers s = document_answers d"
  by (simp add: fun_eq_iff handler_answers_def document_answers_def)

lemma mutate_follows:
  assumes "mutate E att revision f s = (r, s')" "json_law E" "follows E exact s" "\<nexists>why. r = Some (ErrApplyFailed False why)"
    and quiet_change: "\<And>d e. validate_intercept_document (me_lib E) d = None \<Longrightarrow> f d = Inr (e, False) \<Longrightarrow>
      document_answers e = document_answers d"
  shows "follows E exact s'"
  using assms(1)
proof (cases rule: mutate_parts)
  case (quiet old new)
  have "document_answers new = document_answers old"
    using quiet(1,3) quiet_change by (simp add: holds_document_def)
  from follows_quiet [OF assms(3) quiet(1) marshal_holds [OF assms(2) quiet(4)] this] show ?thesis
    by (simp only: quiet(6) [symmetric])
next
  case (routed old new new_body)
  note p = apply_routing_parts [OF routed(6) refl]
  show ?thesis
  proof (cases r)
    case None
    then have "published E att new new_body s s'" using p by simp
    then show ?thesis
      using marshal_holds [OF assms(2) routed(4)] handler_answers_snapshot by (auto simp: published_def follows_def)
  next
    case (Some e)
    then have "mm_hosts s' = mm_hosts s" "mm_body s' = mm_body s" using p assms(4) by (auto simp: left_alone_def)
    then show ?thesis by (rule follows_hosts [OF _ _ assms(3)])
  qed
qed (use assms(3) in simp)

lemma replace_follows:
  assumes "replace_document E att new s = (r, s')" "json_law E" "follows E exact s" "holds_document E (mm_body s) d"
    and "validate_intercept_document (me_lib E) new = None \<Longrightarrow> document_answers new = document_answers d"
  shows "follows E exact s'"
proof (cases "s' = s")
  case False
  then obtain body where m: "marshal_intercept_document E new = Inr body" "s' = s\<lparr>mm_body := body\<rparr>"
    using assms(1) by (auto simp: replace_document_def Let_def split: sum.splits option.splits if_splits)
  note h = marshal_holds [OF assms(2) m(1)]
  then have "document_answers new = document_answers d" using assms(5) by (simp add: holds_document_def)
  from follows_quiet [OF assms(3,4) h this] show ?thesis by (simp add: m(2))
qed (use assms(3) in simp)

lemma owner_in_append: "\<not> em_enabled m \<Longrightarrow> owner_in (ms @ [m]) = owner_in ms"
proof
  fix i assume "\<not> em_enabled m"
  then show "owner_in (ms @ [m]) i = owner_in ms i" by (induction ms) (simp_all add: owner_in_def shown_def)
qed

lemma owner_in_absent: "i \<notin> em_id ` set ms \<Longrightarrow> owner_in ms i = None"
  by (induction ms) (auto simp: owner_in_def)

lemma import_answers:
  assumes "validate_intercept_document L (d\<lparr>cf_modules := cf_modules d @ [m], cf_execution_order := Some (document_order d @ [em_id m])\<rparr>) = None"
    (is "validate_intercept_document L ?e = None")
    and "\<not> em_enabled m" "distinct (map em_id (cf_modules d))"
  shows "document_answers ?e = document_answers d"
proof (rule answers_cong)
  show dist: "distinct (map em_id (cf_modules ?e))" by (rule accepted_modules(1) [OF assms(1)])
  then have "owner_in (cf_modules d) (em_id m) = None" by (intro owner_in_absent) simp
  then show "List.map_filter (owner_in (cf_modules ?e)) (document_order ?e) = List.map_filter (owner_in (cf_modules d)) (document_order d)"
    using owner_in_append [OF assms(2)] by (simp add: document_order_def List.map_filter_def)
qed (simp_all add: assms(3))

lemma import_follows:
  assumes "import_snapshot E att revision m s = (r, s')" "json_law E" "follows E exact s" "\<not> em_enabled m"
  shows "follows E exact s'"
proof (cases "s' = s")
  case False
  then obtain d where d: "store_read E att (mm_body s) = Inr d"
    "replace_document E att (d\<lparr>cf_modules := cf_modules d @ [m], cf_execution_order := Some (document_order d @ [em_id m])\<rparr>) s = (r, s')"
    using assms(1) by (auto simp: import_snapshot_def split: if_splits option.splits sum.splits)
  note h = store_read_holds [OF d(1)]
  have "distinct (map em_id (cf_modules d))" by (rule holds_distinct [OF h])
  from replace_follows [OF d(2) assms(2,3) h import_answers [OF _ assms(4) this]] show ?thesis .
qed (use assms(3) in simp)

lemma owner_in_remove:
  assumes "List.find (\<lambda>m. em_id m = i) ms = Some m" "\<not> em_enabled m" "distinct (map em_id ms)"
  shows "owner_in (remove_first i ms) = owner_in ms"
proof
  fix j
  show "owner_in (remove_first i ms) j = owner_in ms j"
    using assms
  proof (induction ms)
    case (Cons x ms)
    show ?case
    proof (cases "em_id x = i")
      case True
      then have "x = m" "i \<notin> em_id ` set ms" using Cons.prems by auto
      then show ?thesis using True Cons.prems(2) owner_in_absent [of i ms]
        by (cases "j = i") (auto simp: owner_in_def shown_def)
    next
      case False
      then show ?thesis using Cons by (simp add: owner_in_def)
    qed
  qed simp
qed

lemma map_filter_drop: "f i = None \<Longrightarrow> List.map_filter f (filter (\<lambda>x. x \<noteq> i) xs) = List.map_filter f xs"
  by (induction xs) (auto simp: List.map_filter_simps split: option.splits)

lemma set_remove_first: "set (remove_first i ms) \<subseteq> set ms"
  by (induction ms) auto

lemma distinct_remove_first: "distinct (map em_id ms) \<Longrightarrow> distinct (map em_id (remove_first i ms))"
  using set_remove_first by (induction ms) fastforce+

lemma delete_answers:
  assumes "List.find (\<lambda>m. em_id m = i) (cf_modules d) = Some m" "\<not> em_enabled m" "distinct (map em_id (cf_modules d))"
  shows "document_answers (d\<lparr>cf_modules := remove_first i (cf_modules d),
      cf_execution_order := Some (remove_intercept_module_id (document_order d) i)\<rparr>) = document_answers d"
proof (rule answers_cong)
  have "owner_in (cf_modules d) i = None" using assms(1,2) by (simp add: owner_in_def shown_def)
  from map_filter_drop [where f = "owner_in (cf_modules d)", OF this]
  show "List.map_filter (owner_in (cf_modules (d\<lparr>cf_modules := remove_first i (cf_modules d),
      cf_execution_order := Some (remove_intercept_module_id (document_order d) i)\<rparr>)))
    (document_order (d\<lparr>cf_modules := remove_first i (cf_modules d),
      cf_execution_order := Some (remove_intercept_module_id (document_order d) i)\<rparr>)) =
    List.map_filter (owner_in (cf_modules d)) (document_order d)"
    using owner_in_remove [OF assms] by (simp add: document_order_def remove_intercept_module_id_def)
qed (simp_all add: assms(3) distinct_remove_first)

lemma delete_follows:
  assumes "delete_module E att i revision s = (r, s')" "json_law E" "follows E exact s"
  shows "follows E exact s'"
proof (cases "s' = s")
  case False
  then obtain d m where d: "store_read E att (mm_body s) = Inr d" "List.find (\<lambda>m. em_id m = i) (cf_modules d) = Some m" "\<not> em_enabled m"
    "replace_document E att (d\<lparr>cf_modules := remove_first i (cf_modules d),
            cf_execution_order := Some (remove_intercept_module_id (document_order d) i)\<rparr>) s = (r, s')"
    using assms(1) by (auto simp: delete_module_def split: if_splits option.splits sum.splits)
  note h = store_read_holds [OF d(1)]
  have "distinct (map em_id (cf_modules d))" by (rule holds_distinct [OF h])
  from replace_follows [OF d(4) assms(2,3) h delete_answers [OF d(2,3) this]] show ?thesis .
qed (use assms(3) in simp)

lemma last_index_of_Some: "last_index_of i k ms = Some j \<Longrightarrow> k \<le> j \<and> j - k < length ms \<and> em_id (ms ! (j - k)) = i"
proof (induction ms arbitrary: k)
  case (Cons m ms)
  show ?case
  proof (cases "last_index_of i (Suc k) ms")
    case None
    then show ?thesis using Cons.prems by (auto split: if_splits)
  next
    case (Some j')
    then have j: "j' = j" using Cons.prems by simp
    from Cons.IH [OF Some [unfolded j]] have "Suc k \<le> j \<and> j - Suc k < length ms \<and> em_id (ms ! (j - Suc k)) = i" by (simp add: j)
    then show ?thesis by (auto simp: nth_Cons split: nat.splits) (metis Suc_diff_Suc Suc_le_lessD diff_Suc_Suc nat.inject)+
  qed
qed simp

lemma update_answers:
  assumes "List.find (\<lambda>m. em_id m = i) (cf_modules d) = Some current" "\<not> em_enabled current" "distinct (map em_id (cf_modules d))"
    and "last_index_of i 0 (cf_modules d) = Some k" "em_id m = i" "\<not> em_enabled m"
  shows "document_answers (d\<lparr>cf_modules := (cf_modules d)[k := m]\<rparr>) = document_answers d"
proof -
  let ?ms = "cf_modules d"
  have k: "k < length ?ms" "em_id (?ms ! k) = i" using last_index_of_Some [OF assms(4)] by simp_all
  have "current \<in> set ?ms" "em_id current = i" using assms(1) by (auto simp: find_Some_iff)
  then have c: "?ms ! k = current" using k assms(3) by (metis distinct_map inj_on_def nth_mem)
  have ms: "?ms = take k ?ms @ current # drop (Suc k) ?ms" using id_take_nth_drop [OF k(1)] c by simp
  have up: "?ms[k := m] = take k ?ms @ m # drop (Suc k) ?ms" by (rule upd_conv_take_nth_drop [OF k(1)])
  have "owner_in (?ms[k := m]) = owner_in ?ms"
    unfolding up using owner_in_replace [of m current "take k ?ms" "drop (Suc k) ?ms"] ms assms(2,5,6) \<open>em_id current = i\<close>
    by (simp add: shown_def)
  moreover have "map em_id (?ms[k := m]) = map em_id ?ms"
    unfolding map_update using k assms(5) by (metis length_map list_update_id nth_map)
  ultimately show ?thesis using assms(3) by (intro answers_cong) (simp_all add: document_order_def)
qed

lemma apply_update_parts:
  assumes "apply_update E att i revision digest earlier imported s = (r, s')" "s' \<noteq> s"
  obtains d0 d current candidate k where "store_read E (att\<lparr>at_read := at_first_read att\<rparr>) earlier = Inr d0"
    "intercept_revision E earlier = revision" "List.find (\<lambda>m. em_id m = i) (cf_modules d0) = Some current" "\<not> em_enabled current"
    "imported (so_url (em_source current)) = Inr candidate" "em_id candidate = em_id current"
    "store_read E att (mm_body s) = Inr d" "intercept_revision E (mm_body s) = revision" "last_index_of i 0 (cf_modules d) = Some k"
    "replace_document E att (d\<lparr>cf_modules := (cf_modules d)[k := candidate
        \<lparr>em_settings := merge_intercept_setting_values (me_lib E) (em_settings (cf_modules d ! k)) (em_settings candidate),
         em_egress_group := em_egress_group (cf_modules d ! k), em_capture_dns := em_capture_dns (cf_modules d ! k)\<rparr>]\<rparr>) s = (r, s')"
  using assms unfolding apply_update_def Let_def
  by (auto split: if_splits sum.splits option.splits)

lemma apply_update_follows:
  assumes "apply_update E att i revision digest earlier imported s = (r, s')" "json_law E" "follows E exact s"
    and "op_ok E (OpApplyUpdate att i revision digest earlier imported)"
  shows "follows E exact s'"
proof (cases "s' = s")
  case False
  from assms(1) False obtain d0 d current candidate k where
    r0: "store_read E (att\<lparr>at_read := at_first_read att\<rparr>) earlier = Inr d0" "intercept_revision E earlier = revision"
    and c: "List.find (\<lambda>m. em_id m = i) (cf_modules d0) = Some current" "\<not> em_enabled current"
    and cand: "imported (so_url (em_source current)) = Inr candidate" "em_id candidate = em_id current"
    and r1: "store_read E att (mm_body s) = Inr d" "intercept_revision E (mm_body s) = revision"
    and k: "last_index_of i 0 (cf_modules d) = Some k"
    and rep: "replace_document E att (d\<lparr>cf_modules := (cf_modules d)[k := candidate
        \<lparr>em_settings := merge_intercept_setting_values (me_lib E) (em_settings (cf_modules d ! k)) (em_settings candidate),
         em_egress_group := em_egress_group (cf_modules d ! k), em_capture_dns := em_capture_dns (cf_modules d ! k)\<rparr>]\<rparr>) s = (r, s')"
    by (rule apply_update_parts)
  have "mm_body s = earlier" using assms(4) r0(2) r1(2) by (simp add: intercept_revision_def)
  then have "d0 = d" using store_read_holds [OF r0(1)] store_read_holds [OF r1(1)] holds_document_unique by simp
  note c' = c(1) [unfolded this] and h = store_read_holds [OF r1(1)]
  have "em_id candidate = i" using cand(2) c(1) by (auto simp: find_Some_iff)
  moreover have "\<not> em_enabled candidate" using assms(4) cand(1) by simp
  ultimately show ?thesis
    using replace_follows [OF rep assms(2,3) h update_answers [OF c' c(2) holds_distinct [OF h] k]] by simp
qed (use assms(3) in simp)

lemma runtime_follows:
  assumes "prepare_runtime E att s = (r, s') \<or> reconcile_mihomo_text E att text s = (r, s')" "follows E exact s"
  shows "follows E (exact \<and> r = None) s'"
proof -
  obtain d where h: "holds_document E (mm_body s) d" and a: "handler_answers s = document_answers d \<or> \<not> exact \<and> handler_answers s = (\<lambda>_. None)"
    using assms(2) by (auto simp: follows_def)
  have off: "document_answers d = (\<lambda>_. None)" if "\<not> mt_enabled (cf_mitm d) \<or> active_intercept_hosts d = []"
  proof -
    have "owner_in (cf_modules d) = (\<lambda>_. None)" if "mt_enabled (cf_mitm d)"
      using that \<open>\<not> mt_enabled (cf_mitm d) \<or> active_intercept_hosts d = []\<close> h no_hosts_no_module
      by (auto simp: holds_document_def active_intercept_hosts_def)
    then show ?thesis by (intro ext) (simp add: answers_by_owner [OF holds_distinct [OF h]] List.map_filter_def)
  qed
  have b: "mm_body s' = mm_body s \<and> (s' = s \<and> r \<noteq> None \<or> s' = publish_hosts None s \<and> r \<noteq> None \<or>
      s' = publish_hosts None s \<and> (\<not> mt_enabled (cf_mitm d) \<or> active_intercept_hosts d = []) \<or> s' = publish_hosts (Some d) s)"
  proof -
    have "e = d" if "store_read E att (mm_body s) = Inr e" for e
      by (rule holds_document_unique [OF store_read_holds [OF that] h])
    then show ?thesis
      using assms(1) unfolding prepare_runtime_def reconcile_mihomo_text_def
      by (cases "store_read E att (mm_body s)") (auto simp: publish_hosts_def split: if_splits)
  qed
  then show ?thesis using h a off by (auto simp: follows_def)
qed

lemma step_follows:
  assumes "manager_step E op s = (r, s')" "json_law E" "op_ok E op" "follows E exact s" "\<nexists>why. r = Some (ErrApplyFailed False why)"
  shows "follows E (exact \<and> \<not> suspends op r) s'"
proof (cases op)
  case (OpUpdate att i revision u)
  have "document_answers e = document_answers d"
    if "validate_intercept_document (me_lib E) d = None" "update_mutator (me_lib E) i u d = Inr (e, False)" for d e
    using update_quiet [OF that(2) accepted_modules(1) [OF that(1)]] by simp
  then show ?thesis using assms mutate_follows [OF _ assms(2,4,5)] OpUpdate by (auto simp: update_def split: if_splits)
next
  case (OpReorder att revision order)
  then show ?thesis using assms mutate_follows [OF _ assms(2,4,5)] reorder_quiet by (auto simp: reorder_def split: if_splits)
next
  case (OpSettings att revision mitm)
  then show ?thesis using assms(1) mutate_follows [OF _ assms(2,4,5)] settings_quiet by (auto simp: update_settings_def)
next
  case (OpImport att revision m)
  then show ?thesis using assms import_follows [OF _ assms(2,4)] by simp
next
  case (OpDelete att i revision)
  then show ?thesis using assms delete_follows [OF _ assms(2,4)] by simp
next
  case (OpApplyUpdate att i revision digest earlier imported)
  then show ?thesis using assms apply_update_follows [OF _ assms(2,4)] by simp
next
  case (OpPrepare att)
  then show ?thesis using assms(1) runtime_follows [OF disjI1 assms(4)] by auto
next
  case (OpReconcile att raw)
  then show ?thesis using assms(1) runtime_follows [OF disjI2 assms(4)] by auto
qed

lemma run_follows:
  assumes "manager_run E ops s = (rs, s')" "json_law E" "list_all (op_ok E) ops" "follows E exact s"
    and "\<forall>x\<in>set rs. \<nexists>why. snd x = Some (ErrApplyFailed False why)"
  shows "follows E (exact \<and> list_all (\<lambda>(op, r). \<not> suspends op r) rs) s'"
  using assms(1,3,4,5)
proof (induction ops arbitrary: s rs exact)
  case (Cons op ops)
  obtain r s1 where one: "manager_step E op s = (r, s1)" by fastforce
  obtain rs1 where rest: "manager_run E ops s1 = (rs1, s')" "rs = (op, r) # rs1"
    using Cons.prems(1) by (auto simp: one split: prod.splits)
  have "follows E (exact \<and> \<not> suspends op r) s1"
    using step_follows [OF one assms(2) _ Cons.prems(3)] Cons.prems(2,4) rest(2) by simp
  from Cons.IH [OF rest(1) _ this] Cons.prems(2,4) rest(2) show ?case by (simp add: conj_assoc)
qed simp

definition rollback_failed :: "manager_error option \<Rightarrow> bool" where
  "rollback_failed r = (case r of Some (ErrApplyFailed restored why) \<Rightarrow> \<not> restored | _ \<Rightarrow> False)"

text \<open>C12: whatever operations ran, in whatever order and with whatever of their writes, tests and calls failing, the file
  holds an accepted document and the handler captures exactly the names that document says, with its
  extensions and resolver groups; or, once the data plane was found not ready, no name at all. Only a
  failed rollback, which is reported, ends this. It is assumed of the start that the handler follows
  the document in the file, of the codec that the decoder reads back what the encoder wrote, and of
  the calls that imported manifests are disabled and digests do not collide.
\<close>

theorem hosts_follow_document:
  assumes "manager_run E ops s = (rs, s')" "json_law E" "list_all (op_ok E) ops" "follows E True s"
    and "list_all (\<lambda>(op, r). \<not> rollback_failed r) rs"
  shows "\<exists>d. holds_document E (mm_body s') d \<and>
    (handler_answers s' = document_answers d \<or> list_ex (\<lambda>(op, r). suspends op r) rs \<and> handler_answers s' = (\<lambda>_. None))"
proof -
  have "\<forall>x\<in>set rs. \<nexists>why. snd x = Some (ErrApplyFailed False why)"
    using assms(5) by (force simp: list_all_iff rollback_failed_def)
  from run_follows [OF assms(1-4) this] show ?thesis
    by (auto simp: follows_def list_ex_iff list_all_iff)
qed

section \<open>Examples\<close>

definition ex_disabled :: module_document where
  "ex_disabled = ex_module_document\<lparr>cf_modules := [ex_snapshot\<lparr>em_enabled := False\<rparr>]\<rparr>"

definition ex_manager_env :: manager_env where
  "ex_manager_env = \<lparr>me_lib = ex_module_lib,
     me_decode = (\<lambda>b. if b = [CHR ''A'', char_of (10 :: nat)] then Some ex_module_document
       else if b = [CHR ''B'', char_of (10 :: nat)] then Some ex_disabled else None),
     me_encode = (\<lambda>d. if d = ex_module_document then Some ''A'' else if d = ex_disabled then Some ''B'' else None),
     me_encode_module = (\<lambda>m. []), me_credentials_match = (\<lambda>t d. True),
     me_analyze = (\<lambda>t d. \<lparr>ra_manageable = True, ra_reconcileable = True, ra_reason = [], ra_egress_groups = [''Proxies'']\<rparr>),
     me_render = (\<lambda>t d e. Some ''mihomo''), me_egress_groups = (\<lambda>t. Some [''Proxies'']), me_managed = True, me_cert_path = False\<rparr>"

definition ex_attempt :: attempt where
  "ex_attempt = \<lparr>at_read = True, at_first_read = True, at_sidecar = (\<lambda>b. None), at_write = True, at_mihomo_read = True,
     at_candidate = (\<lambda>t. None), at_cert_state = None, at_waits = [], at_backup_write = True, at_config_write = True, at_put = PutTaken,
     at_restore_write = True, at_restore_put = PutTaken, at_sidecar_restore = True, at_view = True\<rparr>"

definition ex_extension_manager :: manager where
  "ex_extension_manager = \<lparr>mm_body = [CHR ''A'', char_of (10 :: nat)], mm_mihomo = ''old'', mm_running = ''old'', mm_backup = [],
     mm_hosts = new_intercept_host_snapshot (host_document ex_module_document), mm_flushes = 0, mm_hooks = 0\<rparr>"

definition ex_disable :: "attempt \<Rightarrow> manager_op" where
  "ex_disable att = OpUpdate att ''demo.ext'' ex_digest
     \<lparr>mu_enabled = Some False, mu_egress_group = None, mu_capture_dns = None, mu_settings = None\<rparr>"

lemma ex_json_law: "json_law ex_manager_env"
  by (auto simp: json_law_def ex_manager_env_def split: if_splits)

lemma ex_holds:
  "holds_document ex_manager_env [CHR ''A'', char_of (10 :: nat)] ex_module_document"
  "holds_document ex_manager_env [CHR ''B'', char_of (10 :: nat)] ex_disabled"
proof -
  have "validate_intercept_document ex_module_lib ex_disabled = None" by code_simp
  then show "holds_document ex_manager_env [CHR ''A'', char_of (10 :: nat)] ex_module_document"
    "holds_document ex_manager_env [CHR ''B'', char_of (10 :: nat)] ex_disabled"
    using ex_module_document_valid by (simp_all add: holds_document_def ex_manager_env_def)
qed

text \<open>Two attempts to switch the extension off: mihomo's controller reports an error for the first.\<close>

lemma ex_run:
  "(let (rs, s) = manager_run ex_manager_env [ex_disable (ex_attempt\<lparr>at_put := PutUnconfirmed\<rparr>), ex_disable ex_attempt]
      ex_extension_manager
    in (map snd rs, mm_body s)) =
   ([Some (ErrApplyFailed True ''mihomo hot-apply failed''), None], [CHR ''B'', char_of (10 :: nat)])"
  by code_simp

definition ex_change :: mutator where
  "ex_change = update_mutator ex_module_lib ''demo.ext''
     \<lparr>mu_enabled = Some False, mu_egress_group = None, mu_capture_dns = None, mu_settings = None\<rparr>"

lemma change_failure_atomic_witness:
  "\<exists>s'. mutate ex_manager_env (ex_attempt\<lparr>at_put := PutUnconfirmed\<rparr>) ex_digest ex_change ex_extension_manager =
      (Some (ErrApplyFailed True ''mihomo hot-apply failed''), s') \<and>
    left_alone (ex_attempt\<lparr>at_put := PutUnconfirmed\<rparr>) (ErrApplyFailed True ''mihomo hot-apply failed'') ex_extension_manager s' \<and>
    mm_running s' = ''old''"
proof -
  have "fst (mutate ex_manager_env (ex_attempt\<lparr>at_put := PutUnconfirmed\<rparr>) ex_digest ex_change ex_extension_manager) =
      Some (ErrApplyFailed True ''mihomo hot-apply failed'')" by code_simp
  then obtain s' where s': "mutate ex_manager_env (ex_attempt\<lparr>at_put := PutUnconfirmed\<rparr>) ex_digest ex_change ex_extension_manager =
      (Some (ErrApplyFailed True ''mihomo hot-apply failed''), s')" by (metis prod.collapse)
  from change_failure_atomic [OF s'] have
    l: "left_alone (ex_attempt\<lparr>at_put := PutUnconfirmed\<rparr>) (ErrApplyFailed True ''mihomo hot-apply failed'') ex_extension_manager s'"
    by auto
  then have "mm_running s' = ''old''"
    by (auto simp: left_alone_def put_unsettled_def ex_attempt_def ex_extension_manager_def)
  with s' l show ?thesis by blast
qed

lemma change_published_witness:
  "\<exists>s'. mutate ex_manager_env ex_attempt ex_digest ex_change ex_extension_manager = (None, s') \<and>
    holds_document ex_manager_env (mm_body s') ex_disabled \<and> mm_flushes s' = 1"
proof -
  have "fst (mutate ex_manager_env ex_attempt ex_digest ex_change ex_extension_manager) = None" by code_simp
  then obtain s' where s': "mutate ex_manager_env ex_attempt ex_digest ex_change ex_extension_manager = (None, s')"
    by (metis prod.collapse)
  have "ex_change ex_module_document = Inr (ex_disabled, True)" by code_simp
  moreover have "mm_body ex_extension_manager = [CHR ''A'', char_of (10 :: nat)]" "mm_flushes ex_extension_manager = 0"
    by (simp_all add: ex_extension_manager_def)
  moreover obtain old new routed where p: "holds_document ex_manager_env (mm_body ex_extension_manager) old"
    "ex_change old = Inr (new, routed)" "holds_document ex_manager_env (mm_body s') new"
    "if routed then published ex_manager_env ex_attempt new (mm_body s') ex_extension_manager s'
     else mm_hosts s' = mm_hosts ex_extension_manager \<and> mm_mihomo s' = mm_mihomo ex_extension_manager \<and>
       mm_running s' = mm_running ex_extension_manager \<and> mm_flushes s' = mm_flushes ex_extension_manager"
    using change_published [OF ex_json_law s'] by blast
  ultimately have "old = ex_module_document" using holds_document_unique [OF _ ex_holds(1)] by simp
  then have "new = ex_disabled" "routed" using \<open>ex_change ex_module_document = Inr (ex_disabled, True)\<close> p(2) by simp_all
  then show ?thesis using s' p(3,4) \<open>mm_flushes ex_extension_manager = 0\<close> by (simp add: published_def)
qed

lemma hosts_follow_document_witness:
  "\<exists>rs s'. manager_run ex_manager_env [ex_disable (ex_attempt\<lparr>at_put := PutUnconfirmed\<rparr>), ex_disable ex_attempt] ex_extension_manager =
      (rs, s') \<and> map snd rs = [Some (ErrApplyFailed True ''mihomo hot-apply failed''), None] \<and>
    handler_answers s' = document_answers ex_disabled"
proof -
  let ?ops = "[ex_disable (ex_attempt\<lparr>at_put := PutUnconfirmed\<rparr>), ex_disable ex_attempt]"
  obtain rs s' where run: "manager_run ex_manager_env ?ops ex_extension_manager = (rs, s')" by fastforce
  then have r: "map snd rs = [Some (ErrApplyFailed True ''mihomo hot-apply failed''), None]" "mm_body s' = [CHR ''B'', char_of (10 :: nat)]"
    using ex_run by (simp_all add: Let_def)
  have ops: "list_all (op_ok ex_manager_env) ?ops" by (simp add: ex_disable_def)
  have start: "follows ex_manager_env True ex_extension_manager"
    unfolding follows_def using ex_holds(1)
    by (intro exI [of _ ex_module_document]) (simp add: ex_extension_manager_def handler_answers_def document_answers_def fun_eq_iff)
  have "map fst rs = ?ops" using run by (auto split: prod.splits)
  moreover obtain a b where "rs = [a, b]" using r(1) by (cases rs; cases "tl rs"; auto)
  ultimately have rs: "rs = [(ex_disable (ex_attempt\<lparr>at_put := PutUnconfirmed\<rparr>), Some (ErrApplyFailed True ''mihomo hot-apply failed'')),
      (ex_disable ex_attempt, None)]"
    using r(1) by (cases a; cases b) simp
  have "list_all (\<lambda>(op, r). \<not> rollback_failed r) rs" by (simp add: rs rollback_failed_def)
  from hosts_follow_document [OF run ex_json_law ops start this] obtain d where d: "holds_document ex_manager_env (mm_body s') d"
    "handler_answers s' = document_answers d \<or> list_ex (\<lambda>(op, r). suspends op r) rs \<and> handler_answers s' = (\<lambda>_. None)" by blast
  have "\<not> list_ex (\<lambda>(op, r). suspends op r) rs" by (simp add: rs ex_disable_def)
  moreover have "d = ex_disabled" using holds_document_unique [OF _ ex_holds(2)] d(1) r(2) by simp
  ultimately have "handler_answers s' = document_answers ex_disabled" using d(2) by (simp only: simp_thms)
  with run r(1) show ?thesis by (intro exI [of _ rs] exI [of _ s'] conjI)
qed

end
