(* ===== verification/Spec2Isabelle.thy ===== *)
theory Spec2Isabelle
  imports Chnroute_CIDRs Breaker Rate_Limit Policy_Publish Upstream Query_Log Handler_Accounting Flights Reload Resolve_Test
    Sub_Tickers Fetch_Guard Policy_Engine Icp_Store Manager_Props
begin

text \<open>
  The two programs of the Privdns gateway, its DNS server (cmd/5gpn-dns) and its interception proxy
  (cmd/5gpn-intercept), modelled from their Go source.

  \<^bold>\<open>The program.\<close> A client's query enters handler.go (serveContext), passes the rate limiter
  (ratelimit.go), the panel and interception checks, and the ordered policy (policy_rules.go compiled
  by policy_compile.go over the rule files read by rules.go). A name with no rule is resolved by two
  groups of upstreams at once (upstream.go); arbitrate.go adopts the China answer when it contains an
  address of the chnroute set (chnroute.go) and the trusted answer otherwise, and rewriteA collapses
  the foreign addresses of the answer to the gateway. Answers are cached (cache.go), queries are
  logged (querylog.go) and counted (stats_persist.go). Behind the handler an operator edits the
  policy, and each change is compiled and published as a snapshot the handler loads. Names that an
  interception extension captures are answered with the gateway; their connections reach the proxy
  through SOCKS (socks.go), which terminates them and runs the scripts of the extensions on each
  request and response (module_proxy.go, module_runtime.go) before and after it forwards them.

  \<^bold>\<open>The theories\<close>, from the bottom:
  \<^item> Prelude: association lists as Go maps, option and list lemmas, the collections
    the component proofs use. Go_Net: net.IP and net/netip. Go_Url: net/url as far as it is used.
    Dns_Msg: messages, resource records and the operations of the DNS library, which is a parameter
    of the model (record dns_lib) with its documented laws as hypotheses.
  \<^item> Chnroute, Chnroute_CIDRs (chnroute.go, chnroute_cidrs.go): loading to sorted disjoint ranges,
    binary search, and the export to CIDR blocks. Main facts: membership is the union of the loaded
    blocks; the normal form; export and load are inverse except for the range zero_range names.
  \<^item> Breaker (breaker.go), Rate_Limit (ratelimit.go), Query_Log (querylog.go), Stats
    (stats_persist.go): one record and one function per method, the clock being an argument.
  \<^item> Parsers (parsers.go), Domain_Rules (rules.go): the five list formats and the matcher.
  \<^item> Policy (policy_rules.go): the manager with its file and failing saves; Policy_Runtime
    (policy_compile.go): compilation and first match; Policy_Publish (handler.go): publication
    against refresh, as a step relation.
  \<^item> Ecs (ecs.go), Upstream (upstream.go, upstreams.go): the client subnet, query preparation,
    Exchange with its breakers and the 0x20 probe.
  \<^item> Intercept_Hosts (api_intercept.go): execution order of modules and the host snapshot.
  \<^item> Cache (cache.go): every method, expiry and epochs; the locale answers states what a
    provider of cached answers promises and is interpreted on the methods.
  \<^item> Arbitrate (arbitrate.go): the decision as a function, and the two goroutines with their
    channels as a step relation whose every schedule returns the function's value.
  \<^item> Handler, Handler_Props, Handler_Safety, Handler_Accounting (handler.go): the pipeline and what
    a client can see of it. coalesceResolution is there as one query meets it: it leads, runs on its
    own, leaves, or joins another query's flight, whose message is an argument; Handler_Safety ties
    that message to a query of the same key in the same run. Flights: coalesceResolution for any
    number of callers in every interleaving. Reload: the order of stores, flush, epoch capture and
    pointer loads. Resolve_Test (resolvetest.go).
  \<^item> Atomic_File: the writers that replace a file through a temporary one, as lists of system calls
    run over a directory, with a crash model; the locale atomic_replacement is their contract.
    Go_Path: filepath.Join, Clean and Base.
  \<^item> Subscriptions, Sub_Generation, Sub_Tickers, Fetch_Guard (subscription.go): validation and one
    download; the two-phase generation (prepare, commit, rollback, publish); the tickers with their
    backoff and the interleaving of workers with a held generation; the guarded HTTP client.
  \<^item> Policy_Engine (policy_engine.go, and from main.go and handler.go the reload with swapRuleSets and
    refreshOrderedPolicy): CompileAndApply over the policy manager, the subscription manager, the disk
    and the handler, with its rollback; what loadRuleSets reads from the disk is an argument.
  \<^item> Checks: the shapes of the validators. Go_Json (json_strict.go and its copy in the proxy): strict
    decoding over a syntax tree. Go_Addr: printing of addresses, UTF-8, strconv.Atoi.
  \<^item> Icp_Hosts, Icp_Config (config.go of the proxy): host patterns, the document with every check of
    Validate, ValidateDeployment and ValidateCertificateRequest. Icp_Rules (config.go,
    module_runtime.go, module_request_rewrite.go, module_network.go): the compiled rules, matching, host mappings,
    and the URLs an extension may act on. Main facts: what matches, and where connections may go.
  \<^item> Icp_Socks (socks.go, proxy.go): client and server as parties that read and write bytes, run
    against each other by the relation duplex_step; the address and datagram codecs; UDP relays.
  \<^item> Icp_Headers, Icp_Pipeline (proxy.go, module_runtime.go, module_proxy.go, content_encoding.go): header
    and trailer import, hop-by-hop fields, script results, actions, framing, and ServeHTTP; the
    script engine, the decompressors and the upstream are arguments.
  \<^item> Icp_Store (module_runtime.go): the storage of the extensions; the locale extension_storage is what a
    script may rely on, interpreted on the store.
  \<^item> Module_Types (intercept_module_types.go, api_intercept.go): the interception document as the DNS
    process checks it, with validators of its own. Module_Agree: a document it accepts is one the
    proxy accepts. Module_Manager (intercept_module_manager.go): the transaction of the extension
    manager over the document's file, mihomo's file, the configuration mihomo runs and the handler's
    hosts, and every operation built on it. Manager_Props: failure leaves all of them alone, success
    leaves them on the new document, and the handler follows the file through any sequence.

  \<^bold>\<open>Interfaces.\<close> Each locale states what one component relies on in another and is interpreted on
  the model's definitions in the provider's theory.

  \<^bold>\<open>Bounds.\<close> No definition uses fuel except where its text says so; loops are structural or have a
  measure. Counters, epochs and revisions are 64-bit words and wrap; a theorem that needs a bound
  on the number of increments names it.

  \<^bold>\<open>What the model abstracts.\<close> float64 arithmetic of the rate limiter is rational; strings.ToLower
  and TrimSpace act on ASCII; times are whole numbers of nanoseconds; JSON encoding of a value and
  decoding it again is the identity; IPv6 zones and the latency fields of logs and probes are left
  out; A records hold IPv4 addresses. The network is a function from a question to an answer.

  \<^bold>\<open>Not modelled\<close>: the Telegram bot, the HTTP routing and rendering, process start-up, the analysis and
  rendering of mihomo's YAML documents (over trees of a third-party parser; arguments of the extension
  manager), the parser of extension manifests, the views the manager returns and the extension
  marketplace; of the proxy, the
  TLS and HTTP/3 transports, the certificates, the watcher of its configuration file and the network
  calls of scripts. The JavaScript engine is third-party code and a parameter.
\<close>

end
